(* ===== verification/Prelude.thy ===== *)
theory Prelude
  imports Main "HOL-Library.Word" "HOL-Library.Char_ord" "HOL-Library.List_Lexorder"
begin

text \<open>
  Shared vocabulary of the development: Python exceptions as values of a sum type, the few
  operations of Python's byte strings, text and JSON values the sources rely on, and the generic
  lemmas on lists and on the error monad that the component theories use.

  A Python \<^verbatim>\<open>bytes\<close> object is a list of 8-bit words, a Python \<^verbatim>\<open>int\<close> is an \<open>int\<close>, a
  Python \<^verbatim>\<open>str\<close> is a \<open>string\<close> (code points below 256; every text the modelled code builds or
  compares is ASCII), and a parsed JSON document is a \<open>jval\<close>.
\<close>

named_theorems bound_simps \<open>range facts of little-endian reads\<close>
named_theorems err_simps \<open>inversion of the error monad\<close>

section \<open>Exceptions as values\<close>

datatype exn =
    ValueError string
  | KeyError string
  | TypeError string
  | IndexError
  | StopIteration
  | AssertionError string
  | StructError
  | SystemExit string
  | Rejected string
  | SqliteError string
  | AttributeError string
  | DslError string
  | IncompleteReadError bool
  | LimitOverrunError
  | RecursionError

type_synonym 'a result = "exn + 'a"

fun ebind :: "'e + 'a \<Rightarrow> ('a \<Rightarrow> 'e + 'b) \<Rightarrow> 'e + 'b" where
  "ebind (Inl e) f = Inl e"
| "ebind (Inr x) f = f x"

fun emap :: "('a \<Rightarrow> 'e + 'b) \<Rightarrow> 'a list \<Rightarrow> 'e + 'b list" where
  "emap f [] = Inr []"
| "emap f (x # xs) = ebind (f x) (\<lambda>y. ebind (emap f xs) (\<lambda>ys. Inr (y # ys)))"

fun efold :: "('s \<Rightarrow> 'a \<Rightarrow> 'e + 's) \<Rightarrow> 's \<Rightarrow> 'a list \<Rightarrow> 'e + 's" where
  "efold f s [] = Inr s"
| "efold f s (x # xs) = ebind (f s x) (\<lambda>s'. efold f s' xs)"

fun is_value_error :: "exn \<Rightarrow> bool" where
  "is_value_error (ValueError _) = True"
| "is_value_error _ = False"

definition ok_with :: "('a \<Rightarrow> bool) \<Rightarrow> 'e + 'a \<Rightarrow> bool" where
  "ok_with P r = (case r of Inl _ \<Rightarrow> False | Inr x \<Rightarrow> P x)"

lemma ok_with_iff: "ok_with P r \<longleftrightarrow> (\<exists>x. r = Inr x \<and> P x)"
  by (cases r) (auto simp: ok_with_def)

lemma ebind_Inr_iff [err_simps]: "ebind r f = Inr y \<longleftrightarrow> (\<exists>x. r = Inr x \<and> f x = Inr y)"
  by (cases r) auto

lemma ebind_Inl_iff [err_simps]:
  "ebind r f = Inl e \<longleftrightarrow> r = Inl e \<or> (\<exists>x. r = Inr x \<and> f x = Inl e)"
  by (cases r) auto

text \<open>A chain of \<^verbatim>\<open>if ...: raise\<close> guards, read backwards from its result.\<close>

lemma guard_Inr [err_simps]: "(if c then Inl x else r) = Inr y \<longleftrightarrow> \<not> c \<and> r = Inr y"
  by simp

lemma guard_value_error:
  "(if c then Inl (ValueError m) else r) = Inl x \<Longrightarrow>
   (\<not> c \<Longrightarrow> r = Inl x \<Longrightarrow> is_value_error x) \<Longrightarrow> is_value_error x"
  by (auto split: if_splits)

lemma ok_value_error: "Inr y = Inl x \<Longrightarrow> is_value_error x"
  by simp

lemmas value_error_intros = guard_value_error ok_value_error

lemma ebind_assoc: "ebind (ebind r f) g = ebind r (\<lambda>x. ebind (f x) g)"
  by (cases r) auto

lemma ebind_Inr_right [simp]: "ebind r Inr = r"
  by (cases r) auto

lemma emap_length: "emap f xs = Inr ys \<Longrightarrow> length ys = length xs"
  by (induction xs arbitrary: ys) (auto simp: err_simps)

lemma emap_nth: "emap f xs = Inr ys \<Longrightarrow> i < length xs \<Longrightarrow> f (xs ! i) = Inr (ys ! i)"
  by (induction xs arbitrary: ys i) (auto simp: err_simps nth_Cons' less_Suc_eq_0_disj)

lemma emap_set:
  assumes "emap f xs = Inr ys" and "y \<in> set ys"
  obtains x where "x \<in> set xs" "f x = Inr y"
  using assms by (metis emap_length emap_nth in_set_conv_nth)

lemma emap_Inl: "emap f xs = Inl x \<Longrightarrow> \<exists>a \<in> set xs. f a = Inl x"
  by (induction xs) (auto simp: ebind_Inl_iff)

lemma emap_total: "(\<And>x. x \<in> set xs \<Longrightarrow> f x = Inr (g x)) \<Longrightarrow> emap f xs = Inr (map g xs)"
  by (induction xs) auto

lemma efold_append: "efold f s (xs @ ys) = ebind (efold f s xs) (\<lambda>s'. efold f s' ys)"
  by (induction xs arbitrary: s) (auto simp: ebind_assoc)

text \<open>The loop rule: what one iteration keeps, the whole loop keeps.\<close>

lemma efold_invariant:
  assumes "efold f s xs = Inr s'" and "P s"
    and "\<And>s x s'. x \<in> set xs \<Longrightarrow> P s \<Longrightarrow> f s x = Inr s' \<Longrightarrow> P s'"
  shows "P s'"
  using assms by (induction xs arbitrary: s) (auto simp: err_simps)

section \<open>Byte strings\<close>

type_synonym byte = "8 word"
type_synonym bytes = "byte list"

text \<open>Python's \<^verbatim>\<open>xs[a:b]\<close> for non-negative bounds: out-of-range bounds are clamped.\<close>

definition pyslice :: "nat \<Rightarrow> nat \<Rightarrow> 'a list \<Rightarrow> 'a list" where
  "pyslice a b xs = drop a (take b xs)"

lemma length_slice: "length (pyslice a b xs) = min b (length xs) - a"
  by (simp add: pyslice_def)

lemma length_slice_inside [simp]: "b \<le> length xs \<Longrightarrow> length (pyslice a b xs) = b - a"
  by (simp add: pyslice_def)

lemma slice_append_left [simp]: "b \<le> length xs \<Longrightarrow> pyslice a b (xs @ ys) = pyslice a b xs"
  by (simp add: pyslice_def)

lemma slice_all: "length xs \<le> b \<Longrightarrow> pyslice 0 b xs = xs"
  by (simp add: pyslice_def)

lemma slice_at: "length xs = a \<Longrightarrow> length ys = n \<Longrightarrow> pyslice a (a + n) (xs @ ys @ zs) = ys"
  by (simp add: pyslice_def)

lemma slice_glue:
  assumes "a \<le> b" "b \<le> c"
  shows "pyslice a b p @ pyslice b c p = pyslice a c p"
proof (cases "length p \<le> b")
  case True
  with assms show ?thesis by (simp add: pyslice_def)
next
  case False
  have "take c p = take b p @ drop b (take c p)"
    using assms by (metis append_take_drop_id min.absorb1 take_take)
  then have "drop a (take c p) = drop a (take b p @ drop b (take c p))" by simp
  also have "\<dots> = drop a (take b p) @ drop b (take c p)"
    using False assms by simp
  finally show ?thesis by (simp add: pyslice_def)
qed

fun le_int :: "bytes \<Rightarrow> int" where
  "le_int [] = 0"
| "le_int (b # bs) = uint b + 256 * le_int bs"

fun le_bytes :: "nat \<Rightarrow> int \<Rightarrow> bytes" where
  "le_bytes 0 v = []"
| "le_bytes (Suc n) v = word_of_int v # le_bytes n (v div 256)"

lemma length_le_bytes [simp]: "length (le_bytes n v) = n"
  by (induction n arbitrary: v) auto

lemma le_int_nonneg [simp, bound_simps]: "0 \<le> le_int bs"
  by (induction bs) auto

lemma uint_byte_less: "uint (b :: byte) < 256"
  using uint_lt2p [of b] by simp

lemma le_int_less [bound_simps]: "le_int bs < 256 ^ length bs"
proof (induction bs)
  case Nil
  then show ?case by simp
next
  case (Cons b bs)
  have "le_int bs + 1 \<le> 256 ^ length bs" using Cons.IH by simp
  then have "256 * (le_int bs + 1) \<le> 256 * 256 ^ length bs" by simp
  with uint_byte_less [of b] show ?case by simp
qed

lemma le_int_le_bytes: "0 \<le> v \<Longrightarrow> v < 256 ^ n \<Longrightarrow> le_int (le_bytes n v) = v"
proof (induction n arbitrary: v)
  case 0
  then show ?case by simp
next
  case (Suc n)
  have "v div 256 < 256 ^ n" using Suc.prems by (simp add: div_less_iff_less_mult)
  with Suc have "le_int (le_bytes n (v div 256)) = v div 256" by simp
  moreover have "uint (word_of_int v :: byte) = v mod 256"
    by (simp add: uint_word_of_int)
  ultimately show ?case by simp
qed

lemma le_bytes_le_int: "le_bytes (length bs) (le_int bs) = bs"
proof (induction bs)
  case Nil
  then show ?case by simp
next
  case (Cons b bs)
  have "(uint b + 256 * le_int bs) div 256 = le_int bs"
    using uint_byte_less [of b] by (simp add: div_pos_pos_trivial)
  moreover have "word_of_int (uint b + 256 * le_int bs) = b"
  proof -
    have "(256 :: byte) = 0" by simp
    then have "(256 :: byte) * x = 0" for x by (metis mult_zero_left)
    then show ?thesis by simp
  qed
  ultimately show ?case using Cons by simp
qed

lemma le_int_inj: "length xs = length ys \<Longrightarrow> le_int xs = le_int ys \<Longrightarrow> xs = ys"
  by (metis le_bytes_le_int)

text \<open>Field reads of \<^verbatim>\<open>struct.unpack_from\<close> at a fixed offset of a long enough buffer.\<close>

definition u8 :: "bytes \<Rightarrow> nat \<Rightarrow> int" where "u8 p off = le_int (pyslice off (off + 1) p)"
definition u16 :: "bytes \<Rightarrow> nat \<Rightarrow> int" where "u16 p off = le_int (pyslice off (off + 2) p)"
definition u32 :: "bytes \<Rightarrow> nat \<Rightarrow> int" where "u32 p off = le_int (pyslice off (off + 4) p)"
definition u64 :: "bytes \<Rightarrow> nat \<Rightarrow> int" where "u64 p off = le_int (pyslice off (off + 8) p)"

definition signed_of :: "nat \<Rightarrow> int \<Rightarrow> int" where
  "signed_of w v = (if v < 2 ^ (w - 1) then v else v - 2 ^ w)"

definition i16 :: "bytes \<Rightarrow> nat \<Rightarrow> int" where "i16 p off = signed_of 16 (u16 p off)"
definition i32 :: "bytes \<Rightarrow> nat \<Rightarrow> int" where "i32 p off = signed_of 32 (u32 p off)"


lemma le_int_slice_less: "le_int (pyslice off (off + n) p) < 256 ^ n"
proof -
  have "length (pyslice off (off + n) p) \<le> n" by (simp add: length_slice)
  then have "(256 :: int) ^ length (pyslice off (off + n) p) \<le> 256 ^ n"
    by (rule power_increasing) simp
  with le_int_less [of "pyslice off (off + n) p"] show ?thesis by linarith
qed

lemma u8_bounds [simp, bound_simps]: "0 \<le> u8 p off" "u8 p off < 256"
  using le_int_slice_less [of off 1 p] by (auto simp: u8_def)

lemma u16_bounds [simp, bound_simps]: "0 \<le> u16 p off" "u16 p off < 65536"
  using le_int_slice_less [of off 2 p] by (auto simp: u16_def)

lemma u32_bounds [simp, bound_simps]: "0 \<le> u32 p off" "u32 p off < 4294967296"
  using le_int_slice_less [of off 4 p] by (auto simp: u32_def)

lemma u64_bounds [simp, bound_simps]: "0 \<le> u64 p off" "u64 p off < 18446744073709551616"
  using le_int_slice_less [of off 8 p] by (auto simp: u64_def)

lemma u16_eqD: "u16 p i = u16 q i \<Longrightarrow> i + 2 \<le> length p \<Longrightarrow> i + 2 \<le> length q \<Longrightarrow>
    pyslice i (i + 2) p = pyslice i (i + 2) q"
  unfolding u16_def by (rule le_int_inj) simp_all

lemma u32_eqD: "u32 p i = u32 q i \<Longrightarrow> i + 4 \<le> length p \<Longrightarrow> i + 4 \<le> length q \<Longrightarrow>
    pyslice i (i + 4) p = pyslice i (i + 4) q"
  unfolding u32_def by (rule le_int_inj) simp_all

lemma u64_eqD: "u64 p i = u64 q i \<Longrightarrow> i + 8 \<le> length p \<Longrightarrow> i + 8 \<le> length q \<Longrightarrow>
    pyslice i (i + 8) p = pyslice i (i + 8) q"
  unfolding u64_def by (rule le_int_inj) simp_all

lemma signed_of_inj:
  assumes "signed_of w x = signed_of w y" "0 \<le> x" "x < 2 ^ w" "0 \<le> y" "y < 2 ^ w"
  shows "x = y"
  using assms by (auto simp: signed_of_def split: if_splits)

text \<open>Equal prefixes extend over an equal field; a whole buffer is its longest prefix.\<close>

lemma prefix_extend:
  "pyslice 0 a p = pyslice 0 a q \<Longrightarrow> pyslice a b p = pyslice a b q \<Longrightarrow> a \<le> b \<Longrightarrow>
   pyslice 0 b p = pyslice 0 b q"
  by (metis slice_glue zero_le)

text \<open>A run of \<open>n\<close> consecutive 32-bit fields.\<close>

fun u32s :: "bytes \<Rightarrow> nat \<Rightarrow> nat \<Rightarrow> int list" where
  "u32s p a 0 = []"
| "u32s p a (Suc n) = u32 p a # u32s p (a + 4) n"

lemma u32s_numeral [simp]: "u32s p a (numeral k) = u32 p a # u32s p (a + 4) (pred_numeral k)"
  by (simp add: numeral_eq_Suc)

lemma prefix_u32s:
  "pyslice 0 a p = pyslice 0 a q \<Longrightarrow> u32s p a n = u32s q a n \<Longrightarrow>
   a + 4 * n \<le> length p \<Longrightarrow> length p = length q \<Longrightarrow>
   pyslice 0 (a + 4 * n) p = pyslice 0 (a + 4 * n) q"
proof (induction n arbitrary: a)
  case 0
  then show ?case by simp
next
  case (Suc n)
  have "pyslice a (a + 4) p = pyslice a (a + 4) q" using Suc.prems by (intro u32_eqD) auto
  with Suc.prems(1) have "pyslice 0 (a + 4) p = pyslice 0 (a + 4) q" by (rule prefix_extend) simp
  from Suc.IH [OF this] Suc.prems show ?case by (simp add: add.assoc)
qed

text \<open>
  \<open>put off xs buf\<close> is the pyslice assignment \<^verbatim>\<open>buf[off:off+len(xs)] = xs\<close> of a \<^verbatim>\<open>bytearray\<close>, and
  with \<open>pack_u32\<close> and its kin the \<^verbatim>\<open>struct.pack_into\<close> calls of the sources.
\<close>

definition put :: "nat \<Rightarrow> 'a list \<Rightarrow> 'a list \<Rightarrow> 'a list" where
  "put off xs buf = take off buf @ xs @ drop (off + length xs) buf"

lemma length_put [simp]: "off + length xs \<le> length buf \<Longrightarrow> length (put off xs buf) = length buf"
  by (simp add: put_def)

lemma slice_put_same [simp]:
  "off + length xs \<le> length buf \<Longrightarrow> b = off + length xs \<Longrightarrow> pyslice off b (put off xs buf) = xs"
  by (simp add: put_def pyslice_def)

lemma nth_put:
  "off + length xs \<le> length buf \<Longrightarrow> i < length buf \<Longrightarrow>
   put off xs buf ! i = (if off \<le> i \<and> i < off + length xs then xs ! (i - off) else buf ! i)"
  by (auto simp: put_def nth_append)

lemma slice_put_other:
  assumes "off + length xs \<le> length buf" and "b \<le> length buf"
    and "b \<le> off \<or> off + length xs \<le> a"
  shows "pyslice a b (put off xs buf) = pyslice a b buf"
  by (rule nth_equalityI) (use assms in \<open>auto simp: pyslice_def nth_put\<close>)

definition pack_u32 :: "int \<Rightarrow> bytes result" where
  "pack_u32 v = (if 0 \<le> v \<and> v < 4294967296 then Inr (le_bytes 4 v) else Inl StructError)"

definition pack_u64 :: "int \<Rightarrow> bytes result" where
  "pack_u64 v = (if 0 \<le> v \<and> v < 18446744073709551616 then Inr (le_bytes 8 v) else Inl StructError)"

text \<open>Item assignment \<^verbatim>\<open>buf[i] = v\<close> of a \<^verbatim>\<open>bytearray\<close> refuses values outside a byte.\<close>

definition set_byte :: "nat \<Rightarrow> int \<Rightarrow> bytes \<Rightarrow> bytes result" where
  "set_byte i v buf =
     (if length buf \<le> i then Inl IndexError
      else if 0 \<le> v \<and> v < 256 then Inr (buf[i := word_of_int v])
      else Inl (ValueError ''byte must be in range(0, 256)''))"

lemma slice_list_update_other [simp]:
  "i < a \<or> b \<le> i \<Longrightarrow> pyslice a b (xs[i := v]) = pyslice a b xs"
  by (auto simp: pyslice_def take_update_swap drop_update_swap list_update_beyond)

text \<open>\<^verbatim>\<open>bytes.find\<close>: the first index at or after \<open>i\<close> where \<open>sub\<close> occurs.\<close>

fun is_prefix :: "'a list \<Rightarrow> 'a list \<Rightarrow> bool" where
  "is_prefix [] ys = True"
| "is_prefix (x # xs) [] = False"
| "is_prefix (x # xs) (y # ys) = (x = y \<and> is_prefix xs ys)"

lemma is_prefix_iff: "is_prefix xs ys \<longleftrightarrow> (\<exists>zs. ys = xs @ zs)"
  by (induction xs ys rule: is_prefix.induct) auto

lemma is_prefix_take: "is_prefix xs ys \<longleftrightarrow> take (length xs) ys = xs"
  by (induction xs ys rule: is_prefix.induct) auto

fun find_at :: "'a list \<Rightarrow> nat \<Rightarrow> 'a list \<Rightarrow> nat option" where
  "find_at sub i [] = (if sub = [] then Some i else None)"
| "find_at sub i (x # xs) =
     (if is_prefix sub (x # xs) then Some i else find_at sub (Suc i) xs)"

definition find_from :: "'a list \<Rightarrow> nat \<Rightarrow> 'a list \<Rightarrow> nat option" where
  "find_from sub i xs = (if i \<le> length xs then find_at sub i (drop i xs) else None)"

lemma find_at_Some:
  "find_at sub i xs = Some j \<Longrightarrow>
   i \<le> j \<and> is_prefix sub (drop (j - i) xs) \<and> j - i + length sub \<le> length xs \<and>
   (\<forall>k. i \<le> k \<longrightarrow> k < j \<longrightarrow> \<not> is_prefix sub (drop (k - i) xs))"
proof (induction xs arbitrary: i)
  case Nil
  then show ?case by (auto split: if_splits)
next
  case (Cons x xs)
  show ?case
  proof (cases "is_prefix sub (x # xs)")
    case True
    with Cons.prems show ?thesis by (auto simp: is_prefix_iff) (metis le_add1 length_Cons length_append)
  next
    case False
    with Cons.prems have "find_at sub (Suc i) xs = Some j" by simp
    note j = Cons.IH [OF this]
    have d: "drop (k - i) (x # xs) = drop (k - Suc i) xs" if "Suc i \<le> k" for k
      using that by (metis Suc_diff_le Suc_le_lessD diff_Suc_Suc drop_Suc_Cons less_imp_le_nat)
    have "\<not> is_prefix sub (drop (k - i) (x # xs))" if "i \<le> k" "k < j" for k
    proof (cases "k = i")
      case True
      with False show ?thesis by simp
    next
      case False
      with that have "Suc i \<le> k" by simp
      with j that d show ?thesis by simp
    qed
    moreover have "j - i + length sub \<le> length (x # xs)" using j by auto
    moreover have "is_prefix sub (drop (j - i) (x # xs))" using j d by simp
    ultimately show ?thesis using j by simp
  qed
qed

lemma find_from_Some:
  assumes "find_from sub i xs = Some j"
  shows "i \<le> j" and "pyslice j (j + length sub) xs = sub" and "j + length sub \<le> length xs"
    and "\<And>k. i \<le> k \<Longrightarrow> k < j \<Longrightarrow> pyslice k (k + length sub) xs \<noteq> sub"
proof -
  from assms have i: "i \<le> length xs" and f: "find_at sub i (drop i xs) = Some j"
    by (auto simp: find_from_def split: if_splits)
  note * = find_at_Some [OF f]
  then show "i \<le> j" and b: "j + length sub \<le> length xs" using i by auto
  have d: "drop (k - i) (drop i xs) = drop k xs" if "i \<le> k" for k using that by simp
  have sl: "pyslice k (k + length sub) xs = take (length sub) (drop k xs)" for k
    by (simp add: pyslice_def drop_take)
  from * d [of j] show "pyslice j (j + length sub) xs = sub" by (simp only: sl is_prefix_take)
  fix k assume "i \<le> k" "k < j"
  with * have "\<not> is_prefix sub (drop (k - i) (drop i xs))" by auto
  then show "pyslice k (k + length sub) xs \<noteq> sub"
    using \<open>i \<le> k\<close> by (simp add: is_prefix_take sl)
qed

section \<open>One value per key\<close>

text \<open>
  \<open>consistent_with K I m S\<close>: the elements of \<open>S\<close> agree, key by key, with the map \<open>m\<close> of the
  values already recorded and with each other. It is what a loop over \<^verbatim>\<open>dict.setdefault\<close> checks.
\<close>

definition consistent_with :: "('e \<Rightarrow> 'k) \<Rightarrow> ('e \<Rightarrow> 'i) \<Rightarrow> ('k \<rightharpoonup> 'i) \<Rightarrow> 'e set \<Rightarrow> bool" where
  "consistent_with K I m S \<longleftrightarrow>
     (\<forall>e \<in> S. \<forall>x. m (K e) = Some x \<longrightarrow> I e = x) \<and>
     (\<forall>e \<in> S. \<forall>d \<in> S. m (K e) = None \<longrightarrow> K e = K d \<longrightarrow> I e = I d)"

lemma consistent_withI:
  assumes "\<And>e x. e \<in> S \<Longrightarrow> m (K e) = Some x \<Longrightarrow> I e = x"
    and "\<And>e d. e \<in> S \<Longrightarrow> d \<in> S \<Longrightarrow> m (K e) = None \<Longrightarrow> K e = K d \<Longrightarrow> I e = I d"
  shows "consistent_with K I m S"
  unfolding consistent_with_def by (intro conjI ballI allI impI; fact assms)

lemma consistent_withD:
  assumes "consistent_with K I m S" "e \<in> S"
  shows "m (K e) = Some x \<Longrightarrow> I e = x"
    and "d \<in> S \<Longrightarrow> m (K e) = None \<Longrightarrow> K e = K d \<Longrightarrow> I e = I d"
  using assms unfolding consistent_with_def by blast+

lemma consistent_with_insert_None:
  assumes "m (K e) = None"
  shows "consistent_with K I m (insert e S) \<longleftrightarrow> consistent_with K I (m(K e \<mapsto> I e)) S"
proof
  assume L: "consistent_with K I m (insert e S)"
  show "consistent_with K I (m(K e \<mapsto> I e)) S"
  proof (rule consistent_withI)
    fix d x assume d: "d \<in> S" and x: "(m(K e \<mapsto> I e)) (K d) = Some x"
    show "I d = x"
    proof (cases "K d = K e")
      case True
      with x have "x = I e" by simp
      moreover have "I d = I e"
        by (rule consistent_withD(2) [OF L]) (use d True assms in simp_all)
      ultimately show ?thesis by simp
    next
      case False
      with x have "m (K d) = Some x" by simp
      then show ?thesis by (rule consistent_withD(1) [OF L, rotated]) (use d in simp)
    qed
  next
    fix d d' assume d: "d \<in> S" "d' \<in> S" and n: "(m(K e \<mapsto> I e)) (K d) = None" and k: "K d = K d'"
    from n have "m (K d) = None" by (simp split: if_splits)
    then show "I d = I d'" by (rule consistent_withD(2) [OF L, rotated 2]) (use d k in simp_all)
  qed
next
  assume R: "consistent_with K I (m(K e \<mapsto> I e)) S"
  have same: "I d = I e" if "d \<in> S" "K d = K e" for d
    by (rule consistent_withD(1) [OF R that(1)]) (simp add: that)
  show "consistent_with K I m (insert e S)"
  proof (rule consistent_withI)
    fix d x assume "d \<in> insert e S" "m (K d) = Some x"
    then have "d \<in> S" "(m(K e \<mapsto> I e)) (K d) = Some x" using assms by auto
    then show "I d = x" by (rule consistent_withD(1) [OF R])
  next
    fix d d' assume d: "d \<in> insert e S" "d' \<in> insert e S" "m (K d) = None" and k: "K d = K d'"
    show "I d = I d'"
    proof (cases "K d = K e")
      case True
      then have "I d = I e" "I d' = I e" using d k same by auto
      then show ?thesis by simp
    next
      case False
      then have "d \<in> S" "d' \<in> S" "(m(K e \<mapsto> I e)) (K d) = None" using d k by auto
      then show ?thesis using k by (rule consistent_withD(2) [OF R])
    qed
  qed
qed

lemma consistent_with_insert_Some:
  assumes "m (K e) = Some (I e)"
  shows "consistent_with K I m (insert e S) \<longleftrightarrow> consistent_with K I m S"
proof
  assume "consistent_with K I m (insert e S)"
  then show "consistent_with K I m S" unfolding consistent_with_def by blast
next
  assume R: "consistent_with K I m S"
  show "consistent_with K I m (insert e S)"
  proof (rule consistent_withI)
    fix d x assume "d \<in> insert e S" "m (K d) = Some x"
    then show "I d = x" using assms consistent_withD(1) [OF R] by auto
  next
    fix d d' assume d: "d \<in> insert e S" "d' \<in> insert e S" "m (K d) = None" and k: "K d = K d'"
    with assms have "d \<noteq> e" "d' \<noteq> e" by auto
    with d k show "I d = I d'" using consistent_withD(2) [OF R] by blast
  qed
qed

section \<open>Reading back a packed field\<close>

lemma pyslice_skip: "length xs \<le> a \<Longrightarrow> pyslice a b (xs @ ys) = pyslice (a - length xs) (b - length xs) ys"
  by (cases "b \<le> length xs") (auto simp: pyslice_def)

lemma u_at:
  assumes "length xs = off"
  shows "0 \<le> v \<Longrightarrow> v < 65536 \<Longrightarrow> u16 (xs @ le_bytes 2 v @ ys) off = v"
    "0 \<le> v \<Longrightarrow> v < 4294967296 \<Longrightarrow> u32 (xs @ le_bytes 4 v @ ys) off = v"
    "0 \<le> v \<Longrightarrow> v < 18446744073709551616 \<Longrightarrow> u64 (xs @ le_bytes 8 v @ ys) off = v"
  unfolding u16_def u32_def u64_def
  using slice_at [OF assms, of "le_bytes 2 v" 2 ys] slice_at [OF assms, of "le_bytes 4 v" 4 ys]
    slice_at [OF assms, of "le_bytes 8 v" 8 ys] le_int_le_bytes [of v]
  by (simp_all add: numeral_eq_Suc del: le_bytes.simps)

end
