(* ===== verification/Py_Text.thy ===== *)
theory Py_Text
  imports Prelude "HOL-Library.AList"
begin

text \<open>
  Python text and JSON values: decimal and hexadecimal conversion, the \<^verbatim>\<open>split\<close> family, and the
  parsed JSON documents that the collector, the exporter and the joins exchange. \<open>dumps\<close> is
  \<^verbatim>\<open>json.dumps(value, sort_keys=True, separators=(",", ":"), ensure_ascii=True)\<close>; documents
  hold no floating-point numbers (no producer of the modelled code writes one).
\<close>

section \<open>Characters and numbers\<close>

definition is_digit :: "char \<Rightarrow> bool" where
  "is_digit c = (48 \<le> (of_char c :: nat) \<and> (of_char c :: nat) \<le> 57)"

definition digit_char :: "nat \<Rightarrow> char" where
  "digit_char d = char_of (48 + d)"

definition digit_val :: "char \<Rightarrow> nat" where
  "digit_val c = of_char c - 48"

text \<open>White space of \<^verbatim>\<open>str\<close>, and the smaller set that \<^verbatim>\<open>bytes.fromhex\<close> skips.\<close>

definition is_ascii_space :: "char \<Rightarrow> bool" where
  "is_ascii_space c = ((of_char c :: nat) = 32 \<or> (9 \<le> (of_char c :: nat) \<and> (of_char c :: nat) \<le> 13))"

definition is_space :: "char \<Rightarrow> bool" where
  "is_space c =
     (is_ascii_space c \<or> (28 \<le> (of_char c :: nat) \<and> (of_char c :: nat) \<le> 31) \<or>
      (of_char c :: nat) = 133 \<or> (of_char c :: nat) = 160)"

definition strip :: "string \<Rightarrow> string" where
  "strip s = rev (dropWhile is_space (rev (dropWhile is_space s)))"

fun str_nat :: "nat \<Rightarrow> string" where
  "str_nat n = (if n < 10 then [digit_char n] else str_nat (n div 10) @ [digit_char (n mod 10)])"

declare str_nat.simps [simp del]

definition str_int :: "int \<Rightarrow> string" where
  "str_int i = (if i < 0 then CHR ''-'' # str_nat (nat (- i)) else str_nat (nat i))"

text \<open>
  \<^verbatim>\<open>int(text)\<close>: surrounding white space, a sign, then decimal digits with single underscores
  between them.
\<close>

fun parse_digits :: "int \<Rightarrow> bool \<Rightarrow> string \<Rightarrow> int option" where
  "parse_digits acc ok [] = (if ok then Some acc else None)"
| "parse_digits acc ok (c # cs) =
     (if is_digit c then parse_digits (acc * 10 + int (digit_val c)) True cs
      else if c = CHR ''_'' \<and> ok then parse_digits acc False cs
      else None)"

definition parse_int :: "string \<Rightarrow> int result" where
  "parse_int s =
     (case (case strip s of
              [] \<Rightarrow> None
            | c # cs \<Rightarrow>
                if c = CHR ''-'' then map_option uminus (parse_digits 0 False cs)
                else if c = CHR ''+'' then parse_digits 0 False cs
                else parse_digits 0 False (c # cs)) of
        None \<Rightarrow> Inl (ValueError ''invalid literal for int() with base 10'')
      | Some i \<Rightarrow> Inr i)"

lemma parse_int_value_error: "parse_int s = Inl x \<Longrightarrow> is_value_error x"
  by (auto simp: parse_int_def split: option.splits)

lemma digit_char_props:
  assumes "d < 10"
  shows "is_digit (digit_char d)" and "digit_val (digit_char d) = d"
  using assms by (simp_all add: is_digit_def digit_char_def digit_val_def)

lemma parse_digits_append_True:
  "\<forall>c \<in> set xs. is_digit c \<Longrightarrow>
   parse_digits acc True (xs @ ys) =
   parse_digits (foldl (\<lambda>a c. a * 10 + int (digit_val c)) acc xs) True ys"
  by (induction xs arbitrary: acc) auto

lemma parse_digits_append:
  "xs \<noteq> [] \<Longrightarrow> \<forall>c \<in> set xs. is_digit c \<Longrightarrow>
   parse_digits acc ok (xs @ ys) =
   parse_digits (foldl (\<lambda>a c. a * 10 + int (digit_val c)) acc xs) True ys"
  by (cases xs) (auto simp: parse_digits_append_True)

lemma str_nat_digits: "\<forall>c \<in> set (str_nat n). is_digit c" and str_nat_nonempty: "str_nat n \<noteq> []"
proof -
  show "\<forall>c \<in> set (str_nat n). is_digit c"
  proof (induction n rule: str_nat.induct)
    case (1 n)
    then show ?case
      by (subst str_nat.simps) (auto simp: digit_char_props)
  qed
  show "str_nat n \<noteq> []" by (subst str_nat.simps) simp
qed

lemma foldl_str_nat:
  "foldl (\<lambda>a c. a * 10 + int (digit_val c)) 0 (str_nat n) = int n"
proof (induction n rule: str_nat.induct)
  case (1 n)
  show ?case
  proof (cases "n < 10")
    case True
    then show ?thesis by (subst str_nat.simps) (simp add: digit_char_props)
  next
    case False
    with 1 have "foldl (\<lambda>a c. a * 10 + int (digit_val c)) 0 (str_nat (n div 10)) = int (n div 10)"
      by simp
    with False have "foldl (\<lambda>a c. a * 10 + int (digit_val c)) 0 (str_nat n) =
        int (n div 10) * 10 + int (n mod 10)"
      by (subst str_nat.simps) (simp add: digit_char_props)
    then show ?thesis by presburger
  qed
qed

lemma is_digit_not_special:
  assumes "is_digit c"
  shows "\<not> is_space c" and "c \<noteq> CHR ''-''" and "c \<noteq> CHR ''+''" and "c \<noteq> CHR '':''"
    and "c \<noteq> CHR ''.''"
  using assms by (auto simp: is_digit_def is_space_def is_ascii_space_def)

lemma strip_id: "s \<noteq> [] \<Longrightarrow> \<not> is_space (hd s) \<Longrightarrow> \<not> is_space (last s) \<Longrightarrow> strip s = s"
proof -
  assume "s \<noteq> []" "\<not> is_space (hd s)" "\<not> is_space (last s)"
  then have "dropWhile is_space s = s" "dropWhile is_space (rev s) = rev s"
    by (simp_all add: dropWhile_eq_self_iff hd_rev)
  then show "strip s = s" by (simp add: strip_def)
qed

lemma parse_int_str_int [simp]: "parse_int (str_int i) = Inr i"
proof -
  let ?n = "nat \<bar>i\<bar>"
  have digs: "\<forall>c \<in> set (str_nat ?n). is_digit c" and ne: "str_nat ?n \<noteq> []"
    by (rule str_nat_digits, rule str_nat_nonempty)
  have pd: "parse_digits 0 False (str_nat ?n) = Some (int ?n)"
    using parse_digits_append [OF ne digs, of 0 False "[]"] by (simp add: foldl_str_nat)
  have last: "\<not> is_space (last (str_nat ?n))"
    using digs ne is_digit_not_special(1) last_in_set by blast
  obtain c cs where c: "str_nat ?n = c # cs" using ne by (cases "str_nat ?n") auto
  have dc: "is_digit c" using digs c by simp
  show ?thesis
  proof (cases "i < 0")
    case True
    have "strip (CHR ''-'' # str_nat ?n) = CHR ''-'' # str_nat ?n"
      by (rule strip_id) (use ne last in \<open>auto simp: is_space_def is_ascii_space_def\<close>)
    with True pd show ?thesis by (simp add: parse_int_def str_int_def)
  next
    case False
    have "strip (str_nat ?n) = str_nat ?n"
      by (rule strip_id) (use ne last c dc is_digit_not_special(1) in auto)
    with False pd c is_digit_not_special [OF dc] show ?thesis
      by (simp add: parse_int_def str_int_def)
  qed
qed

lemma str_int_inj [simp]: "str_int i = str_int j \<longleftrightarrow> i = j"
  by (metis parse_int_str_int sum.inject(2))

section \<open>Hexadecimal\<close>

definition hex_char :: "nat \<Rightarrow> char" where
  "hex_char n = (if n < 10 then char_of (48 + n) else char_of (87 + n))"

definition hex_val :: "char \<Rightarrow> nat option" where
  "hex_val c =
     (let n = of_char c in
      if 48 \<le> n \<and> n \<le> 57 then Some (n - 48)
      else if 97 \<le> n \<and> n \<le> 102 then Some (n - 87)
      else if 65 \<le> n \<and> n \<le> 70 then Some (n - 55)
      else None)"

definition hex_byte :: "byte \<Rightarrow> string" where
  "hex_byte b = [hex_char (unat b div 16), hex_char (unat b mod 16)]"

definition to_hex :: "bytes \<Rightarrow> string" where
  "to_hex bs = concat (map hex_byte bs)"

text \<open>\<^verbatim>\<open>bytes.fromhex\<close> skips white space before a byte's two digits.\<close>

fun from_hex :: "string \<Rightarrow> bytes result" where
  "from_hex [] = Inr []"
| "from_hex (c # cs) =
     (if is_ascii_space c then from_hex cs
      else case cs of
        [] \<Rightarrow> Inl (ValueError ''non-hexadecimal number found in fromhex() arg'')
      | d # ds \<Rightarrow>
         (case (hex_val c, hex_val d) of
            (Some x, Some y) \<Rightarrow> ebind (from_hex ds) (\<lambda>bs. Inr (word_of_nat (16 * x + y) # bs))
          | _ \<Rightarrow> Inl (ValueError ''non-hexadecimal number found in fromhex() arg'')))"

lemma hex_char_props: "n < 16 \<Longrightarrow> hex_val (hex_char n) = Some n \<and> \<not> is_ascii_space (hex_char n)"
  by (auto simp: hex_val_def hex_char_def is_ascii_space_def Let_def)

lemma unat_byte_less: "unat (b :: byte) < 256"
  using unsigned_less [of b, where 'a = nat] by simp

lemma from_hex_to_hex [simp]: "from_hex (to_hex bs) = Inr bs"
proof (induction bs)
  case Nil
  then show ?case by (simp add: to_hex_def)
next
  case (Cons b bs)
  have "unat b div 16 < 16" using unat_byte_less [of b] by linarith
  moreover have "unat b mod 16 < 16" by simp
  moreover have "word_of_nat (16 * (unat b div 16) + unat b mod 16) = b" by simp
  ultimately show ?case
    using Cons by (simp add: to_hex_def hex_byte_def hex_char_props)
qed

lemma to_hex_inj [simp]: "to_hex xs = to_hex ys \<longleftrightarrow> xs = ys"
  by (metis from_hex_to_hex sum.inject(2))

lemma length_to_hex [simp]: "length (to_hex bs) = 2 * length bs"
  by (induction bs) (auto simp: to_hex_def hex_byte_def)

lemma from_hex_value_error: "from_hex s = Inl e \<Longrightarrow> is_value_error e"
  by (induction s arbitrary: e rule: from_hex.induct)
    (auto split: if_splits list.splits option.splits simp: err_simps)

section \<open>Splitting and joining\<close>

fun split_on :: "char \<Rightarrow> string \<Rightarrow> string list" where
  "split_on c [] = [[]]"
| "split_on c (x # xs) =
     (if x = c then [] # split_on c xs
      else case split_on c xs of [] \<Rightarrow> [[x]] | y # ys \<Rightarrow> (x # y) # ys)"

text \<open>\<^verbatim>\<open>s.split(c, n)\<close>: at most \<open>n\<close> splits, from the left.\<close>

fun split_max :: "nat \<Rightarrow> char \<Rightarrow> string \<Rightarrow> string list" where
  "split_max 0 c s = [s]"
| "split_max (Suc n) c s =
     (case dropWhile (\<lambda>x. x \<noteq> c) s of
        [] \<Rightarrow> [s]
      | _ # rest \<Rightarrow> takeWhile (\<lambda>x. x \<noteq> c) s # split_max n c rest)"

text \<open>\<^verbatim>\<open>s.rsplit(c, 1)\<close>: the text before and after the last \<open>c\<close>.\<close>

definition rsplit1 :: "char \<Rightarrow> string \<Rightarrow> string list" where
  "rsplit1 c s = map rev (rev (split_max 1 c (rev s)))"

fun join :: "string \<Rightarrow> string list \<Rightarrow> string" where
  "join sep [] = []"
| "join sep [x] = x"
| "join sep (x # y # xs) = x @ sep @ join sep (y # xs)"

lemma split_on_nonempty [simp]: "split_on c s \<noteq> []"
  by (cases s) (auto split: list.splits)

lemma split_on_no_sep: "c \<notin> set s \<Longrightarrow> split_on c s = [s]"
  by (induction s) auto

lemma split_on_append: "c \<notin> set s \<Longrightarrow> split_on c (s @ c # t) = s # split_on c t"
  by (induction s) auto

lemma split_on_join:
  "xs \<noteq> [] \<Longrightarrow> \<forall>x \<in> set xs. c \<notin> set x \<Longrightarrow> split_on c (join [c] xs) = xs"
  by (induction xs rule: induct_list012)
    (auto simp: split_on_no_sep split_on_append)

lemma split_max_append: "c \<notin> set s \<Longrightarrow> split_max (Suc n) c (s @ c # t) = s # split_max n c t"
  by (simp add: takeWhile_append2 dropWhile_append2 split: list.splits)
    (auto simp: dropWhile_append takeWhile_append)

lemma rsplit1_append: "c \<notin> set t \<Longrightarrow> rsplit1 c (s @ c # t) = [s, t]"
  using split_max_append [of c "rev t" 0 "rev s"] by (simp add: rsplit1_def)

section \<open>JSON documents\<close>

datatype jval =
    JNull
  | JBool bool
  | JInt int
  | JStr string
  | JArr "jval list"
  | JObj "(string \<times> jval) list"

type_synonym jobj = "(string \<times> jval) list"

text \<open>Python's truth value of a document, and \<^verbatim>\<open>dict.get\<close> with the default \<^verbatim>\<open>None\<close>.\<close>

fun truthy :: "jval \<Rightarrow> bool" where
  "truthy JNull = False"
| "truthy (JBool b) = b"
| "truthy (JInt i) = (i \<noteq> 0)"
| "truthy (JStr s) = (s \<noteq> [])"
| "truthy (JArr xs) = (xs \<noteq> [])"
| "truthy (JObj xs) = (xs \<noteq> [])"

definition jget :: "jobj \<Rightarrow> string \<Rightarrow> jval" where
  "jget d k = (case map_of d k of None \<Rightarrow> JNull | Some v \<Rightarrow> v)"

text \<open>\<^verbatim>\<open>d[k]\<close>, which raises where the key is absent.\<close>

definition jitem :: "jobj \<Rightarrow> string \<Rightarrow> jval result" where
  "jitem d k = (case map_of d k of None \<Rightarrow> Inl (KeyError k) | Some v \<Rightarrow> Inr v)"

definition esc_char :: "char \<Rightarrow> string" where
  "esc_char c =
     (let n = (of_char c :: nat) in
      if n = 34 then [CHR 0x5C, CHR 0x22]
      else if n = 92 then [CHR 0x5C, CHR 0x5C]
      else if n = 10 then [CHR 0x5C, CHR ''n'']
      else if n = 13 then [CHR 0x5C, CHR ''r'']
      else if n = 9 then [CHR 0x5C, CHR ''t'']
      else if n = 12 then [CHR 0x5C, CHR ''f'']
      else if n = 8 then [CHR 0x5C, CHR ''b'']
      else if 32 \<le> n \<and> n \<le> 126 then [c]
      else CHR 0x5C # ''u00'' @ [hex_char (n div 16), hex_char (n mod 16)])"

definition dumps_str :: "string \<Rightarrow> string" where
  "dumps_str s = CHR 0x22 # concat (map esc_char s) @ [CHR 0x22]"

fun dumps :: "jval \<Rightarrow> string" where
  "dumps JNull = ''null''"
| "dumps (JBool b) = (if b then ''true'' else ''false'')"
| "dumps (JInt i) = str_int i"
| "dumps (JStr s) = dumps_str s"
| "dumps (JArr xs) = ''['' @ join '','' (map dumps xs) @ '']''"
| "dumps (JObj kvs) =
     CHR 0x7B # join '',''
       (map (\<lambda>(k, t). dumps_str k @ '':'' @ t)
          (sort_key fst (map (\<lambda>(k, v). (k, dumps v)) kvs))) @ [CHR 0x7D]"

lemma jget_update [simp]: "jget (AList.update k v d) k' = (if k' = k then v else jget d k')"
  by (simp add: jget_def update_conv)

lemma jget_delete: "jget (AList.delete k d) k' = (if k' = k then JNull else jget d k')"
  by (simp add: jget_def delete_conv)


section \<open>UTF-8 and JSON string literals\<close>

text \<open>
  Text decoded from bytes may hold any code point, so it is a list of numbers. \<open>utf8_decode\<close> is
  Python's strict decoder (no overlong form, no surrogate, nothing above 0x10FFFF).
\<close>

type_synonym utext = "nat list"

definition cont_byte :: "byte \<Rightarrow> bool" where
  "cont_byte b \<longleftrightarrow> 128 \<le> unat b \<and> unat b < 192"

fun utf8_decode :: "bytes \<Rightarrow> utext option" where
  "utf8_decode [] = Some []"
| "utf8_decode (a # r) =
     (let n = unat a in
      if n < 128 then map_option ((#) n) (utf8_decode r)
      else if 194 \<le> n \<and> n < 224 then
        (case r of b # r1 \<Rightarrow>
           if cont_byte b
           then map_option ((#) ((n - 192) * 64 + (unat b - 128))) (utf8_decode r1) else None
         | _ \<Rightarrow> None)
      else if 224 \<le> n \<and> n < 240 then
        (case r of b # c # r2 \<Rightarrow>
           if cont_byte b \<and> cont_byte c \<and> (n = 224 \<longrightarrow> 160 \<le> unat b) \<and> (n = 237 \<longrightarrow> unat b < 160)
           then map_option ((#) ((n - 224) * 4096 + (unat b - 128) * 64 + (unat c - 128)))
                  (utf8_decode r2)
           else None
         | _ \<Rightarrow> None)
      else if 240 \<le> n \<and> n < 245 then
        (case r of b # c # d # r3 \<Rightarrow>
           if cont_byte b \<and> cont_byte c \<and> cont_byte d \<and> (n = 240 \<longrightarrow> 144 \<le> unat b) \<and>
              (n = 244 \<longrightarrow> unat b < 144)
           then map_option ((#) ((n - 240) * 262144 + (unat b - 128) * 4096 +
                                 (unat c - 128) * 64 + (unat d - 128)))
                  (utf8_decode r3)
           else None
         | _ \<Rightarrow> None)
      else None)"

text \<open>
  \<open>json_scan\<close> reads the text behind the opening quote of a JSON string up to the closing quote,
  which has to be the last character: \<^verbatim>\<open>json.loads\<close> refuses data behind it.
\<close>

definition hex_digit :: "nat \<Rightarrow> nat option" where
  "hex_digit c =
     (if 48 \<le> c \<and> c \<le> 57 then Some (c - 48) else if 97 \<le> c \<and> c \<le> 102 then Some (c - 87)
      else if 65 \<le> c \<and> c \<le> 70 then Some (c - 55) else None)"

definition hex4 :: "utext \<Rightarrow> nat option" where
  "hex4 t =
     (case map hex_digit (take 4 t) of
        [Some a, Some b, Some c, Some d] \<Rightarrow> Some (((a * 16 + b) * 16 + c) * 16 + d)
      | _ \<Rightarrow> None)"

definition json_escapes :: "(nat \<times> nat) list" where
  "json_escapes = [(34, 34), (92, 92), (47, 47), (98, 8), (102, 12), (110, 10), (114, 13), (116, 9)]"

fun json_scan :: "utext \<Rightarrow> utext option" where
  "json_scan [] = None"
| "json_scan (c # r) =
     (if c = 34 then (if r = [] then Some [] else None)
      else if c = 92 then
        (case r of [] \<Rightarrow> None
         | e # r1 \<Rightarrow>
             if e = 117 then
               (case hex4 r1 of None \<Rightarrow> None
                | Some u \<Rightarrow>
                    let r2 = drop 4 r1 in
                    if 0xD800 \<le> u \<and> u \<le> 0xDBFF \<and> take 2 r2 = [92, 117] then
                      (case hex4 (drop 2 r2) of None \<Rightarrow> None
                       | Some v \<Rightarrow>
                           if 0xDC00 \<le> v \<and> v \<le> 0xDFFF
                           then map_option ((#) (0x10000 + (u - 0xD800) * 1024 + (v - 0xDC00)))
                                  (json_scan (drop 10 r1))
                           else map_option ((#) u) (json_scan (drop 4 r1)))
                    else map_option ((#) u) (json_scan (drop 4 r1)))
             else (case map_of json_escapes e of None \<Rightarrow> None
                   | Some x \<Rightarrow> map_option ((#) x) (json_scan r1)))
      else if c < 32 then None
      else map_option ((#) c) (json_scan r))"

definition loads_quoted :: "bytes \<Rightarrow> utext option" where
  "loads_quoted bs =
     (case utf8_decode bs of None \<Rightarrow> None | Some t \<Rightarrow> json_scan (t @ [34]))"

definition plain_char :: "byte \<Rightarrow> bool" where
  "plain_char b \<longleftrightarrow> 32 \<le> unat b \<and> unat b < 128 \<and> unat b \<noteq> 34 \<and> unat b \<noteq> 92"

lemma utf8_ascii: "\<forall>b \<in> set bs. unat b < 128 \<Longrightarrow> utf8_decode bs = Some (map unat bs)"
  by (induction bs) simp_all

lemma json_scan_plain:
  "\<forall>c \<in> set t. 32 \<le> c \<and> c \<noteq> 34 \<and> c \<noteq> 92 \<Longrightarrow> json_scan (t @ [34]) = Some t"
  by (induction t) simp_all

lemma loads_quoted_plain:
  assumes "\<forall>b \<in> set bs. plain_char b"
  shows "loads_quoted bs = Some (map unat bs)"
proof -
  have "\<forall>c \<in> set (map unat bs). 32 \<le> c \<and> c \<noteq> 34 \<and> c \<noteq> 92"
    using assms by (auto simp: plain_char_def)
  moreover have "utf8_decode bs = Some (map unat bs)"
    using assms by (intro utf8_ascii) (auto simp: plain_char_def)
  ultimately show ?thesis by (simp add: loads_quoted_def json_scan_plain)
qed


section \<open>Dictionaries as association lists\<close>

text \<open>How assignment and removal change a dictionary's size and a sum over its items.\<close>

lemma length_AList_update:
  "length (AList.update k v xs) = (if map_of xs k = None then Suc (length xs) else length xs)"
  by (induction xs) auto

lemma length_AList_delete:
  "distinct (map fst xs) \<Longrightarrow> map_of xs k \<noteq> None \<Longrightarrow> Suc (length (AList.delete k xs)) = length xs"
  by (induction xs) (auto simp: map_of_eq_None_iff [symmetric] delete_id image_iff split: if_splits)

lemma sum_AList_update:
  fixes w :: "'k \<times> 'v \<Rightarrow> nat"
  shows "sum_list (map w (AList.update k v xs)) + (case map_of xs k of None \<Rightarrow> 0 | Some u \<Rightarrow> w (k, u)) =
         sum_list (map w xs) + w (k, v)"
  by (induction xs) auto

lemma sum_AList_delete:
  fixes w :: "'k \<times> 'v \<Rightarrow> nat"
  assumes "distinct (map fst xs)" "map_of xs k = Some u"
  shows "sum_list (map w (AList.delete k xs)) + w (k, u) = sum_list (map w xs)"
  using assms
  by (induction xs) (auto simp: map_of_eq_None_iff [symmetric] delete_id image_iff split: if_splits)

lemma set_AList_update:
  "distinct (map fst xs) \<Longrightarrow> set (AList.update k v xs) = insert (k, v) {p \<in> set xs. fst p \<noteq> k}"
  by (induction xs) force+

end
