(* ===== verification/Value_Decoders.thy ===== *)
theory Value_Decoders
  imports Py_Text
begin

text \<open>
  The binary record decoders of \<^verbatim>\<open>env/ai-traffic/*_decode.py\<close>. Every record starts with the
  same 56-byte header (\<^verbatim>\<open>II6Q\<close>); the payload that follows differs per program. A decoder is a
  function from the payload to an event or a \<open>ValueError\<close>, with the checks in the source's order.
  The offsets are those of the source's \<^verbatim>\<open>struct\<close> format strings, all little-endian and unpadded.
\<close>

unbundle bit_operations_syntax

section \<open>Layouts\<close>

record hdr =
  magic :: int
  abi :: int
  inst :: int
  revision :: int
  run_id :: int
  monotonic_ns :: int
  seq_no :: int
  output_failures :: int

definition unpack_hdr :: "bytes \<Rightarrow> hdr" where
  "unpack_hdr p =
     \<lparr>magic = u32 p 0, abi = u32 p 4, inst = u64 p 8, revision = u64 p 16, run_id = u64 p 24,
      monotonic_ns = u64 p 32, seq_no = u64 p 40, output_failures = u64 p 48\<rparr>"

text \<open>The shared \<^verbatim>\<open><II6Q4IHHI64s\<close> layout of the four value records: 144 bytes.\<close>

record value_rec =
  v_hdr :: hdr
  v_status :: int
  v_aux :: int
  original_length :: int
  copied_length :: int
  v_flags :: int
  v_reads :: int
  v_source_bytes :: int

definition unpack_value_rec :: "bytes \<Rightarrow> value_rec" where
  "unpack_value_rec p =
     \<lparr>v_hdr = unpack_hdr p, v_status = u32 p 56, v_aux = u32 p 60, original_length = u32 p 64,
      copied_length = u32 p 68, v_flags = u16 p 72, v_reads = u16 p 74, v_source_bytes = u32 p 76\<rparr>"

definition value_field :: "bytes \<Rightarrow> bytes" where
  "value_field p = pyslice 80 144 p"

record value_event =
  v_rec :: value_rec
  value_hex :: string
  v_status_name :: string
  v_kind_name :: "string option"
  representation :: string

definition beyond_mask :: "int \<Rightarrow> int \<Rightarrow> bool" where
  "beyond_mask v m \<longleftrightarrow> v AND NOT m \<noteq> 0"

definition any_nonzero :: "bytes \<Rightarrow> bool" where
  "any_nonzero bs = list_ex (\<lambda>b. b \<noteq> 0) bs"

abbreviation "magic_of r \<equiv> magic (v_hdr r)"
abbreviation "abi_of r \<equiv> abi (v_hdr r)"

section \<open>Method records\<close>

definition METHOD_STATUSES :: "(int \<times> string) list" where
  "METHOD_STATUSES =
     [(1, ''complete''), (2, ''truncated''), (3, ''read_failed''), (4, ''out_of_scope''),
      (5, ''budget_exhausted''), (6, ''getter_error''), (7, ''unavailable'')]"

definition method_decode :: "bytes \<Rightarrow> value_event result" where
  "method_decode p =
     (if length p \<noteq> 144 then Inl (ValueError ''wrong method record size'')
      else let event = unpack_value_rec p; status = v_status event;
               copied = copied_length event; original = original_length event;
               value = value_field p in
        if magic_of event \<noteq> 0x4A4D4554 \<or> abi_of event \<noteq> 1
        then Inl (ValueError ''wrong method record schema'')
        else if map_of METHOD_STATUSES status = None \<or> copied > 64 \<or> copied > original
                \<or> v_reads event > 12 \<or> v_source_bytes event > 320
        then Inl (ValueError ''invalid method extraction bounds'')
        else if status = 1 \<and> copied \<noteq> original
                \<or> status = 2 \<and> \<not> (copied = 64 \<and> original > 64)
                \<or> status \<notin> {1, 2} \<and> copied \<noteq> 0
        then Inl (ValueError ''inconsistent method extraction status'')
        else if any_nonzero (drop (nat copied) value)
        then Inl (ValueError ''nonzero bytes outside copied value'')
        else Inr \<lparr>v_rec = event, value_hex = to_hex (take (nat copied) value),
                  v_status_name = the (map_of METHOD_STATUSES status), v_kind_name = None,
                  representation = ''json_string_escaped_bytes''\<rparr>)"

definition TOKEN_STATUS :: "(int \<times> string) list" where
  "TOKEN_STATUS =
     [(1, ''complete''), (2, ''truncated''), (3, ''read_failed''), (4, ''out_of_scope''),
      (5, ''budget_exhausted''), (7, ''unavailable''), (8, ''no_literal_method''),
      (9, ''invalid_cache''), (10, ''nonstring'')]"

definition token_method_decode :: "bytes \<Rightarrow> value_event result" where
  "token_method_decode p =
     (if length p \<noteq> 144 then Inl (ValueError ''token method record size'')
      else let event = unpack_value_rec p; status = v_status event; n = copied_length event;
               value = value_field p in
        if magic_of event \<noteq> 0x544D4554 \<or> abi_of event \<noteq> 1 \<or> map_of TOKEN_STATUS status = None
           \<or> n > 64 \<or> v_reads event > 40 \<or> v_source_bytes event > 1024
           \<or> any_nonzero (drop (nat n) value)
        then Inl (ValueError ''invalid token method record'')
        else if status \<notin> {1, 2} \<and> n \<noteq> 0
        then Inl (ValueError ''value on unavailable token method record'')
        else if status = 1 \<and> n \<noteq> original_length event
        then Inl (ValueError ''incomplete complete token method record'')
        else if status = 2 \<and> \<not> (n = 64 \<and> 64 < original_length event)
        then Inl (ValueError ''invalid truncated token method record'')
        else Inr \<lparr>v_rec = event, value_hex = to_hex (take (nat n) value),
                  v_status_name = the (map_of TOKEN_STATUS status), v_kind_name = None,
                  representation = ''escaped JSON string bytes; literal key; first match''\<rparr>)"

section \<open>Operation targets\<close>

definition TARGET_STATES :: "(int \<times> string) list" where
  "TARGET_STATES =
     [(1, ''complete''), (2, ''truncated''), (3, ''read_failed''), (4, ''out_of_scope''),
      (5, ''budget_exhausted''), (7, ''unavailable''), (8, ''no_literal_method''),
      (9, ''invalid_cache''), (10, ''nonstring''), (11, ''no_literal_target''),
      (12, ''unsupported_method'')]"

definition TARGET_KINDS :: "(int \<times> string option) list" where
  "TARGET_KINDS = [(0, None), (1, Some ''tool_name''), (2, Some ''resource_uri'')]"

definition operation_target_decode :: "bytes \<Rightarrow> value_event result" where
  "operation_target_decode p =
     (if length p \<noteq> 144 then Inl (ValueError ''operation target size'')
      else let e = unpack_value_rec p; n = copied_length e; value = value_field p in
        if magic_of e \<noteq> 0x4f544754 \<or> abi_of e \<noteq> 1 \<or> map_of TARGET_STATES (v_status e) = None
           \<or> v_aux e \<notin> {0, 1, 2} \<or> beyond_mask (v_flags e) 15
           \<or> v_reads e > 96 \<or> v_source_bytes e > 4096 \<or> n > 64
           \<or> any_nonzero (drop (nat n) value)
        then Inl (ValueError ''invalid operation target'')
        else if v_status e \<in> {1, 2} \<and>
                (v_aux e = 0 \<or> n \<noteq> min (original_length e) 64
                 \<or> (v_status e = 2) \<noteq> (original_length e > 64))
        then Inl (ValueError ''invalid target length or kind'')
        else if v_status e \<notin> {1, 2} \<and> n \<noteq> 0
        then Inl (ValueError ''value on unavailable target'')
        else Inr \<lparr>v_rec = e, value_hex = to_hex (take (nat n) value),
                  v_status_name = the (map_of TARGET_STATES (v_status e)),
                  v_kind_name = the (map_of TARGET_KINDS (v_aux e)),
                  representation = ''raw_json_string_bytes''\<rparr>)"

section \<open>Message identifiers\<close>

text \<open>
  \<open>number_full\<close> is \<^verbatim>\<open>NUMBER.fullmatch\<close> for the source's pattern: a sign, an integer part
  without leading zeros, an optional fraction and an optional exponent.
\<close>

definition digit_byte :: "byte \<Rightarrow> bool" where
  "digit_byte b \<longleftrightarrow> 48 \<le> uint b \<and> uint b \<le> 57"

definition number_exp :: "bytes \<Rightarrow> bool" where
  "number_exp r =
     (case r of [] \<Rightarrow> True
      | c # cs \<Rightarrow>
          (c = 0x65 \<or> c = 0x45) \<and>
          (let ds = (case cs of [] \<Rightarrow> [] | s # t \<Rightarrow> if s = 0x2B \<or> s = 0x2D then t else cs)
           in ds \<noteq> [] \<and> list_all digit_byte ds))"

definition number_frac :: "bytes \<Rightarrow> bool" where
  "number_frac r =
     (case r of [] \<Rightarrow> True
      | c # cs \<Rightarrow>
          if c = 0x2E then takeWhile digit_byte cs \<noteq> [] \<and> number_exp (dropWhile digit_byte cs)
          else number_exp r)"

definition number_full :: "bytes \<Rightarrow> bool" where
  "number_full s =
     (case (case s of [] \<Rightarrow> [] | c # cs \<Rightarrow> if c = 0x2D then cs else s) of
        [] \<Rightarrow> False
      | c # cs \<Rightarrow>
          if c = 0x30 then number_frac cs
          else digit_byte c \<and> number_frac (dropWhile digit_byte cs))"

definition ID_STATES :: "(int \<times> string) list" where
  "ID_STATES =
     [(1, ''complete''), (2, ''truncated''), (3, ''read_failed''), (4, ''out_of_scope''),
      (5, ''budget_exhausted''), (7, ''unavailable''), (8, ''missing''),
      (9, ''invalid_cache''), (10, ''wrong_type''), (11, ''ambiguous'')]"

definition ID_KINDS :: "(int \<times> string option) list" where
  "ID_KINDS = [(0, None), (1, Some ''string''), (2, Some ''number''), (3, Some ''null'')]"

definition message_id_decode :: "bytes \<Rightarrow> value_event result" where
  "message_id_decode p =
     (if length p \<noteq> 144 then Inl (ValueError ''message ID size'')
      else let e = unpack_value_rec p; n = copied_length e;
               value = take (nat n) (value_field p) in
        if magic_of e \<noteq> 0x4d534749 \<or> abi_of e \<noteq> 1 \<or> map_of ID_STATES (v_status e) = None
           \<or> v_aux e \<notin> {0, 1, 2, 3} \<or> beyond_mask (v_flags e) 15
           \<or> v_reads e > 80 \<or> v_source_bytes e > 2048 \<or> n > 64
           \<or> any_nonzero (drop (nat n) (value_field p))
        then Inl (ValueError ''invalid message ID'')
        else if v_status e \<in> {1, 2} \<and>
                (v_aux e = 0 \<or> n \<noteq> min (original_length e) 64
                 \<or> (v_status e = 2) \<noteq> (original_length e > 64))
        then Inl (ValueError ''invalid ID length or kind'')
        else if v_status e \<in> {1, 2} \<and> v_aux e = 2 \<and> (v_status e \<noteq> 1 \<or> \<not> number_full value)
        then Inl (ValueError ''invalid numeric ID'')
        else if v_status e \<in> {1, 2} \<and> v_aux e = 3 \<and>
                (v_status e \<noteq> 1 \<or> value \<noteq> [0x6E, 0x75, 0x6C, 0x6C])
        then Inl (ValueError ''invalid null ID'')
        else if v_status e \<notin> {1, 2} \<and> (n \<noteq> 0 \<or> v_aux e \<notin> {0, 1})
        then Inl (ValueError ''value on unavailable ID'')
        else Inr \<lparr>v_rec = e, value_hex = to_hex value,
                  v_status_name = the (map_of ID_STATES (v_status e)),
                  v_kind_name = the (map_of ID_KINDS (v_aux e)),
                  representation = (if v_aux e = 1 then ''raw_json_string_bytes''
                                    else ''raw_json_token_bytes'')\<rparr>)"

text \<open>The flow record reuses the identifier decoder on a rewritten copy of the payload.\<close>

record flow_event =
  fl_event :: value_event
  fl_magic :: int
  wire_flags :: int
  flow_side :: int
  flow_side_name :: "string option"
  flow_status :: int
  flow_status_name :: string

definition FLOW_SIDES :: "(int \<times> string option) list" where
  "FLOW_SIDES = [(0, None), (1, Some ''clientside''), (2, Some ''serverside'')]"

definition FLOW_STATES :: "(int \<times> string) list" where
  "FLOW_STATES =
     [(0, ''unavailable''), (1, ''complete''), (2, ''out_of_scope''), (3, ''read_failed''),
      (4, ''invalid''), (5, ''budget_exhausted'')]"

definition id_flow_base :: "bytes \<Rightarrow> bytes" where
  "id_flow_base p =
     put 72 (le_bytes 2 (u16 p 72 AND 15)) (put 0 (le_bytes 4 0x4d534749) p)"

definition id_flow_decode :: "bytes \<Rightarrow> flow_event result" where
  "id_flow_decode p =
     (if length p \<noteq> 144 \<or> (u32 p 0, u32 p 4) \<noteq> (0x4944464c, 1)
      then Inl (ValueError ''ID/flow size or schema'')
      else let flags = u16 p 72; side = drop_bit 4 flags AND 3; status = drop_bit 8 flags AND 7 in
        if beyond_mask flags 0x073f \<or> map_of FLOW_SIDES side = None
           \<or> map_of FLOW_STATES status = None
           \<or> (status = 1) \<noteq> (side \<in> {1, 2})
           \<or> (flags AND 3 \<noteq> 0 \<and> (side \<noteq> 0 \<or> status \<noteq> 0))
        then Inl (ValueError ''invalid flow side'')
        else ebind (message_id_decode (id_flow_base p)) (\<lambda>event.
          Inr \<lparr>fl_event = event, fl_magic = 0x4944464c, wire_flags = flags, flow_side = side,
               flow_side_name = the (map_of FLOW_SIDES side), flow_status = status,
               flow_status_name = the (map_of FLOW_STATES status)\<rparr>))"

section \<open>What every value decoder promises\<close>

text \<open>
  A payload of the shared layout is determined by its header, its seven numeric fields and its
  64-byte value field.
\<close>

lemma hdr_eqD:
  assumes "unpack_hdr p = unpack_hdr q" "56 \<le> length p" "56 \<le> length q"
  shows "pyslice 0 56 p = pyslice 0 56 q"
proof -
  have f: "u32 p 0 = u32 q 0" "u32 p 4 = u32 q 4" "u64 p 8 = u64 q 8" "u64 p 16 = u64 q 16"
    "u64 p 24 = u64 q 24" "u64 p 32 = u64 q 32" "u64 p 40 = u64 q 40" "u64 p 48 = u64 q 48"
    using assms(1) by (auto simp: unpack_hdr_def)
  have "pyslice 0 4 p = pyslice 0 4 q" using u32_eqD [OF f(1)] assms(2,3) by simp
  from prefix_extend [OF this, of 8] have "pyslice 0 8 p = pyslice 0 8 q"
    using u32_eqD [OF f(2)] assms(2,3) by simp
  from prefix_extend [OF this, of 16] have "pyslice 0 16 p = pyslice 0 16 q"
    using u64_eqD [OF f(3)] assms(2,3) by simp
  from prefix_extend [OF this, of 24] have "pyslice 0 24 p = pyslice 0 24 q"
    using u64_eqD [OF f(4)] assms(2,3) by simp
  from prefix_extend [OF this, of 32] have "pyslice 0 32 p = pyslice 0 32 q"
    using u64_eqD [OF f(5)] assms(2,3) by simp
  from prefix_extend [OF this, of 40] have "pyslice 0 40 p = pyslice 0 40 q"
    using u64_eqD [OF f(6)] assms(2,3) by simp
  from prefix_extend [OF this, of 48] have "pyslice 0 48 p = pyslice 0 48 q"
    using u64_eqD [OF f(7)] assms(2,3) by simp
  from prefix_extend [OF this, of 56] show ?thesis
    using u64_eqD [OF f(8)] assms(2,3) by simp
qed

lemma value_payload_eqI:
  assumes "length p = 144" "length q = 144"
    and "unpack_value_rec p = unpack_value_rec q" and "value_field p = value_field q"
  shows "p = q"
proof -
  have h: "unpack_hdr p = unpack_hdr q"
    and f: "u32 p 56 = u32 q 56" "u32 p 60 = u32 q 60" "u32 p 64 = u32 q 64" "u32 p 68 = u32 q 68"
      "u16 p 72 = u16 q 72" "u16 p 74 = u16 q 74" "u32 p 76 = u32 q 76"
    using assms(3) by (auto simp: unpack_value_rec_def)
  have "pyslice 0 56 p = pyslice 0 56 q" using hdr_eqD [OF h] assms(1,2) by simp
  from prefix_extend [OF this, of 60] have "pyslice 0 60 p = pyslice 0 60 q"
    using u32_eqD [OF f(1)] assms(1,2) by simp
  from prefix_extend [OF this, of 64] have "pyslice 0 64 p = pyslice 0 64 q"
    using u32_eqD [OF f(2)] assms(1,2) by simp
  from prefix_extend [OF this, of 68] have "pyslice 0 68 p = pyslice 0 68 q"
    using u32_eqD [OF f(3)] assms(1,2) by simp
  from prefix_extend [OF this, of 72] have "pyslice 0 72 p = pyslice 0 72 q"
    using u32_eqD [OF f(4)] assms(1,2) by simp
  from prefix_extend [OF this, of 74] have "pyslice 0 74 p = pyslice 0 74 q"
    using u16_eqD [OF f(5)] assms(1,2) by simp
  from prefix_extend [OF this, of 76] have "pyslice 0 76 p = pyslice 0 76 q"
    using u16_eqD [OF f(6)] assms(1,2) by simp
  from prefix_extend [OF this, of 80] have "pyslice 0 80 p = pyslice 0 80 q"
    using u32_eqD [OF f(7)] assms(1,2) by simp
  from prefix_extend [OF this, of 144] assms have "pyslice 0 144 p = pyslice 0 144 q"
    by (simp add: value_field_def)
  then show ?thesis using assms(1,2) by (simp add: slice_all)
qed

lemma not_any_nonzero: "\<not> any_nonzero bs \<longleftrightarrow> bs = replicate (length bs) 0"
proof
  assume "\<not> any_nonzero bs"
  then have "\<forall>b \<in> set bs. b = 0" by (auto simp: any_nonzero_def list_ex_iff)
  then show "bs = replicate (length bs) 0" by (metis replicate_eqI)
next
  assume "bs = replicate (length bs) 0"
  then have "set bs \<subseteq> {0}" by (metis set_replicate_conv_if empty_subsetI order_refl)
  then show "\<not> any_nonzero bs" by (auto simp: any_nonzero_def list_ex_iff)
qed

lemma length_value_field [simp]: "length p = 144 \<Longrightarrow> length (value_field p) = 64"
  by (simp add: value_field_def)

text \<open>
  The extraction contract: which lengths a status allows. Status 1 is a complete copy, 2 a copy cut
  at 64 bytes, every other status carries no value bytes at all.
\<close>

definition extraction_ok :: "value_rec \<Rightarrow> bool" where
  "extraction_ok r \<longleftrightarrow>
     0 \<le> copied_length r \<and> copied_length r \<le> 64 \<and>
     (if v_status r = 1 then copied_length r = original_length r
      else if v_status r = 2 then copied_length r = 64 \<and> original_length r > 64
      else copied_length r = 0)"

locale value_decoder =
  fixes dec :: "bytes \<Rightarrow> value_event result"
  assumes size: "dec p = Inr e \<Longrightarrow> length p = 144"
    and layout: "dec p = Inr e \<Longrightarrow> v_rec e = unpack_value_rec p"
    and hex: "dec p = Inr e \<Longrightarrow>
      value_hex e = to_hex (take (nat (copied_length (v_rec e))) (value_field p))"
    and padding: "dec p = Inr e \<Longrightarrow>
      \<not> any_nonzero (drop (nat (copied_length (v_rec e))) (value_field p))"
    and extraction: "dec p = Inr e \<Longrightarrow> extraction_ok (v_rec e)"
    and refusal: "dec p = Inl x \<Longrightarrow> is_value_error x"
begin

lemma value_length: "dec p = Inr e \<Longrightarrow> length (value_hex e) = 2 * nat (copied_length (v_rec e))"
  using size [of p e] extraction [of p e] by (auto simp: hex extraction_ok_def)

lemma value_bounded: "dec p = Inr e \<Longrightarrow> length (value_hex e) \<le> 128"
  using value_length [of p e] extraction [of p e] by (auto simp: extraction_ok_def)

lemma value_field_of:
  assumes "dec p = Inr e"
  shows "from_hex (value_hex e @ replicate (2 * (64 - nat (copied_length (v_rec e)))) CHR ''0'')
         = Inr (value_field p)"
proof -
  let ?n = "nat (copied_length (v_rec e))"
  have n: "?n \<le> 64" using extraction [OF assms] by (auto simp: extraction_ok_def)
  have len: "length (value_field p) = 64" using size [OF assms] by simp
  have "hex_char 0 = CHR ''0''" by code_simp
  then have zeros: "to_hex (replicate k 0) = replicate (2 * k) CHR ''0''" for k
    by (induction k) (simp_all add: to_hex_def hex_byte_def)
  have "drop ?n (value_field p) = replicate (64 - ?n) 0"
    using padding [OF assms] len by (simp add: not_any_nonzero)
  then have "to_hex (value_field p) = value_hex e @ replicate (2 * (64 - ?n)) CHR ''0''"
    by (metis append_take_drop_id concat_append hex [OF assms] map_append to_hex_def zeros)
  then show ?thesis by (metis from_hex_to_hex)
qed

text \<open>No two payloads decode to one event: an event is exact evidence of the bytes received.\<close>

lemma injective:
  assumes "dec p = Inr e" "dec q = Inr e"
  shows "p = q"
proof (rule value_payload_eqI)
  show "length p = 144" "length q = 144" using assms size by blast+
  show "unpack_value_rec p = unpack_value_rec q" using assms layout by metis
  show "value_field p = value_field q" using value_field_of [OF assms(1)] value_field_of [OF assms(2)] by simp
qed

lemma incomplete_has_no_value: "dec p = Inr e \<Longrightarrow> v_status (v_rec e) \<notin> {1, 2} \<Longrightarrow> value_hex e = []"
  using extraction [of p e] hex [of p e] by (auto simp: extraction_ok_def to_hex_def)

end

lemmas decode_splits = Let_def if_splits option.splits

lemma copied_nonneg [simp]: "0 \<le> copied_length (unpack_value_rec p)"
  "0 \<le> original_length (unpack_value_rec p)"
  by (simp_all add: unpack_value_rec_def)

lemma direct_rule_extraction:
  assumes "0 \<le> copied_length r" "copied_length r \<le> 64"
    and "v_status r = 1 \<Longrightarrow> copied_length r = original_length r"
    and "v_status r = 2 \<Longrightarrow> copied_length r = 64 \<and> original_length r > 64"
    and "v_status r \<notin> {1, 2} \<Longrightarrow> copied_length r = 0"
  shows "extraction_ok r"
  using assms by (auto simp: extraction_ok_def)

lemma min_rule_extraction:
  assumes "0 \<le> copied_length r" "copied_length r \<le> 64"
    and "v_status r \<in> {1, 2} \<Longrightarrow>
         copied_length r = min (original_length r) 64 \<and> (v_status r = 2) = (original_length r > 64)"
    and "v_status r \<notin> {1, 2} \<Longrightarrow> copied_length r = 0"
  shows "extraction_ok r"
  using assms by (auto simp: extraction_ok_def min_def split: if_splits)

lemma method_decodeD:
  assumes "method_decode p = Inr e"
  shows "length p = 144" and "v_rec e = unpack_value_rec p"
    and "value_hex e = to_hex (take (nat (copied_length (v_rec e))) (value_field p))"
    and "\<not> any_nonzero (drop (nat (copied_length (v_rec e))) (value_field p))"
    and "extraction_ok (v_rec e)"
  using assms unfolding method_decode_def Let_def
  by (simp only: guard_Inr sum.inject, clarsimp; fail | simp only: guard_Inr sum.inject,
      intro direct_rule_extraction; elim conjE; hypsubst; simp)+

lemma token_method_decodeD:
  assumes "token_method_decode p = Inr e"
  shows "length p = 144" and "v_rec e = unpack_value_rec p"
    and "value_hex e = to_hex (take (nat (copied_length (v_rec e))) (value_field p))"
    and "\<not> any_nonzero (drop (nat (copied_length (v_rec e))) (value_field p))"
    and "extraction_ok (v_rec e)"
  using assms unfolding token_method_decode_def Let_def
  by (simp only: guard_Inr sum.inject, clarsimp; fail | simp only: guard_Inr sum.inject,
      intro direct_rule_extraction; elim conjE; hypsubst; simp)+

lemma operation_target_decodeD:
  assumes "operation_target_decode p = Inr e"
  shows "length p = 144" and "v_rec e = unpack_value_rec p"
    and "value_hex e = to_hex (take (nat (copied_length (v_rec e))) (value_field p))"
    and "\<not> any_nonzero (drop (nat (copied_length (v_rec e))) (value_field p))"
    and "extraction_ok (v_rec e)"
  using assms unfolding operation_target_decode_def Let_def
  by (simp only: guard_Inr sum.inject, clarsimp; fail | simp only: guard_Inr sum.inject,
      intro min_rule_extraction; elim conjE; hypsubst; simp)+

lemma message_id_decodeD:
  assumes "message_id_decode p = Inr e"
  shows "length p = 144" and "v_rec e = unpack_value_rec p"
    and "value_hex e = to_hex (take (nat (copied_length (v_rec e))) (value_field p))"
    and "\<not> any_nonzero (drop (nat (copied_length (v_rec e))) (value_field p))"
    and "extraction_ok (v_rec e)"
  using assms unfolding message_id_decode_def Let_def
  by (simp only: guard_Inr sum.inject, clarsimp; fail | simp only: guard_Inr sum.inject,
      intro min_rule_extraction; elim conjE; hypsubst; simp)+

lemma method_refusal: "method_decode p = Inl x \<Longrightarrow> is_value_error x"
  unfolding method_decode_def Let_def by (elim value_error_intros)

lemma token_method_refusal: "token_method_decode p = Inl x \<Longrightarrow> is_value_error x"
  unfolding token_method_decode_def Let_def by (elim value_error_intros)

lemma operation_target_refusal: "operation_target_decode p = Inl x \<Longrightarrow> is_value_error x"
  unfolding operation_target_decode_def Let_def by (elim value_error_intros)

lemma message_id_refusal: "message_id_decode p = Inl x \<Longrightarrow> is_value_error x"
  unfolding message_id_decode_def Let_def by (elim value_error_intros)

interpretation method_rec: value_decoder method_decode
  by unfold_locales (fact method_decodeD method_refusal)+

interpretation token_method: value_decoder token_method_decode
  by unfold_locales (fact token_method_decodeD token_method_refusal)+

interpretation operation_target: value_decoder operation_target_decode
  by unfold_locales (fact operation_target_decodeD operation_target_refusal)+

interpretation message_id: value_decoder message_id_decode
  by unfold_locales (fact message_id_decodeD message_id_refusal)+

section \<open>The numeric identifier grammar\<close>

text \<open>
  The recogniser \<open>number_full\<close> accepts exactly the language of the source's pattern
  \<^verbatim>\<open>-?(?:0|[1-9][0-9]*)(?:\.[0-9]+)?(?:[eE][+-]?[0-9]+)?\<close>, part by part.
\<close>

definition exp_part :: "bytes \<Rightarrow> bool" where
  "exp_part r \<longleftrightarrow> r = [] \<or>
     (\<exists>e ds. (r = e # ds \<or> r = e # 0x2B # ds \<or> r = e # 0x2D # ds) \<and> e \<in> {0x65, 0x45} \<and>
        ds \<noteq> [] \<and> list_all digit_byte ds)"

definition frac_part :: "bytes \<Rightarrow> bool" where
  "frac_part r \<longleftrightarrow> r = [] \<or> (\<exists>ds. r = 0x2E # ds \<and> ds \<noteq> [] \<and> list_all digit_byte ds)"

definition int_part :: "bytes \<Rightarrow> bool" where
  "int_part r \<longleftrightarrow> r = [0x30] \<or> (\<exists>c ds. r = c # ds \<and> digit_byte c \<and> c \<noteq> 0x30 \<and> list_all digit_byte ds)"

lemma digit_byte_consts [simp]:
  "\<not> digit_byte 0x2B" "\<not> digit_byte 0x2D" "\<not> digit_byte 0x2E" "\<not> digit_byte 0x65" "\<not> digit_byte 0x45"
  "digit_byte 0x30"
  by (simp_all add: digit_byte_def)

lemma number_exp_iff: "number_exp r \<longleftrightarrow> exp_part r"
proof
  assume "number_exp r"
  then show "exp_part r"
    by (cases r; cases "tl r") (auto simp: number_exp_def exp_part_def Let_def split: if_splits)
next
  assume "exp_part r"
  then show "number_exp r"
    by (auto simp: number_exp_def exp_part_def Let_def split: list.splits)
qed

lemma exp_part_head: "exp_part r \<Longrightarrow> dropWhile digit_byte r = r \<and> takeWhile digit_byte r = []"
  by (auto simp: exp_part_def)

lemma number_frac_iff: "number_frac r \<longleftrightarrow> (\<exists>f x. r = f @ x \<and> frac_part f \<and> exp_part x)"
proof
  assume nf: "number_frac r"
  show "\<exists>f x. r = f @ x \<and> frac_part f \<and> exp_part x"
  proof (cases "\<exists>cs. r = 0x2E # cs")
    case True
    then obtain cs where r: "r = 0x2E # cs" by blast
    with nf have "takeWhile digit_byte cs \<noteq> []" "exp_part (dropWhile digit_byte cs)"
      by (auto simp: number_frac_def number_exp_iff)
    then have "frac_part (0x2E # takeWhile digit_byte cs) \<and> exp_part (dropWhile digit_byte cs)
      \<and> r = (0x2E # takeWhile digit_byte cs) @ dropWhile digit_byte cs"
      by (auto simp: frac_part_def r list_all_iff dest: set_takeWhileD)
    then show ?thesis by blast
  next
    case False
    with nf have "exp_part r"
      by (cases r) (auto simp: number_frac_def number_exp_iff exp_part_def split: if_splits)
    then show ?thesis by (auto simp: frac_part_def)
  qed
next
  assume "\<exists>f x. r = f @ x \<and> frac_part f \<and> exp_part x"
  then obtain f x where r: "r = f @ x" and f: "frac_part f" and x: "exp_part x" by blast
  show "number_frac r"
  proof (cases "f = []")
    case True
    with r x have "exp_part r" by simp
    moreover have "hd r \<noteq> 0x2E" if "r \<noteq> []" using that \<open>exp_part r\<close> by (auto simp: exp_part_def)
    ultimately show ?thesis by (cases r) (auto simp: number_frac_def number_exp_iff)
  next
    case False
    with f obtain ds where ds: "f = 0x2E # ds" "ds \<noteq> []" "list_all digit_byte ds"
      by (auto simp: frac_part_def)
    then have "takeWhile digit_byte (ds @ x) = ds" "dropWhile digit_byte (ds @ x) = x"
      using exp_part_head [OF x] by (auto simp: list_all_iff takeWhile_append2 dropWhile_append2)
    with ds x r show ?thesis by (simp add: number_frac_def number_exp_iff)
  qed
qed

lemma frac_exp_head: "frac_part f \<Longrightarrow> exp_part x \<Longrightarrow>
   dropWhile digit_byte (f @ x) = f @ x \<and> takeWhile digit_byte (f @ x) = []"
  by (auto simp: frac_part_def exp_part_head)

definition number_grammar :: "bytes \<Rightarrow> bool" where
  "number_grammar s \<longleftrightarrow>
     (\<exists>i f x. (s = i @ f @ x \<or> s = 0x2D # i @ f @ x) \<and> int_part i \<and> frac_part f \<and> exp_part x)"

definition unsigned_full :: "bytes \<Rightarrow> bool" where
  "unsigned_full t = (case t of [] \<Rightarrow> False
      | c # cs \<Rightarrow> if c = 0x30 then number_frac cs
          else digit_byte c \<and> number_frac (dropWhile digit_byte cs))"

lemma unsigned_full_iff: "unsigned_full t \<longleftrightarrow> (\<exists>i f x. t = i @ f @ x \<and> int_part i \<and> frac_part f \<and> exp_part x)"
proof
  assume u: "unsigned_full t"
  show "\<exists>i f x. t = i @ f @ x \<and> int_part i \<and> frac_part f \<and> exp_part x"
  proof (cases t)
    case Nil
    with u show ?thesis by (simp add: unsigned_full_def)
  next
    case (Cons c cs)
    show ?thesis
    proof (cases "c = 0x30")
      case True
      with u Cons obtain f x where "cs = f @ x" "frac_part f" "exp_part x"
        by (auto simp: unsigned_full_def number_frac_iff)
      then have "t = [0x30] @ f @ x \<and> int_part [0x30] \<and> frac_part f \<and> exp_part x"
        using Cons True by (simp add: int_part_def)
      then show ?thesis by blast
    next
      case False
      with u Cons obtain f x where "dropWhile digit_byte cs = f @ x" "frac_part f" "exp_part x" "digit_byte c"
        by (auto simp: unsigned_full_def number_frac_iff)
      then have "t = (c # takeWhile digit_byte cs) @ f @ x \<and> int_part (c # takeWhile digit_byte cs)
          \<and> frac_part f \<and> exp_part x"
        using Cons False takeWhile_dropWhile_id [of digit_byte cs]
        by (auto simp: int_part_def list_all_iff dest: set_takeWhileD)
      then show ?thesis by blast
    qed
  qed
next
  assume "\<exists>i f x. t = i @ f @ x \<and> int_part i \<and> frac_part f \<and> exp_part x"
  then obtain i f x where t: "t = i @ f @ x" and i: "int_part i" and f: "frac_part f" and x: "exp_part x"
    by blast
  have nf: "number_frac (f @ x)" using f x by (auto simp: number_frac_iff)
  from i consider "i = [0x30]" | c ds where "i = c # ds" "digit_byte c" "c \<noteq> 0x30" "list_all digit_byte ds"
    by (auto simp: int_part_def)
  then show "unsigned_full t"
  proof cases
    case 1
    with t nf show ?thesis by (simp add: unsigned_full_def)
  next
    case 2
    have "dropWhile digit_byte (ds @ f @ x) = f @ x"
      using 2(4) frac_exp_head [OF f x] by (auto simp: list_all_iff dropWhile_append2)
    with 2 t nf show ?thesis by (simp add: unsigned_full_def)
  qed
qed

lemma number_full_iff: "number_full s \<longleftrightarrow> number_grammar s"
proof -
  have e: "number_full s = unsigned_full (case s of [] \<Rightarrow> [] | c # cs \<Rightarrow> if c = 0x2D then cs else s)"
    by (simp add: number_full_def unsigned_full_def)
  have i: "hd i \<noteq> 0x2D \<and> i \<noteq> []" if "int_part i" for i
    using that by (auto simp: int_part_def)
  show ?thesis
  proof (cases "\<exists>cs. s = 0x2D # cs")
    case True
    then obtain cs where s: "s = 0x2D # cs" by blast
    have "number_grammar s \<longleftrightarrow> (\<exists>i f x. cs = i @ f @ x \<and> int_part i \<and> frac_part f \<and> exp_part x)"
      unfolding number_grammar_def s using i by (metis hd_append2 list.inject list.sel(1))
    with e s show ?thesis by (simp add: unsigned_full_iff)
  next
    case False
    then have "(case s of [] \<Rightarrow> [] | c # cs \<Rightarrow> if c = 0x2D then cs else s) = s"
      by (cases s) auto
    moreover have "number_grammar s \<longleftrightarrow> (\<exists>i f x. s = i @ f @ x \<and> int_part i \<and> frac_part f \<and> exp_part x)"
      using False by (auto simp: number_grammar_def)
    ultimately show ?thesis using e by (simp add: unsigned_full_iff)
  qed
qed

section \<open>The flow record\<close>

lemma id_flow_decodeD:
  assumes "id_flow_decode p = Inr f"
  shows "length p = 144" "u32 p 0 = 0x4944464c" "wire_flags f = u16 p 72"
    "message_id_decode (id_flow_base p) = Inr (fl_event f)"
    "flow_status f = 1 \<longleftrightarrow> flow_side f \<in> {1, 2}"
  using assms unfolding id_flow_decode_def Let_def
  by (simp only: guard_Inr ebind_Inr_iff sum.inject, clarsimp)+

lemma id_flow_refusal: "id_flow_decode p = Inl x \<Longrightarrow> is_value_error x"
  unfolding id_flow_decode_def Let_def
  by (elim value_error_intros) (auto simp: ebind_Inl_iff dest: message_id_refusal)

lemma id_flow_injective:
  assumes p: "id_flow_decode p = Inr f" and q: "id_flow_decode q = Inr f"
  shows "p = q"
proof (rule nth_equalityI)
  note P = id_flow_decodeD [OF p] and Q = id_flow_decodeD [OF q]
  show "length p = length q" using P Q by simp
  have base: "id_flow_base p = id_flow_base q" using P(4) Q(4) by (rule message_id.injective)
  have m: "pyslice 0 4 p = pyslice 0 4 q" using u32_eqD [of p 0 q] P Q by simp
  have fl: "pyslice 72 74 p = pyslice 72 74 q" using u16_eqD [of p 72 q] P Q by simp
  fix i assume i: "i < length p"
  consider "i < 4" | "72 \<le> i" "i < 74" | "4 \<le> i" "i < 72" | "74 \<le> i" by linarith
  then show "p ! i = q ! i"
  proof cases
    case 1
    then have "pyslice 0 4 p ! i = p ! i" "pyslice 0 4 q ! i = q ! i" using P Q by (auto simp: pyslice_def)
    with m show ?thesis by simp
  next
    case 2
    then have "pyslice 72 74 p ! (i - 72) = p ! i" "pyslice 72 74 q ! (i - 72) = q ! i"
      using P Q by (auto simp: pyslice_def)
    with fl show ?thesis by simp
  next
    case 3
    then have "id_flow_base p ! i = p ! i" "id_flow_base q ! i = q ! i"
      using P Q by (auto simp: id_flow_base_def nth_put)
    with base show ?thesis by simp
  next
    case 4
    then have "id_flow_base p ! i = p ! i" "id_flow_base q ! i = q ! i"
      using P Q i by (auto simp: id_flow_base_def nth_put)
    with base show ?thesis by simp
  qed
qed

section \<open>The properties of the value decoders\<close>

lemma value_decoder_cases:
  assumes "dec \<in> {method_decode, token_method_decode, operation_target_decode, message_id_decode}"
  shows "value_decoder dec"
  using assms method_rec.value_decoder_axioms token_method.value_decoder_axioms
    operation_target.value_decoder_axioms message_id.value_decoder_axioms by blast

text \<open>A record of the shared layout with a complete value, for the concrete instances below.\<close>

definition sample_value :: "int \<Rightarrow> int \<Rightarrow> int \<Rightarrow> bytes \<Rightarrow> bytes" where
  "sample_value mg kind fl v =
     le_bytes 4 mg @ le_bytes 4 1 @ replicate 48 0 @ le_bytes 4 1 @ le_bytes 4 kind @
     le_bytes 4 (int (length v)) @ le_bytes 4 (int (length v)) @ le_bytes 2 fl @ replicate 6 0 @
     v @ replicate (64 - length v) 0"

text \<open>
  The four value decoders are exact: an accepted record satisfies the extraction contract (a
  complete copy, a copy cut at 64 bytes, or no bytes at all), the hexadecimal value has exactly the
  copied length, and no other payload decodes to the same event.
\<close>

theorem value_decoders_exact:
  assumes "dec \<in> {method_decode, token_method_decode, operation_target_decode, message_id_decode}"
    and "dec p = Inr e"
  shows "extraction_ok (v_rec e) \<and> length (value_hex e) = 2 * nat (copied_length (v_rec e)) \<and>
         (dec q = Inr e \<longrightarrow> q = p)"
proof -
  note d = value_decoder_cases [OF assms(1)]
  show ?thesis
    using value_decoder.extraction [OF d assms(2)] value_decoder.value_length [OF d assms(2)]
      value_decoder.injective [OF d _ assms(2)] by blast
qed

theorem value_decoders_exact_witness:
  "\<exists>e. method_decode (sample_value 0x4A4D4554 0 0 [0x47, 0x45, 0x54]) = Inr e \<and>
       value_hex e = ''474554'' \<and> extraction_ok (v_rec e)"
proof -
  have "ok_with (\<lambda>e. value_hex e = ''474554'')
      (method_decode (sample_value 0x4A4D4554 0 0 [0x47, 0x45, 0x54]))" by code_simp
  then obtain e where e: "method_decode (sample_value 0x4A4D4554 0 0 [0x47, 0x45, 0x54]) = Inr e"
    "value_hex e = ''474554''" unfolding ok_with_iff by blast
  then show ?thesis using value_decoders_exact [OF insertI1 e(1)] by blast
qed

text \<open>
  A numeric message identifier that decodes is a JSON number: its bytes split into an optional
  minus sign, an integer part without leading zeros, an optional fraction and an optional exponent,
  and it was copied whole.
\<close>

theorem message_id_number_valid:
  assumes "message_id_decode p = Inr e" and "v_status (v_rec e) \<in> {1, 2}" and "v_aux (v_rec e) = 2"
  shows "v_status (v_rec e) = 1 \<and> (\<exists>v. from_hex (value_hex e) = Inr v \<and> number_grammar v)"
proof -
  note * = assms(1) [unfolded message_id_decode_def Let_def guard_Inr sum.inject]
  note e = message_id_decodeD [OF assms(1)]
  let ?v = "take (nat (copied_length (v_rec e))) (value_field p)"
  from * have "\<not> (v_status (unpack_value_rec p) \<in> {1, 2} \<and> v_aux (unpack_value_rec p) = 2 \<and>
      (v_status (unpack_value_rec p) \<noteq> 1 \<or>
       \<not> number_full (take (nat (copied_length (unpack_value_rec p))) (value_field p))))" by argo
  with assms(2,3) have "v_status (v_rec e) = 1 \<and> number_full ?v" unfolding e(2) by blast
  moreover have "from_hex (value_hex e) = Inr ?v" unfolding e(3) by (rule from_hex_to_hex)
  ultimately show ?thesis by (auto simp: number_full_iff)
qed

theorem message_id_number_valid_witness:
  "ok_with (\<lambda>e. v_status (v_rec e) = 1 \<and> ok_with number_grammar (from_hex (value_hex e)))
     (message_id_decode (sample_value 0x4d534749 2 0 [0x2D, 0x31, 0x2E, 0x35, 0x65, 0x33]))"
proof -
  have "ok_with (\<lambda>e. v_status (v_rec e) = 1 \<and> v_aux (v_rec e) = 2)
     (message_id_decode (sample_value 0x4d534749 2 0 [0x2D, 0x31, 0x2E, 0x35, 0x65, 0x33]))"
    by code_simp
  then show ?thesis using message_id_number_valid unfolding ok_with_iff by blast
qed

text \<open>
  The flow record is the identifier record with the flow bits added: it decodes only when the
  identifier inside does, a flow side is named exactly when the flow status is complete, and no two
  payloads give one flow event, although the flag bits and the magic are rewritten on the way.
\<close>

theorem id_flow_exact:
  assumes "id_flow_decode p = Inr f"
  shows "message_id_decode (id_flow_base p) = Inr (fl_event f) \<and>
         (flow_status f = 1 \<longleftrightarrow> flow_side f \<in> {1, 2}) \<and> (id_flow_decode q = Inr f \<longrightarrow> q = p)"
  using id_flow_decodeD [OF assms] id_flow_injective [OF _ assms] by blast

theorem id_flow_exact_witness:
  "ok_with (\<lambda>f. flow_status f = 1 \<and> flow_side f \<in> {1, 2})
     (id_flow_decode (sample_value 0x4944464c 1 0x120 [0x61]))"
proof -
  have "ok_with (\<lambda>f. flow_status f = 1) (id_flow_decode (sample_value 0x4944464c 1 0x120 [0x61]))"
    by code_simp
  then show ?thesis using id_flow_exact unfolding ok_with_iff by blast
qed

end
