(* ===== verification/Event_Decoders.thy ===== *)
theory Event_Decoders
  imports Value_Decoders
begin

text \<open>
  The remaining record decoders: reply and HTTP response metadata (with its TLS block), the
  activity-group frame, parser initialization, JSON lifecycle boundaries with their window check,
  handler metadata, and session/routing records.
\<close>

unbundle bit_operations_syntax

section \<open>Reply metadata\<close>

record reply_event =
  r_hdr :: hdr
  r_flags :: int
  r_reads :: int
  r_source_bytes :: int
  r_status :: int
  result_present :: int
  error_present :: int
  code_state :: int
  error_code :: int
  tool_error_state :: int
  tool_error :: int
  reserved0 :: int
  reserved1 :: int

definition unpack_reply :: "bytes \<Rightarrow> reply_event" where
  "unpack_reply p =
     \<lparr>r_hdr = unpack_hdr p, r_flags = u32 p 56, r_reads = u32 p 60, r_source_bytes = u32 p 64,
      r_status = u32 p 68, result_present = u32 p 72, error_present = u32 p 76,
      code_state = u32 p 80, error_code = i32 p 84, tool_error_state = u32 p 88,
      tool_error = u32 p 92, reserved0 = u32 p 96, reserved1 = u32 p 100\<rparr>"

definition REPLY_STATES :: "(int \<times> string) list" where
  "REPLY_STATES =
     [(0, ''not_applicable''), (1, ''complete''), (3, ''read_failed''), (4, ''out_of_scope''),
      (5, ''budget_exhausted''), (7, ''unavailable''), (9, ''invalid_cache''),
      (10, ''wrong_type''), (11, ''ambiguous'')]"

text \<open>The event of the source also carries the three state names, which are a function of it.\<close>

definition reply_state_name :: "int \<Rightarrow> string" where
  "reply_state_name s = the (map_of REPLY_STATES s)"

definition reply_decode :: "bytes \<Rightarrow> reply_event result" where
  "reply_decode p =
     (if length p \<noteq> 104 then Inl (ValueError ''reply metadata size'')
      else let e = unpack_reply p in
        if magic (r_hdr e) \<noteq> 0x52504c59 \<or> abi (r_hdr e) \<noteq> 1
           \<or> beyond_mask (r_flags e) 15 \<or> r_reads e > 80
           \<or> r_source_bytes e > 2048 \<or> reserved0 e \<noteq> 0 \<or> reserved1 e \<noteq> 0
           \<or> list_ex (\<lambda>k. map_of REPLY_STATES k = None) [r_status e, code_state e, tool_error_state e]
           \<or> list_ex (\<lambda>k. k \<notin> {0, 1}) [result_present e, error_present e, tool_error e]
        then Inl (ValueError ''invalid reply metadata'')
        else if r_status e = 1 \<and> result_present e + error_present e \<noteq> 1
        then Inl (ValueError ''invalid reply presence'')
        else if r_status e = 1 \<and> (code_state e \<noteq> 0) \<noteq> (error_present e \<noteq> 0)
        then Inl (ValueError ''invalid error field state'')
        else if r_status e = 1 \<and> (tool_error_state e \<noteq> 0) \<noteq> (result_present e \<noteq> 0)
        then Inl (ValueError ''invalid result field state'')
        else if r_status e \<noteq> 1 \<and>
                list_ex (\<lambda>k. k \<noteq> 0) [result_present e, error_present e, code_state e, error_code e,
                                      tool_error_state e, tool_error e]
        then Inl (ValueError ''fields on unqualified reply'')
        else if (code_state e \<noteq> 1 \<and> error_code e \<noteq> 0) \<or> (tool_error_state e \<noteq> 1 \<and> tool_error e \<noteq> 0)
        then Inl (ValueError ''value without complete field'')
        else Inr e)"

section \<open>HTTP response metadata\<close>

text \<open>
  The TLS block: 32 bytes, present from ABI 2 on. Its event keeps the raw numbers beside the
  derived certificate state; the names of the source are the tables below applied to them.
\<close>

record tls_detail =
  protocol_number :: int
  cipher_suite_id :: int
  peer_cert_mode :: int
  verify_result :: int
  client_certificate :: string
  tls_bits :: int

record tls_event =
  tls_mode :: int
  tls_reason :: "string option"
  filter_nodes :: int
  tls_info :: "tls_detail option"

definition TLS_MODES :: "(int \<times> string) list" where
  "TLS_MODES = [(0, ''not_applicable''), (1, ''terminated''), (2, ''ssl_filter_not_decrypting''),
                (3, ''no_ssl_filter''), (4, ''unknown'')]"

definition TLS_REASONS :: "(int \<times> string option) list" where
  "TLS_REASONS = [(0, None), (1, Some ''read_failed''), (2, Some ''walk_limit''),
                  (3, Some ''multiple_ssl_filters''), (4, Some ''server_side_entity''),
                  (5, Some ''inactive_context''), (6, Some ''invalid_flow'')]"

definition TLS_BITS :: "string list" where
  "TLS_BITS = [''handshake_ok'', ''passthru'', ''chain_present'', ''session_cert_present'',
               ''retain_certificate'', ''ticket_resumed'', ''session_resumed'', ''allow_nonssl'']"

definition PROTOCOLS :: "(int \<times> string option) list" where
  "PROTOCOLS = [(0, None), (1, Some ''SSLv2''), (2, Some ''SSLv3''), (3, Some ''TLSv1''),
                (4, Some ''TLSv1.1''), (5, Some ''TLSv1.2''), (6, Some ''TLSv1.3''),
                (7, Some ''DTLSv1''), (8, Some ''DTLSv1.2''), (9, Some ''GMSSLv1.1'')]"

definition CERT_MODES :: "(int \<times> string) list" where
  "CERT_MODES = [(0, ''ignore''), (1, ''require''), (2, ''request'')]"

definition tls_flag :: "int \<Rightarrow> nat \<Rightarrow> bool" where
  "tls_flag bits i \<longleftrightarrow> drop_bit i bits AND 1 \<noteq> 0"

definition certificate_state :: "int \<Rightarrow> int \<Rightarrow> int \<Rightarrow> string" where
  "certificate_state pcm bits vfy =
     (let present = tls_flag bits 2 \<or> tls_flag bits 3 in
      if pcm = 0 then ''not_requested''
      else if present then (if vfy = 0 then ''verified'' else ''failed'')
      else if tls_flag bits 4 then ''none_observed''
      else ''unknown'')"

definition decode_tls :: "bytes \<Rightarrow> tls_event result" where
  "decode_tls p =
     (if length p \<noteq> 32 then Inl StructError
      else let mode = u32 p 0; reason = u32 p 4; nodes = u32 p 8; bits = u32 p 12;
               proto = u32 p 16; suite = u32 p 20; pcm = u32 p 24; vfy = u32 p 28;
               detail = mode \<in> {1, 2} in
        if map_of TLS_MODES mode = None \<or> map_of TLS_REASONS reason = None \<or> nodes > 16
           \<or> drop_bit (length TLS_BITS) bits \<noteq> 0 \<or> map_of PROTOCOLS proto = None \<or> suite > 0xffff
           \<or> map_of CERT_MODES pcm = None \<or> vfy > 127
        then Inl (ValueError ''invalid TLS block'')
        else if (mode = 4) \<noteq> (reason \<noteq> 0)
        then Inl (ValueError ''TLS reason on wrong mode'')
        else if \<not> detail \<and> (bits \<noteq> 0 \<or> proto \<noteq> 0 \<or> suite \<noteq> 0 \<or> pcm \<noteq> 0 \<or> vfy \<noteq> 0)
        then Inl (ValueError ''TLS values without an SSL filter reading'')
        else if mode = 0 \<and> nodes \<noteq> 0
        then Inl (ValueError ''TLS walk on an inapplicable event'')
        else if mode = 1 \<and> (\<not> tls_flag bits 0 \<or> tls_flag bits 1)
        then Inl (ValueError ''terminated without a completed decrypting handshake'')
        else if mode = 2 \<and> tls_flag bits 0 \<and> \<not> tls_flag bits 1
        then Inl (ValueError ''not-decrypting with a completed decrypting handshake'')
        else Inr \<lparr>tls_mode = mode,
                  tls_reason = (if mode = 4 then the (map_of TLS_REASONS reason) else None),
                  filter_nodes = nodes,
                  tls_info =
                    (if detail
                     then Some \<lparr>protocol_number = proto, cipher_suite_id = suite,
                                peer_cert_mode = pcm, verify_result = vfy,
                                client_certificate = certificate_state pcm bits vfy,
                                tls_bits = bits\<rparr>
                     else None)\<rparr>)"

record response_event =
  p_hdr :: hdr
  code :: int
  presence :: int
  p_flags :: int
  p_reads :: int
  p_source_bytes :: int
  http_status_state :: int
  http_status :: int
  completion_state :: int
  transfer_complete :: int
  reserved :: int
  client_tls :: "tls_event option"

definition unpack_response :: "bytes \<Rightarrow> response_event" where
  "unpack_response p =
     \<lparr>p_hdr = unpack_hdr p, code = u32 p 56, presence = u32 p 60, p_flags = u32 p 64,
      p_reads = u32 p 68, p_source_bytes = u32 p 72, http_status_state = u32 p 76,
      http_status = u32 p 80, completion_state = u32 p 84, transfer_complete = u32 p 88,
      reserved = u32 p 92, client_tls = None\<rparr>"

definition RESPONSE_STATES :: "(int \<times> string) list" where
  "RESPONSE_STATES = [(0, ''not_applicable''), (1, ''complete''), (3, ''read_failed''),
                      (4, ''out_of_scope''), (7, ''unavailable'')]"

definition response_state_name :: "int \<Rightarrow> string" where
  "response_state_name s = the (map_of RESPONSE_STATES s)"

definition RESPONSE_EVENTS :: "(int \<times> string) list" where
  "RESPONSE_EVENTS =
     [(28, ''HUDCTL_RESPONSE''), (144, ''HUDEVT_RESPONSE''), (29, ''HUDCTL_RESPONSE_DONE''),
      (145, ''HUDEVT_RESPONSE_DONE''), (1, ''HUDCTL_ABORT''), (34, ''HUDEVT_ABORTED''),
      (5, ''HUDCTL_TEARDOWN''), (142, ''HUDEVT_REQUEST''), (27, ''HUDCTL_REQUEST_DONE''),
      (143, ''HUDEVT_REQUEST_DONE'')]"

definition response_decode :: "bytes \<Rightarrow> response_event result" where
  "response_decode p =
     (if length p \<noteq> 96 \<and> length p \<noteq> 128 then Inl (ValueError ''response metadata size'')
      else let e = unpack_response p; status = http_status_state e; done = completion_state e in
        if magic (p_hdr e) \<noteq> 0x5253504d \<or> abi (p_hdr e) \<notin> {1, 2}
           \<or> length p \<noteq> (if abi (p_hdr e) = 1 then 96 else 128)
           \<or> reserved e \<noteq> 0 \<or> presence e > 7 \<or> beyond_mask (p_flags e) 15
           \<or> p_reads e > 4 \<or> p_source_bytes e > 16
           \<or> map_of RESPONSE_STATES status = None \<or> done \<notin> {0, 1, 4, 7}
        then Inl (ValueError ''invalid response metadata'')
        else if (code e \<in> {28, 144}) \<noteq> (status \<noteq> 0)
        then Inl (ValueError ''status on wrong event'')
        else if (code e \<in> {29, 145}) \<noteq> (done \<noteq> 0)
        then Inl (ValueError ''completion on wrong event'')
        else if status = 1 \<and> \<not> (100 \<le> http_status e \<and> http_status e \<le> 999)
        then Inl (ValueError ''invalid HTTP status'')
        else if status \<noteq> 1 \<and> http_status e \<noteq> 0
        then Inl (ValueError ''value on unavailable HTTP status'')
        else if done = 1 \<and> transfer_complete e \<notin> {0, 1}
        then Inl (ValueError ''invalid completion Boolean'')
        else if done \<noteq> 1 \<and> transfer_complete e \<noteq> 0
        then Inl (ValueError ''value on unavailable completion'')
        else if abi (p_hdr e) = 2
        then ebind (decode_tls (drop 96 p)) (\<lambda>tls.
               if code e \<noteq> 142 \<and> tls_mode tls \<noteq> 0
               then Inl (ValueError ''TLS reading on wrong event'')
               else Inr (e\<lparr>client_tls := Some tls\<rparr>))
        else Inr e)"

section \<open>The activity-group frame\<close>

record frame =
  owner_instance :: string
  exchange :: string
  f_status :: int
  phase :: int
  side :: int
  invocation :: string

definition unwrap :: "bytes \<Rightarrow> (frame \<times> bytes) result" where
  "unwrap p =
     (if length p < 48 then Inl (ValueError ''short activity group frame'')
      else let mg = u32 p 0; ab = u32 p 4; len = u32 p 8; sd = u32 p 12; owner = u64 p 16;
               exch = u64 p 24; status = u32 p 32; ph = u32 p 36; inv = u64 p 40 in
        if mg \<noteq> 0x41474331 \<or> ab \<noteq> 2 \<or> len \<notin> {96, 104, 128, 144}
           \<or> int (length p) \<noteq> 48 + len \<or> sd \<notin> {0, 1, 2}
           \<or> \<not> status < 7 \<or> \<not> ph < 5
        then Inl (ValueError ''invalid activity group frame'')
        else if (owner \<noteq> 0) \<noteq> (exch \<noteq> 0) \<or> (ph \<noteq> 0) \<noteq> (exch \<noteq> 0)
                \<or> (exch \<noteq> 0 \<and> (sd = 0 \<or> inv = 0)) \<or> (status = 1 \<and> exch = 0)
        then Inl (ValueError ''inconsistent activity group key'')
        else Inr (\<lparr>owner_instance = str_int owner, exchange = str_int exch, f_status = status,
                   phase = ph, side = sd, invocation = str_int inv\<rparr>, drop 48 p))"

section \<open>Initialization and lifecycle boundaries\<close>

record init_event =
  i_magic :: int
  i_abi :: int
  i_instance :: int
  i_revision :: int
  i_run :: int
  i_invocation :: int
  i_monotonic_ns :: int
  i_sequence :: int
  i_output_failures :: int
  i_code :: int
  i_status :: int
  i_flags :: int
  i_flow_side :: int
  i_reads :: int
  i_source_bytes :: int
  i_guards :: int
  i_reserved :: int
  initialization_completed :: bool
  i_lifecycle_validated :: bool

definition json_initialization_decode :: "bytes \<Rightarrow> init_event result" where
  "json_initialization_decode p =
     (if length p \<noteq> 96 then Inl (ValueError ''initialization record length'')
      else let v = \<lparr>i_magic = u32 p 0, i_abi = u32 p 4, i_instance = u64 p 8, i_revision = u64 p 16,
                    i_run = u64 p 24, i_invocation = u64 p 32, i_monotonic_ns = u64 p 40,
                    i_sequence = u64 p 48, i_output_failures = u64 p 56, i_code = u32 p 64,
                    i_status = u32 p 68, i_flags = u32 p 72, i_flow_side = u32 p 76,
                    i_reads = u32 p 80, i_source_bytes = u32 p 84, i_guards = u32 p 88,
                    i_reserved = u32 p 92, initialization_completed = False,
                    i_lifecycle_validated = False\<rparr> in
        if i_magic v \<noteq> 0x4A494E49 \<or> i_abi v \<noteq> 1
        then Inl (ValueError ''initialization record ABI'')
        else if i_reserved v \<noteq> 0 \<or> i_status v > 6 \<or> beyond_mask (i_flags v) 15
        then Inl (ValueError ''initialization record fields'')
        else if i_reads v > 3 \<or> i_source_bytes v > 9
        then Inl (ValueError ''initialization read budget'')
        else if i_guards v > 3 \<or> i_flow_side v > 2
        then Inl (ValueError ''initialization guard fields'')
        else if i_status v = 1 \<and> (i_code v \<noteq> 57 \<or> i_guards v \<noteq> 3 \<or> i_flow_side v \<notin> {1, 2}
                                  \<or> i_reads v \<noteq> 3 \<or> i_source_bytes v \<noteq> 9)
        then Inl (ValueError ''initialization completion without entry guards'')
        else Inr (v\<lparr>initialization_completed :=
               i_status v = 1 \<and> i_flags v = 0 \<and> i_output_failures v = 0
               \<and> i_instance v \<noteq> 0 \<and> i_revision v \<noteq> 0 \<and> i_run v \<noteq> 0 \<and> i_invocation v \<noteq> 0
               \<and> i_sequence v \<noteq> 0 \<and> i_monotonic_ns v \<noteq> 0\<rparr>))"

record boundary_event =
  b_hdr :: hdr
  context_tag :: int
  b_kind :: int
  b_code :: int
  b_status :: int
  b_flags :: int
  b_flow_side :: int
  scb_flags :: int
  cache_present :: int
  seen_mask :: int
  b_reads :: int
  b_source_bytes :: int
  payload_bytes :: int
  b_reserved :: int
  b_status_name :: string
  b_lifecycle_validated :: bool

definition LIFECYCLE_STATES :: "string list" where
  "LIFECYCLE_STATES = [''unavailable'', ''observed'', ''address_only'', ''unsupported'',
     ''read_failed'', ''disabled'', ''capacity'', ''overflow'', ''map_failed'', ''run_mismatch'']"

definition json_lifecycle_decode :: "bytes \<Rightarrow> boundary_event result" where
  "json_lifecycle_decode p =
     (if length p \<noteq> 112 then Inl (ValueError ''boundary size'')
      else let e = \<lparr>b_hdr = unpack_hdr p, context_tag = u64 p 56, b_kind = u32 p 64,
                    b_code = u32 p 68, b_status = u32 p 72, b_flags = u32 p 76,
                    b_flow_side = u32 p 80, scb_flags = u32 p 84, cache_present = u32 p 88,
                    seen_mask = u32 p 92, b_reads = u32 p 96, b_source_bytes = u32 p 100,
                    payload_bytes = u32 p 104, b_reserved = u32 p 108, b_status_name = [],
                    b_lifecycle_validated = False\<rparr> in
        if magic (b_hdr e) \<noteq> 0x4a4c4244 \<or> abi (b_hdr e) \<noteq> 1 \<or> b_kind e \<notin> {1, 2, 3}
           \<or> b_status e \<ge> int (length LIFECYCLE_STATES) \<or> beyond_mask (b_flags e) 15
           \<or> b_reserved e \<noteq> 0 \<or> b_flow_side e > 2 \<or> beyond_mask (scb_flags e) 0x3fff
           \<or> cache_present e > 1 \<or> beyond_mask (seen_mask e) 15 \<or> b_reads e > 4
           \<or> b_source_bytes e > 29 \<or> context_tag e > 128
        then Inl (ValueError ''boundary fields'')
        else if b_kind e = 3 \<and> list_ex (\<lambda>k. k \<noteq> 0) [b_code e, b_flow_side e, scb_flags e,
                 cache_present e, b_reads e, b_source_bytes e, payload_bytes e]
        then Inl (ValueError ''reset has no qualified source fields'')
        else if b_status e \<in> {1, 5} \<and> (b_kind e = 3 \<or> b_flow_side e \<notin> {1, 2})
        then Inl (ValueError ''observed storage requires side'')
        else Inr (e\<lparr>b_status_name := LIFECYCLE_STATES ! nat (b_status e)\<rparr>))"

text \<open>
  The window check: the loop of \<^verbatim>\<open>window\<close> with its position \<open>n\<close>, the identities seen per kind
  and the reasons collected so far.
\<close>

record window_report =
  boundaries_usable :: bool
  w_reasons :: "string list"
  w_lifecycle_validated :: bool
  request_scope_validated :: bool
  message_association_validated :: bool

definition boundary_reasons ::
  "int option \<Rightarrow> int \<Rightarrow> (int \<times> int) option \<Rightarrow> boundary_event \<Rightarrow> string list"
where
  "boundary_reasons run n known e =
     (let identity = (inst (b_hdr e), revision (b_hdr e));
          previous = (case known of None \<Rightarrow> identity | Some i \<Rightarrow> i)
      in (if identity \<noteq> previous \<or> Some (run_id (b_hdr e)) \<noteq> run then [''source_changed''] else []) @
         (if seq_no (b_hdr e) \<noteq> n \<or> b_flags e \<noteq> 0 \<or> output_failures (b_hdr e) \<noteq> 0
             \<or> b_status e \<notin> {1, 2}
          then [''diagnostic_or_gap''] else []))"

fun window_loop ::
  "int option \<Rightarrow> int \<Rightarrow> (int \<rightharpoonup> int \<times> int) \<Rightarrow> boundary_event list \<Rightarrow> string list \<Rightarrow> string list"
where
  "window_loop run n ids [] invalid = invalid"
| "window_loop run n ids (e # es) invalid =
     window_loop run (n + 1)
       (case ids (b_kind e) of
          None \<Rightarrow> ids(b_kind e \<mapsto> (inst (b_hdr e), revision (b_hdr e)))
        | Some _ \<Rightarrow> ids)
       es (invalid @ boundary_reasons run n (ids (b_kind e)) e)"

definition lifecycle_window :: "boundary_event list \<Rightarrow> string list \<Rightarrow> window_report" where
  "lifecycle_window events breaks =
     (let run = (case events of [] \<Rightarrow> None | e # _ \<Rightarrow> Some (run_id (b_hdr e)));
          invalid = window_loop run 1 Map.empty events breaks
      in \<lparr>boundaries_usable = (invalid = []), w_reasons = invalid,
          w_lifecycle_validated = False, request_scope_validated = False,
          message_association_validated = False\<rparr>)"

section \<open>Handler metadata\<close>

record metadata_event =
  m_hdr :: hdr
  m_kind :: int
  m_code :: int
  m_presence :: int
  m_flags :: int
  m_event_name :: "string option"

text \<open>\<open>event_names\<close> is the build's enum manifest, a dictionary from code text to event name.\<close>

definition metadata_decode :: "bytes \<Rightarrow> (string \<rightharpoonup> string) \<Rightarrow> metadata_event result" where
  "metadata_decode p event_names =
     (if length p \<noteq> 72 then Inl (ValueError ''invalid metadata record length'')
      else let h = unpack_hdr p; k = u32 p 56; c = u32 p 60; pr = u32 p 64 in
        if magic h \<noteq> 0x4D455441 \<or> abi h \<noteq> 1
        then Inl (ValueError ''unsupported metadata record schema'')
        else if k \<notin> {1, 2} \<or> beyond_mask pr 7
        then Inl (ValueError ''invalid metadata record fields'')
        else Inr \<lparr>m_hdr = h, m_kind = k, m_code = c, m_presence = pr, m_flags = u32 p 68,
                  m_event_name = event_names (str_int c)\<rparr>)"

section \<open>Session and routing records\<close>

fun str_hex :: "nat \<Rightarrow> string" where
  "str_hex n = (if n < 16 then [hex_char n] else str_hex (n div 16) @ [hex_char (n mod 16)])"

declare str_hex.simps [simp del]

fun hextets :: "bytes \<Rightarrow> nat list" where
  "hextets (a # b # rest) = (unat a * 256 + unat b) # hextets rest"
| "hextets _ = []"

text \<open>
  \<^verbatim>\<open>str(ipaddress.IPv6Address)\<close>: the leftmost longest run of at least two zero groups is
  written as a double colon. \<open>zero_run\<close> is the scan that finds it: (current start, current
  length, best start, best length).
\<close>

fun zero_run :: "nat \<Rightarrow> nat \<Rightarrow> nat \<Rightarrow> nat \<Rightarrow> nat \<Rightarrow> nat list \<Rightarrow> nat \<times> nat" where
  "zero_run i cs cl bs bl [] = (bs, bl)"
| "zero_run i cs cl bs bl (h # hs) =
     (if h = 0
      then let cs' = (if cl = 0 then i else cs); cl' = cl + 1 in
           if cl' > bl then zero_run (i + 1) cs' cl' cs' cl' hs
           else zero_run (i + 1) cs' cl' bs bl hs
      else zero_run (i + 1) cs 0 bs bl hs)"

definition ipv6_text :: "bytes \<Rightarrow> string" where
  "ipv6_text a =
     (let hs = map str_hex (hextets a); (bs, bl) = zero_run 0 0 0 0 0 (hextets a) in
      if bl > 1
      then let be = bs + bl;
               tail = drop be hs @ (if be = length hs then [[]] else []);
               mid = take bs hs @ [[]] @ tail
           in join '':'' ((if bs = 0 then [[]] else []) @ mid)
      else join '':'' hs)"

definition ipv4_mapped :: "bytes \<Rightarrow> bool" where
  "ipv4_mapped a \<longleftrightarrow> take 12 a = replicate 10 0 @ [0xFF, 0xFF]"

definition ip_text :: "bytes \<Rightarrow> string" where
  "ip_text a =
     (if ipv4_mapped a then join ''.'' (map (\<lambda>b. str_nat (unat b)) (drop 12 a)) else ipv6_text a)"

record session_event =
  s_rec :: value_rec
  port :: int
  domain :: int
  endpoint_status :: int
  s_field :: string
  s_value_hex :: string
  s_status_name :: string
  original_length_known :: bool
  endpoint_status_name :: string
  address_hex :: "string option"
  s_address :: "string option"

definition SESSION_STATUS :: "(int \<times> string) list" where
  "SESSION_STATUS = [(1, ''complete''), (2, ''truncated''), (3, ''read_failed''),
                     (4, ''out_of_scope''), (5, ''budget_exhausted''), (7, ''unavailable'')]"

definition session_routing_decode :: "bytes \<Rightarrow> session_event result" where
  "session_routing_decode p =
     (if length p \<noteq> 168 then Inl (ValueError ''session/routing record size'')
      else let e = unpack_value_rec p; value = value_field p; address = pyslice 144 160 p;
               prt = u16 p 160; dom = u16 p 162; endpoint = u32 p 164;
               n = copied_length e; status = v_status e; kind = v_aux e in
        if magic_of e \<noteq> 0x53524d45 \<or> abi_of e \<noteq> 1 \<or> kind \<notin> {1, 2}
           \<or> map_of SESSION_STATUS status = None \<or> n > 64 \<or> any_nonzero (drop (nat n) value)
           \<or> v_reads e > 80 \<or> v_source_bytes e > 256
        then Inl (ValueError ''invalid session/routing record'')
        else if status \<notin> {1, 2} \<and> n \<noteq> 0
        then Inl (ValueError ''value on unavailable field'')
        else if status = 1 \<and> n \<noteq> original_length e
        then Inl (ValueError ''incomplete complete field'')
        else if status = 2 \<and> \<not> (n = 64 \<and> 64 < original_length e)
        then Inl (ValueError ''invalid truncated field'')
        else if kind = 1 \<and> endpoint \<noteq> 0
        then Inl (ValueError ''endpoint on session header'')
        else if kind = 2 \<and> endpoint \<notin> {1, 3, 4, 5, 7}
        then Inl (ValueError ''invalid endpoint status'')
        else if endpoint \<noteq> 1 \<and> (any_nonzero address \<or> prt \<noteq> 0 \<or> dom \<noteq> 0)
        then Inl (ValueError ''bytes on unavailable endpoint'')
        else Inr \<lparr>s_rec = e, port = prt, domain = dom, endpoint_status = endpoint,
                  s_field = (if kind = 1 then ''observed_session_header'' else ''selected_pool_name''),
                  s_value_hex = to_hex (take (nat n) value),
                  s_status_name = the (map_of SESSION_STATUS status),
                  original_length_known = (original_length e \<noteq> 0xffffffff),
                  endpoint_status_name =
                    (case map_of SESSION_STATUS endpoint of None \<Rightarrow> ''not_applicable'' | Some s \<Rightarrow> s),
                  address_hex = (if endpoint = 1 then Some (to_hex address) else None),
                  s_address = (if endpoint = 1 then Some (ip_text address) else None)\<rparr>)"

section \<open>Refusals and exactness\<close>

lemma reply_refusal: "reply_decode p = Inl x \<Longrightarrow> is_value_error x"
  unfolding reply_decode_def Let_def by (elim value_error_intros)

lemma decode_tls_refusal: "length p = 32 \<Longrightarrow> decode_tls p = Inl x \<Longrightarrow> is_value_error x"
  unfolding decode_tls_def Let_def
  by (simp only: not_True_eq_False if_False simp_thms, elim value_error_intros)

lemma response_tls_tail:
  assumes "(if c then ebind (decode_tls q) (\<lambda>tls. if w tls then Inl (ValueError m) else Inr (g tls))
            else Inr e) = Inl x"
    and "c \<Longrightarrow> length q = 32"
  shows "is_value_error x"
  using assms by (auto simp: ebind_Inl_iff dest: decode_tls_refusal split: if_splits)

lemma response_refusal: "response_decode p = Inl x \<Longrightarrow> is_value_error x"
  unfolding response_decode_def Let_def
  by (elim value_error_intros, erule response_tls_tail) simp

lemma unwrap_refusal: "unwrap p = Inl x \<Longrightarrow> is_value_error x"
  unfolding unwrap_def Let_def by (elim value_error_intros)

lemma metadata_refusal: "metadata_decode p names = Inl x \<Longrightarrow> is_value_error x"
  unfolding metadata_decode_def Let_def by (elim value_error_intros)

lemma session_routing_refusal: "session_routing_decode p = Inl x \<Longrightarrow> is_value_error x"
  unfolding session_routing_decode_def Let_def by (elim value_error_intros)

lemma json_lifecycle_refusal: "json_lifecycle_decode p = Inl x \<Longrightarrow> is_value_error x"
  unfolding json_lifecycle_decode_def Let_def by (elim value_error_intros)

lemma json_initialization_refusal: "json_initialization_decode p = Inl x \<Longrightarrow> is_value_error x"
  unfolding json_initialization_decode_def Let_def by (elim value_error_intros)

lemma unwrapD:
  assumes "unwrap p = Inr (f, q)"
  shows "q = drop 48 p" and "length p = 48 + length q" and "length q \<in> {96, 104, 128, 144}"
    and "exchange f = str_int (u64 p 24)" and "owner_instance f = str_int (u64 p 16)"
    and "invocation f = str_int (u64 p 40)"
    and "phase f \<noteq> 0 \<longleftrightarrow> u64 p 24 \<noteq> 0" and "u64 p 16 \<noteq> 0 \<longleftrightarrow> u64 p 24 \<noteq> 0"
    and "f_status f = 1 \<Longrightarrow> u64 p 24 \<noteq> 0"
    and "u64 p 24 \<noteq> 0 \<Longrightarrow> side f \<in> {1, 2} \<and> u64 p 40 \<noteq> 0"
    and "phase f \<in> {0..<5}"
proof -
  let ?len = "u32 p 8"
  note * = assms [unfolded unwrap_def Let_def guard_Inr sum.inject prod.inject]
  then have lens: "48 \<le> length p" "?len \<in> {96, 104, 128, 144}" "int (length p) = 48 + ?len"
    and rng: "u32 p 12 \<in> {0, 1, 2}" "u32 p 36 < 5" by auto
  from * have key: "(u64 p 16 \<noteq> 0) = (u64 p 24 \<noteq> 0)" "(u32 p 36 \<noteq> 0) = (u64 p 24 \<noteq> 0)"
      "u64 p 24 \<noteq> 0 \<longrightarrow> u32 p 12 \<noteq> 0 \<and> u64 p 40 \<noteq> 0" "u32 p 32 = 1 \<longrightarrow> u64 p 24 \<noteq> 0"
    by blast+
  from * have f: "f = \<lparr>owner_instance = str_int (u64 p 16), exchange = str_int (u64 p 24),
      f_status = u32 p 32, phase = u32 p 36, side = u32 p 12, invocation = str_int (u64 p 40)\<rparr>"
    and q: "q = drop 48 p"
    by blast+
  show "length p = 48 + length q" "length q \<in> {96, 104, 128, 144}" using lens by (auto simp: q)
  show "phase f \<noteq> 0 \<longleftrightarrow> u64 p 24 \<noteq> 0" "u64 p 16 \<noteq> 0 \<longleftrightarrow> u64 p 24 \<noteq> 0"
    "f_status f = 1 \<Longrightarrow> u64 p 24 \<noteq> 0"
    "u64 p 24 \<noteq> 0 \<Longrightarrow> side f \<in> {1, 2} \<and> u64 p 40 \<noteq> 0"
    using key rng by (auto simp: f)
  show "phase f \<in> {0..<5}" using rng by (simp add: f)
  show "q = drop 48 p" "exchange f = str_int (u64 p 24)" "owner_instance f = str_int (u64 p 16)"
    "invocation f = str_int (u64 p 40)" by (simp_all add: f q)
qed

text \<open>As for the value records, no two payloads decode to one reply or response event.\<close>

lemma reply_decodeD:
  assumes "reply_decode p = Inr e"
  shows "length p = 104" and "e = unpack_reply p"
  using assms [unfolded reply_decode_def Let_def guard_Inr sum.inject] by blast+

lemma reply_injective:
  assumes "reply_decode p = Inr e" "reply_decode q = Inr e"
  shows "p = q"
proof -
  note P = reply_decodeD [OF assms(1)] and Q = reply_decodeD [OF assms(2)]
  have eq: "unpack_reply p = unpack_reply q" using P Q by simp
  then have "pyslice 0 56 p = pyslice 0 56 q"
    using P Q by (intro hdr_eqD) (auto simp: unpack_reply_def)
  moreover from eq have "signed_of 32 (u32 p 84) = signed_of 32 (u32 q 84)"
    by (simp add: unpack_reply_def i32_def)
  then have "u32 p 84 = u32 q 84" by (rule signed_of_inj) simp_all
  with eq have "u32s p 56 12 = u32s q 56 12" by (simp add: unpack_reply_def)
  ultimately have "pyslice 0 (56 + 4 * 12) p = pyslice 0 (56 + 4 * 12) q"
    by (rule prefix_u32s) (use P Q in auto)
  then show ?thesis using P Q by (simp add: slice_all)
qed

lemma decode_tlsD:
  assumes "decode_tls p = Inr t"
  shows "length p = 32" and "tls_mode t = u32 p 0" and "filter_nodes t = u32 p 8"
    and "(u32 p 0 = 4) = (u32 p 4 \<noteq> 0)"
    and "tls_reason t = (if u32 p 0 = 4 then the (map_of TLS_REASONS (u32 p 4)) else None)"
    and "map_of TLS_REASONS (u32 p 4) \<noteq> None"
    and "u32 p 0 \<in> {1, 2} \<Longrightarrow> tls_info t =
      Some \<lparr>protocol_number = u32 p 16, cipher_suite_id = u32 p 20, peer_cert_mode = u32 p 24,
            verify_result = u32 p 28,
            client_certificate = certificate_state (u32 p 24) (u32 p 12) (u32 p 28),
            tls_bits = u32 p 12\<rparr>"
    and "u32 p 0 \<notin> {1, 2} \<Longrightarrow> tls_info t = None \<and> u32s p 12 5 = [0, 0, 0, 0, 0]"
    and "u32 p 0 = 1 \<Longrightarrow> tls_flag (u32 p 12) 0 \<and> \<not> tls_flag (u32 p 12) 1"
proof -
  note * = assms [unfolded decode_tls_def Let_def guard_Inr sum.inject]
  then have t: "t = \<lparr>tls_mode = u32 p 0,
      tls_reason = (if u32 p 0 = 4 then the (map_of TLS_REASONS (u32 p 4)) else None),
      filter_nodes = u32 p 8,
      tls_info = (if u32 p 0 \<in> {1, 2}
        then Some \<lparr>protocol_number = u32 p 16, cipher_suite_id = u32 p 20,
                   peer_cert_mode = u32 p 24, verify_result = u32 p 28,
                   client_certificate = certificate_state (u32 p 24) (u32 p 12) (u32 p 28),
                   tls_bits = u32 p 12\<rparr>
        else None)\<rparr>" by blast
  show "length p = 32" "(u32 p 0 = 4) = (u32 p 4 \<noteq> 0)" using * by blast+
  from * have "\<not> map_of TLS_REASONS (u32 p 4) = None" by argo
  then show "map_of TLS_REASONS (u32 p 4) \<noteq> None" .
  from * have "u32 p 0 = 1 \<longrightarrow> tls_flag (u32 p 12) 0 \<and> \<not> tls_flag (u32 p 12) 1" by argo
  then show "u32 p 0 = 1 \<Longrightarrow> tls_flag (u32 p 12) 0 \<and> \<not> tls_flag (u32 p 12) 1" by blast
  show "tls_mode t = u32 p 0" "filter_nodes t = u32 p 8"
    "tls_reason t = (if u32 p 0 = 4 then the (map_of TLS_REASONS (u32 p 4)) else None)"
    by (simp_all add: t)
  show "u32 p 0 \<in> {1, 2} \<Longrightarrow> tls_info t =
      Some \<lparr>protocol_number = u32 p 16, cipher_suite_id = u32 p 20, peer_cert_mode = u32 p 24,
            verify_result = u32 p 28,
            client_certificate = certificate_state (u32 p 24) (u32 p 12) (u32 p 28),
            tls_bits = u32 p 12\<rparr>" by (simp add: t)
  assume n: "u32 p 0 \<notin> {1, 2}"
  with * have "u32 p 12 = 0 \<and> u32 p 16 = 0 \<and> u32 p 20 = 0 \<and> u32 p 24 = 0 \<and> u32 p 28 = 0" by blast
  with n show "tls_info t = None \<and> u32s p 12 5 = [0, 0, 0, 0, 0]" by (simp add: t)
qed

lemma tls_reasons_inj:
  "map_of TLS_REASONS x \<noteq> None \<Longrightarrow> map_of TLS_REASONS y \<noteq> None \<Longrightarrow>
   the (map_of TLS_REASONS x) = the (map_of TLS_REASONS y) \<Longrightarrow> x = y"
  by (auto simp: TLS_REASONS_def split: if_splits)

lemma decode_tls_injective:
  assumes "decode_tls p = Inr t" "decode_tls q = Inr t"
  shows "p = q"
proof -
  note P = decode_tlsD [OF assms(1)] and Q = decode_tlsD [OF assms(2)]
  have m: "u32 p 0 = u32 q 0" "u32 p 8 = u32 q 8" using P Q by simp_all
  have r: "u32 p 4 = u32 q 4"
  proof (cases "u32 p 0 = 4")
    case True
    then have "the (map_of TLS_REASONS (u32 p 4)) = the (map_of TLS_REASONS (u32 q 4))"
      using P(5) Q(5) m(1) by simp
    then show ?thesis using P(6) Q(6) tls_reasons_inj by blast
  qed (use P(4) Q(4) m(1) in simp)
  have "u32s p 12 5 = u32s q 12 5"
  proof (cases "u32 p 0 \<in> {1, 2}")
    case True
    with m have "u32 q 0 \<in> {1, 2}" by simp
    from P(7) [OF True] Q(7) [OF this] show ?thesis by simp
  next
    case False
    with m have "u32 q 0 \<notin> {1, 2}" by simp
    from P(8) [OF False] Q(8) [OF this] show ?thesis by simp
  qed
  with m r have "u32s p 0 8 = u32s q 0 8" by simp
  then have "pyslice 0 (0 + 4 * 8) p = pyslice 0 (0 + 4 * 8) q"
    by (intro prefix_u32s) (use P Q in \<open>auto simp: pyslice_def\<close>)
  then show ?thesis using P Q by (simp add: slice_all)
qed

lemma response_decodeD:
  assumes "response_decode p = Inr e"
  shows "length p = (if abi (p_hdr e) = 1 then 96 else 128)"
    and "e\<lparr>client_tls := None\<rparr> = unpack_response p"
    and "abi (p_hdr e) \<in> {1, 2}"
    and "abi (p_hdr e) = 2 \<Longrightarrow> \<exists>t. decode_tls (drop 96 p) = Inr t \<and> client_tls e = Some t
           \<and> (code e = 142 \<or> tls_mode t = 0)"
    and "abi (p_hdr e) = 1 \<Longrightarrow> client_tls e = None"
    and "code e \<in> {28, 144} \<longleftrightarrow> http_status_state e \<noteq> 0"
    and "code e \<in> {29, 145} \<longleftrightarrow> completion_state e \<noteq> 0"
    and "http_status_state e = 1 \<Longrightarrow> 100 \<le> http_status e \<and> http_status e \<le> 999"
    and "completion_state e = 1 \<Longrightarrow> transfer_complete e \<in> {0, 1}"
proof -
  let ?u = "unpack_response p"
  note * = assms [unfolded response_decode_def Let_def guard_Inr]
  from * have len: "length p = (if abi (p_hdr ?u) = 1 then 96 else 128)"
    and a: "abi (p_hdr ?u) \<in> {1, 2}" by blast+
  from * have k: "code ?u \<in> {28, 144} \<longleftrightarrow> http_status_state ?u \<noteq> 0"
    "code ?u \<in> {29, 145} \<longleftrightarrow> completion_state ?u \<noteq> 0"
    "http_status_state ?u = 1 \<longrightarrow> 100 \<le> http_status ?u \<and> http_status ?u \<le> 999"
    "completion_state ?u = 1 \<longrightarrow> transfer_complete ?u \<in> {0, 1}" by blast+
  from * have tail: "(if abi (p_hdr ?u) = 2
      then ebind (decode_tls (drop 96 p)) (\<lambda>tls.
             if code ?u \<noteq> 142 \<and> tls_mode tls \<noteq> 0
             then Inl (ValueError ''TLS reading on wrong event'')
             else Inr (?u\<lparr>client_tls := Some tls\<rparr>))
      else Inr ?u) = Inr e" by blast
  have none: "client_tls ?u = None" "?u\<lparr>client_tls := None\<rparr> = ?u"
    by (simp_all add: unpack_response_def)
  have e: "abi (p_hdr ?u) = 2 \<and> (\<exists>t. decode_tls (drop 96 p) = Inr t \<and> e = ?u\<lparr>client_tls := Some t\<rparr>
      \<and> (code ?u = 142 \<or> tls_mode t = 0)) \<or> abi (p_hdr ?u) = 1 \<and> e = ?u"
    using tail a by (auto simp: err_simps split: if_split_asm)
  then have up: "e\<lparr>client_tls := None\<rparr> = ?u" using none(2) by auto
  then show "e\<lparr>client_tls := None\<rparr> = ?u" .
  have sel: "p_hdr e = p_hdr ?u" "code e = code ?u" "http_status_state e = http_status_state ?u"
    "completion_state e = completion_state ?u" "http_status e = http_status ?u"
    "transfer_complete e = transfer_complete ?u"
    unfolding up [symmetric] by simp_all
  show "length p = (if abi (p_hdr e) = 1 then 96 else 128)" "abi (p_hdr e) \<in> {1, 2}"
    "code e \<in> {28, 144} \<longleftrightarrow> http_status_state e \<noteq> 0" "code e \<in> {29, 145} \<longleftrightarrow> completion_state e \<noteq> 0"
    "http_status_state e = 1 \<Longrightarrow> 100 \<le> http_status e \<and> http_status e \<le> 999"
    "completion_state e = 1 \<Longrightarrow> transfer_complete e \<in> {0, 1}"
    unfolding sel using len a k by blast+
  show "abi (p_hdr e) = 2 \<Longrightarrow> \<exists>t. decode_tls (drop 96 p) = Inr t \<and> client_tls e = Some t
           \<and> (code e = 142 \<or> tls_mode t = 0)"
    and "abi (p_hdr e) = 1 \<Longrightarrow> client_tls e = None"
    using e none by auto
qed

lemma response_injective:
  assumes "response_decode p = Inr e" "response_decode q = Inr e"
  shows "p = q"
proof -
  note P = response_decodeD [OF assms(1)] and Q = response_decodeD [OF assms(2)]
  have eq: "unpack_response p = unpack_response q" using P Q by simp
  have len: "length p = length q" "96 \<le> length p" using P Q by (auto split: if_splits)
  from eq have "pyslice 0 56 p = pyslice 0 56 q"
    using len by (intro hdr_eqD) (auto simp: unpack_response_def)
  moreover from eq have "u32s p 56 10 = u32s q 56 10" by (simp add: unpack_response_def)
  ultimately have "pyslice 0 (56 + 4 * 10) p = pyslice 0 (56 + 4 * 10) q"
    by (rule prefix_u32s) (use len in auto)
  then have front: "take 96 p = take 96 q" by (simp add: pyslice_def)
  have "drop 96 p = drop 96 q"
  proof (cases "abi (p_hdr e) = 1")
    case True
    then show ?thesis using P(1) Q(1) by simp
  next
    case False
    then have "abi (p_hdr e) = 2" using P(3) by simp
    then obtain t where "decode_tls (drop 96 p) = Inr t" "decode_tls (drop 96 q) = Inr t"
      using P(4) Q(4) by auto
    then show ?thesis by (rule decode_tls_injective)
  qed
  with front show ?thesis by (metis append_take_drop_id)
qed

section \<open>The lifecycle window\<close>

text \<open>
  What a usable window means: the positions are the sequence numbers from the first on, no record
  carries a flag, a failure or a status other than observed or address-only, one run, and one
  program identity per boundary kind.
\<close>

definition clean_at :: "int option \<Rightarrow> int \<Rightarrow> boundary_event \<Rightarrow> bool" where
  "clean_at run n e \<longleftrightarrow>
     Some (run_id (b_hdr e)) = run \<and> seq_no (b_hdr e) = n \<and> b_flags e = 0 \<and>
     output_failures (b_hdr e) = 0 \<and> b_status e \<in> {1, 2}"

abbreviation "identity_of e \<equiv> (inst (b_hdr e), revision (b_hdr e))"

lemma window_loop_nonempty: "invalid \<noteq> [] \<Longrightarrow> window_loop run n ids es invalid \<noteq> []"
  by (induction es arbitrary: n ids invalid) simp_all

lemma window_loop_keeps: "window_loop run n ids es invalid = [] \<Longrightarrow> invalid = []"
  using window_loop_nonempty by blast

lemma boundary_reasons_Nil_iff:
  "boundary_reasons run n known e = [] \<longleftrightarrow>
   clean_at run n e \<and> (\<forall>d. known = Some d \<longrightarrow> identity_of e = d)"
  by (cases known) (auto simp: boundary_reasons_def Let_def clean_at_def)

lemma window_loop_Nil_iff:
  "window_loop run n ids es [] = [] \<longleftrightarrow>
   (\<forall>i < length es. clean_at run (n + int i) (es ! i)) \<and>
   consistent_with b_kind (\<lambda>e. identity_of e) ids (set es)"
proof (induction es arbitrary: n ids)
  case Nil
  then show ?case by (simp add: consistent_with_def)
next
  case (Cons e es)
  let ?ids' = "case ids (b_kind e) of None \<Rightarrow> ids(b_kind e \<mapsto> identity_of e) | Some _ \<Rightarrow> ids"
  let ?ok = "clean_at run n e \<and> (\<forall>d. ids (b_kind e) = Some d \<longrightarrow> identity_of e = d)"
  have step: "window_loop run n ids (e # es) [] = [] \<longleftrightarrow>
      ?ok \<and> window_loop run (n + 1) ?ids' es [] = []"
    unfolding boundary_reasons_Nil_iff [symmetric]
    using window_loop_keeps [of run "n + 1" ?ids' es "boundary_reasons run n (ids (b_kind e)) e"]
    by (cases "boundary_reasons run n (ids (b_kind e)) e") auto
  have idx: "(\<forall>i < length (e # es). clean_at run (n + int i) ((e # es) ! i)) \<longleftrightarrow>
      clean_at run n e \<and> (\<forall>i < length es. clean_at run (n + 1 + int i) (es ! i))"
    by (auto simp: nth_Cons' less_Suc_eq_0_disj algebra_simps)
  have con: "(\<forall>d. ids (b_kind e) = Some d \<longrightarrow> identity_of e = d) \<and>
      consistent_with b_kind (\<lambda>e. identity_of e) ?ids' (set es) \<longleftrightarrow>
      consistent_with b_kind (\<lambda>e. identity_of e) ids (insert e (set es))"
  proof (cases "ids (b_kind e)")
    case None
    then show ?thesis by (simp add: consistent_with_insert_None)
  next
    case (Some d)
    show ?thesis
    proof (cases "identity_of e = d")
      case True
      with Some have "ids (b_kind e) = Some (identity_of e)" by simp
      then have "consistent_with b_kind (\<lambda>e. identity_of e) ids (insert e (set es)) \<longleftrightarrow>
          consistent_with b_kind (\<lambda>e. identity_of e) ids (set es)"
        by (rule consistent_with_insert_Some)
      with Some True show ?thesis by simp
    next
      case False
      then have "\<not> consistent_with b_kind (\<lambda>e. identity_of e) ids (insert e (set es))"
        unfolding consistent_with_def using Some by blast
      with False Some show ?thesis by simp
    qed
  qed
  show ?case unfolding step Cons.IH idx list.set con [symmetric] by blast
qed

section \<open>The properties of the event decoders\<close>

lemma unwrap_header_eqI:
  assumes p: "unwrap p = Inr (f, b)" and q: "unwrap q = Inr (f, b)"
  shows "p = q"
proof -
  note P = p [unfolded unwrap_def Let_def guard_Inr sum.inject prod.inject]
    and Q = q [unfolded unwrap_def Let_def guard_Inr sum.inject prod.inject]
  note D = unwrapD [OF p] and E = unwrapD [OF q]
  from P have "u32 p 0 = 0x41474331" "u32 p 4 = 2" by blast+
  moreover from Q have "u32 q 0 = 0x41474331" "u32 q 4 = 2" by blast+
  ultimately have m: "u32 p 0 = u32 q 0" "u32 p 4 = u32 q 4" by simp_all
  have l: "length p = length q" using D(2) E(2) by simp
  from P have fp: "f = \<lparr>owner_instance = str_int (u64 p 16), exchange = str_int (u64 p 24),
      f_status = u32 p 32, phase = u32 p 36, side = u32 p 12, invocation = str_int (u64 p 40)\<rparr>"
    and lp: "int (length p) = 48 + u32 p 8" by blast+
  from Q have fq: "f = \<lparr>owner_instance = str_int (u64 q 16), exchange = str_int (u64 q 24),
      f_status = u32 q 32, phase = u32 q 36, side = u32 q 12, invocation = str_int (u64 q 40)\<rparr>"
    and lq: "int (length q) = 48 + u32 q 8" by blast+
  have 1: "u32s p 0 4 = u32s q 0 4" using fp fq m l lp lq by simp
  have 2: "u64 p 16 = u64 q 16" "u64 p 24 = u64 q 24" "u64 p 40 = u64 q 40" "u32s p 32 2 = u32s q 32 2"
    using fp fq by simp_all
  have sz: "48 \<le> length p" "48 \<le> length q" using D(2) l by auto
  have "pyslice 0 (0 + 4 * 4) p = pyslice 0 (0 + 4 * 4) q"
    using 1 by (intro prefix_u32s) (use sz l in \<open>auto simp: pyslice_def\<close>)
  then have "pyslice 0 16 p = pyslice 0 16 q" by simp
  from prefix_extend [OF this, of 24] have "pyslice 0 24 p = pyslice 0 24 q"
    using u64_eqD [OF 2(1)] sz by simp
  from prefix_extend [OF this, of 32] have "pyslice 0 32 p = pyslice 0 32 q"
    using u64_eqD [OF 2(2)] sz by simp
  then have "pyslice 0 (32 + 4 * 2) p = pyslice 0 (32 + 4 * 2) q"
    by (intro prefix_u32s) (use sz l 2(4) in auto)
  then have "pyslice 0 40 p = pyslice 0 40 q" by simp
  from prefix_extend [OF this, of 48] have "pyslice 0 48 p = pyslice 0 48 q"
    using u64_eqD [OF 2(3)] sz by simp
  then have "take 48 p = take 48 q" by (simp add: pyslice_def)
  moreover have "drop 48 p = drop 48 q" using D(1) E(1) by simp
  ultimately show ?thesis by (metis append_take_drop_id)
qed

text \<open>
  A decoded response event is exact evidence. Its length is the one its ABI fixes, a status is
  carried by the two response events and by no other and then lies in 100..999, a completion flag is
  carried by the two done events only, a TLS reading exists from ABI 2 on and only a request event
  has a mode, and no two payloads give one event.
\<close>

theorem response_exact:
  assumes "response_decode p = Inr e"
  shows "length p = (if abi (p_hdr e) = 1 then 96 else 128) \<and>
    (http_status_state e \<noteq> 0 \<longleftrightarrow> code e \<in> {28, 144}) \<and>
    (http_status_state e = 1 \<longrightarrow> http_status e \<in> {100..999}) \<and>
    (completion_state e \<noteq> 0 \<longleftrightarrow> code e \<in> {29, 145}) \<and>
    (abi (p_hdr e) = 2 \<longleftrightarrow> client_tls e \<noteq> None) \<and>
    (\<forall>t. client_tls e = Some t \<longrightarrow> tls_mode t \<noteq> 0 \<longrightarrow> code e = 142) \<and>
    (response_decode q = Inr e \<longrightarrow> q = p)"
proof -
  note D = response_decodeD [OF assms]
  have "abi (p_hdr e) = 2 \<longleftrightarrow> client_tls e \<noteq> None" using D(3,4,5) by auto
  moreover have "\<forall>t. client_tls e = Some t \<longrightarrow> tls_mode t \<noteq> 0 \<longrightarrow> code e = 142"
    using D(3,4,5) by fastforce
  moreover have "http_status_state e = 1 \<longrightarrow> http_status e \<in> {100..999}" using D(8) by simp
  ultimately show ?thesis using D(1,6,7) response_injective [OF _ assms] by blast
qed

theorem response_exact_witness:
  "ok_with (\<lambda>e. http_status_state e = 1 \<and> http_status e \<in> {100..999} \<and> code e \<in> {28, 144})
     (response_decode (le_bytes 4 0x5253504d @ le_bytes 4 1 @ replicate 48 0 @ le_bytes 4 28 @
        replicate 16 0 @ le_bytes 4 1 @ le_bytes 4 404 @ replicate 12 0))"
  (is "ok_with ?P (response_decode ?p)")
proof -
  let ?e = "\<lparr>p_hdr = \<lparr>magic = 0x5253504d, abi = 1, inst = 0, revision = 0, run_id = 0,
      monotonic_ns = 0, seq_no = 0, output_failures = 0\<rparr>, code = 28, presence = 0, p_flags = 0,
      p_reads = 0, p_source_bytes = 0, http_status_state = 1, http_status = 404,
      completion_state = 0, transfer_complete = 0, reserved = 0, client_tls = None\<rparr>"
  have "length ?p = 96" "unpack_response ?p = ?e" by code_simp+
  then have "response_decode ?p = Inr ?e"
    by (simp add: response_decode_def beyond_mask_def RESPONSE_STATES_def del: length_append)
  then obtain e where e: "response_decode ?p = Inr e" "http_status_state e = 1" by auto
  from response_exact [OF e(1)] have "http_status_state e \<noteq> 0 \<longleftrightarrow> code e \<in> {28, 144}"
    "http_status_state e = 1 \<longrightarrow> http_status e \<in> {100..999}" by blast+
  with e(2) have "?P e" by simp
  with e(1) show ?thesis unfolding ok_with_iff by blast
qed

text \<open>
  The activity-group frame carries its record unchanged: the inner payload is the frame less its
  48-byte header and has the size of one of the framed records, an exchange, an owner and a phase
  come together with a side and an invocation, and the frame with the inner payload determines the
  bytes received.
\<close>

theorem unwrap_exact:
  assumes "unwrap p = Inr (f, b)"
  shows "b = drop 48 p \<and> length b \<in> {96, 104, 128, 144} \<and>
    (exchange f \<noteq> ''0'' \<longrightarrow> owner_instance f \<noteq> ''0'' \<and> phase f \<noteq> 0 \<and> side f \<in> {1, 2} \<and>
       invocation f \<noteq> ''0'') \<and>
    (f_status f = 1 \<longrightarrow> exchange f \<noteq> ''0'') \<and>
    (unwrap q = Inr (f, b) \<longrightarrow> q = p)"
proof -
  note D = unwrapD [OF assms]
  have "str_int 0 = ''0''" by code_simp
  then have z: "str_int i = ''0'' \<longleftrightarrow> i = 0" for i using str_int_inj [of i 0] by simp
  show ?thesis
    using D(1,3,7-11) unwrap_header_eqI [OF _ assms] unfolding D(4,5,6) z by blast
qed

theorem unwrap_exact_witness:
  "ok_with (\<lambda>(f, b). exchange f = ''7'' \<and> owner_instance f \<noteq> ''0'' \<and> side f \<in> {1, 2} \<and> length b = 96)
     (unwrap (le_bytes 4 0x41474331 @ le_bytes 4 2 @ le_bytes 4 96 @ le_bytes 4 1 @ le_bytes 8 5 @
        le_bytes 8 7 @ le_bytes 4 1 @ le_bytes 4 1 @ le_bytes 8 9 @ replicate 96 0))"
  (is "ok_with ?P (unwrap ?p)")
proof -
  have "length ?p = 144" "map (u32 ?p) [0, 4, 8, 12, 32, 36] = [0x41474331, 2, 96, 1, 1, 1]"
    "map (u64 ?p) [16, 24, 40] = [5, 7, 9]" "str_int 7 = ''7''"
    by code_simp+
  then obtain f b where e: "unwrap ?p = Inr (f, b)" "exchange f = ''7''" "length b = 96"
    by (simp add: unwrap_def del: length_append)
  from e(2) have "exchange f \<noteq> ''0''" by simp
  with unwrap_exact [OF e(1)] have "owner_instance f \<noteq> ''0''" "side f \<in> {1, 2}" by blast+
  with e show ?thesis unfolding ok_with_iff by blast
qed

text \<open>
  The lifecycle window is usable exactly when there was no break, record \<open>i\<close> carries sequence
  number \<open>i + 1\<close>, every record belongs to the first one's run, has no flag, no output failure and an
  observed or address-only status, and each boundary kind keeps one program identity throughout.
\<close>

theorem lifecycle_window_correct:
  "boundaries_usable (lifecycle_window es breaks) \<longleftrightarrow>
   breaks = [] \<and>
   (\<forall>i < length es. clean_at (Some (run_id (b_hdr (hd es)))) (1 + int i) (es ! i)) \<and>
   (\<forall>e \<in> set es. \<forall>d \<in> set es. b_kind e = b_kind d \<longrightarrow> identity_of e = identity_of d)"
proof (cases "breaks = []")
  case True
  have run: "(case es of [] \<Rightarrow> None | e # _ \<Rightarrow> Some (run_id (b_hdr e))) =
      Some (run_id (b_hdr (hd es)))" if "es \<noteq> []"
    using that by (cases es) auto
  show ?thesis
  proof (cases "es = []")
    case False
    have "boundaries_usable (lifecycle_window es breaks) \<longleftrightarrow>
        window_loop (Some (run_id (b_hdr (hd es)))) 1 Map.empty es [] = []"
      unfolding lifecycle_window_def Let_def run [OF False] using True by simp
    then show ?thesis
      unfolding window_loop_Nil_iff consistent_with_def using True by simp
  qed (simp add: lifecycle_window_def True)
next
  case False
  then show ?thesis
    by (auto simp: lifecycle_window_def Let_def dest: window_loop_keeps)
qed


definition sample_boundary :: "int \<Rightarrow> int \<Rightarrow> boundary_event" where
  "sample_boundary n r =
     \<lparr>b_hdr = \<lparr>magic = 0x4a4c4244, abi = 1, inst = 1, revision = r, run_id = 3, monotonic_ns = 4,
        seq_no = n, output_failures = 0\<rparr>, context_tag = 0, b_kind = 1, b_code = 0, b_status = 1,
      b_flags = 0, b_flow_side = 1, scb_flags = 0, cache_present = 0, seen_mask = 0, b_reads = 0,
      b_source_bytes = 0, payload_bytes = 0, b_reserved = 0, b_status_name = ''observed'',
      b_lifecycle_validated = False\<rparr>"

theorem lifecycle_window_correct_witness:
  "boundaries_usable (lifecycle_window [sample_boundary 1 2, sample_boundary 2 2] []) \<and>
   \<not> boundaries_usable (lifecycle_window [sample_boundary 1 2, sample_boundary 2 3] [])"
  unfolding lifecycle_window_correct
  by (auto simp: sample_boundary_def clean_at_def nth_Cons')

text \<open>
  No payload makes a record decoder fail in any way but by a \<^verbatim>\<open>ValueError\<close>, the exception
  the consumers catch: no decoder reads outside its payload or looks up a name that is not there.
\<close>

theorem decoders_refuse_with_value_error:
  assumes "method_decode p = Inl x \<or> token_method_decode p = Inl x \<or>
    operation_target_decode p = Inl x \<or> message_id_decode p = Inl x \<or> id_flow_decode p = Inl x \<or>
    reply_decode p = Inl x \<or> response_decode p = Inl x \<or> unwrap p = Inl x \<or>
    json_initialization_decode p = Inl x \<or> json_lifecycle_decode p = Inl x \<or>
    metadata_decode p names = Inl x \<or> session_routing_decode p = Inl x"
  shows "is_value_error x"
  using assms
  by (elim disjE; elim method_refusal token_method_refusal operation_target_refusal
      message_id_refusal id_flow_refusal reply_refusal response_refusal unwrap_refusal
      json_initialization_refusal json_lifecycle_refusal metadata_refusal session_routing_refusal)

theorem decoders_refuse_with_value_error_witness:
  "response_decode (replicate 128 0) = Inl (ValueError ''invalid response metadata'') \<and>
   is_value_error (ValueError ''invalid response metadata'')"
proof -
  have r: "response_decode (replicate 128 0) = Inl (ValueError ''invalid response metadata'')"
    by code_simp
  then show ?thesis
    using decoders_refuse_with_value_error [of "replicate 128 0" "ValueError ''invalid response metadata''"]
    by blast
qed

end
