(* ===== verification/Activity_Export.thy ===== *)
theory Activity_Export
  imports Event_Decoders
begin

text \<open>
  \<^verbatim>\<open>env/ai-traffic/activity_export.py\<close>: one collector event becomes one activity observation. The
  dictionaries the source builds have a fixed set of keys, so they are records here, a key that may
  be absent being an \<open>option\<close>; the collector's own event is an arbitrary JSON object. The decoded
  record is a value of the decoder that accepted it; the source renders its six counters as decimal
  text, which \<open>str_int\<close> does where they are compared.
\<close>

section \<open>Decoder dispatch\<close>

datatype decoded =
    Method_Rec value_event
  | Target_Rec value_event
  | Id_Rec value_event
  | Id_Flow_Rec flow_event
  | Reply_Rec reply_event
  | Response_Rec response_event

fun d_kind :: "decoded \<Rightarrow> string" where
  "d_kind (Method_Rec _) = ''method''"
| "d_kind (Target_Rec _) = ''operation_target''"
| "d_kind (Id_Rec _) = ''message_id''"
| "d_kind (Id_Flow_Rec _) = ''message_id''"
| "d_kind (Reply_Rec _) = ''reply''"
| "d_kind (Response_Rec _) = ''http_response''"

fun d_hdr :: "decoded \<Rightarrow> hdr" where
  "d_hdr (Method_Rec e) = v_hdr (v_rec e)"
| "d_hdr (Target_Rec e) = v_hdr (v_rec e)"
| "d_hdr (Id_Rec e) = v_hdr (v_rec e)"
| "d_hdr (Id_Flow_Rec f) = v_hdr (v_rec (fl_event f))"
| "d_hdr (Reply_Rec e) = r_hdr e"
| "d_hdr (Response_Rec e) = p_hdr e"

fun d_flags :: "decoded \<Rightarrow> int" where
  "d_flags (Method_Rec e) = v_flags (v_rec e)"
| "d_flags (Target_Rec e) = v_flags (v_rec e)"
| "d_flags (Id_Rec e) = v_flags (v_rec e)"
| "d_flags (Id_Flow_Rec f) = v_flags (v_rec (fl_event f))"
| "d_flags (Reply_Rec e) = r_flags e"
| "d_flags (Response_Rec e) = p_flags e"

definition lift_dec :: "('a \<Rightarrow> decoded) \<Rightarrow> (bytes \<Rightarrow> 'a result) \<Rightarrow> bytes \<Rightarrow> decoded result" where
  "lift_dec c dec p = ebind (dec p) (\<lambda>e. Inr (c e))"

definition DECODERS :: "(int \<times> (bytes \<Rightarrow> decoded result)) list" where
  "DECODERS =
     [(0x4A4D4554, lift_dec Method_Rec method_decode),
      (0x544D4554, lift_dec Method_Rec token_method_decode),
      (0x4F544754, lift_dec Target_Rec operation_target_decode),
      (0x52504C59, lift_dec Reply_Rec reply_decode),
      (0x5253504D, lift_dec Response_Rec response_decode),
      (0x4D534749, lift_dec Id_Rec message_id_decode),
      (0x4944464C, lift_dec Id_Flow_Rec id_flow_decode)]"

definition DIAGNOSTICS :: "string list" where
  "DIAGNOSTICS = [''source_boundary'', ''observation_gap'', ''discard'', ''ring_health'']"

section \<open>Fields\<close>

record str_field =
  sf_status :: string
  raw_hex :: string
  sf_representation :: string
  sf_original_length :: "int option"
  sf_value :: "utext option"
  text_error :: bool
  sf_kind :: "string option"

record activity =
  a_method :: "str_field option"
  a_target :: "str_field option"
  a_message_id :: "str_field option"
  a_flow_side :: "(string \<times> string option) option"
  a_client_tls :: "tls_event option"

record outcome =
  oc_status :: "string option"
  oc_result_present :: "bool option"
  oc_error_present :: "bool option"
  oc_error_code :: "(string \<times> int option) option"
  oc_tool_error :: "(string \<times> bool option) option"
  oc_http_status :: "(string \<times> int option) option"
  oc_transfer :: "(string \<times> bool option) option"

definition no_activity :: activity where
  "no_activity = \<lparr>a_method = None, a_target = None, a_message_id = None, a_flow_side = None,
                  a_client_tls = None\<rparr>"

definition no_outcome :: outcome where
  "no_outcome = \<lparr>oc_status = None, oc_result_present = None, oc_error_present = None,
                 oc_error_code = None, oc_tool_error = None, oc_http_status = None,
                 oc_transfer = None\<rparr>"

definition hex_bytes :: "string \<Rightarrow> bytes" where
  "hex_bytes s = (case from_hex s of Inl _ \<Rightarrow> [] | Inr bs \<Rightarrow> bs)"

definition string_field :: "value_event \<Rightarrow> str_field" where
  "string_field r =
     (let text = (if v_status (v_rec r) = 1 then Some (loads_quoted (hex_bytes (value_hex r))) else None)
      in \<lparr>sf_status = v_status_name r, raw_hex = value_hex r,
          sf_representation = ''json_string_escaped_bytes'',
          sf_original_length = Some (original_length (v_rec r)),
          sf_value = (case text of Some (Some t) \<Rightarrow> Some t | _ \<Rightarrow> None),
          text_error = (text = Some None), sf_kind = None\<rparr>)"

definition id_field :: "value_event \<Rightarrow> str_field" where
  "id_field r =
     (if v_aux (v_rec r) = 1 then (string_field r)\<lparr>sf_kind := v_kind_name r\<rparr>
      else \<lparr>sf_status = v_status_name r, raw_hex = value_hex r,
            sf_representation = ''json_token_bytes'', sf_original_length = None,
            sf_value = (if v_status (v_rec r) = 1
                        then Some (map unat (hex_bytes (value_hex r))) else None),
            text_error = False, sf_kind = v_kind_name r\<rparr>)"

fun fields_of :: "decoded \<Rightarrow> activity \<times> outcome" where
  "fields_of (Method_Rec r) = (no_activity\<lparr>a_method := Some (string_field r)\<rparr>, no_outcome)"
| "fields_of (Target_Rec r) =
     (no_activity\<lparr>a_target := Some ((string_field r)\<lparr>sf_kind := v_kind_name r\<rparr>)\<rparr>, no_outcome)"
| "fields_of (Id_Rec r) = (no_activity\<lparr>a_message_id := Some (id_field r)\<rparr>, no_outcome)"
| "fields_of (Id_Flow_Rec f) =
     (no_activity\<lparr>a_message_id := Some (id_field (fl_event f)),
                  a_flow_side := Some (flow_status_name f, flow_side_name f)\<rparr>, no_outcome)"
| "fields_of (Reply_Rec r) =
     (no_activity,
      if r_status r = 1
      then no_outcome
        \<lparr>oc_status := Some (reply_state_name (r_status r)),
         oc_result_present := Some (result_present r \<noteq> 0),
         oc_error_present := Some (error_present r \<noteq> 0),
         oc_error_code := Some (reply_state_name (code_state r),
           if code_state r = 1 then Some (error_code r) else None),
         oc_tool_error := Some (reply_state_name (tool_error_state r),
           if tool_error_state r = 1 then Some (tool_error r \<noteq> 0) else None)\<rparr>
      else no_outcome\<lparr>oc_status := Some (reply_state_name (r_status r))\<rparr>)"
| "fields_of (Response_Rec r) =
     (no_activity\<lparr>a_client_tls :=
        (case client_tls r of Some t \<Rightarrow> if tls_mode t \<noteq> 0 then Some t else None | None \<Rightarrow> None)\<rparr>,
      no_outcome
        \<lparr>oc_http_status := Some (response_state_name (http_status_state r),
           if http_status_state r = 1 then Some (http_status r) else None),
         oc_transfer := Some (response_state_name (completion_state r),
           if completion_state r = 1 then Some (transfer_complete r \<noteq> 0) else None)\<rparr>)"

section \<open>Events and pages\<close>

record evidence =
  source_id :: jval
  event_id :: jval
  ev_source :: jval
  ev_diagnostic :: "jobj option"
  ev_raw :: "jval option"
  ev_status :: string
  ev_error :: "exn option"
  ev_group :: "frame option"
  ev_observation :: "string option"
  ev_record :: "decoded option"
  output_loss_reported :: "bool option"

record observation =
  event_type :: string
  o_correlation :: "string \<times> string option"
  o_activity :: activity
  reported_outcome :: outcome
  o_evidence :: evidence

definition initial_observation :: "jobj \<Rightarrow> observation" where
  "initial_observation event =
     \<lparr>event_type = ''agent.observation'', o_correlation = (''unknown'', None),
      o_activity = no_activity, reported_outcome = no_outcome,
      o_evidence = \<lparr>source_id = jget event ''source_id'', event_id = jget event ''event_id'',
        ev_source = jget event ''source'', ev_diagnostic = None, ev_raw = None, ev_status = [],
        ev_error = None, ev_group = None, ev_observation = None, ev_record = None,
        output_loss_reported = None\<rparr>\<rparr>"

text \<open>The \<^verbatim>\<open>try\<close> block: the frame that was unwrapped on the way, and what the block ends with.\<close>

datatype attempt = Unsupported | Malformed exn | Decoded decoded

definition decode_payload :: "jval \<Rightarrow> bytes \<Rightarrow> attempt" where
  "decode_payload schema payload =
     (case map_of DECODERS (u32 payload 0) of
        None \<Rightarrow> Unsupported
      | Some dec \<Rightarrow>
          if schema \<noteq> JInt 100 then Unsupported
          else (case dec payload of Inl x \<Rightarrow> Malformed x | Inr d \<Rightarrow> Decoded d))"

definition try_record :: "jval \<Rightarrow> frame option \<times> attempt" where
  "try_record raw =
     (case raw of
        JObj r \<Rightarrow>
          (case jget r ''data'' of
             JStr data \<Rightarrow>
               if length data > 1024 then (None, Malformed (ValueError ''invalid or oversize record''))
               else (case from_hex data of
                  Inl x \<Rightarrow> (None, Malformed x)
                | Inr payload \<Rightarrow>
                    if u32 payload 0 = 0x41474331
                    then (case unwrap payload of
                        Inl x \<Rightarrow> (None, Malformed x)
                      | Inr (g, inner) \<Rightarrow> (Some g, decode_payload (jget r ''schema'') inner))
                    else (None, decode_payload (jget r ''schema'') payload))
           | _ \<Rightarrow> (None, Malformed (ValueError ''invalid or oversize record'')))
      | _ \<Rightarrow> (None, Malformed (ValueError ''invalid or oversize record'')))"

definition qualified_rec :: "decoded \<Rightarrow> bool" where
  "qualified_rec d \<longleftrightarrow> d_flags d = 0 \<and> inst (d_hdr d) \<noteq> 0 \<and> revision (d_hdr d) \<noteq> 0 \<and>
     run_id (d_hdr d) \<noteq> 0 \<and> seq_no (d_hdr d) \<noteq> 0"

definition decoded_observation :: "observation \<Rightarrow> decoded \<Rightarrow> observation" where
  "decoded_observation out d =
     (let out = out\<lparr>o_evidence := (o_evidence out)
            \<lparr>ev_status := ''decoded'', ev_observation := Some (d_kind d), ev_record := Some d,
             output_loss_reported := Some (output_failures (d_hdr d) \<noteq> 0)\<rparr>\<rparr>
      in if \<not> qualified_rec d
         then out\<lparr>o_evidence := (o_evidence out)\<lparr>ev_status := ''unqualified_record''\<rparr>\<rparr>
         else out\<lparr>event_type := ''agent.activity'', o_activity := fst (fields_of d),
                  reported_outcome := snd (fields_of d)\<rparr>)"

fun hashable :: "jval \<Rightarrow> bool" where
  "hashable (JArr _) = False"
| "hashable (JObj _) = False"
| "hashable _ = True"

definition project_event :: "jobj \<Rightarrow> observation result" where
  "project_event event =
     (let out = initial_observation event; kind = jget event ''type'' in
      if kind \<noteq> JStr ''record''
      then if \<not> hashable kind then Inl (TypeError ''unhashable type'')
           else Inr (out\<lparr>event_type := (case kind of
                    JStr k \<Rightarrow> if k \<in> set DIAGNOSTICS then ''agent.'' @ k else ''agent.observation''
                  | _ \<Rightarrow> ''agent.observation''),
                  o_evidence := (o_evidence out)
                    \<lparr>ev_status := ''diagnostic'', ev_diagnostic := Some event\<rparr>\<rparr>)
      else let raw = (case map_of event ''raw'' of None \<Rightarrow> JObj [] | Some v \<Rightarrow> v);
               (group, att) = try_record raw;
               out = out\<lparr>o_evidence := (o_evidence out)\<lparr>ev_raw := Some raw, ev_group := group\<rparr>\<rparr>
           in (case att of
                 Unsupported \<Rightarrow>
                   Inr (out\<lparr>o_evidence := (o_evidence out)\<lparr>ev_status := ''unsupported_schema''\<rparr>\<rparr>)
               | Malformed x \<Rightarrow>
                   Inr (out\<lparr>o_evidence := (o_evidence out)
                     \<lparr>ev_status := ''malformed_record'', ev_error := Some x\<rparr>\<rparr>)
               | Decoded d \<Rightarrow> Inr (decoded_observation out d)))"

datatype page_out = Error_Page jobj | Activity_Page jobj "(string \<times> observation) list"

definition valid_row :: "jval \<Rightarrow> (string \<times> jobj) option" where
  "valid_row row =
     (case row of
        JObj r \<Rightarrow> (case (jget r ''cursor'', jget r ''event'') of
                    (JStr c, JObj e) \<Rightarrow> Some (c, e)
                  | _ \<Rightarrow> None)
      | _ \<Rightarrow> None)"

definition project_page :: "jval \<Rightarrow> page_out result" where
  "project_page page =
     (case page of
        JObj pg \<Rightarrow>
          if map_of pg ''error'' \<noteq> None then Inr (Error_Page pg)
          else (case jget pg ''events'' of
             JArr evs \<Rightarrow>
               if length evs > 128
               then Inl (ValueError ''expected a bounded collector replay page'')
               else (case jget pg ''next_cursor'' of
                  JStr _ \<Rightarrow>
                    if list_ex (\<lambda>r. valid_row r = None) evs then Inl (ValueError ''invalid replay row'')
                    else ebind (emap (\<lambda>r. let (c, e) = the (valid_row r) in
                             ebind (project_event e) (\<lambda>o'. Inr (c, o'))) evs)
                           (\<lambda>rows. Inr (Activity_Page
                              (AList.update ''format'' (JStr ''agent_activity/v1'') pg) rows))
                | _ \<Rightarrow> Inl (ValueError ''missing replay cursor''))
           | _ \<Rightarrow> Inl (ValueError ''expected a bounded collector replay page''))
      | _ \<Rightarrow> Inl (ValueError ''expected a collector replay object''))"


section \<open>The record behind an observation\<close>

lemma decode_payloadD:
  assumes "decode_payload s p = Decoded d"
  shows "s = JInt 100"
    and "(\<exists>e. d = Method_Rec e \<and> method_decode p = Inr e) \<or>
     (\<exists>e. d = Method_Rec e \<and> token_method_decode p = Inr e) \<or>
     (\<exists>e. d = Target_Rec e \<and> operation_target_decode p = Inr e) \<or>
     (\<exists>e. d = Reply_Rec e \<and> reply_decode p = Inr e) \<or>
     (\<exists>e. d = Response_Rec e \<and> response_decode p = Inr e) \<or>
     (\<exists>e. d = Id_Rec e \<and> message_id_decode p = Inr e) \<or>
     (\<exists>e. d = Id_Flow_Rec e \<and> id_flow_decode p = Inr e)"
  using assms
  by (auto simp: decode_payload_def DECODERS_def lift_dec_def err_simps
      split: option.splits if_splits sum.splits)

lemma method_token_disjoint:
  assumes "method_decode p = Inr e" "token_method_decode q = Inr e"
  shows False
proof -
  from assms(1) [unfolded method_decode_def Let_def guard_Inr]
  have "magic_of (unpack_value_rec p) = 0x4A4D4554" by blast
  moreover from assms(2) [unfolded token_method_decode_def Let_def guard_Inr]
  have "magic_of (unpack_value_rec q) = 0x544D4554" by blast
  moreover have "unpack_value_rec p = unpack_value_rec q"
    using method_decodeD(2) [OF assms(1)] token_method_decodeD(2) [OF assms(2)] by simp
  ultimately show False by simp
qed

lemma decode_payload_injective:
  assumes "decode_payload s p = Decoded d" "decode_payload t q = Decoded d"
  shows "p = q"
  using decode_payloadD(2) [OF assms(1)] decode_payloadD(2) [OF assms(2)]
  by (elim disjE exE conjE; hypsubst?; simp only: decoded.inject decoded.distinct;
      (blast intro: method_rec.injective token_method.injective operation_target.injective
         message_id.injective reply_injective response_injective id_flow_injective
         dest: method_token_disjoint)?)

definition record_bytes :: "jval \<Rightarrow> bytes option" where
  "record_bytes raw =
     (case raw of JObj r \<Rightarrow>
        (case jget r ''data'' of JStr s \<Rightarrow> (case from_hex s of Inr p \<Rightarrow> Some p | Inl _ \<Rightarrow> None) | _ \<Rightarrow> None)
      | _ \<Rightarrow> None)"

lemma try_record_Decoded:
  assumes "try_record raw = (g, Decoded d)"
  obtains p inner s where "record_bytes raw = Some p" "decode_payload s inner = Decoded d"
    and "case g of None \<Rightarrow> u32 p 0 \<noteq> 0x41474331 \<and> inner = p | Some f \<Rightarrow> unwrap p = Inr (f, inner)"
  using assms
  by (auto simp: try_record_def record_bytes_def
      split: jval.splits if_splits sum.splits option.splits prod.splits)

lemma try_record_bytes:
  assumes "try_record raw = (g, Decoded d)" "try_record raw' = (g, Decoded d)"
  shows "record_bytes raw = record_bytes raw' \<and> record_bytes raw \<noteq> None"
proof -
  obtain p i s where p: "record_bytes raw = Some p" "decode_payload s i = Decoded d"
    "case g of None \<Rightarrow> u32 p 0 \<noteq> 0x41474331 \<and> i = p | Some f \<Rightarrow> unwrap p = Inr (f, i)"
    using assms(1) by (rule try_record_Decoded)
  obtain q j t where q: "record_bytes raw' = Some q" "decode_payload t j = Decoded d"
    "case g of None \<Rightarrow> u32 q 0 \<noteq> 0x41474331 \<and> j = q | Some f \<Rightarrow> unwrap q = Inr (f, j)"
    using assms(2) by (rule try_record_Decoded)
  have "i = j" using p(2) q(2) by (rule decode_payload_injective)
  then have "p = q"
    using p(3) q(3) by (cases g) (auto dest: unwrap_header_eqI)
  then show ?thesis using p(1) q(1) by simp
qed

definition raw_of :: "jobj \<Rightarrow> jval" where
  "raw_of event = (case map_of event ''raw'' of None \<Rightarrow> JObj [] | Some v \<Rightarrow> v)"

lemma decoded_observation_simps [simp]:
  "ev_record (o_evidence (decoded_observation out d)) = Some d"
  "ev_group (o_evidence (decoded_observation out d)) = ev_group (o_evidence out)"
  "ev_raw (o_evidence (decoded_observation out d)) = ev_raw (o_evidence out)"
  "ev_observation (o_evidence (decoded_observation out d)) = Some (d_kind d)"
  "source_id (o_evidence (decoded_observation out d)) = source_id (o_evidence out)"
  by (simp_all add: decoded_observation_def Let_def)

lemma decoded_observation_type:
  "event_type out \<noteq> ''agent.activity'' \<Longrightarrow>
   event_type (decoded_observation out d) = ''agent.activity'' \<longleftrightarrow> qualified_rec d"
  by (simp add: decoded_observation_def Let_def)

lemma project_event_record:
  assumes "project_event event = Inr out" and "ev_record (o_evidence out) = Some d"
  shows "jget event ''type'' = JStr ''record''"
    and "try_record (raw_of event) = (ev_group (o_evidence out), Decoded d)"
    and "ev_raw (o_evidence out) = Some (raw_of event)"
    and "event_type out = ''agent.activity'' \<longleftrightarrow> qualified_rec d"
    and "ev_observation (o_evidence out) = Some (d_kind d)"
    and "source_id (o_evidence out) = jget event ''source_id''"
proof -
  have t: "jget event ''type'' = JStr ''record''"
    using assms by (auto simp: project_event_def initial_observation_def Let_def split: if_splits)
  obtain g att where ga: "try_record (raw_of event) = (g, att)" by (cases "try_record (raw_of event)")
  let ?out = "(initial_observation event)\<lparr>o_evidence := (o_evidence (initial_observation event))
      \<lparr>ev_raw := Some (raw_of event), ev_group := g\<rparr>\<rparr>"
  have att: "att = Decoded d" "out = decoded_observation ?out d"
    using assms t ga
    by (auto simp: project_event_def Let_def raw_of_def [symmetric] initial_observation_def
        split: attempt.splits)
  show "jget event ''type'' = JStr ''record''" by fact
  show "try_record (raw_of event) = (ev_group (o_evidence out), Decoded d)"
    "ev_raw (o_evidence out) = Some (raw_of event)"
    "ev_observation (o_evidence out) = Some (d_kind d)"
    "source_id (o_evidence out) = jget event ''source_id''"
    using ga att by (simp_all add: initial_observation_def)
  show "event_type out = ''agent.activity'' \<longleftrightarrow> qualified_rec d"
    unfolding att by (rule decoded_observation_type) (simp add: initial_observation_def)
qed

lemma project_event_decoded:
  assumes "jget event ''type'' = JStr ''record''" and "try_record (raw_of event) = (g, Decoded d)"
  shows "\<exists>out. project_event event = Inr out \<and> ev_record (o_evidence out) = Some d \<and>
     ev_group (o_evidence out) = g"
  using assms by (simp add: project_event_def Let_def raw_of_def [symmetric])

lemma activity_has_record:
  assumes "project_event event = Inr out" and "event_type out = ''agent.activity''"
  shows "\<exists>d. ev_record (o_evidence out) = Some d \<and> qualified_rec d \<and>
     o_activity out = fst (fields_of d) \<and> reported_outcome out = snd (fields_of d)"
proof -
  have diag: "''agent.'' @ k \<noteq> ''agent.activity''" if "k \<in> set DIAGNOSTICS" for k
    using that by (auto simp: DIAGNOSTICS_def)
  show ?thesis
    using assms diag
    by (auto simp: project_event_def Let_def initial_observation_def decoded_observation_def
        split: attempt.splits if_splits jval.splits prod.splits)
qed

lemma project_page_rows:
  assumes "project_page (JObj pg) = Inr (Activity_Page pg' rows)"
  shows "jget pg' ''next_cursor'' = jget pg ''next_cursor''"
    and "\<exists>evs. jget pg ''events'' = JArr evs \<and> length rows = length evs \<and> length evs \<le> 128 \<and>
          (\<forall>i < length evs. \<exists>e. valid_row (evs ! i) = Some (fst (rows ! i), e) \<and>
             project_event e = Inr (snd (rows ! i)))"
    and "i < length rows \<Longrightarrow> \<exists>e. project_event e = Inr (snd (rows ! i))"
proof -
  let ?f = "\<lambda>r. let (c, e) = the (valid_row r) in ebind (project_event e) (\<lambda>o'. Inr (c, o'))"
  from assms obtain evs c where evs: "jget pg ''events'' = JArr evs" "length evs \<le> 128"
    "jget pg ''next_cursor'' = JStr c" "\<not> list_ex (\<lambda>r. valid_row r = None) evs"
    and rows: "emap ?f evs = Inr rows"
    and r: "pg' = AList.update ''format'' (JStr ''agent_activity/v1'') pg"
    by (auto simp: project_page_def err_simps split: jval.splits if_splits)
  have len: "length rows = length evs" using emap_length [OF rows] .
  have each: "\<exists>e. valid_row (evs ! i) = Some (fst (rows ! i), e) \<and> project_event e = Inr (snd (rows ! i))"
    if i: "i < length evs" for i
  proof -
    have "?f (evs ! i) = Inr (rows ! i)" using emap_nth [OF rows i] .
    moreover obtain c e where ce: "valid_row (evs ! i) = Some (c, e)"
      using evs(4) i by (fastforce simp: list_ex_iff)
    ultimately have "ebind (project_event e) (\<lambda>o'. Inr (c, o')) = Inr (rows ! i)" by simp
    then obtain o' where "project_event e = Inr o'" "rows ! i = (c, o')" by (auto simp: err_simps)
    with ce show ?thesis by auto
  qed
  show "jget pg' ''next_cursor'' = jget pg ''next_cursor''" by (simp add: r)
  show "\<exists>evs. jget pg ''events'' = JArr evs \<and> length rows = length evs \<and> length evs \<le> 128 \<and>
          (\<forall>i < length evs. \<exists>e. valid_row (evs ! i) = Some (fst (rows ! i), e) \<and>
             project_event e = Inr (snd (rows ! i)))"
    using evs len each by blast
  show "i < length rows \<Longrightarrow> \<exists>e. project_event e = Inr (snd (rows ! i))" using each len by auto
qed

section \<open>The properties of the exporter\<close>

text \<open>
  C36. Evidence is exact end to end: when two collector events give observations with the same frame
  and the same decoded record, they carried the same record bytes; and an observation becomes an
  activity exactly when its record decoded with no flag and with non-zero instance, revision, run
  and sequence.
\<close>

theorem export_evidence_exact:
  assumes "project_event e1 = Inr o1" "project_event e2 = Inr o2"
    and "ev_group (o_evidence o1) = ev_group (o_evidence o2)"
    and "ev_record (o_evidence o1) = Some d" "ev_record (o_evidence o2) = Some d"
  shows "record_bytes (raw_of e1) = record_bytes (raw_of e2) \<and> record_bytes (raw_of e1) \<noteq> None \<and>
         (event_type o1 = ''agent.activity'' \<longleftrightarrow> qualified_rec d)"
proof -
  note 1 = project_event_record [OF assms(1,4)] and 2 = project_event_record [OF assms(2,5)]
  have "try_record (raw_of e2) = (ev_group (o_evidence o1), Decoded d)" using 2(2) assms(3) by simp
  with 1(2) have "record_bytes (raw_of e1) = record_bytes (raw_of e2) \<and> record_bytes (raw_of e1) \<noteq> None"
    by (rule try_record_bytes)
  with 1(4) show ?thesis by blast
qed

definition sample_event :: "bytes \<Rightarrow> jobj" where
  "sample_event p = [(''type'', JStr ''record''), (''source_id'', JStr ''tmm''),
     (''raw'', JObj [(''data'', JStr (to_hex p)), (''schema'', JInt 100)])]"

theorem export_evidence_exact_witness:
  "\<exists>out d. project_event (sample_event (sample_value 0x4A4D4554 0 0 [0x47])) = Inr out \<and>
     ev_record (o_evidence out) = Some d \<and> \<not> qualified_rec d \<and> event_type out \<noteq> ''agent.activity''"
  (is "\<exists>out d. project_event (sample_event ?p) = Inr out \<and> _ out d")
proof -
  have "ok_with (\<lambda>e. inst (v_hdr (v_rec e)) = 0) (method_decode ?p)" "u32 ?p 0 = 0x4A4D4554"
    "length ?p = 144" by code_simp+
  then obtain e where e: "method_decode ?p = Inr e" "inst (v_hdr (v_rec e)) = 0"
    and u: "u32 ?p 0 = 0x4A4D4554" "length ?p = 144"
    unfolding ok_with_iff by blast
  have "try_record (raw_of (sample_event ?p)) = (None, Decoded (Method_Rec e))"
    using e(1) u by (simp add: try_record_def raw_of_def sample_event_def jget_def decode_payload_def
        DECODERS_def lift_dec_def)
  moreover have "jget (sample_event ?p) ''type'' = JStr ''record''" by (simp add: sample_event_def jget_def)
  ultimately obtain out where out: "project_event (sample_event ?p) = Inr out"
    "ev_record (o_evidence out) = Some (Method_Rec e)"
    using project_event_decoded by blast
  have q: "\<not> qualified_rec (Method_Rec e)" using e(2) by (simp add: qualified_rec_def)
  from export_evidence_exact [OF out(1) out(1) refl out(2) out(2)] q
  have "event_type out \<noteq> ''agent.activity''" by blast
  with out q show ?thesis by blast
qed

text \<open>
  Exporting a page keeps every row: the same number of rows, at most 128, the same cursors in
  the same order, each with the projection of its own event, and a page that carries an error comes
  back unchanged.
\<close>

theorem project_page_keeps_rows:
  assumes "project_page (JObj pg) = Inr r"
  shows "case r of
     Error_Page pg' \<Rightarrow> pg' = pg \<and> map_of pg ''error'' \<noteq> None
   | Activity_Page pg' rows \<Rightarrow>
       jget pg' ''next_cursor'' = jget pg ''next_cursor'' \<and>
       (\<exists>evs. jget pg ''events'' = JArr evs \<and> length rows = length evs \<and> length evs \<le> 128 \<and>
          (\<forall>i < length evs. \<exists>e. valid_row (evs ! i) = Some (fst (rows ! i), e) \<and>
             project_event e = Inr (snd (rows ! i))))"
proof (cases r)
  case (Error_Page pg')
  then show ?thesis
    using assms by (auto simp: project_page_def err_simps split: jval.splits if_splits)
next
  case (Activity_Page pg' rows)
  with assms have p: "project_page (JObj pg) = Inr (Activity_Page pg' rows)" by simp
  show ?thesis unfolding Activity_Page page_out.case using project_page_rows(1,2) [OF p] by blast
qed

theorem project_page_keeps_rows_witness:
  "\<exists>pg rows. project_page (JObj [(''events'', JArr [JObj [(''cursor'', JStr ''j:1''),
       (''event'', JObj [(''type'', JStr ''discard'')])]]), (''next_cursor'', JStr ''j:1'')])
     = Inr (Activity_Page pg rows) \<and> length rows = 1 \<and> fst (rows ! 0) = ''j:1'' \<and>
     project_event [(''type'', JStr ''discard'')] = Inr (snd (rows ! 0))"
  (is "\<exists>pg rows. project_page (JObj ?pg) = Inr (Activity_Page pg rows) \<and> _ rows")
proof -
  obtain pg rows where r: "project_page (JObj ?pg) = Inr (Activity_Page pg rows)"
    by (simp add: project_page_def jget_def valid_row_def project_event_def Let_def)
  from project_page_keeps_rows [OF r]
  have "length rows = 1" "fst (rows ! 0) = ''j:1''"
    "project_event [(''type'', JStr ''discard'')] = Inr (snd (rows ! 0))"
    by (auto simp: jget_def valid_row_def)
  with r show ?thesis by blast
qed

text \<open>
  The only exception a page can raise beside a \<^verbatim>\<open>ValueError\<close> is the \<^verbatim>\<open>TypeError\<close> of
  an event whose type is an array or an object.
\<close>

theorem project_page_refusals:
  assumes "project_page (JObj pg) = Inl x"
  shows "is_value_error x \<or> (\<exists>evs r e. jget pg ''events'' = JArr evs \<and> r \<in> set evs \<and>
           (\<exists>c. valid_row r = Some (c, e)) \<and> \<not> hashable (jget e ''type''))"
proof -
  let ?f = "\<lambda>r. let (c, e) = the (valid_row r) in ebind (project_event e) (\<lambda>o'. Inr (c, o'))"
  have p: "\<not> hashable (jget e ''type'')" if "project_event e = Inl y" for e y
    using that by (auto simp: project_event_def Let_def split: if_splits attempt.splits prod.splits)
  from assms consider "is_value_error x" | evs where "jget pg ''events'' = JArr evs"
    "\<not> list_ex (\<lambda>r. valid_row r = None) evs" "emap ?f evs = Inl x"
    by (auto simp: project_page_def err_simps split: jval.splits if_splits)
  then show ?thesis
  proof cases
    case 2
    from 2(3) have "\<exists>r \<in> set evs. ?f r = Inl x" by (rule emap_Inl)
    then obtain r where r: "r \<in> set evs" "?f r = Inl x" by blast
    with 2(2) obtain c e where ce: "valid_row r = Some (c, e)" by (fastforce simp: list_ex_iff)
    with r have "project_event e = Inl x" by (auto simp: err_simps)
    with p ce r 2(1) show ?thesis by blast
  qed blast
qed


theorem project_page_refusals_witness:
  "\<exists>x. project_page (JObj [(''events'', JArr [JObj [(''cursor'', JStr ''j:1''),
       (''event'', JObj [(''type'', JArr [])])]]), (''next_cursor'', JStr ''j:1'')]) = Inl x \<and>
     \<not> is_value_error x \<and> \<not> hashable (JArr [])"
  (is "\<exists>x. project_page (JObj ?pg) = Inl x \<and> _ x")
proof -
  have "project_page (JObj ?pg) = Inl (TypeError ''unhashable type'')"
    by (simp add: project_page_def jget_def valid_row_def project_event_def Let_def)
  with project_page_refusals [OF this] show ?thesis by simp
qed

end
