(* ===== verification/Activity_Combine.thy ===== *)
theory Activity_Combine
  imports Activity_Export Sha256
begin

text \<open>
  \<^verbatim>\<open>env/ai-traffic/activity_combine.py\<close>: observations of one HTTP/1 exchange, keyed by source,
  ring, run, owner instance and exchange number, are collected in bounded groups and published as one
  combined activity. A dictionary whose order matters (the pending groups) or whose size is checked
  (the producers) is an association list in insertion order. A row that reached a group has a
  frame, a decoded record and a raw object; \<open>grow\<close> keeps these beside the observation.
\<close>

section \<open>Times\<close>

definition nanoseconds :: "jval \<Rightarrow> int option" where
  "nanoseconds value =
     (let v = (case value of
           JStr s \<Rightarrow> if s \<noteq> [] \<and> list_all is_digit s \<and> length s \<le> 20
                     then (case parse_int s of Inr i \<Rightarrow> Some i | Inl _ \<Rightarrow> None) else None
         | JInt i \<Rightarrow> Some i
         | _ \<Rightarrow> None)
      in (case v of Some i \<Rightarrow> if 0 < i \<and> i < 2 ^ 64 then Some i else None | None \<Rightarrow> None))"

text \<open>The proleptic Gregorian calendar of \<^verbatim>\<open>datetime\<close>, counted from 1970-01-01.\<close>

definition leap :: "nat \<Rightarrow> bool" where
  "leap y \<longleftrightarrow> y mod 4 = 0 \<and> (y mod 100 \<noteq> 0 \<or> y mod 400 = 0)"

definition month_lengths :: "nat \<Rightarrow> nat list" where
  "month_lengths y = [31, if leap y then 29 else 28, 31, 30, 31, 30, 31, 31, 30, 31, 30, 31]"

fun in_month :: "nat \<Rightarrow> nat list \<Rightarrow> nat \<Rightarrow> nat \<times> nat" where
  "in_month m [] d = (m, d + 1)"
| "in_month m (l # ls) d = (if d < l then (m, d + 1) else in_month (m + 1) ls (d - l))"

fun civil :: "nat \<Rightarrow> nat \<Rightarrow> nat \<times> nat \<times> nat" where
  "civil y d = (let n = (if leap y then 366 else 365) in
     if d < n then (y, in_month 1 (month_lengths y) d) else civil (y + 1) (d - n))"

declare civil.simps [simp del]

definition pad0 :: "nat \<Rightarrow> nat \<Rightarrow> string" where
  "pad0 w n = replicate (w - length (str_nat n)) CHR ''0'' @ str_nat n"

definition timestamp :: "jval \<Rightarrow> string option" where
  "timestamp value =
     (case nanoseconds value of None \<Rightarrow> None
      | Some v \<Rightarrow>
          let seconds = nat (v div 1000000000); fraction = nat (v mod 1000000000);
              (y, mo, d) = civil 1970 (seconds div 86400); t = seconds mod 86400
          in Some (pad0 4 y @ ''-'' @ pad0 2 mo @ ''-'' @ pad0 2 d @ ''T'' @ pad0 2 (t div 3600) @ '':'' @
                   pad0 2 (t mod 3600 div 60) @ '':'' @ pad0 2 (t mod 60) @ ''.'' @ pad0 9 fraction @ ''Z''))"

section \<open>Groups\<close>

record grow =
  g_cursor :: string
  g_obs :: observation
  g_frame :: frame
  g_rec :: decoded
  g_raw :: jobj

record timing =
  started_at :: "string option"
  ended_at :: "string option"
  last_observed_at :: "string option"
  duration_ns :: "string option"
  t_status :: string

definition observation_timing :: "grow \<Rightarrow> grow \<Rightarrow> timing" where
  "observation_timing first last' =
     (let ended = (phase (g_frame last') = 3);
          ns = (\<lambda>r. nanoseconds (JStr (str_int (monotonic_ns (d_hdr (g_rec r))))));
          start = ns first; end' = (if ended then ns last' else None);
          duration = (case (start, end') of
              (Some s, Some e) \<Rightarrow> if e \<ge> s then Some (str_int (e - s)) else None | _ \<Rightarrow> None);
          st = timestamp (jget (g_raw first) ''ts_ns'');
          la = timestamp (jget (g_raw last') ''ts_ns'');
          en = (if ended then la else None);
          complete = (st \<noteq> None \<and> en \<noteq> None \<and> la \<noteq> None \<and> duration \<noteq> None);
          invalid = (case (start, end') of (Some s, Some e) \<Rightarrow> e < s | _ \<Rightarrow> False)
      in \<lparr>started_at = st, ended_at = en, last_observed_at = la, duration_ns = duration,
          t_status = (if invalid then ''invalid'' else if complete then ''complete'' else ''incomplete'')\<rparr>)"

type_synonym gkey = "string \<times> int \<times> int \<times> string \<times> string"
type_synonym producer = "string \<times> int \<times> int \<times> int"

record group =
  first :: string
  rows :: "grow list"
  issues :: "string list"
  confirmed :: bool

datatype tls_transport = Tls_Not_Observed | Tls_Observed tls_event | Tls_Conflicting "tls_event list"

record combined =
  activity_id :: string
  c_status :: string
  c_issues :: "string list"
  c_activity :: activity
  c_outcome :: outcome
  c_transport :: tls_transport
  c_timing :: timing
  c_key :: gkey
  first_cursor :: string
  last_cursor :: string
  record_count :: nat
  field_sources :: jobj

text \<open>The first loop of \<^verbatim>\<open>finish\<close>: what the rows hold, by side and kind.\<close>

record scan =
  sc_fields :: "((int \<times> string) \<times> grow) list"
  sc_issues :: "string list"
  sc_calls :: "(int \<times> int \<times> int \<times> string) list"
  http_producers :: "(int \<times> int) list"
  confirmations :: "string list"

definition is_http :: "decoded \<Rightarrow> bool" where
  "is_http d \<longleftrightarrow> d_kind d = ''http_response''"

fun d_code :: "decoded \<Rightarrow> int" where
  "d_code (Response_Rec r) = code r"
| "d_code _ = 0"

definition scan_row :: "scan \<Rightarrow> grow \<Rightarrow> scan" where
  "scan_row s r =
     (let f = g_frame r; h = d_hdr (g_rec r); kind = d_kind (g_rec r) in
      if is_http (g_rec r)
      then s\<lparr>http_producers := List.insert (inst h, revision h) (http_producers s),
             confirmations := (if side f = 1 \<and> d_code (g_rec r) = 142
                               then confirmations s @ [g_cursor r] else confirmations s)\<rparr>
      else if side f \<notin> {1, 2} then s\<lparr>sc_issues := sc_issues s @ [''unknown_side'']\<rparr>
      else s\<lparr>sc_calls := List.insert (side f, inst h, revision h, invocation f) (sc_calls s),
             sc_issues := (if map_of (sc_fields s) (side f, kind) \<noteq> None
                           then sc_issues s @ [''duplicate_field''] else sc_issues s),
             sc_fields := AList.update (side f, kind) r (sc_fields s)\<rparr>)"

definition scan_rows :: "string list \<Rightarrow> grow list \<Rightarrow> scan" where
  "scan_rows iss rs =
     foldl scan_row \<lparr>sc_fields = [], sc_issues = iss, sc_calls = [], http_producers = [],
                     confirmations = []\<rparr> rs"

definition json_kinds :: "string list" where
  "json_kinds = [''method'', ''operation_target'', ''message_id'', ''reply'']"

definition calls_of :: "scan \<Rightarrow> int \<Rightarrow> (int \<times> int \<times> int \<times> string) list" where
  "calls_of s sd = filter (\<lambda>c. fst c = sd) (sc_calls s)"

definition shape_issues :: "scan \<Rightarrow> string list" where
  "shape_issues s =
     concat (map (\<lambda>sd.
        (if length (calls_of s sd) \<noteq> 1 then [''missing_or_multiple_json_messages''] else []) @
        concat (map (\<lambda>k. if map_of (sc_fields s) (sd, k) = None then [''missing_field''] else [])
                  json_kinds)) [1, 2]) @
     (if length (remdups (map (\<lambda>(sd, i, r, inv). (i, r)) (sc_calls s))) \<noteq> 1
      then [''json_producer_changed''] else []) @
     (if length (http_producers s) \<noteq> 1 \<or> length (confirmations s) \<noteq> 1
      then [''missing_or_conflicting_http_confirmation''] else [])"

text \<open>One of the three request fields: its value, its issues and its source cursor.\<close>

definition request_field ::
  "scan \<Rightarrow> string \<Rightarrow> string \<Rightarrow> (activity \<Rightarrow> str_field option) \<Rightarrow> str_field option \<times> string list \<times> jobj"
where
  "request_field s name kind sel =
     (case map_of (sc_fields s) (1, kind) of
        None \<Rightarrow> (None, [], [])
      | Some r \<Rightarrow>
          (case sel (o_activity (g_obs r)) of
             None \<Rightarrow> (None, [], [])
           | Some v \<Rightarrow>
               (Some v,
                if sf_status v \<noteq> ''complete'' \<or> text_error v then [''incomplete_'' @ name] else [],
                [(name, JStr (g_cursor r))])))"

definition id_issues :: "scan \<Rightarrow> string list" where
  "id_issues s =
     (case (map_of (sc_fields s) (1, ''message_id''), map_of (sc_fields s) (2, ''message_id'')) of
        (Some a, Some b) \<Rightarrow>
          (case (a_message_id (o_activity (g_obs a)), a_message_id (o_activity (g_obs b))) of
             (Some v, Some w) \<Rightarrow>
               if sf_status v \<noteq> ''complete'' \<or> sf_status w \<noteq> ''complete'' then [''incomplete_id'']
               else if (sf_kind v, raw_hex v) \<noteq> (sf_kind w, raw_hex w) then [''reply_id_mismatch'']
               else []
           | _ \<Rightarrow> [])
      | _ \<Rightarrow> [])"

definition reply_part :: "scan \<Rightarrow> outcome \<times> string list \<times> jobj" where
  "reply_part s =
     (case map_of (sc_fields s) (2, ''reply'') of
        None \<Rightarrow> (no_outcome, [], [])
      | Some r \<Rightarrow>
          let oc = reported_outcome (g_obs r) in
          (oc, if oc_status oc \<noteq> Some ''complete'' then [''incomplete_reply''] else [],
           [(''reply'', JStr (g_cursor r))]))"

text \<open>The loop over the client-side HTTP outcomes, with the outcome, issues and sources so far.\<close>

definition http_row :: "outcome \<times> string list \<times> jobj \<Rightarrow> grow \<Rightarrow> outcome \<times> string list \<times> jobj" where
  "http_row acc r =
     (if side (g_frame r) \<noteq> 1 then acc
      else let (oc, iss, src) = acc;
               (oc, iss, src) =
                 (case oc_http_status (reported_outcome (g_obs r)) of
                    Some v \<Rightarrow> if fst v = ''complete''
                      then (oc\<lparr>oc_http_status := Some v\<rparr>,
                            if oc_http_status oc \<noteq> None \<and> oc_http_status oc \<noteq> Some v
                            then iss @ [''conflicting_http_status''] else iss,
                            AList.update ''http_status'' (JStr (g_cursor r)) src)
                      else (oc, iss, src)
                  | None \<Rightarrow> (oc, iss, src))
           in (case oc_transfer (reported_outcome (g_obs r)) of
                 Some v \<Rightarrow> if fst v = ''complete''
                   then (oc\<lparr>oc_transfer := Some v\<rparr>,
                         if oc_transfer oc \<noteq> None \<and> oc_transfer oc \<noteq> Some v
                         then iss @ [''conflicting_local_transfer_complete''] else iss,
                         AList.update ''local_transfer_complete'' (JStr (g_cursor r)) src)
                   else (oc, iss, src)
               | None \<Rightarrow> (oc, iss, src)))"

definition tls_readings :: "grow list \<Rightarrow> (string \<times> tls_event) list" where
  "tls_readings rs =
     concat (map (\<lambda>r. if is_http (g_rec r) \<and> side (g_frame r) = 1
        then (case a_client_tls (o_activity (g_obs r)) of
                Some t \<Rightarrow> [(g_cursor r, t)] | None \<Rightarrow> []) else []) rs)"

definition transport_of :: "tls_event list \<Rightarrow> tls_transport" where
  "transport_of vs = (case vs of [] \<Rightarrow> Tls_Not_Observed
     | v # _ \<Rightarrow> if list_all (\<lambda>w. w = v) vs then Tls_Observed v else Tls_Conflicting vs)"

definition key_json :: "gkey \<Rightarrow> jval" where
  "key_json k = (case k of (src, ring, run, owner, exch) \<Rightarrow>
     JArr [JStr src, JInt ring, JStr (str_int run), JStr owner, JStr exch])"

text \<open>All that \<^verbatim>\<open>finish\<close> collects, in its order; \<open>reason\<close> is absent at a normal end.\<close>

definition group_issues :: "group \<Rightarrow> string option \<Rightarrow> string list" where
  "group_issues g reason =
     (let s = scan_rows (issues g @ (case reason of None \<Rightarrow> [] | Some x \<Rightarrow> [x])) (rows g);
          (oc, reply_iss, _) = reply_part s;
          (oc, http_iss, _) = foldl http_row (oc, [], []) (rows g)
      in sc_issues s @ shape_issues s @
         fst (snd (request_field s ''method'' ''method'' a_method)) @
         fst (snd (request_field s ''target'' ''operation_target'' a_target)) @
         fst (snd (request_field s ''message_id'' ''message_id'' a_message_id)) @
         id_issues s @ reply_iss @ http_iss @
         (if oc_http_status oc = None \<or> oc_transfer oc = None then [''incomplete_http''] else []) @
         (case transport_of (map snd (tls_readings (rows g))) of
            Tls_Conflicting _ \<Rightarrow> [''conflicting_client_tls''] | _ \<Rightarrow> []))"

definition finish_group :: "gkey \<Rightarrow> group \<Rightarrow> string option \<Rightarrow> combined" where
  "finish_group key g reason =
     (let s = scan_rows [] (rows g);
          (m, _, msrc) = request_field s ''method'' ''method'' a_method;
          (t, _, tsrc) = request_field s ''target'' ''operation_target'' a_target;
          (i, _, isrc) = request_field s ''message_id'' ''message_id'' a_message_id;
          (oc, _, rsrc) = reply_part s;
          (oc, _, src) = foldl http_row (oc, [], msrc @ tsrc @ isrc @ rsrc) (rows g);
          readings = tls_readings (rows g);
          iss = sort (remdups (group_issues g reason))
      in \<lparr>activity_id = sha256_hex (dumps (key_json key)),
          c_status = (if iss \<noteq> [] then ''incomplete'' else ''observed_exchange''),
          c_issues = iss,
          c_activity = no_activity\<lparr>a_method := m, a_target := t, a_message_id := i\<rparr>,
          c_outcome = oc, c_transport = transport_of (map snd readings),
          c_timing = observation_timing (hd (rows g)) (last (rows g)), c_key = key,
          first_cursor = first g, last_cursor = g_cursor (last (rows g)),
          record_count = length (rows g),
          field_sources = (if readings = [] then src
             else AList.update ''client_tls'' (JArr (map (\<lambda>x. JStr (fst x)) readings)) src)\<rparr>)"

section \<open>The combiner\<close>

record combiner =
  capacity :: nat
  max_records :: nat
  pending :: "(gkey \<times> group) list"
  sequences :: "(producer \<times> int) list"
  cursor :: "string option"

datatype out_event = Plain observation | Combined combined

definition init_combiner :: "nat \<Rightarrow> nat \<Rightarrow> combiner" where
  "init_combiner cap mx = \<lparr>capacity = cap, max_records = mx, pending = [], sequences = [], cursor = None\<rparr>"

definition finish :: "combiner \<Rightarrow> gkey \<Rightarrow> string option \<Rightarrow> (combiner \<times> out_event list) result" where
  "finish c key reason =
     (case map_of (pending c) key of
        None \<Rightarrow> Inl (KeyError ''pending'')
      | Some g \<Rightarrow>
          if rows g = [] then Inl IndexError
          else Inr (c\<lparr>pending := AList.delete key (pending c)\<rparr>, [Combined (finish_group key g reason)]))"

fun finish_all :: "combiner \<Rightarrow> gkey list \<Rightarrow> string \<Rightarrow> (combiner \<times> out_event list) result" where
  "finish_all c [] reason = Inr (c, [])"
| "finish_all c (k # ks) reason =
     ebind (finish c k (Some reason)) (\<lambda>(c, o1).
     ebind (finish_all c ks reason) (\<lambda>(c, o2). Inr (c, o1 @ o2)))"

definition flush :: "combiner \<Rightarrow> string \<Rightarrow> (combiner \<times> out_event list) result" where
  "flush c reason =
     ebind (finish_all c (map fst (pending c)) reason) (\<lambda>(c, out). Inr (c\<lparr>sequences := []\<rparr>, out))"

text \<open>\<^verbatim>\<open>cursor.rsplit(":", 1)\<close> with its two results, the second one read as an integer.\<close>

definition split_cursor :: "string \<Rightarrow> (string \<times> int) result" where
  "split_cursor cur =
     (case rsplit1 CHR '':'' cur of
        [journal, number] \<Rightarrow> ebind (parse_int number) (\<lambda>n. Inr (journal, n))
      | _ \<Rightarrow> Inl (ValueError ''not enough values to unpack''))"

definition advance :: "combiner \<Rightarrow> string \<Rightarrow> (combiner \<times> out_event list) result" where
  "advance c cur =
     ebind (split_cursor cur) (\<lambda>(journal, number).
     if cursor c \<in> {None, Some []} then Inr (c\<lparr>cursor := Some cur\<rparr>, [])
     else ebind (split_cursor (the (cursor c))) (\<lambda>(previous, offset).
         if journal \<noteq> previous \<or> number \<le> offset
         then Inl (ValueError ''replay cursor changed journal or moved backwards'')
         else ebind (if number \<noteq> offset + 1 then flush c ''cursor_discontinuity'' else Inr (c, []))
                (\<lambda>(c, out). Inr (c\<lparr>cursor := Some cur\<rparr>, out))))"

definition expected_invocation :: "decoded \<Rightarrow> int" where
  "expected_invocation d =
     (if is_http d then seq_no (d_hdr d) else (seq_no (d_hdr d) - 1) div 4 + 1)"

definition kind_slot :: "string \<Rightarrow> int" where
  "kind_slot k = (if k = ''method'' then 0 else if k = ''operation_target'' then 1
                  else if k = ''message_id'' then 2 else 3)"

definition phase_valid :: "frame \<Rightarrow> decoded \<Rightarrow> bool" where
  "phase_valid f d =
     (let http = is_http d; kind = d_kind d; h = d_hdr d in
      if phase f = 1
      then kind = ''method'' \<and> side f = 1 \<and> exchange f = str_int (seq_no h) \<and> f_status f = 1
      else if phase f = 3 then http \<and> side f = 1 \<and> d_code d = 29 \<and> f_status f = 1
      else if phase f = 4
      then (http \<and> d_code d \<in> {1, 5, 57, 142}) \<or> (kind = ''method'' \<and> side f = 1 \<and> f_status f = 4)
      else if \<not> http
      then (seq_no h - 1) mod 4 = kind_slot kind \<and>
           (kind = ''message_id'' \<longrightarrow>
              (case d of Id_Flow_Rec fl \<Rightarrow> flow_status fl = 1 \<and> flow_side fl = side f | _ \<Rightarrow> False))
      else True)"

definition frame_valid :: "jval \<Rightarrow> jobj \<Rightarrow> frame \<Rightarrow> decoded \<Rightarrow> bool" where
  "frame_valid src raw f d \<longleftrightarrow>
     (case src of JStr s \<Rightarrow> s \<noteq> [] | _ \<Rightarrow> False) \<and>
     (case jget raw ''ring'' of JInt r \<Rightarrow> 0 \<le> r \<and> r < 16 | _ \<Rightarrow> False) \<and>
     parse_int (invocation f) \<in> {Inr 0, Inr (expected_invocation d)} \<and>
     (exchange f \<noteq> ''0'' \<longrightarrow>
        invocation f = str_int (expected_invocation d) \<and>
        (is_http d \<or> owner_instance f = str_int (inst (d_hdr d))) \<and> phase_valid f d)"

definition relabel :: "observation \<Rightarrow> string \<Rightarrow> observation" where
  "relabel ob st = ob\<lparr>event_type := ''agent.observation'',
                      o_evidence := (o_evidence ob)\<lparr>ev_status := st\<rparr>\<rparr>"

text \<open>A start frame: the group it opens, after a duplicate or the oldest group had to be closed.\<close>

definition open_group ::
  "combiner \<Rightarrow> gkey \<Rightarrow> string \<Rightarrow> (combiner \<times> out_event list) result"
where
  "open_group c key cur =
     ebind (if length (pending c) \<ge> capacity c
            then (case pending c of [] \<Rightarrow> Inl StopIteration
                  | (k, _) # _ \<Rightarrow> finish c k (Some ''capacity''))
            else Inr (c, []))
       (\<lambda>(c, out). Inr (c\<lparr>pending := AList.update key
            \<lparr>first = cur, rows = [], issues = [], confirmed = False\<rparr> (pending c)\<rparr>, out))"

definition extend_group :: "group \<Rightarrow> grow \<Rightarrow> group" where
  "extend_group g r =
     (let f = g_frame r; http = is_http (g_rec r);
          conf = (confirmed g \<or> (http \<and> d_code (g_rec r) = 142 \<and> side f = 1 \<and> f_status f = 1))
      in g\<lparr>rows := rows g @ [r], confirmed := conf,
           issues := issues g @
             (if \<not> http \<and> side f = 2 \<and> \<not> conf then [''reply_before_http_confirmation''] else []) @
             (if f_status f \<noteq> 1 then [''invalid_group''] else [])\<rparr>)"

definition feed_group ::
  "combiner \<Rightarrow> gkey \<Rightarrow> grow \<Rightarrow> (combiner \<times> out_event list) result"
where
  "feed_group c key r =
     (let f = g_frame r; ob = g_obs r in
      if phase f = 1 \<and> map_of (pending c) key \<noteq> None
      then ebind (finish c key (Some ''duplicate_start'')) (\<lambda>(c, out). Inr (c, out @ [Plain ob]))
      else ebind (if phase f = 1 then open_group c key (g_cursor r) else Inr (c, [])) (\<lambda>(c, o1).
        case map_of (pending c) key of
          None \<Rightarrow> Inr (c, o1 @ [Plain (ob\<lparr>o_correlation := (''unknown'', Some ''unobserved_start'')\<rparr>)])
        | Some g \<Rightarrow>
            let g = extend_group g r; c = c\<lparr>pending := AList.update key g (pending c)\<rparr> in
            ebind (if phase f \<in> {3, 4}
                   then finish c key (if phase f = 4 then Some ''invalidated'' else None)
                   else if length (rows g) \<ge> max_records c then finish c key (Some ''record_capacity'')
                   else Inr (c, []))
              (\<lambda>(c, o2). Inr (c, o1 @ o2))))"

text \<open>
  A row whose frame is bound to its record: the producer's sequence is checked (\<open>feed_bound\<close>) and
  recorded, then the row goes to its group (\<open>feed_sequenced\<close>).
\<close>

definition feed_sequenced ::
  "combiner \<Rightarrow> string \<Rightarrow> int \<Rightarrow> grow \<Rightarrow> (combiner \<times> out_event list) result"
where
  "feed_sequenced c src ring r =
     (let h = d_hdr (g_rec r); f = g_frame r; producer = (src, ring, inst h, run_id h) in
      ebind (if length (sequences c) \<ge> capacity c \<and> map_of (sequences c) producer = None
             then flush c ''producer_capacity'' else Inr (c, [])) (\<lambda>(c, o1).
        let c = c\<lparr>sequences := AList.update producer (seq_no h) (sequences c)\<rparr> in
        if exchange f = [] \<or> exchange f = ''0'' then Inr (c, o1 @ [Plain (g_obs r)])
        else ebind (feed_group c (src, ring, run_id h, owner_instance f, exchange f) r)
               (\<lambda>(c, o2). Inr (c, o1 @ o2))))"

definition feed_bound ::
  "combiner \<Rightarrow> string \<Rightarrow> int \<Rightarrow> grow \<Rightarrow> (combiner \<times> out_event list) result"
where
  "feed_bound c src ring r =
     (let h = d_hdr (g_rec r); producer = (src, ring, inst h, run_id h); sequence = seq_no h;
          previous = map_of (sequences c) producer
      in if (case previous of Some p \<Rightarrow> sequence \<le> p | None \<Rightarrow> False)
         then ebind (flush c ''duplicate_or_regressed_sequence'') (\<lambda>(c, out).
                Inr (c\<lparr>sequences := AList.update producer (the previous) (sequences c)\<rparr>,
                     out @ [Plain (relabel (g_obs r) ''duplicate_or_regressed_sequence'')]))
         else ebind (if (case previous of Some p \<Rightarrow> sequence \<noteq> p + 1 | None \<Rightarrow> False)
                        \<or> output_failures h \<noteq> 0
                     then flush c ''producer_gap'' else Inr (c, [])) (\<lambda>(c, o1).
              ebind (feed_sequenced c src ring r) (\<lambda>(c, o2). Inr (c, o1 @ o2))))"

text \<open>One row of \<^verbatim>\<open>feed\<close>: the cursor first (\<open>advance\<close>), then the event.\<close>

definition publish_row :: "combiner \<Rightarrow> string \<Rightarrow> observation \<Rightarrow> (combiner \<times> out_event list) result" where
  "publish_row c cur ob =
     (let ev = o_evidence ob in
      if event_type ob \<noteq> ''agent.activity'' \<or> ev_group ev = None
      then ebind (if event_type ob \<notin> {''agent.ring_health'', ''agent.discard''}
                  then flush c ''diagnostic_or_unqualified_record'' else Inr (c, []))
             (\<lambda>(c, o2). Inr (c, o2 @ [Plain ob]))
      else case (ev_group ev, ev_record ev, ev_raw ev) of
        (Some f, Some d, Some (JObj raw)) \<Rightarrow>
          if \<not> frame_valid (source_id ev) raw f d
          then ebind (flush c ''invalid_frame_binding'') (\<lambda>(c, o2).
                 Inr (c, o2 @ [Plain (relabel ob ''invalid_frame_binding'')]))
          else (case (source_id ev, jget raw ''ring'') of
             (JStr src, JInt ring) \<Rightarrow> feed_bound c src ring
                \<lparr>g_cursor = cur, g_obs = ob, g_frame = f, g_rec = d, g_raw = raw\<rparr>
           | _ \<Rightarrow> Inl (TypeError ''unreachable''))
      | _ \<Rightarrow> Inl (KeyError ''record''))"

definition feed_row ::
  "combiner \<Rightarrow> string \<times> observation \<Rightarrow> (combiner \<times> out_event list) result"
where
  "feed_row c row = (let (cur, ob) = row in
     ebind (advance c cur) (\<lambda>(c, o1). ebind (publish_row c cur ob) (\<lambda>(c, o2). Inr (c, o1 @ o2))))"

text \<open>
  \<^verbatim>\<open>feed\<close> mutates the combiner row by row; a row that raises leaves it as the rows before it did.
\<close>

fun feed_rows ::
  "combiner \<Rightarrow> out_event list \<Rightarrow> (string \<times> observation) list \<Rightarrow> combiner \<times> out_event list result"
where
  "feed_rows c out [] = (c, Inr out)"
| "feed_rows c out (r # rs) =
     (case feed_row c r of
        Inl x \<Rightarrow> (c, Inl x)
      | Inr (c', o') \<Rightarrow> feed_rows c' (out @ o') rs)"

definition feed :: "combiner \<Rightarrow> jobj \<Rightarrow> combiner \<times> out_event list result" where
  "feed c page =
     (if map_of page ''error'' \<noteq> None then (c, Inl (ValueError (dumps (JObj page))))
      else case project_page (JObj page) of
        Inl x \<Rightarrow> (c, Inl x)
      | Inr (Error_Page _) \<Rightarrow> (c, Inl (KeyError ''events''))
      | Inr (Activity_Page _ rs) \<Rightarrow> feed_rows c [] rs)"

section \<open>Bounds and conservation\<close>

definition group_ok :: "nat \<Rightarrow> group \<Rightarrow> bool" where
  "group_ok mx g \<longleftrightarrow> rows g \<noteq> [] \<and> length (rows g) < mx"

definition combiner_inv :: "combiner \<Rightarrow> bool" where
  "combiner_inv c \<longleftrightarrow>
     0 < capacity c \<and>
     distinct (map fst (pending c)) \<and> distinct (map fst (sequences c)) \<and>
     length (pending c) \<le> capacity c \<and> length (sequences c) \<le> capacity c \<and>
     (\<forall>(k, g) \<in> set (pending c). group_ok (max_records c) g)"

fun out_records :: "out_event \<Rightarrow> nat" where
  "out_records (Plain _) = 1"
| "out_records (Combined x) = record_count x"

definition held :: "combiner \<Rightarrow> nat" where
  "held c = sum_list (map (\<lambda>(k, g). length (rows g)) (pending c))"

definition sent :: "out_event list \<Rightarrow> nat" where
  "sent out = sum_list (map out_records out)"

text \<open>
  \<open>delivers n c r\<close>: the step \<open>r\<close> taken in state \<open>c\<close> does not raise, keeps the invariant and the two
  limits, and accounts for every record: what it publishes and what is pending afterwards is what
  was pending before and the \<open>n\<close> records it took in.
\<close>

definition delivers :: "nat \<Rightarrow> combiner \<Rightarrow> (combiner \<times> out_event list) result \<Rightarrow> bool" where
  "delivers n c r \<longleftrightarrow>
     (\<exists>c' out. r = Inr (c', out) \<and> combiner_inv c' \<and> capacity c' = capacity c \<and>
        max_records c' = max_records c \<and> sent out + held c' = held c + n)"

lemma sent_simps [simp]: "sent [] = 0" "sent (a # as) = out_records a + sent as"
  "sent (as @ bs) = sent as + sent bs"
  by (simp_all add: sent_def)

lemma record_count_finish [simp]: "record_count (finish_group k g reason) = length (rows g)"
  by (simp add: finish_group_def Let_def split: prod.splits)

lemma delivers_skip [intro]: "combiner_inv c \<Longrightarrow> delivers 0 c (Inr (c, []))"
  by (simp add: delivers_def)

lemma delivers_plain: "combiner_inv c \<Longrightarrow> delivers 1 c (Inr (c, [Plain ob]))"
  by (simp add: delivers_def)

lemma delivers_bind:
  assumes "delivers m c r"
    and "\<And>c' out. r = Inr (c', out) \<Longrightarrow> combiner_inv c' \<Longrightarrow> capacity c' = capacity c \<Longrightarrow>
          max_records c' = max_records c \<Longrightarrow> delivers n c' (f c')"
  shows "delivers (m + n) c (ebind r (\<lambda>(c', o1). ebind (f c') (\<lambda>(c'', o2). Inr (c'', o1 @ o2))))"
proof -
  from assms(1) obtain c1 o1 where r: "r = Inr (c1, o1)" "combiner_inv c1" "capacity c1 = capacity c"
    "max_records c1 = max_records c" "sent o1 + held c1 = held c + m"
    by (auto simp: delivers_def)
  from assms(2) [OF r(1-4)] obtain c2 o2 where "f c1 = Inr (c2, o2)" "combiner_inv c2"
    "capacity c2 = capacity c1" "max_records c2 = max_records c1" "sent o2 + held c2 = held c1 + n"
    by (auto simp: delivers_def)
  with r show ?thesis by (auto simp: delivers_def)
qed

lemma held_finish:
  assumes "distinct (map fst (pending c))" "map_of (pending c) k = Some g"
  shows "held (c\<lparr>pending := AList.delete k (pending c)\<rparr>) + length (rows g) = held c"
  using sum_AList_delete [OF assms, of "\<lambda>(k, g). length (rows g)"] by (simp add: held_def)

lemma inv_delete: "combiner_inv c \<Longrightarrow> combiner_inv (c\<lparr>pending := AList.delete k (pending c)\<rparr>)"
  by (auto simp: combiner_inv_def AList.delete_eq intro: distinct_map_filter
      order_trans [OF length_filter_le])

lemma finish_delivers:
  assumes "combiner_inv c" "map_of (pending c) k = Some g"
  shows "finish c k reason =
      Inr (c\<lparr>pending := AList.delete k (pending c)\<rparr>, [Combined (finish_group k g reason)])"
    and "delivers 0 c (finish c k reason)"
proof -
  have "rows g \<noteq> []"
    using assms map_of_SomeD by (fastforce simp: combiner_inv_def group_ok_def)
  with assms(2) show f: "finish c k reason =
      Inr (c\<lparr>pending := AList.delete k (pending c)\<rparr>, [Combined (finish_group k g reason)])"
    by (simp add: finish_def)
  show "delivers 0 c (finish c k reason)"
    using held_finish [of c k g] assms inv_delete [of c k]
    by (simp add: f delivers_def combiner_inv_def)
qed

lemma finish_all_pending:
  assumes "combiner_inv c"
  shows "finish_all c (map fst (pending c)) reason =
     Inr (c\<lparr>pending := []\<rparr>, map (\<lambda>(k, g). Combined (finish_group k g (Some reason))) (pending c))"
  using assms
proof (induction "pending c" arbitrary: c)
  case (Cons p ps)
  obtain k g where p: "p = (k, g)" by (cases p)
  have kg: "map_of (pending c) k = Some g" using Cons.hyps(2) p by (metis map_of_Cons_code(2))
  let ?c = "c\<lparr>pending := AList.delete k (pending c)\<rparr>"
  have "k \<notin> fst ` set ps" using Cons.prems Cons.hyps(2) [symmetric] p by (auto simp: combiner_inv_def)
  then have del: "AList.delete k (pending c) = ps"
    using Cons.hyps(2) [symmetric] p by (simp add: delete_id)
  have "finish_all ?c (map fst (pending ?c)) reason =
      Inr (?c\<lparr>pending := []\<rparr>, map (\<lambda>(k, g). Combined (finish_group k g (Some reason))) (pending ?c))"
    by (rule Cons.hyps(1)) (use del inv_delete [OF Cons.prems, of k] in simp_all)
  with del Cons.hyps(2) [symmetric] p finish_delivers(1) [OF Cons.prems kg] show ?case by simp
qed simp

lemma flush_delivers:
  assumes "combiner_inv c"
  shows "flush c reason = Inr (c\<lparr>pending := [], sequences := []\<rparr>,
      map (\<lambda>(k, g). Combined (finish_group k g (Some reason))) (pending c))"
    and "delivers 0 c (flush c reason)"
proof -
  show f: "flush c reason = Inr (c\<lparr>pending := [], sequences := []\<rparr>,
      map (\<lambda>(k, g). Combined (finish_group k g (Some reason))) (pending c))"
    by (simp add: flush_def finish_all_pending [OF assms])
  have "sent (map (\<lambda>(k, g). Combined (finish_group k g (Some reason))) ps) =
      sum_list (map (\<lambda>(k, g). length (rows g)) ps)" for ps
    by (induction ps) auto
  then show "delivers 0 c (flush c reason)"
    using assms by (simp add: f delivers_def combiner_inv_def held_def)
qed

text \<open>The same for the steps that only touch the cursor or the producers' sequences.\<close>

lemma delivers_if [intro]:
  "(b \<Longrightarrow> delivers n c r) \<Longrightarrow> (\<not> b \<Longrightarrow> delivers n c s) \<Longrightarrow> delivers n c (if b then r else s)"
  by simp

lemma delivers_update:
  assumes "delivers n c r"
    and "\<And>c'. combiner_inv c' \<Longrightarrow> combiner_inv (f c') \<and> capacity (f c') = capacity c' \<and>
           max_records (f c') = max_records c' \<and> pending (f c') = pending c'"
  shows "delivers (n + length ps) c (ebind r (\<lambda>(c', out). Inr (f c', out @ map Plain ps)))"
proof -
  have "sent (map Plain ps) = length ps" by (induction ps) simp_all
  then show ?thesis using assms by (fastforce simp: delivers_def held_def)
qed

lemma inv_update_group:
  assumes "combiner_inv c" "group_ok (max_records c) g"
    and "map_of (pending c) k \<noteq> None \<or> length (pending c) < capacity c"
  shows "combiner_inv (c\<lparr>pending := AList.update k g (pending c)\<rparr>)"
  using assms
  by (auto simp: combiner_inv_def length_AList_update set_AList_update distinct_update split: if_splits)

lemma held_update:
  "held (c\<lparr>pending := AList.update k g (pending c)\<rparr>) +
     (case map_of (pending c) k of None \<Rightarrow> 0 | Some g' \<Rightarrow> length (rows g')) = held c + length (rows g)"
  using sum_AList_update [of "\<lambda>(k, g). length (rows g)" k g "pending c"]
  by (simp add: held_def split: option.splits)

lemma inv_update_sequence:
  assumes "combiner_inv c" "map_of (sequences c) p \<noteq> None \<or> length (sequences c) < capacity c"
  shows "combiner_inv (c\<lparr>sequences := AList.update p n (sequences c)\<rparr>)"
  using assms by (auto simp: combiner_inv_def length_AList_update distinct_update)

lemma inv_cursor [simp]: "combiner_inv (c\<lparr>cursor := x\<rparr>) = combiner_inv c"
  by (simp add: combiner_inv_def)

lemma rows_extend [simp]: "rows (extend_group g r) = rows g @ [r]"
  by (simp add: extend_group_def Let_def)

text \<open>The end of \<open>feed_group\<close>: the row joins the group, which may be complete with it.\<close>

lemma join_group_delivers:
  assumes inv: "combiner_inv c"
    and room: "map_of (pending c) k \<noteq> None \<or> length (pending c) < capacity c"
    and g: "rows g = (case map_of (pending c) k of None \<Rightarrow> [] | Some g' \<Rightarrow> rows g')"
    and c1: "c1 = c\<lparr>pending := AList.update k (extend_group g r) (pending c)\<rparr>"
  shows "delivers 1 c
    (if b then finish c1 k reason1
     else if length (rows (extend_group g r)) \<ge> max_records c1 then finish c1 k reason2
     else Inr (c1, []))"
proof -
  let ?g = "extend_group g r"
  have d: "distinct (map fst (pending c1))" using inv by (simp add: c1 combiner_inv_def distinct_update)
  have k: "map_of (pending c1) k = Some ?g" by (simp add: c1 update_conv)
  have held: "held c1 = held c + 1"
    using held_update [where c = c and k = k and g = ?g] g by (simp add: c1 split: option.splits)
  have del: "AList.delete k (pending c1) = AList.delete k (pending c)" by (simp add: c1 delete_update_same)
  have fin: "finish c1 k reason = Inr (c\<lparr>pending := AList.delete k (pending c)\<rparr>,
      [Combined (finish_group k ?g reason)])" for reason
    using k by (simp add: finish_def del) (simp add: c1)
  have "held (c1\<lparr>pending := AList.delete k (pending c1)\<rparr>) + length (rows ?g) = held c1"
    using d k by (rule held_finish)
  then have h: "held (c\<lparr>pending := AList.delete k (pending c)\<rparr>) + length (rows ?g) = held c + 1"
    using held by (simp add: held_def del)
  have fin_ok: "delivers 1 c (finish c1 k reason)" for reason
    using h inv_delete [OF inv, of k] by (simp add: fin delivers_def)
  have "delivers 1 c (Inr (c1, []))" if "length (rows ?g) < max_records c1"
  proof -
    have "group_ok (max_records c) ?g" using that by (simp add: group_ok_def c1)
    with inv room held show ?thesis
      by (auto simp: delivers_def c1 intro!: inv_update_group)
  qed
  then show ?thesis using fin_ok by auto
qed

lemma feed_group_delivers:
  assumes inv: "combiner_inv c"
  shows "delivers 1 c (feed_group c k r)"
proof -
  let ?f = "g_frame r"
  let ?rest = "\<lambda>c g. let g = extend_group g r; c = c\<lparr>pending := AList.update k g (pending c)\<rparr> in
      if phase ?f \<in> {3, 4} then finish c k (if phase ?f = 4 then Some ''invalidated'' else None)
      else if length (rows g) \<ge> max_records c then finish c k (Some ''record_capacity'')
      else Inr (c, [])"
  consider (dup) g where "phase ?f = 1" "map_of (pending c) k = Some g"
    | (new) "phase ?f = 1" "map_of (pending c) k = None"
    | (old) g where "phase ?f \<noteq> 1" "map_of (pending c) k = Some g"
    | (lost) "phase ?f \<noteq> 1" "map_of (pending c) k = None"
    by (cases "map_of (pending c) k") auto
  then show ?thesis
  proof cases
    case dup
    have "delivers (0 + length [g_obs r]) c (ebind (finish c k (Some ''duplicate_start''))
        (\<lambda>(c', out). Inr (c', out @ map Plain [g_obs r])))"
      using finish_delivers(2) [OF inv dup(2)] by (rule delivers_update) simp
    with dup show ?thesis by (simp add: feed_group_def Let_def)
  next
    case old
    have "delivers 1 c (?rest c g)"
      unfolding Let_def by (rule join_group_delivers [OF inv _ _ refl]) (use old in simp_all)
    with old show ?thesis by (simp add: feed_group_def Let_def)
  next
    case lost
    then show ?thesis using inv by (simp add: feed_group_def Let_def delivers_def)
  next
    case new
    let ?g = "\<lparr>first = g_cursor r, rows = [], issues = [], confirmed = False\<rparr>"
    let ?room = "if length (pending c) \<ge> capacity c
        then (case pending c of [] \<Rightarrow> Inl StopIteration | (k', _) # _ \<Rightarrow> finish c k' (Some ''capacity''))
        else Inr (c, [])"
    have room: "delivers 0 c ?room \<and> (\<forall>c' out. ?room = Inr (c', out) \<longrightarrow>
        length (pending c') < capacity c' \<and> map_of (pending c') k = None)"
    proof (cases "length (pending c) \<ge> capacity c")
      case True
      with inv obtain k' g' ps where p: "pending c = (k', g') # ps"
        by (cases "pending c") (auto simp: combiner_inv_def)
      then have m: "map_of (pending c) k' = Some g'" by simp
      have "k' \<notin> fst ` set ps" using inv p by (auto simp: combiner_inv_def)
      then have "AList.delete k' (pending c) = ps" using p by (simp add: delete_id)
      moreover have "map_of ps k = None" using new(2) p by (simp split: if_splits)
      moreover have "length ps < capacity c" using inv p by (simp add: combiner_inv_def)
      ultimately show ?thesis
        using True p finish_delivers [OF inv m, of "Some ''capacity''"] by auto
    qed (use inv new in auto)
    then obtain c1 o1 where c1: "?room = Inr (c1, o1)" "combiner_inv c1" "capacity c1 = capacity c"
      "max_records c1 = max_records c" "sent o1 + held c1 = held c"
      and k: "length (pending c1) < capacity c1" "map_of (pending c1) k = None"
      unfolding delivers_def by auto
    have "delivers 1 c1 (?rest c1 ?g)"
      unfolding Let_def by (rule join_group_delivers [OF c1(2) _ _ refl]) (use k in simp_all)
    moreover have "open_group c k (g_cursor r) =
        Inr (c1\<lparr>pending := AList.update k ?g (pending c1)\<rparr>, o1)"
      unfolding open_group_def c1(1) by simp
    ultimately show ?thesis
      using new c1
      by (auto simp: feed_group_def Let_def delivers_def update_conv update_Some_unfold
          split: if_splits)
  qed
qed

lemma feed_sequenced_delivers:
  assumes inv: "combiner_inv c"
  shows "delivers 1 c (feed_sequenced c src ring r)"
proof -
  let ?h = "d_hdr (g_rec r)"
  let ?p = "(src, ring, inst ?h, run_id ?h)"
  let ?clear = "if length (sequences c) \<ge> capacity c \<and> map_of (sequences c) ?p = None
             then flush c ''producer_capacity'' else Inr (c, [])"
  let ?next = "\<lambda>c. let c = c\<lparr>sequences := AList.update ?p (seq_no ?h) (sequences c)\<rparr> in
        if exchange (g_frame r) = [] \<or> exchange (g_frame r) = ''0'' then Inr (c, [Plain (g_obs r)])
        else feed_group c (src, ring, run_id ?h, owner_instance (g_frame r), exchange (g_frame r)) r"
  have "delivers (0 + 1) c (ebind ?clear (\<lambda>(c', o1). ebind (?next c') (\<lambda>(c'', o2). Inr (c'', o1 @ o2))))"
  proof (rule delivers_bind)
    show "delivers 0 c ?clear" using flush_delivers(2) [OF inv] inv by auto
  next
    fix c1 o1 assume c1: "?clear = Inr (c1, o1)" "combiner_inv c1"
    have "map_of (sequences c1) ?p \<noteq> None \<or> length (sequences c1) < capacity c1"
      using c1 flush_delivers(1) [OF inv] inv by (auto simp: combiner_inv_def split: if_splits)
    then have i: "combiner_inv (c1\<lparr>sequences := AList.update ?p (seq_no ?h) (sequences c1)\<rparr>)"
      using c1(2) inv_update_sequence by blast
    have h: "delivers n c1 X = delivers n (c1\<lparr>sequences := AList.update ?p (seq_no ?h) (sequences c1)\<rparr>) X"
      for n X by (simp add: delivers_def held_def)
    show "delivers 1 c1 (?next c1)"
      unfolding Let_def h using feed_group_delivers [OF i] delivers_plain [OF i] by auto
  qed
  moreover have "feed_sequenced c src ring r =
      ebind ?clear (\<lambda>(c', o1). ebind (?next c') (\<lambda>(c'', o2). Inr (c'', o1 @ o2)))"
    unfolding feed_sequenced_def Let_def by (rule arg_cong2 [where f = ebind]) (auto split: prod.splits)
  ultimately show ?thesis by simp
qed

lemma feed_bound_delivers:
  assumes inv: "combiner_inv c"
  shows "delivers 1 c (feed_bound c src ring r)"
proof -
  let ?h = "d_hdr (g_rec r)"
  let ?p = "(src, ring, inst ?h, run_id ?h)"
  let ?prev = "map_of (sequences c) ?p"
  show ?thesis
  proof (cases "case ?prev of Some p \<Rightarrow> seq_no ?h \<le> p | None \<Rightarrow> False")
    case True
    let ?c = "c\<lparr>pending := [], sequences := []\<rparr>"
    have "combiner_inv ?c" using inv by (simp add: combiner_inv_def)
    then have "combiner_inv (?c\<lparr>sequences := AList.update ?p (the ?prev) (sequences ?c)\<rparr>)"
      by (rule inv_update_sequence) (use inv in \<open>simp add: combiner_inv_def\<close>)
    then show ?thesis
      using True flush_delivers [OF inv, of "''duplicate_or_regressed_sequence''"]
      by (simp add: feed_bound_def Let_def delivers_def held_def)
  next
    case False
    let ?gap = "if (case ?prev of Some p \<Rightarrow> seq_no ?h \<noteq> p + 1 | None \<Rightarrow> False) \<or> output_failures ?h \<noteq> 0
        then flush c ''producer_gap'' else Inr (c, [])"
    have "delivers (0 + 1) c (ebind ?gap (\<lambda>(c', o1).
        ebind (feed_sequenced c' src ring r) (\<lambda>(c'', o2). Inr (c'', o1 @ o2))))"
      by (rule delivers_bind) (use flush_delivers(2) [OF inv] inv feed_sequenced_delivers in auto)
    with False show ?thesis by (simp add: feed_bound_def Let_def)
  qed
qed

lemma split_cursor_value_error: "split_cursor s = Inl x \<Longrightarrow> is_value_error x"
  by (auto simp: split_cursor_def err_simps dest: parse_int_value_error split: list.splits)

lemma advance_cases:
  assumes inv: "combiner_inv c"
  shows "(\<exists>x. advance c cur = Inl x \<and> is_value_error x) \<or> delivers 0 c (advance c cur)"
proof (cases "advance c cur")
  case (Inl x)
  have "flush c r \<noteq> Inl x" for r by (simp add: flush_delivers(1) [OF inv])
  with Inl have "is_value_error x"
    by (auto simp: advance_def err_simps dest: split_cursor_value_error
        split: prod.splits if_splits)
  with Inl show ?thesis by blast
next
  case (Inr res)
  obtain c' out where res: "res = (c', out)" by (cases res)
  from Inr res have "\<exists>d. d \<in> {(c, []), (c\<lparr>pending := [], sequences := []\<rparr>,
      map (\<lambda>(k, g). Combined (finish_group k g (Some ''cursor_discontinuity''))) (pending c))} \<and>
      c' = (fst d)\<lparr>cursor := Some cur\<rparr> \<and> out = snd d"
    by (auto simp: advance_def err_simps flush_delivers(1) [OF inv]
        split: prod.splits if_splits)
  then show ?thesis
    using Inr res inv flush_delivers(2) [OF inv, of "''cursor_discontinuity''"]
    unfolding flush_delivers(1) [OF inv] by (auto simp: delivers_def held_def)
qed

definition row_ok :: "observation \<Rightarrow> bool" where
  "row_ok ob \<longleftrightarrow> (event_type ob = ''agent.activity'' \<longrightarrow>
     ev_record (o_evidence ob) \<noteq> None \<and> (\<exists>raw. ev_raw (o_evidence ob) = Some (JObj raw)))"

lemma project_event_row_ok:
  assumes "project_event e = Inr ob"
  shows "row_ok ob"
  unfolding row_ok_def
proof
  assume "event_type ob = ''agent.activity''"
  then obtain d where d: "ev_record (o_evidence ob) = Some d"
    using activity_has_record [OF assms] by blast
  note r = project_event_record [OF assms d]
  have "\<exists>raw. raw_of e = JObj raw" using r(2) by (auto simp: try_record_def split: jval.splits)
  with r(3) d show "ev_record (o_evidence ob) \<noteq> None \<and> (\<exists>raw. ev_raw (o_evidence ob) = Some (JObj raw))"
    by auto
qed

lemma publish_row_delivers:
  assumes inv: "combiner_inv c" and ok: "row_ok ob"
  shows "delivers 1 c (publish_row c cur ob)"
proof -
  have fl: "delivers 1 c (ebind (flush c r) (\<lambda>(c', o2). Inr (c', o2 @ [Plain ob'])))" for r ob'
    using delivers_update [OF flush_delivers(2) [OF inv, of r], of "\<lambda>c. c" "[ob']"] by simp
  show ?thesis
  proof (cases "event_type ob \<noteq> ''agent.activity'' \<or> ev_group (o_evidence ob) = None")
    case True
    then show ?thesis using fl [of "''diagnostic_or_unqualified_record''" ob] delivers_plain [OF inv]
      by (auto simp: publish_row_def Let_def)
  next
    case False
    with ok obtain f d raw where e: "ev_group (o_evidence ob) = Some f" "ev_record (o_evidence ob) = Some d"
      "ev_raw (o_evidence ob) = Some (JObj raw)" "event_type ob = ''agent.activity''"
      by (auto simp: row_ok_def)
    show ?thesis
    proof (cases "frame_valid (source_id (o_evidence ob)) raw f d")
      case True
      then obtain src ring where "source_id (o_evidence ob) = JStr src" "jget raw ''ring'' = JInt ring"
        by (auto simp: frame_valid_def split: jval.splits)
      with e True show ?thesis using feed_bound_delivers [OF inv] by (simp add: publish_row_def)
    next
      case False
      with e show ?thesis using fl by (simp add: publish_row_def)
    qed
  qed
qed

lemma feed_row_cases:
  assumes inv: "combiner_inv c" and ok: "row_ok ob"
  shows "(\<exists>x. feed_row c (cur, ob) = Inl x \<and> advance c cur = Inl x \<and> is_value_error x) \<or>
         delivers 1 c (feed_row c (cur, ob))"
  using advance_cases [OF inv, of cur]
proof
  assume "delivers 0 c (advance c cur)"
  then have "delivers (0 + 1) c (ebind (advance c cur) (\<lambda>(c', o1).
     ebind (publish_row c' cur ob) (\<lambda>(c'', o2). Inr (c'', o1 @ o2))))"
    by (rule delivers_bind) (rule publish_row_delivers [OF _ ok])
  then show ?thesis by (simp add: feed_row_def)
qed (auto simp: feed_row_def)

lemma feed_rows_ok:
  assumes "combiner_inv c" "\<forall>(cur, ob) \<in> set rs. row_ok ob" "feed_rows c out rs = (c', res)"
  shows "combiner_inv c' \<and> capacity c' = capacity c \<and> max_records c' = max_records c \<and>
    (\<forall>o'. res = Inr o' \<longrightarrow> sent o' + held c' = sent out + held c + length rs) \<and>
    (\<forall>x. res = Inl x \<longrightarrow> is_value_error x)"
  using assms
proof (induction rs arbitrary: c out)
  case (Cons r rs)
  obtain cur ob where r: "r = (cur, ob)" by (cases r)
  from Cons.prems r have ok: "row_ok ob" by auto
  from feed_row_cases [OF Cons.prems(1) ok, of cur] show ?case
  proof
    assume "delivers 1 c (feed_row c (cur, ob))"
    then obtain c1 o1 where 1: "feed_row c (cur, ob) = Inr (c1, o1)" "combiner_inv c1"
      "capacity c1 = capacity c" "max_records c1 = max_records c" "sent o1 + held c1 = held c + 1"
      by (auto simp: delivers_def)
    with Cons.prems r have "feed_rows c1 (out @ o1) rs = (c', res)" by simp
    from Cons.IH [OF 1(2) _ this] Cons.prems(2) 1 show ?case by auto
  qed (use Cons.prems r in auto)
qed auto

section \<open>What a completed exchange has shown\<close>

definition json_rows :: "group \<Rightarrow> int \<Rightarrow> string \<Rightarrow> grow list" where
  "json_rows g sd k =
     filter (\<lambda>r. \<not> is_http (g_rec r) \<and> side (g_frame r) = sd \<and> d_kind (g_rec r) = k) (rows g)"

abbreviation "row_producer r \<equiv> (inst (d_hdr (g_rec r)), revision (d_hdr (g_rec r)))"
abbreviation "json_row r \<equiv> \<not> is_http (g_rec r)"
abbreviation "confirming r \<equiv> is_http (g_rec r) \<and> side (g_frame r) = 1 \<and> d_code (g_rec r) = 142"

definition last_opt :: "'a list \<Rightarrow> 'a option" where
  "last_opt xs = (if xs = [] then None else Some (last xs))"

lemma scan_rows_snoc: "scan_rows iss (rs @ [r]) = scan_row (scan_rows iss rs) r"
  by (simp add: scan_rows_def)

lemma scan_fields:
  "sd \<in> {1, 2} \<Longrightarrow> map_of (sc_fields (scan_rows iss rs)) (sd, k) =
     last_opt (filter (\<lambda>r. json_row r \<and> side (g_frame r) = sd \<and> d_kind (g_rec r) = k) rs)"
proof (induction rs rule: rev_induct)
  case Nil
  then show ?case by (simp add: scan_rows_def last_opt_def)
next
  case (snoc r rs)
  then show ?case by (auto simp: scan_rows_snoc scan_row_def Let_def update_conv last_opt_def)
qed

lemma scan_issues_Nil:
  "sc_issues (scan_rows iss rs) = [] \<Longrightarrow>
     iss = [] \<and> (\<forall>r \<in> set rs. json_row r \<longrightarrow> side (g_frame r) \<in> {1, 2}) \<and>
     (\<forall>sd \<in> {1, 2}. \<forall>k. length (filter (\<lambda>r. json_row r \<and> side (g_frame r) = sd \<and> d_kind (g_rec r) = k) rs) \<le> 1)"
proof (induction rs rule: rev_induct)
  case Nil
  then show ?case by (simp add: scan_rows_def)
next
  case (snoc r rs)
  let ?s = "scan_rows iss rs"
  have old: "sc_issues ?s = []"
    using snoc.prems by (auto simp: scan_rows_snoc scan_row_def Let_def split: if_splits)
  note IH = snoc.IH [OF old]
  show ?case
  proof (cases "json_row r")
    case True
    with snoc.prems have sd: "side (g_frame r) \<in> {1, 2}"
      and new: "map_of (sc_fields ?s) (side (g_frame r), d_kind (g_rec r)) = None"
      by (auto simp: scan_rows_snoc scan_row_def Let_def split: if_splits)
    from new have "filter (\<lambda>r'. json_row r' \<and> side (g_frame r') = side (g_frame r) \<and>
        d_kind (g_rec r') = d_kind (g_rec r)) rs = []"
      unfolding scan_fields [OF sd] last_opt_def by (simp split: if_splits)
    with IH sd True show ?thesis by auto
  qed (use IH in auto)
qed

lemma scan_calls:
  "set (sc_calls (scan_rows iss rs)) =
     (\<lambda>r. (side (g_frame r), inst (d_hdr (g_rec r)), revision (d_hdr (g_rec r)), invocation (g_frame r))) `
     {r \<in> set rs. json_row r \<and> side (g_frame r) \<in> {1, 2}}"
proof (induction rs rule: rev_induct)
  case Nil
  then show ?case by (simp add: scan_rows_def)
next
  case (snoc r rs)
  let ?t = "\<lambda>r. (side (g_frame r), inst (d_hdr (g_rec r)), revision (d_hdr (g_rec r)), invocation (g_frame r))"
  have "{r' \<in> set (rs @ [r]). json_row r' \<and> side (g_frame r') \<in> {1, 2}} =
      (if json_row r \<and> side (g_frame r) \<in> {1, 2} then {r} else {}) \<union>
      {r' \<in> set rs. json_row r' \<and> side (g_frame r') \<in> {1, 2}}" by auto
  moreover have "set (sc_calls (scan_rows iss (rs @ [r]))) =
      (if json_row r \<and> side (g_frame r) \<in> {1, 2} then {?t r} else {}) \<union> set (sc_calls (scan_rows iss rs))"
    by (auto simp: scan_rows_snoc scan_row_def Let_def)
  ultimately show ?case unfolding snoc.IH by (simp add: image_Un)
qed

lemma scan_confirmations:
  "confirmations (scan_rows iss rs) = map g_cursor (filter (\<lambda>r. confirming r) rs)"
  by (induction rs rule: rev_induct)
    (simp_all add: scan_rows_def [of _ "[]"] scan_rows_snoc scan_row_def Let_def)

lemma shape_issues_Nil:
  assumes "shape_issues s = []"
  shows "\<forall>sd \<in> {1, 2}. length (calls_of s sd) = 1"
    and "\<forall>sd \<in> {1, 2}. \<forall>k \<in> set json_kinds. map_of (sc_fields s) (sd, k) \<noteq> None"
    and "length (remdups (map (\<lambda>(sd, i, r, inv). (i, r)) (sc_calls s))) = 1"
    and "length (http_producers s) = 1" "length (confirmations s) = 1"
  using assms by (auto simp: shape_issues_def json_kinds_def split: if_splits)

lemma length_1_same: "length xs = 1 \<Longrightarrow> x \<in> set xs \<Longrightarrow> y \<in> set xs \<Longrightarrow> x = y"
  by (cases xs) auto

lemma one_call:
  assumes "length (calls_of (scan_rows iss rs) sd) = 1" "sd \<in> {1, 2}"
    and "r \<in> set rs" "json_row r" "side (g_frame r) = sd"
    and "r' \<in> set rs" "json_row r'" "side (g_frame r') = sd"
  shows "invocation (g_frame r) = invocation (g_frame r')"
proof -
  let ?t = "\<lambda>r. (side (g_frame r), inst (d_hdr (g_rec r)), revision (d_hdr (g_rec r)), invocation (g_frame r))"
  have "?t r \<in> set (calls_of (scan_rows iss rs) sd)" "?t r' \<in> set (calls_of (scan_rows iss rs) sd)"
    unfolding calls_of_def set_filter scan_calls using assms by auto
  with assms(1) have "?t r = ?t r'" by (rule length_1_same)
  then show ?thesis by simp
qed

lemma one_producer:
  assumes "length (remdups (map (\<lambda>(sd, i, v, inv). (i, v)) (sc_calls (scan_rows iss rs)))) = 1"
    and "\<forall>r \<in> set rs. json_row r \<longrightarrow> side (g_frame r) \<in> {1, 2}"
    and "r \<in> set rs" "json_row r" "r' \<in> set rs" "json_row r'"
  shows "row_producer r = row_producer r'"
proof -
  let ?f = "\<lambda>(sd, i, v, inv). (i, v)"
  have "row_producer q \<in> set (remdups (map ?f (sc_calls (scan_rows iss rs))))"
    if "q \<in> set rs" "json_row q" for q
  proof -
    have "?f (side (g_frame q), inst (d_hdr (g_rec q)), revision (d_hdr (g_rec q)), invocation (g_frame q))
        \<in> ?f ` set (sc_calls (scan_rows iss rs))"
      unfolding scan_calls using that assms(2) by (intro imageI) auto
    then show ?thesis by simp
  qed
  then show ?thesis using assms by (intro length_1_same [OF assms(1)]) auto
qed

section \<open>The properties of the combiner\<close>

lemma group_issues_Nil:
  assumes "group_issues g reason = []"
  shows "sc_issues (scan_rows (issues g @ (case reason of None \<Rightarrow> [] | Some x \<Rightarrow> [x])) (rows g)) = []"
    and "shape_issues (scan_rows (issues g @ (case reason of None \<Rightarrow> [] | Some x \<Rightarrow> [x])) (rows g)) = []"
    and "id_issues (scan_rows (issues g @ (case reason of None \<Rightarrow> [] | Some x \<Rightarrow> [x])) (rows g)) = []"
  using assms by (auto simp: group_issues_def Let_def split: prod.splits)

lemma observed_iff: "c_status (finish_group k g reason) = ''observed_exchange'' \<longleftrightarrow> group_issues g reason = []"
proof -
  have "sort (remdups xs) = [] \<longleftrightarrow> xs = []" for xs :: "string list"
    by (metis remdups_eq_nil_iff set_empty set_sort)
  then show ?thesis by (simp add: finish_group_def Let_def split: prod.splits)
qed

text \<open>
  C9. A combined activity is reported as an observed exchange only on full evidence: it was not
  closed early and no row raised an issue, each side has exactly one record of each JSON kind, all
  JSON records come from one program, those of one side from one invocation, exactly one client
  request event confirmed the exchange, and the request and reply identifiers are complete and equal.
\<close>

theorem observed_exchange_sound:
  assumes "c_status (finish_group key g reason) = ''observed_exchange''"
  shows "reason = None \<and> issues g = [] \<and>
    (\<forall>sd \<in> {1, 2}. \<forall>k \<in> set json_kinds. length (json_rows g sd k) = 1) \<and>
    (\<forall>r \<in> set (rows g). \<forall>r' \<in> set (rows g). json_row r \<longrightarrow> json_row r' \<longrightarrow>
       row_producer r = row_producer r' \<and>
       (side (g_frame r) = side (g_frame r') \<longrightarrow> invocation (g_frame r) = invocation (g_frame r'))) \<and>
    length (filter (\<lambda>r. confirming r) (rows g)) = 1 \<and>
    (\<forall>a \<in> set (json_rows g 1 ''message_id''). \<forall>b \<in> set (json_rows g 2 ''message_id'').
       \<forall>v w. a_message_id (o_activity (g_obs a)) = Some v \<longrightarrow>
             a_message_id (o_activity (g_obs b)) = Some w \<longrightarrow>
         sf_status v = ''complete'' \<and> sf_status w = ''complete'' \<and>
         sf_kind v = sf_kind w \<and> raw_hex v = raw_hex w)"
proof -
  from assms have Nil: "group_issues g reason = []" by (simp only: observed_iff)
  define s where "s = scan_rows (issues g @ (case reason of None \<Rightarrow> [] | Some x \<Rightarrow> [x])) (rows g)"
  note I = scan_issues_Nil [OF group_issues_Nil(1) [OF Nil]]
  note S = shape_issues_Nil [OF group_issues_Nil(2) [OF Nil, folded s_def]]
  have reason: "reason = None" "issues g = []" using I by (cases reason; simp)+
  have f: "map_of (sc_fields s) (sd, k) = last_opt (json_rows g sd k)" if "sd \<in> {1, 2}" for sd k
    unfolding s_def json_rows_def by (rule scan_fields [OF that])
  have le: "length (json_rows g sd k) \<le> 1" if "sd \<in> {1, 2}" for sd k
    using I that unfolding json_rows_def by blast
  have one: "length (json_rows g sd k) = 1" if "sd \<in> {1, 2}" "k \<in> set json_kinds" for sd k
    using S(2) le [OF that(1), of k] f [OF that(1), of k] that
    by (cases "json_rows g sd k") (auto simp: last_opt_def)
  have sides: "\<forall>r \<in> set (rows g). json_row r \<longrightarrow> side (g_frame r) \<in> {1, 2}" using I by blast
  have prod: "row_producer r = row_producer r'"
    if "r \<in> set (rows g)" "json_row r" "r' \<in> set (rows g)" "json_row r'" for r r'
    using S(3) sides that unfolding s_def by (rule one_producer)
  have inv: "invocation (g_frame r) = invocation (g_frame r')"
    if "r \<in> set (rows g)" "json_row r" "r' \<in> set (rows g)" "json_row r'"
      "side (g_frame r) = side (g_frame r')" for r r'
    by (rule one_call [of _ _ "side (g_frame r)"]) (use S(1) sides that in \<open>auto simp: s_def\<close>)
  have conf: "length (filter (\<lambda>r. confirming r) (rows g)) = 1"
    using S(5) unfolding s_def scan_confirmations by simp
  have ids: "sf_status v = ''complete'' \<and> sf_status w = ''complete'' \<and> sf_kind v = sf_kind w \<and> raw_hex v = raw_hex w"
    if "a \<in> set (json_rows g 1 ''message_id'')" "b \<in> set (json_rows g 2 ''message_id'')"
      "a_message_id (o_activity (g_obs a)) = Some v" "a_message_id (o_activity (g_obs b)) = Some w" for a b v w
  proof -
    have "json_rows g 1 ''message_id'' = [a]" "json_rows g 2 ''message_id'' = [b]"
      using that one [of 1 "''message_id''"] one [of 2 "''message_id''"]
      by (auto simp: json_kinds_def length_Suc_conv)
    then have "map_of (sc_fields s) (1, ''message_id'') = Some a" "map_of (sc_fields s) (2, ''message_id'') = Some b"
      by (simp_all add: f last_opt_def)
    then show ?thesis
      using group_issues_Nil(3) [OF Nil, folded s_def] that by (auto simp: id_issues_def split: if_splits)
  qed
  have "\<forall>sd \<in> {1, 2}. \<forall>k \<in> set json_kinds. length (json_rows g sd k) = 1"
    by (intro ballI) (rule one)
  moreover have "\<forall>r \<in> set (rows g). \<forall>r' \<in> set (rows g). json_row r \<longrightarrow> json_row r' \<longrightarrow>
       row_producer r = row_producer r' \<and>
       (side (g_frame r) = side (g_frame r') \<longrightarrow> invocation (g_frame r) = invocation (g_frame r'))"
    by (intro ballI impI conjI prod inv)
  moreover have "\<forall>a \<in> set (json_rows g 1 ''message_id''). \<forall>b \<in> set (json_rows g 2 ''message_id'').
       \<forall>v w. a_message_id (o_activity (g_obs a)) = Some v \<longrightarrow>
             a_message_id (o_activity (g_obs b)) = Some w \<longrightarrow>
         sf_status v = ''complete'' \<and> sf_status w = ''complete'' \<and>
         sf_kind v = sf_kind w \<and> raw_hex v = raw_hex w"
    by (intro ballI allI impI) (rule ids)
  ultimately show ?thesis using reason conf by (intro conjI)
qed

definition sample_hdr :: "int \<Rightarrow> hdr" where
  "sample_hdr n = \<lparr>magic = 0, abi = 1, inst = 5, revision = 6, run_id = 7, monotonic_ns = 100 + n, seq_no = n,
                  output_failures = 0\<rparr>"

definition sample_text :: "int \<Rightarrow> int \<Rightarrow> string option \<Rightarrow> value_event" where
  "sample_text n aux kind =
     \<lparr>v_rec = \<lparr>v_hdr = sample_hdr n, v_status = 1, v_aux = aux, original_length = 1, copied_length = 1,
               v_flags = 0, v_reads = 1, v_source_bytes = 1\<rparr>,
      value_hex = ''61'', v_status_name = ''complete'', v_kind_name = kind, representation = ''raw''\<rparr>"

definition sample_reply :: "int \<Rightarrow> reply_event" where
  "sample_reply n =
     \<lparr>r_hdr = sample_hdr n, r_flags = 0, r_reads = 1, r_source_bytes = 1, r_status = 1, result_present = 1,
      error_present = 0, code_state = 0, error_code = 0, tool_error_state = 7, tool_error = 0,
      reserved0 = 0, reserved1 = 0\<rparr>"

definition sample_response :: "int \<Rightarrow> int \<Rightarrow> int \<Rightarrow> int \<Rightarrow> response_event" where
  "sample_response n cd st dn =
     \<lparr>p_hdr = sample_hdr n, code = cd, presence = 0, p_flags = 0, p_reads = 1, p_source_bytes = 1,
      http_status_state = st, http_status = (if st = 1 then 200 else 0), completion_state = dn,
      transfer_complete = dn, reserved = 0, client_tls = None\<rparr>"

definition sample_row :: "int \<Rightarrow> string \<Rightarrow> int \<Rightarrow> decoded \<Rightarrow> grow" where
  "sample_row sd iv ph d =
     \<lparr>g_cursor = iv,
      g_obs = (initial_observation [])\<lparr>event_type := ''agent.activity'', o_activity := fst (fields_of d),
                 reported_outcome := snd (fields_of d)\<rparr>,
      g_frame = \<lparr>owner_instance = ''5'', exchange = ''1'', f_status = 1, phase = ph, side = sd, invocation = iv\<rparr>,
      g_rec = d, g_raw = []\<rparr>"

definition sample_side :: "int \<Rightarrow> string \<Rightarrow> grow list" where
  "sample_side sd iv =
     [sample_row sd iv 2 (Method_Rec (sample_text 1 0 None)),
      sample_row sd iv 2 (Target_Rec (sample_text 2 1 (Some ''tool_name''))),
      sample_row sd iv 2 (Id_Rec (sample_text 3 1 (Some ''string''))),
      sample_row sd iv 2 (Reply_Rec (sample_reply 4))]"

definition sample_group :: group where
  "sample_group =
     \<lparr>first = ''j:1'',
      rows = sample_side 1 ''1'' @ [sample_row 1 ''8'' 2 (Response_Rec (sample_response 8 142 0 0))] @
             sample_side 2 ''2'' @ [sample_row 1 ''9'' 2 (Response_Rec (sample_response 9 144 1 0)),
                                   sample_row 1 ''10'' 3 (Response_Rec (sample_response 10 29 0 1))],
      issues = [], confirmed = True\<rparr>"

theorem observed_exchange_sound_witness:
  "c_status (finish_group (''tmm'', 0, 7, ''5'', ''1'') sample_group None) = ''observed_exchange'' \<and>
   length (json_rows sample_group 2 ''reply'') = 1"
proof -
  have "group_issues sample_group None = []" by code_simp
  then have ok: "c_status (finish_group (''tmm'', 0, 7, ''5'', ''1'') sample_group None) = ''observed_exchange''"
    by (simp only: observed_iff)
  moreover have "''reply'' \<in> set json_kinds" by (simp add: json_kinds_def)
  ultimately show ?thesis using observed_exchange_sound [OF ok] by blast
qed



end
