(* ===== verification/Stream_Journal.thy ===== *)
theory Stream_Journal
  imports Value_Decoders Sha256
begin

text \<open>
  \<^verbatim>\<open>env/ai-traffic/stream_collector.py\<close>: the collector's bounded event journal, its acknowledged
  input and its replay. The SQLite database is a record of its two tables and of the
  \<^verbatim>\<open>AUTOINCREMENT\<close> counter; a transaction works on a copy and either replaces the database or
  leaves it. Documents are stored as JSON text that is read back by \<^verbatim>\<open>json.loads\<close>; the model
  stores the document. What the process draws from outside is an argument: the random epoch of
  \<^verbatim>\<open>uuid4\<close> and whether the page limit or the disk makes the writes of a transaction fail (\<open>full\<close>), which
  one of them does not matter, since the transaction is rolled back.
\<close>

section \<open>Frames\<close>

definition MAX_FRAME :: nat where
  "MAX_FRAME = 8192"

definition canonical :: "jval \<Rightarrow> string" where
  "canonical v = dumps v"

text \<open>\<^verbatim>\<open>int(value)\<close> of a JSON value, and the ring index with its text (a Boolean is an integer).\<close>

fun jint :: "jval \<Rightarrow> int result" where
  "jint (JStr s) = parse_int s"
| "jint (JInt i) = Inr i"
| "jint (JBool b) = Inr (if b then 1 else 0)"
| "jint _ = Inl (TypeError ''int() argument'')"

fun ring_index :: "jval \<Rightarrow> (int \<times> string) option" where
  "ring_index (JInt i) = Some (i, str_int i)"
| "ring_index (JBool b) = Some (if b then (1, ''True'') else (0, ''False''))"
| "ring_index _ = None"

definition fingerprint_of :: "jobj \<Rightarrow> string" where
  "fingerprint_of raw = sha256_hex (canonical (JObj raw))"

definition strip_token :: "jobj \<Rightarrow> jobj" where
  "strip_token frame = filter (\<lambda>kv. fst kv \<noteq> ''token'') frame"

text \<open>The decoded method record as the document stored beside the raw frame.\<close>

definition method_document :: "value_event \<Rightarrow> jobj" where
  "method_document e =
     (let r = v_rec e; h = v_hdr r in
      [(''magic'', JInt (magic h)), (''abi'', JInt (abi h)), (''instance'', JStr (str_int (inst h))),
       (''revision'', JStr (str_int (revision h))), (''run'', JStr (str_int (run_id h))),
       (''monotonic_ns'', JStr (str_int (monotonic_ns h))), (''sequence'', JStr (str_int (seq_no h))),
       (''output_failures'', JStr (str_int (output_failures h))), (''status'', JInt (v_status r)),
       (''getter_result'', JInt (v_aux r)), (''original_length'', JInt (original_length r)),
       (''copied_length'', JInt (copied_length r)), (''flags'', JInt (v_flags r)),
       (''reads'', JInt (v_reads r)), (''source_bytes'', JInt (v_source_bytes r)),
       (''value_hex'', JStr (value_hex e)), (''status_name'', JStr (v_status_name e)),
       (''representation'', JStr (representation e))])"

fun exn_text :: "exn \<Rightarrow> string" where
  "exn_text (ValueError m) = m"
| "exn_text _ = []"

definition decoded_entry :: "bytes \<Rightarrow> jobj" where
  "decoded_entry payload =
     (case method_decode payload of
        Inr e \<Rightarrow> [(''decoded'', JObj [(''schema'', JStr ''method/v1''),
                   (''binding'', JStr ''not_verified_by_collector''), (''record'', JObj (method_document e))])]
      | Inl x \<Rightarrow> [(''decode_error'', JStr (exn_text x))])"

section \<open>The database\<close>

datatype sval = Text string | Progress int string

record event_row =
  row_id :: nat
  event_key :: string
  fingerprint :: string
  body :: jobj

record jdb =
  events :: "event_row list"
  state :: "string \<rightharpoonup> sval"
  next_id :: nat

record journal =
  db :: jdb
  retain :: nat
  source :: "string option"
  source_frame :: jobj

definition get :: "jdb \<Rightarrow> string \<Rightarrow> sval option" where
  "get d key = state d key"

definition put_state :: "jdb \<Rightarrow> string \<Rightarrow> sval \<Rightarrow> jdb" where
  "put_state d key v = d\<lparr>state := (state d)(key \<mapsto> v)\<rparr>"

text \<open>\<^verbatim>\<open>SELECT id FROM events ORDER BY id DESC LIMIT n\<close> and the deletion of all other rows.\<close>

definition newest_ids :: "nat \<Rightarrow> event_row list \<Rightarrow> nat list" where
  "newest_ids n evs = take n (rev (sort (map row_id evs)))"

definition trim :: "nat \<Rightarrow> event_row list \<Rightarrow> event_row list" where
  "trim n evs = filter (\<lambda>r. row_id r \<in> set (newest_ids n evs)) evs"

definition insert_event :: "bool \<Rightarrow> nat \<Rightarrow> string \<Rightarrow> string \<Rightarrow> jobj \<Rightarrow> jdb \<Rightarrow> jdb result" where
  "insert_event full rt key fp bd d =
     (case find (\<lambda>r. event_key r = key) (events d) of
        Some r \<Rightarrow>
          if fingerprint r \<noteq> fp then Inl (ValueError ''conflicting bytes for an existing event identity'')
          else Inr d
      | None \<Rightarrow>
          let d = d\<lparr>events := trim (rt - 1) (events d)\<rparr> in
          if full then Inl (SqliteError ''database or disk is full'')
          else Inr (d\<lparr>events := events d @ [\<lparr>row_id = next_id d, event_key = key, fingerprint = fp,
                                            body = bd\<rparr>],
                      next_id := next_id d + 1\<rparr>))"

definition init_journal :: "string \<Rightarrow> int \<Rightarrow> int \<Rightarrow> jdb \<Rightarrow> journal result" where
  "init_journal uuid rt max_pages d =
     (if rt < 2 \<or> max_pages < 32 then Inl (ValueError ''retain >= 2 and max_pages >= 32 required'')
      else Inr \<lparr>db = (case state d ''journal_id'' of
                        None \<Rightarrow> put_state d ''journal_id'' (Text uuid) | Some _ \<Rightarrow> d),
                retain = nat rt, source = None, source_frame = []\<rparr>)"

section \<open>Accepting a frame\<close>

definition progress_key :: "string \<Rightarrow> bool" where
  "progress_key k \<longleftrightarrow> is_prefix ''ring:'' k \<or> is_prefix ''drops:'' k"

text \<open>A source frame: a new source forgets the ring checkpoints and starts a new epoch.\<close>

definition source_txn :: "bool \<Rightarrow> string \<Rightarrow> nat \<Rightarrow> jobj \<Rightarrow> jdb \<Rightarrow> jdb result" where
  "source_txn full epoch rt raw d =
     (let src = fingerprint_of raw in
      if get d ''source_id'' = Some (Text src) then Inr d
      else let d = d\<lparr>state := (\<lambda>k. if progress_key k then None else state d k)\<rparr>;
               d = put_state d ''source_id'' (Text src);
               d = put_state d ''source_epoch'' (Text epoch)
           in if full then Inl (SqliteError ''database or disk is full'')
              else insert_event full rt (''source:'' @ epoch) src
                [(''type'', JStr ''source_boundary''), (''source_id'', JStr epoch), (''source'', JObj raw),
                 (''history'', JStr ''unknown_before_first_collection'')] d)"

record prepared =
  pr_kind :: string
  pr_progress_key :: string
  pr_begin :: int
  pr_position :: int
  pr_key :: string
  pr_fingerprint :: string
  pr_body :: jobj

text \<open>What \<^verbatim>\<open>accept\<close> computes of a ring frame before its transaction.\<close>

definition ring_interval :: "string \<Rightarrow> jobj \<Rightarrow> (int \<times> int) result" where
  "ring_interval kind raw =
     (if kind = ''ring_health''
      then ebind (jitem raw ''drops'') (\<lambda>v. ebind (jint v) (\<lambda>n.
             if n < 0 then Inl (ValueError ''invalid drop count'') else Inr (0, n)))
      else ebind (jitem raw ''begin'') (\<lambda>v. ebind (jint v) (\<lambda>b.
           ebind (jitem raw ''end'') (\<lambda>w. ebind (jint w) (\<lambda>e.
             if b < 0 \<or> e \<le> b then Inl (ValueError ''invalid ring interval'') else Inr (b, e))))))"

definition record_entry :: "string \<Rightarrow> jobj \<Rightarrow> jobj result" where
  "record_entry kind raw =
     (if kind \<noteq> ''record'' then Inr []
      else ebind (jitem raw ''data'') (\<lambda>v. case v of
        JStr s \<Rightarrow> ebind (from_hex s) (\<lambda>payload.
          if length payload > 512 then Inl (ValueError ''oversize record'')
          else ebind (jitem raw ''schema'') (\<lambda>sch.
            if sch = JInt 100 \<and> length payload = 144 \<and> take 4 payload = [0x54, 0x45, 0x4D, 0x4A]
            then Inr (decoded_entry payload) else Inr []))
      | _ \<Rightarrow> Inl (TypeError ''fromhex() argument must be str'')))"

definition prepare :: "string option \<Rightarrow> jobj \<Rightarrow> string \<Rightarrow> jobj \<Rightarrow> prepared result" where
  "prepare src src_frame kind raw =
     (case src of
        None \<Rightarrow> Inl (ValueError ''record without a registered source or unknown frame kind'')
      | Some epoch \<Rightarrow>
          if epoch = [] \<or> kind \<notin> {''record'', ''discard'', ''ring_health''}
          then Inl (ValueError ''record without a registered source or unknown frame kind'')
          else ebind (jitem raw ''ring'') (\<lambda>rv. case ring_index rv of
            None \<Rightarrow> Inl (ValueError ''invalid ring index'')
          | Some (ring, ring_text) \<Rightarrow>
              if \<not> (0 \<le> ring \<and> ring < 16) then Inl (ValueError ''invalid ring index'')
              else ebind (ring_interval kind raw) (\<lambda>(begin', position).
                let health = (kind = ''ring_health'');
                    raw = (if health then AList.delete ''drop_bytes'' raw else raw);
                    key = (if health then epoch @ '':drops:'' @ ring_text @ '':'' @ str_int position
                           else epoch @ '':record:'' @ ring_text @ '':'' @ str_int begin')
                in ebind (record_entry kind raw) (\<lambda>extra.
                   Inr \<lparr>pr_kind = kind,
                        pr_progress_key = (if health then ''drops:'' else ''ring:'') @ ring_text,
                        pr_begin = begin', pr_position = position, pr_key = key,
                        pr_fingerprint = fingerprint_of raw,
                        pr_body = [(''type'', JStr kind), (''source_id'', JStr epoch),
                          (''source'', JObj src_frame), (''event_id'', JStr key), (''raw'', JObj raw),
                          (''schema'', JStr ''application_stream/v1'')] @ extra\<rparr>))))"

definition health_body :: "prepared \<Rightarrow> int option \<Rightarrow> jobj" where
  "health_body p previous =
     (if pr_kind p = ''ring_health''
      then AList.update ''dropped_since_checkpoint''
             (case previous of None \<Rightarrow> JNull | Some q \<Rightarrow> JInt (pr_position p - q))
             (AList.update ''type'' (JStr (if pr_position p = 0 then ''ring_health'' else ''observation_gap''))
                (pr_body p))
      else pr_body p)"

definition frame_txn :: "bool \<Rightarrow> nat \<Rightarrow> prepared \<Rightarrow> jdb \<Rightarrow> jdb result" where
  "frame_txn full rt p d =
     (let store = (\<lambda>previous.
            ebind (insert_event full rt (pr_key p) (pr_fingerprint p) (health_body p previous) d) (\<lambda>d.
              if full then Inl (SqliteError ''database or disk is full'')
              else Inr (put_state d (pr_progress_key p) (Progress (pr_position p) (pr_fingerprint p)))))
      in case get d (pr_progress_key p) of
           Some (Progress q fp) \<Rightarrow>
             if pr_position p < q then Inl (ValueError ''source position regressed'')
             else if pr_position p = q
             then (if fp \<noteq> pr_fingerprint p then Inl (ValueError ''conflicting replay at checkpoint'')
                   else Inr d)
             else if pr_kind p \<noteq> ''ring_health'' \<and> pr_begin p \<noteq> q
             then Inl (ValueError ''unaccounted source position gap'')
             else store (Some q)
         | Some (Text _) \<Rightarrow> Inl (TypeError ''string indices must be integers'')
         | None \<Rightarrow> store None)"

text \<open>\<^verbatim>\<open>accept\<close>: the journal afterwards and the exception, if any; a failed transaction is rolled back.\<close>

definition accept :: "bool \<Rightarrow> string \<Rightarrow> journal \<Rightarrow> jobj \<Rightarrow> journal \<times> exn option" where
  "accept full epoch j frame =
     (let raw = strip_token frame in
      if length (canonical (JObj raw)) > MAX_FRAME then (j, Some (ValueError ''oversize reader frame''))
      else case map_of raw ''kind'' of
        None \<Rightarrow> (j, Some (KeyError ''kind''))
      | Some k \<Rightarrow>
          if k = JStr ''source''
          then (case source_txn full epoch (retain j) raw (db j) of
                  Inl x \<Rightarrow> (j, Some x)
                | Inr d \<Rightarrow> (j\<lparr>db := d,
                     source := (case get d ''source_epoch'' of Some (Text e) \<Rightarrow> Some e | _ \<Rightarrow> None),
                     source_frame := raw\<rparr>, None))
          else (case prepare (source j) (source_frame j) (case k of JStr s \<Rightarrow> s | _ \<Rightarrow> []) raw of
                  Inl x \<Rightarrow> (j, Some x)
                | Inr p \<Rightarrow>
                    (case frame_txn full (retain j) p (db j) of
                       Inl x \<Rightarrow> (j, Some x)
                     | Inr d \<Rightarrow> (j\<lparr>db := d\<rparr>, None))))"

section \<open>Collecting\<close>

text \<open>
  The loop of \<^verbatim>\<open>collect\<close> over the lines of the reader: a line is a whole frame of bounded length, it is parsed (\<open>loads\<close>
  is \<^verbatim>\<open>json.loads\<close>), accepted and then acknowledged with its token. Each line comes with the random epoch and the state of
  the disk. An empty line is the end of the input. The result is the journal, the acknowledgements written, and the
  exception that ended the loop.
\<close>

type_synonym reader_line = "string \<times> bool \<times> string"

definition collect_line :: "(string \<Rightarrow> jval result) \<Rightarrow> journal \<Rightarrow> reader_line \<Rightarrow> journal \<times> string result" where
  "collect_line loads j l =
     (case l of (line, full, epoch) \<Rightarrow>
        if length line > MAX_FRAME \<or> line = [] \<or> last line \<noteq> CHR 0x0A
        then (j, Inl (ValueError ''incomplete or oversize reader frame; no ACK''))
        else
          (case loads line of
             Inl x \<Rightarrow> (j, Inl x)
           | Inr (JObj frame) \<Rightarrow>
               (case accept full epoch j frame of
                  (j', Some x) \<Rightarrow> (j', Inl x)
                | (j', None) \<Rightarrow>
                    (case map_of frame ''token'' of
                       None \<Rightarrow> (j', Inl (KeyError ''token''))
                     | Some (JStr t) \<Rightarrow> (j', Inr (''ACK '' @ t @ [CHR 0x0A]))
                     | Some _ \<Rightarrow> (j', Inl (TypeError ''can only concatenate str''))))
           | Inr _ \<Rightarrow> (j, Inl (AttributeError ''items''))))"

fun collect_loop ::
  "(string \<Rightarrow> jval result) \<Rightarrow> journal \<Rightarrow> reader_line list \<Rightarrow> string list \<Rightarrow> journal \<times> string list \<times> exn option"
where
  "collect_loop loads j [] acks = (j, acks, None)"
| "collect_loop loads j (l # ls) acks =
     (if fst l = [] then (j, acks, None)
      else
        (case collect_line loads j l of
           (j', Inl x) \<Rightarrow> (j', acks, Some x)
         | (j', Inr ack) \<Rightarrow> collect_loop loads j' ls (acks @ [ack])))"

text \<open>A run of the collector on a journal file: the file is opened, then the loop runs; what was committed stays in the file.\<close>

type_synonym run_input = "string \<times> int \<times> int \<times> reader_line list"

definition collect_run :: "(string \<Rightarrow> jval result) \<Rightarrow> jdb \<Rightarrow> run_input \<Rightarrow> jdb" where
  "collect_run loads d r =
     (case r of (uuid, rt, max_pages, ls) \<Rightarrow>
        (case init_journal uuid rt max_pages d of
           Inl _ \<Rightarrow> d
         | Inr j \<Rightarrow> db (fst (collect_loop loads j ls []))))"

section \<open>Replay\<close>

definition cursor_text :: "string \<Rightarrow> int \<Rightarrow> string" where
  "cursor_text identity n = identity @ '':'' @ str_int n"

definition oldest_id :: "jdb \<Rightarrow> int" where
  "oldest_id d = (if events d = [] then 1 else int (Min (set (map row_id (events d)))))"

definition newest_id :: "jdb \<Rightarrow> int" where
  "newest_id d = (if events d = [] then 0 else int (Max (set (map row_id (events d)))))"

text \<open>\<^verbatim>\<open>SELECT id, body FROM events WHERE id > ? ORDER BY id LIMIT ?\<close>\<close>

definition fetch :: "jdb \<Rightarrow> int \<Rightarrow> nat \<Rightarrow> event_row list" where
  "fetch d after n = take n (sort_key row_id (filter (\<lambda>r. int (row_id r) > after) (events d)))"

definition replay_page :: "string \<Rightarrow> jobj \<Rightarrow> jdb \<Rightarrow> int \<Rightarrow> nat \<Rightarrow> jobj" where
  "replay_page identity boundary d after n =
     (let rows = fetch d after n in
      boundary @ [(''events'', JArr (map (\<lambda>r. JObj [(''cursor'', JStr (cursor_text identity (int (row_id r)))),
                                                     (''event'', JObj (body r))]) rows)),
       (''next_cursor'', JStr (cursor_text identity (if rows = [] then after else int (row_id (last rows)))))])"

definition split_first_colon :: "string \<Rightarrow> (string \<times> string) result" where
  "split_first_colon s =
     (case split_max 1 CHR '':'' s of [a, b] \<Rightarrow> Inr (a, b) | _ \<Rightarrow> Inl (ValueError ''not enough values to unpack''))"

definition replay :: "jdb \<Rightarrow> string option \<Rightarrow> int \<Rightarrow> (int \<times> jobj) result" where
  "replay d cur limit =
     (if \<not> (1 \<le> limit \<and> limit \<le> 128) then Inl (ValueError ''limit must be 1..128'')
      else case get d ''journal_id'' of
        Some (Text identity) \<Rightarrow>
          let oldest = oldest_id d; newest = newest_id d;
              boundary = [(''journal_id'', JStr identity),
                (''oldest_cursor'', JStr (cursor_text identity (oldest - 1))),
                (''latest_cursor'', JStr (cursor_text identity newest))]
          in (case cur of
                None \<Rightarrow> Inr (200, replay_page identity
                    (boundary @ [(''start'', JStr ''oldest_retained; earlier history not requested'')])
                    d (oldest - 1) (nat limit))
              | Some c \<Rightarrow>
                  ebind (split_first_colon c) (\<lambda>(jid, offset).
                  if jid \<noteq> identity then Inr (409, boundary @ [(''error'', JStr ''wrong_journal'')])
                  else ebind (parse_int offset) (\<lambda>after.
                    if after < oldest - 1
                    then Inr (409, boundary @ [(''error'', JStr ''retention_gap''), (''requested_cursor'', JStr c)])
                    else if after > newest then Inr (409, boundary @ [(''error'', JStr ''future_cursor'')])
                    else Inr (200, replay_page identity boundary d after (nat limit)))))
      | _ \<Rightarrow> Inl (TypeError ''NoneType object is not subscriptable''))"

section \<open>The journal invariant\<close>

text \<open>
  Row numbers are consecutive up to the counter, so that a retained range has no holes; event keys
  are unique; at most \<open>retain\<close> rows are kept, and an empty journal has never held a row.
\<close>

definition db_inv :: "nat \<Rightarrow> jdb \<Rightarrow> bool" where
  "db_inv rt d \<longleftrightarrow>
     map row_id (events d) = [next_id d - length (events d) ..< next_id d] \<and>
     length (events d) < next_id d \<and> distinct (map event_key (events d)) \<and>
     length (events d) \<le> rt \<and> (events d = [] \<longrightarrow> next_id d = 1)"

definition journal_inv :: "journal \<Rightarrow> bool" where
  "journal_inv j \<longleftrightarrow> 2 \<le> retain j \<and> db_inv (retain j) (db j)"

lemma filter_take_rev:
  assumes "distinct (map f xs)"
  shows "filter (\<lambda>r. f r \<in> set (take n (rev (map f xs)))) xs = drop (length xs - n) xs"
proof -
  let ?k = "length xs - n"
  have s: "set (take n (rev (map f xs))) = f ` set (drop ?k xs)"
    by (simp add: take_rev drop_map)
  have split: "xs = take ?k xs @ drop ?k xs" by simp
  have disj: "f ` set (take ?k xs) \<inter> f ` set (drop ?k xs) = {}"
    using assms by (metis distinct_append list.set_map map_append split)
  have 1: "filter (\<lambda>r. f r \<in> f ` set (drop ?k xs)) (take ?k xs) = []"
    using disj by (auto simp: filter_empty_conv simp del: take_all drop_all)
  have 2: "filter (\<lambda>r. f r \<in> f ` set (drop ?k xs)) (drop ?k xs) = drop ?k xs"
    by (auto simp: filter_id_conv)
  show ?thesis unfolding s by (subst split, subst filter_append) (simp only: 1 2 append_Nil)
qed

lemma trim_drop:
  assumes "db_inv rt d"
  shows "trim n (events d) = drop (length (events d) - n) (events d)"
proof -
  have "map row_id (events d) = [next_id d - length (events d) ..< next_id d]"
    using assms by (simp add: db_inv_def)
  then have "distinct (map row_id (events d))" "sorted (map row_id (events d))" by simp_all
  then show ?thesis
    unfolding trim_def newest_ids_def by (simp only: sorted_sort_id filter_take_rev)
qed

lemma insert_event_inv:
  assumes inv: "db_inv rt d" and rt: "2 \<le> rt" and ins: "insert_event full rt key fp bd d = Inr d'"
  shows "db_inv rt d'" and "state d' = state d"
    and "d' = d \<or> (next_id d' = next_id d + 1 \<and> last (events d') =
           \<lparr>row_id = next_id d, event_key = key, fingerprint = fp, body = bd\<rparr> \<and>
         butlast (events d') = drop (length (events d) - (rt - 1)) (events d))"
    and "\<exists>r \<in> set (events d'). event_key r = key \<and> fingerprint r = fp"
proof -
  have "db_inv rt d' \<and> state d' = state d \<and>
      (d' = d \<or> (next_id d' = next_id d + 1 \<and> last (events d') =
           \<lparr>row_id = next_id d, event_key = key, fingerprint = fp, body = bd\<rparr> \<and>
         butlast (events d') = drop (length (events d) - (rt - 1)) (events d))) \<and>
      (\<exists>r \<in> set (events d'). event_key r = key \<and> fingerprint r = fp)"
  proof (cases "find (\<lambda>r. event_key r = key) (events d)")
    case (Some r)
    with ins have "d' = d" "fingerprint r = fp" by (auto simp: insert_event_def split: if_splits)
    moreover have "r \<in> set (events d)" "event_key r = key"
      using Some by (auto simp: find_Some_iff)
    ultimately show ?thesis using inv by auto
  next
    case None
    let ?k = "length (events d) - (rt - 1)"
    let ?row = "\<lparr>row_id = next_id d, event_key = key, fingerprint = fp, body = bd\<rparr>"
    from None have fresh: "key \<notin> event_key ` set (events d)" by (auto simp: find_None_iff)
    from None ins have d': "d' = d\<lparr>events := drop ?k (events d) @ [?row], next_id := next_id d + 1\<rparr>"
      by (auto simp: insert_event_def Let_def trim_drop [OF inv] split: if_splits)
    have ids: "map row_id (events d) = [next_id d - length (events d) ..< next_id d]"
      and len: "length (events d) < next_id d" "length (events d) \<le> rt"
      and dist: "distinct (map event_key (events d))" using inv by (auto simp: db_inv_def)
    have "map row_id (drop ?k (events d)) = [next_id d - length (events d) + ?k ..< next_id d]"
      by (simp add: drop_map [symmetric] ids)
    moreover have "next_id d - length (events d) + ?k = next_id d - length (drop ?k (events d))"
      using len by simp
    ultimately have "map row_id (events d') = [next_id d' - length (events d') ..< next_id d']"
      using len by (simp add: d' Suc_diff_le)
    moreover have "distinct (map event_key (events d'))"
      using dist fresh by (auto simp: d' drop_map [symmetric] dest: in_set_dropD)
    moreover have "length (events d') \<le> rt" "length (events d') < next_id d'"
      using len rt by (auto simp: d')
    ultimately show ?thesis by (auto simp: db_inv_def d')
  qed
  then show "db_inv rt d'" "state d' = state d"
    "d' = d \<or> (next_id d' = next_id d + 1 \<and> last (events d') =
           \<lparr>row_id = next_id d, event_key = key, fingerprint = fp, body = bd\<rparr> \<and>
         butlast (events d') = drop (length (events d) - (rt - 1)) (events d))"
    "\<exists>r \<in> set (events d'). event_key r = key \<and> fingerprint r = fp" by blast+
qed

lemma db_inv_state [simp]: "db_inv rt (d\<lparr>state := s\<rparr>) = db_inv rt d"
  by (simp add: db_inv_def)

lemma db_inv_put [simp]: "db_inv rt (put_state d k v) = db_inv rt d"
  by (simp add: put_state_def)

lemma source_txn_inv:
  "db_inv rt d \<Longrightarrow> 2 \<le> rt \<Longrightarrow> source_txn full epoch rt raw d = Inr d' \<Longrightarrow> db_inv rt d'"
  by (auto simp: source_txn_def Let_def split: if_splits elim: insert_event_inv(1) [rotated 2])

lemma frame_txnD:
  assumes "frame_txn full rt p d = Inr d'"
  obtains (replay) q where "get d (pr_progress_key p) = Some (Progress q (pr_fingerprint p))"
      "q = pr_position p" "d' = d"
  | (store) prev d1 where "insert_event full rt (pr_key p) (pr_fingerprint p) (health_body p prev) d = Inr d1"
      "d' = put_state d1 (pr_progress_key p) (Progress (pr_position p) (pr_fingerprint p))"
      "case get d (pr_progress_key p) of None \<Rightarrow> prev = None
       | Some (Progress q _) \<Rightarrow> prev = Some q \<and> q < pr_position p \<and>
            (pr_kind p \<noteq> ''ring_health'' \<longrightarrow> pr_begin p = q)
       | Some (Text _) \<Rightarrow> False"
  using assms
  by (auto simp: frame_txn_def Let_def err_simps split: option.splits sval.splits if_splits)

lemma frame_txn_inv:
  assumes "db_inv rt d" "2 \<le> rt" "frame_txn full rt p d = Inr d'"
  shows "db_inv rt d'"
  using assms(3)
  by (cases rule: frame_txnD) (use assms(1,2) in \<open>auto elim: insert_event_inv(1) [rotated 2]\<close>)

lemma accept_retain: "accept full epoch j frame = (j', x) \<Longrightarrow> retain j' = retain j"
  by (auto simp: accept_def Let_def split: if_splits option.splits sum.splits)

lemma accept_inv:
  assumes "journal_inv j" "accept full epoch j frame = (j', x)"
  shows "journal_inv j'"
proof -
  have rt: "2 \<le> retain j" "db_inv (retain j) (db j)" using assms(1) by (auto simp: journal_inv_def)
  have "db_inv (retain j) (db j')"
    using assms(2) rt
    by (auto simp: accept_def Let_def split: if_splits option.splits sum.splits
        elim: source_txn_inv frame_txn_inv)
  then show ?thesis using rt accept_retain [OF assms(2)] by (simp add: journal_inv_def)
qed

section \<open>Paging\<close>

text \<open>
  What a reader of pages relies on: a page holds the first rows behind the cursor, in order, and
  the cursor of its last row is where the next page starts. \<open>drain\<close> reads pages until one is empty.
\<close>

fun drain :: "(int \<Rightarrow> nat \<Rightarrow> 'row list) \<Rightarrow> ('row \<Rightarrow> int) \<Rightarrow> nat \<Rightarrow> nat \<Rightarrow> int \<Rightarrow> 'row list" where
  "drain page pos 0 n after = []"
| "drain page pos (Suc fuel) n after =
     (let rows = page after n in
      if rows = [] then [] else rows @ drain page pos fuel n (pos (last rows)))"

locale paged_log =
  fixes rows :: "'db \<Rightarrow> 'row list" and pos :: "'row \<Rightarrow> int"
    and page :: "'db \<Rightarrow> int \<Rightarrow> nat \<Rightarrow> 'row list" and ok :: "'db \<Rightarrow> bool"
  assumes ascending: "ok d \<Longrightarrow> sorted_wrt (<) (map pos (rows d))"
    and page_rows: "ok d \<Longrightarrow> page d a n = take n (filter (\<lambda>r. pos r > a) (rows d))"
begin

lemma behind_page:
  assumes "ok d" "page d a n \<noteq> []"
  shows "page d a n @ filter (\<lambda>r. pos r > pos (last (page d a n))) (rows d) =
         filter (\<lambda>r. pos r > a) (rows d)"
proof -
  let ?after = "filter (\<lambda>r. pos r > a) (rows d)"
  let ?p = "take n ?after"
  have p: "page d a n = ?p" using page_rows [OF assms(1)] .
  have ne: "?p \<noteq> []" using assms(2) p by simp
  have "sorted_wrt (<) (map pos ?after)"
    using ascending [OF assms(1)] by (simp add: sorted_wrt_map sorted_wrt_filter)
  then have ss: "sorted_wrt (<) (map pos (?p @ drop n ?after))" by simp
  have lt: "\<forall>x \<in> set (butlast ?p). pos x < pos (last ?p)" "\<forall>x \<in> set (drop n ?after). pos (last ?p) < pos x"
  proof -
    have eq: "?p @ drop n ?after = butlast ?p @ [last ?p] @ drop n ?after"
      using append_butlast_last_id [OF ne] by (metis append.assoc)
    from ss [unfolded eq] show "\<forall>x \<in> set (butlast ?p). pos x < pos (last ?p)"
      "\<forall>x \<in> set (drop n ?after). pos (last ?p) < pos x"
      by (auto simp: sorted_wrt_append)
  qed
  have la: "a < pos (last ?p)" using last_in_set [OF ne] by (auto dest: in_set_takeD)
  have "filter (\<lambda>r. pos r > pos (last ?p)) (rows d) = filter (\<lambda>r. pos r > pos (last ?p)) ?after"
    using la by (auto intro: filter_cong)
  also have "\<dots> = filter (\<lambda>r. pos r > pos (last ?p)) (butlast ?p @ [last ?p] @ drop n ?after)"
    using ne by (metis append.assoc append_butlast_last_id append_take_drop_id)
  also have "\<dots> = drop n ?after" using lt by (auto simp: filter_empty_conv filter_id_conv)
  finally show ?thesis by (simp add: p)
qed

lemma drain_all:
  assumes "ok d" "0 < n" "length (filter (\<lambda>r. pos r > a) (rows d)) \<le> fuel"
  shows "drain (page d) pos fuel n a = filter (\<lambda>r. pos r > a) (rows d)"
  using assms(3)
proof (induction fuel arbitrary: a)
  case 0
  then show ?case by simp
next
  case (Suc fuel)
  show ?case
  proof (cases "page d a n = []")
    case True
    then show ?thesis using page_rows [OF assms(1), of a n] assms(2) by simp
  next
    case False
    let ?l = "pos (last (page d a n))"
    have split: "page d a n @ filter (\<lambda>r. pos r > ?l) (rows d) = filter (\<lambda>r. pos r > a) (rows d)"
      using assms(1) False by (rule behind_page)
    then have "length (page d a n) + length (filter (\<lambda>r. pos r > ?l) (rows d)) \<le> Suc fuel"
      using Suc.prems by (metis length_append)
    then have "length (filter (\<lambda>r. pos r > ?l) (rows d)) \<le> fuel"
      using False by (cases "page d a n") auto
    from Suc.IH [OF this] split False show ?thesis by (simp add: Let_def)
  qed
qed

end

abbreviation "row_pos r \<equiv> int (row_id r)"

lemma strict_ids: "db_inv rt d \<Longrightarrow> sorted_wrt (<) (map row_id (events d))"
  by (simp add: db_inv_def strict_sorted_iff)

interpretation replay_log: paged_log events "\<lambda>r. row_pos r" fetch "\<lambda>d. \<exists>rt. db_inv rt d"
proof
  fix d a n assume "\<exists>rt. db_inv rt d"
  then have s: "sorted_wrt (<) (map row_id (events d))" using strict_ids by blast
  then show "sorted_wrt (<) (map (\<lambda>r. row_pos r) (events d))"
    by (simp add: sorted_wrt_map)
  have "sorted (map row_id (filter (\<lambda>r. row_pos r > a) (events d)))"
    using s by (simp add: sorted_filter strict_sorted_iff)
  then have "sort_key row_id (filter (\<lambda>r. row_pos r > a) (events d)) = filter (\<lambda>r. row_pos r > a) (events d)"
    by (rule sort_key_id_if_sorted)
  then show "fetch d a n = take n (filter (\<lambda>r. row_pos r > a) (events d))" by (simp add: fetch_def)
qed

text \<open>The oldest and the newest number, also of an empty journal.\<close>

lemma inv_bounds:
  assumes "db_inv rt d"
  shows "oldest_id d = int (next_id d - length (events d))" "newest_id d = int (next_id d) - 1"
proof -
  let ?lo = "next_id d - length (events d)"
  have len: "length (events d) < next_id d" and "map row_id (events d) = [?lo ..< next_id d]"
    using assms by (auto simp: db_inv_def)
  then have s: "set (map row_id (events d)) = {?lo ..< next_id d}" by simp
  have "oldest_id d = int ?lo \<and> newest_id d = int (next_id d) - 1"
  proof (cases "events d = []")
    case True
    then show ?thesis using assms by (simp add: oldest_id_def newest_id_def db_inv_def)
  next
    case False
    then have lt: "?lo < next_id d" using len by (simp add: Suc_le_eq)
    have "Min {?lo ..< next_id d} = ?lo" "Max {?lo ..< next_id d} = next_id d - 1"
      using lt by (auto intro!: Min_eqI Max_eqI)
    then show ?thesis using False s lt by (simp add: oldest_id_def newest_id_def)
  qed
  then show "oldest_id d = int ?lo" "newest_id d = int (next_id d) - 1" by blast+
qed

text \<open>With consecutive numbers a page is exactly the next range of numbers, and its end is the next cursor.\<close>

lemma fetch_ids:
  assumes inv: "db_inv rt d" and a: "oldest_id d - 1 \<le> a" "a \<le> newest_id d"
  shows "map row_id (fetch d a n) = take n [nat (a + 1) ..< next_id d]"
proof -
  let ?lo = "next_id d - length (events d)"
  have ids: "map row_id (events d) = [?lo ..< next_id d]" using inv by (auto simp: db_inv_def)
  have "map row_id (fetch d a n) = take n (filter (\<lambda>i. int i > a) (map row_id (events d)))"
    using replay_log.page_rows [of d a n, OF exI, OF inv] by (simp add: take_map filter_map comp_def)
  also have "filter (\<lambda>i. int i > a) (map row_id (events d)) = [nat (a + 1) ..< next_id d]"
  proof -
    have "filter (\<lambda>i. int i > a) [l ..< u] = [max l (nat (a + 1)) ..< u]" for l u
      by (induction u) (auto simp: max_def)
    moreover have "?lo \<le> nat (a + 1)" using a(1) inv_bounds(1) [OF inv] by simp
    ultimately show ?thesis unfolding ids by (simp add: max_def)
  qed
  finally show ?thesis .
qed

lemma page_end:
  assumes inv: "db_inv rt d" and a: "oldest_id d - 1 \<le> a" "a \<le> newest_id d" and lim: "1 \<le> limit"
  shows "(if fetch d a (nat limit) = [] then a else row_pos (last (fetch d a (nat limit)))) = min (newest_id d) (a + limit)"
proof -
  let ?rows = "fetch d a (nat limit)"
  have ids: "map row_id ?rows = take (nat limit) [nat (a + 1) ..< next_id d]" by (rule fetch_ids [OF inv a])
  have hi: "newest_id d = int (next_id d) - 1" by (rule inv_bounds(2) [OF inv])
  have pos: "0 \<le> a" using a(1) inv_bounds(1) [OF inv] inv by (auto simp: db_inv_def)
  show ?thesis
  proof (cases "a = newest_id d")
    case True
    then have "map row_id ?rows = []" using ids hi pos by simp
    with True lim show ?thesis by simp
  next
    case False
    then have lt: "nat (a + 1) < next_id d" using a(2) hi pos by linarith
    have ne: "?rows \<noteq> []" using ids lt lim by (auto simp flip: length_0_conv length_map [of row_id])
    have "row_id (last ?rows) = last (map row_id ?rows)" using ne by (simp add: last_map)
    also have "\<dots> = last [nat (a + 1) ..< min (next_id d) (nat (a + 1) + nat limit)]"
      using ids by (simp add: take_upt min_def)
    also have "\<dots> = min (next_id d) (nat (a + 1) + nat limit) - 1"
      using lt lim by (intro last_upt) auto
    finally show ?thesis using ne hi lt lim pos by (auto simp: min_def)
  qed
qed

section \<open>Following the journal\<close>

text \<open>
  The loop of \<^verbatim>\<open>activity_combine.py\<close>'s \<^verbatim>\<open>main\<close> over a journal: pages of 128 until one is empty,
  each from the last page's cursor. \<open>None\<close> is fuel that ran out, a refused cursor is an exception.
\<close>

fun follow :: "nat \<Rightarrow> jdb \<Rightarrow> string option \<Rightarrow> jval list result option" where
  "follow 0 d cur = None"
| "follow (Suc fuel) d cur =
     (case replay d cur 128 of
        Inl x \<Rightarrow> Some (Inl x)
      | Inr (status, page) \<Rightarrow>
          if status \<noteq> 200 then Some (Inl (ValueError (dumps (JObj page))))
          else (case (jget page ''events'', jget page ''next_cursor'') of
             (JArr evs, JStr next) \<Rightarrow>
               if evs = [] then Some (Inr [])
               else map_option (\<lambda>r. ebind r (\<lambda>more. Inr (evs @ more))) (follow fuel d (Some next))
           | _ \<Rightarrow> Some (Inl (KeyError ''events''))))"

definition row_document :: "string \<Rightarrow> event_row \<Rightarrow> jval" where
  "row_document identity r = JObj [(''cursor'', JStr (cursor_text identity (row_pos r))), (''event'', JObj (body r))]"

lemma split_cursor_text:
  "CHR '':'' \<notin> set identity \<Longrightarrow> split_first_colon (cursor_text identity a) = Inr (identity, str_int a)"
  using split_max_append [of "CHR '':''" identity 0 "str_int a"]
  by (simp add: split_first_colon_def cursor_text_def)

lemma page_fields [simp]:
  assumes "map_of boundary ''events'' = None" "map_of boundary ''next_cursor'' = None"
  shows "jget (replay_page identity boundary d a n) ''events'' = JArr (map (row_document identity) (fetch d a n))"
    and "jget (replay_page identity boundary d a n) ''next_cursor'' =
       JStr (cursor_text identity (if fetch d a n = [] then a else row_pos (last (fetch d a n))))"
  using assms by (simp_all add: replay_page_def Let_def jget_def map_add_def row_document_def)

lemma replay_at:
  assumes id: "get d ''journal_id'' = Some (Text identity)" "CHR '':'' \<notin> set identity"
    and a: "oldest_id d - 1 \<le> a" "a \<le> newest_id d" and lim: "1 \<le> limit" "limit \<le> 128"
    and cur: "cur = Some (cursor_text identity a) \<or> cur = None \<and> a = oldest_id d - 1"
  shows "\<exists>page. replay d cur limit = Inr (200, page) \<and>
     jget page ''events'' = JArr (map (row_document identity) (fetch d a (nat limit))) \<and>
     jget page ''next_cursor'' = JStr (cursor_text identity
       (if fetch d a (nat limit) = [] then a else row_pos (last (fetch d a (nat limit)))))"
  using cur
proof
  assume "cur = Some (cursor_text identity a)"
  then show ?thesis using id a lim by (simp add: replay_def Let_def split_cursor_text)
next
  assume "cur = None \<and> a = oldest_id d - 1"
  then show ?thesis using id lim by (simp add: replay_def Let_def)
qed

lemma row_pos_bounds:
  assumes "db_inv rt d" "r \<in> set (events d)"
  shows "oldest_id d \<le> row_pos r" "row_pos r \<le> newest_id d"
  using assms by (auto simp: oldest_id_def newest_id_def)

lemma follow_from:
  assumes inv: "db_inv rt d" and id: "get d ''journal_id'' = Some (Text identity)" "CHR '':'' \<notin> set identity"
    and cur: "cur = Some (cursor_text identity a) \<or> cur = None \<and> a = oldest_id d - 1"
    and a: "oldest_id d - 1 \<le> a" "a \<le> newest_id d"
    and fuel: "length (filter (\<lambda>r. row_pos r > a) (events d)) < fuel"
  shows "follow fuel d cur = Some (Inr (map (row_document identity) (filter (\<lambda>r. row_pos r > a) (events d))))"
  using cur a fuel
proof (induction fuel arbitrary: a cur)
  case (Suc fuel)
  let ?p = "fetch d a 128"
  let ?rest = "\<lambda>b. filter (\<lambda>r. row_pos r > b) (events d)"
  have p: "?p = take 128 (?rest a)" using replay_log.page_rows inv by blast
  obtain page where r: "replay d cur 128 = Inr (200, page)"
    "jget page ''events'' = JArr (map (row_document identity) ?p)"
    "jget page ''next_cursor'' = JStr (cursor_text identity (if ?p = [] then a else row_pos (last ?p)))"
    using replay_at [OF id Suc.prems(2,3) _ _ Suc.prems(1), of 128] by auto
  show ?case
  proof (cases "?p = []")
    case True
    then show ?thesis using r p by simp
  next
    case False
    let ?l = "row_pos (last ?p)"
    have split: "?p @ ?rest ?l = ?rest a" using replay_log.behind_page False inv by blast
    have l: "last ?p \<in> set (events d)" 
    proof -
      have "last ?p \<in> set (?p @ ?rest ?l)" using last_in_set [OF False] by simp
      then show ?thesis unfolding split by simp
    qed
    have "length ?p + length (?rest ?l) = length (?rest a)" using split by (metis length_append)
    moreover have "0 < length ?p" using False by blast
    ultimately have "length (?rest ?l) < length (?rest a)" by linarith
    then have "length (?rest ?l) < fuel" using Suc.prems(4) by simp
    then have "follow fuel d (Some (cursor_text identity ?l)) = Some (Inr (map (row_document identity) (?rest ?l)))"
      using row_pos_bounds [OF inv l] by (intro Suc.IH) auto
    moreover have "map (row_document identity) (?rest a) =
        map (row_document identity) ?p @ map (row_document identity) (?rest ?l)"
      unfolding split [symmetric] by simp
    ultimately show ?thesis using r False by simp
  qed
qed simp

section \<open>The properties of the journal\<close>

definition frame_kind :: "jobj \<Rightarrow> string" where
  "frame_kind raw = (case map_of raw ''kind'' of Some (JStr s) \<Rightarrow> s | _ \<Rightarrow> [])"

lemma accept_okD:
  assumes "accept full epoch j frame = (j', None)"
  obtains (source) d where "map_of (strip_token frame) ''kind'' = Some (JStr ''source'')"
      "source_txn full epoch (retain j) (strip_token frame) (db j) = Inr d"
      "j' = j\<lparr>db := d, source := (case get d ''source_epoch'' of Some (Text e) \<Rightarrow> Some e | _ \<Rightarrow> None),
               source_frame := strip_token frame\<rparr>"
  | (ring) p d k where "map_of (strip_token frame) ''kind'' = Some k" "k \<noteq> JStr ''source''"
      "prepare (source j) (source_frame j) (case k of JStr s \<Rightarrow> s | _ \<Rightarrow> []) (strip_token frame) = Inr p"
      "frame_txn full (retain j) p (db j) = Inr d" "j' = j\<lparr>db := d\<rparr>"
  using assms by (auto simp: accept_def Let_def split: if_splits option.splits sum.splits)

lemma frame_txn_checkpoint:
  assumes "frame_txn full rt p d = Inr d'"
  shows "get d' (pr_progress_key p) = Some (Progress (pr_position p) (pr_fingerprint p))"
  using assms by (cases rule: frame_txnD) (auto simp: get_def put_state_def)

lemma frame_txn_again:
  assumes "frame_txn full rt p d = Inr d'"
  shows "frame_txn full' rt' p d' = Inr d'"
  using frame_txn_checkpoint [OF assms] by (simp add: frame_txn_def Let_def)

lemma insert_event_state: "insert_event full rt key fp bd d = Inr d' \<Longrightarrow> state d' = state d"
  by (auto simp: insert_event_def Let_def split: option.splits if_splits)

lemma source_txn_again:
  assumes "source_txn full epoch rt raw d = Inr d'"
  shows "source_txn full' epoch' rt' raw d' = Inr d'"
proof -
  have "get d' ''source_id'' = Some (Text (fingerprint_of raw))"
    using assms
    by (auto simp: source_txn_def Let_def get_def put_state_def split: if_splits dest!: insert_event_state)
  then show ?thesis by (simp add: source_txn_def Let_def)
qed

text \<open>
  C2. Accepting a frame keeps the journal well formed (row numbers without holes, unique event keys,
  at most \<open>retain\<close> rows), and a frame that is refused, for whatever reason, leaves the journal exactly
  as it was: the deletion of old rows, the row and the checkpoint are one transaction.
\<close>

theorem accept_safe:
  assumes "journal_inv j" and "accept full epoch j frame = (j', x)"
  shows "journal_inv j' \<and> retain j' = retain j \<and> (x \<noteq> None \<longrightarrow> j' = j) \<and>
    length (events (db j')) \<le> retain j \<and> next_id (db j) \<le> next_id (db j')"
proof -
  have inv: "journal_inv j'" using assms by (rule accept_inv)
  have rt: "retain j' = retain j" using assms(2) by (rule accept_retain)
  have fail: "x \<noteq> None \<longrightarrow> j' = j"
    using assms(2) by (auto simp: accept_def Let_def split: if_splits option.splits sum.splits)
  have mono: "next_id d \<le> next_id d'" if "insert_event f (retain j) k fp b d = Inr d'" "db_inv (retain j) d"
    for f k fp b d d'
    using insert_event_inv(3) [OF that(2) _ that(1)] assms(1) by (auto simp: journal_inv_def)
  have "next_id (db j) \<le> next_id (db j')"
  proof (cases x)
    case None
    with assms(2) have "accept full epoch j frame = (j', None)" by simp
    then show ?thesis
    proof (cases rule: accept_okD)
      case (source d)
      then show ?thesis
        using mono [of full "''source:'' @ epoch"] assms(1)
        by (auto simp: source_txn_def Let_def put_state_def journal_inv_def split: if_splits) fastforce
    next
      case (ring p d k)
      from ring(4) show ?thesis
      proof (cases rule: frame_txnD)
        case (store prev d1)
        from mono [OF store(1)] assms(1) ring(5) store(2) show ?thesis
          by (simp add: journal_inv_def put_state_def)
      qed (use ring(5) in simp)
    qed
  qed (use fail in simp)
  then show ?thesis using inv rt fail by (auto simp: journal_inv_def db_inv_def)
qed

definition sample_journal :: journal where
  "sample_journal =
     \<lparr>db = \<lparr>events = [\<lparr>row_id = 1, event_key = ''source:e'', fingerprint = ''f'', body = []\<rparr>],
             state = [''journal_id'' \<mapsto> Text ''j'', ''ring:0'' \<mapsto> Progress 5 ''g''], next_id = 2\<rparr>,
      retain = 2, source = Some ''e'', source_frame = []\<rparr>"

definition sample_frame :: "int \<Rightarrow> int \<Rightarrow> jobj" where
  "sample_frame b e = [(''kind'', JStr ''discard''), (''token'', JStr ''t''), (''ring'', JInt 0),
     (''begin'', JInt b), (''end'', JInt e)]"

text \<open>The same journal after three more rows, of which the last is left.\<close>

definition trimmed_journal :: journal where
  "trimmed_journal = sample_journal\<lparr>db := (db sample_journal)\<lparr>next_id := 5,
     events := [\<lparr>row_id = 4, event_key = ''e:record:0:9'', fingerprint = ''h'', body = []\<rparr>]\<rparr>\<rparr>"

lemma sample_journal_inv: "journal_inv sample_journal"
  by (simp add: journal_inv_def db_inv_def sample_journal_def upt_rec)

lemma sample_prepare:
  "\<exists>p. prepare (source sample_journal) (source_frame sample_journal)
     (frame_kind (strip_token (sample_frame 5 9))) (strip_token (sample_frame 5 9)) = Inr p \<and>
     pr_progress_key p = ''ring:0'' \<and> pr_begin p = 5 \<and> pr_position p = 9 \<and> pr_kind p = ''discard'' \<and>
     pr_key p = ''e:record:0:5''"
proof -
  have "str_int 0 = ''0''" "str_int 5 = ''5''" by code_simp+
  then show ?thesis
    by (simp add: prepare_def sample_journal_def sample_frame_def strip_token_def frame_kind_def
        jitem_def ring_interval_def record_entry_def Let_def)
qed

lemma sample_accept: "\<exists>j'. accept False ''u'' sample_journal (sample_frame 5 9) = (j', None)"
proof -
  obtain p where p: "prepare (source sample_journal) (source_frame sample_journal) ''discard''
      (strip_token (sample_frame 5 9)) = Inr p" "pr_progress_key p = ''ring:0''" "pr_begin p = 5"
    "pr_position p = 9" "pr_kind p = ''discard''" "pr_key p = ''e:record:0:5''"
    using sample_prepare by (auto simp: frame_kind_def sample_frame_def strip_token_def)
  have size: "length (canonical (JObj (strip_token (sample_frame 5 9)))) \<le> MAX_FRAME" by code_simp
  obtain d where "frame_txn False 2 p (db sample_journal) = Inr d"
    using p by (simp add: frame_txn_def get_def sample_journal_def insert_event_def Let_def)
  with p(1) size show ?thesis
    by (simp add: accept_def Let_def sample_frame_def strip_token_def)
      (simp add: sample_journal_def)
qed

theorem accept_safe_witness:
  "\<exists>j'. accept False ''u'' sample_journal (sample_frame 5 9) = (j', None) \<and> journal_inv j' \<and>
     length (events (db j')) \<le> 2"
proof -
  obtain j' where a: "accept False ''u'' sample_journal (sample_frame 5 9) = (j', None)"
    using sample_accept by blast
  have "retain sample_journal = 2" by (simp add: sample_journal_def)
  with accept_safe [OF sample_journal_inv a] a show ?thesis by auto
qed

lemma accept_again:
  assumes "accept full epoch j frame = (j', None)"
  shows "accept full' epoch' j' frame = (j', None)"
proof -
  have size: "\<not> length (canonical (JObj (strip_token frame))) > MAX_FRAME"
    using assms by (auto simp: accept_def Let_def split: if_splits)
  from assms show ?thesis
  proof (cases rule: accept_okD)
    case (source d)
    then show ?thesis
      using size source_txn_again [OF source(2)] by (simp add: accept_def Let_def)
  next
    case (ring p d k)
    have "frame_txn full' (retain j) p d = Inr d" using ring(4) by (rule frame_txn_again)
    with ring size show ?thesis by (simp add: accept_def Let_def)
  qed
qed

lemma accept_refused: "accept full epoch j frame = (j', Some x) \<Longrightarrow> j' = j"
  by (auto simp: accept_def Let_def split: if_splits option.splits sum.splits)

text \<open>
  Accepting is idempotent: a frame that was accepted may be sent again, with any random epoch and
  even when the disk is full by then, and is accepted with nothing changed. A reader that lost an
  acknowledgement can therefore repeat its last frame.
\<close>

theorem accept_idempotent:
  assumes "accept full epoch j frame = (j', None)"
  shows "accept full' epoch' j' frame = (j', None)"
  using assms by (rule accept_again)

theorem accept_idempotent_witness:
  "\<exists>j'. accept False ''u'' sample_journal (sample_frame 5 9) = (j', None) \<and>
     accept True ''v'' j' (sample_frame 5 9) = (j', None)"
  using sample_accept accept_idempotent by blast

text \<open>
  C12. No ring position is skipped: when a ring already has a checkpoint \<open>q\<close>, a record or discard
  frame is accepted only if it begins at \<open>q\<close> or is the frame of that checkpoint again (same end, same
  fingerprint), and afterwards the checkpoint is the frame's end.
\<close>

theorem accept_contiguous:
  assumes "accept full epoch j frame = (j', None)"
    and "prepare (source j) (source_frame j) (frame_kind (strip_token frame)) (strip_token frame) = Inr p"
    and "frame_kind (strip_token frame) \<in> {''record'', ''discard''}"
    and "get (db j) (pr_progress_key p) = Some (Progress q fp)"
  shows "(pr_begin p = q \<and> q < pr_position p \<or> pr_position p = q \<and> pr_fingerprint p = fp \<and> j' = j) \<and>
         get (db j') (pr_progress_key p) = Some (Progress (pr_position p) (pr_fingerprint p))"
  using assms(1)
proof (cases rule: accept_okD)
  case (source d)
  then show ?thesis using assms(3) by (simp add: frame_kind_def)
next
  case (ring p' d k)
  then have p: "p' = p" using assms(2) by (simp add: frame_kind_def)
  have kind: "pr_kind p \<noteq> ''ring_health''"
    using assms(2,3) by (auto simp: prepare_def Let_def err_simps split: option.splits if_splits prod.splits)
  have cp: "get d (pr_progress_key p) = Some (Progress (pr_position p) (pr_fingerprint p))"
    using frame_txn_checkpoint [OF ring(4)] p by simp
  from ring(4) show ?thesis
    by (cases rule: frame_txnD) (use ring(5) p kind cp assms(4) in auto)
qed


theorem accept_contiguous_witness:
  "\<exists>j'. accept False ''u'' sample_journal (sample_frame 5 9) = (j', None) \<and>
     (\<exists>fp. get (db j') ''ring:0'' = Some (Progress 9 fp))"
proof -
  obtain j' where a: "accept False ''u'' sample_journal (sample_frame 5 9) = (j', None)"
    using sample_accept by blast
  obtain p where p: "prepare (source sample_journal) (source_frame sample_journal)
      (frame_kind (strip_token (sample_frame 5 9))) (strip_token (sample_frame 5 9)) = Inr p"
    "pr_progress_key p = ''ring:0''" "pr_position p = 9"
    using sample_prepare by blast
  have k: "frame_kind (strip_token (sample_frame 5 9)) \<in> {''record'', ''discard''}"
    by (simp add: frame_kind_def strip_token_def sample_frame_def)
  have c: "get (db sample_journal) (pr_progress_key p) = Some (Progress 5 ''g'')"
    by (simp add: p(2) get_def sample_journal_def)
  from accept_contiguous [OF a p(1) k c] a p show ?thesis by auto
qed

text \<open>
  C17. Replay never skips silently. A cursor of this journal, whatever its number, gets exactly one of three answers: where a row
  behind it has been deleted, status 409 with the error \<^verbatim>\<open>retention_gap\<close> and the cursor that was asked for; where it lies behind the
  newest row, status 409 with the error \<^verbatim>\<open>future_cursor\<close>; otherwise status 200 with exactly the rows with the next
  numbers, up to the limit, and the next cursor is the last of them.
\<close>

theorem replay_no_gap:
  assumes "db_inv rt d" and "get d ''journal_id'' = Some (Text identity)" and "CHR '':'' \<notin> set identity"
    and "1 \<le> limit" "limit \<le> 128"
  shows "\<exists>status page. replay d (Some (cursor_text identity a)) limit = Inr (status, page) \<and>
    (if a + 1 < int (next_id d - length (events d))
     then status = 409 \<and> jget page ''error'' = JStr ''retention_gap'' \<and> jget page ''requested_cursor'' = JStr (cursor_text identity a)
     else if a + 1 > int (next_id d) then status = 409 \<and> jget page ''error'' = JStr ''future_cursor''
     else status = 200 \<and> jget page ''events'' = JArr (map (row_document identity) (fetch d a (nat limit))) \<and>
       map row_id (fetch d a (nat limit)) = take (nat limit) [nat (a + 1) ..< next_id d] \<and>
       jget page ''next_cursor'' = JStr (cursor_text identity (min (int (next_id d) - 1) (a + limit))))"
proof -
  have b: "oldest_id d = int (next_id d - length (events d))" "newest_id d = int (next_id d) - 1"
    using inv_bounds [OF assms(1)] assms(1) by (auto simp: oldest_id_def newest_id_def db_inv_def)
  show ?thesis
  proof (cases "oldest_id d - 1 \<le> a \<and> a \<le> newest_id d")
    case True
    let ?rows = "fetch d a (nat limit)"
    have ids: "map row_id ?rows = take (nat limit) [nat (a + 1) ..< next_id d]"
      using fetch_ids [OF assms(1)] True by blast
    obtain page where page: "replay d (Some (cursor_text identity a)) limit = Inr (200, page)"
      "jget page ''events'' = JArr (map (row_document identity) ?rows)"
      "jget page ''next_cursor'' = JStr (cursor_text identity (if ?rows = [] then a else row_pos (last ?rows)))"
      using replay_at [OF assms(2,3) _ _ assms(4,5), of a "Some (cursor_text identity a)"] True by auto
    have "(if ?rows = [] then a else row_pos (last ?rows)) = min (int (next_id d) - 1) (a + limit)"
      using page_end [OF assms(1)] True assms(4) b(2) by simp
    with True page ids b show ?thesis by auto
  next
    case False
    then show ?thesis
      using assms(2-5) b by (auto simp: replay_def Let_def split_cursor_text jget_def)
  qed
qed

theorem replay_no_gap_witness:
  "\<exists>page page'. replay (db sample_journal) (Some (cursor_text ''j'' 0)) 10 = Inr (200, page) \<and>
     jget page ''next_cursor'' = JStr (cursor_text ''j'' 1) \<and>
     replay (db trimmed_journal) (Some (cursor_text ''j'' 0)) 10 = Inr (409, page') \<and> jget page' ''error'' = JStr ''retention_gap''"
proof -
  let ?d = "db sample_journal" and ?t = "db trimmed_journal"
  have inv: "db_inv 2 ?d" using sample_journal_inv by (simp add: journal_inv_def) (simp add: sample_journal_def)
  have id: "get ?d ''journal_id'' = Some (Text ''j'')" "CHR '':'' \<notin> set ''j''"
    "next_id ?d = 2" "length (events ?d) = 1"
    by (simp_all add: get_def sample_journal_def)
  have t: "db_inv 2 ?t" "get ?t ''journal_id'' = Some (Text ''j'')" "next_id ?t = 5" "length (events ?t) = 1"
    by (simp_all add: trimmed_journal_def sample_journal_def db_inv_def get_def upt_rec)
  from replay_no_gap [OF inv id(1,2), of 10 0] replay_no_gap [OF t(1,2) id(2), of 10 0] show ?thesis
    by (auto simp: id(3,4) t(3,4))
qed

text \<open>
  C18. A consumer that follows the cursors from the start reads every retained event exactly once, in
  order, and its loop ends: fuel above the number of rows is enough.
\<close>

theorem follow_complete:
  assumes "db_inv rt d" and "get d ''journal_id'' = Some (Text identity)" and "CHR '':'' \<notin> set identity"
    and "length (events d) < fuel"
  shows "follow fuel d None = Some (Inr (map (row_document identity) (events d)))"
proof -
  let ?a = "oldest_id d - 1"
  have all: "filter (\<lambda>r. row_pos r > ?a) (events d) = events d"
    using row_pos_bounds(1) [OF assms(1)] by (force simp: filter_id_conv)
  have "?a \<le> newest_id d"
  proof (cases "events d = []")
    case False
    then obtain r where "r \<in> set (events d)" by (cases "events d") auto
    from row_pos_bounds [OF assms(1) this] show ?thesis by simp
  qed (simp add: oldest_id_def newest_id_def)
  then show ?thesis
    using follow_from [OF assms(1,2,3), of None ?a fuel] assms(4) all by simp
qed

theorem follow_complete_witness:
  "follow 2 (db sample_journal) None = Some (Inr [JObj [(''cursor'', JStr (cursor_text ''j'' 1)), (''event'', JObj [])]])"
proof -
  let ?d = "db sample_journal"
  have inv: "db_inv 2 ?d" using sample_journal_inv by (simp add: journal_inv_def) (simp add: sample_journal_def)
  have id: "get ?d ''journal_id'' = Some (Text ''j'')" "CHR '':'' \<notin> set ''j''" "length (events ?d) < 2"
    by (simp_all add: get_def sample_journal_def)
  have "map (row_document ''j'') (events ?d) = [JObj [(''cursor'', JStr (cursor_text ''j'' 1)), (''event'', JObj [])]]"
    by (simp add: row_document_def sample_journal_def)
  with follow_complete [OF inv id] show ?thesis by simp
qed

definition journal_after :: "(string \<Rightarrow> jval result) \<Rightarrow> journal \<Rightarrow> reader_line list \<Rightarrow> journal" where
  "journal_after loads j ls = foldl (\<lambda>j l. fst (collect_line loads j l)) j ls"

definition acked :: "(string \<Rightarrow> jval result) \<Rightarrow> journal \<Rightarrow> reader_line list \<Rightarrow> nat \<Rightarrow> string \<Rightarrow> bool" where
  "acked loads j ls i a \<longleftrightarrow>
     (\<exists>line f full e t. ls ! i = (line, full, e) \<and> loads line = Inr (JObj f) \<and> map_of f ''token'' = Some (JStr t) \<and>
        a = ''ACK '' @ t @ [CHR 0x0A] \<and> snd (accept full e (journal_after loads j (take i ls)) f) = None)"

abbreviation lines_read :: "reader_line list \<Rightarrow> reader_line list" where
  "lines_read ls \<equiv> takeWhile (\<lambda>l. fst l \<noteq> []) ls"

lemma collect_line_ack:
  assumes "collect_line loads j (line, full, epoch) = (j', Inr a)"
  shows "\<exists>f t. loads line = Inr (JObj f) \<and> map_of f ''token'' = Some (JStr t) \<and> a = ''ACK '' @ t @ [CHR 0x0A] \<and>
    accept full epoch j f = (j', None)"
  using assms by (auto simp: collect_line_def split: if_splits sum.splits jval.splits option.splits prod.splits)

lemma collect_loop_acks:
  assumes "collect_loop loads j ls acks = (j', acks', x)"
  shows "\<exists>new. acks' = acks @ new \<and> length new \<le> length (lines_read ls) \<and>
    (\<forall>i < length new. acked loads j ls i (new ! i)) \<and>
    (x = None \<longrightarrow> length new = length (lines_read ls) \<and> j' = journal_after loads j (lines_read ls))"
  using assms
proof (induction ls arbitrary: j acks)
  case (Cons l ls)
  obtain line full epoch where l: "l = (line, full, epoch)" by (cases l)
  obtain j1 r where a: "collect_line loads j l = (j1, r)" by (cases "collect_line loads j l")
  show ?case
  proof (cases "line = [] \<or> (\<exists>e. r = Inl e)")
    case True
    then show ?thesis using Cons.prems a l
      by (intro exI [of _ "[]"]) (auto simp: journal_after_def split: if_splits)
  next
    case False
    then obtain ack where r: "r = Inr ack" "line \<noteq> []" by (cases r) auto
    obtain f t where f: "loads line = Inr (JObj f)" "map_of f ''token'' = Some (JStr t)" "ack = ''ACK '' @ t @ [CHR 0x0A]"
      "accept full epoch j f = (j1, None)" using collect_line_ack a l r by blast
    have "collect_loop loads j1 ls (acks @ [ack]) = (j', acks', x)" using Cons.prems a l r by simp
    from Cons.IH [OF this] obtain new where
      new: "acks' = (acks @ [ack]) @ new" "length new \<le> length (lines_read ls)"
        "\<forall>i < length new. acked loads j1 ls i (new ! i)"
        "x = None \<longrightarrow> length new = length (lines_read ls) \<and> j' = journal_after loads j1 (lines_read ls)" by blast
    have j1: "journal_after loads j (l # ls') = journal_after loads j1 ls'" for ls'
      by (simp add: journal_after_def a)
    have "acked loads j (l # ls) i ((ack # new) ! i)" if "i < length (ack # new)" for i
    proof (cases i)
      case 0
      then show ?thesis using f l by (auto simp: acked_def journal_after_def)
    next
      case (Suc n)
      then show ?thesis using new(3) that by (auto simp: acked_def j1)
    qed
    with new r l show ?thesis by (intro exI [of _ "ack # new"]) (auto simp: j1 [unfolded l])
  qed
qed (auto simp: journal_after_def)



section \<open>Runs of the collector\<close>

text \<open>
  What the journal holds over any number of runs on one file. The interval a record or discard row stands for is read from
  its stored document: the epoch of its source, the text of its ring, begin and end.
\<close>

definition row_interval :: "event_row \<Rightarrow> (string \<times> string \<times> int \<times> int) option" where
  "row_interval row =
     (case (jget (body row) ''type'', jget (body row) ''source_id'', jget (body row) ''raw'') of
        (JStr k, JStr e, JObj raw) \<Rightarrow>
          if k \<in> {''record'', ''discard''} then
            (case (ring_index (jget raw ''ring''), jint (jget raw ''begin''), jint (jget raw ''end'')) of
               (Some (_, r), Inr b, Inr q) \<Rightarrow> Some (e, r, b, q)
             | _ \<Rightarrow> None)
          else None
      | _ \<Rightarrow> None)"

definition piece_of :: "string \<Rightarrow> string \<Rightarrow> event_row \<Rightarrow> (int \<times> int) list" where
  "piece_of e r row = (case row_interval row of Some (e', r', b, q) \<Rightarrow> if e' = e \<and> r' = r then [(b, q)] else [] | None \<Rightarrow> [])"

definition pieces :: "string \<Rightarrow> string \<Rightarrow> event_row list \<Rightarrow> (int \<times> int) list" where
  "pieces e r rows = concat (map (piece_of e r) rows)"

text \<open>Non-empty intervals, each beginning where the one before it ends.\<close>

fun tiles :: "(int \<times> int) list \<Rightarrow> bool" where
  "tiles [] = True"
| "tiles [(b, q)] = (b < q)"
| "tiles ((b, q) # (b', q') # xs) = (b < q \<and> q = b' \<and> tiles ((b', q') # xs))"

lemma tiles_tl: "tiles (x # xs) \<Longrightarrow> tiles xs"
  by (cases x; cases xs; cases "hd xs") auto

lemma tiles_suffix: "tiles (xs @ ys) \<Longrightarrow> tiles ys"
  by (induction xs) (auto dest: tiles_tl)

lemma tiles_snoc: "tiles xs \<Longrightarrow> b < q \<Longrightarrow> (xs \<noteq> [] \<Longrightarrow> snd (last xs) = b) \<Longrightarrow> tiles (xs @ [(b, q)])"
  by (induction xs rule: tiles.induct) (auto split: if_splits)

lemma tiles_below: "tiles xs \<Longrightarrow> \<forall>x \<in> set xs. fst x < snd (last xs)"
proof (induction xs rule: tiles.induct)
  case (3 b q b' q' xs)
  then have *: "b < q" "q = b'" "\<forall>x \<in> set ((b', q') # xs). fst x < snd (last ((b', q') # xs))" by auto
  have "fst (b', q') < snd (last ((b', q') # xs))" by (rule bspec [OF *(3)]) simp
  with * show ?case by auto
qed auto

lemma pieces_append [simp]: "pieces e r (xs @ ys) = pieces e r xs @ pieces e r ys"
  by (simp add: pieces_def)

lemma pieces_drop: "\<exists>zs. pieces e r rows = zs @ pieces e r (drop n rows)"
  using pieces_append [of e r "take n rows" "drop n rows"] by auto

text \<open>The keys of the rows: no two sources have an epoch in common, and epochs and ring texts have no colon.\<close>

abbreviation plain :: "string \<Rightarrow> bool" where
  "plain s \<equiv> CHR '':'' \<notin> set s"

definition record_key :: "string \<Rightarrow> string \<Rightarrow> int \<Rightarrow> string" where
  "record_key e r b = e @ '':record:'' @ r @ '':'' @ str_int b"

definition row_form :: "string set \<Rightarrow> event_row \<Rightarrow> bool" where
  "row_form S row =
     ((\<exists>e. plain e \<and> event_key row = ''source:'' @ e \<and> row_interval row = None) \<or>
      (\<exists>e x. plain e \<and> event_key row = e @ '':drops:'' @ x \<and> row_interval row = None) \<or>
      (\<exists>e r b q. plain e \<and> plain r \<and> e \<in> S \<and> event_key row = record_key e r b \<and> row_interval row = Some (e, r, b, q)))"

lemma first_colon: "plain a \<Longrightarrow> plain b \<Longrightarrow> a @ CHR '':'' # x = b @ CHR '':'' # y \<longleftrightarrow> a = b \<and> x = y"
proof (induction a arbitrary: b)
  case Nil
  then show ?case by (cases b) auto
next
  case (Cons c a)
  then show ?case by (cases b) auto
qed

lemma record_key_inj:
  "plain e \<Longrightarrow> plain e' \<Longrightarrow> plain r \<Longrightarrow> plain r' \<Longrightarrow> record_key e r b = record_key e' r' b' \<longleftrightarrow> e = e' \<and> r = r' \<and> b = b'"
  by (auto simp: record_key_def first_colon)

lemma row_form_record:
  assumes "row_form S row" "event_key row = record_key e r b" "plain e" "plain r"
  shows "\<exists>q. row_interval row = Some (e, r, b, q)"
proof -
  have source: "record_key e r b \<noteq> ''source:'' @ e'" if "plain e'" for e'
  proof
    assume "record_key e r b = ''source:'' @ e'"
    then have "e @ CHR '':'' # ''record:'' @ r @ '':'' @ str_int b = ''source'' @ CHR '':'' # e'" by (simp add: record_key_def)
    then have "e' = ''record:'' @ r @ '':'' @ str_int b" using first_colon [of e "''source''"] assms(3) by simp
    with that show False by simp
  qed
  have drops: "record_key e r b \<noteq> e' @ '':drops:'' @ x" if "plain e'" for e' x
    using first_colon [of e e'] assms(3) that by (auto simp: record_key_def)
  consider e' where "plain e'" "event_key row = ''source:'' @ e'" | e' x where "plain e'" "event_key row = e' @ '':drops:'' @ x"
    | e' r' b' q where "plain e'" "plain r'" "event_key row = record_key e' r' b'" "row_interval row = Some (e', r', b', q)"
    using assms(1) unfolding row_form_def by blast
  then show ?thesis
  proof cases
    case 3
    then show ?thesis using assms(2-4) record_key_inj [of e e' r r' b b'] by auto
  qed (use assms(2) source drops in metis)+
qed

lemma row_form_mono: "row_form S row \<Longrightarrow> S \<subseteq> T \<Longrightarrow> row_form T row"
  unfolding row_form_def by blast

text \<open>
  The invariant of a file, for the epochs \<open>S\<close> that were drawn so far: the rows are numbered, their keys have their form, the retained
  intervals of a source and ring tile, and those of the current source end at the checkpoint of the ring.
\<close>

definition at_checkpoint :: "jdb \<Rightarrow> string \<Rightarrow> bool" where
  "at_checkpoint d e =
     (\<forall>r. pieces e r (events d) \<noteq> [] \<longrightarrow> (\<exists>fp. get d (''ring:'' @ r) = Some (Progress (snd (last (pieces e r (events d)))) fp)))"

definition rows_inv :: "string set \<Rightarrow> jdb \<Rightarrow> bool" where
  "rows_inv S d = ((\<exists>rt. db_inv rt d) \<and> (\<forall>row \<in> set (events d). row_form S row) \<and> (\<forall>e r. tiles (pieces e r (events d))))"

definition file_inv :: "string set \<Rightarrow> jdb \<Rightarrow> bool" where
  "file_inv S d =
     (rows_inv S d \<and> (\<forall>e. get d ''source_epoch'' = Some (Text e) \<longrightarrow> plain e \<and> e \<in> S \<and> at_checkpoint d e))"

lemma rows_inv_mono: "rows_inv S d \<Longrightarrow> S \<subseteq> T \<Longrightarrow> rows_inv T d"
  unfolding rows_inv_def using row_form_mono by blast

lemma file_inv_mono: "file_inv S d \<Longrightarrow> S \<subseteq> T \<Longrightarrow> file_inv T d"
  unfolding file_inv_def using rows_inv_mono by blast

lemma rows_inv_state [simp]: "rows_inv S (d\<lparr>state := s\<rparr>) = rows_inv S d" "rows_inv S (put_state d k v) = rows_inv S d"
  by (simp_all add: rows_inv_def put_state_def)

lemma pieces_fresh: "\<forall>row \<in> set rows. row_form S row \<Longrightarrow> e \<notin> S \<Longrightarrow> pieces e r rows = []"
  by (induction rows) (auto simp: pieces_def piece_of_def row_form_def)

text \<open>An insertion drops rows at the front and adds one at the end, or changes nothing.\<close>

lemma insert_event_rows:
  assumes "\<exists>rt. db_inv rt d" "insert_event full rt key fp bd d = Inr d'"
  obtains (found) row where "d' = d" "row \<in> set (events d)" "event_key row = key"
  | (added) k where "d' = d\<lparr>events := drop k (events d) @ [\<lparr>row_id = next_id d, event_key = key, fingerprint = fp, body = bd\<rparr>],
      next_id := next_id d + 1\<rparr>" "key \<notin> event_key ` set (events d)"
proof (cases "find (\<lambda>r. event_key r = key) (events d)")
  case (Some row)
  then have "row \<in> set (events d)" "event_key row = key" by (auto simp: find_Some_iff)
  moreover have "d' = d" using Some assms(2) by (simp add: insert_event_def split: if_splits)
  ultimately show ?thesis using that(1) by blast
next
  case None
  from assms(1) obtain rt' where "db_inv rt' d" by blast
  note t = trim_drop [OF this]
  show ?thesis
    using None assms(2) by (intro that(2) [of "length (events d) - (rt - 1)"])
      (simp add: insert_event_def Let_def t split: if_splits, auto simp: find_None_iff)
qed

lemma db_inv_added:
  assumes "\<exists>rt. db_inv rt d" "key \<notin> event_key ` set (events d)"
  shows "\<exists>rt. db_inv rt (d\<lparr>events := drop k (events d) @ [\<lparr>row_id = next_id d, event_key = key, fingerprint = fp, body = bd\<rparr>],
      next_id := next_id d + 1\<rparr>)"
proof -
  let ?n = "length (events d)"
  have ids: "map row_id (events d) = [next_id d - ?n ..< next_id d]" and len: "?n < next_id d"
    and dist: "distinct (map event_key (events d))" using assms(1) by (auto simp: db_inv_def)
  have "map row_id (drop k (events d)) = [next_id d - ?n + k ..< next_id d]" by (simp add: drop_map [symmetric] ids)
  also have "next_id d - ?n + k = next_id d - (?n - k)" if "k \<le> ?n" using len that by simp
  ultimately have "map row_id (drop k (events d)) = [next_id d - (?n - k) ..< next_id d]"
    by (cases "k \<le> ?n") simp_all
  moreover have "distinct (map event_key (drop k (events d)))" using dist by (simp add: drop_map [symmetric])
  ultimately show ?thesis
    using assms(2) len by (intro exI [of _ "Suc ?n"]) (auto simp: db_inv_def Suc_diff_le dest: in_set_dropD)
qed

text \<open>A row that continues the interval of its source and ring, or stands for none.\<close>

definition continues :: "event_row list \<Rightarrow> event_row \<Rightarrow> bool" where
  "continues rows row =
     (case row_interval row of
        None \<Rightarrow> True
      | Some (e, r, b, q) \<Rightarrow> b < q \<and> (pieces e r rows \<noteq> [] \<longrightarrow> snd (last (pieces e r rows)) = b))"

lemma rows_inv_added:
  assumes "rows_inv S d" "key \<notin> event_key ` set (events d)"
    and row: "row = \<lparr>row_id = next_id d, event_key = key, fingerprint = fp, body = bd\<rparr>" "row_form S row" "continues (events d) row"
  shows "rows_inv S (d\<lparr>events := drop k (events d) @ [row], next_id := next_id d + 1\<rparr>)"
proof -
  have "tiles (pieces e r (drop k (events d)) @ piece_of e r row)" for e r
  proof -
    obtain zs where z: "pieces e r (events d) = zs @ pieces e r (drop k (events d))" using pieces_drop by blast
    then have t: "tiles (pieces e r (drop k (events d)))" using assms(1) tiles_suffix by (metis rows_inv_def)
    show ?thesis
    proof (cases "piece_of e r row = []")
      case False
      then obtain b q where i: "row_interval row = Some (e, r, b, q)" "piece_of e r row = [(b, q)]"
        by (auto simp: piece_of_def split: option.splits if_splits)
      then have "b < q" "pieces e r (events d) \<noteq> [] \<Longrightarrow> snd (last (pieces e r (events d))) = b"
        using row(3) by (simp_all add: continues_def)
      then have "tiles (pieces e r (drop k (events d)) @ [(b, q)])" using z by (intro tiles_snoc [OF t]) auto
      with i(2) show ?thesis by simp
    qed (use t in simp)
  qed
  then have "tiles (pieces e r (drop k (events d) @ [row]))" for e r by (simp add: pieces_def)
  moreover have "\<exists>rt. db_inv rt (d\<lparr>events := drop k (events d) @ [row], next_id := next_id d + 1\<rparr>)"
    unfolding row(1) using assms(1,2) by (intro db_inv_added) (auto simp: rows_inv_def)
  moreover have "\<forall>x \<in> set (drop k (events d) @ [row]). row_form S x"
    using assms(1) row(2) by (auto simp: rows_inv_def dest: in_set_dropD)
  ultimately show ?thesis by (simp add: rows_inv_def)
qed

lemma at_checkpoint_added:
  assumes "at_checkpoint d e" "\<And>r. piece_of e r row = []" "\<And>r. get d' (''ring:'' @ r) = get d (''ring:'' @ r)"
    and "events d' = drop k (events d) @ [row] \<or> events d' = events d"
  shows "at_checkpoint d' e"
proof -
  have "pieces e r (events d') = [] \<or> last (pieces e r (events d')) = last (pieces e r (events d)) \<and> pieces e r (events d) \<noteq> []" for r
  proof -
    have "pieces e r [row] = []" by (simp add: pieces_def assms(2))
    then show ?thesis using assms(4) pieces_drop [of e r "events d" k] by auto
  qed
  with assms(1,3) show ?thesis unfolding at_checkpoint_def by metis
qed

lemma no_piece: "row_interval row = None \<Longrightarrow> piece_of e r row = []" "row_interval row = None \<Longrightarrow> continues rows row"
  by (simp_all add: piece_of_def continues_def)

lemma source_txn_file:
  assumes "file_inv S d" "source_txn full epoch rt raw d = Inr d'" "plain epoch" "epoch \<notin> S"
  shows "file_inv (insert epoch S) d'"
proof (cases "get d ''source_id'' = Some (Text (fingerprint_of raw))")
  case True
  then have "d' = d" using assms(2) by (simp add: source_txn_def)
  then show ?thesis using file_inv_mono [OF assms(1)] by blast
next
  case False
  let ?S = "insert epoch S"
  define d1 where "d1 = put_state (put_state (d\<lparr>state := (\<lambda>k. if progress_key k then None else state d k)\<rparr>)
      ''source_id'' (Text (fingerprint_of raw))) ''source_epoch'' (Text epoch)"
  define bd where "bd = [(''type'', JStr ''source_boundary''), (''source_id'', JStr epoch), (''source'', JObj raw),
      (''history'', JStr ''unknown_before_first_collection'')]"
  have ins: "insert_event full rt (''source:'' @ epoch) (fingerprint_of raw) bd d1 = Inr d'"
    using assms(2) False by (simp add: source_txn_def d1_def bd_def Let_def split: if_splits)
  have r1: "rows_inv ?S d1" "events d1 = events d" "get d1 ''source_epoch'' = Some (Text epoch)"
    using assms(1) rows_inv_mono [of S d ?S] by (auto simp: d1_def file_inv_def) (simp_all add: put_state_def get_def)
  have none: "row_interval \<lparr>row_id = n, event_key = key, fingerprint = fp, body = bd\<rparr> = None" for n key fp
    by (simp add: row_interval_def bd_def jget_def)
  have e: "pieces epoch r (events d) = []" for r
    using pieces_fresh [of "events d" S epoch] assms(1,4) by (simp add: file_inv_def rows_inv_def)
  have cp: "at_checkpoint d1 epoch" by (simp add: at_checkpoint_def r1(2) e)
  have "\<exists>rt. db_inv rt d1" using r1(1) by (simp add: rows_inv_def)
  from this ins show ?thesis
  proof (cases rule: insert_event_rows)
    case (found row)
    then show ?thesis using r1 cp assms(3) by (simp add: file_inv_def)
  next
    case (added k)
    let ?row = "\<lparr>row_id = next_id d1, event_key = ''source:'' @ epoch, fingerprint = fingerprint_of raw, body = bd\<rparr>"
    have "row_form ?S ?row" using assms(3) none unfolding row_form_def by auto
    then have "rows_inv ?S d'"
      unfolding added(1) using r1(1) added(2) no_piece(2) [OF none] by (intro rows_inv_added) auto
    moreover have "at_checkpoint d' epoch"
      by (rule at_checkpoint_added [OF cp, of ?row _ k]) (simp_all add: added(1) no_piece(1) [OF none] get_def)
    moreover have "get d' ''source_epoch'' = Some (Text epoch)" using r1(3) by (simp add: added(1) get_def)
    ultimately show ?thesis using assms(3) by (simp add: file_inv_def)
  qed
qed

text \<open>What a prepared frame stands for: a drop count, or an interval of a ring.\<close>

lemma ring_text_plain: "ring_index v = Some (i, r) \<Longrightarrow> plain r"
proof -
  have "plain (str_nat n)" for n using str_nat_digits [of n] by (auto simp: is_digit_def)
  then have "plain (str_int j)" for j by (simp add: str_int_def)
  then show "ring_index v = Some (i, r) \<Longrightarrow> plain r" by (cases v rule: ring_index.cases) (auto split: if_splits)
qed

lemma prepareD:
  assumes "prepare (Some e) sf kind raw = Inr p" "plain e"
  obtains (drops) r where "pr_kind p = ''ring_health''" "pr_progress_key p = ''drops:'' @ r" "\<exists>x. pr_key p = e @ '':drops:'' @ x"
      "\<And>n k fp prev. row_interval \<lparr>row_id = n, event_key = k, fingerprint = fp, body = health_body p prev\<rparr> = None"
  | (ring) r where "pr_kind p \<noteq> ''ring_health''" "plain r" "pr_progress_key p = ''ring:'' @ r" "pr_key p = record_key e r (pr_begin p)"
      "pr_begin p < pr_position p"
      "\<And>n k fp prev. row_interval \<lparr>row_id = n, event_key = k, fingerprint = fp, body = health_body p prev\<rparr> =
         Some (e, r, pr_begin p, pr_position p)"
proof -
  have k: "kind \<in> {''record'', ''discard'', ''ring_health''}" "e \<noteq> []" using assms(1) by (auto simp: prepare_def split: if_splits)
  obtain rv where rv: "jitem raw ''ring'' = Inr rv" using assms(1) by (cases "jitem raw ''ring''") (simp_all add: prepare_def split: if_splits)
  obtain i r where r: "ring_index rv = Some (i, r)" using assms(1) rv by (cases "ring_index rv") (auto simp: prepare_def split: if_splits)
  have i: "0 \<le> i" "i < 16" using assms(1) rv r by (simp_all add: prepare_def split: if_splits)
  obtain b q where bq: "ring_interval kind raw = Inr (b, q)"
    using assms(1) rv r i by (cases "ring_interval kind raw") (auto simp: prepare_def split: if_splits)
  let ?raw = "if kind = ''ring_health'' then AList.delete ''drop_bytes'' raw else raw"
  obtain extra where x: "record_entry kind ?raw = Inr extra"
    using assms(1) rv r i bq by (cases "record_entry kind ?raw") (simp_all add: prepare_def Let_def split: if_splits)
  have p: "pr_kind p = kind" "pr_begin p = b" "pr_position p = q"
      "pr_progress_key p = (if kind = ''ring_health'' then ''drops:'' else ''ring:'') @ r"
      "pr_key p = (if kind = ''ring_health'' then e @ '':drops:'' @ r @ '':'' @ str_int q else record_key e r b)"
      "pr_body p = [(''type'', JStr kind), (''source_id'', JStr e), (''source'', JObj sf), (''event_id'', JStr (pr_key p)),
         (''raw'', JObj ?raw), (''schema'', JStr ''application_stream/v1'')] @ extra"
    using assms(1) rv r i bq x by (auto simp: prepare_def Let_def record_key_def split: if_splits)
  show thesis
  proof (cases "kind = ''ring_health''")
    case True
    show thesis
      by (rule drops [of r]) (use True p in \<open>auto simp: row_interval_def health_body_def jget_def\<close>)
  next
    case False
    then obtain bv qv where "jitem raw ''begin'' = Inr bv" "jint bv = Inr b" "jitem raw ''end'' = Inr qv" "jint qv = Inr q" "b < q"
      using bq by (auto simp: ring_interval_def err_simps split: if_splits)
    with False k rv r p ring_text_plain [OF r] show thesis
      by (intro ring [of r])
        (auto simp: row_interval_def health_body_def jget_def map_add_def jitem_def split: option.splits)
  qed
qed

lemma frame_txn_file:
  assumes inv: "file_inv S d" and e: "get d ''source_epoch'' = Some (Text e)" and p: "prepare (Some e) sf kind raw = Inr p"
    and txn: "frame_txn full rt p d = Inr d'"
  shows "file_inv S d'" "get d' ''source_epoch'' = Some (Text e)"
proof -
  have S: "rows_inv S d" "plain e" "e \<in> S" "at_checkpoint d e" using inv e by (auto simp: file_inv_def)
  have db: "\<exists>rt. db_inv rt d" using S(1) by (simp add: rows_inv_def)
  have other: "piece_of e' r row = []" if "row_interval row = Some (e, r', b, q)" "r \<noteq> r' \<or> e' \<noteq> e" for e' r r' b q row
    using that by (auto simp: piece_of_def)
  have "file_inv S d' \<and> get d' ''source_epoch'' = Some (Text e)"
    using txn
  proof (cases rule: frame_txnD)
    case (replay q)
    then show ?thesis using inv e by simp
  next
    case (store prev d1)
    let ?row = "\<lparr>row_id = next_id d, event_key = pr_key p, fingerprint = pr_fingerprint p, body = health_body p prev\<rparr>"
    from p S(2) show ?thesis
    proof (cases rule: prepareD)
      case (drops r)
      have g: "get d' (''ring:'' @ r') = get d (''ring:'' @ r')" "get d' ''source_epoch'' = get d ''source_epoch''" for r'
        using store(2) insert_event_state [OF store(1)] drops(2) by (simp_all add: get_def put_state_def)
      from db store(1) show ?thesis
      proof (cases rule: insert_event_rows)
        case (found row)
        then have "events d' = events d" "rows_inv S d'" using store(2) S(1) by (simp_all add: put_state_def)
        then show ?thesis
          using S e g at_checkpoint_added [OF S(4), of ?row d' 0] no_piece(1) [OF drops(4)] by (simp add: file_inv_def)
      next
        case (added k)
        have "row_form S ?row" using drops(3,4) S(2) unfolding row_form_def by auto
        then have "rows_inv S d'"
          unfolding store(2) added(1) rows_inv_state using S(1) added(2) no_piece(2) [OF drops(4)] by (intro rows_inv_added) auto
        moreover have "at_checkpoint d' e"
          by (rule at_checkpoint_added [OF S(4), of ?row _ k])
            (use g no_piece(1) [OF drops(4)] in \<open>simp_all add: store(2) added(1) put_state_def\<close>)
        ultimately show ?thesis using S e g by (simp add: file_inv_def)
      qed
    next
      case (ring r)
      let ?b = "pr_begin p" and ?q = "pr_position p"
      have at: "pieces e r (events d) \<noteq> [] \<Longrightarrow> snd (last (pieces e r (events d))) = ?b"
        using S(4) store(3) ring(1,3) by (auto simp: at_checkpoint_def)
      have fresh: "event_key row \<noteq> pr_key p" if "row \<in> set (events d)" for row
      proof
        assume key: "event_key row = pr_key p"
        have "row_form S row" using S(1) that by (simp add: rows_inv_def)
        from row_form_record [OF this key [unfolded ring(4)] S(2) ring(2)]
        obtain q where "row_interval row = Some (e, r, ?b, q)" by blast
        then have m: "(?b, q) \<in> set (pieces e r (events d))" using that by (auto simp: pieces_def piece_of_def intro!: bexI [of _ row])
        then have "pieces e r (events d) \<noteq> []" by auto
        moreover have "?b < snd (last (pieces e r (events d)))"
          using tiles_below S(1) m by (fastforce simp: rows_inv_def)
        ultimately show False using at by simp
      qed
      obtain k where k: "d1 = d\<lparr>events := drop k (events d) @ [?row], next_id := next_id d + 1\<rparr>" "pr_key p \<notin> event_key ` set (events d)"
        using db store(1) fresh by (cases rule: insert_event_rows) auto
      have iv: "row_interval ?row = Some (e, r, ?b, ?q)" by (rule ring(6))
      have "row_form S ?row" using iv ring(2,4) S(2,3) unfolding row_form_def by auto
      moreover have "continues (events d) ?row" using iv ring(5) at by (simp add: continues_def)
      ultimately have "rows_inv S d'"
        unfolding store(2) k(1) rows_inv_state using S(1) k(2) by (intro rows_inv_added) auto
      moreover have "at_checkpoint d' e"
        unfolding at_checkpoint_def
      proof (intro allI impI)
        fix r' assume ne: "pieces e r' (events d') \<noteq> []"
        have ev: "events d' = drop k (events d) @ [?row]" by (simp add: store(2) k(1) put_state_def)
        show "\<exists>fp. get d' (''ring:'' @ r') = Some (Progress (snd (last (pieces e r' (events d')))) fp)"
        proof (cases "r' = r")
          case True
          have "last (pieces e r (events d')) = (?b, ?q)" using iv by (simp add: ev pieces_def piece_of_def)
          then show ?thesis using True ring(3) by (simp add: store(2) put_state_def get_def)
        next
          case False
          then have "pieces e r' (events d') = pieces e r' (drop k (events d))" using other [OF iv] by (simp add: ev pieces_def)
          moreover obtain zs where "pieces e r' (events d) = zs @ pieces e r' (drop k (events d))" using pieces_drop by blast
          ultimately have "pieces e r' (events d) \<noteq> []" "last (pieces e r' (events d')) = last (pieces e r' (events d))" using ne by auto
          moreover have "get d' (''ring:'' @ r') = get d (''ring:'' @ r')" using False ring(3) by (simp add: store(2) k(1) put_state_def get_def)
          ultimately show ?thesis using S(4) by (simp add: at_checkpoint_def)
        qed
      qed
      moreover have "get d' ''source_epoch'' = Some (Text e)" using e ring(3) by (simp add: store(2) k(1) put_state_def get_def)
      ultimately show ?thesis using S by (simp add: file_inv_def)
    qed
  qed
  then show "file_inv S d'" "get d' ''source_epoch'' = Some (Text e)" by blast+
qed

text \<open>A journal that a run works on: its source is that of the file, or it has none yet.\<close>

definition run_inv :: "string set \<Rightarrow> journal \<Rightarrow> bool" where
  "run_inv S j = (file_inv S (db j) \<and> (\<forall>e. source j = Some e \<longrightarrow> get (db j) ''source_epoch'' = Some (Text e)))"

lemma accept_run:
  assumes "run_inv S j" "accept full epoch j frame = (j', x)" "plain epoch" "epoch \<notin> S"
  shows "run_inv (insert epoch S) j'"
proof (cases x)
  case (Some y)
  then have "j' = j" using assms(2) accept_refused by blast
  then show ?thesis using assms(1) file_inv_mono [of S _ "insert epoch S"] by (auto simp: run_inv_def)
next
  case None
  with assms(2) have "accept full epoch j frame = (j', None)" by simp
  then show ?thesis
  proof (cases rule: accept_okD)
    case (source d)
    have "file_inv (insert epoch S) d" using source_txn_file [OF _ source(2) assms(3,4)] assms(1) by (simp add: run_inv_def)
    then show ?thesis using source(3) by (auto simp: run_inv_def split: option.splits sval.splits)
  next
    case (ring p d k)
    then obtain e where e: "source j = Some e" by (cases "source j") (auto simp: prepare_def)
    with assms(1) have "get (db j) ''source_epoch'' = Some (Text e)" "file_inv S (db j)" by (auto simp: run_inv_def)
    with frame_txn_file [OF _ _ _ ring(4)] ring(3) e have "file_inv S d" "get d ''source_epoch'' = Some (Text e)" by auto
    then show ?thesis using ring(5) e file_inv_mono [of S d "insert epoch S"] by (auto simp: run_inv_def)
  qed
qed

lemma collect_line_run:
  assumes "run_inv S j" "plain (snd (snd l))" "snd (snd l) \<notin> S"
  shows "run_inv (insert (snd (snd l)) S) (fst (collect_line loads j l))"
proof -
  obtain line full epoch where l: "l = (line, full, epoch)" by (cases l)
  have j: "run_inv (insert epoch S) j" using assms(1) file_inv_mono [of S _ "insert epoch S"] by (auto simp: run_inv_def)
  have a: "run_inv (insert epoch S) j'" if "accept full epoch j f = (j', x)" for f j' x
    using accept_run [OF assms(1) that] assms(2,3) l by simp
  show ?thesis
    using j l by (auto simp: collect_line_def split: sum.splits jval.splits prod.splits option.splits dest: a)
qed

abbreviation epochs :: "reader_line list \<Rightarrow> string list" where
  "epochs ls \<equiv> map (\<lambda>l. snd (snd l)) ls"

lemma collect_loop_run:
  assumes "run_inv S j" "distinct (epochs ls)" "\<forall>e \<in> set (epochs ls). plain e \<and> e \<notin> S"
  shows "run_inv (S \<union> set (epochs ls)) (fst (collect_loop loads j ls acks))"
  using assms
proof (induction ls arbitrary: S j acks)
  case (Cons l ls)
  have mono: "run_inv S j \<Longrightarrow> S \<subseteq> T \<Longrightarrow> run_inv T j" for S T j using file_inv_mono by (auto simp: run_inv_def)
  let ?S = "insert (snd (snd l)) S"
  obtain j1 r where c: "collect_line loads j l = (j1, r)" by (cases "collect_line loads j l")
  have j1: "run_inv ?S j1" using collect_line_run [OF Cons.prems(1), of l loads] Cons.prems(3) c by simp
  show ?case
  proof (cases "fst l = [] \<or> (\<exists>x. r = Inl x)")
    case True
    then show ?thesis using c mono [OF Cons.prems(1)] mono [OF j1] by (auto simp del: Un_insert_right)
  next
    case False
    then obtain ack where "r = Inr ack" by (cases r) auto
    moreover have n: "snd (snd l) \<notin> set (epochs ls)" "distinct (epochs ls)" "\<forall>e \<in> set (epochs ls). plain e \<and> e \<notin> S"
      using Cons.prems(2,3) by simp_all
    moreover have "\<forall>e \<in> set (epochs ls). plain e \<and> e \<notin> ?S" using n(1,3) by blast
    ultimately show ?thesis using False c Cons.IH [OF j1, of "acks @ [ack]"] by simp
  qed
qed simp

lemma collect_run_file:
  assumes "file_inv S d" "distinct (epochs ls)" "\<forall>e \<in> set (epochs ls). plain e \<and> e \<notin> S"
  shows "file_inv (S \<union> set (epochs ls)) (collect_run loads d (uuid, rt, pages, ls))"
proof (cases "init_journal uuid rt pages d")
  case (Inl x)
  then show ?thesis using file_inv_mono [OF assms(1)] by (simp add: collect_run_def)
next
  case (Inr j)
  then have "db j = d \<or> db j = put_state d ''journal_id'' (Text uuid)" "source j = None"
    by (auto simp: init_journal_def split: if_splits option.splits)
  moreover have "file_inv S (put_state d ''journal_id'' v)" for v
    using assms(1) by (auto simp: file_inv_def at_checkpoint_def) (auto simp: put_state_def get_def)
  ultimately have "run_inv S j" using assms(1) by (auto simp: run_inv_def)
  from collect_loop_run [OF this assms(2,3)] show ?thesis using Inr by (simp add: collect_run_def run_inv_def)
qed

definition empty_db :: jdb where
  "empty_db = \<lparr>events = [], state = Map.empty, next_id = 1\<rparr>"

abbreviation run_epochs :: "run_input list \<Rightarrow> string list" where
  "run_epochs runs \<equiv> concat (map (\<lambda>r. epochs (snd (snd (snd r)))) runs)"

lemma runs_file:
  assumes "file_inv S d" "distinct (run_epochs runs)" "\<forall>e \<in> set (run_epochs runs). plain e \<and> e \<notin> S"
  shows "\<exists>T. file_inv T (foldl (collect_run loads) d runs)"
  using assms
proof (induction runs arbitrary: S d)
  case (Cons r runs)
  obtain uuid rt pages ls where r: "r = (uuid, rt, pages, ls)" by (cases r)
  let ?S = "S \<union> set (epochs ls)" and ?d = "collect_run loads d r"
  have f: "file_inv ?S ?d" unfolding r by (rule collect_run_file [OF Cons.prems(1)]) (use Cons.prems(2,3) r in auto)
  have "distinct (run_epochs runs)" "\<forall>e \<in> set (run_epochs runs). plain e \<and> e \<notin> ?S" using Cons.prems(2,3) r by auto
  from Cons.IH [OF f this] show ?case by simp
qed auto

text \<open>
  C3. No restart loses or repeats a position. Over any sequence of runs of the collector on one journal file, each with its own limits, with
  refused, malformed and repeated lines, writes that fail and runs that end anywhere, and with epochs that are drawn without
  repetition and have no colon (\<^verbatim>\<open>uuid4().hex\<close>): the retained record and discard rows of a ring under one source are intervals that
  follow each other without a gap or an overlap, those of the current source end at the checkpoint of the ring, where
  the next one has to begin, and no event key is there twice.
\<close>

theorem runs_tile:
  assumes "distinct (run_epochs runs)" "\<forall>e \<in> set (run_epochs runs). plain e"
    and "d = foldl (collect_run loads) empty_db runs"
  shows "tiles (pieces e r (events d)) \<and> distinct (map event_key (events d)) \<and>
    (get d ''source_epoch'' = Some (Text e) \<longrightarrow> pieces e r (events d) \<noteq> [] \<longrightarrow>
       (\<exists>fp. get d (''ring:'' @ r) = Some (Progress (snd (last (pieces e r (events d)))) fp)))"
proof -
  have "file_inv {} empty_db"
    by (auto simp: file_inv_def rows_inv_def empty_db_def db_inv_def pieces_def get_def)
  from runs_file [OF this assms(1), of loads] assms(2,3) obtain T where "file_inv T d" by auto
  then show ?thesis by (auto simp: file_inv_def rows_inv_def at_checkpoint_def db_inv_def)
qed

text \<open>Two runs: the second sends the source and the last interval again, then the next interval.\<close>

definition source_sample :: jobj where
  "source_sample = [(''kind'', JStr ''source''), (''token'', JStr ''s'')]"

definition sample_loads :: "string \<Rightarrow> jval result" where
  "sample_loads line =
     (if line = ''S'' @ [CHR 0x0A] then Inr (JObj source_sample)
      else if line = ''A'' @ [CHR 0x0A] then Inr (JObj (sample_frame 0 5))
      else if line = ''B'' @ [CHR 0x0A] then Inr (JObj (sample_frame 5 9))
      else Inl (ValueError ''Expecting value''))"

definition sample_runs :: "run_input list" where
  "sample_runs =
     [(''u'', 5, 64, [(''S'' @ [CHR 0x0A], False, ''e''), (''A'' @ [CHR 0x0A], False, ''f'')]),
      (''v'', 4, 64, [(''S'' @ [CHR 0x0A], False, ''g''), (''A'' @ [CHR 0x0A], True, ''h''), (''B'' @ [CHR 0x0A], False, ''i'')])]"

lemma sample_sizes:
  "\<not> length (canonical (JObj (strip_token source_sample))) > MAX_FRAME"
  "\<not> length (canonical (JObj (strip_token (sample_frame 0 5)))) > MAX_FRAME"
  "\<not> length (canonical (JObj (strip_token (sample_frame 5 9)))) > MAX_FRAME"
  by code_simp+

lemma sample_digits: "str_int 0 = ''0''" "str_int 5 = ''5''"
  by code_simp+

lemmas sample_run_simps =
  collect_run_def init_journal_def collect_line_def accept_def source_txn_def prepare_def frame_txn_def insert_event_def
  ring_interval_def record_entry_def health_body_def put_state_def get_def jitem_def Let_def trim_def newest_ids_def progress_key_def

lemma sample_runs_end:
  "\<exists>d. foldl (collect_run sample_loads) empty_db sample_runs = d \<and> pieces ''e'' ''0'' (events d) = [(0, 5), (5, 9)] \<and>
     get d ''source_epoch'' = Some (Text ''e'')"
  using sample_sizes sample_digits
  by (simp add: sample_runs_def sample_loads_def sample_run_simps empty_db_def source_sample_def sample_frame_def strip_token_def
      MAX_FRAME_def pieces_def piece_of_def row_interval_def jget_def)

theorem runs_tile_witness:
  "\<exists>d fp. d = foldl (collect_run sample_loads) empty_db sample_runs \<and> pieces ''e'' ''0'' (events d) = [(0, 5), (5, 9)] \<and>
     tiles (pieces ''e'' ''0'' (events d)) \<and> get d ''ring:0'' = Some (Progress 9 fp)"
proof -
  obtain d where d: "d = foldl (collect_run sample_loads) empty_db sample_runs" "pieces ''e'' ''0'' (events d) = [(0, 5), (5, 9)]"
    "get d ''source_epoch'' = Some (Text ''e'')" using sample_runs_end by blast
  have "distinct (run_epochs sample_runs)" "\<forall>e \<in> set (run_epochs sample_runs). plain e" by (simp_all add: sample_runs_def)
  from runs_tile [OF this d(1), of "''e''" "''0''"] d show ?thesis by auto
qed

end
