(* ===== verification/Evidence_Joins.thy ===== *)
theory Evidence_Joins
  imports Py_Text
begin

text \<open>
  The two conservative joins of \<^verbatim>\<open>env/ai-traffic\<close>: \<^verbatim>\<open>attribution_join.py\<close> and
  \<^verbatim>\<open>correlation_join.py\<close>. Both match observations with an authority's ledger by an untrusted
  candidate (path and nonce) and must attribute only what is unambiguous and authenticated.
\<close>

section \<open>The attribution join\<close>

definition integer :: "jval \<Rightarrow> bool" where
  "integer v = (case v of JInt _ \<Rightarrow> True | _ \<Rightarrow> False)"

type_synonym cand = "string \<times> string"

definition candidate :: "jobj \<Rightarrow> cand option" where
  "candidate row =
     (case jget row ''path'' of
        JStr path \<Rightarrow>
          if \<not> is_prefix ''/'' path then None
          else (case jget row ''nonce'' of
             JStr nonce \<Rightarrow> if nonce = [] then None else Some (path, nonce)
           | _ \<Rightarrow> None)
      | _ \<Rightarrow> None)"

definition request_identity :: "jobj \<Rightarrow> (string \<times> int) option" where
  "request_identity event =
     (case (jget event ''process_session'', jget event ''request_seq'') of
        (JStr s, JInt n) \<Rightarrow> if s = [] \<or> n < 1 then None else Some (s, n)
      | _ \<Rightarrow> None)"

definition window_error :: "jobj list \<Rightarrow> jobj list \<Rightarrow> jobj \<Rightarrow> bool \<Rightarrow> string option" where
  "window_error observations ledger accounting scope_validated =
     (let n = int (length observations);
          expected = [(''requests'', n), (''fired'', n), (''events'', n), (''ledger_attempts'', n),
                      (''drops'', 0), (''errors'', 0)] in
      if \<not> scope_validated then Some ''unvalidated_request_scope''
      else if length ledger \<noteq> length observations \<or>
              list_ex (\<lambda>(k, v). \<not> integer (jget accounting k) \<or> jget accounting k \<noteq> JInt v) expected
      then Some ''incomplete_or_lossy_window''
      else if list_ex (\<lambda>e. request_identity e = None) observations
      then Some ''invalid_request_identity''
      else if \<not> distinct (map request_identity observations) then Some ''duplicate_request_identity''
      else None)"

record join_row =
  j_session :: jval
  j_seq :: jval
  j_config_instance :: jval
  j_config_revision :: jval
  j_status :: string
  j_reason :: "string option"
  authenticated_actor :: jval
  j_operation :: jval
  j_originator :: jval
  j_parent :: jval
  j_attempt :: jval
  j_claimed_actor :: jval
  j_accepted :: bool
  j_authority_reason :: jval
  j_auth_evidence :: jval

definition base_row :: "jobj \<Rightarrow> string option \<Rightarrow> join_row" where
  "base_row event error =
     \<lparr>j_session = jget event ''process_session'', j_seq = jget event ''request_seq'',
      j_config_instance = jget event ''config_instance'', j_config_revision = jget event ''config_revision'',
      j_status = ''unknown'', j_reason = error, authenticated_actor = JNull, j_operation = JNull,
      j_originator = JNull, j_parent = JNull, j_attempt = JNull, j_claimed_actor = JNull,
      j_accepted = False, j_authority_reason = JNull, j_auth_evidence = JNull\<rparr>"

definition matched_row :: "join_row \<Rightarrow> jobj \<Rightarrow> join_row" where
  "matched_row row authority =
     (let accepted = (jget authority ''accepted'' = JBool True);
          row = row\<lparr>j_attempt := jget authority ''attempt'', j_claimed_actor := jget authority ''claimed_actor'',
                    j_accepted := accepted, j_authority_reason := jget authority ''reason''\<rparr>
      in if accepted \<and> \<not> truthy (jget authority ''operation'')
         then row\<lparr>j_reason := Some ''incomplete_authority_record''\<rparr>
         else if \<not> truthy (jget authority ''actor'') \<or> \<not> truthy (jget authority ''auth_evidence'')
         then row\<lparr>j_reason := Some ''no_authentication_evidence''\<rparr>
         else let row = row\<lparr>authenticated_actor := jget authority ''actor'',
                             j_auth_evidence := jget authority ''auth_evidence'',
                             j_status := ''rejected'', j_reason := Some ''authority_rejected''\<rparr>
              in if accepted \<and> truthy (jget authority ''operation'')
                 then row\<lparr>j_status := ''attributed'', j_reason := Some ''unique_authenticated_attempt'',
                          j_operation := jget authority ''operation'',
                          j_originator := jget authority ''originator'', j_parent := jget authority ''parent''\<rparr>
                 else row)"

definition join_event :: "jobj list \<Rightarrow> jobj list \<Rightarrow> string option \<Rightarrow> jobj \<Rightarrow> join_row" where
  "join_event observations ledger error event =
     (let row = base_row event error in
      if error \<noteq> None then row
      else let key = candidate event; matches = filter (\<lambda>r. candidate r = key) ledger in
        if key = None then row\<lparr>j_reason := Some ''missing_candidate''\<rparr>
        else if length (filter (\<lambda>e. candidate e = key) observations) \<noteq> 1 \<or> length matches > 1
        then row\<lparr>j_reason := Some ''ambiguous_candidate''\<rparr>
        else (case matches of [] \<Rightarrow> row\<lparr>j_reason := Some ''missing_ledger_match''\<rparr>
              | authority # _ \<Rightarrow> matched_row row authority))"

definition attribution_join :: "jobj list \<Rightarrow> jobj list \<Rightarrow> jobj \<Rightarrow> bool \<Rightarrow> join_row list" where
  "attribution_join observations ledger accounting scope_validated =
     (let error = window_error observations ledger accounting scope_validated
      in map (join_event observations ledger error) observations)"

lemma base_row_status [simp]: "j_status (base_row e x) = ''unknown''"
  by (simp add: base_row_def)

lemma matched_row_attributed:
  "j_status row = ''unknown'' \<Longrightarrow> j_status (matched_row row a) = ''attributed'' \<Longrightarrow>
   jget a ''accepted'' = JBool True \<and> truthy (jget a ''operation'') \<and> truthy (jget a ''actor'') \<and>
   truthy (jget a ''auth_evidence'') \<and> authenticated_actor (matched_row row a) = jget a ''actor'' \<and>
   j_operation (matched_row row a) = jget a ''operation'' \<and> j_attempt (matched_row row a) = jget a ''attempt''"
  by (auto simp: matched_row_def Let_def split: if_splits)

lemma length_filter_1: "length (filter P xs) = 1 \<Longrightarrow> \<exists>!i. i < length xs \<and> P (xs ! i)"
proof -
  assume "length (filter P xs) = 1"
  then have "card {i. i < length xs \<and> P (xs ! i)} = 1" by (simp add: length_filter_conv_card)
  then obtain i where i: "{i. i < length xs \<and> P (xs ! i)} = {i}" by (rule card_1_singletonE)
  show ?thesis by (rule ex1I [of _ i]) (use i in blast)+
qed

lemma join_event_attributed:
  assumes "j_status (join_event obs ledger error e) = ''attributed''"
  shows "error = None" and "candidate e \<noteq> None"
    and "length (filter (\<lambda>d. candidate d = candidate e) obs) = 1"
    and "\<exists>a. filter (\<lambda>r. candidate r = candidate e) ledger = [a] \<and>
           join_event obs ledger error e = matched_row (base_row e error) a"
  using assms by (auto simp: join_event_def Let_def length_Suc_conv split: if_splits list.splits)

text \<open>
  C19. The join attributes an observation only on an accounted window and unique evidence: there is no
  window error, the observation's candidate occurs once among the observations and once in the
  ledger, and that one ledger entry was accepted and carries an operation, an actor and its
  authentication evidence, which are the ones reported.
\<close>

theorem attribution_sound:
  assumes "i < length obs" and "j_status (attribution_join obs ledger accounting scope ! i) = ''attributed''"
  shows "window_error obs ledger accounting scope = None \<and>
    (\<exists>!k. k < length obs \<and> candidate (obs ! k) = candidate (obs ! i)) \<and>
    (\<exists>!k. k < length ledger \<and> candidate (ledger ! k) = candidate (obs ! i)) \<and>
    (\<exists>a \<in> set ledger. candidate a = candidate (obs ! i) \<and> jget a ''accepted'' = JBool True \<and>
       truthy (jget a ''operation'') \<and> truthy (jget a ''auth_evidence'') \<and>
       authenticated_actor (attribution_join obs ledger accounting scope ! i) = jget a ''actor'' \<and>
       truthy (jget a ''actor'') \<and>
       j_operation (attribution_join obs ledger accounting scope ! i) = jget a ''operation'')"
proof -
  let ?err = "window_error obs ledger accounting scope"
  let ?row = "attribution_join obs ledger accounting scope ! i"
  have row: "?row = join_event obs ledger ?err (obs ! i)"
    using assms(1) by (simp add: attribution_join_def Let_def)
  note D = join_event_attributed [OF assms(2) [unfolded row]]
  from D(4) obtain a where a: "filter (\<lambda>r. candidate r = candidate (obs ! i)) ledger = [a]"
    "?row = matched_row (base_row (obs ! i) ?err) a" using row by auto
  have "a \<in> set (filter (\<lambda>r. candidate r = candidate (obs ! i)) ledger)" unfolding a(1) by simp
  then have in_ledger: "a \<in> set ledger \<and> candidate a = candidate (obs ! i)" by simp
  have "length (filter (\<lambda>r. candidate r = candidate (obs ! i)) ledger) = 1" using a(1) by simp
  then have "\<exists>!k. k < length ledger \<and> candidate (ledger ! k) = candidate (obs ! i)"
    by (rule length_filter_1)
  moreover have "\<exists>!k. k < length obs \<and> candidate (obs ! k) = candidate (obs ! i)"
    using D(3) by (rule length_filter_1)
  moreover have "j_status (matched_row (base_row (obs ! i) ?err) a) = ''attributed''" using assms(2) a(2) by simp
  note M = matched_row_attributed [OF base_row_status this]
  ultimately show ?thesis using D(1) in_ledger M a(2) by auto
qed

theorem attribution_sound_witness:
  "\<exists>a. a = [(''path'', JStr ''/mcp''), (''nonce'', JStr ''n''), (''accepted'', JBool True),
            (''operation'', JStr ''op''), (''actor'', JStr ''agent-A''), (''auth_evidence'', JStr ''hmac'')] \<and>
     authenticated_actor (attribution_join
       [[(''path'', JStr ''/mcp''), (''nonce'', JStr ''n''), (''process_session'', JStr ''s''), (''request_seq'', JInt 1)]]
       [a]
       [(''requests'', JInt 1), (''fired'', JInt 1), (''events'', JInt 1), (''ledger_attempts'', JInt 1),
        (''drops'', JInt 0), (''errors'', JInt 0)] True ! 0) = JStr ''agent-A''"
  (is "\<exists>a. a = ?a \<and> authenticated_actor (attribution_join ?obs [a] ?acc True ! 0) = _")
proof -
  have "j_status (attribution_join ?obs [?a] ?acc True ! 0) = ''attributed''" by code_simp
  from attribution_sound [of 0 ?obs "[?a]" ?acc True, OF _ this] show ?thesis
    by (auto simp: jget_def)
qed

section \<open>The correlation join\<close>

text \<open>
  The events of the recorded window carry integers in their numeric fields. \<open>life_step\<close> is the body of
  the loop over the lifetimes: \<open>None\<close> is a failed assertion.
\<close>

record lifetime_event =
  c_sequence :: int
  c_run :: int
  c_failures :: int
  l_kind :: int
  l_value :: int
  l_life :: int
  l_attempt :: int
  l_flags :: int

record candidate_event =
  k_sequence :: int
  k_run :: int
  k_failures :: int
  k_life :: int
  k_attempt :: int
  k_flags :: int
  k_path :: jval
  k_nonce :: jval

record life_state =
  born :: "int list"
  ended :: "int list"
  attempts :: "int \<Rightarrow> int"
  waiting :: "int \<Rightarrow> bool"

definition life_step :: "life_state \<Rightarrow> lifetime_event \<Rightarrow> life_state option" where
  "life_step s e =
     (let life = l_life e in
      if l_kind e = 1
      then if l_flags e = 0 \<and> life > 0 \<and> life \<notin> set (born s) \<and>
              (l_value e = 0 \<or> l_value e \<in> set (ended s))
           then Some (s\<lparr>born := life # born s\<rparr>) else None
      else if l_flags e = 32
      then if life = 0 \<and> l_attempt e = 0 then Some s else None
      else if l_kind e = 2
      then if l_flags e = 0 \<and> life \<in> set (born s) \<and> life \<notin> set (ended s) \<and> l_value e \<in> {0, 17}
           then let n = (if waiting s life then attempts s life else attempts s life + 1) in
                if l_attempt e = n
                then Some (s\<lparr>attempts := (attempts s)(life := n), waiting := (waiting s)(life := l_value e = 17)\<rparr>)
                else None
           else None
      else if l_kind e = 3 \<and> life \<in> set (born s) \<and> life \<notin> set (ended s) \<and>
              l_flags e = (if waiting s life then 256 else 0) \<and> l_attempt e = attempts s life
      then Some (s\<lparr>ended := life # ended s\<rparr>) else None)"

fun life_steps :: "life_state \<Rightarrow> lifetime_event list \<Rightarrow> life_state option" where
  "life_steps s [] = Some s"
| "life_steps s (e # es) = (case life_step s e of None \<Rightarrow> None | Some s' \<Rightarrow> life_steps s' es)"

definition no_lives :: life_state where
  "no_lives = \<lparr>born = [], ended = [], attempts = (\<lambda>_. 0), waiting = (\<lambda>_. False)\<rparr>"

definition lives_balanced :: "lifetime_event list \<Rightarrow> bool" where
  "lives_balanced es =
     (case life_steps no_lives es of None \<Rightarrow> False | Some s \<Rightarrow> set (born s) = set (ended s))"

definition completed :: "lifetime_event list \<Rightarrow> lifetime_event list" where
  "completed es = filter (\<lambda>e. l_kind e = 2 \<and> l_value e = 0) es"

definition kind_count :: "int \<Rightarrow> lifetime_event list \<Rightarrow> int" where
  "kind_count k es = int (length (filter (\<lambda>e. l_kind e = k) es))"

definition window_ok ::
  "lifetime_event list \<Rightarrow> candidate_event list \<Rightarrow> jobj list \<Rightarrow> jobj \<Rightarrow> bool"
where
  "window_ok lifetimes candidates ledger accounting \<longleftrightarrow>
     (let seqs = sort (map c_sequence lifetimes @ map k_sequence candidates);
          runs = map c_run lifetimes @ map k_run candidates
      in seqs \<noteq> [] \<and> seqs = map int [1..<length seqs + 1] \<and>
         list_all (\<lambda>r. r = hd runs) runs \<and> hd runs > 0 \<and>
         list_all (\<lambda>f. f = 0) (map c_failures lifetimes @ map k_failures candidates) \<and>
         list_all (\<lambda>(k, n). jget accounting k = JInt n)
           [(''init'', kind_count 1 lifetimes), (''parse'', kind_count 2 lifetimes),
            (''fini'', kind_count 3 lifetimes), (''candidate'', int (length candidates)),
            (''drops'', 0), (''errors'', 0), (''selections'', 0)] \<and>
         length ledger = length (completed lifetimes) \<and> lives_balanced lifetimes)"

definition hex_nonce :: "string \<Rightarrow> bool" where
  "hex_nonce s \<longleftrightarrow> length s = 32 \<and> list_all (\<lambda>c. c \<in> set ''0123456789abcdefABCDEF'') s"

definition interval_value :: "candidate_event list \<Rightarrow> lifetime_event \<Rightarrow> cand option" where
  "interval_value candidates e =
     (let group = (if l_life e \<noteq> 0
                   then filter (\<lambda>c. (k_life c, k_attempt c) = (l_life e, l_attempt e)) candidates else []);
          terminal = filter (\<lambda>c. k_flags c = 1) group in
      case terminal of
        [c] \<Rightarrow>
          if list_all (\<lambda>c. k_flags c \<in> {0, 1}) group \<and> list_all (\<lambda>c. k_sequence c < c_sequence e) group
          then (case (k_path c, k_nonce c) of
             (JStr p, JStr n) \<Rightarrow>
               if p \<in> {''/mcp'', ''/a2a'', ''/delegate''} \<and> hex_nonce n then Some (p, n) else None
           | _ \<Rightarrow> None)
          else None
      | _ \<Rightarrow> None)"

record corr_row =
  cr_sequence :: int
  cr_life :: int
  cr_attempt :: int
  cr_status :: string
  cr_reason :: string
  cr_actor :: jval
  cr_operation :: jval
  cr_authority_attempt :: jval
  cr_originator :: jval
  cr_parent :: jval

definition corr_base :: "lifetime_event \<Rightarrow> string \<Rightarrow> corr_row" where
  "corr_base e reason =
     \<lparr>cr_sequence = c_sequence e, cr_life = l_life e, cr_attempt = l_attempt e, cr_status = ''unknown'',
      cr_reason = reason, cr_actor = JNull, cr_operation = JNull, cr_authority_attempt = JNull,
      cr_originator = JNull, cr_parent = JNull\<rparr>"

definition ledger_matches :: "jobj list \<Rightarrow> cand \<Rightarrow> jobj list" where
  "ledger_matches ledger key =
     filter (\<lambda>r. jget r ''path'' = JStr (fst key) \<and> jget r ''nonce'' = JStr (snd key)) ledger"

definition corr_matched :: "lifetime_event \<Rightarrow> jobj \<Rightarrow> corr_row result" where
  "corr_matched e m =
     ebind (jitem m ''attempt'') (\<lambda>att.
       let row = (corr_base e [])\<lparr>cr_authority_attempt := att\<rparr> in
       Inr (if \<not> truthy (jget m ''actor'') \<or> \<not> truthy (jget m ''auth_evidence'')
            then row\<lparr>cr_reason := ''no_authentication_evidence''\<rparr>
            else if jget m ''accepted'' = JBool False
            then row\<lparr>cr_status := ''rejected'', cr_reason := ''authority_rejected'', cr_actor := jget m ''actor''\<rparr>
            else if jget m ''accepted'' = JBool True \<and> truthy (jget m ''operation'')
            then row\<lparr>cr_status := ''attributed'', cr_reason := ''unique_authenticated_fixture_attempt'',
                     cr_actor := jget m ''actor'', cr_operation := jget m ''operation'',
                     cr_originator := jget m ''originator'', cr_parent := jget m ''parent''\<rparr>
            else row\<lparr>cr_reason := ''incomplete_authority_record''\<rparr>))"

definition corr_event ::
  "cand option list \<Rightarrow> jobj list \<Rightarrow> lifetime_event \<times> cand option \<Rightarrow> corr_row result"
where
  "corr_event values ledger ek =
     (let (e, key) = ek in
      if l_life e = 0 then Inr (corr_base e ''missing_parser_initialization'')
      else case key of
        None \<Rightarrow> Inr (corr_base e ''unavailable_candidate'')
      | Some k \<Rightarrow>
          if count_list values (Some k) \<noteq> 1 \<or> length (ledger_matches ledger k) > 1
          then Inr (corr_base e ''ambiguous_candidate'')
          else (case ledger_matches ledger k of
             [] \<Rightarrow> Inr (corr_base e ''missing_ledger_match'')
           | m # _ \<Rightarrow> corr_matched e m))"

definition correlation_join ::
  "lifetime_event list \<Rightarrow> candidate_event list \<Rightarrow> jobj list \<Rightarrow> jobj \<Rightarrow> corr_row list result"
where
  "correlation_join lifetimes candidates ledger accounting =
     (let es = completed lifetimes in
      if \<not> window_ok lifetimes candidates ledger accounting
      then Inr (map (\<lambda>e. corr_base e ''incomplete_or_invalid_window'') es)
      else let values = map (interval_value candidates) es
           in emap (corr_event values ledger) (zip es values))"

text \<open>
  In an accepted window the completed parses of one lifetime have different attempt numbers, so that
  an interval names one completed parse.
\<close>

definition interval :: "lifetime_event \<Rightarrow> int \<times> int" where
  "interval e = (l_life e, l_attempt e)"

definition life_inv :: "life_state \<Rightarrow> lifetime_event list \<Rightarrow> bool" where
  "life_inv s es \<longleftrightarrow> distinct (map interval es) \<and>
     (\<forall>e \<in> set es. l_attempt e \<le> attempts s (l_life e) \<and>
        (waiting s (l_life e) \<longrightarrow> l_attempt e < attempts s (l_life e)))"

abbreviation "finished e \<equiv> l_kind e = 2 \<and> l_value e = 0 \<and> l_life e \<noteq> 0"

lemma life_step_inv:
  assumes "life_step s e = Some s'" "life_inv s es"
  shows "life_inv s' (es @ filter (\<lambda>e. finished e) [e])"
proof (cases "l_kind e = 2 \<and> l_flags e \<noteq> 32")
  case False
  with assms have "attempts s' = attempts s" "waiting s' = waiting s" "\<not> finished e"
    by (auto simp: life_step_def Let_def split: if_splits)
  with assms(2) show ?thesis by (auto simp: life_inv_def)
next
  case True
  let ?L = "l_life e"
  let ?n = "if waiting s ?L then attempts s ?L else attempts s ?L + 1"
  from True assms(1) have a: "l_attempt e = ?n" "attempts s' = (attempts s)(?L := ?n)"
    "waiting s' = (waiting s)(?L := l_value e = 17)"
    by (auto simp: life_step_def Let_def split: if_splits)
  have below: "l_attempt d < ?n" if "d \<in> set es" "l_life d = ?L" for d
    using assms(2) that by (auto simp: life_inv_def)
  then have "interval e \<notin> interval ` set es" using a(1) by (force simp: interval_def)
  moreover have "l_attempt d \<le> attempts s' (l_life d) \<and> (waiting s' (l_life d) \<longrightarrow> l_attempt d < attempts s' (l_life d))"
    if "d \<in> set es" for d
    using below [OF that] assms(2) that a(2,3) by (cases "l_life d = ?L") (auto simp: life_inv_def)
  ultimately show ?thesis using assms(2) a by (auto simp: life_inv_def)
qed

lemma life_steps_inv:
  "life_steps s es = Some s' \<Longrightarrow> life_inv s done' \<Longrightarrow> life_inv s' (done' @ filter (\<lambda>e. finished e) es)"
proof (induction es arbitrary: s done')
  case (Cons e es)
  then obtain s1 where s1: "life_step s e = Some s1" "life_steps s1 es = Some s'"
    by (auto split: option.splits)
  from Cons.IH [OF s1(2) life_step_inv [OF s1(1) Cons.prems(2)]] show ?case by (auto split: if_splits)
qed simp

lemma balanced_intervals:
  assumes "lives_balanced es"
  shows "distinct (map interval (filter (\<lambda>e. finished e) es))"
proof -
  from assms obtain s where "life_steps no_lives es = Some s"
    by (auto simp: lives_balanced_def split: option.splits)
  moreover have "life_inv no_lives []" by (simp add: life_inv_def)
  ultimately have "life_inv s ([] @ filter (\<lambda>e. finished e) es)" by (rule life_steps_inv)
  then show ?thesis by (simp add: life_inv_def)
qed

lemma corr_matched_attributed:
  assumes "corr_matched e m = Inr row" "cr_status row = ''attributed''"
  shows "jget m ''accepted'' = JBool True" "truthy (jget m ''actor'')" "truthy (jget m ''auth_evidence'')"
    "truthy (jget m ''operation'')" "cr_actor row = jget m ''actor''" "cr_operation row = jget m ''operation''"
  using assms by (auto simp: corr_matched_def Let_def err_simps corr_base_def split: if_splits)

lemma correlation_row:
  assumes "correlation_join lifetimes candidates ledger accounting = Inr rows"
    and "i < length rows" and "cr_status (rows ! i) = ''attributed''"
  shows "length rows = length (completed lifetimes)" "window_ok lifetimes candidates ledger accounting"
    "\<forall>d \<in> set (completed lifetimes). interval d = interval (completed lifetimes ! i) \<longrightarrow> d = completed lifetimes ! i"
    "\<exists>k m. interval_value candidates (completed lifetimes ! i) = Some k \<and>
       count_list (map (interval_value candidates) (completed lifetimes)) (Some k) = 1 \<and>
       ledger_matches ledger k = [m] \<and> jget m ''accepted'' = JBool True \<and>
       truthy (jget m ''actor'') \<and> truthy (jget m ''auth_evidence'') \<and> truthy (jget m ''operation'') \<and>
       cr_actor (rows ! i) = jget m ''actor'' \<and> cr_operation (rows ! i) = jget m ''operation''"
proof -
  let ?es = "completed lifetimes"
  let ?vs = "map (interval_value candidates) ?es"
  have ok: "window_ok lifetimes candidates ledger accounting"
    using assms by (auto simp: correlation_join_def Let_def corr_base_def split: if_splits)
  with assms(1) have em: "emap (corr_event ?vs ledger) (zip ?es ?vs) = Inr rows"
    by (simp add: correlation_join_def Let_def)
  have len: "length rows = length ?es" using emap_length [OF em] by simp
  let ?e = "?es ! i"
  have i: "i < length ?es" using assms(2) len by simp
  have ev: "corr_event ?vs ledger (?e, interval_value candidates ?e) = Inr (rows ! i)"
    using emap_nth [OF em, of i] i by simp
  have base: "rows ! i \<noteq> corr_base e x" for e x
    using assms(3) by (auto simp: corr_base_def)
  note base = base base [symmetric]
  from ev base obtain k m where k: "interval_value candidates ?e = Some k" "l_life ?e \<noteq> 0"
    "count_list ?vs (Some k) = 1" "ledger_matches ledger k = [m]" "corr_matched ?e m = Inr (rows ! i)"
    by (auto simp: corr_event_def Let_def length_Suc_conv split: if_splits option.splits list.splits)
  note m = corr_matched_attributed [OF k(5) assms(3)]
  have fin: "filter (\<lambda>e. finished e) lifetimes = filter (\<lambda>e. l_life e \<noteq> 0) ?es"
    by (auto simp: completed_def intro: filter_cong)
  have "distinct (map interval (filter (\<lambda>e. l_life e \<noteq> 0) ?es))"
    using balanced_intervals [of lifetimes] ok unfolding fin by (simp add: window_ok_def Let_def)
  then have "inj_on interval (set (filter (\<lambda>e. l_life e \<noteq> 0) ?es))" by (simp add: distinct_map)
  then show "\<forall>d \<in> set ?es. interval d = interval ?e \<longrightarrow> d = ?e"
    using k(2) i nth_mem [OF i] by (auto simp: interval_def inj_on_def)
  show "length rows = length ?es" "window_ok lifetimes candidates ledger accounting" by (fact len, fact ok)
  show "\<exists>k m. interval_value candidates ?e = Some k \<and>
       count_list ?vs (Some k) = 1 \<and>
       ledger_matches ledger k = [m] \<and> jget m ''accepted'' = JBool True \<and>
       truthy (jget m ''actor'') \<and> truthy (jget m ''auth_evidence'') \<and> truthy (jget m ''operation'') \<and>
       cr_actor (rows ! i) = jget m ''actor'' \<and> cr_operation (rows ! i) = jget m ''operation''"
    using k(1,3,4) m by blast
qed

text \<open>
  The correlation join attributes a completed parse only in a fully accounted window, where its
  lifetime and attempt name no other completed parse, and only when its candidate value is the value
  of no other completed parse and matches exactly one ledger entry that was accepted with an actor,
  evidence and an operation.
\<close>

theorem correlation_sound:
  assumes "correlation_join lifetimes candidates ledger accounting = Inr rows"
    and "i < length rows" and "cr_status (rows ! i) = ''attributed''"
  shows "let e = completed lifetimes ! i in
    length rows = length (completed lifetimes) \<and>
    window_ok lifetimes candidates ledger accounting \<and>
    (\<forall>d \<in> set (completed lifetimes). interval d = interval e \<longrightarrow> d = e) \<and>
    (\<exists>k m. interval_value candidates e = Some k \<and>
       count_list (map (interval_value candidates) (completed lifetimes)) (Some k) = 1 \<and>
       ledger_matches ledger k = [m] \<and> jget m ''accepted'' = JBool True \<and>
       truthy (jget m ''actor'') \<and> truthy (jget m ''auth_evidence'') \<and> truthy (jget m ''operation'') \<and>
       cr_actor (rows ! i) = jget m ''actor'' \<and> cr_operation (rows ! i) = jget m ''operation'')"
  unfolding Let_def using correlation_row [OF assms] by blast

definition sample_life :: "int \<Rightarrow> int \<Rightarrow> int \<Rightarrow> lifetime_event" where
  "sample_life n k a =
     \<lparr>c_sequence = n, c_run = 3, c_failures = 0, l_kind = k, l_value = 0, l_life = 1, l_attempt = a, l_flags = 0\<rparr>"

theorem correlation_sound_witness:
  "ok_with (\<lambda>rows. cr_actor (rows ! 0) = JStr ''agent-A'')
    (correlation_join [sample_life 1 1 0, sample_life 3 2 1, sample_life 4 3 1]
      [\<lparr>k_sequence = 2, k_run = 3, k_failures = 0, k_life = 1, k_attempt = 1, k_flags = 1,
         k_path = JStr ''/mcp'', k_nonce = JStr ''0123456789abcdef0123456789abcdef''\<rparr>]
      [[(''path'', JStr ''/mcp''), (''nonce'', JStr ''0123456789abcdef0123456789abcdef''),
        (''attempt'', JInt 1), (''actor'', JStr ''agent-A''), (''auth_evidence'', JStr ''hmac''),
        (''accepted'', JBool True), (''operation'', JStr ''op'')]]
      [(''init'', JInt 1), (''parse'', JInt 1), (''fini'', JInt 1), (''candidate'', JInt 1),
       (''drops'', JInt 0), (''errors'', JInt 0), (''selections'', JInt 0)])"
  (is "ok_with _ (correlation_join ?lives ?cands ?ledger ?acc)")
proof -
  have "ok_with (\<lambda>rows. 0 < length rows \<and> cr_status (rows ! 0) = ''attributed'')
      (correlation_join ?lives ?cands ?ledger ?acc)" by code_simp
  then obtain rows where r: "correlation_join ?lives ?cands ?ledger ?acc = Inr rows" "0 < length rows"
    "cr_status (rows ! 0) = ''attributed''" unfolding ok_with_iff by blast
  obtain k m where "ledger_matches ?ledger k = [m]" "cr_actor (rows ! 0) = jget m ''actor''"
    using correlation_sound [OF r] unfolding Let_def by blast
  then have "cr_actor (rows ! 0) = JStr ''agent-A''"
    by (auto simp: ledger_matches_def jget_def split: if_splits)
  with r(1) show ?thesis unfolding ok_with_iff by blast
qed

end
