(* ===== verification/Budget_Pass.thy ===== *)
theory Budget_Pass
  imports Py_Text
begin

text \<open>
  \<^verbatim>\<open>substrate/budget_pass.py\<close>: the admission-time cost gate. A section of an ELF object is
  decoded as eBPF, split into basic blocks, checked for loops, and its longest path is priced against
  a budget. The depth-first searches of the source are recursive functions over a dictionary of
  edges; here they carry fuel for the recursion depth (\<open>None\<close> is fuel that ran out), and the theory
  \<^verbatim>\<open>Budget_Soundness\<close> shows that the number of blocks is always enough. The interpreter's own
  recursion limit is not modelled: a chain of about a thousand blocks raises there, and \<^verbatim>\<open>main\<close> counts
  the exception as a failure of that file. A section name is compared by its bytes.
\<close>

unbundle bit_operations_syntax

section \<open>ELF, minimally\<close>

text \<open>\<^verbatim>\<open>struct.unpack_from\<close> of \<open>n\<close> bytes at \<open>off\<close>, which raises \<^verbatim>\<open>struct.error\<close> outside the buffer.\<close>

definition need :: "bytes \<Rightarrow> nat \<Rightarrow> nat \<Rightarrow> 'a \<Rightarrow> 'a result" where
  "need blob off n x = (if off + n \<le> length blob then Inr x else Inl StructError)"

record section_header =
  sh_name :: nat
  sh_type :: int
  sh_flags :: int
  sh_offset :: nat
  sh_size :: nat

definition shdr :: "bytes \<Rightarrow> nat \<Rightarrow> nat \<Rightarrow> nat \<Rightarrow> section_header result" where
  "shdr blob e_shoff e_shentsize i =
     (let off = e_shoff + i * e_shentsize in
      need blob off 40
        \<lparr>sh_name = nat (u32 blob off), sh_type = u32 blob (off + 4), sh_flags = u64 blob (off + 8),
         sh_offset = nat (u64 blob (off + 24)), sh_size = nat (u64 blob (off + 32))\<rparr>)"

definition c_string :: "bytes \<Rightarrow> nat \<Rightarrow> bytes result" where
  "c_string blob start =
     (case find_from [0] start blob of
        None \<Rightarrow> Inl (ValueError ''subsection not found'')
      | Some e \<Rightarrow> Inr (pyslice start e blob))"

fun find_section ::
  "bytes \<Rightarrow> (nat \<Rightarrow> section_header result) \<Rightarrow> nat \<Rightarrow> bytes \<Rightarrow> nat list \<Rightarrow> bytes result"
where
  "find_section blob sh stroff want [] = Inl (ValueError ''no such section'')"
| "find_section blob sh stroff want (i # rest) =
     ebind (sh i) (\<lambda>h. ebind (c_string blob (stroff + sh_name h)) (\<lambda>nm.
       if nm = want
       then if sh_size h = 0 then Inl (ValueError ''section is empty'')
            else Inr (pyslice (sh_offset h) (sh_offset h + sh_size h) blob)
       else find_section blob sh stroff want rest))"

definition exec_progbits ::
  "bytes \<Rightarrow> (nat \<Rightarrow> section_header result) \<Rightarrow> nat \<Rightarrow> nat \<Rightarrow> (bytes \<times> nat \<times> nat) list result"
where
  "exec_progbits blob sh e_shnum stroff =
     ebind (emap (\<lambda>i. ebind (sh i) (\<lambda>h. ebind (c_string blob (stroff + sh_name h)) (\<lambda>nm.
              Inr (if sh_type h = 1 \<and> sh_flags h AND 0x4 \<noteq> 0 \<and> sh_size h \<noteq> 0
                   then [(nm, sh_offset h, sh_size h)] else [])))) [0..<e_shnum])
       (\<lambda>xs. Inr (concat xs))"

definition elf_section_bytes :: "bytes \<Rightarrow> bytes option \<Rightarrow> bytes result" where
  "elf_section_bytes blob want =
     (if take 4 blob \<noteq> [0x7F, 0x45, 0x4C, 0x46] then Inl (ValueError ''not an ELF object'')
      else if length blob \<le> 4 then Inl IndexError
      else if blob ! 4 \<noteq> 2 then Inl (ValueError ''expected 64-bit little-endian'')
      else if length blob \<le> 5 then Inl IndexError
      else if blob ! 5 \<noteq> 1 then Inl (ValueError ''expected 64-bit little-endian'')
      else ebind (need blob 0x28 8 (nat (u64 blob 0x28))) (\<lambda>e_shoff.
           ebind (need blob 0x3A 6 (nat (u16 blob 0x3A), nat (u16 blob 0x3C), nat (u16 blob 0x3E)))
             (\<lambda>(e_shentsize, e_shnum, e_shstrndx).
               let sh = shdr blob e_shoff e_shentsize in
               ebind (sh e_shstrndx) (\<lambda>strtab.
                 let stroff = sh_offset strtab in
                 case want of
                   Some w \<Rightarrow> find_section blob sh stroff w [0..<e_shnum]
                 | None \<Rightarrow>
                     ebind (exec_progbits blob sh e_shnum stroff) (\<lambda>cands.
                       case cands of
                         [] \<Rightarrow> Inl (ValueError ''no non-empty executable section'')
                       | [(nm, off, sz)] \<Rightarrow> Inr (pyslice off (off + sz) blob)
                       | _ \<Rightarrow> Inl (ValueError ''several executable sections''))))))"

section \<open>The decoder\<close>

datatype opclass = C_exit | C_call | C_jmp | C_ld | C_ldx | C_st | C_stx | C_alu

fun cycles :: "opclass \<Rightarrow> int" where
  "cycles C_alu = 1"
| "cycles C_jmp = 2"
| "cycles C_ld = 4"
| "cycles C_ldx = 4"
| "cycles C_st = 4"
| "cycles C_stx = 4"
| "cycles C_call = 6"
| "cycles C_exit = 1"

definition LDDW :: int where "LDDW = 0x18"
definition EXIT :: int where "EXIT = 0x95"
definition CALL :: int where "CALL = 0x85"
definition JA :: int where "JA = 0x05"

definition opclass_of :: "int \<Rightarrow> opclass" where
  "opclass_of op =
     (let cls = op AND 7 in
      if op = EXIT then C_exit
      else if op = CALL then C_call
      else if cls \<in> {5, 6} then C_jmp
      else if cls = 0 then C_ld
      else if cls = 1 then C_ldx
      else if cls = 2 then C_st
      else if cls = 3 then C_stx
      else C_alu)"

record insn =
  pc :: int
  opcode :: int
  cls :: opclass
  joff :: int
  imm :: int
  wide :: bool

function decode_from :: "int \<Rightarrow> bytes \<Rightarrow> insn list" where
  "decode_from pc0 text =
     (if length text < 8 then []
      else let op = u8 text 0; w = (op = LDDW); step = (if w then 2 else 1) in
        \<lparr>pc = pc0, opcode = op, cls = opclass_of op, joff = i16 text 2, imm = i32 text 4, wide = w\<rparr>
        # decode_from (pc0 + int step) (drop (8 * step) text))"
  by pat_completeness auto
termination
  by (relation "measure (\<lambda>(_, t). length t)") auto

declare decode_from.simps [simp del]

definition decode :: "bytes \<Rightarrow> insn list" where
  "decode text = decode_from 0 text"

section \<open>The control-flow graph\<close>

definition width :: "insn \<Rightarrow> int" where
  "width i = (if wide i then 2 else 1)"

definition target :: "insn \<Rightarrow> int" where
  "target i = pc i + 1 + joff i"

definition pcs :: "insn list \<Rightarrow> int list" where
  "pcs insns = map pc insns"

text \<open>The leaders one instruction adds: its target and the instruction behind it, where they exist.\<close>

definition leads :: "insn list \<Rightarrow> insn \<Rightarrow> int list" where
  "leads insns i =
     filter (\<lambda>p. p \<in> set (pcs insns))
       (if opcode i = EXIT then [pc i + width i]
        else if cls i = C_jmp then [target i, pc i + 1]
        else [])"

definition leaders :: "insn list \<Rightarrow> int list" where
  "leaders insns =
     sort (remdups ((case insns of [] \<Rightarrow> [] | i # _ \<Rightarrow> [pc i]) @ concat (map (leads insns) insns)))"

type_synonym cfg = "(int \<times> insn list) list \<times> (int \<times> int list) list"

fun blocks_of :: "insn list \<Rightarrow> int list \<Rightarrow> (int \<times> insn list) list" where
  "blocks_of insns [] = []"
| "blocks_of insns [s] = [(s, filter (\<lambda>i. pc i \<ge> s) insns)]"
| "blocks_of insns (s # e # rest) =
     (s, filter (\<lambda>i. pc i \<ge> s \<and> pc i < e) insns) # blocks_of insns (e # rest)"

definition successors :: "int list \<Rightarrow> insn list \<Rightarrow> int list" where
  "successors starts body =
     (if body = [] then []
      else let l = last body in
        filter (\<lambda>p. p \<in> set starts)
          (if opcode l = EXIT then []
           else if cls l = C_jmp then (if opcode l \<noteq> JA then [target l, pc l + 1] else [target l])
           else [pc l + width l]))"

definition build_cfg :: "insn list \<Rightarrow> cfg" where
  "build_cfg insns =
     (let blocks = blocks_of insns (leaders insns)
      in (blocks, map (\<lambda>(s, body). (s, successors (map fst blocks) body)) blocks))"

definition block_cost :: "insn list \<Rightarrow> int" where
  "block_cost body = sum_list (map (\<lambda>i. cycles (cls i)) body)"

text \<open>\<^verbatim>\<open>edges.get(b, [])\<close> and \<^verbatim>\<open>blocks[b]\<close>.\<close>

definition succs :: "(int \<times> int list) list \<Rightarrow> int \<Rightarrow> int list" where
  "succs edges b = (case map_of edges b of None \<Rightarrow> [] | Some ss \<Rightarrow> ss)"

definition body_of :: "(int \<times> insn list) list \<Rightarrow> int \<Rightarrow> insn list" where
  "body_of blocks b = (case map_of blocks b of None \<Rightarrow> [] | Some body \<Rightarrow> body)"

section \<open>Loops\<close>

text \<open>
  The nested function \<^verbatim>\<open>dfs\<close>: \<open>stack\<close> is the path to the block, \<open>seen\<close> and \<open>found\<close> are the shared
  lists it updates. \<open>dfs_each\<close> is its loop over the successors.
\<close>

fun dfs :: "nat \<Rightarrow> (int \<Rightarrow> int list) \<Rightarrow> int list \<Rightarrow> int \<Rightarrow>
    int list \<times> (int \<times> int) list \<Rightarrow> (int list \<times> (int \<times> int) list) option"
  and dfs_each :: "nat \<Rightarrow> (int \<Rightarrow> int list) \<Rightarrow> int list \<Rightarrow> int \<Rightarrow> int list \<Rightarrow>
    int list \<times> (int \<times> int) list \<Rightarrow> (int list \<times> (int \<times> int) list) option"
where
  "dfs 0 E stack b s = None"
| "dfs (Suc n) E stack b (seen, found) = dfs_each n E (stack @ [b]) b (E b) (b # seen, found)"
| "dfs_each n E stack b [] s = Some s"
| "dfs_each n E stack b (t # ts) (seen, found) =
     (if t \<in> set stack then dfs_each n E stack b ts (seen, found @ [(b, t)])
      else if t \<in> set seen then dfs_each n E stack b ts (seen, found)
      else case dfs n E stack t (seen, found) of
             None \<Rightarrow> None
           | Some s \<Rightarrow> dfs_each n E stack b ts s)"

definition back_edges :: "(int \<times> insn list) list \<Rightarrow> (int \<times> int list) list \<Rightarrow> (int \<times> int) list option" where
  "back_edges blocks edges =
     (case sort (map fst blocks) of
        [] \<Rightarrow> Some []
      | entry # _ \<Rightarrow> map_option snd (dfs (length blocks + 1) (succs edges) [] entry ([], [])))"

section \<open>The longest path\<close>

text \<open>
  The nested function \<^verbatim>\<open>best\<close> with its memo; \<open>best_each\<close> collects the values of the successors.
\<close>

fun best :: "nat \<Rightarrow> (int \<Rightarrow> int list) \<Rightarrow> (int \<Rightarrow> int) \<Rightarrow> int \<Rightarrow> (int \<rightharpoonup> int) \<Rightarrow> (int \<times> (int \<rightharpoonup> int)) option"
  and best_each :: "nat \<Rightarrow> (int \<Rightarrow> int list) \<Rightarrow> (int \<Rightarrow> int) \<Rightarrow> int list \<Rightarrow> (int \<rightharpoonup> int) \<Rightarrow>
    (int list \<times> (int \<rightharpoonup> int)) option"
where
  "best 0 E cost b memo = None"
| "best (Suc n) E cost b memo =
     (case memo b of
        Some v \<Rightarrow> Some (v, memo)
      | None \<Rightarrow>
          (case best_each n E cost (E b) (memo(b \<mapsto> cost b)) of
             None \<Rightarrow> None
           | Some (vs, memo') \<Rightarrow>
               let v = cost b + (if vs = [] then 0 else Max (set vs)) in Some (v, memo'(b \<mapsto> v))))"
| "best_each n E cost [] memo = Some ([], memo)"
| "best_each n E cost (t # ts) memo =
     (case best n E cost t memo of
        None \<Rightarrow> None
      | Some (v, memo') \<Rightarrow>
          (case best_each n E cost ts memo' of
             None \<Rightarrow> None
           | Some (vs, memo'') \<Rightarrow> Some (v # vs, memo'')))"

definition longest_path :: "(int \<times> insn list) list \<Rightarrow> (int \<times> int list) list \<Rightarrow> int option" where
  "longest_path blocks edges =
     (case sort (map fst blocks) of
        [] \<Rightarrow> Some 0
      | entry # _ \<Rightarrow>
          map_option fst (best (length blocks + 1)
            (\<lambda>b. filter (\<lambda>s. s \<in> set (map fst blocks)) (succs edges b))
            (\<lambda>b. block_cost (body_of blocks b)) entry Map.empty))"

section \<open>The gate\<close>

datatype verdict = Ok_verdict | Reject | Refuse

definition gate_text :: "bytes \<Rightarrow> int \<Rightarrow> (verdict \<times> nat \<times> nat \<times> int option) option" where
  "gate_text text budget =
     (let insns = decode text; (blocks, edges) = build_cfg insns in
      case back_edges blocks edges of
        None \<Rightarrow> None
      | Some (_ # _) \<Rightarrow> Some (Refuse, length insns, length blocks, None)
      | Some [] \<Rightarrow>
          (case longest_path blocks edges of
             None \<Rightarrow> None
           | Some c \<Rightarrow> Some (if c \<le> budget then Ok_verdict else Reject, length insns, length blocks, Some c)))"

definition DEFAULT_BUDGET :: int where
  "DEFAULT_BUDGET = 800"

text \<open>
  \<^verbatim>\<open>main\<close> over the contents of the named files: one exit code, 0 only if every file was gated ok. An
  exception of any kind counts as a failure.
\<close>

definition gate :: "bytes \<Rightarrow> int \<Rightarrow> bytes option \<Rightarrow> (verdict \<times> nat \<times> nat \<times> int option) option result" where
  "gate blob budget sec = ebind (elf_section_bytes blob sec) (\<lambda>text. Inr (gate_text text budget))"

definition gate_files :: "bytes option list \<Rightarrow> int \<Rightarrow> bytes option \<Rightarrow> int" where
  "gate_files files budget sec =
     (if list_all (\<lambda>f. case f of
            None \<Rightarrow> False
          | Some blob \<Rightarrow> (case gate blob budget sec of Inr (Some (Ok_verdict, _)) \<Rightarrow> True | _ \<Rightarrow> False)) files
      then 0 else 1)"

section \<open>The self-test's assembler\<close>

definition asm_i :: "int \<Rightarrow> int \<Rightarrow> int \<Rightarrow> int \<Rightarrow> int \<Rightarrow> bytes" where
  "asm_i op dst src off im =
     le_bytes 1 op @ le_bytes 1 (push_bit 4 src OR dst) @ le_bytes 2 (off mod 65536) @
     le_bytes 4 (im mod 4294967296)"

definition elf_shdr :: "int \<Rightarrow> int \<Rightarrow> int \<Rightarrow> int \<Rightarrow> int \<Rightarrow> bytes" where
  "elf_shdr name_off typ off sz flags =
     le_bytes 4 name_off @ le_bytes 4 typ @ le_bytes 8 flags @ le_bytes 8 0 @ le_bytes 8 off @
     le_bytes 8 sz @ replicate 24 0"

definition elf_ehdr :: "int \<Rightarrow> bytes" where
  "elf_ehdr sh_off =
     [0x7F, 0x45, 0x4C, 0x46, 2, 1, 1] @ replicate 9 0 @ le_bytes 2 1 @ le_bytes 2 247 @ le_bytes 4 1 @
     replicate 16 0 @ le_bytes 8 sh_off @ replicate 4 0 @ le_bytes 2 64 @ replicate 4 0 @
     le_bytes 2 64 @ le_bytes 2 3 @ le_bytes 2 2"

definition shstrtab :: bytes where
  "shstrtab = map (\<lambda>c. word_of_nat (of_char c)) ([CHR 0x00] @ ''.text'' @ [CHR 0x00] @ ''.shstrtab'' @ [CHR 0x00])"

definition elf_wrap :: "bytes \<Rightarrow> bytes" where
  "elf_wrap text =
     (let shstr_off = 64 + int (length text); sh_off = shstr_off + int (length shstrtab) in
      elf_ehdr sh_off @ text @ shstrtab @ elf_shdr 0 0 0 0 0 @
      elf_shdr 1 1 64 (int (length text)) 6 @ elf_shdr 8 3 shstr_off (int (length shstrtab)) 0)"

definition CASES :: "(bytes \<times> int \<times> (verdict \<times> nat \<times> nat \<times> int option)) list" where
  "CASES =
     [(asm_i 0xb7 0 0 0 0 @ asm_i EXIT 0 0 0 0, 800, (Ok_verdict, 2, 1, Some 2)),
      (asm_i LDDW 1 0 0 0x55667788 @ asm_i 0 0 0 0 0x11223344 @ asm_i 0xb7 0 0 0 0 @ asm_i EXIT 0 0 0 0,
       800, (Ok_verdict, 3, 1, Some 6)),
      (asm_i 0x15 0 0 1 0 @ asm_i 0xb7 0 0 0 1 @ asm_i 0xb7 0 0 0 2 @ asm_i EXIT 0 0 0 0,
       800, (Ok_verdict, 4, 3, Some 5)),
      (asm_i 0x15 0 0 1 0 @ asm_i 0xb7 0 0 0 1 @ asm_i 0xb7 0 0 0 2 @ asm_i EXIT 0 0 0 0,
       3, (Reject, 4, 3, Some 5)),
      (asm_i 0xb7 0 0 0 0 @ asm_i JA 0 0 (-1) 0, 800, (Refuse, 2, 2, None)),
      (asm_i 0x61 1 2 0 0 @ asm_i 0xb7 0 0 0 0 @ asm_i EXIT 0 0 0 0, 800, (Ok_verdict, 3, 1, Some 6))]"

definition selftest :: int where
  "selftest =
     (if list_all (\<lambda>(text, budget, expect).
            gate (elf_wrap text) budget None = Inr (Some expect)) CASES then 0 else 1)"

section \<open>The command line\<close>

text \<open>\<open>read_args\<close> is the loop over the arguments; the last occurrence of an option counts.\<close>

fun read_args :: "string list \<Rightarrow> int \<times> string option \<times> string list \<Rightarrow> (int \<times> string option \<times> string list) result"
where
  "read_args [] st = Inr st"
| "read_args (a # rest) (budget, sec, args) =
     (if a = ''--budget'' then
        (case rest of
           [] \<Rightarrow> Inl StopIteration
         | v # others \<Rightarrow> ebind (parse_int v) (\<lambda>n. read_args others (n, sec, args)))
      else if a = ''--section'' then
        (case rest of
           [] \<Rightarrow> Inl StopIteration
         | v # others \<Rightarrow> read_args others (budget, Some v, args))
      else if a = ''--selftest'' then read_args rest (budget, sec, args)
      else read_args rest (budget, sec, args @ [a]))"

text \<open>\<open>fs\<close> is the file system; a file that cannot be opened is an error like any other.\<close>

definition budget_main :: "(string \<Rightarrow> bytes option) \<Rightarrow> string list \<Rightarrow> int result" where
  "budget_main fs argv =
     ebind (read_args argv (DEFAULT_BUDGET, None, [])) (\<lambda>(budget, sec, args).
       Inr (if args = [] then selftest
            else gate_files (map fs args) budget (map_option (map (\<lambda>c. word_of_nat (of_char c))) sec)))"

end
