(* ===== verification/Budget_Soundness.thy ===== *)
theory Budget_Soundness
  imports Budget_Pass
begin

text \<open>
  What the cost gate promises. The depth-first search finishes every block after its successors when
  it finds no back edge; along that order the memoised recursion computes the most expensive path;
  and an execution of the decoded instructions is no more expensive than the path of its blocks.
\<close>

section \<open>The depth-first search\<close>

text \<open>\<open>topo E fin\<close>: every block of the finishing order comes after all its successors.\<close>

definition topo :: "(int \<Rightarrow> int list) \<Rightarrow> int list \<Rightarrow> bool" where
  "topo E fin \<longleftrightarrow> (\<forall>xs x ys. fin = xs @ x # ys \<longrightarrow> set (E x) \<subseteq> set xs)"

lemma topo_Nil [simp]: "topo E []"
  by (simp add: topo_def)

lemma topo_snoc:
  assumes "topo E fin" "set (E b) \<subseteq> set fin"
  shows "topo E (fin @ [b])"
  unfolding topo_def
proof (intro allI impI)
  fix xs x ys assume eq: "fin @ [b] = xs @ x # ys"
  show "set (E x) \<subseteq> set xs"
  proof (cases ys rule: rev_cases)
    case Nil
    with eq assms(2) show ?thesis by simp
  next
    case (snoc zs z)
    with eq have "fin = xs @ x # zs" by simp
    with assms(1) show ?thesis unfolding topo_def by blast
  qed
qed

lemma dfs_grows:
  "dfs n E st b s = Some s' \<Longrightarrow> set (fst s) \<subseteq> set (fst s') \<and> (\<exists>more. snd s' = snd s @ more)"
  "dfs_each n E st b ts s = Some s' \<Longrightarrow> set (fst s) \<subseteq> set (fst s') \<and> (\<exists>more. snd s' = snd s @ more)"
proof (induction n E st b s and n E st b ts s arbitrary: s' and s' rule: dfs_dfs_each.induct)
  case (2 n E stack b seen found)
  then show ?case by fastforce
next
  case (4 n E stack b t ts seen found)
  consider "t \<in> set stack" | "t \<notin> set stack" "t \<in> set seen"
    | s1 where "t \<notin> set stack" "t \<notin> set seen" "dfs n E stack t (seen, found) = Some s1"
        "dfs_each n E stack b ts s1 = Some s'"
    using "4.prems" by (auto split: if_splits option.splits)
  then show ?case
  proof cases
    case 1
    with "4.prems" "4.IH"(1) show ?thesis by fastforce
  next
    case 2
    with "4.prems" "4.IH"(2) show ?thesis by fastforce
  next
    case 3
    from "4.IH"(3) [OF 3(1,2,3)] "4.IH"(4) [OF 3(1,2,3,4)] show ?thesis by fastforce
  qed
qed auto

text \<open>Enough fuel: one level per block that has not been seen.\<close>

lemma dfs_each_total:
  assumes fin: "finite N"
    and step: "\<And>t s st. t \<in> N - set (fst s) \<Longrightarrow> card (N - set (fst s)) \<le> n \<Longrightarrow> \<exists>s'. dfs n E st t s = Some s'"
  shows "set ts \<subseteq> N \<Longrightarrow> card (N - set (fst s)) \<le> n \<Longrightarrow> \<exists>s'. dfs_each n E st b ts s = Some s'"
proof (induction ts arbitrary: s)
  case (Cons t ts)
  obtain seen found where s: "s = (seen, found)" by (cases s)
  show ?case
  proof (cases "t \<in> set st \<or> t \<in> set seen")
    case True
    with Cons s show ?thesis by auto
  next
    case False
    with step [of t s st] Cons.prems s obtain s1 where s1: "dfs n E st t (seen, found) = Some s1" by auto
    have "set seen \<subseteq> set (fst s1)" using dfs_grows(1) [OF s1] by simp
    then have "card (N - set (fst s1)) \<le> card (N - set seen)" using fin by (intro card_mono) auto
    with Cons.IH [of s1] Cons.prems s False s1 show ?thesis by auto
  qed
qed simp

lemma dfs_total:
  assumes "finite N" "\<And>x. x \<in> N \<Longrightarrow> set (E x) \<subseteq> N"
  shows "b \<in> N - set (fst s) \<Longrightarrow> card (N - set (fst s)) \<le> n \<Longrightarrow> \<exists>s'. dfs n E st b s = Some s'"
proof (induction n arbitrary: b s st)
  case 0
  then show ?case using assms(1) by auto
next
  case (Suc n)
  obtain seen found where s: "s = (seen, found)" by (cases s)
  have "N - set (b # seen) = (N - set seen) - {b}" by auto
  then have c: "card (N - set (b # seen)) \<le> n" using Suc.prems s assms(1) by simp
  have "set (E b) \<subseteq> N" using Suc.prems assms(2) by blast
  then have "\<exists>s'. dfs_each n E (st @ [b]) b (E b) (b # seen, found) = Some s'"
    using c by (intro dfs_each_total [OF assms(1) Suc.IH]) simp_all
  then show ?case by (simp add: s)
qed

text \<open>
  No back edge: the blocks seen beside the stack can be listed in finishing order, and the search of
  a block appends that block behind all its successors.
\<close>

definition searched :: "(int \<Rightarrow> int list) \<Rightarrow> int list \<Rightarrow> int list \<Rightarrow> int list \<Rightarrow> bool" where
  "searched E st seen fin \<longleftrightarrow>
     topo E fin \<and> distinct fin \<and> set st \<inter> set fin = {} \<and> set seen = set st \<union> set fin"

lemma dfs_each_topo:
  assumes step: "\<And>st t s s' fin. dfs n E st t s = Some s' \<Longrightarrow> snd s' = [] \<Longrightarrow> t \<notin> set (fst s) \<Longrightarrow>
      searched E st (fst s) fin \<Longrightarrow>
      \<exists>fin'. searched E st (fst s') fin' \<and> set fin \<subseteq> set fin' \<and> t \<in> set fin'"
  shows "dfs_each n E st b ts s = Some s' \<Longrightarrow> snd s' = [] \<Longrightarrow> searched E st (fst s) fin \<Longrightarrow>
      \<exists>fin'. searched E st (fst s') fin' \<and> set fin \<subseteq> set fin' \<and> set ts \<subseteq> set fin'"
proof (induction ts arbitrary: s fin)
  case (Cons t ts)
  obtain seen found where s: "s = (seen, found)" by (cases s)
  have "t \<notin> set st"
  proof
    assume "t \<in> set st"
    with Cons.prems s have "dfs_each n E st b ts (seen, found @ [(b, t)]) = Some s'" by simp
    with Cons.prems(2) show False using dfs_grows(2) by fastforce
  qed
  then consider "t \<in> set seen" "dfs_each n E st b ts s = Some s'"
    | s1 where "dfs n E st t s = Some s1" "dfs_each n E st b ts s1 = Some s'" "t \<notin> set (fst s)"
    using Cons.prems s by (auto split: if_splits option.splits)
  then show ?case
  proof cases
    case 1
    with Cons.prems(3) s \<open>t \<notin> set st\<close> have "t \<in> set fin" by (auto simp: searched_def)
    with Cons.IH [OF 1(2) Cons.prems(2,3)] show ?thesis by auto
  next
    case 2
    have "snd s1 = []" using dfs_grows(2) [OF 2(2)] Cons.prems(2) by auto
    from step [OF 2(1) this 2(3) Cons.prems(3)] obtain fin1 where
      1: "searched E st (fst s1) fin1" "set fin \<subseteq> set fin1" "t \<in> set fin1" by blast
    from Cons.IH [OF 2(2) Cons.prems(2) 1(1)] 1 show ?thesis by auto
  qed
qed auto

lemma dfs_topo:
  "dfs n E st b s = Some s' \<Longrightarrow> snd s' = [] \<Longrightarrow> b \<notin> set (fst s) \<Longrightarrow> searched E st (fst s) fin \<Longrightarrow>
      \<exists>fin'. searched E st (fst s') fin' \<and> set fin \<subseteq> set fin' \<and> b \<in> set fin'"
proof (induction n arbitrary: st b s s' fin)
  case (Suc n)
  obtain seen found where s: "s = (seen, found)" by (cases s)
  let ?s = "(b # seen, found)"
  have e: "dfs_each n E (st @ [b]) b (E b) ?s = Some s'" using Suc.prems s by simp
  have "searched E (st @ [b]) (fst ?s) fin" using Suc.prems(3,4) s by (auto simp: searched_def)
  with e Suc.prems(2) have "\<exists>fin'. searched E (st @ [b]) (fst s') fin' \<and> set fin \<subseteq> set fin' \<and>
      set (E b) \<subseteq> set fin'"
    by (rule dfs_each_topo [rotated]) (rule Suc.IH)
  then obtain fin1 where
    1: "searched E (st @ [b]) (fst s') fin1" "set fin \<subseteq> set fin1" "set (E b) \<subseteq> set fin1" by blast
  moreover have "b \<notin> set st" using Suc.prems(3,4) s by (auto simp: searched_def)
  ultimately have "searched E st (fst s') (fin1 @ [b])" by (auto simp: searched_def intro: topo_snoc)
  with 1(2) show ?case by (intro exI [of _ "fin1 @ [b]"]) auto
qed simp

section \<open>The memoised longest path\<close>

fun chain :: "(int \<Rightarrow> int list) \<Rightarrow> int \<Rightarrow> int list \<Rightarrow> bool" where
  "chain E b [] = True"
| "chain E b (t # ts) = (t \<in> set (E b) \<and> chain E t ts)"

abbreviation "path_cost cost b p \<equiv> cost b + sum_list (map cost p)"

definition best_of :: "(int \<Rightarrow> int list) \<Rightarrow> (int \<Rightarrow> int) \<Rightarrow> int \<Rightarrow> int \<Rightarrow> bool" where
  "best_of E cost b v \<longleftrightarrow>
     (\<exists>p. chain E b p \<and> path_cost cost b p = v) \<and> (\<forall>p. chain E b p \<longrightarrow> path_cost cost b p \<le> v)"

definition idx :: "int list \<Rightarrow> int \<Rightarrow> nat" where
  "idx fin x = length (takeWhile (\<lambda>y. y \<noteq> x) fin)"

lemma idx_less: "x \<in> set fin \<longleftrightarrow> idx fin x < length fin"
  by (induction fin) (auto simp: idx_def)

lemma topo_idx:
  assumes "topo E fin" "x \<in> set fin" "t \<in> set (E x)"
  shows "t \<in> set fin" "idx fin t < idx fin x"
proof -
  obtain xs ys where f: "fin = xs @ x # ys" "x \<notin> set xs" using assms(2) by (meson split_list_first)
  then have t: "t \<in> set xs" using assms(1,3) unfolding topo_def by blast
  then show "t \<in> set fin" using f by simp
  have "takeWhile (\<lambda>y. y \<noteq> x) (xs @ x # ys) = xs" using f(2) by (induction xs) auto
  then have "idx fin x = length xs" using f(1) by (simp add: idx_def)
  moreover have "idx fin t < length xs" using t f idx_less [of t xs]
    by (simp add: idx_def takeWhile_append1)
  ultimately show "idx fin t < idx fin x" by simp
qed

lemma best_of_step:
  assumes cost: "\<And>x. 0 \<le> cost x" and vs: "list_all2 (best_of E cost) (E b) vs"
  shows "best_of E cost b (cost b + (if vs = [] then 0 else Max (set vs)))"
proof -
  have nn: "0 \<le> v" if "best_of E cost t v" for t v
    using that cost [of t] unfolding best_of_def by (metis chain.simps(1) list.simps(8) sum_list.Nil add_0_right order_trans)
  show ?thesis
  proof (cases vs)
    case Nil
    then have "E b = []" using vs by simp
    then have "p = []" if "chain E b p" for p using that by (cases p) auto
    then have "chain E b p \<longleftrightarrow> p = []" for p by auto
    with Nil show ?thesis unfolding best_of_def by simp
  next
    case (Cons v0 vs0)
    let ?m = "Max (set vs)"
    have ub: "path_cost cost b p \<le> cost b + ?m" if "chain E b p" for p
    proof (cases p)
      case Nil
      have "0 \<le> ?m"
      proof -
        have "v0 \<in> set vs" using Cons by simp
        moreover have "0 \<le> v0" using vs Cons nn by (cases "E b") auto
        ultimately show ?thesis by (meson List.finite_set Max_ge order_trans)
      qed
      with Nil show ?thesis by simp
    next
      case (Cons t ts)
      with that have t: "t \<in> set (E b)" "chain E t ts" by auto
      then obtain i where i: "i < length (E b)" "E b ! i = t" by (auto simp: in_set_conv_nth)
      then have "best_of E cost t (vs ! i)" "i < length vs"
        using vs by (auto simp: list_all2_conv_all_nth)
      then have "path_cost cost t ts \<le> vs ! i" "vs ! i \<le> ?m" using t(2) by (auto simp: best_of_def)
      with Cons show ?thesis by simp
    qed
    have "?m \<in> set vs" using Cons by (intro Max_in) auto
    then obtain i where i: "i < length vs" "vs ! i = ?m" by (auto simp: in_set_conv_nth)
    then have "best_of E cost (E b ! i) ?m" "E b ! i \<in> set (E b)"
      using vs by (auto simp: list_all2_conv_all_nth)
    then obtain p where "chain E (E b ! i) p" "path_cost cost (E b ! i) p = ?m" by (auto simp: best_of_def)
    then have "chain E b (E b ! i # p)" "path_cost cost b (E b ! i # p) = cost b + ?m"
      using \<open>E b ! i \<in> set (E b)\<close> by auto
    then have "\<exists>p. chain E b p \<and> path_cost cost b p = cost b + ?m" by blast
    with ub show ?thesis unfolding best_of_def using Cons by (simp only: list.distinct if_False) blast
  qed
qed

lemma best_each_correct:
  assumes topo: "topo E fin" and k: "k \<le> n"
    and step: "\<And>t memo. t \<in> set fin \<Longrightarrow> idx fin t < n \<Longrightarrow>
      (\<And>x v. memo x = Some v \<Longrightarrow> idx fin x \<le> idx fin t \<Longrightarrow> best_of E cost x v) \<Longrightarrow>
      \<exists>v m. best n E cost t memo = Some (v, m) \<and> best_of E cost t v \<and>
        (\<forall>x u. m x = Some u \<longrightarrow> memo x = Some u \<or> idx fin x \<le> idx fin t \<and> best_of E cost x u)"
  shows "(\<forall>t \<in> set ts. t \<in> set fin \<and> idx fin t < k) \<Longrightarrow>
      (\<And>x v. memo x = Some v \<Longrightarrow> idx fin x < k \<Longrightarrow> best_of E cost x v) \<Longrightarrow>
      \<exists>vs m. best_each n E cost ts memo = Some (vs, m) \<and> list_all2 (best_of E cost) ts vs \<and>
        (\<forall>x u. m x = Some u \<longrightarrow> memo x = Some u \<or> idx fin x < k \<and> best_of E cost x u)"
proof (induction ts arbitrary: memo)
  case (Cons t ts)
  have t: "t \<in> set fin" "idx fin t < k" using Cons.prems(1) by auto
  have memo_t: "best_of E cost x v" if "memo x = Some v" "idx fin x \<le> idx fin t" for x v
    using Cons.prems(2) that t(2) by simp
  have "idx fin t < n" using t(2) k by simp
  from step [of t memo, OF t(1) this memo_t]
  obtain v m where 1: "best n E cost t memo = Some (v, m)" "best_of E cost t v"
    "\<forall>x u. m x = Some u \<longrightarrow> memo x = Some u \<or> idx fin x \<le> idx fin t \<and> best_of E cost x u"
    by blast
  have m_ok: "best_of E cost x u" if "m x = Some u" "idx fin x < k" for x u
    using 1(3) that Cons.prems(2) by blast
  obtain vs m' where 2: "best_each n E cost ts m = Some (vs, m')" "list_all2 (best_of E cost) ts vs"
    "\<forall>x u. m' x = Some u \<longrightarrow> m x = Some u \<or> idx fin x < k \<and> best_of E cost x u"
    using Cons.IH [of m, OF _ m_ok] Cons.prems(1) by auto
  have "memo x = Some u \<or> idx fin x < k \<and> best_of E cost x u" if "m' x = Some u" for x u
    using 2(3) 1(3) that t(2) by (meson le_less_trans)
  with 1 2 show ?case by auto
qed simp

lemma best_correct:
  assumes topo: "topo E fin" and cost: "\<And>x. 0 \<le> cost x"
  shows "b \<in> set fin \<Longrightarrow> idx fin b < n \<Longrightarrow>
      (\<And>x v. memo x = Some v \<Longrightarrow> idx fin x \<le> idx fin b \<Longrightarrow> best_of E cost x v) \<Longrightarrow>
      \<exists>v m. best n E cost b memo = Some (v, m) \<and> best_of E cost b v \<and>
        (\<forall>x u. m x = Some u \<longrightarrow> memo x = Some u \<or> idx fin x \<le> idx fin b \<and> best_of E cost x u)"
proof (induction n arbitrary: b memo)
  case (Suc n)
  show ?case
  proof (cases "memo b")
    case (Some v)
    with Suc.prems(3) show ?thesis by auto
  next
    case None
    let ?memo = "memo(b \<mapsto> cost b)"
    have ts: "\<forall>t \<in> set (E b). t \<in> set fin \<and> idx fin t < idx fin b"
      using topo_idx [OF topo Suc.prems(1)] by blast
    have memo_ok: "best_of E cost x v" if "?memo x = Some v" "idx fin x < idx fin b" for x v
      using that Suc.prems(3) by (auto split: if_splits)
    have "idx fin b \<le> n" using Suc.prems(2) by simp
    have "\<exists>vs m. best_each n E cost (E b) ?memo = Some (vs, m) \<and> list_all2 (best_of E cost) (E b) vs \<and>
      (\<forall>x u. m x = Some u \<longrightarrow> ?memo x = Some u \<or> idx fin x < idx fin b \<and> best_of E cost x u)"
      by (rule best_each_correct [where memo = ?memo, OF topo \<open>idx fin b \<le> n\<close> Suc.IH ts memo_ok])
    then obtain vs m where 1: "best_each n E cost (E b) ?memo = Some (vs, m)" "list_all2 (best_of E cost) (E b) vs"
      "\<forall>x u. m x = Some u \<longrightarrow> ?memo x = Some u \<or> idx fin x < idx fin b \<and> best_of E cost x u"
      by blast
    let ?v = "cost b + (if vs = [] then 0 else Max (set vs))"
    have v: "best_of E cost b ?v" using cost 1(2) by (rule best_of_step)
    have "memo x = Some u \<or> idx fin x \<le> idx fin b \<and> best_of E cost x u" if "(m(b \<mapsto> ?v)) x = Some u" for x u
      using that 1(3) v by (cases "x = b") (auto split: if_splits)
    with 1(1) v None show ?thesis by (simp add: Let_def)
  qed
qed simp

text \<open>Both searches together: without a back edge the recursion returns the cost of the most expensive path.\<close>

lemma topo_snocD: "topo E (fin @ [x]) \<Longrightarrow> topo E fin \<and> set (E x) \<subseteq> set fin"
  unfolding topo_def by (metis append.assoc append_Cons)

lemma topo_filter:
  assumes "\<And>x. x \<in> N \<Longrightarrow> set (E x) \<subseteq> N"
  shows "topo E fin \<Longrightarrow> topo E (filter (\<lambda>x. x \<in> N) fin)"
proof (induction fin rule: rev_induct)
  case (snoc x fin)
  have 1: "topo E (filter (\<lambda>x. x \<in> N) fin)" "set (E x) \<subseteq> set fin"
    using snoc topo_snocD by blast+
  show ?case
  proof (cases "x \<in> N")
    case True
    with assms [of x] 1(2) have "set (E x) \<subseteq> set (filter (\<lambda>x. x \<in> N) fin)" by auto
    with topo_snoc [OF 1(1) this] True show ?thesis by simp
  qed (use 1 in simp)
qed simp

lemma search_correct:
  assumes nodes: "entry \<in> set nodes" "distinct nodes" "\<And>x. x \<in> set nodes \<Longrightarrow> set (E x) \<subseteq> set nodes"
    and cost: "\<And>x. 0 \<le> cost x"
    and dfs: "dfs n E [] entry ([], []) = Some (seen, [])"
  shows "\<exists>v m fin. best (length nodes + 1) E cost entry Map.empty = Some (v, m) \<and> best_of E cost entry v \<and>
     topo E fin \<and> entry \<in> set fin \<and> set fin \<subseteq> set nodes"
proof -
  have "searched E [] (fst ([] :: int list, [] :: (int \<times> int) list)) []" by (simp add: searched_def)
  with dfs_topo [OF dfs] obtain fin0 where fin0: "topo E fin0" "entry \<in> set fin0" "distinct fin0"
    by (auto simp: searched_def)
  let ?fin = "filter (\<lambda>x. x \<in> set nodes) fin0"
  have fin: "topo E ?fin" "entry \<in> set ?fin" "set ?fin \<subseteq> set nodes"
    using topo_filter [OF nodes(3) fin0(1)] fin0(2) nodes(1) by auto
  have "length ?fin = card (set ?fin)" using fin0(3) distinct_card [of ?fin] by simp
  also have "\<dots> \<le> card (set nodes)" using fin(3) by (intro card_mono) auto
  also have "\<dots> = length nodes" using nodes(2) by (simp add: distinct_card)
  finally have "idx ?fin entry < length nodes + 1" using fin(2) idx_less [of entry ?fin] by simp
  then obtain v m where "best (length nodes + 1) E cost entry Map.empty = Some (v, m)" "best_of E cost entry v"
    using best_correct [where E = E and cost = cost and memo = Map.empty, OF fin(1) cost fin(2)] by blast
  with fin show ?thesis by blast
qed

section \<open>Decoded programs\<close>

text \<open>
  \<open>program insns\<close>: what the decoder produces. Each instruction starts where the one before it ends,
  and its class and width follow from its opcode.
\<close>

definition program :: "insn list \<Rightarrow> bool" where
  "program insns \<longleftrightarrow>
     (\<forall>k. Suc k < length insns \<longrightarrow> pc (insns ! Suc k) = pc (insns ! k) + width (insns ! k)) \<and>
     (\<forall>i \<in> set insns. cls i = opclass_of (opcode i) \<and> wide i = (opcode i = LDDW))"

lemma decode_from_head: "decode_from p tx \<noteq> [] \<Longrightarrow> pc (hd (decode_from p tx)) = p"
  by (subst decode_from.simps) (auto simp: Let_def decode_from.simps [of p tx])

lemma program_decode_from: "program (decode_from p tx)"
proof (induction p tx rule: decode_from.induct)
  case (1 p tx)
  show ?case
  proof (cases "length tx < 8")
    case True
    then show ?thesis by (simp add: decode_from.simps [of p tx] program_def)
  next
    case False
    let ?op = "u8 tx 0"
    let ?step = "if ?op = LDDW then 2 else 1 :: nat"
    let ?i = "\<lparr>pc = p, opcode = ?op, cls = opclass_of ?op, joff = i16 tx 2, imm = i32 tx 4, wide = (?op = LDDW)\<rparr>"
    let ?rest = "decode_from (p + int ?step) (drop (8 * ?step) tx)"
    have d: "decode_from p tx = ?i # ?rest"
      using False by (subst decode_from.simps) (simp add: Let_def)
    have rest: "program ?rest" using 1 [OF False refl refl refl] .
    have "pc ((?i # ?rest) ! Suc k) = pc ((?i # ?rest) ! k) + width ((?i # ?rest) ! k)"
      if "Suc k < length (?i # ?rest)" for k
    proof (cases k)
      case 0
      then have "?rest \<noteq> []" using that by auto
      then have "pc (?rest ! 0) = p + int ?step" using decode_from_head by (metis hd_conv_nth)
      with 0 show ?thesis by (simp add: width_def)
    next
      case (Suc k')
      then show ?thesis using rest that by (simp add: program_def)
    qed
    with rest show ?thesis unfolding d by (auto simp: program_def)
  qed
qed

lemma width_pos: "0 < width i"
  by (simp add: width_def)

lemma program_pc_mono:
  assumes "program insns" "a < b" "b < length insns"
  shows "pc (insns ! a) + width (insns ! a) \<le> pc (insns ! b)"
  using assms(2,3)
proof (induction b)
  case (Suc b)
  have s: "pc (insns ! Suc b) = pc (insns ! b) + width (insns ! b)"
    using assms(1) Suc.prems(2) by (simp add: program_def)
  show ?case
  proof (cases "a = b")
    case False
    then have "pc (insns ! a) + width (insns ! a) \<le> pc (insns ! b)" using Suc by simp
    then show ?thesis using s width_pos [of "insns ! b"] by linarith
  qed (simp add: s)
qed simp

lemma program_gap:
  assumes "program insns" "i \<in> set insns" "j \<in> set insns" "pc i < pc j"
  shows "pc i + width i \<le> pc j"
proof -
  obtain a b where ab: "a < length insns" "insns ! a = i" "b < length insns" "insns ! b = j"
    using assms by (auto simp: in_set_conv_nth)
  have "a < b"
  proof (rule ccontr)
    assume "\<not> a < b"
    then have "a = b \<or> b < a" by linarith
    then show False
      using program_pc_mono [OF assms(1), of b a] ab assms(4) width_pos [of j] by auto
  qed
  from program_pc_mono [OF assms(1) this ab(3)] ab show ?thesis by simp
qed

text \<open>The instruction behind one that is not the last is where that one ends.\<close>

lemma program_next:
  assumes "program insns" "i \<in> set insns" "k \<in> set insns" "pc i < pc k"
  shows "pc i + width i \<in> set (pcs insns)"
proof -
  obtain a b where ab: "a < length insns" "insns ! a = i" "b < length insns" "insns ! b = k"
    using assms by (auto simp: in_set_conv_nth)
  have "a < b"
    using program_pc_mono [OF assms(1), of b a] ab assms(4) width_pos [of k] by (cases a b rule: linorder_cases) auto
  then have "Suc a < length insns" using ab by simp
  then have "pc (insns ! Suc a) = pc i + width i" "insns ! Suc a \<in> set insns"
    using assms(1) ab by (auto simp: program_def)
  then show ?thesis by (metis image_eqI list.set_map pcs_def)
qed

lemma jmp_width:
  assumes "program insns" "i \<in> set insns" "cls i = C_jmp \<or> opcode i = EXIT"
  shows "width i = 1"
proof -
  have "opclass_of LDDW = C_ld" "LDDW \<noteq> EXIT" by code_simp+
  then have "\<not> wide i" using assms by (auto simp: program_def)
  then show ?thesis by (simp add: width_def)
qed

section \<open>Blocks\<close>

lemma leaders_sorted: "sorted_wrt (<) (leaders insns)"
  by (simp add: leaders_def strict_sorted_iff)

lemma leaders_pcs: "set (leaders insns) \<subseteq> set (pcs insns)"
  by (auto simp: leaders_def leads_def pcs_def split: list.splits if_splits)

lemma jump_leads:
  assumes "i \<in> set insns" "p \<in> set (pcs insns)"
    and "opcode i = EXIT \<and> p = pc i + width i \<or> opcode i \<noteq> EXIT \<and> cls i = C_jmp \<and> p \<in> {target i, pc i + 1}"
  shows "p \<in> set (leaders insns)"
proof -
  have "p \<in> set (leads insns i)" using assms(2,3) by (auto simp: leads_def)
  then show ?thesis using assms(1) by (auto simp: leaders_def)
qed

definition in_block :: "int list \<Rightarrow> int \<Rightarrow> insn \<Rightarrow> bool" where
  "in_block L s i \<longleftrightarrow> s \<le> pc i \<and> (\<forall>l \<in> set L. s < l \<longrightarrow> pc i < l)"

lemma blocks_of_fst [simp]: "map fst (blocks_of insns L) = L"
  by (induction insns L rule: blocks_of.induct) auto

lemma blocks_of_body:
  "sorted_wrt (<) L \<Longrightarrow> s \<in> set L \<Longrightarrow> map_of (blocks_of insns L) s = Some (filter (in_block L s) insns)"
proof (induction insns L rule: blocks_of.induct)
  case (2 insns s')
  then show ?case by (auto simp: in_block_def intro: filter_cong)
next
  case (3 insns s' e rest)
  show ?case
  proof (cases "s = s'")
    case True
    have "filter (\<lambda>i. s' \<le> pc i \<and> pc i < e) insns = filter (in_block (s' # e # rest) s') insns"
      using "3.prems"(1) by (intro filter_cong) (auto simp: in_block_def)
    with True show ?thesis by simp
  next
    case False
    then have s: "s \<in> set (e # rest)" using "3.prems"(2) by simp
    have "s' < s" using "3.prems"(1) s by auto
    then have "filter (in_block (e # rest) s) insns = filter (in_block (s' # e # rest) s) insns"
      by (intro filter_cong) (auto simp: in_block_def)
    with False "3.IH" "3.prems"(1) s show ?thesis by simp
  qed
qed simp

section \<open>Executions\<close>

text \<open>
  Control flow of the decoded program: \<open>flows insns i j\<close> holds when \<open>j\<close> may be executed right after \<open>i\<close>.
  A jump that leaves the decoded instructions has no continuation. \<open>runs\<close> lists an execution.
\<close>

definition flows :: "insn list \<Rightarrow> insn \<Rightarrow> insn \<Rightarrow> bool" where
  "flows insns i j \<longleftrightarrow> j \<in> set insns \<and> opcode i \<noteq> EXIT \<and>
     (if cls i = C_jmp then pc j = target i \<or> opcode i \<noteq> JA \<and> pc j = pc i + 1
      else pc j = pc i + width i)"

fun runs :: "insn list \<Rightarrow> insn \<Rightarrow> insn list \<Rightarrow> bool" where
  "runs insns i [] = True"
| "runs insns i (j # js) = (flows insns i j \<and> runs insns j js)"

definition insn_cost :: "insn \<Rightarrow> int" where
  "insn_cost i = cycles (cls i)"

lemma insn_cost_nonneg [simp]: "0 \<le> insn_cost i"
  by (cases "cls i") (auto simp: insn_cost_def)

lemma block_cost_nonneg [simp]: "0 \<le> block_cost body"
  unfolding block_cost_def insn_cost_def [symmetric] by (induction body) auto

lemma block_cost_Cons: "block_cost (i # is) = insn_cost i + block_cost is"
  by (simp add: block_cost_def insn_cost_def)

lemma block_cost_filter_split:
  assumes "i \<in> set xs" "P i" "\<not> Q i" "\<And>x. Q x \<Longrightarrow> P x"
  shows "insn_cost i + block_cost (filter Q xs) \<le> block_cost (filter P xs)"
  using assms(1)
proof (induction xs)
  case (Cons x xs)
  have mono: "block_cost (filter Q xs) \<le> block_cost (filter P xs)"
  proof (induction xs)
    case (Cons x xs)
    then show ?case using assms(4) [of x] by (auto simp: block_cost_Cons intro: add_increasing)
  qed simp
  show ?case
  proof (cases "x = i")
    case True
    then show ?thesis using mono assms(2,3) by (simp add: block_cost_def insn_cost_def)
  next
    case False
    then have "insn_cost i + block_cost (filter Q xs) \<le> block_cost (filter P xs)" using Cons by simp
    then show ?thesis using assms(4) [of x] insn_cost_nonneg [of x]
      by (auto simp: block_cost_def insn_cost_def)
  qed
qed simp

abbreviation "body insns s \<equiv> filter (in_block (leaders insns) s) insns"
abbreviation "next_blocks insns s \<equiv> successors (leaders insns) (body insns s)"

lemma last_of_block:
  assumes "program insns" "i \<in> set (body insns s)" "\<forall>k \<in> set (body insns s). pc k \<le> pc i"
  shows "last (body insns s) = i"
proof -
  let ?b = "body insns s"
  have ne: "?b \<noteq> []" using assms(2) by (metis empty_iff empty_set)
  obtain a where a: "a < length ?b" "?b ! a = i" using assms(2) unfolding in_set_conv_nth by blast
  have sorted: "sorted_wrt (\<lambda>x y. pc x < pc y) insns"
    unfolding sorted_wrt_iff_nth_less
    using program_pc_mono [OF assms(1)] width_pos by (metis less_add_same_cancel1 order_less_le_trans)
  then have sb: "sorted_wrt (\<lambda>x y. pc x < pc y) ?b" by (rule sorted_wrt_filter)
  have "a = length ?b - 1"
  proof (rule ccontr)
    assume "a \<noteq> length ?b - 1"
    then have "pc (?b ! a) < pc (?b ! (length ?b - 1))"
      using sorted_wrt_nth_less [OF sb, of a "length ?b - 1"] a by fastforce
    moreover have "?b ! (length ?b - 1) \<in> set ?b" using ne by (intro nth_mem) auto
    ultimately show False using assms(3) a(2) by fastforce
  qed
  then show ?thesis using a ne by (simp add: last_conv_nth)
qed

text \<open>Execution stays in the block, moving forward, or enters the start of a successor block.\<close>

lemma flow_cases:
  assumes prog: "program insns" and s: "s \<in> set (leaders insns)"
    and i: "i \<in> set (body insns s)" and f: "flows insns i j"
  shows "j \<in> set (body insns s) \<and> pc i < pc j \<or> pc j \<in> set (next_blocks insns s)"
proof -
  let ?L = "leaders insns"
  have ii: "i \<in> set insns" "in_block ?L s i" and jj: "j \<in> set insns" using i f by (auto simp: flows_def)
  have jpc: "pc j \<in> set (pcs insns)" using jj by (simp add: pcs_def)
  show ?thesis
  proof (cases "\<exists>k \<in> set (body insns s). pc i < pc k")
    case True
    then obtain k where k: "k \<in> set insns" "in_block ?L s k" "pc i < pc k" by auto
    have nx: "pc i + width i \<in> set (pcs insns)" using program_next [OF prog ii(1) k(1,3)] .
    have le: "pc i + width i \<le> pc k" using program_gap [OF prog ii(1) k(1,3)] .
    have notjmp: "cls i \<noteq> C_jmp"
    proof
      assume c: "cls i = C_jmp"
      have w: "width i = 1" using jmp_width [OF prog ii(1)] c by blast
      have "opcode i \<noteq> EXIT" using f by (simp add: flows_def)
      with c nx w have "pc i + 1 \<in> set ?L" by (intro jump_leads [OF ii(1)]) auto
      moreover have "s < pc i + 1" using ii(2) by (simp add: in_block_def)
      ultimately have "pc k < pc i + 1" using k(2) by (auto simp: in_block_def)
      then show False using le w by simp
    qed
    then have pj: "pc j = pc i + width i" using f by (simp add: flows_def)
    have "in_block ?L s j"
      unfolding in_block_def
    proof (intro conjI ballI impI)
      show "s \<le> pc j" using pj ii(2) width_pos [of i] by (simp add: in_block_def)
      fix l assume "l \<in> set ?L" "s < l"
      then have "pc k < l" using k(2) by (simp add: in_block_def)
      then show "pc j < l" using le pj by simp
    qed
    then show ?thesis using jj pj width_pos [of i] by simp
  next
    case False
    then have l: "last (body insns s) = i" using i by (intro last_of_block [OF prog]) auto
    have next': "pc j \<in> set (next_blocks insns s)" if "pc j \<in> set ?L"
    proof -
      have "body insns s \<noteq> []" using i by (metis empty_iff empty_set)
      with that f l show ?thesis by (auto simp: successors_def flows_def Let_def)
    qed
    have "pc j \<in> set ?L"
    proof (cases "cls i = C_jmp")
      case True
      with f jpc show ?thesis by (intro jump_leads [OF ii(1)]) (auto simp: flows_def)
    next
      case c: False
      then have pj: "pc j = pc i + width i" using f by (simp add: flows_def)
      have "\<not> in_block ?L s j"
        using False jj pj width_pos [of i] by (auto simp: not_less)
      then obtain l where l: "l \<in> set ?L" "s < l" "l \<le> pc j"
        using pj ii(2) width_pos [of i] by (auto simp: in_block_def not_less)
      have il: "pc i < l" using ii(2) l by (simp add: in_block_def)
      have "l \<in> pc ` set insns" using l(1) leaders_pcs [of insns] by (auto simp: pcs_def)
      then obtain k where k: "k \<in> set insns" "pc k = l" by auto
      have "pc i + width i \<le> l" using program_gap [OF prog ii(1) k(1)] k(2) il by simp
      then have "l = pc j" using l(3) pj by simp
      with l(1) show ?thesis by simp
    qed
    with next' show ?thesis by blast
  qed
qed

text \<open>An execution costs no more than the rest of its block and the best continuation of that block.\<close>

lemma run_bound:
  assumes prog: "program insns"
    and V: "\<And>b. b \<in> B \<Longrightarrow> b \<in> set (leaders insns) \<and> set (next_blocks insns b) \<subseteq> B \<and>
        block_cost (body insns b) \<le> V b \<and>
        (\<forall>t \<in> set (next_blocks insns b). block_cost (body insns b) + V t \<le> V b)"
  shows "runs insns i js \<Longrightarrow> s \<in> B \<Longrightarrow> i \<in> set (body insns s) \<Longrightarrow>
    sum_list (map insn_cost (i # js)) \<le>
      block_cost (filter (\<lambda>k. pc i \<le> pc k) (body insns s)) + (V s - block_cost (body insns s))"
proof (induction js arbitrary: i s)
  case Nil
  have "insn_cost i + block_cost (filter (\<lambda>k. False) (body insns s)) \<le>
      block_cost (filter (\<lambda>k. pc i \<le> pc k) (body insns s))"
    by (rule block_cost_filter_split) (use Nil in auto)
  moreover have "block_cost (filter (\<lambda>k. False) (body insns s)) = 0" by (simp add: block_cost_def)
  ultimately show ?case using V [OF Nil.prems(2)] by simp
next
  case (Cons j js)
  let ?rest = "\<lambda>p. block_cost (filter (\<lambda>k. p \<le> pc k) (body insns s))"
  have f: "flows insns i j" and r: "runs insns j js" using Cons.prems(1) by auto
  have s: "s \<in> set (leaders insns)" using V [OF Cons.prems(2)] by blast
  have sum: "sum_list (map insn_cost (i # j # js)) = insn_cost i + sum_list (map insn_cost (j # js))" by simp
  from flow_cases [OF prog s Cons.prems(3) f] show ?case
  proof
    assume j: "j \<in> set (body insns s) \<and> pc i < pc j"
    have "insn_cost i + ?rest (pc j) \<le> ?rest (pc i)"
      by (rule block_cost_filter_split) (use Cons.prems(3) j in auto)
    moreover have "sum_list (map insn_cost (j # js)) \<le> ?rest (pc j) + (V s - block_cost (body insns s))"
      using Cons.IH [OF r Cons.prems(2)] j by blast
    ultimately show ?thesis unfolding sum by linarith
  next
    assume t: "pc j \<in> set (next_blocks insns s)"
    let ?t = "pc j"
    have tB: "?t \<in> B" using V [OF Cons.prems(2)] t by blast
    have "j \<in> set insns" using f by (simp add: flows_def)
    then have jt: "j \<in> set (body insns ?t)" by (auto simp: in_block_def)
    have "filter (\<lambda>k. pc j \<le> pc k) (body insns ?t) = body insns ?t"
      by (rule filter_True) (auto simp: in_block_def)
    then have "sum_list (map insn_cost (j # js)) \<le> V ?t" using Cons.IH [OF r tB jt] by simp
    moreover have "block_cost (body insns s) + V ?t \<le> V s" using V [OF Cons.prems(2)] t by blast
    moreover have "insn_cost i + block_cost (filter (\<lambda>k. False) (body insns s)) \<le> ?rest (pc i)"
      by (rule block_cost_filter_split) (use Cons.prems(3) in auto)
    moreover have "block_cost (filter (\<lambda>k. False) (body insns s)) = 0" by (simp add: block_cost_def)
    ultimately show ?thesis unfolding sum by linarith
  qed
qed

section \<open>The gate\<close>

abbreviation "graph insns \<equiv> succs (snd (build_cfg insns))"
abbreviation "block_costs insns \<equiv> \<lambda>b. block_cost (body_of (fst (build_cfg insns)) b)"

lemma cfg_blocks: "fst (build_cfg insns) = blocks_of insns (leaders insns)"
  by (simp add: build_cfg_def Let_def)

lemma map_of_map_pairs: "map_of (map (\<lambda>(k, v). (k, f v)) xs) k = map_option f (map_of xs k)"
  by (induction xs) auto

lemma cfg_succs: "graph insns b = (if b \<in> set (leaders insns) then next_blocks insns b else [])"
proof (cases "b \<in> set (leaders insns)")
  case True
  then show ?thesis using blocks_of_body [OF leaders_sorted True]
    by (simp add: build_cfg_def Let_def succs_def map_of_map_pairs)
next
  case False
  then have "map_of (blocks_of insns (leaders insns)) b = None"
    by (metis blocks_of_fst map_of_eq_None_iff list.set_map)
  with False show ?thesis by (simp add: build_cfg_def Let_def succs_def map_of_map_pairs)
qed

lemma cfg_cost:
  "b \<in> set (leaders insns) \<Longrightarrow> block_costs insns b = block_cost (body insns b)"
  using blocks_of_body [OF leaders_sorted] by (simp add: cfg_blocks body_of_def)

lemma cfg_closed: "set (graph insns b) \<subseteq> set (leaders insns)"
  by (auto simp: cfg_succs successors_def Let_def split: if_splits)

lemma leaders_set:
  "set (leaders insns) =
     (case insns of [] \<Rightarrow> {} | i # _ \<Rightarrow> {pc i}) \<union> (\<Union>i \<in> set insns. set (leads insns i))"
  unfolding leaders_def by (cases insns) auto

lemma leaders_Nil: "leaders insns = [] \<longleftrightarrow> insns = []"
  unfolding set_empty [symmetric] leaders_set by (cases insns) auto

lemma sort_leaders [simp]: "sort (leaders insns) = leaders insns"
  using leaders_sorted [of insns] by (simp add: strict_sorted_iff sorted_sort_id)

lemma leaders_hd:
  assumes "program insns" "insns \<noteq> []"
  shows "hd (leaders insns) = pc (hd insns)"
proof -
  obtain e L where L: "leaders insns = e # L" using leaders_Nil assms(2) by (cases "leaders insns") auto
  have "pc (hd insns) \<in> set (leaders insns)" using assms(2) by (cases insns) (auto simp: leaders_def)
  then have le: "e \<le> pc (hd insns)" using leaders_sorted [of insns] L by auto
  obtain i where i: "i \<in> set insns" "pc i = e" using leaders_pcs [of insns] L by (auto simp: pcs_def)
  then obtain k where k: "k < length insns" "insns ! k = i" by (auto simp: in_set_conv_nth)
  have "pc (hd insns) \<le> pc i"
    using program_pc_mono [OF assms(1), of 0 k] k width_pos [of "insns ! 0"] assms(2)
    by (cases "k = 0") (auto simp: hd_conv_nth)
  with le i L show ?thesis by simp
qed

text \<open>The two searches of the gate, on the control-flow graph of any instruction list.\<close>

lemma back_edges_eq:
  "back_edges (fst (build_cfg insns)) (snd (build_cfg insns)) =
     (if insns = [] then Some []
      else map_option snd (dfs (length (leaders insns) + 1) (graph insns) [] (hd (leaders insns)) ([], [])))"
  using leaders_Nil [of insns]
  by (auto simp: back_edges_def cfg_blocks split: list.splits)
     (metis blocks_of_fst length_map length_Cons add.right_neutral add_Suc_right)+

lemma longest_path_eq:
  "longest_path (fst (build_cfg insns)) (snd (build_cfg insns)) =
     (if insns = [] then Some 0
      else map_option fst (best (length (leaders insns) + 1) (graph insns) (block_costs insns)
             (hd (leaders insns)) Map.empty))"
proof -
  have e: "(\<lambda>b. filter (\<lambda>s. s \<in> set (leaders insns)) (graph insns b)) = graph insns"
    using cfg_closed by (intro ext filter_True) blast
  have n: "length (blocks_of insns (leaders insns)) = length (leaders insns)"
    by (metis blocks_of_fst length_map)
  show ?thesis
  proof (cases "leaders insns")
    case Nil
    then show ?thesis using leaders_Nil [of insns] by (simp add: longest_path_def cfg_blocks)
  next
    case (Cons x xs)
    then have "insns \<noteq> []" using leaders_Nil [of insns] by (metis list.distinct(1))
    with Cons show ?thesis unfolding longest_path_def cfg_blocks blocks_of_fst e n sort_leaders by simp
  qed
qed

lemma gate_text_eq:
  "gate_text tx budget =
     (let insns = decode tx; n = length insns; k = length (leaders insns);
          c = longest_path (fst (build_cfg insns)) (snd (build_cfg insns)) in
      case back_edges (fst (build_cfg insns)) (snd (build_cfg insns)) of
        None \<Rightarrow> None
      | Some (_ # _) \<Rightarrow> Some (Refuse, n, k, None)
      | Some [] \<Rightarrow> map_option (\<lambda>c. (if c \<le> budget then Ok_verdict else Reject, n, k, Some c)) c)"
proof -
  have "length (fst (build_cfg (decode tx))) = length (leaders (decode tx))"
    unfolding cfg_blocks by (metis blocks_of_fst length_map)
  then show ?thesis
    by (auto simp: gate_text_def Let_def split: prod.splits option.splits list.splits)
qed

lemma leaders_nodes:
  assumes "insns \<noteq> []"
  shows "hd (leaders insns) \<in> set (leaders insns)" "distinct (leaders insns)"
  using assms leaders_Nil leaders_sorted [of insns] by (auto simp: strict_sorted_iff)

lemma back_edges_total: "\<exists>l. back_edges (fst (build_cfg insns)) (snd (build_cfg insns)) = Some l"
proof (cases "insns = []")
  case False
  let ?L = "leaders insns"
  have "card (set ?L) \<le> length ?L + 1" using card_length [of ?L] by simp
  then have "\<exists>s'. dfs (length ?L + 1) (graph insns) [] (hd ?L) ([], []) = Some s'"
    using leaders_nodes [OF False] cfg_closed by (intro dfs_total [where N = "set ?L"]) auto
  with False show ?thesis by (auto simp: back_edges_eq)
qed (simp add: back_edges_eq)

lemma loop_free_search:
  assumes "insns \<noteq> []" "back_edges (fst (build_cfg insns)) (snd (build_cfg insns)) = Some []"
  shows "\<exists>v fin. longest_path (fst (build_cfg insns)) (snd (build_cfg insns)) = Some v \<and>
    best_of (graph insns) (block_costs insns) (hd (leaders insns)) v \<and>
    topo (graph insns) fin \<and> hd (leaders insns) \<in> set fin \<and> set fin \<subseteq> set (leaders insns)"
proof -
  obtain seen where "dfs (length (leaders insns) + 1) (graph insns) [] (hd (leaders insns)) ([], []) = Some (seen, [])"
    using assms by (auto simp: back_edges_eq)
  from search_correct [OF leaders_nodes [OF assms(1)] cfg_closed block_cost_nonneg this]
  show ?thesis using assms(1) by (auto simp: longest_path_eq)
qed

lemma longest_path_total:
  assumes "back_edges (fst (build_cfg insns)) (snd (build_cfg insns)) = Some []"
  shows "\<exists>v. longest_path (fst (build_cfg insns)) (snd (build_cfg insns)) = Some v"
  using loop_free_search [OF _ assms] by (cases "insns = []") (auto simp: longest_path_eq)

lemma best_of_edge:
  assumes "best_of E cost b v" "t \<in> set (E b)" "best_of E cost t w"
  shows "cost b + w \<le> v"
proof -
  obtain p where p: "chain E t p" "path_cost cost t p = w" using assms(3) by (auto simp: best_of_def)
  then have "path_cost cost b (t # p) \<le> v" using assms(1,2) unfolding best_of_def by (metis chain.simps(2))
  with p show ?thesis by simp
qed

lemma topo_best:
  assumes "topo E fin" "\<And>x. 0 \<le> cost x" "b \<in> set fin"
  shows "\<exists>v. best_of E cost b v"
  using best_correct [where cost = cost, OF assms(1,2,3), of "idx fin b + 1" Map.empty] by auto

lemma gate_run_bound:
  assumes prog: "program insns" and ne: "insns \<noteq> []"
    and lf: "back_edges (fst (build_cfg insns)) (snd (build_cfg insns)) = Some []"
    and c: "longest_path (fst (build_cfg insns)) (snd (build_cfg insns)) = Some c"
    and r: "runs insns (hd insns) js"
  shows "sum_list (map insn_cost (hd insns # js)) \<le> c"
proof -
  let ?e = "hd (leaders insns)" and ?E = "graph insns" and ?C = "block_costs insns"
  obtain fin where v: "best_of ?E ?C ?e c"
    and t: "topo ?E fin" and e: "?e \<in> set fin" and sub: "set fin \<subseteq> set (leaders insns)"
    using loop_free_search [OF ne lf] c by auto
  define V where "V b = (SOME v. best_of ?E ?C b v)" for b
  have V: "best_of ?E ?C b (V b)" if "b \<in> set fin" for b
    unfolding V_def using topo_best [OF t block_cost_nonneg that] by (rule someI_ex)
  have step: "b \<in> set (leaders insns) \<and> set (next_blocks insns b) \<subseteq> set fin \<and>
        block_cost (body insns b) \<le> V b \<and>
        (\<forall>t \<in> set (next_blocks insns b). block_cost (body insns b) + V t \<le> V b)" if b: "b \<in> set fin" for b
  proof -
    have bl: "b \<in> set (leaders insns)" using b sub by blast
    have succ: "?E b = next_blocks insns b" using bl by (simp add: cfg_succs)
    have cost: "?C b = block_cost (body insns b)" using cfg_cost [OF bl] .
    have cl: "set (?E b) \<subseteq> set fin" using topo_idx(1) [OF t b] by blast
    have "path_cost ?C b [] \<le> V b" using V [OF b] unfolding best_of_def by (metis chain.simps(1))
    moreover have "?C b + V t \<le> V b" if "t \<in> set (?E b)" for t
      using best_of_edge [OF V [OF b] that V] that cl by blast
    ultimately show ?thesis using bl cl unfolding succ cost by simp
  qed
  have i: "hd insns \<in> set (body insns ?e)"
    using leaders_hd [OF prog ne] ne by (auto simp: in_block_def)
  have "sum_list (map insn_cost (hd insns # js)) \<le>
      block_cost (filter (\<lambda>k. pc (hd insns) \<le> pc k) (body insns ?e)) + (V ?e - block_cost (body insns ?e))"
    by (rule run_bound [OF prog step r e i])
  moreover have "filter (\<lambda>k. pc (hd insns) \<le> pc k) (body insns ?e) = body insns ?e"
    by (rule filter_True) (use leaders_hd [OF prog ne] in \<open>auto simp: in_block_def\<close>)
  moreover have "V ?e = c" using V [OF e] v unfolding best_of_def by (metis order_antisym)
  ultimately show ?thesis by simp
qed

section \<open>Refusals\<close>

text \<open>A reported back edge closes a cycle through the path the search stands on.\<close>

fun ends :: "int \<Rightarrow> int list \<Rightarrow> int" where
  "ends b [] = b"
| "ends b (t # ts) = ends t ts"

lemma ends_in: "ends b p \<in> set (b # p)"
  by (induction p arbitrary: b) auto

lemma chain_snoc: "chain E b (p @ [t]) \<longleftrightarrow> chain E b p \<and> t \<in> set (E (ends b p))"
  by (induction p arbitrary: b) auto

lemma ends_snoc [simp]: "ends b (p @ [t]) = t"
  by (induction p arbitrary: b) auto

definition cyclic :: "(int \<Rightarrow> int list) \<Rightarrow> int \<Rightarrow> bool" where
  "cyclic E e \<longleftrightarrow> (\<exists>p. chain E e p \<and> \<not> distinct (e # p))"

lemma dfs_each_found:
  assumes step: "\<And>p t s s'. dfs n E (e # p) t s = Some s' \<Longrightarrow> chain E e (p @ [t]) \<Longrightarrow> snd s = [] \<Longrightarrow>
      snd s' \<noteq> [] \<Longrightarrow> cyclic E e"
  shows "dfs_each n E (e # p) b ts s = Some s' \<Longrightarrow> chain E e p \<Longrightarrow> ends e p = b \<Longrightarrow> set ts \<subseteq> set (E b) \<Longrightarrow>
      snd s = [] \<Longrightarrow> snd s' \<noteq> [] \<Longrightarrow> cyclic E e"
proof (induction ts arbitrary: s)
  case (Cons t ts)
  obtain seen where s: "s = (seen, [])" using Cons.prems(5) by (cases s) auto
  have ch: "chain E e (p @ [t])" using Cons.prems by (auto simp: chain_snoc)
  show ?case
  proof (cases "t \<in> set (e # p)")
    case True
    then show ?thesis using ch unfolding cyclic_def by (intro exI [of _ "p @ [t]"]) auto
  next
    case off: False
    show ?thesis
    proof (cases "t \<in> set seen")
      case True
      then show ?thesis using Cons.IH [of s] Cons.prems off s by auto
    next
      case False
      then obtain s1 where s1: "dfs n E (e # p) t s = Some s1" "dfs_each n E (e # p) b ts s1 = Some s'"
        using Cons.prems(1) off s by (auto split: option.splits)
      show ?thesis
      proof (cases "snd s1 = []")
        case True
        then show ?thesis using Cons.IH [OF s1(2)] Cons.prems by simp
      next
        case False
        then show ?thesis using step [OF s1(1) ch] s by simp
      qed
    qed
  qed
qed simp

lemma dfs_found:
  "dfs n E (e # p) t s = Some s' \<Longrightarrow> chain E e (p @ [t]) \<Longrightarrow> snd s = [] \<Longrightarrow> snd s' \<noteq> [] \<Longrightarrow> cyclic E e"
proof (induction n arbitrary: p t s s')
  case (Suc n)
  obtain seen where s: "s = (seen, [])" using Suc.prems(3) by (cases s) auto
  have d: "dfs_each n E (e # p @ [t]) t (E t) (t # seen, []) = Some s'" using Suc.prems(1) s by simp
  show ?case
    by (rule dfs_each_found [OF Suc.IH d Suc.prems(2)]) (use Suc.prems(4) in auto)
qed simp

lemma topo_acyclic:
  assumes "topo E fin"
  shows "b \<in> set fin \<Longrightarrow> chain E b p \<Longrightarrow> distinct (b # p) \<and> (\<forall>x \<in> set p. idx fin x < idx fin b)"
proof (induction p arbitrary: b)
  case (Cons t p)
  have t: "t \<in> set fin" "idx fin t < idx fin b" using topo_idx [OF assms Cons.prems(1)] Cons.prems(2) by auto
  with Cons.IH [OF t(1)] Cons.prems(2) show ?case by auto
qed simp

lemma loop_found:
  assumes "insns \<noteq> []"
  shows "back_edges (fst (build_cfg insns)) (snd (build_cfg insns)) = Some [] \<longleftrightarrow>
    \<not> cyclic (graph insns) (hd (leaders insns))"
proof
  assume "back_edges (fst (build_cfg insns)) (snd (build_cfg insns)) = Some []"
  from loop_free_search [OF assms this] topo_acyclic show "\<not> cyclic (graph insns) (hd (leaders insns))"
    unfolding cyclic_def by blast
next
  assume acy: "\<not> cyclic (graph insns) (hd (leaders insns))"
  let ?e = "hd (leaders insns)" and ?E = "graph insns"
  obtain s' where s': "dfs (length (leaders insns) + 1) ?E [] ?e ([], []) = Some s'"
    and be: "back_edges (fst (build_cfg insns)) (snd (build_cfg insns)) = Some (snd s')"
    using back_edges_total [of insns] assms by (auto simp: back_edges_eq)
  have d: "dfs_each (length (leaders insns)) ?E (?e # []) ?e (?E ?e) ([?e], []) = Some s'" using s' by simp
  have "snd s' = []"
  proof (rule ccontr)
    assume "snd s' \<noteq> []"
    then have "cyclic ?E ?e" using dfs_each_found [OF dfs_found d] by simp
    with acy show False by contradiction
  qed
  with be show "back_edges (fst (build_cfg insns)) (snd (build_cfg insns)) = Some []" by simp
qed

lemma program_decode: "program (decode tx)"
  by (simp add: decode_def program_decode_from)

lemma insn_cost_pos: "1 \<le> insn_cost i"
  by (cases "cls i") (auto simp: insn_cost_def)

lemma cost_length: "int (length is) \<le> sum_list (map insn_cost is)"
proof (induction "is")
  case (Cons i "is")
  then show ?case using insn_cost_pos [of i] by simp
qed simp

section \<open>The section reader on the self-test's objects\<close>

lemma find_at_zero: "0 \<notin> set s \<Longrightarrow> find_at [0] i (s @ 0 # ys) = Some (i + length s)"
  by (induction s arbitrary: i) auto

lemma c_string_at:
  assumes "0 \<notin> set s" "length xs = n"
  shows "c_string (xs @ s @ 0 # ys) n = Inr s"
  using assms find_at_zero [OF assms(1), of n ys] slice_at [OF assms(2), of s "length s" "0 # ys"]
  by (simp add: c_string_def find_from_def)

lemma elf_shdr_at:
  assumes "length xs = shoff + i * 64"
    "0 \<le> nm" "nm < 4294967296" "0 \<le> ty" "ty < 4294967296" "0 \<le> fl" "fl < 18446744073709551616"
    "0 \<le> off" "off < 18446744073709551616" "0 \<le> sz" "sz < 18446744073709551616"
  shows "shdr (xs @ elf_shdr nm ty off sz fl @ ys) shoff 64 i =
    Inr \<lparr>sh_name = nat nm, sh_type = ty, sh_flags = fl, sh_offset = nat off, sh_size = nat sz\<rparr>"
proof -
  define n where "n = shoff + i * 64"
  let ?b = "xs @ elf_shdr nm ty off sz fl @ ys"
  have 1: "u32 ?b n = nm" using u_at(2) [OF assms(1,2,3)] by (simp add: elf_shdr_def n_def)
  have 2: "u32 ?b (n + 4) = ty"
    using u_at(2) [of "xs @ le_bytes 4 nm" "n + 4" ty] assms by (simp add: elf_shdr_def n_def)
  have 3: "u64 ?b (n + 8) = fl"
    using u_at(3) [of "xs @ le_bytes 4 nm @ le_bytes 4 ty" "n + 8" fl] assms by (simp add: elf_shdr_def n_def)
  have 4: "u64 ?b (n + 24) = off"
    using u_at(3) [of "xs @ le_bytes 4 nm @ le_bytes 4 ty @ le_bytes 8 fl @ le_bytes 8 0" "n + 24" off] assms
    by (simp add: elf_shdr_def n_def)
  have 5: "u64 ?b (n + 32) = sz"
    using u_at(3) [of "xs @ le_bytes 4 nm @ le_bytes 4 ty @ le_bytes 8 fl @ le_bytes 8 0 @ le_bytes 8 off" "n + 32" sz] assms
    by (simp add: elf_shdr_def n_def)
  have 6: "n + 40 \<le> length ?b" using assms(1) by (simp add: elf_shdr_def n_def)
  show ?thesis unfolding shdr_def Let_def n_def [symmetric] using 1 2 3 4 5 6 by (simp add: need_def)
qed

lemma lengths [simp]: "length (elf_ehdr v) = 64" "length shstrtab = 17" "length (elf_shdr a b c d e) = 64"
  by (simp_all add: elf_ehdr_def shstrtab_def elf_shdr_def)

lemma shstrtab_names:
  "shstrtab = [0] @ map (\<lambda>c. word_of_nat (of_char c)) ''.text'' @ 0 # 46 # map (\<lambda>c. word_of_nat (of_char c)) ''shstrtab'' @ [0]"
  by (simp add: shstrtab_def)

lemma ehdr_fields:
  assumes "0 \<le> v" "v < 18446744073709551616"
  shows "u64 (elf_ehdr v @ ys) 0x28 = v" "u16 (elf_ehdr v @ ys) 0x3A = 64"
    "u16 (elf_ehdr v @ ys) 0x3C = 3" "u16 (elf_ehdr v @ ys) 0x3E = 2"
proof -
  let ?pre = "[0x7F, 0x45, 0x4C, 0x46, 2, 1, 1] @ replicate 9 0 @ le_bytes 2 1 @ le_bytes 2 247 @ le_bytes 4 1 @ replicate 16 0 :: bytes"
  let ?mid = "?pre @ le_bytes 8 v @ replicate 4 0 @ le_bytes 2 64 @ replicate 4 0"
  show "u64 (elf_ehdr v @ ys) 0x28 = v"
    using u_at(3) [of ?pre "0x28" v] assms by (simp add: elf_ehdr_def)
  show "u16 (elf_ehdr v @ ys) 0x3A = 64"
    using u_at(1) [of ?mid "0x3A" 64] by (simp add: elf_ehdr_def)
  show "u16 (elf_ehdr v @ ys) 0x3C = 3"
    using u_at(1) [of "?mid @ le_bytes 2 64" "0x3C" 3] by (simp add: elf_ehdr_def)
  show "u16 (elf_ehdr v @ ys) 0x3E = 2"
    using u_at(1) [of "?mid @ le_bytes 2 64 @ le_bytes 2 3" "0x3E" 2] by (simp add: elf_ehdr_def)
qed

lemma elf_wrap_read:
  assumes "tx \<noteq> []" "length tx < 2 ^ 62"
  shows "elf_section_bytes (elf_wrap tx) None = Inr tx"
proof -
  let ?n = "length tx" and ?w = "elf_wrap tx"
  let ?so = "64 + int ?n + 17"
  let ?h0 = "elf_shdr 0 0 0 0 0" and ?h1 = "elf_shdr 1 1 64 (int ?n) 6" and ?h2 = "elf_shdr 8 3 (64 + int ?n) 17 0"
  have b: "int ?n < 4611686018427387904" using assms(2) by simp
  have w: "?w = elf_ehdr ?so @ tx @ shstrtab @ ?h0 @ ?h1 @ ?h2" by (simp add: elf_wrap_def Let_def)
  have eh: "u64 ?w 0x28 = ?so" "u16 ?w 0x3A = 64" "u16 ?w 0x3C = 3" "u16 ?w 0x3E = 2"
    unfolding w using ehdr_fields [of ?so] b by auto
  have magic: "take 4 ?w = [0x7F, 0x45, 0x4C, 0x46]" "?w ! 4 = 2" "?w ! 5 = 1"
    unfolding w by (simp_all add: elf_ehdr_def)
  have len: "length ?w = ?n + 273" unfolding w by simp
  have s0: "shdr ?w (nat ?so) 64 0 = Inr \<lparr>sh_name = 0, sh_type = 0, sh_flags = 0, sh_offset = 0, sh_size = 0\<rparr>"
    using elf_shdr_at [of "elf_ehdr ?so @ tx @ shstrtab" "nat ?so" 0 0 0 0 0 0 "?h1 @ ?h2"]
    unfolding w by simp
  have s1: "shdr ?w (nat ?so) 64 1 =
      Inr \<lparr>sh_name = 1, sh_type = 1, sh_flags = 6, sh_offset = 64, sh_size = ?n\<rparr>"
    using elf_shdr_at [of "elf_ehdr ?so @ tx @ shstrtab @ ?h0" "nat ?so" 1 1 1 6 64 "int ?n" "?h2"] b
    unfolding w by simp
  have s2: "shdr ?w (nat ?so) 64 2 =
      Inr \<lparr>sh_name = 8, sh_type = 3, sh_flags = 0, sh_offset = 64 + ?n, sh_size = 17\<rparr>"
    using elf_shdr_at [of "elf_ehdr ?so @ tx @ shstrtab @ ?h0 @ ?h1" "nat ?so" 2 8 3 0 "64 + int ?n" 17 "[]"] b
    unfolding w by (simp add: nat_add_distrib)
  have names: "c_string ?w (64 + ?n) = Inr []"
    "c_string ?w (64 + ?n + 1) = Inr (map (\<lambda>c. word_of_nat (of_char c)) ''.text'')"
    "c_string ?w (64 + ?n + 8) = Inr (map (\<lambda>c. word_of_nat (of_char c)) ''shstrtab'')"
    using c_string_at [of "[]" "elf_ehdr ?so @ tx" "64 + ?n"]
      c_string_at [of "map (\<lambda>c. word_of_nat (of_char c)) ''.text''" "elf_ehdr ?so @ tx @ [0]" "64 + ?n + 1"]
      c_string_at [of "map (\<lambda>c. word_of_nat (of_char c)) ''shstrtab''" "elf_ehdr ?so @ tx @ [0] @ map (\<lambda>c. word_of_nat (of_char c)) ''.text'' @ [0, 46]" "64 + ?n + 8"]
    unfolding w shstrtab_names by simp_all
  have three: "[0..<3] = [0, 1, 2]" by code_simp
  have cand: "exec_progbits ?w (shdr ?w (nat ?so) 64) 3 (64 + ?n) =
      Inr [(map (\<lambda>c. word_of_nat (of_char c)) ''.text'', 64, ?n)]"
    using assms(1) s0 s1 s2 names by (simp add: exec_progbits_def three)
  have "pyslice 64 (64 + ?n) ?w = tx"
    unfolding w using slice_at [of "elf_ehdr ?so" 64 tx ?n] by simp
  then show ?thesis using magic len eh s2 cand by (simp add: elf_section_bytes_def need_def Let_def)
qed

section \<open>Properties\<close>

text \<open>The self-test's conditional: the taken branch skips one instruction.\<close>

definition branchy :: bytes where
  "branchy = asm_i 0x15 0 0 1 0 @ asm_i 0xb7 0 0 0 1 @ asm_i 0xb7 0 0 0 2 @ asm_i EXIT 0 0 0 0"

lemma branchy_decode:
  "decode branchy =
     [\<lparr>pc = 0, opcode = 0x15, cls = C_jmp, joff = 1, imm = 0, wide = False\<rparr>,
      \<lparr>pc = 1, opcode = 0xb7, cls = C_alu, joff = 0, imm = 1, wide = False\<rparr>,
      \<lparr>pc = 2, opcode = 0xb7, cls = C_alu, joff = 0, imm = 2, wide = False\<rparr>,
      \<lparr>pc = 3, opcode = 0x95, cls = C_exit, joff = 0, imm = 0, wide = False\<rparr>]"
  by code_simp

lemma branchy_gate: "gate_text branchy 800 = Some (Ok_verdict, 4, 3, Some 5)"
  by code_simp

text \<open>
What the priced path covers: when the gate admits a program, every walk over its instructions along the
flow the gate sees, from the first decoded instruction by fall-through and jumps, costs at most the
budget in the gate's own table of costs, and so has at most budget many instructions. This is no bound on
running time: the costs are estimates, and a call is stepped over.
\<close>

theorem gate_sound:
  assumes "gate_text tx budget = Some (Ok_verdict, n, k, c)" "decode tx \<noteq> []"
    and "runs (decode tx) (hd (decode tx)) js"
  shows "sum_list (map insn_cost (hd (decode tx) # js)) \<le> budget \<and> 1 + int (length js) \<le> budget"
proof -
  let ?i = "decode tx"
  obtain v where v: "back_edges (fst (build_cfg ?i)) (snd (build_cfg ?i)) = Some []"
    "longest_path (fst (build_cfg ?i)) (snd (build_cfg ?i)) = Some v" "v \<le> budget"
    using assms(1) by (auto simp: gate_text_eq Let_def split: option.splits list.splits if_splits)
  have "sum_list (map insn_cost (hd ?i # js)) \<le> v"
    by (rule gate_run_bound [OF program_decode assms(2) v(1,2) assms(3)])
  with v(3) cost_length [of "hd ?i # js"] show ?thesis by simp
qed

theorem gate_sound_witness:
  "sum_list (map insn_cost (decode branchy)) \<le> 800 \<and> (4 :: int) \<le> 800"
proof -
  have "runs (decode branchy) (hd (decode branchy)) (tl (decode branchy))"
    by (simp add: branchy_decode flows_def target_def width_def EXIT_def JA_def)
  from gate_sound [OF branchy_gate _ this] show ?thesis by (simp add: branchy_decode)
qed

text \<open>
A call of a function of the same program (opcode 0x85 with source register 1) is priced as one helper
call, and its callee, which follows the exit, is not reached by the search: a callee that loops for ever is admitted.
\<close>

definition local_call :: bytes where
  "local_call = [0x85, 0x10, 0, 0, 1, 0, 0, 0] @ [0x95, 0, 0, 0, 0, 0, 0, 0] @ [0x05, 0, 0xff, 0xff, 0, 0, 0, 0]"

lemma local_call_unpriced: "gate_text local_call 800 = Some (Ok_verdict, 3, 2, Some 7)"
  by code_simp

text \<open>
C28. The gate always decides, and decides exactly: it refuses if and only if some path of blocks from
the entry block revisits a block, and otherwise it prices the program at the cost of its most
expensive path of blocks, attained by one path and exceeded by none, and rejects it exactly when that
cost is above the budget.
\<close>

theorem gate_exact:
  assumes "decode tx \<noteq> []"
  shows "let insns = decode tx; E = graph insns; e = hd (leaders insns) in
    \<exists>n k. if cyclic E e then gate_text tx budget = Some (Refuse, n, k, None)
      else \<exists>c. gate_text tx budget = Some (if c \<le> budget then Ok_verdict else Reject, n, k, Some c) \<and>
           best_of E (block_costs insns) e c"
proof -
  let ?i = "decode tx"
  obtain l where l: "back_edges (fst (build_cfg ?i)) (snd (build_cfg ?i)) = Some l"
    using back_edges_total by blast
  show ?thesis
  proof (cases "cyclic (graph ?i) (hd (leaders ?i))")
    case True
    then have "l \<noteq> []" using loop_found [OF assms] l by auto
    with l True show ?thesis by (auto simp: gate_text_eq Let_def neq_Nil_conv)
  next
    case False
    then have b: "back_edges (fst (build_cfg ?i)) (snd (build_cfg ?i)) = Some []"
      using loop_found [OF assms] by simp
    from loop_free_search [OF assms b] False b show ?thesis by (auto simp: gate_text_eq Let_def)
  qed
qed

theorem gate_exact_witness:
  "\<not> cyclic (graph (decode branchy)) (hd (leaders (decode branchy))) \<and>
   best_of (graph (decode branchy)) (block_costs (decode branchy)) (hd (leaders (decode branchy))) 5"
proof -
  have "decode branchy \<noteq> []" by (simp add: branchy_decode)
  from gate_exact [OF this, of 800] show ?thesis
    by (auto simp: Let_def branchy_gate split: if_splits)
qed

text \<open>
The section reader finds the program: for every non-empty text, the object the self-test builds
around it is read back, with no section named, as exactly that text.
\<close>

theorem elf_wrap_section:
  assumes "tx \<noteq> []" "length tx < 2 ^ 62"
  shows "elf_section_bytes (elf_wrap tx) None = Inr tx"
  using assms by (rule elf_wrap_read)

theorem elf_wrap_section_witness:
  "elf_section_bytes (elf_wrap [0x95, 0, 0, 0, 0, 0, 0, 0]) None = Inr [0x95, 0, 0, 0, 0, 0, 0, 0]"
  by (rule elf_wrap_section) simp_all

text \<open>
The gate's own self-test succeeds: each of its six hand-assembled programs, wrapped in an ELF
object and read back, gets the listed verdict, instruction count, block count and cost.
\<close>

theorem selftest_passes: "selftest = 0"
proof -
  have "gate (elf_wrap tx) budget None = Inr (gate_text tx budget)" if "tx \<noteq> []" "length tx < 2 ^ 62" for tx budget
    using elf_wrap_read [OF that] by (simp add: gate_def)
  moreover have "list_all (\<lambda>(tx, budget, expect).
      (tx \<noteq> [] \<and> length tx < 1000) \<and> gate_text tx budget = Some expect) CASES"
    by code_simp
  ultimately have "list_all (\<lambda>(tx, budget, expect). gate (elf_wrap tx) budget None = Inr (Some expect)) CASES"
    by (auto simp: list_all_iff)
  then show ?thesis by (simp add: selftest_def)
qed

text \<open>
What is admitted on the command line: with file arguments, the exit code is 0 only if every named
file could be read, holds the section to be priced, and was gated ok at the given budget.
\<close>

theorem main_admits:
  assumes "read_args argv (DEFAULT_BUDGET, None, []) = Inr (budget, sec, args)" "args \<noteq> []"
  shows "budget_main fs argv = Inr 0 \<longleftrightarrow>
    (\<forall>a \<in> set args. \<exists>blob tx n k c. fs a = Some blob \<and>
       elf_section_bytes blob (map_option (map (\<lambda>c. word_of_nat (of_char c))) sec) = Inr tx \<and>
       gate_text tx budget = Some (Ok_verdict, n, k, c))"
proof -
  have "(case gate blob budget w of Inr (Some (Ok_verdict, _)) \<Rightarrow> True | _ \<Rightarrow> False) \<longleftrightarrow>
      (\<exists>tx n k c. elf_section_bytes blob w = Inr tx \<and> gate_text tx budget = Some (Ok_verdict, n, k, c))" for blob w
    by (cases "elf_section_bytes blob w")
       (auto simp: gate_def split: sum.splits option.splits verdict.splits)
  with assms show ?thesis
    by (auto simp: budget_main_def gate_files_def list_all_iff split: option.splits)
qed

theorem main_admits_witness:
  "budget_main [''a.o'' \<mapsto> elf_wrap branchy] [''--budget'', ''5'', ''a.o''] = Inr 0"
proof -
  have r: "read_args [''--budget'', ''5'', ''a.o''] (DEFAULT_BUDGET, None, []) = Inr (5, None, [''a.o''])"
    by code_simp
  have "elf_section_bytes (elf_wrap branchy) None = Inr branchy"
    by (rule elf_wrap_read) (simp_all add: branchy_def asm_i_def)
  moreover have "gate_text branchy 5 = Some (Ok_verdict, 4, 3, Some 5)" by code_simp
  ultimately show ?thesis using main_admits [OF r, of "[''a.o'' \<mapsto> elf_wrap branchy]"] by auto
qed

text \<open>
A text of fewer than eight bytes is admitted: it decodes to no instruction at all, and the gate
prices it at zero cycles and says ok for every budget that is not negative, although the section reader
refuses an empty section because a program with no instructions must not be priced.
\<close>

theorem gate_admits_short_text:
  assumes "length tx < 8" "0 \<le> budget"
  shows "gate_text tx budget = Some (Ok_verdict, 0, 0, Some 0) \<and>
    (tx \<noteq> [] \<longrightarrow> gate (elf_wrap tx) budget None = Inr (Some (Ok_verdict, 0, 0, Some 0)))"
proof -
  have d: "decode tx = []" using assms(1) by (simp add: decode_def decode_from.simps [of 0 tx])
  have "gate_text tx budget = Some (Ok_verdict, 0, 0, Some 0)"
    using assms(2) by (simp add: gate_text_eq d back_edges_eq longest_path_eq leaders_Nil)
  moreover have "elf_section_bytes (elf_wrap tx) None = Inr tx" if "tx \<noteq> []"
    using that assms(1) by (intro elf_wrap_read) auto
  ultimately show ?thesis by (simp add: gate_def)
qed

theorem gate_admits_short_text_witness:
  "gate (elf_wrap [0x85]) 800 None = Inr (Some (Ok_verdict, 0, 0, Some 0))"
  using gate_admits_short_text [of "[0x85]" 800] by simp

end
