(* ===== verification/Py_Lines.thy ===== *)
theory Py_Lines
  imports Py_Text
begin

text \<open>
  The text routines the command-line tools use on the output of other programs and on index files:
  \<^verbatim>\<open>splitlines\<close>, \<^verbatim>\<open>split()\<close>, \<^verbatim>\<open>startswith\<close>, \<^verbatim>\<open>int(text, 16)\<close> and \<^verbatim>\<open>int(text, 0)\<close>, and a regular
  expression's word boundary. A character is a code point below 256.
\<close>

section \<open>Lines and words\<close>

text \<open>The line boundaries of \<^verbatim>\<open>str.splitlines\<close>; a carriage return and a line feed are one boundary.\<close>

definition is_break :: "char \<Rightarrow> bool" where
  "is_break c = ((of_char c :: nat) \<in> {10, 11, 12, 13, 28, 29, 30, 133})"

fun splitlines_from :: "string \<Rightarrow> string \<Rightarrow> string list" where
  "splitlines_from acc [] = (if acc = [] then [] else [acc])"
| "splitlines_from acc [c] = (if is_break c then [acc] else [acc @ [c]])"
| "splitlines_from acc (c # d # cs) =
     (if is_break c then
        (if c = CHR 0x0D \<and> d = CHR 0x0A then acc # splitlines_from [] cs
         else acc # splitlines_from [] (d # cs))
      else splitlines_from (acc @ [c]) (d # cs))"

definition splitlines :: "string \<Rightarrow> string list" where
  "splitlines s = splitlines_from [] s"

text \<open>\<^verbatim>\<open>str.split()\<close>: the maximal runs of non-space characters.\<close>

fun split_words_from :: "string \<Rightarrow> string \<Rightarrow> string list" where
  "split_words_from acc [] = (if acc = [] then [] else [acc])"
| "split_words_from acc (c # cs) =
     (if is_space c then (if acc = [] then split_words_from [] cs else acc # split_words_from [] cs)
      else split_words_from (acc @ [c]) cs)"

definition split_words :: "string \<Rightarrow> string list" where
  "split_words s = split_words_from [] s"

text \<open>
  \<^verbatim>\<open>for line in f\<close> over a text file: the lines between line feeds, after the newline translation
  of text mode.
\<close>

fun universal_newlines :: "string \<Rightarrow> string" where
  "universal_newlines [] = []"
| "universal_newlines (c # cs) =
     (if c = CHR 0x0D then
        CHR 0x0A # (case cs of d # ds \<Rightarrow> if d = CHR 0x0A then universal_newlines ds else universal_newlines cs | [] \<Rightarrow> [])
      else c # universal_newlines cs)"

text \<open>A line of fields between tabs.\<close>

definition tabbed :: "string list \<Rightarrow> string" where
  "tabbed fs = join [CHR 0x09] fs @ [CHR 0x0A]"

definition starts_any :: "string list \<Rightarrow> string \<Rightarrow> bool" where
  "starts_any ps s = list_ex (\<lambda>p. is_prefix p s) ps"

definition ends_with :: "string \<Rightarrow> string \<Rightarrow> bool" where
  "ends_with p s = is_prefix (rev p) (rev s)"

definition contains :: "string \<Rightarrow> string \<Rightarrow> bool" where
  "contains sub s = (find_at sub 0 s \<noteq> None)"

text \<open>\<^verbatim>\<open>data.decode("ascii")\<close> and \<^verbatim>\<open>text.rstrip()\<close>.\<close>

definition decode_ascii :: "bytes \<Rightarrow> string result" where
  "decode_ascii bs =
     (if list_all (\<lambda>b. b < 128) bs then Inr (map (\<lambda>b. char_of (unat b)) bs)
      else Inl (ValueError ''ordinal not in range(128)''))"

definition rstrip :: "string \<Rightarrow> string" where
  "rstrip s = rev (dropWhile is_space (rev s))"

section \<open>Integers in other bases\<close>

text \<open>Digits of base 8, 10 or 16 with single underscores between them, as \<^verbatim>\<open>int\<close> reads them.\<close>

fun base_digits :: "nat \<Rightarrow> int \<Rightarrow> bool \<Rightarrow> string \<Rightarrow> int option" where
  "base_digits b acc ok [] = (if ok then Some acc else None)"
| "base_digits b acc ok (c # cs) =
     (case hex_val c of
        Some d \<Rightarrow> if d < b then base_digits b (acc * int b + int d) True cs else None
      | None \<Rightarrow> if c = CHR ''_'' \<and> ok then base_digits b acc False cs else None)"

definition unsign :: "string \<Rightarrow> int \<times> string" where
  "unsign s =
     (case s of
        c # cs \<Rightarrow> if c = CHR ''-'' then (-1, cs) else if c = CHR ''+'' then (1, cs) else (1, s)
      | [] \<Rightarrow> (1, s))"

text \<open>After a base prefix one underscore may stand before the digits.\<close>

definition prefixed_digits :: "nat \<Rightarrow> string \<Rightarrow> int option" where
  "prefixed_digits b s =
     (case s of c # cs \<Rightarrow> if c = CHR ''_'' then base_digits b 0 False cs else base_digits b 0 False s
      | [] \<Rightarrow> None)"

definition parse_hex :: "string \<Rightarrow> int result" where
  "parse_hex s =
     (let (sg, t) = unsign (strip s);
          v = (if is_prefix ''0x'' t \<or> is_prefix ''0X'' t then prefixed_digits 16 (drop 2 t)
               else base_digits 16 0 False t) in
      case v of None \<Rightarrow> Inl (ValueError ''invalid literal for int() with base 16'') | Some n \<Rightarrow> Inr (sg * n))"

text \<open>Base 0: the prefix chooses the base, and a decimal literal has no leading zero unless it is zero.\<close>

definition parse_int0 :: "string \<Rightarrow> int result" where
  "parse_int0 s =
     (let (sg, t) = unsign (strip s);
          v = (if is_prefix ''0x'' t \<or> is_prefix ''0X'' t then prefixed_digits 16 (drop 2 t)
               else if is_prefix ''0o'' t \<or> is_prefix ''0O'' t then prefixed_digits 8 (drop 2 t)
               else if is_prefix ''0b'' t \<or> is_prefix ''0B'' t then prefixed_digits 2 (drop 2 t)
               else case base_digits 10 0 False t of
                      Some n \<Rightarrow> if is_prefix ''0'' t \<and> n \<noteq> 0 then None else Some n
                    | None \<Rightarrow> None) in
      case v of None \<Rightarrow> Inl (ValueError ''invalid literal for int() with base 0'') | Some n \<Rightarrow> Inr (sg * n))"

section \<open>Word boundaries\<close>

definition is_word :: "char \<Rightarrow> bool" where
  "is_word c = (c = CHR ''_'' \<or> is_digit c \<or> (let n = of_char c in (65 \<le> n \<and> n \<le> 90) \<or> (97 \<le> n \<and> n \<le> (122 :: nat))))"

text \<open>
  \<^verbatim>\<open>re.search(r"\bname\b", line)\<close> for a name of word characters: an occurrence with no word character on
  either side. \<open>before\<close> says that a word character precedes the text.
\<close>

fun search_word :: "bool \<Rightarrow> string \<Rightarrow> string \<Rightarrow> bool" where
  "search_word before w [] = False"
| "search_word before w (c # cs) =
     (\<not> before \<and> is_prefix w (c # cs) \<and>
        (case drop (length w) (c # cs) of [] \<Rightarrow> True | d # _ \<Rightarrow> \<not> is_word d) \<or>
      search_word (is_word c) w cs)"

lemma find_at_None: "sub \<noteq> [] \<Longrightarrow> find_at sub i xs = None \<longleftrightarrow> (\<nexists>ys zs. xs = ys @ sub @ zs)"
proof (induction xs arbitrary: i)
  case (Cons x xs)
  have "(\<exists>ys zs. x # xs = ys @ sub @ zs) \<longleftrightarrow> is_prefix sub (x # xs) \<or> (\<exists>ys zs. xs = ys @ sub @ zs)"
    unfolding is_prefix_iff
    by (metis append_Cons append_Nil list.inject list.exhaust)
  with Cons show ?case by auto
qed simp

lemma contains_iff: "sub \<noteq> [] \<Longrightarrow> contains sub s \<longleftrightarrow> (\<exists>ys zs. s = ys @ sub @ zs)"
  by (simp add: contains_def find_at_None)

text \<open>A whole word between two non-word characters is found.\<close>

lemma search_wordI:
  assumes "w \<noteq> []" "\<forall>c \<in> set w. is_word c"
    and "post = [] \<or> \<not> is_word (hd post)"
  shows "(if pre = [] then \<not> before else \<not> is_word (last pre)) \<Longrightarrow> search_word before w (pre @ w @ post)"
proof (induction pre arbitrary: before)
  case Nil
  have "is_prefix w (w @ post)" by (auto simp: is_prefix_iff)
  with Nil assms show ?case by (cases w; cases post) auto
next
  case (Cons c pre)
  have "search_word (is_word c) w (pre @ w @ post)"
    by (rule Cons.IH) (use Cons.prems in \<open>auto split: if_splits\<close>)
  then show ?case by simp
qed

lemma parse_hex_value_error: "parse_hex s = Inl e \<Longrightarrow> is_value_error e"
  by (auto simp: parse_hex_def Let_def split: prod.splits option.splits)

lemma parse_int0_value_error: "parse_int0 s = Inl e \<Longrightarrow> is_value_error e"
  by (auto simp: parse_int0_def Let_def split: prod.splits option.splits)

lemma split_words_nonempty: "w \<in> set (split_words_from acc s) \<Longrightarrow> w \<noteq> []"
  by (induction acc s rule: split_words_from.induct) (auto split: if_splits)

lemma universal_newlines_id: "CHR 0x0D \<notin> set s \<Longrightarrow> universal_newlines s = s"
  by (induction s) auto

text \<open>A file written line by line reads back as its lines, and an empty one after the last line feed.\<close>

lemma split_lines:
  "\<forall>l \<in> set ls. CHR 0x0A \<notin> set l \<Longrightarrow> split_on (CHR 0x0A) (concat (map (\<lambda>l. l @ [CHR 0x0A]) ls)) = ls @ [[]]"
  by (induction ls) (auto simp: split_on_append)

text \<open>Text without white space, as fields of a line are.\<close>

definition clean :: "string \<Rightarrow> bool" where
  "clean s = list_all (\<lambda>c. \<not> is_space c) s"

lemma clean_simps [simp]: "clean []" "clean (c # s) \<longleftrightarrow> \<not> is_space c \<and> clean s" "clean (s @ t) \<longleftrightarrow> clean s \<and> clean t"
  by (auto simp: clean_def)

lemma clean_no_sep:
  assumes "clean s"
  shows "CHR 0x09 \<notin> set s" "CHR 0x0A \<notin> set s" "CHR 0x0D \<notin> set s"
  using assms by (auto simp: clean_def list_all_iff is_space_def is_ascii_space_def)

lemma clean_str_nat [simp]: "clean (str_nat n)"
  using str_nat_digits is_digit_not_special(1) by (auto simp: clean_def list_all_iff)

lemma hex_char_clean: "n < 16 \<Longrightarrow> \<not> is_space (hex_char n)"
  by (auto simp: hex_char_def is_space_def is_ascii_space_def)

lemma clean_to_hex [simp]: "clean (to_hex bs)"
proof (induction bs)
  case (Cons b bs)
  have "unat b div 16 < 16" using unat_byte_less [of b] by (simp add: less_mult_imp_div_less)
  with Cons show ?case by (simp add: to_hex_def hex_byte_def hex_char_clean)
qed (simp add: to_hex_def)

lemma split_words_clean: "clean acc \<Longrightarrow> w \<in> set (split_words_from acc s) \<Longrightarrow> clean w"
  by (induction acc s rule: split_words_from.induct) (auto split: if_splits)

lemma set_join: "set (join sep xs) \<subseteq> set sep \<union> (\<Union>x \<in> set xs. set x)"
  by (induction sep xs rule: join.induct) auto

lemma join_clean_no_break:
  assumes "list_all clean fs"
  shows "CHR 0x0A \<notin> set (join [CHR 0x09] fs)" "CHR 0x0D \<notin> set (join [CHR 0x09] fs)"
  using assms set_join [of "[CHR 0x09]" fs] clean_no_sep by (fastforce simp: list_all_iff)+

definition no_break :: "string \<Rightarrow> bool" where
  "no_break s = (CHR 0x0A \<notin> set s \<and> CHR 0x0D \<notin> set s)"

end
