(* ===== verification/Hook_Map.thy ===== *)
theory Hook_Map
  imports Py_Lines "HOL-Library.AList"
begin

text \<open>
  The hook map generator \<^verbatim>\<open>substrate/mk_hook_map.py\<close>: the symbol table of the debug file, the bytes of the
  runtime binary and its disassembly give the functions that can be armed, by a compiler pad or by displacing
  position-independent leading instructions, and the index the loader client resolves names with.

  The text \<^verbatim>\<open>readelf\<close>, \<^verbatim>\<open>nm\<close> and \<^verbatim>\<open>objdump\<close> print is an input (\<open>tools\<close>), \<^const>\<open>None\<close> where the command fails.
  The unpacking of a package pair and the JSON document are not modelled; the index file is.
\<close>

section \<open>The tools\<close>

record tools =
  t_notes :: "string \<Rightarrow> string option"
  t_sections :: "string \<Rightarrow> string option"
  t_nm :: "string \<Rightarrow> string option"
  t_objdump :: "string \<Rightarrow> string option"
  t_file :: "string \<Rightarrow> bytes option"

definition run :: "string \<Rightarrow> string option \<Rightarrow> string result" where
  "run cmd out = (case out of None \<Rightarrow> Inl (SystemExit (''*** '' @ cmd @ '' failed'')) | Some t \<Rightarrow> Inr t)"

text \<open>The pieces of the regular expressions: one or more spaces, and a run of lower case hexadecimal digits.\<close>

definition is_xdigit :: "char \<Rightarrow> bool" where
  "is_xdigit c = (is_digit c \<or> (let n = of_char c in 97 \<le> n \<and> n \<le> (102 :: nat)))"

definition spaces1 :: "string \<Rightarrow> string option" where
  "spaces1 s = (case s of [] \<Rightarrow> None | c # cs \<Rightarrow> if is_space c then Some (dropWhile is_space cs) else None)"

definition hexrun :: "string \<Rightarrow> (string \<times> string) option" where
  "hexrun s = (case takeWhile is_xdigit s of [] \<Rightarrow> None | h \<Rightarrow> Some (h, dropWhile is_xdigit s))"

definition lit :: "string \<Rightarrow> string \<Rightarrow> string option" where
  "lit p s = (if is_prefix p s then Some (drop (length p) s) else None)"

definition hex_num :: "string \<Rightarrow> int" where
  "hex_num s = foldl (\<lambda>a c. 16 * a + (case hex_val c of Some d \<Rightarrow> int d | None \<Rightarrow> 0)) 0 s"

text \<open>\<^verbatim>\<open>re.search\<close>: the leftmost position at which the expression matches.\<close>

fun search_re :: "(string \<Rightarrow> 'a option) \<Rightarrow> string \<Rightarrow> 'a option" where
  "search_re p s = (case p s of Some x \<Rightarrow> Some x | None \<Rightarrow> (case s of [] \<Rightarrow> None | c # cs \<Rightarrow> search_re p cs))"

declare search_re.simps [simp del]

definition match_build_id :: "string \<Rightarrow> string option" where
  "match_build_id s =
     Option.bind (lit ''Build ID:'' s) (\<lambda>r. map_option fst (hexrun (dropWhile is_space r)))"

definition notes_build_id :: "tools \<Rightarrow> string \<Rightarrow> string option result" where
  "notes_build_id t path = ebind (run ''readelf'' (t_notes t path)) (\<lambda>out. Inr (search_re match_build_id out))"

definition match_text_section :: "string \<Rightarrow> (int \<times> int \<times> int) option" where
  "match_text_section s =
     Option.bind (lit ''.text'' s) (\<lambda>s.
     Option.bind (spaces1 s) (\<lambda>s.
     Option.bind (lit ''PROGBITS'' s) (\<lambda>s.
     Option.bind (spaces1 s) (\<lambda>s.
     Option.bind (hexrun s) (\<lambda>(a, s).
     Option.bind (spaces1 s) (\<lambda>s.
     Option.bind (hexrun s) (\<lambda>(b, s).
     Option.bind (spaces1 s) (\<lambda>s.
     Option.bind (hexrun s) (\<lambda>(c, s).
       Some (hex_num a, hex_num b, hex_num c))))))))))"

definition text_section :: "tools \<Rightarrow> string \<Rightarrow> (int \<times> int \<times> int) result" where
  "text_section t path =
     ebind (run ''readelf'' (t_sections t path)) (\<lambda>out.
       case search_re match_text_section out of
         None \<Rightarrow> Inl (SystemExit ''*** no .text section found'')
       | Some x \<Rightarrow> Inr x)"

definition functions_line :: "(int \<times> string) list \<Rightarrow> string \<Rightarrow> (int \<times> string) list result" where
  "functions_line fns line =
     (let f = split_words line in
      if length f = 3 \<and> (f ! 1 = ''t'' \<or> f ! 1 = ''T'')
      then ebind (parse_hex (f ! 0)) (\<lambda>a. Inr (fns @ [(a, f ! 2)]))
      else Inr fns)"

definition nm_functions :: "tools \<Rightarrow> string \<Rightarrow> (int \<times> string) list result" where
  "nm_functions t debuginfo =
     ebind (run ''nm'' (t_nm t debuginfo)) (\<lambda>out. efold functions_line [] (splitlines out))"

section \<open>The disassembly\<close>

type_synonym insn = "nat \<times> string \<times> string"

definition match_insn :: "string \<Rightarrow> (string \<times> string \<times> string) option" where
  "match_insn line =
     Option.bind (spaces1 line) (\<lambda>s.
     Option.bind (hexrun s) (\<lambda>(a, s).
     Option.bind (lit ('':'' @ [CHR 0x09]) s) (\<lambda>s.
       let h = takeWhile (\<lambda>c. is_xdigit c \<or> c = CHR '' '') s;
           r = dropWhile (\<lambda>c. is_xdigit c \<or> c = CHR '' '') s in
       if h = [] then None else Some (a, h, if is_prefix [CHR 0x09] r then drop 1 r else r))))"

definition match_label :: "string \<Rightarrow> string option" where
  "match_label line =
     Option.bind (hexrun line) (\<lambda>(a, s).
     Option.bind (lit '' <'' s) (\<lambda>s.
       let n = takeWhile (\<lambda>c. c \<noteq> CHR ''>'') s in
       if n \<noteq> [] \<and> is_prefix ''>:'' (dropWhile (\<lambda>c. c \<noteq> CHR ''>'') s) then Some a else None))"

text \<open>\<^verbatim>\<open>m.group(3).strip().split(None, 1)\<close>: the mnemonic and, after it, the operands.\<close>

definition insn_of :: "string \<Rightarrow> string \<Rightarrow> insn" where
  "insn_of h rest =
     (let p = strip rest in
      (length (split_words h), takeWhile (\<lambda>c. \<not> is_space c) p,
       dropWhile is_space (dropWhile (\<lambda>c. \<not> is_space c) p)))"

fun objdump_labels :: "int option \<Rightarrow> insn list \<Rightarrow> string list \<Rightarrow> (int \<times> insn list) list" where
  "objdump_labels cur insns [] = (case cur of None \<Rightarrow> [] | Some a \<Rightarrow> [(a, insns)])"
| "objdump_labels cur insns (line # ls) =
     (case match_label line of
        Some l \<Rightarrow> (case cur of None \<Rightarrow> [] | Some a \<Rightarrow> [(a, insns)]) @ objdump_labels (Some (hex_num l)) [] ls
      | None \<Rightarrow>
          (case cur of
             None \<Rightarrow> objdump_labels cur insns ls
           | Some a \<Rightarrow>
               (case match_insn line of
                  None \<Rightarrow> objdump_labels cur insns ls
                | Some (_, h, rest) \<Rightarrow> objdump_labels cur (insns @ [insn_of h rest]) ls)))"

fun objdump_addrs ::
  "int set \<Rightarrow> nat \<Rightarrow> int option \<Rightarrow> insn list \<Rightarrow> nat \<Rightarrow> string list \<Rightarrow> (int \<times> insn list) list"
where
  "objdump_addrs want need cur insns got [] = (case cur of None \<Rightarrow> [] | Some a \<Rightarrow> [(a, insns)])"
| "objdump_addrs want need cur insns got (line # ls) =
     (case match_insn line of
        None \<Rightarrow> objdump_addrs want need cur insns got ls
      | Some (a, h, rest) \<Rightarrow>
          (let addr = hex_num a; i = insn_of h rest in
           if addr \<in> want then
             (case cur of None \<Rightarrow> [] | Some c \<Rightarrow> [(c, insns)]) @
             objdump_addrs want need (Some addr) [i] (fst i) ls
           else if cur = None \<or> got \<ge> need then objdump_addrs want need cur insns got ls
           else objdump_addrs want need cur (insns @ [i]) (got + fst i) ls))"

definition objdump_text :: "tools \<Rightarrow> string \<Rightarrow> int set option \<Rightarrow> nat \<Rightarrow> (int \<times> insn list) list result" where
  "objdump_text t binary func_addrs need =
     ebind (run ''objdump'' (t_objdump t binary)) (\<lambda>out.
       Inr (case func_addrs of
              None \<Rightarrow> objdump_labels None [] (splitlines out)
            | Some want \<Rightarrow> objdump_addrs want need None [] 0 (splitlines out)))"

section \<open>Relocatability\<close>

definition lower :: "char \<Rightarrow> char" where
  "lower c = (let n = of_char c :: nat in if 65 \<le> n \<and> n \<le> 90 then char_of (n + 32) else c)"

definition POSDEP :: "string \<Rightarrow> bool" where
  "POSDEP mnem = starts_any [''j'', ''call'', ''loop'', ''xbegin''] (map lower mnem)"

record reloc =
  copy_bytes :: nat
  relocatable :: bool
  why :: "string option"

fun scan_insns :: "nat \<Rightarrow> nat \<Rightarrow> insn list \<Rightarrow> nat \<times> string option" where
  "scan_insns need tot [] = (tot, None)"
| "scan_insns need tot ((nbytes, mnem, ops) # rest) =
     (if contains ''(bad)'' mnem \<or> mnem = [] then (tot, Some ''undecodable'')
      else if POSDEP mnem then (tot, Some (''relative branch ('' @ mnem @ '')''))
      else if contains ''(%rip)'' ops then (tot, Some ''rip-relative operand'')
      else if tot + nbytes \<ge> need then (tot + nbytes, None)
      else scan_insns need (tot + nbytes) rest)"

definition classify :: "nat \<Rightarrow> insn list \<Rightarrow> reloc" where
  "classify need insns =
     (case scan_insns need 0 insns of (tot, w) \<Rightarrow>
        let w = (if w = None \<and> tot < need then Some ''function shorter than the patch'' else w) in
        \<lparr>copy_bytes = (if w = None then tot else 0), relocatable = (w = None), why = w\<rparr>)"

definition relocatability :: "tools \<Rightarrow> string \<Rightarrow> nat \<Rightarrow> int set option \<Rightarrow> (int \<times> reloc) list result" where
  "relocatability t binary need func_addrs =
     ebind (objdump_text t binary func_addrs need) (\<lambda>fs.
       Inr (foldl (\<lambda>out (addr, insns). AList.update addr (classify need insns) out) [] fs))"

section \<open>The hook points\<close>

definition ENDBR64 :: bytes where "ENDBR64 = [0xf3, 0x0f, 0x1e, 0xfa]"
definition PAD5 :: bytes where "PAD5 = replicate 5 0x90"

record hook_point =
  h_name :: string
  h_entry :: int
  h_method :: string
  h_relocatable :: bool
  h_displace :: nat
  h_pad :: "nat option"
  h_arm :: int
  h_why :: "string option"

record tally =
  unpadded :: nat
  callfirst :: nat
  outside :: nat
  displaceable :: nat

definition in_range :: "int \<Rightarrow> int \<Rightarrow> int \<Rightarrow> bool" where
  "in_range taddr tsize addr = (taddr \<le> addr \<and> addr < taddr + tsize - 9)"

definition pad_offset :: "bytes \<Rightarrow> nat option" where
  "pad_offset head =
     (if take 4 head = ENDBR64 \<and> pyslice 4 9 head = PAD5 then Some 4
      else if take 5 head = PAD5 then Some 0 else None)"

text \<open>\<^verbatim>\<open>head[4]\<close> raises when the file ends right after the landing pad.\<close>

definition starts_with_call :: "bytes \<Rightarrow> bool result" where
  "starts_with_call head =
     (if take 4 head = ENDBR64
      then (if length head \<le> 4 then Inl IndexError else Inr (head ! 4 = 0xE8))
      else Inr False)"

definition reloc_of :: "(int \<times> reloc) list \<Rightarrow> int \<Rightarrow> reloc" where
  "reloc_of rs addr =
     (case map_of rs addr of
        Some r \<Rightarrow> r
      | None \<Rightarrow> \<lparr>copy_bytes = 0, relocatable = False, why = Some ''not present in the .text disassembly''\<rparr>)"

definition hook_entry :: "int \<Rightarrow> string \<Rightarrow> nat option \<Rightarrow> reloc \<Rightarrow> hook_point" where
  "hook_entry addr name pad r =
     \<lparr>h_name = name, h_entry = addr, h_method = (if pad \<noteq> None then ''pad'' else ''displace''),
      h_relocatable = relocatable r, h_displace = copy_bytes r, h_pad = pad,
      h_arm = (case pad of Some p \<Rightarrow> addr + int p | None \<Rightarrow> addr),
      h_why = (if relocatable r then None else why r)\<rparr>"

definition hook_step ::
  "int \<Rightarrow> int \<Rightarrow> bytes \<Rightarrow> (int \<times> reloc) list \<Rightarrow> hook_point list \<times> tally \<Rightarrow> int \<times> string \<Rightarrow>
     (hook_point list \<times> tally) result"
where
  "hook_step taddr tsize text_bytes rs st f =
     (case (st, f) of ((padded, t), (addr, name)) \<Rightarrow>
        if \<not> in_range taddr tsize addr then Inr (padded, t\<lparr>outside := outside t + 1\<rparr>)
        else
          let off = nat (addr - taddr); head = pyslice off (off + 9) text_bytes; pad = pad_offset head; r = reloc_of rs addr in
          if pad \<noteq> None then Inr (padded @ [hook_entry addr name pad r], t)
          else
            ebind (starts_with_call head) (\<lambda>c.
              let t = t\<lparr>unpadded := unpadded t + 1, callfirst := callfirst t + (if c then 1 else 0)\<rparr> in
              if \<not> relocatable r then Inr (padded, t)
              else Inr (padded @ [hook_entry addr name None r], t\<lparr>displaceable := displaceable t + 1\<rparr>)))"

definition no_tally :: tally where
  "no_tally = \<lparr>unpadded = 0, callfirst = 0, outside = 0, displaceable = 0\<rparr>"

section \<open>The index\<close>

function hex_int :: "int \<Rightarrow> string" where
  "hex_int n = (if n < 16 then [hex_char (nat n)] else hex_int (n div 16) @ [hex_char (nat (n mod 16))])"
  by pat_completeness auto
termination by (relation "measure nat") auto

declare hex_int.simps [simp del]

definition fmt_hex :: "int \<Rightarrow> string" where
  "fmt_hex a = ''0x'' @ (if a < 0 then ''-'' @ hex_int (- a) else hex_int a)"

definition hook_line :: "hook_point \<Rightarrow> string" where
  "hook_line h =
     tabbed [h_name h, fmt_hex (h_arm h), h_method h,
       (case h_pad h of Some p \<Rightarrow> str_nat p | None \<Rightarrow> ''-''), str_nat (h_displace h)]"

definition str_option :: "string option \<Rightarrow> string" where
  "str_option s = (case s of Some x \<Rightarrow> x | None \<Rightarrow> ''None'')"

definition hook_index :: "string option \<Rightarrow> string \<Rightarrow> hook_point list \<Rightarrow> string" where
  "hook_index bid version hs =
     tabbed [''#ls-hook-index'', ''1''] @
     tabbed [''#build_id'', str_option bid] @
     tabbed [''#tmos_version'', version] @
     tabbed [''#ctx_abi_version'', ''1''] @
     tabbed [''#name'', ''arm_at'', ''arm_method'', ''pad_offset'', ''displace_bytes''] @
     concat (map hook_line hs)"

text \<open>The version the document carries: the option, \<^verbatim>\<open>unknown\<close> when it is absent or empty.\<close>

definition version_of :: "string option \<Rightarrow> string" where
  "version_of v = (case v of None \<Rightarrow> ''unknown'' | Some s \<Rightarrow> if s = [] then ''unknown'' else s)"

text \<open>
  \<^verbatim>\<open>main\<close> from the binary and its debug file on. The coverage test is \<open>len(reloc) / len(in_text) < 0.80\<close>,
  which for counts below \<open>10 ^ 15\<close> is the comparison of integers written here.
\<close>

definition hook_map_main ::
  "tools \<Rightarrow> string \<Rightarrow> string \<Rightarrow> string option \<Rightarrow> (string option \<times> hook_point list \<times> tally \<times> string) result"
where
  "hook_map_main t binary dbg version =
     ebind (notes_build_id t binary) (\<lambda>bid_b.
     ebind (notes_build_id t dbg) (\<lambda>bid_d.
     if bid_b \<noteq> bid_d then Inl (SystemExit ''*** BUILD IDs DIFFER'')
     else
     ebind (text_section t binary) (\<lambda>(taddr, toff, tsize).
     case t_file t binary of
       None \<Rightarrow> Inl (Rejected ''OSError'')
     | Some blob \<Rightarrow>
       let text_bytes = pyslice (nat toff) (nat toff + nat tsize) blob in
       ebind (nm_functions t dbg) (\<lambda>funcs.
       let in_text = remdups (filter (in_range taddr tsize) (map fst funcs)) in
       ebind (relocatability t binary 5 (Some (set in_text))) (\<lambda>rs.
       if in_text \<noteq> [] \<and> 5 * length rs < 4 * length in_text then Inl (SystemExit ''*** DISASSEMBLY COVERED ONLY'')
       else
       ebind (efold (hook_step taddr tsize text_bytes rs) ([], no_tally) funcs) (\<lambda>(padded, tl).
       Inr (bid_b, padded, tl, hook_index bid_b (version_of version) padded)))))))"

section \<open>What relocatable means\<close>

text \<open>An instruction that means the same wherever it is copied to.\<close>

definition copyable :: "insn \<Rightarrow> bool" where
  "copyable i = (case i of (n, mnem, ops) \<Rightarrow>
     mnem \<noteq> [] \<and> \<not> contains ''(bad)'' mnem \<and> \<not> POSDEP mnem \<and> \<not> contains ''(%rip)'' ops)"

definition insn_bytes :: "insn list \<Rightarrow> nat" where
  "insn_bytes is = sum_list (map fst is)"

lemma insn_bytes_simps [simp]:
  "insn_bytes [] = 0" "insn_bytes (i # is) = fst i + insn_bytes is" "insn_bytes (is @ js) = insn_bytes is + insn_bytes js"
  by (simp_all add: insn_bytes_def)

text \<open>The shortest run of leading instructions that covers the patch.\<close>

definition covers :: "nat \<Rightarrow> insn list \<Rightarrow> nat \<Rightarrow> bool" where
  "covers need is k = (k \<le> length is \<and> list_all copyable (take k is) \<and> need \<le> insn_bytes (take k is) \<and>
     insn_bytes (take (k - 1) is) < need)"

lemma scan_None_iff:
  "tot < need \<Longrightarrow> scan_insns need tot is = (n, None) \<and> need \<le> n \<longleftrightarrow>
     (\<exists>k > 0. covers (need - tot) is k \<and> n = tot + insn_bytes (take k is))"
proof (induction need tot "is" rule: scan_insns.induct)
  case (1 need tot)
  then show ?case by (auto simp: covers_def)
next
  case (2 need tot nbytes mnem ops rest)
  let ?i = "(nbytes, mnem, ops)"
  show ?case
  proof (cases "copyable ?i")
    case False
    then have "\<not> covers (need - tot) (?i # rest) k" if "k > 0" for k
      using that by (cases k) (auto simp: covers_def)
    moreover have "snd (scan_insns need tot (?i # rest)) \<noteq> None"
      using False by (auto simp: copyable_def)
    ultimately show ?thesis by fastforce
  next
    case True
    show ?thesis
    proof (cases "need \<le> tot + nbytes")
      case True
      have "covers (need - tot) (?i # rest) k \<longleftrightarrow> k = 1" if "k > 0" for k
      proof (cases "k = 1")
        case False
        with that obtain j where "k = Suc (Suc j)" by (metis One_nat_def not0_implies_Suc not_gr0)
        with True show ?thesis by (auto simp: covers_def)
      qed (use True \<open>copyable ?i\<close> 2(2) in \<open>auto simp: covers_def\<close>)
      then have "(\<exists>k > 0. covers (need - tot) (?i # rest) k \<and> P k) \<longleftrightarrow> P 1" for P
        by (metis zero_less_one)
      moreover have "scan_insns need tot (?i # rest) = (tot + nbytes, None)"
        using True \<open>copyable ?i\<close> by (simp add: copyable_def)
      ultimately show ?thesis using True by auto
    next
      case False
      have "covers (need - tot) (?i # rest) (Suc k) \<longleftrightarrow> k > 0 \<and> covers (need - (tot + nbytes)) rest k" for k
        using False \<open>copyable ?i\<close> 2(2) by (cases k) (auto simp: covers_def)
      moreover have "scan_insns need tot (?i # rest) = scan_insns need (tot + nbytes) rest"
        using False \<open>copyable ?i\<close> by (auto simp: copyable_def)
      moreover have "(\<exists>k > 0. P k) \<longleftrightarrow> (\<exists>k. P (Suc k))" for P
        by (metis Suc_pred zero_less_Suc)
      ultimately show ?thesis
        using 2(1) False \<open>copyable ?i\<close> by (simp add: copyable_def add.assoc) 
    qed
  qed
qed

lemma classify_iff:
  assumes "need > 0"
  shows "relocatable (classify need is) \<and> copy_bytes (classify need is) = n \<longleftrightarrow>
    (\<exists>k > 0. covers need is k \<and> n = insn_bytes (take k is))"
proof -
  have "relocatable (classify need is) \<and> copy_bytes (classify need is) = n \<longleftrightarrow>
    scan_insns need 0 is = (n, None) \<and> need \<le> n"
    by (cases "scan_insns need 0 is") (auto simp: classify_def Let_def)
  with scan_None_iff [of 0 need "is" n] assms show ?thesis by simp
qed

lemma scan_take:
  "length is \<le> k \<or> need \<le> tot + insn_bytes (take k is) \<Longrightarrow> tot < need \<Longrightarrow>
     scan_insns need tot (take k is) = scan_insns need tot is"
proof (induction need tot "is" arbitrary: k rule: scan_insns.induct)
  case (2 need tot nbytes mnem ops rest)
  then show ?case by (cases k) (auto simp: add.assoc)
qed simp

lemma classify_take:
  "length is \<le> k \<or> need \<le> insn_bytes (take k is) \<Longrightarrow> 0 < need \<Longrightarrow> classify need (take k is) = classify need is"
  using scan_take [of "is" k need 0] by (simp add: classify_def)

section \<open>The streaming walk sees what a whole function has\<close>

text \<open>The instructions of a disassembly with their addresses, and the whole body of the function at an address.\<close>

fun decoded :: "string list \<Rightarrow> (int \<times> insn) list" where
  "decoded [] = []"
| "decoded (line # ls) =
     (case match_insn line of None \<Rightarrow> decoded ls | Some (a, h, r) \<Rightarrow> (hex_num a, insn_of h r) # decoded ls)"

definition until_next :: "int set \<Rightarrow> (int \<times> insn) list \<Rightarrow> insn list" where
  "until_next want ds = map snd (takeWhile (\<lambda>d. fst d \<notin> want) ds)"

lemma until_next_simps [simp]:
  "until_next want [] = []"
  "until_next want (d # ds) = (if fst d \<in> want then [] else snd d # until_next want ds)"
  by (simp_all add: until_next_def)

definition function_at :: "int set \<Rightarrow> (int \<times> insn) list \<Rightarrow> int \<Rightarrow> insn list \<Rightarrow> bool" where
  "function_at want ds a is = (\<exists>pre i post. ds = pre @ (a, i) # post \<and> a \<in> want \<and> is = i # until_next want post)"

lemma function_at_Cons: "function_at want ds a is \<Longrightarrow> function_at want (d # ds) a is"
  unfolding function_at_def by (metis append_Cons)

lemma function_at_here: "a \<in> want \<Longrightarrow> function_at want ((a, i) # ds) a (i # until_next want ds)"
  unfolding function_at_def by (metis append_Nil)

text \<open>What the walk keeps of the instructions \<open>is\<close> that follow: a prefix, enough for the patch or all of them.\<close>

definition kept :: "nat \<Rightarrow> nat \<Rightarrow> insn list \<Rightarrow> insn list \<Rightarrow> bool" where
  "kept need got is js = (\<exists>k. js = take k is \<and> (length is \<le> k \<or> need \<le> got + insn_bytes js))"

lemma kept_stop: "need \<le> got \<Longrightarrow> kept need got is []"
  unfolding kept_def by (rule exI [of _ 0]) simp

lemma kept_Cons: "kept need (got + fst i) is js \<Longrightarrow> kept need got (i # is) (i # js)"
  unfolding kept_def by (metis (no_types, lifting) insn_bytes_simps(2) Suc_le_mono add.assoc length_Cons take_Suc_Cons)

definition walked ::
  "int set \<Rightarrow> nat \<Rightarrow> int option \<Rightarrow> insn list \<Rightarrow> nat \<Rightarrow> (int \<times> insn) list \<Rightarrow> int \<Rightarrow> insn list \<Rightarrow> bool"
where
  "walked want need cur insns got ds a js =
     ((cur = Some a \<and> (\<exists>ks. js = insns @ ks \<and> kept need got (until_next want ds) ks \<and> (need \<le> got \<longrightarrow> ks = []))) \<or>
      (\<exists>is. function_at want ds a is \<and> kept need 0 is js))"

lemma walked_start:
  assumes "walked want need (Some x) [i] (fst i) ds a js" "x \<in> want"
  shows "walked want need cur insns got ((x, i) # ds) a js"
  using assms function_at_Cons [of want ds a _ "(x, i)"] function_at_here [of x want i ds] kept_Cons [of need 0 i]
  unfolding walked_def by (metis add_0 append_Cons append_Nil option.inject)

lemma walked_skip:
  assumes "walked want need cur insns got ds a js" "cur = None \<or> need \<le> got"
  shows "walked want need cur insns got (d # ds) a js"
  using assms function_at_Cons [of want ds a _ d] kept_stop [of need got] unfolding walked_def by (metis option.distinct(1))

lemma walked_more:
  assumes "walked want need cur (insns @ [i]) (got + fst i) ds a js" "\<not> need \<le> got" "x \<notin> want"
  shows "walked want need cur insns got ((x, i) # ds) a js"
  using assms function_at_Cons [of want ds a _ "(x, i)"] kept_Cons [of need got i]
  unfolding walked_def by (metis append.assoc append_Cons append_Nil fst_conv snd_conv until_next_simps(2))

lemma objdump_addrs_walked:
  "(a, js) \<in> set (objdump_addrs want need cur insns got ls) \<Longrightarrow> walked want need cur insns got (decoded ls) a js"
proof (induction want need cur insns got ls rule: objdump_addrs.induct)
  case (1 want need cur insns got)
  then show ?case by (auto simp: walked_def kept_def split: option.splits)
next
  case (2 want need cur insns got line ls)
  show ?case
  proof (cases "match_insn line")
    case None
    with 2 show ?thesis by simp
  next
    case (Some m)
    obtain x h r where m: "m = (x, h, r)" by (cases m)
    let ?addr = "hex_num x" and ?i = "insn_of h r"
    note IH = 2(2-4) [OF Some m [symmetric] refl refl refl]
    have ds: "decoded (line # ls) = (?addr, ?i) # decoded ls" using Some m by simp
    have out: "objdump_addrs want need cur insns got (line # ls) =
      (if ?addr \<in> want then (case cur of None \<Rightarrow> [] | Some c \<Rightarrow> [(c, insns)]) @ objdump_addrs want need (Some ?addr) [?i] (fst ?i) ls
       else if cur = None \<or> got \<ge> need then objdump_addrs want need cur insns got ls
       else objdump_addrs want need cur (insns @ [?i]) (got + fst ?i) ls)"
      using Some m by (simp add: Let_def)
    consider "?addr \<in> want" "(a, js) \<in> set (objdump_addrs want need (Some ?addr) [?i] (fst ?i) ls)"
      | "?addr \<in> want" "cur = Some a" "js = insns"
      | "?addr \<notin> want" "cur = None \<or> got \<ge> need" "(a, js) \<in> set (objdump_addrs want need cur insns got ls)"
      | "?addr \<notin> want" "\<not> (cur = None \<or> got \<ge> need)" "(a, js) \<in> set (objdump_addrs want need cur (insns @ [?i]) (got + fst ?i) ls)"
      using 2(5) unfolding out by (auto split: if_splits option.splits)
    then have "walked want need cur insns got ((?addr, ?i) # decoded ls) a js"
    proof cases
      case 1
      then show ?thesis by (intro walked_start IH(1))
    next
      case 2
      then show ?thesis by (auto simp: walked_def kept_def)
    next
      case 3
      then show ?thesis by (intro walked_skip IH(2))
    next
      case 4
      then show ?thesis by (intro walked_more IH(3)) simp_all
    qed
    then show ?thesis by (simp only: ds)
  qed
qed

text \<open>The classification of an address is that of the whole function there, although the walk stops early.\<close>

lemma classify_streamed:
  assumes "(a, js) \<in> set (objdump_addrs want need None [] 0 ls)" "0 < need"
  shows "\<exists>is. function_at want (decoded ls) a is \<and> classify need js = classify need is"
proof -
  obtain "is" where f: "function_at want (decoded ls) a is" and k: "kept need 0 is js"
    using objdump_addrs_walked [OF assms(1)] by (auto simp: walked_def)
  from k obtain k where "js = take k is" "length is \<le> k \<or> need \<le> insn_bytes (take k is)" by (auto simp: kept_def)
  with classify_take assms(2) f show ?thesis by metis
qed

lemma foldl_update_map_of:
  "map_of (foldl (\<lambda>out (a, x). AList.update a (g x) out) acc fs) a = Some r \<Longrightarrow>
     map_of acc a = Some r \<or> (\<exists>x. (a, x) \<in> set fs \<and> r = g x)"
proof (induction fs arbitrary: acc)
  case (Cons f fs)
  obtain b x where f: "f = (b, x)" by (cases f)
  from Cons.IH [of "AList.update b (g x) acc"] Cons.prems show ?case
    unfolding f by (auto simp: update_conv split: if_splits)
qed simp

lemma relocatabilityD:
  assumes "relocatability t binary need (Some want) = Inr rs" "map_of rs a = Some r" "0 < need"
  shows "\<exists>out is. t_objdump t binary = Some out \<and> function_at want (decoded (splitlines out)) a is \<and> r = classify need is"
proof -
  obtain out where out: "t_objdump t binary = Some out"
    and rs: "rs = foldl (\<lambda>out (addr, insns). AList.update addr (classify need insns) out) []
                   (objdump_addrs want need None [] 0 (splitlines out))"
    using assms(1) by (auto simp: relocatability_def objdump_text_def run_def err_simps split: option.splits)
  from foldl_update_map_of [OF assms(2) [unfolded rs]] classify_streamed [OF _ assms(3)] out
  show ?thesis by fastforce
qed

section \<open>Every hook point can be armed\<close>

text \<open>The five bytes at an address of the text section are the compiler's nops.\<close>

definition padded_at :: "bytes \<Rightarrow> int \<Rightarrow> int \<Rightarrow> bool" where
  "padded_at text_bytes taddr a = (pyslice (nat (a - taddr)) (nat (a - taddr) + 5) text_bytes = PAD5)"

definition armable ::
  "int \<Rightarrow> int \<Rightarrow> bytes \<Rightarrow> (int \<times> reloc) list \<Rightarrow> (int \<times> string) set \<Rightarrow> hook_point \<Rightarrow> bool"
where
  "armable taddr tsize text_bytes rs fns h =
     ((h_entry h, h_name h) \<in> fns \<and> in_range taddr tsize (h_entry h) \<and>
      (case h_pad h of
         Some p \<Rightarrow> h_method h = ''pad'' \<and> h_arm h = h_entry h + int p \<and> p \<in> {0, 4} \<and> padded_at text_bytes taddr (h_arm h)
       | None \<Rightarrow> h_method h = ''displace'' \<and> h_arm h = h_entry h \<and>
           (\<exists>r. map_of rs (h_entry h) = Some r \<and> relocatable r \<and> h_displace h = copy_bytes r)))"

lemma slice_shift: "k \<le> n \<Longrightarrow> pyslice a k (pyslice i (i + n) xs) = pyslice (i + a) (i + k) xs"
  by (auto simp: pyslice_def drop_take add.commute min_def)

lemma pad_offset_nops:
  assumes "pad_offset (pyslice i (i + 9) xs) = Some p"
  shows "p \<in> {0, 4} \<and> pyslice (i + p) (i + p + 5) xs = PAD5"
proof -
  have "take 5 (pyslice i (i + 9) xs) = pyslice i (i + 5) xs"
    using slice_shift [of 5 9 0 i xs] by (simp add: pyslice_def)
  with assms slice_shift [of 9 9 4 i xs] show ?thesis
    by (auto simp: pad_offset_def add.commute split: if_splits)
qed

lemma hook_entry_armable:
  assumes "in_range taddr tsize a" "(a, n) \<in> fns"
  shows "pad_offset (pyslice (nat (a - taddr)) (nat (a - taddr) + 9) bs) = Some p \<Longrightarrow>
           armable taddr tsize bs rs fns (hook_entry a n (Some p) (reloc_of rs a))"
    and "relocatable (reloc_of rs a) \<Longrightarrow> armable taddr tsize bs rs fns (hook_entry a n None (reloc_of rs a))"
proof -
  assume "pad_offset (pyslice (nat (a - taddr)) (nat (a - taddr) + 9) bs) = Some p"
  from pad_offset_nops [OF this] assms show "armable taddr tsize bs rs fns (hook_entry a n (Some p) (reloc_of rs a))"
    by (auto simp: armable_def hook_entry_def padded_at_def in_range_def nat_add_distrib diff_add_eq [symmetric])
next
  assume "relocatable (reloc_of rs a)"
  with assms show "armable taddr tsize bs rs fns (hook_entry a n None (reloc_of rs a))"
    by (auto simp: armable_def hook_entry_def reloc_of_def split: option.splits)
qed

lemma hook_step_armable:
  assumes "hook_step taddr tsize bs rs (hs, ta) f = Inr (hs', ta')" "list_all (armable taddr tsize bs rs fns) hs" "f \<in> fns"
  shows "list_all (armable taddr tsize bs rs fns) hs'"
  using assms by (cases f) (auto simp: hook_step_def Let_def err_simps intro: hook_entry_armable split: if_splits)

lemma hook_fold_armable:
  assumes "efold (hook_step taddr tsize bs rs) ([], no_tally) funcs = Inr (hs, ta)"
  shows "list_all (armable taddr tsize bs rs (set funcs)) hs"
proof -
  have "list_all (armable taddr tsize bs rs (set funcs)) (fst (hs, ta))"
    using assms by (rule efold_invariant [where P = "\<lambda>st. list_all (armable taddr tsize bs rs (set funcs)) (fst st)"])
      (auto intro: hook_step_armable)
  then show ?thesis by simp
qed

text \<open>What a successful run read: the section, its bytes, the symbols and the relocation table.\<close>

definition ran ::
  "tools \<Rightarrow> string \<Rightarrow> string \<Rightarrow> int \<Rightarrow> int \<Rightarrow> bytes \<Rightarrow> (int \<times> string) list \<Rightarrow> (int \<times> reloc) list \<Rightarrow> bool"
where
  "ran t binary dbg taddr tsize text_bytes funcs rs =
     (\<exists>toff blob. text_section t binary = Inr (taddr, toff, tsize) \<and> t_file t binary = Some blob \<and>
        text_bytes = pyslice (nat toff) (nat toff + nat tsize) blob \<and> nm_functions t dbg = Inr funcs \<and>
        relocatability t binary 5 (Some (set (remdups (filter (in_range taddr tsize) (map fst funcs))))) = Inr rs)"

lemma hook_map_mainD:
  assumes "hook_map_main t binary dbg version = Inr (bid, hs, ta, idx)"
  shows "notes_build_id t binary = Inr bid" "notes_build_id t dbg = Inr bid"
    "idx = hook_index bid (version_of version) hs"
    "\<exists>taddr tsize bs funcs rs. ran t binary dbg taddr tsize bs funcs rs \<and>
       efold (hook_step taddr tsize bs rs) ([], no_tally) funcs = Inr (hs, ta)"
  using assms
  by (auto simp: hook_map_main_def ran_def err_simps Let_def split: option.splits if_splits)

text \<open>The hook point of one symbol, if it has one; the loop appends them in the order of the symbol table.\<close>

definition hook_of :: "int \<Rightarrow> int \<Rightarrow> bytes \<Rightarrow> (int \<times> reloc) list \<Rightarrow> int \<times> string \<Rightarrow> hook_point list" where
  "hook_of taddr tsize bs rs f = (case f of (a, n) \<Rightarrow>
     if \<not> in_range taddr tsize a then []
     else case pad_offset (pyslice (nat (a - taddr)) (nat (a - taddr) + 9) bs) of
            Some p \<Rightarrow> [hook_entry a n (Some p) (reloc_of rs a)]
          | None \<Rightarrow> if relocatable (reloc_of rs a) then [hook_entry a n None (reloc_of rs a)] else [])"

lemma hook_step_exact:
  "hook_step taddr tsize bs rs (hs, ta) f = Inr (hs', ta') \<Longrightarrow> hs' = hs @ hook_of taddr tsize bs rs f"
  by (cases f) (auto simp: hook_step_def hook_of_def Let_def err_simps split: if_splits)

lemma hook_fold_exact:
  "efold (hook_step taddr tsize bs rs) (hs, ta) funcs = Inr (hs', ta') \<Longrightarrow>
     hs' = hs @ concat (map (hook_of taddr tsize bs rs) funcs)"
proof (induction funcs arbitrary: hs ta)
  case (Cons f funcs)
  then obtain hs1 ta1 where 1: "hook_step taddr tsize bs rs (hs, ta) f = Inr (hs1, ta1)"
    and 2: "efold (hook_step taddr tsize bs rs) (hs1, ta1) funcs = Inr (hs', ta')" by (auto simp: err_simps)
  show ?case using hook_step_exact [OF 1] Cons.IH [OF 2] by simp
qed simp

text \<open>Every function the map leaves out is accounted for by the tallies it prints.\<close>

definition tallied :: "nat \<Rightarrow> hook_point list \<times> tally \<Rightarrow> bool" where
  "tallied n st = (case st of (hs, t) \<Rightarrow>
     n + displaceable t = length hs + outside t + unpadded t \<and> displaceable t \<le> unpadded t \<and>
     callfirst t \<le> unpadded t \<and> displaceable t = length (filter (\<lambda>h. h_pad h = None) hs))"

lemma hook_step_tallied:
  "hook_step taddr tsize bs rs st f = Inr st' \<Longrightarrow> tallied n st \<Longrightarrow> tallied (Suc n) st'"
  by (cases st; cases f) (auto simp: hook_step_def tallied_def hook_entry_def Let_def err_simps split: if_splits)

lemma hook_fold_tallied:
  "efold (hook_step taddr tsize bs rs) st funcs = Inr st' \<Longrightarrow> tallied n st \<Longrightarrow> tallied (n + length funcs) st'"
proof (induction funcs arbitrary: st n)
  case (Cons f funcs)
  then obtain st1 where 1: "hook_step taddr tsize bs rs st f = Inr st1"
    and 2: "efold (hook_step taddr tsize bs rs) st1 funcs = Inr st'" by (auto simp: err_simps)
  show ?case using Cons.IH [OF 2 hook_step_tallied [OF 1 Cons.prems(2)]] by simp
qed simp

definition sample_text :: bytes where
  "sample_text = ENDBR64 @ PAD5 @ replicate 7 0x90 @ [0x55, 0x48, 0x89, 0xe5, 0x53, 0xc3] @ replicate 20 0xcc"

definition nl :: string where "nl = [CHR 0x0A]"
definition tab :: string where "tab = [CHR 0x09]"

definition sample_tools :: tools where
  "sample_tools = \<lparr>
     t_notes = (\<lambda>p. Some ''Build ID: ab12''),
     t_sections = (\<lambda>p. Some ''.text PROGBITS 1000 4 2a''),
     t_nm = (\<lambda>p. Some (''1000 T f'' @ nl @ ''1010 t g'')),
     t_objdump = (\<lambda>p. Some (
       '' 1000:'' @ tab @ ''90 '' @ tab @ ''nop'' @ nl @
       '' 1010:'' @ tab @ ''48 89 e5 '' @ tab @ ''mov b,a'' @ nl @
       '' 1013:'' @ tab @ ''41 54 '' @ tab @ ''push r'')),
     t_file = (\<lambda>p. Some ([1, 2, 3, 4] @ sample_text))\<rparr>"

definition sample_points :: "hook_point list" where
  "sample_points =
     [\<lparr>h_name = ''f'', h_entry = 0x1000, h_method = ''pad'', h_relocatable = False, h_displace = 0, h_pad = Some 4,
        h_arm = 0x1004, h_why = Some ''function shorter than the patch''\<rparr>,
      \<lparr>h_name = ''g'', h_entry = 0x1010, h_method = ''displace'', h_relocatable = True, h_displace = 5, h_pad = None,
        h_arm = 0x1010, h_why = None\<rparr>]"

lemma sample_hook_map: "\<exists>ta idx. hook_map_main sample_tools ''b'' ''d'' None = Inr (Some ''ab12'', sample_points, ta, idx)"
proof -
  have "map_sum id (\<lambda>(b, hs, _). (b, hs)) (hook_map_main sample_tools ''b'' ''d'' None) = Inr (Some ''ab12'', sample_points)"
    by code_simp
  then show ?thesis by (cases "hook_map_main sample_tools ''b'' ''d'' None") auto
qed

text \<open>
C20. Every hook point of the map can be armed where it says. It is a function symbol inside the text section;
with a pad, the five bytes at its arming address are the compiler's nops, at the entry or after the landing
pad; without one, its displaced bytes are whole leading instructions of the function's disassembly, the fewest
that cover the five bytes of the jump, none undecodable, a relative branch or relative to the instruction
pointer. The address and the build identity come from a pair of files with one build id.
\<close>

theorem hook_points_sound:
  assumes "hook_map_main t binary dbg version = Inr (bid, hs, ta, idx)" "h \<in> set hs"
  shows "\<exists>taddr tsize bs funcs rs. ran t binary dbg taddr tsize bs funcs rs \<and>
    notes_build_id t binary = Inr bid \<and> notes_build_id t dbg = Inr bid \<and>
    (h_entry h, h_name h) \<in> set funcs \<and> in_range taddr tsize (h_entry h) \<and>
    (case h_pad h of
       Some p \<Rightarrow> p \<in> {0, 4} \<and> h_arm h = h_entry h + int p \<and> padded_at bs taddr (h_arm h)
     | None \<Rightarrow> h_arm h = h_entry h \<and>
         (\<exists>out is k. t_objdump t binary = Some out \<and>
            function_at (set (filter (in_range taddr tsize) (map fst funcs))) (decoded (splitlines out)) (h_entry h) is \<and>
            k > 0 \<and> covers 5 is k \<and> h_displace h = insn_bytes (take k is)))"
proof -
  obtain taddr tsize bs funcs rs where ran: "ran t binary dbg taddr tsize bs funcs rs"
    and fold: "efold (hook_step taddr tsize bs rs) ([], no_tally) funcs = Inr (hs, ta)"
    using hook_map_mainD(4) [OF assms(1)] by blast
  have a: "armable taddr tsize bs rs (set funcs) h"
    using hook_fold_armable [OF fold] assms(2) by (auto simp: list_all_iff)
  have "\<exists>out is k. t_objdump t binary = Some out \<and>
      function_at (set (filter (in_range taddr tsize) (map fst funcs))) (decoded (splitlines out)) (h_entry h) is \<and>
      k > 0 \<and> covers 5 is k \<and> h_displace h = insn_bytes (take k is)" if "h_pad h = None"
  proof -
    from a that obtain r where r: "map_of rs (h_entry h) = Some r" "relocatable r" "h_displace h = copy_bytes r"
      by (auto simp: armable_def)
    from ran have rel: "relocatability t binary 5 (Some (set (filter (in_range taddr tsize) (map fst funcs)))) = Inr rs"
      by (auto simp: ran_def)
    obtain out "is" where "t_objdump t binary = Some out"
      "function_at (set (filter (in_range taddr tsize) (map fst funcs))) (decoded (splitlines out)) (h_entry h) is" "r = classify 5 is"
      using relocatabilityD [OF rel r(1)] by auto
    with r classify_iff [of 5 "is" "copy_bytes r"] show ?thesis by auto
  qed
  with a ran hook_map_mainD(1,2) [OF assms(1)] show ?thesis
    by (intro exI [of _ taddr] exI [of _ tsize] exI [of _ bs] exI [of _ funcs] exI [of _ rs])
      (auto simp: armable_def split: option.splits)
qed

theorem hook_points_sound_witness:
  "\<exists>out is k. t_objdump sample_tools ''b'' = Some out \<and> k > 0 \<and> covers 5 is k \<and> (5 :: nat) = insn_bytes (take k is)"
proof -
  obtain ta idx where "hook_map_main sample_tools ''b'' ''d'' None = Inr (Some ''ab12'', sample_points, ta, idx)"
    using sample_hook_map by blast
  from hook_points_sound [OF this, of "sample_points ! 1"] show ?thesis by (auto simp: sample_points_def)
qed

text \<open>
The tallies account for every symbol: the hook points are those of the symbols, in the order of the symbol
table, and what is left out is either outside the text section or without a pad and not displaceable; the
displaceable count is that of the hook points without a pad.
\<close>

theorem hook_map_accounts:
  assumes "hook_map_main t binary dbg version = Inr (bid, hs, ta, idx)"
  shows "\<exists>taddr tsize bs funcs rs. ran t binary dbg taddr tsize bs funcs rs \<and>
    hs = concat (map (hook_of taddr tsize bs rs) funcs) \<and>
    length funcs = length hs + outside ta + (unpadded ta - displaceable ta) \<and>
    displaceable ta = length (filter (\<lambda>h. h_pad h = None) hs)"
proof -
  obtain taddr tsize bs funcs rs where ran: "ran t binary dbg taddr tsize bs funcs rs"
    and fold: "efold (hook_step taddr tsize bs rs) ([], no_tally) funcs = Inr (hs, ta)"
    using hook_map_mainD(4) [OF assms(1)] by blast
  have "tallied 0 ([], no_tally)" by (simp add: tallied_def no_tally_def)
  with hook_fold_tallied [OF fold] have "tallied (length funcs) (hs, ta)" by fastforce
  then show ?thesis
    using ran hook_fold_exact [OF fold]
    by (intro exI [of _ taddr] exI [of _ tsize] exI [of _ bs] exI [of _ funcs] exI [of _ rs]) (auto simp: tallied_def)
qed

theorem hook_map_accounts_witness:
  "\<exists>ta idx. hook_map_main sample_tools ''b'' ''d'' None = Inr (Some ''ab12'', sample_points, ta, idx) \<and> displaceable ta = 1"
proof -
  obtain ta idx where run: "hook_map_main sample_tools ''b'' ''d'' None = Inr (Some ''ab12'', sample_points, ta, idx)"
    using sample_hook_map by blast
  from hook_map_accounts [OF run] run show ?thesis by (auto simp: sample_points_def)
qed

end
