(* ===== verification/Build_Id.thy ===== *)
theory Build_Id
  imports Py_Lines "HOL-Library.Product_Lexorder"
begin

text \<open>
  The two readers of a binary's GNU build id: \<^verbatim>\<open>substrate/ls_buildid.py\<close>, which refuses a short
  read, and the copy in \<^verbatim>\<open>env/scripts/ls-load.py\<close> (\<^verbatim>\<open>elf_build_id\<close>), which takes what the file gives.
  Their bodies are the same statements over another read, so the shared steps take the read as the
  argument \<open>rd\<close>. A file is its bytes; a read past its end gives what is left.
\<close>

definition need_bytes :: "bytes \<Rightarrow> nat \<Rightarrow> nat \<Rightarrow> 'a \<Rightarrow> 'a result" where
  "need_bytes b off n x = (if off + n \<le> length b then Inr x else Inl StructError)"

definition ELF_MAGIC :: bytes where "ELF_MAGIC = [0x7F, 0x45, 0x4C, 0x46]"

text \<open>\<^verbatim>\<open>_read\<close> of the first reader, and \<^verbatim>\<open>seek\<close> with \<^verbatim>\<open>read\<close> of the second.\<close>

definition read_exact :: "bytes \<Rightarrow> nat \<Rightarrow> nat \<Rightarrow> bytes result" where
  "read_exact blob off n =
     (let b = pyslice off (off + n) blob in
      if length b \<noteq> n then Inl (ValueError ''short read'') else Inr b)"

definition read_lax :: "bytes \<Rightarrow> nat \<Rightarrow> nat \<Rightarrow> bytes result" where
  "read_lax blob off n = Inr (pyslice off (off + n) blob)"

section \<open>The note\<close>

definition note_header :: "nat \<Rightarrow> bytes" where
  "note_header ds = le_bytes 4 4 @ le_bytes 4 (int ds) @ le_bytes 4 3 @ [0x47, 0x4E, 0x55, 0x00]"

fun scan_note :: "bytes \<Rightarrow> nat list \<Rightarrow> bytes option" where
  "scan_note n [] = None"
| "scan_note n (ds # rest) =
     (case find_from (note_header ds) 0 n of
        Some i \<Rightarrow> if i + 16 + ds \<le> length n then Some (pyslice (i + 16) (i + 16 + ds) n) else scan_note n rest
      | None \<Rightarrow> scan_note n rest)"

definition parse_note :: "bytes \<Rightarrow> bytes option" where
  "parse_note n = scan_note n [20, 16, 8]"

section \<open>The section path\<close>

definition note_name :: bytes where
  "note_name = map (\<lambda>c. word_of_nat (of_char c)) ''.note.gnu.build-id''"

text \<open>\<^verbatim>\<open>strs[nmoff:end]\<close>, where \<^verbatim>\<open>end\<close> is -1 when no terminator follows and then drops the last byte.\<close>

definition name_at :: "bytes \<Rightarrow> nat \<Rightarrow> bytes" where
  "name_at strs nmoff =
     (case find_from [0] nmoff strs of
        Some e \<Rightarrow> pyslice nmoff e strs
      | None \<Rightarrow> pyslice nmoff (length strs - 1) strs)"

fun section_notes :: "(nat \<Rightarrow> nat \<Rightarrow> bytes result) \<Rightarrow> nat \<Rightarrow> nat \<Rightarrow> bytes \<Rightarrow> nat list \<Rightarrow> bytes option result"
where
  "section_notes rd shoff shes strs [] = Inr None"
| "section_notes rd shoff shes strs (i # rest) =
     ebind (rd (shoff + i * shes) shes) (\<lambda>sh.
     ebind (need_bytes sh 0 4 (nat (u32 sh 0))) (\<lambda>nmoff.
       if name_at strs nmoff \<noteq> note_name then section_notes rd shoff shes strs rest
       else ebind (need_bytes sh 0x18 8 (nat (u64 sh 0x18))) (\<lambda>off.
            ebind (need_bytes sh 0x20 8 (nat (u64 sh 0x20))) (\<lambda>sz.
            ebind (rd off sz) (\<lambda>n.
              case parse_note n of
                Some got \<Rightarrow> Inr (Some got)
              | None \<Rightarrow> section_notes rd shoff shes strs rest)))))"

definition section_id :: "(nat \<Rightarrow> nat \<Rightarrow> bytes result) \<Rightarrow> bytes \<Rightarrow> bytes option result" where
  "section_id rd e =
     ebind (need_bytes e 0x28 8 (nat (u64 e 0x28))) (\<lambda>shoff.
     ebind (need_bytes e 0x3A 4 (nat (u16 e 0x3A), nat (u16 e 0x3C))) (\<lambda>(shes, shn).
     ebind (need_bytes e 0x3E 2 (nat (u16 e 0x3E))) (\<lambda>shstrndx.
       if shoff \<noteq> 0 \<and> shn \<noteq> 0 \<and> shstrndx < shn then
         ebind (rd (shoff + shstrndx * shes) shes) (\<lambda>sh.
         ebind (need_bytes sh 0x18 8 (nat (u64 sh 0x18))) (\<lambda>stroff.
         ebind (need_bytes sh 0x20 8 (nat (u64 sh 0x20))) (\<lambda>strsz.
         ebind (rd stroff strsz) (\<lambda>strs.
           section_notes rd shoff shes strs [0..<shn]))))
       else Inr None)))"

section \<open>The segment path\<close>

fun note_spans :: "(nat \<Rightarrow> nat \<Rightarrow> bytes result) \<Rightarrow> nat \<Rightarrow> nat \<Rightarrow> nat list \<Rightarrow> (nat \<times> nat) list result" where
  "note_spans rd phoff pes [] = Inr []"
| "note_spans rd phoff pes (i # rest) =
     ebind (rd (phoff + i * pes) pes) (\<lambda>ph.
     ebind (need_bytes ph 0 4 (u32 ph 0)) (\<lambda>typ.
       if typ \<noteq> 4 then note_spans rd phoff pes rest
       else ebind (need_bytes ph 0x08 8 (nat (u64 ph 0x08))) (\<lambda>off.
            ebind (need_bytes ph 0x20 8 (nat (u64 ph 0x20))) (\<lambda>sz.
            ebind (note_spans rd phoff pes rest) (\<lambda>more. Inr ((off, sz) # more))))))"

text \<open>Adjacent spans are joined; the last joined span is the accumulator's last element.\<close>

definition merge_step :: "(nat \<times> nat) list \<Rightarrow> nat \<times> nat \<Rightarrow> (nat \<times> nat) list" where
  "merge_step merged s =
     (if merged \<noteq> [] \<and> fst (last merged) + snd (last merged) = fst s
      then butlast merged @ [(fst (last merged), snd (last merged) + snd s)]
      else merged @ [s])"

definition merge_spans :: "(nat \<times> nat) list \<Rightarrow> (nat \<times> nat) list" where
  "merge_spans spans = foldl merge_step [] spans"

fun span_notes :: "(nat \<Rightarrow> nat \<Rightarrow> bytes result) \<Rightarrow> (nat \<times> nat) list \<Rightarrow> bytes option result" where
  "span_notes rd [] = Inr None"
| "span_notes rd ((off, sz) # rest) =
     ebind (rd off sz) (\<lambda>n. case parse_note n of Some got \<Rightarrow> Inr (Some got) | None \<Rightarrow> span_notes rd rest)"

definition segment_id :: "(nat \<Rightarrow> nat \<Rightarrow> bytes result) \<Rightarrow> bytes \<Rightarrow> bytes option result" where
  "segment_id rd e =
     ebind (need_bytes e 0x20 8 (nat (u64 e 0x20))) (\<lambda>phoff.
     ebind (need_bytes e 0x36 4 (nat (u16 e 0x36), nat (u16 e 0x38))) (\<lambda>(pes, pn).
     ebind (note_spans rd phoff pes [0..<pn]) (\<lambda>spans.
       span_notes rd (merge_spans (sort spans)))))"

definition find_note :: "(nat \<Rightarrow> nat \<Rightarrow> bytes result) \<Rightarrow> bytes \<Rightarrow> bytes option result" where
  "find_note rd e =
     ebind (section_id rd e) (\<lambda>r. case r of Some got \<Rightarrow> Inr (Some got) | None \<Rightarrow> segment_id rd e)"

section \<open>The two readers\<close>

definition build_id :: "bytes \<Rightarrow> string result" where
  "build_id blob =
     ebind (read_exact blob 0 64) (\<lambda>e.
       if take 4 e \<noteq> ELF_MAGIC then Inl (ValueError ''not an ELF file'')
       else if e ! 4 \<noteq> 2 then Inl (ValueError ''not 64-bit ELF'')
       else ebind (find_note (read_exact blob) e) (\<lambda>r.
         case r of Some got \<Rightarrow> Inr (to_hex got) | None \<Rightarrow> Inl (ValueError ''no NT_GNU_BUILD_ID'')))"

definition elf_build_id :: "bytes \<Rightarrow> string option result" where
  "elf_build_id blob =
     (let e = take 64 blob in
      if take 4 e \<noteq> ELF_MAGIC then Inr None
      else if length e \<le> 4 then Inl IndexError
      else if e ! 4 \<noteq> 2 then Inr None
      else ebind (find_note (read_lax blob) e) (\<lambda>r. Inr (map_option to_hex r)))"

section \<open>Lemmas\<close>

text \<open>One computation succeeds wherever another does, with the same result.\<close>

definition refines_res :: "'a result \<Rightarrow> 'a result \<Rightarrow> bool" where
  "refines_res x y \<longleftrightarrow> (\<forall>r. x = Inr r \<longrightarrow> y = Inr r)"

lemma refines_res_refl [intro!, simp]: "refines_res x x"
  by (simp add: refines_res_def)

lemma refines_res_bind [intro!]:
  "refines_res x y \<Longrightarrow> (\<And>a. refines_res (f a) (g a)) \<Longrightarrow> refines_res (ebind x f) (ebind y g)"
  by (auto simp: refines_res_def err_simps)

text \<open>The failures of a computation stay within a set of exceptions.\<close>

definition fails_in :: "(exn \<Rightarrow> bool) \<Rightarrow> 'a result \<Rightarrow> bool" where
  "fails_in P x \<longleftrightarrow> (\<forall>e. x = Inl e \<longrightarrow> P e)"

lemma fails_in_Inr [intro!, simp]: "fails_in P (Inr x)"
  by (simp add: fails_in_def)

lemma fails_in_Inl [simp]: "fails_in P (Inl e) \<longleftrightarrow> P e"
  by (simp add: fails_in_def)

lemma fails_in_bind [intro!]: "fails_in P x \<Longrightarrow> (\<And>a. fails_in P (f a)) \<Longrightarrow> fails_in P (ebind x f)"
  by (cases x) (auto simp: fails_in_def)

lemma fails_in_cases:
  "fails_in P (if c then x else y) \<longleftrightarrow> (c \<longrightarrow> fails_in P x) \<and> (\<not> c \<longrightarrow> fails_in P y)"
  "fails_in P (case oa of None \<Rightarrow> x | Some a \<Rightarrow> f a) \<longleftrightarrow>
     (oa = None \<longrightarrow> fails_in P x) \<and> (\<forall>a. oa = Some a \<longrightarrow> fails_in P (f a))"
  "fails_in P (case p of (a, b) \<Rightarrow> g a b) \<longleftrightarrow> fails_in P (g (fst p) (snd p))"
  by (auto split: option.splits prod.splits)

lemma fails_in_need [simp]: "P StructError \<Longrightarrow> fails_in P (need_bytes b off n x)"
  by (simp add: need_bytes_def)

lemma section_notes_mono:
  assumes "\<And>off n. refines_res (rd off n) (rd' off n)"
  shows "refines_res (section_notes rd shoff shes strs is) (section_notes rd' shoff shes strs is)"
  by (induction "is") (auto simp: assms split: option.splits)

lemma note_spans_mono:
  assumes "\<And>off n. refines_res (rd off n) (rd' off n)"
  shows "refines_res (note_spans rd phoff pes is) (note_spans rd' phoff pes is)"
  by (induction "is") (auto simp: assms)

lemma span_notes_mono:
  assumes "\<And>off n. refines_res (rd off n) (rd' off n)"
  shows "refines_res (span_notes rd spans) (span_notes rd' spans)"
  by (induction spans) (auto simp: assms split: option.splits)

lemma find_note_mono:
  assumes "\<And>off n. refines_res (rd off n) (rd' off n)"
  shows "refines_res (find_note rd e) (find_note rd' e)"
  unfolding find_note_def section_id_def segment_id_def
  by (auto simp: assms section_notes_mono note_spans_mono span_notes_mono split: option.splits prod.splits)

lemma scan_note_length: "scan_note n dss = Some d \<Longrightarrow> length d \<in> set dss"
  by (induction dss) (auto split: option.splits if_splits)

lemma parse_note_length: "parse_note n = Some d \<Longrightarrow> length d \<in> {20, 16, 8}"
  using scan_note_length [of n "[20, 16, 8]"] by (auto simp: parse_note_def)

lemma read_exact_lax: "refines_res (read_exact blob off n) (read_lax blob off n)"
  by (simp add: refines_res_def read_exact_def read_lax_def Let_def)

text \<open>The joined spans: in order, no two neighbours adjacent, and covering the same bytes of the file.\<close>

definition span_bytes :: "bytes \<Rightarrow> (nat \<times> nat) list \<Rightarrow> bytes" where
  "span_bytes blob spans = concat (map (\<lambda>(off, sz). pyslice off (off + sz) blob) spans)"

fun gapped :: "(nat \<times> nat) list \<Rightarrow> bool" where
  "gapped ((a, n) # (b, k) # rest) = (a + n \<noteq> b \<and> gapped ((b, k) # rest))"
| "gapped _ = True"

lemma gapped_snoc: "gapped (xs @ [s]) \<longleftrightarrow> gapped xs \<and> (xs = [] \<or> fst (last xs) + snd (last xs) \<noteq> fst s)"
  by (cases s; induction xs rule: gapped.induct) (auto split: prod.splits)

lemma slice_glue_any: "pyslice a (a + n) xs @ pyslice (a + n) (a + n + k) xs = pyslice a (a + n + k) xs"
proof -
  have sl: "pyslice x (x + m) xs = take m (drop x xs)" for x m by (simp add: pyslice_def drop_take)
  have "drop n (drop a xs) = drop (a + n) xs" by (simp add: add.commute)
  then show ?thesis using take_add [of n k "drop a xs"] sl [of a "n + k"] sl [of a n] sl [of "a + n" k]
    by (simp add: add.assoc)
qed

lemma span_bytes_append: "span_bytes blob (xs @ ys) = span_bytes blob xs @ span_bytes blob ys"
  by (simp add: span_bytes_def)

lemma merge_step_bytes: "span_bytes blob (merge_step m s) = span_bytes blob m @ span_bytes blob [s]"
proof (cases "m \<noteq> [] \<and> fst (last m) + snd (last m) = fst s")
  case True
  then obtain xs l where m: "m = xs @ [l]" by (metis append_butlast_last_id)
  have "span_bytes blob [(fst l, snd l + snd s)] = span_bytes blob [l] @ span_bytes blob [s]"
    using True m slice_glue_any [of "fst l" "snd l" blob "snd s"]
    by (cases s; cases l) (auto simp: span_bytes_def add.assoc)
  with True m show ?thesis by (simp add: merge_step_def span_bytes_append)
next
  case False
  then show ?thesis by (auto simp: merge_step_def span_bytes_def)
qed

lemma merge_step_gapped: "gapped m \<Longrightarrow> gapped (merge_step m s)"
proof (cases "m \<noteq> [] \<and> fst (last m) + snd (last m) = fst s")
  case True
  assume g: "gapped m"
  obtain xs l where m: "m = xs @ [l]" using True by (metis append_butlast_last_id)
  with g True show ?thesis by (simp add: merge_step_def gapped_snoc)
next
  case False
  assume "gapped m"
  with False show ?thesis by (auto simp: merge_step_def gapped_snoc)
qed

lemma merge_spans_fold:
  "gapped m \<Longrightarrow> gapped (foldl merge_step m ss) \<and>
    span_bytes blob (foldl merge_step m ss) = span_bytes blob m @ span_bytes blob ss"
proof (induction ss arbitrary: m)
  case (Cons s ss)
  then show ?case using merge_step_gapped [of m s] merge_step_bytes [of blob m s]
    by (simp add: span_bytes_def)
qed (simp add: span_bytes_def)

lemma find_from_first:
  assumes "\<nexists>k. k < length pre \<and> is_prefix sub (drop k (pre @ sub @ post))" "sub \<noteq> []"
  shows "find_from sub 0 (pre @ sub @ post) = Some (length pre)"
proof -
  have "find_at sub i (pre @ sub @ post) = Some (i + length pre)" for i
    using assms(1)
  proof (induction pre arbitrary: i)
    case Nil
    have "is_prefix sub (sub @ post)" by (auto simp: is_prefix_iff)
    then show ?case using assms(2) by (cases sub) auto
  next
    case (Cons x pre)
    have "\<not> is_prefix sub ((x # pre) @ sub @ post)" using Cons.prems by force
    moreover have "\<nexists>k. k < length pre \<and> is_prefix sub (drop k (pre @ sub @ post))"
      using Cons.prems by (metis Suc_less_eq append_Cons drop_Suc_Cons length_Cons)
    ultimately show ?case using Cons.IH [of "Suc i"] by simp
  qed
  then show ?thesis by (simp add: find_from_def)
qed

lemma length_note_header [simp]: "length (note_header ds) = 16"
  by (simp add: note_header_def)

lemma find_note_from_note:
  assumes "find_note rd e = Inr (Some d)"
  shows "\<exists>n. parse_note n = Some d"
proof -
  have "\<exists>n. parse_note n = Some d" if "section_notes rd shoff shes strs is = Inr (Some d)" for shoff shes strs "is"
    using that by (induction "is") (auto simp: err_simps split: if_splits option.splits)
  moreover have "\<exists>n. parse_note n = Some d" if "span_notes rd spans = Inr (Some d)" for spans
    using that
  proof (induction spans)
    case (Cons sp spans)
    obtain off sz where sp: "sp = (off, sz)" by (cases sp)
    then obtain n where n: "rd off sz = Inr n" using Cons.prems by (auto simp: err_simps)
    then show ?case using Cons sp by (cases "parse_note n") auto
  qed simp
  ultimately show ?thesis
    using assms by (auto simp: find_note_def section_id_def segment_id_def err_simps split: if_splits option.splits prod.splits)
qed

section \<open>Properties\<close>

text \<open>
The copy agrees with the canonical reader: whenever \<^verbatim>\<open>ls_buildid.build_id\<close> reads an id from a file,
the copy in the loader client reads the same id from it, and the id is 20, 16 or 8 bytes in
hexadecimal.
\<close>

theorem build_id_readers_agree:
  assumes "build_id blob = Inr h"
  shows "elf_build_id blob = Inr (Some h) \<and> length h \<in> {40, 32, 16}"
proof -
  obtain e got where e: "read_exact blob 0 64 = Inr e" "take 4 e = ELF_MAGIC" "e ! 4 = 2"
    and g: "find_note (read_exact blob) e = Inr (Some got)" "h = to_hex got"
    using assms by (auto simp: build_id_def err_simps split: if_splits option.splits)
  have te: "take 64 blob = e" "length e = 64"
    using e(1) by (auto simp: read_exact_def pyslice_def Let_def split: if_splits)
  have "find_note (read_lax blob) e = Inr (Some got)"
    using find_note_mono [OF read_exact_lax] g(1) by (simp add: refines_res_def)
  then have "elf_build_id blob = Inr (Some h)" using e te g(2) by (simp add: elf_build_id_def)
  moreover have "length got \<in> {20, 16, 8}"
    using find_note_from_note [OF g(1)] parse_note_length by blast
  ultimately show ?thesis using g(2) by auto
qed

text \<open>
The note is found wherever it lies. Behind any bytes that do not hold an earlier 20-byte note header,
the scan returns the descriptor of a build-id note whole, whatever alignment precedes it. Joining the
adjacent note segments keeps their bytes in order and leaves no two neighbours adjacent, so a note that
straddles segments is contiguous before it is looked for.
\<close>

theorem note_found:
  "(length d = 20 \<and> (\<forall>k < length pre. \<not> is_prefix (note_header 20) (drop k (pre @ note_header 20 @ d @ post))) \<longrightarrow>
      parse_note (pre @ note_header 20 @ d @ post) = Some d) \<and>
   gapped (merge_spans spans) \<and> span_bytes blob (merge_spans spans) = span_bytes blob spans"
proof -
  have "parse_note (pre @ note_header 20 @ d @ post) = Some d"
    if "length d = 20" "\<forall>k < length pre. \<not> is_prefix (note_header 20) (drop k (pre @ note_header 20 @ d @ post))"
  proof -
    have "note_header 20 \<noteq> []" using length_note_header [of 20] by fastforce
    then have "find_from (note_header 20) 0 (pre @ note_header 20 @ d @ post) = Some (length pre)"
      using that(2) by (intro find_from_first) auto
    moreover have "pyslice (length pre + 16) (length pre + 16 + 20) (pre @ note_header 20 @ d @ post) = d"
      using slice_at [of "pre @ note_header 20" "length pre + 16" d 20 post] that(1) by simp
    ultimately show ?thesis using that(1) by (simp add: parse_note_def)
  qed
  moreover have "gapped []" "span_bytes blob [] = []" by (simp_all add: span_bytes_def)
  ultimately show ?thesis using merge_spans_fold [of "[]" spans blob] unfolding merge_spans_def by auto
qed

definition sample_id :: bytes where
  "sample_id = map word_of_nat [1..<21]"

definition sample_elf :: bytes where
  "sample_elf =
     ELF_MAGIC @ [2, 1] @ replicate 26 0 @ le_bytes 8 64 @ replicate 14 0 @ le_bytes 2 56 @ le_bytes 2 2 @ replicate 6 0 @
     (le_bytes 4 4 @ replicate 4 0 @ le_bytes 8 176 @ replicate 16 0 @ le_bytes 8 30 @ replicate 16 0) @
     (le_bytes 4 4 @ replicate 4 0 @ le_bytes 8 206 @ replicate 16 0 @ le_bytes 8 6 @ replicate 16 0) @
     note_header 20 @ sample_id"

theorem build_id_readers_agree_witness: "elf_build_id sample_elf = Inr (Some (to_hex sample_id))"
proof -
  have "build_id sample_elf = Inr (to_hex sample_id)" by code_simp
  then show ?thesis using build_id_readers_agree by blast
qed

theorem note_found_witness: "parse_note ([4, 0, 0] @ note_header 20 @ sample_id @ []) = Some sample_id"
proof -
  have "list_all (\<lambda>k. \<not> is_prefix (note_header 20) (drop k ([4, 0, 0] @ note_header 20 @ sample_id @ []))) [0, 1, 2]"
    by code_simp
  moreover have "k \<in> set [0, 1, 2]" if "k < length [4, 0, 0 :: byte]" for k :: nat using that by auto
  moreover have "length sample_id = 20" by (simp add: sample_id_def)
  ultimately have "length sample_id = 20 \<and> (\<forall>k < length [4, 0, 0 :: byte]. \<not> is_prefix (note_header 20) (drop k ([4, 0, 0] @ note_header 20 @ sample_id @ [])))"
    unfolding list_all_iff by blast
  then show ?thesis using note_found by blast
qed

end
