(* ===== verification/Loader_Wire.thy ===== *)
theory Loader_Wire
  imports Build_Id
begin

text \<open>
  The messages of the live loader: \<^verbatim>\<open>msg\<close>, \<^verbatim>\<open>config_body\<close> and the file readers of
  \<^verbatim>\<open>env/scripts/ls-load.py\<close>, and the second client \<^verbatim>\<open>substrate/loader-client/ls_client.py\<close>. A message
  is 192 bytes of \<^verbatim>\<open>struct shield_msg\<close> followed by the program. An empty \<^verbatim>\<open>bytes\<close> argument and a missing
  one are the same to \<^verbatim>\<open>msg\<close>, so the hook and the program are plain lists and only the binding and the
  signature are options.
\<close>

definition HDR :: nat where "HDR = 192"
definition OFF_OP :: nat where "OFF_OP = 0"
definition OFF_EPOCH :: nat where "OFF_EPOCH = 4"
definition OFF_MODE :: nat where "OFF_MODE = 8"
definition OFF_PROGLEN :: nat where "OFF_PROGLEN = 12"
definition OFF_HOOK :: nat where "OFF_HOOK = 48"
definition OFF_CTX_ABI :: nat where "OFF_CTX_ABI = 16 + 105"
definition CTX_ABI_VERSION :: int where "CTX_ABI_VERSION = 3"
definition OFF_BINDING :: nat where "OFF_BINDING = 16"
definition OFF_SIG :: nat where "OFF_SIG = 128"
definition LS_BINDING_LEN :: nat where "LS_BINDING_LEN = 112"
definition SIG_LEN :: nat where "SIG_LEN = 64"

lemmas wire_consts = HDR_def OFF_OP_def OFF_EPOCH_def OFF_MODE_def OFF_PROGLEN_def OFF_HOOK_def
  OFF_CTX_ABI_def CTX_ABI_VERSION_def OFF_BINDING_def OFF_SIG_def LS_BINDING_LEN_def SIG_LEN_def

section \<open>The message\<close>

definition put_u32 :: "nat \<Rightarrow> int \<Rightarrow> bytes \<Rightarrow> bytes result" where
  "put_u32 off v b = ebind (pack_u32 v) (\<lambda>w. Inr (put off w b))"

definition msg ::
  "int \<Rightarrow> int \<Rightarrow> int \<Rightarrow> bytes \<Rightarrow> bytes \<Rightarrow> int option \<Rightarrow> bytes option \<Rightarrow> bytes option \<Rightarrow> bytes result"
where
  "msg op slot mode hook prog epoch binding sig =
     ebind (put_u32 OFF_OP op (replicate HDR 0)) (\<lambda>b.
     ebind (put_u32 OFF_EPOCH (case epoch of None \<Rightarrow> slot | Some e \<Rightarrow> e) b) (\<lambda>b.
     ebind (put_u32 OFF_MODE mode b) (\<lambda>b.
     ebind (put_u32 OFF_PROGLEN (int (length prog)) b) (\<lambda>b.
     ebind (set_byte OFF_CTX_ABI CTX_ABI_VERSION b) (\<lambda>b.
     ebind
       (case binding of
          Some bd \<Rightarrow>
            (case sig of
               Some sg \<Rightarrow>
                 if length bd \<noteq> LS_BINDING_LEN \<or> sg = [] \<or> length sg \<noteq> SIG_LEN
                 then Inl (SystemExit ''malformed signed blob'')
                 else Inr (put OFF_SIG sg (put OFF_BINDING bd b))
             | None \<Rightarrow> Inl (SystemExit ''malformed signed blob''))
        | None \<Rightarrow>
            if hook \<noteq> [] then
              (if length hook > 64 then Inl (SystemExit ''hook name/address longer than the 64-byte field'')
               else Inr (put OFF_HOOK hook b))
            else Inr b)
       (\<lambda>b. Inr (b @ prog)))))))"

section \<open>Files\<close>

definition read_program :: "(string \<rightharpoonup> bytes) \<Rightarrow> string \<Rightarrow> bytes result" where
  "read_program fs path =
     (case fs path of
        None \<Rightarrow> Inl (SystemExit ''cannot read the program'')
      | Some blob \<Rightarrow>
          if blob = [] then Inl (SystemExit ''the program is empty'')
          else if take 4 blob \<noteq> ELF_MAGIC then Inl (SystemExit ''not an ELF object'')
          else Inr blob)"

definition sig_candidates :: "string \<Rightarrow> string option \<Rightarrow> string list" where
  "sig_candidates prog_path signature_path =
     (let base = (if ends_with ''.o'' prog_path then take (length prog_path - 2) prog_path else prog_path) in
      case signature_path of
        Some s \<Rightarrow> if s = [] then [base @ ''.sig'', prog_path @ ''.sig''] else [s]
      | None \<Rightarrow> [base @ ''.sig'', prog_path @ ''.sig''])"

fun first_signature :: "(string \<rightharpoonup> bytes) \<Rightarrow> string list \<Rightarrow> (bytes \<times> bytes) result" where
  "first_signature fs [] = Inl (SystemExit ''no signature found'')"
| "first_signature fs (cand # rest) =
     (case fs cand of
        None \<Rightarrow> first_signature fs rest
      | Some blob \<Rightarrow>
          if length blob \<noteq> LS_BINDING_LEN + SIG_LEN then Inl (SystemExit ''not a signed blob'')
          else Inr (take LS_BINDING_LEN blob, drop LS_BINDING_LEN blob))"

definition read_signature :: "(string \<rightharpoonup> bytes) \<Rightarrow> string \<Rightarrow> string option \<Rightarrow> (bytes \<times> bytes) result" where
  "read_signature fs prog_path signature_path = first_signature fs (sig_candidates prog_path signature_path)"

text \<open>\<^verbatim>\<open>elf_fentry_hook\<close>: the hook of the first \<^verbatim>\<open>fentry/\<close> section; a malformed object has none.\<close>

definition fentry_prefix :: bytes where
  "fentry_prefix = map (\<lambda>c. word_of_nat (of_char c)) ''fentry/''"

fun fentry_names :: "bytes \<Rightarrow> nat \<Rightarrow> nat \<Rightarrow> bytes \<Rightarrow> nat list \<Rightarrow> bytes result" where
  "fentry_names blob shoff shentsize strs [] = Inr []"
| "fentry_names blob shoff shentsize strs (i # rest) =
     ebind (need_bytes blob (shoff + i * shentsize) 4 (nat (u32 blob (shoff + i * shentsize)))) (\<lambda>nmoff.
       if is_prefix fentry_prefix (name_at strs nmoff) then Inr (drop 7 (name_at strs nmoff))
       else fentry_names blob shoff shentsize strs rest)"

definition fentry_body :: "bytes \<Rightarrow> bytes result" where
  "fentry_body blob =
     (if take 4 blob \<noteq> ELF_MAGIC then Inr []
      else if length blob \<le> 4 then Inl IndexError
      else if blob ! 4 \<noteq> 2 then Inr []
      else
        ebind (need_bytes blob 0x28 8 (nat (u64 blob 0x28))) (\<lambda>shoff.
        ebind (need_bytes blob 0x3A 4 (nat (u16 blob 0x3A), nat (u16 blob 0x3C))) (\<lambda>(shentsize, shnum).
        ebind (need_bytes blob 0x3E 2 (nat (u16 blob 0x3E))) (\<lambda>shstrndx.
          if shoff = 0 \<or> shnum = 0 \<or> shstrndx \<ge> shnum then Inr []
          else
            let base = shoff + shstrndx * shentsize in
            ebind (need_bytes blob (base + 0x18) 8 (nat (u64 blob (base + 0x18)))) (\<lambda>stroff.
            ebind (need_bytes blob (base + 0x20) 8 (nat (u64 blob (base + 0x20)))) (\<lambda>strsz.
              fentry_names blob shoff shentsize (pyslice stroff (stroff + strsz) blob) [0..<shnum]))))))"

definition elf_fentry_hook :: "bytes \<Rightarrow> bytes" where
  "elf_fentry_hook blob = (case fentry_body blob of Inl _ \<Rightarrow> [] | Inr h \<Rightarrow> h)"

section \<open>Configuration\<close>

definition config_fields :: "string list" where
  "config_fields =
     [''abi'', ''schema'', ''session'', ''instance'', ''expected_revision'', ''revision'', ''program_sha256'', ''rows'']"

definition config_int :: "jobj \<Rightarrow> string \<Rightarrow> int \<Rightarrow> int \<Rightarrow> int result" where
  "config_int d name low high =
     ebind (jitem d name) (\<lambda>v.
       case v of
         JInt i \<Rightarrow> if low \<le> i \<and> i \<le> high then Inr i else Inl (ValueError (''invalid configuration '' @ name))
       | _ \<Rightarrow> Inl (ValueError (''invalid configuration '' @ name)))"

definition hexadecimal :: "jval \<Rightarrow> nat \<Rightarrow> string \<Rightarrow> bytes result" where
  "hexadecimal v sz name =
     (case v of
        JStr s \<Rightarrow>
          if length s \<noteq> sz * 2 \<or> list_ex (\<lambda>c. c \<notin> set ''0123456789abcdefABCDEF'') s
          then Inl (ValueError (''invalid configuration '' @ name))
          else from_hex s
      | _ \<Rightarrow> Inl (ValueError (''invalid configuration '' @ name)))"

definition be_value :: "bytes \<Rightarrow> int" where
  "be_value bs = foldl (\<lambda>acc b. acc * 256 + uint b) 0 bs"

text \<open>The fixed part is \<^verbatim>\<open>struct.pack("<IIQQQQII32s", ...)\<close>; every field was range-checked before.\<close>

definition config_body :: "jval \<Rightarrow> bytes result" where
  "config_body document =
     (case document of
        JObj d \<Rightarrow>
          if set (map fst d) \<noteq> set config_fields then Inl (ValueError ''configuration requires exactly its fields'')
          else
            ebind (config_int d ''abi'' 1 1) (\<lambda>abi.
            ebind (config_int d ''schema'' 1 0xFFFFFFFF) (\<lambda>schema.
            ebind (config_int d ''expected_revision'' 0 0xFFFFFFFFFFFFFFFF) (\<lambda>expected.
            ebind (config_int d ''revision'' 1 0xFFFFFFFFFFFFFFFF) (\<lambda>revision.
              if revision \<le> expected then Inl (ValueError ''revision must exceed expected_revision'')
              else
                ebind (ebind (jitem d ''session'') (\<lambda>v. hexadecimal v 8 ''session'')) (\<lambda>s.
                ebind (ebind (jitem d ''instance'') (\<lambda>v. hexadecimal v 8 ''instance'')) (\<lambda>i.
                  let session = be_value s; inst = be_value i in
                  if session = 0 \<or> \<not> bit inst 63 then Inl (ValueError ''invalid session or instance'')
                  else
                    ebind (ebind (jitem d ''program_sha256'') (\<lambda>v. hexadecimal v 32 ''program_sha256'')) (\<lambda>sha.
                    ebind (jitem d ''rows'') (\<lambda>rows.
                      case rows of
                        JArr rs \<Rightarrow>
                          if length rs > 16 then Inl (ValueError ''rows must be a list of at most 16 records'')
                          else
                            ebind (emap (\<lambda>r. hexadecimal r 32 ''row'') rs) (\<lambda>data.
                              Inr (le_bytes 4 abi @ le_bytes 4 schema @ le_bytes 8 session @ le_bytes 8 inst @
                                   le_bytes 8 expected @ le_bytes 8 revision @ le_bytes 4 (int (length rs)) @
                                   le_bytes 4 0 @ sha @ concat data))
                      | _ \<Rightarrow> Inl (ValueError ''rows must be a list of at most 16 records'')))))))))
      | _ \<Rightarrow> Inl (ValueError ''configuration requires exactly its fields''))"

text \<open>\<^verbatim>\<open>object_pairs_hook\<close>: the pairs of one object, in order.\<close>

fun unique_config_fields :: "(string \<times> jval) list \<Rightarrow> (string \<times> jval) list \<Rightarrow> (string \<times> jval) list result" where
  "unique_config_fields result [] = Inr result"
| "unique_config_fields result ((k, v) # rest) =
     (if k \<in> set (map fst result) then Inl (ValueError (''duplicate configuration field '' @ k))
      else unique_config_fields (result @ [(k, v)]) rest)"

section \<open>The other client\<close>

definition C_HOOK_MAX :: nat where "C_HOOK_MAX = 64"

definition verify_layout :: "unit result" where
  "verify_layout =
     (if OFF_HOOK \<noteq> 16 + 32 then Inl (AssertionError ''binding.hook is at binding + 32'')
      else if OFF_SIG \<noteq> OFF_HOOK + C_HOOK_MAX then Inl (AssertionError ''sig follows hook[64]'')
      else if HDR \<noteq> OFF_SIG + SIG_LEN then Inl (AssertionError ''prog follows sig[64]'')
      else Inr ())"

definition client_message :: "int \<Rightarrow> bytes \<Rightarrow> bytes \<Rightarrow> int \<Rightarrow> int \<Rightarrow> bytes result" where
  "client_message op payload hook slot mode =
     (if length hook > C_HOOK_MAX - 1 then Inl (ValueError ''hook name longer than 63 bytes'')
      else
        ebind (put_u32 OFF_OP op (replicate HDR 0)) (\<lambda>buf.
        ebind (put_u32 OFF_EPOCH slot buf) (\<lambda>buf.
        ebind (set_byte OFF_MODE mode buf) (\<lambda>buf.
        ebind (put_u32 OFF_PROGLEN (int (length payload)) buf) (\<lambda>buf.
          Inr ((if hook \<noteq> [] then put OFF_HOOK hook buf else buf) @ payload))))))"

text \<open>Importing the module runs \<^verbatim>\<open>verify_layout()\<close> before any request can be made.\<close>

definition client_send :: "(bytes \<Rightarrow> string) \<Rightarrow> int \<Rightarrow> bytes \<Rightarrow> bytes \<Rightarrow> int \<Rightarrow> int \<Rightarrow> string result" where
  "client_send exchange op payload hook slot mode =
     ebind verify_layout (\<lambda>_. ebind (client_message op payload hook slot mode) (\<lambda>m. Inr (exchange m)))"

section \<open>Lemmas\<close>

lemma put_front: "length xs = off \<Longrightarrow> length ys = k \<Longrightarrow> k \<le> n \<Longrightarrow>
    put off ys (xs @ replicate n x) = xs @ ys @ replicate (n - k) x"
  by (simp add: put_def)

definition u32_ok :: "int \<Rightarrow> bool" where
  "u32_ok v \<longleftrightarrow> 0 \<le> v \<and> v < 4294967296"

lemma put_u32_iff: "put_u32 off v b = Inr b' \<longleftrightarrow> u32_ok v \<and> b' = put off (le_bytes 4 v) b"
  by (auto simp: put_u32_def pack_u32_def u32_ok_def)

text \<open>The header as the concatenation of its fields.\<close>

definition header_fields :: "int \<Rightarrow> int \<Rightarrow> int \<Rightarrow> nat \<Rightarrow> bytes" where
  "header_fields op ep mode n = le_bytes 4 op @ le_bytes 4 ep @ le_bytes 4 mode @ le_bytes 4 (int n)"

lemma length_header_fields [simp]: "length (header_fields op ep mode n) = 16"
  by (simp add: header_fields_def)

lemma four_fields:
  "put 12 (le_bytes 4 n) (put 8 (le_bytes 4 mode) (put 4 (le_bytes 4 ep) (put 0 (le_bytes 4 op) (replicate 192 0)))) =
     le_bytes 4 op @ le_bytes 4 ep @ le_bytes 4 mode @ le_bytes 4 n @ replicate 176 0"
  using put_front [of "[]" 0 "le_bytes 4 op" 4 192] put_front [of "le_bytes 4 op" 4 "le_bytes 4 ep" 4 188]
    put_front [of "le_bytes 4 op @ le_bytes 4 ep" 8 "le_bytes 4 mode" 4 184]
    put_front [of "le_bytes 4 op @ le_bytes 4 ep @ le_bytes 4 mode" 12 "le_bytes 4 n" 4 180]
  by simp

lemma abi_byte: "(h @ replicate 176 0)[121 := x] = h @ replicate 105 0 @ [x] @ replicate 70 (0 :: byte)" if "length h = 16"
proof -
  have "replicate 176 (0 :: byte) = replicate 105 0 @ [0] @ replicate 70 0"
    unfolding replicate_add [symmetric] replicate_app_Cons_same by (simp add: numeral_eq_Suc)
  then show ?thesis using that by (simp add: list_update_append)
qed

lemma signed_put:
  assumes "length h = 16" "length bd = 112" "length sg = 64"
  shows "put 128 sg (put 16 bd (h @ replicate 105 0 @ [x] @ replicate 70 0)) = h @ bd @ sg"
  using assms by (simp add: put_def)

lemma hook_put:
  assumes "length h = 16" "length hook \<le> 64"
  shows "put 48 hook (h @ replicate 105 0 @ [x] @ replicate 70 0) =
    h @ replicate 32 0 @ (hook @ replicate (64 - length hook) 0) @ replicate 9 0 @ [x] @ replicate 70 0"
  using assms by (simp add: put_def drop_Cons' flip: replicate_add)

definition msg_ok :: "int \<Rightarrow> int \<Rightarrow> int \<Rightarrow> bytes \<Rightarrow> bool" where
  "msg_ok op ep mode prog \<longleftrightarrow> u32_ok op \<and> u32_ok ep \<and> u32_ok mode \<and> u32_ok (int (length prog))"

abbreviation "epoch_of slot epoch \<equiv> (case epoch of None \<Rightarrow> slot | Some e \<Rightarrow> e)"

lemma msg_signed:
  "msg op slot mode hook prog epoch (Some bd) sig = Inr m \<longleftrightarrow>
     msg_ok op (epoch_of slot epoch) mode prog \<and>
     (\<exists>sg. sig = Some sg \<and> length bd = 112 \<and> length sg = 64 \<and>
        m = header_fields op (epoch_of slot epoch) mode (length prog) @ bd @ sg @ prog)"
proof -
  have "set_byte 121 3 (put 12 (le_bytes 4 (int (length prog))) (put 8 (le_bytes 4 mode)
      (put 4 (le_bytes 4 (epoch_of slot epoch)) (put 0 (le_bytes 4 op) (replicate 192 0))))) =
    Inr (header_fields op (epoch_of slot epoch) mode (length prog) @ replicate 105 0 @ [3] @ replicate 70 0)"
    using abi_byte [of "header_fields op (epoch_of slot epoch) mode (length prog)" 3]
    by (simp add: set_byte_def four_fields) (simp add: header_fields_def)
  then show ?thesis
    using signed_put [of "header_fields op (epoch_of slot epoch) mode (length prog)" bd _ 3]
    by (auto simp: msg_def err_simps put_u32_iff wire_consts msg_ok_def split: option.splits if_splits)
qed

lemma msg_hooked:
  "msg op slot mode hook prog epoch None sig = Inr m \<longleftrightarrow>
     msg_ok op (epoch_of slot epoch) mode prog \<and> length hook \<le> 64 \<and>
     m = header_fields op (epoch_of slot epoch) mode (length prog) @ replicate 32 0 @
         (hook @ replicate (64 - length hook) 0) @ replicate 9 0 @ [3] @ replicate 70 0 @ prog"
proof -
  let ?h = "header_fields op (epoch_of slot epoch) mode (length prog)"
  have "set_byte 121 3 (put 12 (le_bytes 4 (int (length prog))) (put 8 (le_bytes 4 mode)
      (put 4 (le_bytes 4 (epoch_of slot epoch)) (put 0 (le_bytes 4 op) (replicate 192 0))))) =
    Inr (?h @ replicate 105 0 @ [3] @ replicate 70 0)"
    using abi_byte [of ?h 3] by (simp add: set_byte_def four_fields) (simp add: header_fields_def)
  moreover have "replicate 105 0 = replicate 32 0 @ replicate 64 (0 :: byte) @ replicate 9 0"
    by (simp flip: replicate_add)
  ultimately show ?thesis
    using hook_put [of ?h hook 3]
    by (auto simp: msg_def err_simps put_u32_iff wire_consts msg_ok_def split: if_splits)
qed

lemma mode_byte:
  assumes "0 \<le> mode" "mode < 256"
  shows "set_byte 8 mode (put 4 (le_bytes 4 slot) (put 0 (le_bytes 4 op) (replicate 192 0))) =
    Inr (put 8 (le_bytes 4 mode) (put 4 (le_bytes 4 slot) (put 0 (le_bytes 4 op) (replicate 192 0))))"
proof -
  have r: "replicate 184 (0 :: byte) = 0 # replicate 183 0" by (simp add: numeral_eq_Suc)
  have z: "put 4 (le_bytes 4 slot) (put 0 (le_bytes 4 op) (replicate 192 0)) =
      le_bytes 4 op @ le_bytes 4 slot @ replicate 184 0"
    using put_front [of "[]" 0 "le_bytes 4 op" 4 192] put_front [of "le_bytes 4 op" 4 "le_bytes 4 slot" 4 188] by simp
  have m: "le_bytes 4 mode = [word_of_int mode, 0, 0, 0]"
    using assms by (simp add: numeral_eq_Suc)
  have "put 8 (le_bytes 4 mode) (le_bytes 4 op @ le_bytes 4 slot @ replicate 184 0) =
      le_bytes 4 op @ le_bytes 4 slot @ le_bytes 4 mode @ replicate 180 0"
    using put_front [of "le_bytes 4 op @ le_bytes 4 slot" 8 "le_bytes 4 mode" 4 184] by simp
  moreover have "replicate 184 (0 :: byte) = [0, 0, 0, 0] @ replicate 180 0" by (simp add: numeral_eq_Suc)
  ultimately show ?thesis using assms by (simp add: set_byte_def z m list_update_append)
qed

section \<open>Properties\<close>

text \<open>
The wire format: a message exists exactly for 32-bit fields, and is then the four header words, 112
bytes of binding, 64 of signature and the program. With a signed binding those 176 bytes are the signed
blob unchanged, whatever hook argument was given; without one they are the hook (at most 64 bytes)
zero-padded at binding offset 32, the context ABI version at binding offset 105 and zeros.
\<close>

theorem msg_layout:
  "(msg op slot mode hook prog epoch (Some bd) sig = Inr m \<longleftrightarrow>
     msg_ok op (epoch_of slot epoch) mode prog \<and>
     (\<exists>sg. sig = Some sg \<and> length bd = 112 \<and> length sg = 64 \<and>
        m = header_fields op (epoch_of slot epoch) mode (length prog) @ bd @ sg @ prog)) \<and>
   (msg op slot mode hook prog epoch None sig = Inr m \<longleftrightarrow>
     msg_ok op (epoch_of slot epoch) mode prog \<and> length hook \<le> 64 \<and>
     m = header_fields op (epoch_of slot epoch) mode (length prog) @ replicate 32 0 @
         (hook @ replicate (64 - length hook) 0) @ replicate 9 0 @ [3] @ replicate 70 0 @ prog)"
  by (rule conjI [OF msg_signed msg_hooked])

text \<open>
The two clients send the same request: for every request the second client can build, the first
builds one too, and the two differ only in the context ABI byte, which the second leaves at zero.
\<close>

theorem client_messages_agree:
  assumes "client_message op payload hook slot mode = Inr m"
  shows "m ! 121 = 0 \<and> msg op slot mode hook payload None None None = Inr (m[121 := 3])"
proof -
  let ?h = "header_fields op slot mode (length payload)"
  let ?f = "hook @ replicate (64 - length hook) 0"
  from assms have ok: "length hook \<le> 63" "u32_ok op" "u32_ok slot" "0 \<le> mode" "mode < 256"
      "u32_ok (int (length payload))"
    and m: "m = (if hook \<noteq> [] then put 48 hook (?h @ replicate 176 0) else ?h @ replicate 176 0) @ payload"
    using mode_byte [of mode slot op]
    by (auto simp: client_message_def C_HOOK_MAX_def err_simps put_u32_iff wire_consts set_byte_def four_fields
        header_fields_def split: if_splits)
  have "put 48 hook (?h @ replicate 176 0) = ?h @ replicate 32 0 @ ?f @ replicate 80 0"
    using ok(1) by (simp add: put_def flip: replicate_add)
  moreover have "replicate 176 0 = replicate 32 0 @ replicate 64 (0 :: byte) @ replicate 80 0"
    by (simp flip: replicate_add)
  ultimately have m': "m = ?h @ replicate 32 0 @ ?f @ replicate 80 0 @ payload"
    using m by (auto split: if_splits)
  have "m[121 := 3] = ?h @ replicate 32 0 @ ?f @ replicate 9 0 @ [3] @ replicate 70 0 @ payload"
  proof -
    have "replicate 80 (0 :: byte) = replicate 9 0 @ [0] @ replicate 70 0"
      by (simp add: numeral_eq_Suc)
    then show ?thesis using ok(1) by (simp add: m' list_update_append)
  qed
  moreover have "m ! 121 = 0"
  proof -
    have "(?h @ replicate 32 0 @ ?f @ replicate 80 0 @ payload) ! (112 + 9) = (replicate 80 0 @ payload) ! 9"
      using nth_append_length_plus [of "?h @ replicate 32 0 @ ?f" "replicate 80 0 @ payload" 9] ok(1) by simp
    then show ?thesis by (simp add: m' nth_append)
  qed
  moreover have "u32_ok mode" using ok by (simp add: u32_ok_def)
  ultimately show ?thesis using ok by (simp add: msg_hooked msg_ok_def)
qed

theorem client_messages_agree_witness:
  "\<exists>m. client_message 3 [] [] 5 2 = Inr m \<and> m ! 121 = 0 \<and> msg 3 5 2 [] [] None None None = Inr (m[121 := 3])"
proof -
  obtain m where m: "client_message 3 [] [] 5 2 = Inr m"
    by (simp add: client_message_def C_HOOK_MAX_def put_u32_def pack_u32_def set_byte_def wire_consts)
  then show ?thesis using client_messages_agree [OF m] by blast
qed

text \<open>
The second client cannot send anything: its import-time check of the transcribed offsets asserts that
the signature follows the hook at offset 112, while it is transcribed, as in the other client, at offset
128 behind the whole binding; so importing the module raises for every request.
\<close>

theorem client_never_sends:
  "client_send exchange op payload hook slot mode = Inl (AssertionError ''sig follows hook[64]'')"
  by (simp add: client_send_def verify_layout_def wire_consts C_HOOK_MAX_def)

section \<open>The configuration read back\<close>

definition decode_config ::
  "bytes \<Rightarrow> (int \<times> int \<times> int \<times> int \<times> int \<times> int \<times> bytes \<times> bytes list) option"
where
  "decode_config b =
     (let n = nat (u32 b 40) in
      if length b = 80 + 32 * n then
        Some (u32 b 0, u32 b 4, u64 b 8, u64 b 16, u64 b 24, u64 b 32, pyslice 48 80 b,
              map (\<lambda>k. pyslice (80 + 32 * k) (80 + 32 * k + 32) b) [0..<n])
      else None)"

lemma hex_chars: "list_all (\<lambda>c. \<not> is_ascii_space c) ''0123456789abcdefABCDEF''"
  by code_simp

lemma from_hex_length:
  "from_hex s = Inr bs \<Longrightarrow> list_all (\<lambda>c. \<not> is_ascii_space c) s \<Longrightarrow> length s = 2 * length bs"
  by (induction s arbitrary: bs rule: from_hex.induct)
     (auto simp: err_simps split: if_splits list.splits option.splits)

lemma hexadecimalD:
  assumes "hexadecimal v sz name = Inr bs"
  shows "\<exists>s. v = JStr s \<and> from_hex s = Inr bs \<and> length bs = sz"
proof -
  obtain s where s: "v = JStr s" "length s = sz * 2" "\<forall>c \<in> set s. c \<in> set ''0123456789abcdefABCDEF''" "from_hex s = Inr bs"
    using assms by (auto simp: hexadecimal_def list_ex_iff split: jval.splits if_splits)
  have "list_all (\<lambda>c. \<not> is_ascii_space c) s"
    using s(3) hex_chars unfolding list_all_iff by blast
  from from_hex_length [OF s(4) this] s show ?thesis by simp
qed

lemma be_value_bound: "0 \<le> be_value bs \<and> be_value bs < 256 ^ length bs"
proof -
  have "0 \<le> foldl (\<lambda>acc b. acc * 256 + uint (b :: byte)) a bs \<and>
      foldl (\<lambda>acc b. acc * 256 + uint b) a bs < (a + 1) * 256 ^ length bs" if "0 \<le> a" for a
    using that
  proof (induction bs arbitrary: a)
    case (Cons b bs)
    have b: "0 \<le> uint b" "uint b < 256" using uint_byte_less [of b] by auto
    have "a * 256 + uint b + 1 \<le> (a + 1) * 256" using b by simp
    then have le: "(a * 256 + uint b + 1) * 256 ^ length bs \<le> (a + 1) * 256 * 256 ^ length bs"
      by (rule mult_right_mono) simp
    have "0 \<le> a * 256 + uint b" using Cons.prems b by simp
    from Cons.IH [OF this] le have "0 \<le> foldl (\<lambda>acc b. acc * 256 + uint b) (a * 256 + uint b) bs \<and>
        foldl (\<lambda>acc b. acc * 256 + uint b) (a * 256 + uint b) bs < (a + 1) * 256 * 256 ^ length bs"
      by (meson order_less_le_trans)
    then show ?case by (simp only: foldl_Cons length_Cons power_Suc mult.assoc)
  qed simp
  from this [of 0] show ?thesis by (simp add: be_value_def)
qed

lemma concat_chunk: "\<forall>x \<in> set xs. length x = 32 \<Longrightarrow> k < length xs \<Longrightarrow>
    pyslice (length p + 32 * k) (length p + 32 * k + 32) (p @ concat xs) = xs ! k"
proof (induction xs arbitrary: k p)
  case (Cons x xs)
  show ?case
  proof (cases k)
    case 0
    then show ?thesis using Cons.prems slice_at [of p "length p" x 32 "concat xs"] by simp
  next
    case (Suc j)
    have "length (p @ x) = length p + 32" using Cons.prems by simp
    with Cons.IH [of j "p @ x"] Cons.prems Suc show ?thesis by (simp add: algebra_simps)
  qed
qed simp

lemma length_concat_32: "\<forall>x \<in> set xs. length x = 32 \<Longrightarrow> length (concat xs) = 32 * length xs"
  by (induction xs) auto

lemma decode_config_fields:
  assumes "u32_ok a" "u32_ok s" "0 \<le> se" "se < 2 ^ 64" "0 \<le> i" "i < 2 ^ 64" "0 \<le> e" "e < 2 ^ 64"
    "0 \<le> r" "r < 2 ^ 64" "length sha = 32" "\<forall>x \<in> set rows. length x = 32" "length rows \<le> 16"
  shows "decode_config (le_bytes 4 a @ le_bytes 4 s @ le_bytes 8 se @ le_bytes 8 i @ le_bytes 8 e @ le_bytes 8 r @
      le_bytes 4 (int (length rows)) @ le_bytes 4 0 @ sha @ concat rows) = Some (a, s, se, i, e, r, sha, rows)"
proof -
  let ?w4 = "le_bytes 4" and ?w8 = "le_bytes 8"
  let ?n = "int (length rows)"
  let ?h = "?w4 a @ ?w4 s @ ?w8 se @ ?w8 i @ ?w8 e @ ?w8 r @ ?w4 ?n @ ?w4 0 @ sha"
  define b where "b = ?h @ concat rows"
  have l: "length ?h = 80" using assms(11) by simp
  have n: "u32 b 40 = ?n"
    using u_at(2) [of "?w4 a @ ?w4 s @ ?w8 se @ ?w8 i @ ?w8 e @ ?w8 r" 40 ?n] assms(13) by (simp add: b_def)
  have f: "u32 b 0 = a" "u32 b 4 = s" "u64 b 8 = se" "u64 b 16 = i" "u64 b 24 = e" "u64 b 32 = r"
    using u_at(2) [of "[]" 0 a] u_at(2) [of "?w4 a" 4 s] u_at(3) [of "?w4 a @ ?w4 s" 8 se]
      u_at(3) [of "?w4 a @ ?w4 s @ ?w8 se" 16 i] u_at(3) [of "?w4 a @ ?w4 s @ ?w8 se @ ?w8 i" 24 e]
      u_at(3) [of "?w4 a @ ?w4 s @ ?w8 se @ ?w8 i @ ?w8 e" 32 r] assms(1-10)
    by (simp_all add: b_def u32_ok_def)
  have sh: "pyslice 48 80 b = sha"
    using slice_at [of "?w4 a @ ?w4 s @ ?w8 se @ ?w8 i @ ?w8 e @ ?w8 r @ ?w4 ?n @ ?w4 0" 48 sha 32 "concat rows"] assms(11)
    by (simp add: b_def)
  have rs: "map (\<lambda>k. pyslice (80 + 32 * k) (80 + 32 * k + 32) b) [0..<length rows] = rows"
    using concat_chunk [OF assms(12), of _ ?h] l by (intro nth_equalityI) (auto simp: b_def)
  have lb: "length b = 80 + 32 * length rows" using l length_concat_32 [OF assms(12)] unfolding b_def by simp
  have "decode_config b = Some (a, s, se, i, e, r, sha, rows)"
    using n f sh rs lb by (simp add: decode_config_def Let_def)
  then show ?thesis by (simp add: b_def)
qed

lemma jitem_jget: "jitem d k = Inr v \<Longrightarrow> jget d k = v"
  by (auto simp: jitem_def jget_def split: option.splits)

lemma case_jval_iffs:
  "(case v of JNull \<Rightarrow> Inl e | JBool _ \<Rightarrow> Inl e | JInt i \<Rightarrow> f i | JStr _ \<Rightarrow> Inl e | JArr _ \<Rightarrow> Inl e | JObj _ \<Rightarrow> Inl e) = Inr y
     \<longleftrightarrow> (\<exists>i. v = JInt i \<and> f i = Inr y)"
  "(case v of JNull \<Rightarrow> Inl e | JBool _ \<Rightarrow> Inl e | JInt _ \<Rightarrow> Inl e | JStr _ \<Rightarrow> Inl e | JArr a \<Rightarrow> g a | JObj _ \<Rightarrow> Inl e) = Inr y
     \<longleftrightarrow> (\<exists>a. v = JArr a \<and> g a = Inr y)"
  by (cases v; simp)+

lemma config_intD: "config_int d n lo hi = Inr i \<Longrightarrow> jget d n = JInt i \<and> lo \<le> i \<and> i \<le> hi"
  by (auto simp: config_int_def err_simps case_jval_iffs dest!: jitem_jget split: if_splits)

lemma emap_hexadecimal:
  "emap (\<lambda>r. hexadecimal r n nm) rs = Inr rows \<Longrightarrow>
     list_all2 (\<lambda>v row. \<exists>s. v = JStr s \<and> from_hex s = Inr row) rs rows \<and> (\<forall>x \<in> set rows. length x = n)"
  by (induction rs arbitrary: rows) (auto simp: err_simps dest: hexadecimalD)

lemma config_bodyD:
  assumes "config_body (JObj d) = Inr b"
  obtains schema e r sv iv shv sb ib sha rs rows where
    "config_int d ''abi'' 1 1 = Inr 1" "config_int d ''schema'' 1 0xFFFFFFFF = Inr schema"
    "config_int d ''expected_revision'' 0 0xFFFFFFFFFFFFFFFF = Inr e"
    "config_int d ''revision'' 1 0xFFFFFFFFFFFFFFFF = Inr r" "e < r"
    "jitem d ''session'' = Inr sv" "hexadecimal sv 8 ''session'' = Inr sb"
    "jitem d ''instance'' = Inr iv" "hexadecimal iv 8 ''instance'' = Inr ib"
    "be_value sb \<noteq> 0" "bit (be_value ib) 63"
    "jitem d ''program_sha256'' = Inr shv" "hexadecimal shv 32 ''program_sha256'' = Inr sha"
    "jitem d ''rows'' = Inr (JArr rs)" "length rs \<le> 16" "emap (\<lambda>r. hexadecimal r 32 ''row'') rs = Inr rows"
    "b = le_bytes 4 1 @ le_bytes 4 schema @ le_bytes 8 (be_value sb) @ le_bytes 8 (be_value ib) @
      le_bytes 8 e @ le_bytes 8 r @ le_bytes 4 (int (length rs)) @ le_bytes 4 0 @ sha @ concat rows"
proof -
  have abi: "a = 1" if "config_int d ''abi'' 1 1 = Inr a" for a using config_intD [OF that] by simp
  from assms show thesis
    unfolding config_body_def jval.case
    by (auto simp: err_simps Let_def not_le case_jval_iffs split: if_splits intro!: that dest: abi)
qed

lemma config_body_decodes:
  assumes "config_body (JObj d) = Inr b"
  shows "\<exists>schema se i sb ib e r sha rs rows.
    decode_config b = Some (1, schema, be_value sb, be_value ib, e, r, sha, rows) \<and>
    jget d ''abi'' = JInt 1 \<and> jget d ''schema'' = JInt schema \<and> jget d ''expected_revision'' = JInt e \<and>
    jget d ''revision'' = JInt r \<and> jget d ''session'' = JStr se \<and> from_hex se = Inr sb \<and>
    jget d ''instance'' = JStr i \<and> from_hex i = Inr ib \<and> jget d ''rows'' = JArr rs \<and>
    list_all2 (\<lambda>v row. \<exists>s. v = JStr s \<and> from_hex s = Inr row) rs rows \<and>
    e < r \<and> be_value sb \<noteq> 0 \<and> bit (be_value ib) 63 \<and> length rows \<le> 16 \<and>
    length b = 80 + 32 * length rows"
  using assms
proof (rule config_bodyD)
  fix schema e r sv iv shv sb ib sha rs rows
  assume ci: "config_int d ''abi'' 1 1 = Inr 1" "config_int d ''schema'' 1 0xFFFFFFFF = Inr schema"
    "config_int d ''expected_revision'' 0 0xFFFFFFFFFFFFFFFF = Inr e"
    "config_int d ''revision'' 1 0xFFFFFFFFFFFFFFFF = Inr r" "e < r"
    and it: "jitem d ''session'' = Inr sv" "jitem d ''instance'' = Inr iv" "jitem d ''rows'' = Inr (JArr rs)"
    and hx: "hexadecimal sv 8 ''session'' = Inr sb" "hexadecimal iv 8 ''instance'' = Inr ib"
      "hexadecimal shv 32 ''program_sha256'' = Inr sha" "emap (\<lambda>r. hexadecimal r 32 ''row'') rs = Inr rows"
    and ok: "be_value sb \<noteq> 0" "bit (be_value ib) 63" "length rs \<le> 16"
    and b: "b = le_bytes 4 1 @ le_bytes 4 schema @ le_bytes 8 (be_value sb) @ le_bytes 8 (be_value ib) @
      le_bytes 8 e @ le_bytes 8 r @ le_bytes 4 (int (length rs)) @ le_bytes 4 0 @ sha @ concat rows"
  note i = ci(1-4) [THEN config_intD]
  obtain se where se: "sv = JStr se" "from_hex se = Inr sb" "length sb = 8" using hexadecimalD [OF hx(1)] by blast
  obtain si where si: "iv = JStr si" "from_hex si = Inr ib" "length ib = 8" using hexadecimalD [OF hx(2)] by blast
  have sha: "length sha = 32" using hexadecimalD [OF hx(3)] by blast
  note rw = emap_hexadecimal [OF hx(4)]
  have lr: "length rs = length rows" using rw list_all2_lengthD by blast
  have "decode_config b = Some (1, schema, be_value sb, be_value ib, e, r, sha, rows)"
    unfolding b lr
    by (rule decode_config_fields)
       (use i rw ok lr sha se(3) si(3) be_value_bound [of sb] be_value_bound [of ib] in \<open>auto simp: u32_ok_def\<close>)
  moreover have "length b = 80 + 32 * length rows"
    using sha rw length_concat_32 [of rows] by (simp add: b)
  moreover have "jget d ''abi'' = JInt 1" "jget d ''schema'' = JInt schema" "jget d ''expected_revision'' = JInt e"
    "jget d ''revision'' = JInt r" using i by simp_all
  moreover have "jget d ''session'' = JStr se" "jget d ''instance'' = JStr si" "jget d ''rows'' = JArr rs"
    using it [THEN jitem_jget] se(1) si(1) by simp_all
  moreover have "length rows \<le> 16" using ok(3) lr by simp
  ultimately show ?thesis
    using se(2) si(2) conjunct1 [OF rw] ci(5) ok(1,2) by (intro exI conjI) assumption+
qed


lemma config_body_shape:
  assumes "config_body doc = Inr b"
  shows "\<exists>d r. doc = JObj d \<and> jget d ''revision'' = JInt r \<and> length b \<le> 80 + 32 * 16"
proof -
  obtain d where d: "doc = JObj d" using assms by (cases doc) (simp_all add: config_body_def)
  from config_body_decodes [OF assms [unfolded d]] obtain r rows where
    "jget d ''revision'' = JInt r" "length (rows :: bytes list) \<le> 16" "length b = 80 + 32 * length rows" by blast
  with d show ?thesis by simp
qed

text \<open>
The configuration round trip: an accepted document is encoded to 80 bytes and 32 per row, and reading
the bytes back gives the document's own fields: its schema, session, instance, revisions, program hash and
rows in order. An accepted document raises the revision, names a non-zero session and an instance with its
top bit set, and has at most 16 rows.
\<close>

theorem config_roundtrip:
  assumes "config_body (JObj d) = Inr b"
  shows "\<exists>schema se i sb ib e r sha rs rows.
    decode_config b = Some (1, schema, be_value sb, be_value ib, e, r, sha, rows) \<and>
    jget d ''abi'' = JInt 1 \<and> jget d ''schema'' = JInt schema \<and> jget d ''expected_revision'' = JInt e \<and>
    jget d ''revision'' = JInt r \<and> jget d ''session'' = JStr se \<and> from_hex se = Inr sb \<and>
    jget d ''instance'' = JStr i \<and> from_hex i = Inr ib \<and> jget d ''rows'' = JArr rs \<and>
    list_all2 (\<lambda>v row. \<exists>s. v = JStr s \<and> from_hex s = Inr row) rs rows \<and>
    e < r \<and> be_value sb \<noteq> 0 \<and> bit (be_value ib) 63 \<and> length rows \<le> 16 \<and>
    length b = 80 + 32 * length rows"
  using assms by (rule config_body_decodes)

definition sample_config :: jval where
  "sample_config = JObj
     [(''abi'', JInt 1), (''schema'', JInt 7), (''session'', JStr ''0000000000000001''),
      (''instance'', JStr ''8000000000000000''), (''expected_revision'', JInt 0), (''revision'', JInt 1),
      (''program_sha256'', JStr (replicate 64 CHR ''a'')), (''rows'', JArr [JStr (replicate 64 CHR ''0'')])]"

theorem config_roundtrip_witness: "ok_with (\<lambda>b. length b = 112 \<and> decode_config b \<noteq> None) (config_body sample_config)"
proof -
  have ok: "ok_with (\<lambda>b. length b = 112) (config_body sample_config)" by code_simp
  then obtain b where b: "config_body sample_config = Inr b" "length b = 112" by (auto simp: ok_with_iff)
  from config_roundtrip [OF b(1) [unfolded sample_config_def]] b show ?thesis by (auto simp: ok_with_iff)
qed

end
