(* ===== verification/Sign_Shield.thy ===== *)
theory Sign_Shield
  imports Py_Lines Sha256
begin

text \<open>
  \<^verbatim>\<open>substrate/sign_shield.py\<close>: the 112-byte binding that a shield's Ed25519 signature covers, the
  expiry field, and the signer. The signing tool is a parameter that returns its exit code and the
  signature file; the clock is the argument \<open>now\<close>.
\<close>

definition BINDING_LEN :: nat where "BINDING_LEN = 112"
definition HOOK_MAX :: nat where "HOOK_MAX = 64"

definition MODES :: "(string \<times> int) list" where
  "MODES = [(''disable'', 0), (''monitor'', 1), (''enforce'', 2)]"

text \<open>\<^verbatim>\<open>str.encode()\<close> for code points below 256.\<close>

definition encode_char :: "char \<Rightarrow> bytes" where
  "encode_char c =
     (let n = of_char c :: nat in
      if n < 128 then [word_of_nat n] else [word_of_nat (192 + n div 64), word_of_nat (128 + n mod 64)])"

definition encode_utf8 :: "string \<Rightarrow> bytes" where
  "encode_utf8 s = concat (map encode_char s)"

section \<open>The binding\<close>

definition build_binding :: "bytes \<Rightarrow> string \<Rightarrow> int \<Rightarrow> int \<Rightarrow> int \<Rightarrow> int \<Rightarrow> int \<Rightarrow> bytes result" where
  "build_binding prog hook build_min build_max mode_ceiling ctx_abi expires_with =
     (let h = sha256 prog; hb = encode_utf8 hook in
      if length hb \<ge> HOOK_MAX then Inl (SystemExit ''hook name does not fit the field'')
      else
        let b = put 32 hb (put 0 h (replicate BINDING_LEN 0)) in
        ebind (pack_u32 build_min) (\<lambda>lo. let b = put 96 lo b in
        ebind (pack_u32 build_max) (\<lambda>hi. let b = put 100 hi b in
        ebind (set_byte 104 mode_ceiling b) (\<lambda>b.
        ebind (set_byte 105 ctx_abi b) (\<lambda>b.
        ebind (pack_u32 expires_with) (\<lambda>ex. Inr (put 108 ex b)))))))"

section \<open>Signing\<close>

definition sign :: "(bytes \<Rightarrow> int \<times> bytes) \<Rightarrow> bytes \<Rightarrow> bytes result" where
  "sign openssl message =
     (case openssl message of
        (rc, sig) \<Rightarrow>
          if rc \<noteq> 0 then Inl (SystemExit ''signing failed'')
          else if length sig \<noteq> 64 then Inl (SystemExit ''not a 64-byte signature'')
          else Inr sig)"

text \<open>
  \<^verbatim>\<open>re.search(r"#define\s+SHIELD_CTX_ABI_VERSION\s+(\d+)", text)\<close>: the first place that matches, with
  its digits.
\<close>

definition abi_at :: "string \<Rightarrow> string option" where
  "abi_at s =
     (if is_prefix ''#define'' s then
        let a = drop 7 s; b = dropWhile is_space a in
        if a \<noteq> b \<and> is_prefix ''SHIELD_CTX_ABI_VERSION'' b then
          let c = drop 22 b; d = dropWhile is_space c; ds = takeWhile is_digit d in
          if c \<noteq> d \<and> ds \<noteq> [] then Some ds else None
        else None
      else None)"

fun abi_search :: "string \<Rightarrow> string option" where
  "abi_search [] = None"
| "abi_search (c # cs) = (case abi_at (c # cs) of Some ds \<Rightarrow> Some ds | None \<Rightarrow> abi_search cs)"

definition current_ctx_abi :: "string option \<Rightarrow> int result" where
  "current_ctx_abi header =
     (case header of
        None \<Rightarrow> Inl (SystemExit ''cannot read shield_abi.h'')
      | Some text' \<Rightarrow>
          (case abi_search text' of
             None \<Rightarrow> Inl (SystemExit ''no SHIELD_CTX_ABI_VERSION'')
           | Some ds \<Rightarrow> parse_int ds))"

section \<open>Expiry\<close>

text \<open>The calendar of \<^verbatim>\<open>datetime\<close>: validity of a date, and its day number from the year 1.\<close>

definition is_leap :: "int \<Rightarrow> bool" where
  "is_leap y \<longleftrightarrow> y mod 4 = 0 \<and> (y mod 100 \<noteq> 0 \<or> y mod 400 = 0)"

definition days_before_year :: "int \<Rightarrow> int" where
  "days_before_year y = (let y = y - 1 in y * 365 + y div 4 - y div 100 + y div 400)"

definition days_in_month :: "int \<Rightarrow> int \<Rightarrow> int" where
  "days_in_month y m =
     (if m = 2 then (if is_leap y then 29 else 28) else if m \<in> {4, 6, 9, 11} then 30 else 31)"

definition days_before_month :: "int \<Rightarrow> int \<Rightarrow> int" where
  "days_before_month y m =
     [0, 31, 59, 90, 120, 151, 181, 212, 243, 273, 304, 334] ! nat (m - 1) +
     (if m > 2 \<and> is_leap y then 1 else 0)"

definition ymd2ord :: "int \<Rightarrow> int \<Rightarrow> int \<Rightarrow> int" where
  "ymd2ord y m d = days_before_year y + days_before_month y m + d"

definition valid_date :: "int \<Rightarrow> int \<Rightarrow> int \<Rightarrow> bool" where
  "valid_date y m d \<longleftrightarrow> 1 \<le> y \<and> 1 \<le> m \<and> m \<le> 12 \<and> 1 \<le> d \<and> d \<le> days_in_month y m"

definition utc_epoch :: "int \<Rightarrow> int \<Rightarrow> int \<Rightarrow> int \<Rightarrow> int \<Rightarrow> int \<Rightarrow> int result" where
  "utc_epoch y m d hh mm ss =
     (if \<not> valid_date y m d \<or> hh > 23 \<or> mm > 59 \<or> ss > 59
      then Inl (ValueError ''Invalid isoformat string'')
      else Inr ((ymd2ord y m d - ymd2ord 1970 1 1) * 86400 + hh * 3600 + mm * 60 + ss))"

definition digits :: "nat \<Rightarrow> nat \<Rightarrow> string \<Rightarrow> bool" where
  "digits a b s = (length (pyslice a b s) = b - a \<and> list_all is_digit (pyslice a b s))"

definition num :: "nat \<Rightarrow> nat \<Rightarrow> string \<Rightarrow> int" where
  "num a b s = foldl (\<lambda>acc c. acc * 10 + int (digit_val c)) 0 (pyslice a b s)"

definition char_at :: "nat \<Rightarrow> char list \<Rightarrow> string \<Rightarrow> bool" where
  "char_at i cs s = (i < length s \<and> s ! i \<in> set cs)"

text \<open>The pattern of a date with an optional time of day, to minutes or seconds.\<close>

definition date_pattern :: "string \<Rightarrow> bool" where
  "date_pattern x =
     (digits 0 4 x \<and> char_at 4 ''-'' x \<and> digits 5 7 x \<and> char_at 7 ''-'' x \<and> digits 8 10 x \<and>
      (length x = 10 \<or>
       char_at 10 ''T '' x \<and> digits 11 13 x \<and> char_at 13 '':'' x \<and> digits 14 16 x \<and>
       (length x = 16 \<or> char_at 16 '':'' x \<and> digits 17 19 x \<and> length x = 19)))"

definition date_epoch :: "string \<Rightarrow> int result" where
  "date_epoch x =
     (let iso = map (\<lambda>c. if c = CHR '' '' then CHR ''T'' else c) x;
          iso = (if length iso = 10 then iso @ ''T00:00:00''
                 else if length iso = 16 then iso @ '':00'' else iso) in
      utc_epoch (num 0 4 iso) (num 5 7 iso) (num 8 10 iso) (num 11 13 iso) (num 14 16 iso) (num 17 19 iso))"

definition relative_pattern :: "string \<Rightarrow> (string \<times> char) option" where
  "relative_pattern x =
     (case x of
        c # cs \<Rightarrow>
          if c = CHR ''+'' \<and> length cs \<ge> 2 \<and> list_all is_digit (butlast cs) \<and> last cs \<in> set ''dhw''
          then Some (butlast cs, last cs) else None
      | [] \<Rightarrow> None)"

definition unit_seconds :: "char \<Rightarrow> int" where
  "unit_seconds u = (if u = CHR ''h'' then 3600 else if u = CHR ''d'' then 86400 else 604800)"

definition parse_expiry :: "int \<Rightarrow> string \<Rightarrow> int result" where
  "parse_expiry now x =
     (if x \<in> {''never'', ''none'', ''''} then Inr 0xFFFFFFFF
      else ebind
        (case relative_pattern x of
           Some (ds, u) \<Rightarrow> ebind (parse_int ds) (\<lambda>n. Inr (now + n * unit_seconds u))
         | None \<Rightarrow> if date_pattern x then date_epoch x else parse_int0 x)
        (\<lambda>v. if v \<noteq> 0xFFFFFFFF \<and> v \<noteq> 0 \<and> \<not> (1577836800 \<le> v \<and> v \<le> 0xFFFFFFFE)
             then Inl (Rejected ''which is before 2020-01-01'') else Inr v))"

section \<open>The signer\<close>

record sign_args =
  sg_prog :: bytes
  sg_hook :: string
  sg_build_min :: int
  sg_build_max :: int
  sg_mode :: string
  sg_ctx_abi :: "int option"
  sg_expires :: int

definition sign_main :: "(bytes \<Rightarrow> int \<times> bytes) \<Rightarrow> string option \<Rightarrow> sign_args \<Rightarrow> bytes result" where
  "sign_main openssl header a =
     (if take 4 (sg_prog a) \<noteq> [0x7F, 0x45, 0x4C, 0x46] then Inl (SystemExit ''not an ELF object'')
      else ebind (case sg_ctx_abi a of Some v \<Rightarrow> Inr v | None \<Rightarrow> current_ctx_abi header) (\<lambda>abi.
           ebind (case map_of MODES (sg_mode a) of Some m \<Rightarrow> Inr m | None \<Rightarrow> Inl (SystemExit ''invalid choice''))
             (\<lambda>m.
           ebind (build_binding (sg_prog a) (sg_hook a) (sg_build_min a) (sg_build_max a) m abi (sg_expires a))
             (\<lambda>binding. ebind (sign openssl binding) (\<lambda>sig. Inr (binding @ sig))))))"

section \<open>The layout\<close>

definition binding_fields :: "bytes \<Rightarrow> bytes \<Rightarrow> int \<Rightarrow> int \<Rightarrow> int \<Rightarrow> int \<Rightarrow> int \<Rightarrow> bytes" where
  "binding_fields h hb lo hi mode abi ex =
     h @ hb @ replicate (64 - length hb) 0 @ le_bytes 4 lo @ le_bytes 4 hi @
     [word_of_int mode, word_of_int abi, 0, 0] @ le_bytes 4 ex"

definition fits :: "nat \<Rightarrow> int \<Rightarrow> bool" where
  "fits w v \<longleftrightarrow> 0 \<le> v \<and> v < 2 ^ w"

lemma put_append: "length xs = off \<Longrightarrow> length ys \<le> length zs \<Longrightarrow>
    put off ys (xs @ zs) = xs @ ys @ drop (length ys) zs"
  by (simp add: put_def)

lemma build_binding_iff:
  "build_binding prog hook lo hi mode abi ex = Inr b \<longleftrightarrow>
     length (encode_utf8 hook) < 64 \<and> fits 32 lo \<and> fits 32 hi \<and> fits 8 mode \<and> fits 8 abi \<and> fits 32 ex \<and>
     b = binding_fields (sha256 prog) (encode_utf8 hook) lo hi mode abi ex"
proof -
  let ?h = "sha256 prog" and ?b = "encode_utf8 hook"
  define pre where "pre = ?h @ ?b @ replicate (64 - length ?b) 0"
  have len: "length pre = 96" if "length ?b < 64" using that by (simp add: pre_def)
  have 1: "put 32 ?b (put 0 ?h (replicate BINDING_LEN 0)) = pre @ replicate 16 0" if "length ?b < 64"
    using that by (simp add: put_def BINDING_LEN_def pre_def flip: replicate_add)
  have 2: "put 96 l (pre @ replicate 16 0) = pre @ l @ replicate 12 0" if "length ?b < 64" "length l = 4" for l
    using that len by (simp add: put_append)
  have 3: "put 100 u (pre @ l @ replicate 12 0) = pre @ l @ u @ replicate 8 0"
    if "length ?b < 64" "length l = 4" "length u = 4" for l u
    using that len put_append [of "pre @ l" 100 u "replicate 12 0"] by simp
  have 4: "(pre @ l @ u @ replicate 8 0)[104 := x, 105 := y] = pre @ l @ u @ [x, y] @ replicate 6 0"
    if "length ?b < 64" "length l = 4" "length u = 4" for l u and x y :: byte
    using that len by (simp add: list_update_append numeral_eq_Suc)
  have 5: "put 108 e (pre @ l @ u @ [x, y] @ replicate 6 0) = pre @ l @ u @ [x, y, 0, 0] @ e"
    if "length ?b < 64" "length l = 4" "length u = 4" "length e = 4" for l u e and x y :: byte
    using that len put_append [of "pre @ l @ u @ [x, y, 0, 0]" 108 e "replicate 4 0"]
    by (simp add: numeral_eq_Suc)
  show ?thesis
    using 1 2 3 4 5 len
    by (auto simp: build_binding_def Let_def HOOK_MAX_def pack_u32_def set_byte_def fits_def
        binding_fields_def pre_def [symmetric])
qed

definition code_units :: "nat \<Rightarrow> nat list" where
  "code_units n = (if n < 128 then [n] else [192 + n div 64, 128 + n mod 64])"

lemma encode_char_units: "encode_char c = map word_of_nat (code_units (of_char c))"
  by (simp add: encode_char_def code_units_def Let_def)

lemma code_units_bound: "n < 256 \<Longrightarrow> x \<in> set (code_units n) \<Longrightarrow> x < 256"
  using mod_less_divisor [of 64 n] by (auto simp: code_units_def less_mult_imp_div_less split: if_splits)

lemma code_units_append:
  assumes "m < 256" "n < 256" "code_units m @ xs = code_units n @ ys"
  shows "m = n"
proof (cases "m < 128"; cases "n < 128")
  assume "\<not> m < 128" "\<not> n < 128"
  then have "m div 64 = n div 64" "m mod 64 = n mod 64" using assms(3) by (simp_all add: code_units_def)
  then show ?thesis by (metis div_mult_mod_eq)
qed (use assms in \<open>simp_all add: code_units_def\<close>)

lemma unat_byte_of_nat: "n < 256 \<Longrightarrow> unat (word_of_nat n :: byte) = n"
  by (simp add: unat_of_nat)

lemma encode_char_append: "encode_char c @ xs = encode_char d @ ys \<Longrightarrow> c = d \<and> xs = ys"
proof -
  assume eq: "encode_char c @ xs = encode_char d @ ys"
  have u: "map unat (encode_char x) = code_units (of_char x)" for x
    unfolding encode_char_units map_map
    by (rule map_idI) (simp add: unat_byte_of_nat code_units_bound [OF nat_of_char_less_256])
  have "code_units (of_char c) @ map unat xs = code_units (of_char d) @ map unat ys"
    using arg_cong [OF eq, of "map unat"] by (simp add: u)
  then have cd: "c = d" using code_units_append [OF nat_of_char_less_256 nat_of_char_less_256] of_char_eq_iff by blast
  with eq show ?thesis by simp
qed

lemma encode_char_nonempty [simp]: "encode_char c \<noteq> []"
  by (simp add: encode_char_def Let_def)

lemma encode_utf8_inj: "encode_utf8 s = encode_utf8 t \<Longrightarrow> s = t"
proof (induction s arbitrary: t)
  case Nil
  then show ?case by (cases t) (auto simp: encode_utf8_def)
next
  case (Cons c s)
  then obtain d t' where t: "t = d # t'" by (cases t) (auto simp: encode_utf8_def)
  then have "encode_char c @ encode_utf8 s = encode_char d @ encode_utf8 t'"
    using Cons.prems by (simp add: encode_utf8_def)
  with encode_char_append Cons.IH t show ?case by blast
qed

text \<open>A hook name without a NUL character encodes to bytes without a zero, so the padded field determines it.\<close>

lemma encode_char_no_zero:
  assumes "0 \<in> set (encode_char c)"
  shows "c = CHR 0x00"
proof -
  from assms obtain x where x: "x \<in> set (code_units (of_char c))" "(word_of_nat x :: byte) = 0"
    by (auto simp: encode_char_units)
  have "x = 0" using unat_byte_of_nat [OF code_units_bound [OF nat_of_char_less_256 x(1)]] x(2) by simp
  with x(1) have "(of_char c :: nat) = of_char (CHR 0x00)" by (auto simp: code_units_def split: if_splits)
  then show ?thesis by (simp only: of_char_eq_iff)
qed

lemma encode_utf8_no_zero: "CHR 0x00 \<notin> set s \<Longrightarrow> 0 \<notin> set (encode_utf8 s)"
proof (induction s)
  case (Cons c s)
  then have "c \<noteq> CHR 0x00" "0 \<notin> set (encode_utf8 s)" by auto
  moreover have "0 \<notin> set (encode_char c)" using encode_char_no_zero calculation(1) by metis
  ultimately show ?case by (simp add: encode_utf8_def)
qed (simp add: encode_utf8_def)

lemma takeWhile_padded: "0 \<notin> set xs \<Longrightarrow> takeWhile (\<lambda>x. x \<noteq> 0) (xs @ replicate k 0) = xs"
  by (induction xs; cases k) auto

lemma padded_inj: "xs @ replicate k 0 = ys @ replicate l 0 \<Longrightarrow> 0 \<notin> set xs \<Longrightarrow> 0 \<notin> set ys \<Longrightarrow> xs = ys"
  using takeWhile_padded [of xs k] takeWhile_padded [of ys l] by simp

section \<open>The calendar\<close>

definition next_day :: "int \<Rightarrow> int \<Rightarrow> int \<Rightarrow> int \<times> int \<times> int" where
  "next_day y m d =
     (if d < days_in_month y m then (y, m, d + 1) else if m < 12 then (y, m + 1, 1) else (y + 1, 1, 1))"

lemma pred_div: "0 < k \<Longrightarrow> (y - 1) div k = y div k - (if y mod k = 0 then 1 else 0)" for k y :: int
proof -
  assume k: "0 < k"
  have y: "y = k * (y div k) + y mod k" by simp
  show ?thesis
  proof (cases "y mod k = 0")
    case True
    have "(y - 1) div k = y div k - 1"
      by (rule int_div_pos_eq [where r = "k - 1"]) (use k y True in \<open>auto simp: algebra_simps\<close>)
    with True show ?thesis by simp
  next
    case False
    have "0 \<le> y mod k" "y mod k < k" using k by simp_all
    then have "(y - 1) div k = y div k"
      using False y by (intro int_div_pos_eq [where r = "y mod k - 1"]) auto
    with False show ?thesis by simp
  qed
qed

lemma year_length: "days_before_year (y + 1) = days_before_year y + (if is_leap y then 366 else 365)"
proof -
  note q = pred_div [of 4 y] pred_div [of 100 y] pred_div [of 400 y]
  have "400 dvd y \<Longrightarrow> 100 dvd y" "100 dvd y \<Longrightarrow> 4 dvd y"
    using dvd_trans [of 100 400 y] dvd_trans [of 4 100 y] by simp_all
  then show ?thesis
    by (cases "4 dvd y"; cases "100 dvd y"; cases "400 dvd y")
       (simp_all add: days_before_year_def is_leap_def q mod_eq_0_iff_dvd)
qed

lemma month_length:
  assumes "1 \<le> m" "m < 12"
  shows "days_before_month y (m + 1) = days_before_month y m + days_in_month y m"
proof -
  have "m \<in> {1, 2, 3, 4, 5, 6, 7, 8, 9, 10, 11}" using assms unfolding insert_iff empty_iff by presburger
  then show ?thesis by (auto simp: days_before_month_def days_in_month_def)
qed

lemma december: "days_before_month y 12 + 31 = (if is_leap y then 366 else 365)"
  by (simp add: days_before_month_def)

lemma ymd2ord_next:
  assumes "valid_date y m d" "next_day y m d = (y', m', d')"
  shows "valid_date y' m' d' \<and> ymd2ord y' m' d' = ymd2ord y m d + 1"
proof -
  have v: "1 \<le> y" "1 \<le> m" "m \<le> 12" "1 \<le> d" "d \<le> days_in_month y m" using assms(1) by (auto simp: valid_date_def)
  consider "d < days_in_month y m" | "d = days_in_month y m" "m < 12" | "d = days_in_month y m" "m = 12"
    using v by linarith
  then show ?thesis
  proof cases
    case 1
    then show ?thesis using assms(2) v by (auto simp: next_day_def ymd2ord_def valid_date_def)
  next
    case 2
    then have "y' = y" "m' = m + 1" "d' = 1" using assms(2) by (auto simp: next_day_def)
    moreover have "1 \<le> days_in_month y (m + 1)" by (simp add: days_in_month_def)
    ultimately show ?thesis using 2 v month_length [of m y] by (simp add: ymd2ord_def valid_date_def)
  next
    case 3
    then have "y' = y + 1" "m' = 1" "d' = 1" using assms(2) by (auto simp: next_day_def)
    moreover have "d = 31" "days_before_month y' 1 = 0" using 3 by (auto simp: days_in_month_def days_before_month_def)
    ultimately show ?thesis using 3 v year_length [of y] december [of y]
      by (simp add: ymd2ord_def valid_date_def days_in_month_def)
  qed
qed

lemma le_bytes_inj: "fits (8 * n) v \<Longrightarrow> fits (8 * n) w \<Longrightarrow> le_bytes n v = le_bytes n w \<Longrightarrow> v = w"
proof -
  assume "fits (8 * n) v" "fits (8 * n) w" and eq: "le_bytes n v = le_bytes n w"
  then have "0 \<le> v" "v < 256 ^ n" "0 \<le> w" "w < 256 ^ n" by (simp_all add: fits_def power_mult)
  with eq show "v = w" by (metis le_int_le_bytes)
qed

lemma byte_of_int_inj: "fits 8 v \<Longrightarrow> fits 8 w \<Longrightarrow> (word_of_int v :: byte) = word_of_int w \<Longrightarrow> v = w"
  using le_bytes_inj [of 1 v w] by simp

lemma six_fields_inj:
  assumes "h @ n @ l @ u @ [m, a, 0, 0] @ e = h' @ n' @ l' @ u' @ [m', a', 0, 0] @ e'"
    and "length h = length h'" "length n = length n'" "length l = length l'" "length u = length u'"
  shows "h = h' \<and> n = n' \<and> l = l' \<and> u = u' \<and> m = m' \<and> a = a' \<and> e = e'"
  using assms by (simp add: append_eq_append_conv)

section \<open>Properties\<close>

text \<open>
C30. What a signature commits to: a binding is 112 bytes, and two calls that produce the same binding
agree on the program's SHA-256, the hook, the build range, the mode ceiling, the context ABI and the
expiry. So a signature made for one of them cannot be shown as one for another. Hook names hold no NUL
character, which a command line cannot pass.
\<close>

theorem binding_commits:
  assumes "build_binding prog hook lo hi mode abi ex = Inr b"
    and "build_binding prog' hook' lo' hi' mode' abi' ex' = Inr b"
    and "CHR 0x00 \<notin> set hook" "CHR 0x00 \<notin> set hook'"
  shows "length b = 112 \<and> take 32 b = sha256 prog \<and>
    (sha256 prog, hook, lo, hi, mode, abi, ex) = (sha256 prog', hook', lo', hi', mode', abi', ex')"
proof -
  let ?e = "encode_utf8 hook" and ?e' = "encode_utf8 hook'"
  have f: "length ?e < 64" "fits 32 lo" "fits 32 hi" "fits 8 mode" "fits 8 abi" "fits 32 ex"
    and b: "b = binding_fields (sha256 prog) ?e lo hi mode abi ex"
    using assms(1) by (auto simp: build_binding_iff)
  have f': "length ?e' < 64" "fits 32 lo'" "fits 32 hi'" "fits 8 mode'" "fits 8 abi'" "fits 32 ex'"
    and b': "b = binding_fields (sha256 prog') ?e' lo' hi' mode' abi' ex'"
    using assms(2) by (auto simp: build_binding_iff)
  have len: "length (?e @ replicate (64 - length ?e) (0 :: byte)) = length (?e' @ replicate (64 - length ?e') (0 :: byte))"
    using f(1) f'(1) by simp
  have eq: "sha256 prog = sha256 prog'" "?e @ replicate (64 - length ?e) 0 = ?e' @ replicate (64 - length ?e') 0"
    "le_bytes 4 lo = le_bytes 4 lo'" "le_bytes 4 hi = le_bytes 4 hi'" "le_bytes 4 ex = le_bytes 4 ex'"
    "(word_of_int mode :: byte) = word_of_int mode'" "(word_of_int abi :: byte) = word_of_int abi'"
    using six_fields_inj [of "sha256 prog" "?e @ replicate (64 - length ?e) 0" "le_bytes 4 lo" "le_bytes 4 hi"
        "word_of_int mode" "word_of_int abi" "le_bytes 4 ex"
        "sha256 prog'" "?e' @ replicate (64 - length ?e') 0" "le_bytes 4 lo'" "le_bytes 4 hi'"
        "word_of_int mode'" "word_of_int abi'" "le_bytes 4 ex'"] b' [unfolded b binding_fields_def] len
    by simp_all
  have "?e = ?e'" using padded_inj [OF eq(2)] encode_utf8_no_zero assms(3,4) by blast
  then have "hook = hook'" by (rule encode_utf8_inj)
  moreover have "lo = lo'" "hi = hi'" "ex = ex'"
    using le_bytes_inj [of 4] f f' eq(3-5) by simp_all
  moreover have "mode = mode'" "abi = abi'" using byte_of_int_inj f f' eq(6,7) by blast+
  moreover have "length b = 112" "take 32 b = sha256 prog" using f(1) by (simp_all add: b binding_fields_def)
  ultimately show ?thesis using eq(1) by simp
qed

lemma sample_binding:
  "build_binding [] ''rst_why'' 0 255 1 3 0 = Inr (binding_fields (sha256 []) (encode_utf8 ''rst_why'') 0 255 1 3 0)"
  by (simp add: build_binding_iff fits_def encode_utf8_def encode_char_def)

theorem binding_commits_witness:
  "length (binding_fields (sha256 []) (encode_utf8 ''rst_why'') 0 255 1 3 0) = 112"
  using binding_commits [OF sample_binding sample_binding] by simp

text \<open>
The expiry field. Every accepted expiry fits the 32-bit field, and is either one of the two values
that mean "never" or a second between 2020-01-01 and the last one before the reserved value; a relative
expiry adds its offset to the clock. A calendar date is priced by counting days: midnight of 1970-01-01
is second zero, and the following day of a valid date is 86400 seconds later.
\<close>

theorem expiry_exact:
  "(parse_expiry now x = Inr v \<longrightarrow> fits 32 v \<and> (v \<in> {0, 0xFFFFFFFF} \<or> 1577836800 \<le> v \<and> v < 0xFFFFFFFF)) \<and>
   (relative_pattern x = Some (ds, u) \<and> parse_expiry now x = Inr v \<longrightarrow>
      (\<exists>n. parse_int ds = Inr n \<and> v = now + n * unit_seconds u)) \<and>
   utc_epoch 1970 1 1 0 0 0 = Inr 0 \<and>
   (valid_date y m d \<and> next_day y m d = (y', m', d') \<longrightarrow>
      (\<exists>t. utc_epoch y m d 0 0 0 = Inr t \<and> utc_epoch y' m' d' 0 0 0 = Inr (t + 86400)))"
proof -
  have never: "x \<notin> {''never'', ''none'', ''''}" if "relative_pattern x = Some (ds, u)"
    using that by (auto simp: relative_pattern_def)
  have "parse_expiry now x = Inr v \<longrightarrow> fits 32 v \<and> (v \<in> {0, 0xFFFFFFFF} \<or> 1577836800 \<le> v \<and> v < 0xFFFFFFFF)"
    by (auto simp: parse_expiry_def fits_def err_simps split: if_splits)
  moreover have "relative_pattern x = Some (ds, u) \<and> parse_expiry now x = Inr v \<longrightarrow>
      (\<exists>n. parse_int ds = Inr n \<and> v = now + n * unit_seconds u)"
    using never by (auto simp: parse_expiry_def err_simps split: if_splits)
  moreover have "utc_epoch 1970 1 1 0 0 0 = Inr 0" by code_simp
  moreover have "valid_date y m d \<and> next_day y m d = (y', m', d') \<longrightarrow>
      (\<exists>t. utc_epoch y m d 0 0 0 = Inr t \<and> utc_epoch y' m' d' 0 0 0 = Inr (t + 86400))"
    using ymd2ord_next [of y m d y' m' d'] by (auto simp: utc_epoch_def)
  ultimately show ?thesis by blast
qed

theorem expiry_exact_witness:
  "fits 32 3456001000 \<and>
   (\<exists>t. utc_epoch 2024 2 29 0 0 0 = Inr t \<and> utc_epoch 2024 3 1 0 0 0 = Inr (t + 86400))"
proof
  have "parse_expiry 1000 ''+40000d'' = Inr 3456001000" by code_simp
  then show "fits 32 3456001000" using expiry_exact by blast
next
  have "valid_date 2024 2 29 \<and> next_day 2024 2 29 = (2024, 3, 1)" by code_simp
  then show "\<exists>t. utc_epoch 2024 2 29 0 0 0 = Inr t \<and> utc_epoch 2024 3 1 0 0 0 = Inr (t + 86400)"
    using expiry_exact by blast
qed

text \<open>
A date can be signed as "never": the refusal of deadlines before 2020 lets second zero through, so
\<^verbatim>\<open>1970-01-01\<close> is accepted and means that the program never expires, as does the last second of the
field, while a deadline beyond the field is refused with the text for one before 2020.
\<close>

theorem expiry_epoch_means_never:
  "parse_expiry now ''1970-01-01'' = Inr 0 \<and>
   parse_expiry now ''2106-02-07T06:28:15'' = parse_expiry now ''never'' \<and>
   parse_expiry now ''2106-02-08'' = Inl (Rejected ''which is before 2020-01-01'') \<and>
   parse_expiry now ''2019-12-31'' = Inl (Rejected ''which is before 2020-01-01'')"
proof -
  have r: "relative_pattern s = None" if "hd s \<noteq> CHR ''+''" for s
    using that by (cases s) (auto simp: relative_pattern_def)
  have "date_pattern ''1970-01-01''" "date_pattern ''2106-02-07T06:28:15''" "date_pattern ''2106-02-08''"
    "date_pattern ''2019-12-31''" by code_simp+
  moreover have "date_epoch ''1970-01-01'' = Inr 0" "date_epoch ''2106-02-07T06:28:15'' = Inr 0xFFFFFFFF"
    "date_epoch ''2106-02-08'' = Inr 4295030400" "date_epoch ''2019-12-31'' = Inr 1577750400" by code_simp+
  ultimately show ?thesis by (simp add: parse_expiry_def r)
qed

text \<open>
The signed artifact: whatever the signer writes is a binding of 112 bytes for the given program, hook
and limits, followed by the 64 bytes the signing tool returned for exactly those 112 bytes.
\<close>

theorem signed_artifact:
  assumes "sign_main openssl header a = Inr out"
  shows "length out = 176 \<and> openssl (take 112 out) = (0, drop 112 out) \<and>
    (\<exists>m abi. map_of MODES (sg_mode a) = Some m \<and>
       (case sg_ctx_abi a of Some v \<Rightarrow> abi = v | None \<Rightarrow> current_ctx_abi header = Inr abi) \<and>
       build_binding (sg_prog a) (sg_hook a) (sg_build_min a) (sg_build_max a) m abi (sg_expires a) =
         Inr (take 112 out))"
proof -
  obtain abi m b sig where
    abi: "(case sg_ctx_abi a of Some v \<Rightarrow> Inr v | None \<Rightarrow> current_ctx_abi header) = Inr abi"
    and m: "map_of MODES (sg_mode a) = Some m"
    and b: "build_binding (sg_prog a) (sg_hook a) (sg_build_min a) (sg_build_max a) m abi (sg_expires a) = Inr b"
    and sig: "sign openssl b = Inr sig" "out = b @ sig"
    using assms by (auto simp: sign_main_def err_simps split: if_splits option.splits)
  have lb: "length b = 112" using b by (auto simp: build_binding_iff binding_fields_def)
  have s: "openssl b = (0, sig)" "length sig = 64"
    using sig(1) by (auto simp: sign_def split: prod.splits if_splits)
  have abi': "case sg_ctx_abi a of Some v \<Rightarrow> abi = v | None \<Rightarrow> current_ctx_abi header = Inr abi"
    using abi by (auto split: option.splits)
  show ?thesis using m b s lb sig(2) abi' by auto
qed

theorem signed_artifact_witness:
  "length (binding_fields (sha256 [0x7F, 0x45, 0x4C, 0x46]) (encode_utf8 ''f'') 0 1 1 3 0 @ replicate 64 (7 :: byte)) = 176"
proof -
  have "sign_main (\<lambda>_. (0, replicate 64 7)) None
      \<lparr>sg_prog = [0x7F, 0x45, 0x4C, 0x46], sg_hook = ''f'', sg_build_min = 0, sg_build_max = 1,
       sg_mode = ''monitor'', sg_ctx_abi = Some 3, sg_expires = 0\<rparr> =
    Inr (binding_fields (sha256 [0x7F, 0x45, 0x4C, 0x46]) (encode_utf8 ''f'') 0 1 1 3 0 @ replicate 64 7)"
    by (simp add: sign_main_def MODES_def build_binding_iff [THEN iffD2] fits_def encode_utf8_def encode_char_def sign_def)
  from signed_artifact [OF this] show ?thesis by blast
qed

end
