(* ===== verification/Loader_Cli.thy ===== *)
theory Loader_Cli
  imports Loader_Wire Sign_Shield "HOL-Library.Char_ord" "HOL-Library.List_Lexorder"
begin

text \<open>
  The command line of \<^verbatim>\<open>env/scripts/ls-load.py\<close>. Its surroundings are the record \<open>loader_env\<close>: the
  readable files, the environment variables, the directories, the process table with each process's
  executable (\<open>None\<close> where the link cannot be read), the chunks the loader answers to a payload
  (\<open>None\<close> where the socket cannot be reached; a chunk that is \<open>None\<close> is a timeout), and \<^verbatim>\<open>json.loads\<close>
  with its exceptions (\<^verbatim>\<open>ValueError\<close>, or \<^verbatim>\<open>RecursionError\<close> for a deep document), whose objects are the pairs of the text in order. A run returns the payload it sent and the reply.
  Replies are read as ASCII.
\<close>

record loader_env =
  le_file :: "string \<rightharpoonup> bytes"
  le_environ :: "string \<rightharpoonup> string"
  le_exists :: "string \<Rightarrow> bool"
  le_listdir :: "string \<rightharpoonup> string list"
  le_proc :: "(string \<times> string option) list"
  le_mem :: "string \<Rightarrow> int \<Rightarrow> nat \<Rightarrow> bytes option"
  le_recv :: "string \<Rightarrow> bytes \<Rightarrow> bytes option list option"
  le_json :: "utext \<Rightarrow> jval result"

section \<open>Paths\<close>

definition basename :: "string \<Rightarrow> string" where
  "basename p = rev (takeWhile (\<lambda>c. c \<noteq> CHR ''/'') (rev p))"

definition dirname :: "string \<Rightarrow> string" where
  "dirname p =
     (let head = rev (dropWhile (\<lambda>c. c \<noteq> CHR ''/'') (rev p)) in
      if list_all (\<lambda>c. c = CHR ''/'') head then head
      else rev (dropWhile (\<lambda>c. c = CHR ''/'') (rev head)))"

definition path_join :: "string \<Rightarrow> string \<Rightarrow> string" where
  "path_join d f =
     (if is_prefix ''/'' f then f
      else if d = [] \<or> ends_with ''/'' d then d @ f
      else d @ ''/'' @ f)"

definition resolve_sock :: "loader_env \<Rightarrow> string result" where
  "resolve_sock env =
     (let base = (case le_environ env ''LS_LOAD_SOCKET'' of None \<Rightarrow> ''/tmp/ls_load.sock'' | Some v \<Rightarrow> v) in
      if le_exists env base then Inr base
      else
        let d = (if dirname base = [] then ''.'' else dirname base); name = basename base in
        case le_listdir env d of
          None \<Rightarrow> Inl (Rejected ''OSError'')
        | Some fs \<Rightarrow>
            let found = sort (map (path_join d) (filter (\<lambda>f. is_prefix (name @ ''.'') f) fs));
                pick = (case le_environ env ''LS_SOCK_PICK'' of None \<Rightarrow> [] | Some v \<Rightarrow> v) in
            if found = [] then Inl (SystemExit ''no loader socket'')
            else if length found > 1 \<and> pick = [] then Inl (SystemExit ''several loaders listening'')
            else Inr (hd found))"

section \<open>One request\<close>

fun recv_all :: "bytes option list \<Rightarrow> string \<Rightarrow> string" where
  "recv_all [] out = out"
| "recv_all (None # rest) out = out @ [CHR 0x0A] @ ''<timed out waiting for a reply>''"
| "recv_all (Some chunk # rest) out =
     (if chunk = [] then out else recv_all rest (out @ map (\<lambda>b. char_of (unat b)) chunk))"

definition send :: "loader_env \<Rightarrow> bytes \<Rightarrow> string result" where
  "send env payload =
     ebind (resolve_sock env) (\<lambda>path.
       case le_recv env path payload of
         None \<Rightarrow> Inl (SystemExit ''cannot reach the loader'')
       | Some chunks \<Rightarrow> Inr (rstrip (recv_all chunks [])))"

definition config_send :: "loader_env \<Rightarrow> bytes \<Rightarrow> string result" where
  "config_send env payload =
     ebind (send env payload) (\<lambda>r.
       if \<not> is_prefix ''OK config '' r \<or> CHR 0x0A \<in> set r
       then Inl (ValueError (if r = [] then ''empty configuration response; outcome unknown'' else r))
       else Inr r)"

section \<open>The hook index\<close>

definition is_digit_str :: "string \<Rightarrow> bool" where
  "is_digit_str s = (s \<noteq> [] \<and> list_all (\<lambda>c. is_digit c \<or> (of_char c :: nat) \<in> {178, 179, 185}) s)"

definition running_binary :: "loader_env \<Rightarrow> string option" where
  "running_binary env =
     (case find (\<lambda>(d, exe). is_digit_str d \<and> (case exe of None \<Rightarrow> False | Some x \<Rightarrow> is_prefix ''tmm'' (basename x)))
        (le_proc env) of
        None \<Rightarrow> None | Some (d, exe) \<Rightarrow> exe)"

definition tmm_pid :: "loader_env \<Rightarrow> string option" where
  "tmm_pid env =
     map_option fst (find (\<lambda>(d, exe). is_digit_str d \<and> (case exe of None \<Rightarrow> False | Some x \<Rightarrow> is_prefix ''tmm'' (basename x)))
        (le_proc env))"

definition entry_bytes :: "loader_env \<Rightarrow> string \<Rightarrow> nat \<Rightarrow> bytes option" where
  "entry_bytes env addr n =
     (case tmm_pid env of
        None \<Rightarrow> None
      | Some pid \<Rightarrow>
          (case parse_hex addr of
             Inl _ \<Rightarrow> None
           | Inr a \<Rightarrow>
               (case le_mem env pid a n of
                  None \<Rightarrow> None
                | Some b \<Rightarrow> if length b = n then Some b else None)))"

type_synonym index = "(string \<times> string) list \<times> (string \<times> (string \<times> string \<times> string) list) list"

definition add_entry ::
  "(string \<times> (string \<times> string \<times> string) list) list \<Rightarrow> string \<Rightarrow> string \<times> string \<times> string \<Rightarrow>
     (string \<times> (string \<times> string \<times> string) list) list"
where
  "add_entry syms name e =
     AList.update name ((case map_of syms name of None \<Rightarrow> [] | Some l \<Rightarrow> l) @ [e]) syms"

definition index_line :: "index \<Rightarrow> string \<Rightarrow> index" where
  "index_line ix line =
     (case ix of (meta, syms) \<Rightarrow>
        if line = [] then (meta, syms)
        else if is_prefix ''#'' line then
          (let p = split_on (CHR 0x09) (drop 1 line) in
           if length p \<ge> 2 \<and> p ! 0 \<noteq> ''name'' then (AList.update (p ! 0) (p ! 1) meta, syms) else (meta, syms))
        else
          (let p = split_on (CHR 0x09) line in
           if length p \<ge> 3 then (meta, add_entry syms (p ! 0) (p ! 1, p ! 2, if length p > 3 then p ! 3 else ''-''))
           else (meta, syms)))"

definition read_index :: "string \<Rightarrow> index" where
  "read_index txt' = foldl index_line ([], []) (split_on (CHR 0x0A) (universal_newlines txt'))"

definition resolve_hook :: "loader_env \<Rightarrow> string \<Rightarrow> (string \<rightharpoonup> string) \<Rightarrow> string \<Rightarrow> string result" where
  "resolve_hook env hook_index texts spec =
     (if is_prefix ''0x'' spec \<or> is_prefix ''0X'' spec then
        (case parse_hex spec of Inl _ \<Rightarrow> Inl (SystemExit ''not a hex address and not a symbol name'') | Inr _ \<Rightarrow> Inr spec)
      else
        case texts hook_index of
          None \<Rightarrow> Inl (SystemExit ''no hook index'')
        | Some t \<Rightarrow>
            let (meta, syms) = read_index t in
            (case running_binary env of
               None \<Rightarrow> Inl (SystemExit ''cannot find the running tmm binary'')
             | Some exe \<Rightarrow>
                 (case le_file env exe of
                    None \<Rightarrow> Inl (Rejected ''OSError'')
                  | Some blob \<Rightarrow>
                      ebind (elf_build_id blob) (\<lambda>live.
                        case live of
                          None \<Rightarrow> Inl (SystemExit ''the running binary carries no GNU build id'')
                        | Some l \<Rightarrow>
                            (case map_of meta ''build_id'' of
                               None \<Rightarrow> Inl (SystemExit ''the index has no build_id header'')
                             | Some want \<Rightarrow>
                                 if l \<noteq> want then Inl (SystemExit ''BUILD ID MISMATCH'')
                                 else
                                   (case map_of syms spec of
                                      None \<Rightarrow> Inl (SystemExit ''not in the index'')
                                    | Some cands \<Rightarrow>
                                        if length cands > 1 then Inl (SystemExit ''AMBIGUOUS'')
                                        else Inr (fst (hd cands))))))))"

section \<open>Arguments\<close>

definition PROGRAM_OPS :: "(string \<times> int) list" where
  "PROGRAM_OPS =
     [(''program-load'', 0x2001), (''program-attach'', 0x2002), (''program-detach'', 0x2003),
      (''program-mode'', 0x2004), (''program-revoke'', 0x2005), (''program-status'', 0x2006)]"

definition ARGS :: "(string \<times> nat \<times> nat) list" where
  "ARGS =
     [(''program-load'', 3, 3), (''program-status'', 1, 1), (''program-attach'', 3, 3),
      (''program-detach'', 3, 3), (''program-mode'', 3, 3), (''program-revoke'', 2, 2),
      (''arm'', 1, 2), (''disarm'', 1, 1), (''load'', 2, 4), (''load-signed'', 3, 4),
      (''status'', 1, 1), (''config-status'', 1, 1), (''config-publish'', 2, 2),
      (''samples'', 1, 1), (''mode'', 2, 2), (''revoke'', 1, 1), (''bench'', 1, 3)]"

definition SLOT_FIRST :: "string list" where
  "SLOT_FIRST = [''arm'', ''load'', ''status'', ''mode'', ''revoke'', ''config-status'', ''config-publish'']"

definition check_args :: "string \<Rightarrow> string list \<Rightarrow> unit result" where
  "check_args cmd rest =
     (case map_of ARGS cmd of
        None \<Rightarrow> Inl (SystemExit ''unknown command'')
      | Some (lo, hi) \<Rightarrow>
          if length rest < lo \<or> length rest > hi then Inl (SystemExit ''usage: argument count'')
          else if cmd = ''disarm'' \<and> is_digit_str (rest ! 0) then Inl (SystemExit ''disarm takes the FUNCTION NAME'')
          else if cmd \<in> set SLOT_FIRST \<and> (case parse_int (rest ! 0) of Inl _ \<Rightarrow> True | Inr _ \<Rightarrow> False)
               then Inl (SystemExit ''expects a SLOT NUMBER first'')
          else Inr ())"

section \<open>Commands\<close>

text \<open>\<^verbatim>\<open>except (OSError, ValueError) as exc: sys.exit(...)\<close>.\<close>

fun exit_on_error :: "'a result \<Rightarrow> 'a result" where
  "exit_on_error (Inl (ValueError m)) = Inl (SystemExit m)"
| "exit_on_error (Inl (Rejected m)) = Inl (SystemExit m)"
| "exit_on_error r = r"

definition program_name :: bytes where
  "program_name = map (\<lambda>c. word_of_nat (of_char c)) ''@program-v1''"

definition program_load :: "loader_env \<Rightarrow> string list \<Rightarrow> (bytes \<times> bytes option \<times> bytes option \<times> int) result" where
  "program_load env rest =
     ebind (read_program (le_file env) (rest ! 1)) (\<lambda>body.
     ebind (read_signature (le_file env) (rest ! 1) (Some (rest ! 2))) (\<lambda>(bd, sg).
       if takeWhile (\<lambda>b. b \<noteq> 0) (pyslice 32 96 bd) \<noteq> program_name
       then Inl (ValueError ''program signature must bind @program-v1'')
       else Inr (body, Some bd, Some sg, 0)))"

definition program_control :: "string \<Rightarrow> string list \<Rightarrow> (bytes \<times> bytes option \<times> bytes option \<times> int) result" where
  "program_control cmd rest =
     ebind (parse_int0 (rest ! 1)) (\<lambda>inst.
       if \<not> (0 < inst \<and> inst \<le> 0xFFFFFFFFFFFFFFFF) then Inl (ValueError ''invalid program instance'')
       else
         ebind
           (if cmd \<in> {''program-attach'', ''program-detach''} then
              ebind (parse_int (rest ! 2)) (\<lambda>e.
                if 0 \<le> e \<and> e < 12 then Inr (e, 0) else Inl (ValueError ''entry index must be 0..11''))
            else if cmd = ''program-mode'' then
              ebind (parse_int (rest ! 2)) (\<lambda>m.
                if m \<in> {0, 1, 2} then Inr (0, m) else Inl (ValueError ''program mode must be 0, 1 or 2''))
            else Inr (0, 0))
           (\<lambda>(entry, mode). Inr (le_bytes 8 inst @ le_bytes 4 entry @ le_bytes 4 0, None, None, mode)))"

definition program_parts :: "loader_env \<Rightarrow> string \<Rightarrow> string list \<Rightarrow> (bytes \<times> bytes option \<times> bytes option \<times> int) result" where
  "program_parts env cmd rest =
     (if cmd = ''program-load'' then program_load env rest
      else if cmd = ''program-status'' then Inr ([], None, None, 0)
      else program_control cmd rest)"

definition program_request :: "loader_env \<Rightarrow> string \<Rightarrow> string list \<Rightarrow> bytes result" where
  "program_request env cmd rest =
     ebind (parse_int (rest ! 0)) (\<lambda>program.
       if \<not> (0 \<le> program \<and> program < 8) then Inl (ValueError ''program index must be 0..7'')
       else
         ebind (program_parts env cmd rest) (\<lambda>(body, bd, sg, mode). msg (the (map_of PROGRAM_OPS cmd)) program mode [] body None bd sg))"

definition program_cmd :: "loader_env \<Rightarrow> string \<Rightarrow> string list \<Rightarrow> (bytes \<times> string) result" where
  "program_cmd env cmd rest =
     exit_on_error
       (ebind (program_request env cmd rest) (\<lambda>m.
        ebind (send env m) (\<lambda>r.
          if \<not> is_prefix ''OK program='' r \<or> CHR 0x0A \<in> set r
          then Inl (ValueError (if r = [] then ''empty response; outcome unknown'' else r))
          else Inr (m, r))))"

text \<open>The hook is called for every object of the document, inner objects first.\<close>

fun unique_val :: "jval \<Rightarrow> jval result"
  and unique_vals :: "jval list \<Rightarrow> jval list result"
  and unique_pairs :: "(string \<times> jval) list \<Rightarrow> (string \<times> jval) list result"
where
  "unique_val (JArr xs) = ebind (unique_vals xs) (\<lambda>ys. Inr (JArr ys))"
| "unique_val (JObj ps) = ebind (unique_pairs ps) (\<lambda>qs. ebind (unique_config_fields [] qs) (\<lambda>d. Inr (JObj d)))"
| "unique_val JNull = Inr JNull"
| "unique_val (JBool b) = Inr (JBool b)"
| "unique_val (JInt i) = Inr (JInt i)"
| "unique_val (JStr s) = Inr (JStr s)"
| "unique_vals [] = Inr []"
| "unique_vals (x # xs) = ebind (unique_val x) (\<lambda>y. ebind (unique_vals xs) (\<lambda>ys. Inr (y # ys)))"
| "unique_pairs [] = Inr []"
| "unique_pairs ((k, v) # ps) = ebind (unique_val v) (\<lambda>w. ebind (unique_pairs ps) (\<lambda>qs. Inr ((k, w) # qs)))"

fun translate_newlines :: "utext \<Rightarrow> utext" where
  "translate_newlines [] = []"
| "translate_newlines (c # cs) =
     (if c = 13 then
        10 # (case cs of d # ds \<Rightarrow> if d = 10 then translate_newlines ds else translate_newlines cs | [] \<Rightarrow> [])
      else c # translate_newlines cs)"

definition config_document :: "loader_env \<Rightarrow> string \<Rightarrow> jval result" where
  "config_document env path =
     (case le_file env path of
        None \<Rightarrow> Inl (Rejected ''OSError'')
      | Some raw \<Rightarrow>
          (case utf8_decode raw of
             None \<Rightarrow> Inl (ValueError ''invalid utf-8'')
           | Some u \<Rightarrow>
               let txt' = take 16385 (translate_newlines u) in
               if length txt' > 16384 then Inl (ValueError ''configuration JSON exceeds 16 KiB'')
               else ebind (le_json env txt') unique_val))"

definition config_publish :: "loader_env \<Rightarrow> int \<Rightarrow> string \<Rightarrow> (bytes \<times> string) result" where
  "config_publish env slot path =
     ebind (config_document env path) (\<lambda>doc.
     ebind (config_body doc) (\<lambda>body.
     ebind (msg 6 slot 0 [] body None None None) (\<lambda>m.
     ebind (config_send env m) (\<lambda>r.
       case doc of
         JObj d \<Rightarrow>
           (case jget d ''revision'' of
              JInt rev' \<Rightarrow>
                if r \<noteq> ''OK config published slot='' @ str_int slot @ '' revision='' @ str_int rev'
                then Inl (ValueError ''unexpected publication response'')
                else Inr (m, r)
            | _ \<Rightarrow> Inl (TypeError ''%d format''))
       | _ \<Rightarrow> Inl (TypeError ''not subscriptable'')))))"

definition config_cmd :: "loader_env \<Rightarrow> string \<Rightarrow> string list \<Rightarrow> (bytes \<times> string) result" where
  "config_cmd env cmd rest =
     exit_on_error
       (ebind (parse_int (rest ! 0)) (\<lambda>slot.
          if \<not> (0 \<le> slot \<and> slot < 64) then Inl (ValueError ''configuration slot must be 0..63'')
          else if cmd = ''config-status'' then
            ebind (msg 5 slot 0 [] [] None None None) (\<lambda>m.
            ebind (config_send env m) (\<lambda>r.
            ebind (le_json env (map of_char (drop 10 r))) (\<lambda>_. Inr (m, r))))
          else config_publish env slot (rest ! 1)))"

definition load_request :: "loader_env \<Rightarrow> string \<Rightarrow> string list \<Rightarrow> bytes result" where
  "load_request env cmd rest =
     (let (sigpath, args) =
        (if cmd = ''load-signed''
         then (Some (rest ! 2), [rest ! 0, rest ! 1, if length rest = 4 then rest ! 3 else ''1''])
         else (None, rest)) in
      ebind (parse_int (args ! 0)) (\<lambda>slot.
      ebind (if length args > 2 then parse_int (args ! 2) else Inr 2) (\<lambda>mode.
      ebind (read_program (le_file env) (args ! 1)) (\<lambda>prog.
      ebind (read_signature (le_file env) (args ! 1) sigpath) (\<lambda>(bd, sg).
        msg 1 slot mode [] prog None (Some bd) (Some sg))))))"

definition bench_request :: "loader_env \<Rightarrow> string list \<Rightarrow> bytes result" where
  "bench_request env rest =
     ebind (if length rest > 1 then parse_int (rest ! 1) else Inr 10000) (\<lambda>iters.
     ebind (read_program (le_file env) (rest ! 0)) (\<lambda>prog.
       let hook = (if length rest > 2 then encode_utf8 (rest ! 2) else elf_fentry_hook prog) in
       if hook = [] then Inl (SystemExit ''no fentry/<hook> section'')
       else msg 0x1001 0 0 hook prog (Some iters) None None))"

definition plain_request :: "loader_env \<Rightarrow> string \<Rightarrow> string list \<Rightarrow> bytes result" where
  "plain_request env cmd rest =
     (if cmd = ''arm'' then
        ebind (parse_int (rest ! 0)) (\<lambda>slot.
          msg 0x1003 slot 0 (encode_utf8 (if length rest > 1 then rest ! 1 else [])) [] None None None)
      else if cmd = ''disarm'' then msg 0x1004 0 0 (encode_utf8 (rest ! 0)) [] None None None
      else if cmd \<in> {''load'', ''load-signed''} then load_request env cmd rest
      else if cmd = ''status'' then ebind (parse_int (rest ! 0)) (\<lambda>slot. msg 3 slot 0 [] [] None None None)
      else if cmd = ''samples'' then ebind (parse_int (rest ! 0)) (\<lambda>slot. msg 0x1002 slot 0 [] [] None None None)
      else if cmd = ''mode'' then
        ebind (parse_int (rest ! 0)) (\<lambda>slot. ebind (parse_int (rest ! 1)) (\<lambda>m. msg 2 slot m [] [] None None None))
      else if cmd = ''revoke'' then ebind (parse_int (rest ! 0)) (\<lambda>slot. msg 4 slot 0 [] [] None None None)
      else if cmd = ''bench'' then bench_request env rest
      else Inl (SystemExit ''unknown command''))"

definition ls_main :: "loader_env \<Rightarrow> string list \<Rightarrow> (bytes \<times> string) result" where
  "ls_main env a =
     (case a of
        [] \<Rightarrow> Inl (SystemExit ''usage'')
      | cmd # rest \<Rightarrow>
          ebind (check_args cmd rest) (\<lambda>_.
            if cmd \<in> set (map fst PROGRAM_OPS) then program_cmd env cmd rest
            else if cmd \<in> {''config-status'', ''config-publish''} then config_cmd env cmd rest
            else ebind (plain_request env cmd rest) (\<lambda>m. ebind (send env m) (\<lambda>r. Inr (m, r)))))"

section \<open>Lemmas\<close>

lemma first_signatureD:
  "first_signature fs cands = Inr (bd, sg) \<Longrightarrow>
     \<exists>c \<in> set cands. fs c = Some (bd @ sg) \<and> length bd = 112 \<and> length sg = 64 \<and>
       find (\<lambda>c. fs c \<noteq> None) cands = Some c"
  by (induction cands) (auto simp: wire_consts split: option.splits if_splits)

lemma read_programD: "read_program fs p = Inr b \<Longrightarrow> fs p = Some b \<and> take 4 b = ELF_MAGIC"
  by (auto simp: read_program_def split: option.splits if_splits)

lemma load_requestD:
  assumes "load_request env cmd rest = Inr m" "cmd \<in> {''load'', ''load-signed''}"
  shows "\<exists>slot mode prog bd sg. le_file env (rest ! 1) = Some prog \<and>
     first_signature (le_file env) (sig_candidates (rest ! 1) (if cmd = ''load'' then None else Some (rest ! 2))) = Inr (bd, sg) \<and>
     m = header_fields 1 slot mode (length prog) @ bd @ sg @ prog"
  using assms
  by (auto simp: load_request_def Let_def err_simps read_signature_def msg_signed dest!: read_programD split: if_splits) blast+

lemma ls_main_plain:
  assumes "cmd \<notin> set (map fst PROGRAM_OPS)" "cmd \<notin> {''config-status'', ''config-publish''}"
  shows "ls_main env (cmd # rest) =
    ebind (check_args cmd rest) (\<lambda>_. ebind (plain_request env cmd rest) (\<lambda>m. ebind (send env m) (\<lambda>r. Inr (m, r))))"
  using assms by (simp add: ls_main_def)

text \<open>The exceptions that the program and configuration commands turn into an exit, and exits.\<close>

fun polite :: "exn \<Rightarrow> bool" where
  "polite (ValueError _) = True"
| "polite (Rejected _) = True"
| "polite (SystemExit _) = True"
| "polite _ = False"

fun is_exit :: "exn \<Rightarrow> bool" where
  "is_exit (SystemExit _) = True"
| "is_exit _ = False"

lemma exit_on_error_fails: "fails_in polite x \<Longrightarrow> fails_in is_exit (exit_on_error x)"
  by (cases x rule: exit_on_error.cases) (auto simp: fails_in_def)

lemma parse_fails: "fails_in polite (parse_int x)" "fails_in polite (parse_int0 x)" "fails_in polite (from_hex x)"
proof -
  have "polite e" if "is_value_error e" for e using that by (cases e) auto
  then show "fails_in polite (parse_int x)" "fails_in polite (parse_int0 x)" "fails_in polite (from_hex x)"
    unfolding fails_in_def using parse_int_value_error parse_int0_value_error from_hex_value_error by blast+
qed

lemma send_fails: "fails_in polite (send env m)"
proof -
  have "fails_in polite (resolve_sock env)"
    unfolding resolve_sock_def Let_def by (simp only: fails_in_cases fails_in_Inl fails_in_Inr polite.simps simp_thms)
  then show ?thesis unfolding send_def by (auto simp: fails_in_cases)
qed

lemma config_send_fails: "fails_in polite (config_send env m)"
  by (auto simp: config_send_def send_fails)

lemma file_fails: "fails_in polite (read_program fs p)" "fails_in polite (read_signature fs p s)"
proof -
  show "fails_in polite (read_program fs p)" by (auto simp: read_program_def split: option.splits)
  have "fails_in polite (first_signature fs cs)" for cs by (induction cs) (auto split: option.splits)
  then show "fails_in polite (read_signature fs p s)" by (simp add: read_signature_def)
qed

lemma hexadecimal_fails: "fails_in polite (hexadecimal v n nm)"
  by (auto simp: hexadecimal_def parse_fails split: jval.splits)

lemma msg_fails:
  assumes "u32_ok op" "u32_ok slot" "u32_ok mode" "u32_ok (int (length prog))"
  shows "fails_in polite (msg op slot mode hook prog None bd sg)"
proof -
  have "put_u32 off v b = Inr (put off (le_bytes 4 v) b)" if "u32_ok v" for off v b
    using that by (simp add: put_u32_def pack_u32_def u32_ok_def)
  moreover have "fails_in polite (set_byte OFF_CTX_ABI CTX_ABI_VERSION b)" if "121 < length b" for b
    using that by (simp add: set_byte_def wire_consts)
  moreover have "length (put 12 (le_bytes 4 d) (put 8 (le_bytes 4 c) (put 4 (le_bytes 4 b) (put 0 (le_bytes 4 a) (replicate 192 0))))) = 192"
    for a b c d by simp
  ultimately show ?thesis
    using assms unfolding msg_def by (auto simp: wire_consts split: option.splits)
qed

lemma small_u32: "0 \<le> v \<Longrightarrow> v < 100000 \<Longrightarrow> u32_ok v"
  by (simp add: u32_ok_def)

definition small_files :: "loader_env \<Rightarrow> bool" where
  "small_files env \<longleftrightarrow> (\<forall>p b. le_file env p = Some b \<longrightarrow> length b < 2 ^ 32)"

lemma program_request_fails:
  assumes "small_files env" "cmd \<in> set (map fst PROGRAM_OPS)"
  shows "fails_in polite (program_request env cmd rest)"
proof -
  have op: "u32_ok (the (map_of PROGRAM_OPS cmd))" using assms(2) by (auto simp: PROGRAM_OPS_def u32_ok_def)
  have "fails_in polite (program_load env rest)"
    unfolding program_load_def by (auto simp: fails_in_cases file_fails)
  moreover have "fails_in polite (program_control cmd rest)"
    unfolding program_control_def by (auto simp: fails_in_cases parse_fails)
  ultimately have f: "fails_in polite (program_parts env cmd rest)" by (simp add: program_parts_def)
  have ok: "u32_ok mode \<and> u32_ok (int (length body))" if b: "program_parts env cmd rest = Inr (body, bd, sg, mode)" for body bd sg mode
  proof -
    have "length body < 2 ^ 32 \<and> mode = 0" if "program_load env rest = Inr (body, bd, sg, mode)"
      using that assms(1)
      by (auto simp: program_load_def err_simps small_files_def dest!: read_programD split: if_splits)
    moreover have "length body = 16 \<and> mode \<in> {0, 1, 2}" if "program_control cmd rest = Inr (body, bd, sg, mode)"
      using that by (auto simp: program_control_def err_simps split: if_splits)
    ultimately show ?thesis using b by (auto simp: program_parts_def u32_ok_def split: if_splits)
  qed
  have "fails_in polite (ebind (program_parts env cmd rest) (\<lambda>(body, bd, sg, mode).
      msg (the (map_of PROGRAM_OPS cmd)) program mode [] body None bd sg))" if "0 \<le> program" "program < 8" for program
  proof (cases "program_parts env cmd rest")
    case (Inl e)
    then show ?thesis using f by simp
  next
    case (Inr r)
    obtain body bd sg mode where r: "r = (body, bd, sg, mode)" by (cases r) auto
    show ?thesis using Inr r ok op small_u32 [of program] that by (simp add: msg_fails)
  qed
  then show ?thesis unfolding program_request_def by (auto simp: parse_fails fails_in_cases)
qed

lemma unique_config_fails: "fails_in polite (unique_config_fields acc ps)"
  by (induction acc ps rule: unique_config_fields.induct) auto

lemma unique_fails: "fails_in polite (unique_val v)" "fails_in polite (unique_vals vs)" "fails_in polite (unique_pairs ps)"
  by (induction v and vs and ps rule: unique_val_unique_vals_unique_pairs.induct) (auto simp: unique_config_fails)

lemma config_body_fails: "fails_in polite (config_body v)"
proof (cases v)
  case (JObj d)
  show ?thesis
  proof (cases "set (map fst d) = set config_fields")
    case True
    have k: "\<exists>x. jitem d n = Inr x" if "n \<in> set config_fields" for n
    proof -
      have "n \<in> set (map fst d)" using that True by simp
      then obtain x where "map_of d n = Some x" by (metis map_of_eq_None_iff not_None_eq list.set_map)
      then show ?thesis by (simp add: jitem_def)
    qed
    have j: "fails_in polite (jitem d n)" if "n \<in> set config_fields" for n
      using k [OF that] by auto
    have c: "fails_in polite (config_int d n lo hi)" if "n \<in> set config_fields" for n lo hi
      using j [OF that] by (auto simp: config_int_def split: jval.splits)
    have m: "''abi'' \<in> set config_fields" "''schema'' \<in> set config_fields" "''session'' \<in> set config_fields"
      "''instance'' \<in> set config_fields" "''expected_revision'' \<in> set config_fields" "''revision'' \<in> set config_fields"
      "''program_sha256'' \<in> set config_fields" "''rows'' \<in> set config_fields" by (simp_all add: config_fields_def)
    have e: "fails_in polite (emap (\<lambda>r. hexadecimal r 32 ''row'') rs)" for rs
      by (induction rs) (auto simp: hexadecimal_fails)
    show ?thesis unfolding JObj config_body_def jval.case Let_def
      using True by (auto simp: j c m e hexadecimal_fails split: jval.splits)
  qed (simp add: JObj config_body_def)
qed (simp_all add: config_body_def)

text \<open>What the parser raises, beside the exceptions the commands turn into an exit.\<close>

definition parser_raises :: "loader_env \<Rightarrow> exn \<Rightarrow> bool" where
  "parser_raises env e = (\<exists>doc. le_json env doc = Inl e)"

abbreviation caught_or_parser :: "loader_env \<Rightarrow> exn \<Rightarrow> bool" where
  "caught_or_parser env e \<equiv> polite e \<or> parser_raises env e"

lemma fails_in_weaken: "fails_in polite x \<Longrightarrow> fails_in (caught_or_parser env) x"
  by (auto simp: fails_in_def)

lemma parser_fails: "fails_in (caught_or_parser env) (le_json env doc)"
  by (auto simp: fails_in_def parser_raises_def)

lemma exit_on_error_parser:
  assumes "fails_in (caught_or_parser env) x"
  shows "fails_in (\<lambda>e. is_exit e \<or> parser_raises env e \<and> \<not> polite e) (exit_on_error x)"
  using assms by (cases x rule: exit_on_error.cases) (auto simp: fails_in_def)

lemma config_document_fails: "fails_in (caught_or_parser env) (config_document env p)"
  unfolding config_document_def Let_def
  using parser_fails fails_in_weaken [OF unique_fails(1)] by (auto simp: fails_in_cases)

lemma config_publish_fails:
  assumes "0 \<le> slot" "slot < 64"
  shows "fails_in (caught_or_parser env) (config_publish env slot p)"
proof -
  have "fails_in polite (ebind (config_body doc) (\<lambda>body. ebind (msg 6 slot 0 [] body None None None) (\<lambda>m.
      ebind (config_send env m) (\<lambda>r. case doc of
         JObj d \<Rightarrow> (case jget d ''revision'' of
              JInt rev' \<Rightarrow>
                if r \<noteq> ''OK config published slot='' @ str_int slot @ '' revision='' @ str_int rev'
                then Inl (ValueError ''unexpected publication response'')
                else Inr (m, r)
            | _ \<Rightarrow> Inl (TypeError ''%d format''))
       | _ \<Rightarrow> Inl (TypeError ''not subscriptable'')))))" for doc
  proof (cases "config_body doc")
    case (Inl e)
    then show ?thesis using config_body_fails [of doc] by simp
  next
    case (Inr body)
    obtain d i where "doc = JObj d" "jget d ''revision'' = JInt i" and l: "length body \<le> 80 + 32 * 16"
      using config_body_shape [OF Inr] by blast
    moreover have "u32_ok 6" "u32_ok slot" "u32_ok 0" "u32_ok (int (length body))"
      using assms l by (simp_all add: u32_ok_def)
    ultimately show ?thesis using Inr by (auto simp: fails_in_cases config_send_fails msg_fails)
  qed
  then show ?thesis unfolding config_publish_def by (intro fails_in_bind [OF config_document_fails] fails_in_weaken)
qed

lemma config_cmd_fails: "fails_in (\<lambda>e. is_exit e \<or> parser_raises env e \<and> \<not> polite e) (config_cmd env cmd rest)"
proof -
  have m: "fails_in polite (msg 5 slot 0 [] [] None None None)" if "0 \<le> slot" "slot < 64" for slot
    using that by (intro msg_fails) (simp_all add: u32_ok_def)
  show ?thesis
    unfolding config_cmd_def
    by (intro exit_on_error_parser fails_in_bind fails_in_weaken [OF parse_fails(1)])
      (auto simp: fails_in_cases config_publish_fails parser_fails intro!: fails_in_weaken [OF m] fails_in_weaken [OF config_send_fails])
qed

lemma program_cmd_fails:
  assumes "small_files env" "cmd \<in> set (map fst PROGRAM_OPS)"
  shows "fails_in is_exit (program_cmd env cmd rest)"
  unfolding program_cmd_def
  by (intro exit_on_error_fails fails_in_bind program_request_fails [OF assms] send_fails) (simp add: fails_in_cases)

section \<open>Properties\<close>

lemma load_sent:
  assumes "ls_main env (cmd # rest) = Inr (m, r)" "cmd \<in> {''load'', ''load-signed''}"
  shows "\<exists>prog bd sg c. le_file env (rest ! 1) = Some prog \<and>
    find (\<lambda>c. le_file env c \<noteq> None)
      (sig_candidates (rest ! 1) (if cmd = ''load'' then None else Some (rest ! 2))) = Some c \<and>
    le_file env c = Some (bd @ sg) \<and> length bd = 112 \<and> length sg = 64 \<and>
    drop 16 m = bd @ sg @ prog \<and> u32 m 0 = 1 \<and> pyslice 48 112 m = pyslice 32 96 bd"
proof -
  have "cmd \<notin> set (map fst PROGRAM_OPS)" "cmd \<notin> {''config-status'', ''config-publish''}"
    using assms(2) by (auto simp: PROGRAM_OPS_def)
  with assms have "plain_request env cmd rest = Inr m" by (auto simp: ls_main_plain err_simps)
  with assms(2) have "load_request env cmd rest = Inr m" by (auto simp: plain_request_def)
  from load_requestD [OF this assms(2)] obtain slot mode prog bd sg where
    p: "le_file env (rest ! 1) = Some prog"
    and f: "first_signature (le_file env)
      (sig_candidates (rest ! 1) (if cmd = ''load'' then None else Some (rest ! 2))) = Inr (bd, sg)"
    and m: "m = header_fields 1 slot mode (length prog) @ bd @ sg @ prog" by blast
  from first_signatureD [OF f] obtain c where c: "le_file env c = Some (bd @ sg)" "length bd = 112" "length sg = 64"
    "find (\<lambda>c. le_file env c \<noteq> None)
      (sig_candidates (rest ! 1) (if cmd = ''load'' then None else Some (rest ! 2))) = Some c" by blast
  have "drop 16 m = bd @ sg @ prog" by (simp add: m)
  moreover have "u32 m 0 = 1" using u_at(2) [of "[]" 0 1] by (simp add: m header_fields_def)
  moreover have "pyslice 48 112 m = pyslice 32 96 bd"
    using c(2) by (simp add: m pyslice_skip)
  ultimately show ?thesis using p c by blast
qed

text \<open>
What a load sends: a completed \<^verbatim>\<open>load\<close> or \<^verbatim>\<open>load-signed\<close> sent the ELF program from the named file
and, unchanged, the 112-byte binding and 64-byte signature from the named signature file or, without
one, from the first of the two default names that can be read. So the hook on the wire is the one inside the signed
binding, never one from an argument.
\<close>

theorem load_sends_signed:
  assumes "ls_main env (cmd # rest) = Inr (m, r)" "cmd \<in> {''load'', ''load-signed''}"
  shows "\<exists>prog bd sg c. le_file env (rest ! 1) = Some prog \<and>
    find (\<lambda>c. le_file env c \<noteq> None)
      (sig_candidates (rest ! 1) (if cmd = ''load'' then None else Some (rest ! 2))) = Some c \<and>
    le_file env c = Some (bd @ sg) \<and> length bd = 112 \<and> length sg = 64 \<and>
    drop 16 m = bd @ sg @ prog \<and> u32 m 0 = 1 \<and> pyslice 48 112 m = pyslice 32 96 bd"
  using assms by (rule load_sent)

definition sample_env :: loader_env where
  "sample_env =
     \<lparr>le_file = [''p.bpf.o'' \<mapsto> ELF_MAGIC, ''p.bpf.sig'' \<mapsto> replicate 176 7], le_environ = Map.empty,
      le_exists = (\<lambda>_. True), le_listdir = Map.empty, le_proc = [], le_mem = (\<lambda>_ _ _. None),
      le_recv = (\<lambda>_ _. Some [Some [79, 75]]), le_json = (\<lambda>_. Inl (ValueError ''Expecting value''))\<rparr>"

lemma sample_load: "ok_with (\<lambda>x. snd x = ''OK'') (ls_main sample_env [''load'', ''5'', ''p.bpf.o''])"
  by code_simp

theorem load_sends_signed_witness:
  "\<exists>m. ls_main sample_env [''load'', ''5'', ''p.bpf.o''] = Inr (m, ''OK'') \<and> u32 m 0 = 1"
proof -
  obtain m where m: "ls_main sample_env [''load'', ''5'', ''p.bpf.o''] = Inr (m, ''OK'')"
    using sample_load by (auto simp: ok_with_iff)
  from load_sends_signed [OF m] m show ?thesis by auto
qed

text \<open>
Arguments that are not caught: the check of the arguments is meant to answer a wrong argument with a
usage text instead of a traceback, but \<^verbatim>\<open>samples\<close> is missing from the commands whose slot is checked, no
second number is checked, and a negative slot passes as a number; these escape as \<^verbatim>\<open>ValueError\<close> and
\<^verbatim>\<open>struct.error\<close>.
\<close>

theorem check_args_gaps:
  "ls_main env [''samples'', ''rst_why''] = Inl (ValueError ''invalid literal for int() with base 10'') \<and>
   ls_main env [''mode'', ''5'', ''enforce''] = Inl (ValueError ''invalid literal for int() with base 10'') \<and>
   ls_main env [''status'', ''-1''] = Inl StructError \<and>
   ls_main env [''status'', ''rst_why''] = Inl (SystemExit ''expects a SLOT NUMBER first'')"
proof -
  have i: "parse_int ''rst_why'' = Inl (ValueError ''invalid literal for int() with base 10'')"
    "parse_int ''enforce'' = Inl (ValueError ''invalid literal for int() with base 10'')"
    "parse_int ''5'' = Inr 5" "parse_int ''-1'' = Inr (- 1)" by code_simp+
  have s: "msg 3 (- 1) 0 [] [] None None None = Inl StructError" by code_simp
  show ?thesis
    using i s by (simp add: ls_main_def check_args_def ARGS_def SLOT_FIRST_def PROGRAM_OPS_def plain_request_def)
qed

text \<open>
C38. How the program and configuration commands end: whatever their arguments, files and
replies, with readable files below 4 GiB, each either sends a well-formed request and accepts the reply, or exits with
a message. There is one way to a traceback, and it is in the configuration commands only: the JSON parser raises an exception that is
neither \<^verbatim>\<open>ValueError\<close> nor \<^verbatim>\<open>OSError\<close>.
\<close>

theorem control_commands_exit:
  assumes "small_files env" "cmd \<in> set (map fst PROGRAM_OPS) \<union> {''config-status'', ''config-publish''}"
    and "ls_main env (cmd # rest) = Inl e"
  shows "(\<exists>text'. e = SystemExit text') \<or>
    cmd \<in> {''config-status'', ''config-publish''} \<and> (\<exists>doc. le_json env doc = Inl e) \<and> (\<forall>m. e \<noteq> ValueError m \<and> e \<noteq> Rejected m)"
proof -
  let ?P = "\<lambda>e. is_exit e \<or> cmd \<in> {''config-status'', ''config-publish''} \<and> parser_raises env e \<and> \<not> polite e"
  have mono: "fails_in ?P x" if "fails_in is_exit x" for x :: "'a result" using that by (auto simp: fails_in_def)
  have "fails_in is_exit (check_args cmd rest)"
    unfolding check_args_def by (simp add: fails_in_cases split_beta)
  moreover have "fails_in is_exit (program_cmd env cmd rest)" if "cmd \<in> set (map fst PROGRAM_OPS)"
    using program_cmd_fails [OF assms(1) that] .
  moreover have "fails_in ?P (config_cmd env cmd rest)" if "cmd \<in> {''config-status'', ''config-publish''}"
    using config_cmd_fails [of env cmd rest] that by (auto simp: fails_in_def)
  ultimately have "fails_in ?P (ls_main env (cmd # rest))"
    using assms(2) unfolding ls_main_def list.case
    by (intro fails_in_bind) (auto simp: fails_in_cases fails_in_def simp del: list.set_map)
  with assms(3) have "?P e" by (simp add: fails_in_def)
  then show ?thesis unfolding parser_raises_def by (cases e) auto
qed

theorem control_commands_exit_witness:
  "\<exists>text'. ls_main sample_env [''program-status'', ''9''] = Inl (SystemExit text')"
proof -
  have "small_files sample_env" by (auto simp: small_files_def sample_env_def ELF_MAGIC_def split: if_splits)
  moreover have "\<exists>e. ls_main sample_env [''program-status'', ''9''] = Inl e"
  proof -
    have "(case ls_main sample_env [''program-status'', ''9''] of Inl _ \<Rightarrow> True | Inr _ \<Rightarrow> False)" by code_simp
    then show ?thesis by (auto split: sum.splits)
  qed
  ultimately show ?thesis
    using control_commands_exit [of sample_env "''program-status''" "[''9'']"] by (auto simp: PROGRAM_OPS_def)
qed

text \<open>A configuration nested deeper than the interpreter's limit ends in a traceback.\<close>

lemma nested_config_escapes:
  "ls_main (sample_env\<lparr>le_json := (\<lambda>_. Inl RecursionError)\<rparr>) [''config-publish'', ''0'', ''p.bpf.o''] = Inl RecursionError"
proof -
  have "parse_int ''0'' = Inr 0" "utf8_decode ELF_MAGIC = Some [127, 69, 76, 70]" by code_simp+
  then show ?thesis
    by (simp add: ls_main_def check_args_def ARGS_def SLOT_FIRST_def PROGRAM_OPS_def config_cmd_def config_publish_def
        config_document_def sample_env_def Let_def)
qed

section \<open>The legacy resolver\<close>

text \<open>The entries an index text gives a name, in order: its lines, not comments, with three fields or more.\<close>

definition index_entries :: "string \<Rightarrow> string list \<Rightarrow> (string \<times> string \<times> string) list" where
  "index_entries name lines =
     map (\<lambda>l. let p = split_on (CHR 0x09) l in (p ! 1, p ! 2, if length p > 3 then p ! 3 else ''-''))
       (filter (\<lambda>l. l \<noteq> [] \<and> \<not> is_prefix ''#'' l \<and> length (split_on (CHR 0x09) l) \<ge> 3 \<and>
                     split_on (CHR 0x09) l ! 0 = name) lines)"

definition listed :: "(string \<times> (string \<times> string \<times> string) list) list \<Rightarrow> string \<Rightarrow> (string \<times> string \<times> string) list" where
  "listed syms name = (case map_of syms name of None \<Rightarrow> [] | Some l \<Rightarrow> l)"

lemma listed_add: "listed (add_entry syms n e) name = (if name = n then listed syms name @ [e] else listed syms name)"
  by (simp add: listed_def add_entry_def update_conv)

lemma index_line_entries:
  "listed (snd (index_line ix l)) name = listed (snd ix) name @ index_entries name [l]"
  by (cases ix) (auto simp: index_line_def index_entries_def listed_add Let_def)

lemma foldl_index_entries: "listed (snd (foldl index_line ix ls)) name = listed (snd ix) name @ index_entries name ls"
proof (induction ls arbitrary: ix)
  case (Cons l ls)
  have "index_entries name (l # ls) = index_entries name [l] @ index_entries name ls"
    by (simp add: index_entries_def)
  then show ?case using Cons [of "index_line ix l"] index_line_entries [of ix l name] by simp
qed (simp add: index_entries_def)

lemma read_index_entries:
  "listed (snd (read_index t)) name = index_entries name (split_on (CHR 0x0A) (universal_newlines t))"
  using foldl_index_entries [of "([], [])"] by (simp add: read_index_def listed_def)

lemma index_nonempty: "map_of (snd (foldl index_line ix ls)) name = Some l \<Longrightarrow>
    (\<And>n k. map_of (snd ix) n = Some k \<Longrightarrow> k \<noteq> []) \<Longrightarrow> l \<noteq> []"
proof (induction ls arbitrary: ix)
  case (Cons x ls)
  have "k \<noteq> []" if "map_of (snd (index_line ix x)) n = Some k" for n k
    using that Cons.prems(2) by (cases ix) (auto simp: index_line_def add_entry_def update_conv Let_def split: if_splits)
  with Cons.IH [of "index_line ix x"] Cons.prems(1) show ?case by simp
qed auto

text \<open>
Resolving by name never guesses: a name resolves only when the index carries the build id of the
running binary and has exactly one entry for the name, whose address is the result; several entries under
one name are refused. A raw address is returned as given.
\<close>

theorem resolve_hook_exact:
  assumes "resolve_hook env path texts spec = Inr a" "\<not> is_prefix ''0x'' spec" "\<not> is_prefix ''0X'' spec"
  shows "\<exists>t exe blob i e. texts path = Some t \<and> running_binary env = Some exe \<and> le_file env exe = Some blob \<and>
    elf_build_id blob = Inr (Some i) \<and> map_of (fst (read_index t)) ''build_id'' = Some i \<and>
    index_entries spec (split_on (CHR 0x0A) (universal_newlines t)) = [e] \<and> a = fst e"
proof -
  obtain t where t: "texts path = Some t" using assms by (auto simp: resolve_hook_def split: option.splits)
  obtain meta syms where ix: "read_index t = (meta, syms)" by (cases "read_index t")
  obtain exe where exe: "running_binary env = Some exe"
    using assms t ix by (auto simp: resolve_hook_def split: option.splits)
  obtain blob where blob: "le_file env exe = Some blob"
    using assms t ix exe by (auto simp: resolve_hook_def split: option.splits)
  obtain i where i: "elf_build_id blob = Inr (Some i)" "map_of meta ''build_id'' = Some i"
    using assms t ix exe blob by (auto simp: resolve_hook_def err_simps split: option.splits if_splits)
  obtain cands where c: "map_of syms spec = Some cands" "\<not> length cands > 1" "a = fst (hd cands)"
    using assms t ix exe blob i by (auto simp: resolve_hook_def split: option.splits if_splits)
  have "cands \<noteq> []" using index_nonempty [of "([], [])" "split_on (CHR 0x0A) (universal_newlines t)" spec cands] c(1) ix
    by (simp add: read_index_def)
  then obtain e where e: "cands = [e]" using c(2) by (cases cands; cases "tl cands") auto
  have "index_entries spec (split_on (CHR 0x0A) (universal_newlines t)) = [e]"
    using read_index_entries [of t spec] ix c(1) e by (simp add: listed_def)
  with t exe blob i ix c(3) e show ?thesis by (cases e) auto
qed

definition sample_index :: string where
  "sample_index = ''#build_id'' @ [CHR 0x09] @ to_hex sample_id @ [CHR 0x0A] @
     ''f'' @ [CHR 0x09] @ ''0x1004'' @ [CHR 0x09] @ ''pad'' @ [CHR 0x09] @ ''4'' @ [CHR 0x0A]"

theorem resolve_hook_exact_witness:
  "\<exists>e. index_entries ''f'' (split_on (CHR 0x0A) (universal_newlines sample_index)) = [e] \<and> ''0x1004'' = fst e"
proof -
  let ?env = "sample_env\<lparr>le_proc := [(''7'', Some ''/usr/bin/tmm'')], le_file := [''/usr/bin/tmm'' \<mapsto> sample_elf]\<rparr>"
  have "resolve_hook ?env ''i'' [''i'' \<mapsto> sample_index] ''f'' = Inr ''0x1004''" by code_simp
  from resolve_hook_exact [OF this] show ?thesis by auto
qed

end
