(* ===== verification/Exit_Admit.thy ===== *)
theory Exit_Admit
  imports Py_Lines "HOL-Library.Char_ord" "HOL-Library.List_Lexorder"
begin

text \<open>
  \<^verbatim>\<open>substrate/exit_admit.py\<close>: the admission gate for a function-exit hook. The external programs
  (\<^verbatim>\<open>nm\<close>, \<^verbatim>\<open>gdb\<close>, \<^verbatim>\<open>readelf\<close>, \<^verbatim>\<open>llvm-dwarfdump\<close>) are a parameter: \<open>run argv\<close> is the return code and
  standard output of a command, and \<open>None\<close> a command that could not be started. The gate's return
  code, or the exception that escapes it, is the result; the printed report is left out.
\<close>

type_synonym runner = "string list \<Rightarrow> (int \<times> string) option"

definition UNWIND_INITIATORS :: "string list" where
  "UNWIND_INITIATORS =
     [''_Unwind_RaiseException'', ''_Unwind_ForcedUnwind'', ''_Unwind_Resume'',
      ''__cxa_throw'', ''__cxa_begin_catch'', ''__cxa_rethrow'']"

definition DWARFDUMP :: "string list" where
  "DWARFDUMP = [''llvm-dwarfdump'', ''/usr/lib/llvm-18/bin/llvm-dwarfdump'', ''llvm-dwarfdump-18'']"

text \<open>\<^verbatim>\<open>sh\<close>: a missing executable is the \<^verbatim>\<open>_Miss\<close> result.\<close>

definition sh :: "runner \<Rightarrow> string list \<Rightarrow> int \<times> string" where
  "sh run argv = (case run argv of None \<Rightarrow> (127, []) | Some r \<Rightarrow> r)"

definition which_dwarfdump :: "runner \<Rightarrow> string option" where
  "which_dwarfdump run = find (\<lambda>d. fst (sh run [d, ''--version'']) = 0) DWARFDUMP"

section \<open>The function's address\<close>

fun func_addr_in :: "string \<Rightarrow> string list \<Rightarrow> int option" where
  "func_addr_in fn [] = None"
| "func_addr_in fn (line # rest) =
     (case split_words line of
        [a, t, n] \<Rightarrow>
          if n = fn \<and> t \<in> {''T'', ''t'', ''W'', ''w''}
          then (case parse_hex a of Inl _ \<Rightarrow> None | Inr v \<Rightarrow> Some v)
          else func_addr_in fn rest
      | _ \<Rightarrow> func_addr_in fn rest)"

definition func_addr :: "runner \<Rightarrow> string \<Rightarrow> string \<Rightarrow> int option" where
  "func_addr run debug_bin fn = func_addr_in fn (splitlines (snd (sh run [''nm'', debug_bin])))"

section \<open>The frame's landing pads\<close>

text \<open>
  \<^verbatim>\<open>re.compile(r"FDE .*pc=([0-9a-f]+)\.\.\.([0-9a-f]+)").search\<close>: behind the first \<^verbatim>\<open>FDE \<close>, the last
  place that reads \<^verbatim>\<open>pc=lo...hi\<close>.
\<close>

definition is_lower_hex :: "char \<Rightarrow> bool" where
  "is_lower_hex c = (is_digit c \<or> (97 \<le> (of_char c :: nat) \<and> (of_char c :: nat) \<le> 102))"

definition hex_value :: "string \<Rightarrow> int" where
  "hex_value s = foldl (\<lambda>acc c. acc * 16 + (case hex_val c of Some d \<Rightarrow> int d | None \<Rightarrow> 0)) 0 s"

definition pc_range :: "string \<Rightarrow> (int \<times> int) option" where
  "pc_range s =
     (if is_prefix ''pc='' s then
        let a = takeWhile is_lower_hex (drop 3 s); r = dropWhile is_lower_hex (drop 3 s);
            b = takeWhile is_lower_hex (drop 3 r) in
        if a \<noteq> [] \<and> is_prefix ''...'' r \<and> b \<noteq> [] then Some (hex_value a, hex_value b) else None
      else None)"

fun last_pc_range :: "string \<Rightarrow> (int \<times> int) option" where
  "last_pc_range [] = None"
| "last_pc_range (c # cs) =
     (case last_pc_range cs of Some r \<Rightarrow> Some r | None \<Rightarrow> pc_range (c # cs))"

definition fde_match :: "string \<Rightarrow> (int \<times> int) option" where
  "fde_match line = (case find_at ''FDE '' 0 line of None \<Rightarrow> None | Some i \<Rightarrow> last_pc_range (drop (i + 4) line))"

text \<open>The scan of the dump: the range being described, if any, and whether it has shown an LSDA.\<close>

fun fde_scan :: "int \<Rightarrow> string list \<Rightarrow> (int \<times> int) option \<Rightarrow> bool \<Rightarrow> bool \<times> bool" where
  "fde_scan addr [] cur lsda =
     (case cur of
        Some (lo, hi) \<Rightarrow> if lo \<le> addr \<and> addr < hi then (lsda, True) else (False, True)
      | None \<Rightarrow> (False, True))"
| "fde_scan addr (line # rest) cur lsda =
     (case fde_match line of
        Some r \<Rightarrow>
          (case cur of
             Some (lo, hi) \<Rightarrow> if lo \<le> addr \<and> addr < hi then (lsda, True) else fde_scan addr rest (Some r) False
           | None \<Rightarrow> fde_scan addr rest (Some r) False)
      | None \<Rightarrow> fde_scan addr rest cur (lsda \<or> contains ''LSDA Address'' line))"

definition frame_has_lsda :: "runner \<Rightarrow> string \<Rightarrow> int option \<Rightarrow> bool \<times> bool" where
  "frame_has_lsda run runtime_bin addr =
     (case (which_dwarfdump run, addr) of
        (Some dd, Some a) \<Rightarrow>
          (case sh run [dd, ''--eh-frame'', runtime_bin] of
             (rc, out) \<Rightarrow> if rc \<noteq> 0 then (False, False) else fde_scan a (splitlines out) None False)
      | _ \<Rightarrow> (False, False))"

section \<open>The return type\<close>

text \<open>\<^verbatim>\<open>body.rsplit(" (", 1)[0]\<close>.\<close>

definition before_params :: "string \<Rightarrow> string" where
  "before_params body =
     (case find_at ''( '' 0 (rev body) of None \<Rightarrow> body | Some k \<Rightarrow> take (length body - k - 2) body)"

fun return_type_in :: "string list \<Rightarrow> string option" where
  "return_type_in [] = None"
| "return_type_in (line # rest) =
     (let l = strip line in
      if is_prefix ''type = '' l then Some (strip (before_params (drop 7 l))) else return_type_in rest)"

definition return_type :: "runner \<Rightarrow> string \<Rightarrow> string \<Rightarrow> string option" where
  "return_type run debug_bin fn =
     return_type_in (splitlines (snd (sh run [''gdb'', ''-q'', ''-batch'', ''-ex'', ''ptype '' @ fn, debug_bin])))"

datatype return_class =
    Ret_unread
  | Ret_pointer
  | Ret_void
  | Ret_float
  | Ret_by_value string
  | Ret_integer string
  | Ret_unrecognised string

definition FLOATS :: "string list" where
  "FLOATS = [''float'', ''double'', ''long double'', ''_Float'', ''__float'']"

definition AGGREGATES :: "string list" where
  "AGGREGATES = [''struct '', ''union '', ''class '']"

definition INTEGERS :: "string list" where
  "INTEGERS =
     [''enum'', ''int'', ''unsigned'', ''char'', ''short'', ''long'', ''signed'', ''_Bool'', ''bool'',
      ''uint'', ''u_int'', ''size_t'', ''ssize_t'', ''int8'', ''int16'', ''int32'', ''int64'',
      ''uint8'', ''uint16'', ''uint32'', ''uint64'']"

definition classify_return :: "string option \<Rightarrow> bool \<times> return_class" where
  "classify_return t =
     (case t of
        None \<Rightarrow> (False, Ret_unread)
      | Some t \<Rightarrow>
          let ts = strip t in
          if ends_with ''*'' ts then (True, Ret_pointer)
          else if ts = ''void'' then (False, Ret_void)
          else if starts_any FLOATS ts then (False, Ret_float)
          else if starts_any AGGREGATES ts then (False, Ret_by_value (hd (split_words ts)))
          else if starts_any INTEGERS ts
               then (True, Ret_integer (if length ts < 40 then ts else take 37 ts @ ''...''))
          else (False, Ret_unrecognised ts))"

section \<open>The unwinder imports\<close>

definition unwind_clear :: "runner \<Rightarrow> string \<Rightarrow> bool \<times> string list" where
  "unwind_clear run runtime_bin =
     (case sh run [''readelf'', ''--wide'', ''--dyn-syms'', runtime_bin] of
        (rc, out) \<Rightarrow>
          if rc \<noteq> 0 then (False, [''unwind symbol scan failed''])
          else let found = concat (map (\<lambda>line.
                 if \<not> contains '' UND '' line then []
                 else filter (\<lambda>s. search_word False s line) UNWIND_INITIATORS) (splitlines out))
               in (found = [], sort (remdups found)))"

section \<open>The verdict\<close>

text \<open>
  The report of a binary that imports an unwind initiator formats a text with two places with one
  argument, which raises \<^verbatim>\<open>TypeError\<close>.
\<close>

definition exit_admit :: "runner \<Rightarrow> string list \<Rightarrow> int result" where
  "exit_admit run argv =
     (case argv of
        [_, debug_bin, runtime_bin, fn] \<Rightarrow>
          let rt = return_type run debug_bin fn;
              (safe_ret, why_ret) = classify_return rt;
              (clear, found) = unwind_clear run runtime_bin;
              addr = func_addr run debug_bin fn;
              (lsda, lsda_decided) = frame_has_lsda run runtime_bin addr;
              safe_unwind = (clear \<and> \<not> lsda) in
          if safe_ret \<and> safe_unwind then Inr 0
          else if \<not> clear then Inl (TypeError ''not enough arguments for format string'')
          else Inr 1
      | _ \<Rightarrow> Inr 2)"

section \<open>What the scan of the dump computes\<close>

text \<open>
  The dump as the list of frame descriptions it holds: each range with whether an LSDA line follows it
  before the next range.
\<close>

function frames :: "string list \<Rightarrow> ((int \<times> int) \<times> bool) list" where
  "frames [] = []"
| "frames (line # rest) =
     (case fde_match line of
        None \<Rightarrow> frames rest
      | Some r \<Rightarrow>
          (r, list_ex (contains ''LSDA Address'') (takeWhile (\<lambda>l. fde_match l = None) rest))
          # frames (dropWhile (\<lambda>l. fde_match l = None) rest))"
  by pat_completeness auto
termination
  by (relation "measure length") (auto simp: length_dropWhile_le less_Suc_eq_le)

definition covers :: "int \<Rightarrow> ((int \<times> int) \<times> bool) \<Rightarrow> bool" where
  "covers addr f \<longleftrightarrow> fst (fst f) \<le> addr \<and> addr < snd (fst f)"

definition covering :: "int \<Rightarrow> ((int \<times> int) \<times> bool) list \<Rightarrow> bool \<times> bool" where
  "covering addr fs = (case find (covers addr) fs of None \<Rightarrow> (False, True) | Some f \<Rightarrow> (snd f, True))"

lemma frames_skip: "frames (dropWhile (\<lambda>l. fde_match l = None) ls) = frames ls"
  by (induction ls) auto

lemma fde_scan_open:
  "fde_scan addr ls (Some r) lsda =
     covering addr ((r, lsda \<or> list_ex (contains ''LSDA Address'') (takeWhile (\<lambda>l. fde_match l = None) ls)) # frames ls)"
proof (induction ls arbitrary: r lsda)
  case Nil
  then show ?case by (auto simp: covering_def covers_def split: prod.splits)
next
  case (Cons l ls)
  show ?case
  proof (cases "fde_match l")
    case None
    then show ?thesis using Cons by (auto simp: covering_def covers_def split: prod.splits)
  next
    case (Some r')
    then show ?thesis using Cons [of r' False] frames_skip [of ls]
      by (auto simp: covering_def covers_def split: prod.splits)
  qed
qed

lemma fde_scan_closed: "fde_scan addr ls None lsda = covering addr (frames ls)"
proof (induction ls arbitrary: lsda)
  case (Cons l ls)
  then show ?case
    by (cases "fde_match l") (auto simp: fde_scan_open frames_skip)
qed (simp add: covering_def)

section \<open>Properties\<close>

definition rax_type :: "string \<Rightarrow> bool" where
  "rax_type t \<longleftrightarrow>
     (let ts = strip t in
      ends_with ''*'' ts \<or>
      starts_any INTEGERS ts \<and> ts \<noteq> ''void'' \<and> \<not> starts_any FLOATS ts \<and> \<not> starts_any AGGREGATES ts)"

lemma classify_return_iff: "fst (classify_return t) \<longleftrightarrow> (\<exists>s. t = Some s \<and> rax_type s)"
  by (cases t) (auto simp: classify_return_def rax_type_def Let_def)

text \<open>A line imports a symbol: it is undefined there and the symbol stands as a whole word.\<close>

definition imports_symbol :: "string \<Rightarrow> string \<Rightarrow> bool" where
  "imports_symbol s line \<longleftrightarrow>
     contains '' UND '' line \<and>
     (\<exists>pre post. line = pre @ s @ post \<and> (pre = [] \<or> \<not> is_word (last pre)) \<and> (post = [] \<or> \<not> is_word (hd post)))"

lemma initiators_words: "list_all (\<lambda>s. s \<noteq> [] \<and> list_all is_word s) UNWIND_INITIATORS"
  by code_simp

lemma imports_found:
  assumes "s \<in> set UNWIND_INITIATORS" "imports_symbol s line"
  shows "search_word False s line"
proof -
  have "s \<noteq> []" "\<forall>c \<in> set s. is_word c"
    using assms(1) initiators_words by (auto simp: list_all_iff)
  moreover obtain pre post where "line = pre @ s @ post" "pre = [] \<or> \<not> is_word (last pre)"
    "post = [] \<or> \<not> is_word (hd post)"
    using assms(2) unfolding imports_symbol_def by blast
  ultimately show ?thesis by (auto intro: search_wordI)
qed

lemma unwind_clearD:
  assumes "fst (unwind_clear run b)"
  shows "\<exists>out. run [''readelf'', ''--wide'', ''--dyn-syms'', b] = Some (0, out) \<and>
    (\<forall>line \<in> set (splitlines out). \<forall>s \<in> set UNWIND_INITIATORS. \<not> imports_symbol s line)"
proof (cases "run [''readelf'', ''--wide'', ''--dyn-syms'', b]")
  case None
  then show ?thesis using assms by (simp add: unwind_clear_def sh_def)
next
  case (Some p)
  obtain rc out where p: "p = (rc, out)" by (cases p)
  have rc: "rc = 0" using assms Some p by (auto simp: unwind_clear_def sh_def split: if_splits)
  have "\<not> imports_symbol s line" if "line \<in> set (splitlines out)" "s \<in> set UNWIND_INITIATORS" for line s
  proof
    assume i: "imports_symbol s line"
    then have "search_word False s line" "contains '' UND '' line"
      using imports_found that(2) by (auto simp: imports_symbol_def)
    then have "s \<in> set (concat (map (\<lambda>line. if \<not> contains '' UND '' line then []
        else filter (\<lambda>s. search_word False s line) UNWIND_INITIATORS) (splitlines out)))"
      using that by auto
    with assms Some p rc show False by (simp add: unwind_clear_def sh_def Let_def del: set_concat concat_eq_Nil_conv)
  qed
  with Some p rc show ?thesis by auto
qed

lemma exit_admit_cases:
  "exit_admit run [x, d, r, fn] =
     (if \<not> fst (unwind_clear run r) then Inl (TypeError ''not enough arguments for format string'')
      else if fst (classify_return (return_type run d fn)) \<and>
              \<not> fst (frame_has_lsda run r (func_addr run d fn)) then Inr 0
      else Inr 1)"
  by (auto simp: exit_admit_def Let_def split: prod.splits)

lemma search_wordD:
  "search_word before w line \<Longrightarrow> \<exists>pre post. line = pre @ w @ post \<and> (if pre = [] then \<not> before else \<not> is_word (last pre)) \<and>
     (post = [] \<or> \<not> is_word (hd post))"
proof (induction line arbitrary: before)
  case (Cons c cs)
  show ?case
  proof (cases "\<not> before \<and> is_prefix w (c # cs) \<and> (case drop (length w) (c # cs) of [] \<Rightarrow> True | d # _ \<Rightarrow> \<not> is_word d)")
    case True
    then obtain post where "c # cs = w @ post" by (auto simp: is_prefix_iff)
    with True show ?thesis by (intro exI [of _ "[]"] exI [of _ post]) (auto split: list.splits)
  next
    case False
    then have "search_word (is_word c) w cs" using Cons.prems by auto
    from Cons.IH [OF this] obtain pre post where "cs = pre @ w @ post" "if pre = [] then \<not> is_word c else \<not> is_word (last pre)"
      "post = [] \<or> \<not> is_word (hd post)" by blast
    then show ?thesis by (intro exI [of _ "c # pre"] exI [of _ post]) auto
  qed
qed simp

lemma imports_iff: "s \<in> set UNWIND_INITIATORS \<Longrightarrow> contains '' UND '' line \<and> search_word False s line \<longleftrightarrow> imports_symbol s line"
proof
  assume l: "contains '' UND '' line \<and> search_word False s line"
  then obtain pre post where "line = pre @ s @ post" "if pre = [] then \<not> False else \<not> is_word (last pre)" "post = [] \<or> \<not> is_word (hd post)"
    using search_wordD by blast
  moreover from this(2) have "pre = [] \<or> \<not> is_word (last pre)" by (simp split: if_splits)
  ultimately show "imports_symbol s line" using l unfolding imports_symbol_def by blast
qed (use imports_found in \<open>auto simp: imports_symbol_def\<close>)

lemma unwind_clear_iff:
  "fst (unwind_clear run b) \<longleftrightarrow> (\<exists>out. run [''readelf'', ''--wide'', ''--dyn-syms'', b] = Some (0, out) \<and>
    (\<forall>line \<in> set (splitlines out). \<forall>s \<in> set UNWIND_INITIATORS. \<not> imports_symbol s line))"
proof
  assume "\<exists>out. run [''readelf'', ''--wide'', ''--dyn-syms'', b] = Some (0, out) \<and>
    (\<forall>line \<in> set (splitlines out). \<forall>s \<in> set UNWIND_INITIATORS. \<not> imports_symbol s line)"
  then obtain out where o: "run [''readelf'', ''--wide'', ''--dyn-syms'', b] = Some (0, out)"
    "\<forall>line \<in> set (splitlines out). \<forall>s \<in> set UNWIND_INITIATORS. \<not> imports_symbol s line" by blast
  have "concat (map (\<lambda>line. if \<not> contains '' UND '' line then []
      else filter (\<lambda>s. search_word False s line) UNWIND_INITIATORS) (splitlines out)) = []"
    using o(2) imports_iff by (fastforce simp: filter_empty_conv)
  then show "fst (unwind_clear run b)" using o(1) by (simp add: unwind_clear_def sh_def del: concat_eq_Nil_conv)
qed (rule unwind_clearD)

text \<open>A landing pad was found: the frames could be dumped, and the first that covers the function carries one.\<close>

definition landing_pad :: "runner \<Rightarrow> string \<Rightarrow> string \<Rightarrow> string \<Rightarrow> bool" where
  "landing_pad run d r fn \<longleftrightarrow>
     (\<exists>dd out a f. which_dwarfdump run = Some dd \<and> run [dd, ''--eh-frame'', r] = Some (0, out) \<and>
        func_addr run d fn = Some a \<and> find (covers a) (frames (splitlines out)) = Some f \<and> snd f)"

lemma landing_pad_iff: "fst (frame_has_lsda run r (func_addr run d fn)) \<longleftrightarrow> landing_pad run d r fn"
  by (auto simp: frame_has_lsda_def landing_pad_def sh_def fde_scan_closed covering_def split: option.splits prod.splits if_splits)


definition sample_run :: runner where
  "sample_run = [
     [''gdb'', ''-q'', ''-batch'', ''-ex'', ''ptype f'', ''d''] \<mapsto> (0, ''type = int (struct flow *)''),
     [''readelf'', ''--wide'', ''--dyn-syms'', ''r''] \<mapsto> (0, ''  1: 0 FUNC GLOBAL DEFAULT UND malloc@GLIBC''),
     [''nm'', ''d''] \<mapsto> (0, ''00000010 T f''),
     [''llvm-dwarfdump'', ''--version''] \<mapsto> (0, ''''),
     [''llvm-dwarfdump'', ''--eh-frame'', ''r''] \<mapsto> (0, ''0 FDE cie=0 pc=00000000...00000020'')]"


text \<open>
Where the gate does not do what its description says. A binary that imports an unwind initiator, or
whose symbols cannot be read, makes the gate raise \<^verbatim>\<open>TypeError\<close> instead of reporting a refusal and its
reason; and a target whose frame tables cannot be examined, because no dump tool runs, the dump fails
or the function has no address, is admitted when the other two checks pass, where the description says
that an undecided target is refused with code 2; that code is returned for a wrong argument count only.
\<close>

theorem exit_admit_gaps:
  "(\<not> fst (unwind_clear run r) \<longrightarrow>
      exit_admit run [x, d, r, fn] = Inl (TypeError ''not enough arguments for format string'')) \<and>
   (fst (unwind_clear run r) \<and> fst (classify_return (return_type run d fn)) \<and>
      \<not> snd (frame_has_lsda run r (func_addr run d fn)) \<longrightarrow> exit_admit run [x, d, r, fn] = Inr 0) \<and>
   (exit_admit run argv = Inr 2 \<longleftrightarrow> length argv \<noteq> 4)"
proof -
  have "\<not> fst (frame_has_lsda run r a)" if "\<not> snd (frame_has_lsda run r a)" for a
    using that by (auto simp: frame_has_lsda_def fde_scan_closed covering_def split: option.splits prod.splits if_splits)
  moreover have "exit_admit run argv = Inr 2 \<longleftrightarrow> length argv \<noteq> 4"
  proof (cases "length argv = 4")
    case True
    then obtain x d r f where "argv = [x, d, r, f]"
      by (auto simp: numeral_eq_Suc length_Suc_conv)
    then show ?thesis by (simp add: exit_admit_cases)
  next
    case False
    then show ?thesis by (auto simp: exit_admit_def split: list.splits)
  qed
  ultimately show ?thesis by (simp add: exit_admit_cases)
qed

theorem exit_admit_gaps_witness:
  "exit_admit (sample_run([''readelf'', ''--wide'', ''--dyn-syms'', ''r''] \<mapsto> (0, ''1: UND __cxa_throw'')))
     [''exit_admit.py'', ''d'', ''r'', ''f''] = Inl (TypeError ''not enough arguments for format string'') \<and>
   exit_admit (sample_run([''llvm-dwarfdump'', ''--version''] := None))
     [''exit_admit.py'', ''d'', ''r'', ''f''] = Inr 0"
proof
  let ?r = "sample_run([''readelf'', ''--wide'', ''--dyn-syms'', ''r''] \<mapsto> (0, ''1: UND __cxa_throw''))"
  have "\<not> fst (unwind_clear ?r ''r'')" by code_simp
  then show "exit_admit ?r [''exit_admit.py'', ''d'', ''r'', ''f''] =
      Inl (TypeError ''not enough arguments for format string'')"
    using exit_admit_gaps by blast
  let ?s = "sample_run([''llvm-dwarfdump'', ''--version''] := None)"
  have "fst (unwind_clear ?s ''r'') \<and> fst (classify_return (return_type ?s ''d'' ''f'')) \<and>
      \<not> snd (frame_has_lsda ?s ''r'' (func_addr ?s ''d'' ''f''))" by code_simp
  then show "exit_admit ?s [''exit_admit.py'', ''d'', ''r'', ''f''] = Inr 0"
    using exit_admit_gaps by blast
qed

end
