(* ===== verification/Bind_Target.thy ===== *)
theory Bind_Target
  imports Build_Id Exit_Admit
begin

text \<open>
  \<^verbatim>\<open>substrate/bind_target.py\<close>: resolves one attachment on the build machine and stores it in the
  program as the 64-byte section \<^verbatim>\<open>.ls.target\<close>. The file system is a map from paths to contents,
  \<^verbatim>\<open>objcopy\<close> is a parameter, and the exit-hook admission it starts as a process is the model of
  \<^verbatim>\<open>exit_admit.py\<close>.
\<close>

unbundle bit_operations_syntax

definition MAGIC :: bytes where
  "MAGIC = [0x4C, 0x53, 0x54, 0x41, 0x52, 0x47, 0x31, 0x00]"

definition ascii :: "string \<Rightarrow> bytes" where
  "ascii s = map (\<lambda>c. word_of_nat (of_char c)) s"

section \<open>Sections\<close>

record sect =
  st_name :: nat
  st_offset :: nat
  st_size :: nat

definition sect_at :: "bytes \<Rightarrow> nat \<Rightarrow> sect" where
  "sect_at blob off =
     \<lparr>st_name = nat (u32 blob off), st_offset = nat (u64 blob (off + 24)), st_size = nat (u64 blob (off + 32))\<rparr>"

definition elf64 :: "bytes \<Rightarrow> bool" where
  "elf64 blob = (take 6 blob = ELF_MAGIC @ [2, 1])"

definition sections :: "bytes \<Rightarrow> (string \<times> sect) list result" where
  "sections blob =
     (if length blob < 64 \<or> \<not> elf64 blob then Inl (ValueError ''expected little-endian ELF64'')
      else
        let off = nat (u64 blob 40); sz = nat (u16 blob 58); count = nat (u16 blob 60); strings = nat (u16 blob 62) in
        if sz \<noteq> 64 \<or> count = 0 \<or> strings \<ge> count \<or> off + sz * count > length blob
        then Inl (ValueError ''invalid ELF section table'')
        else
          let table = map (\<lambda>i. sect_at blob (off + i * sz)) [0..<count]; s = table ! strings in
          if st_offset s + st_size s > length blob then Inl (ValueError ''truncated section names'')
          else
            let names = pyslice (st_offset s) (st_offset s + st_size s) blob in
            emap (\<lambda>h.
              case find_from [0] (st_name h) names of
                None \<Rightarrow> Inl (ValueError ''unterminated section name'')
              | Some e \<Rightarrow> ebind (decode_ascii (pyslice (st_name h) e names)) (\<lambda>n. Inr (n, h))) table)"

definition program_section :: "bytes \<Rightarrow> string result" where
  "program_section blob =
     ebind (sections blob) (\<lambda>ss.
       case filter (\<lambda>n. is_prefix ''fentry/'' n \<or> is_prefix ''fexit/'' n) (map fst ss) of
         [n] \<Rightarrow> Inr n
       | _ \<Rightarrow> Inl (ValueError ''expected exactly one fentry/ or fexit/ section''))"

section \<open>The attachment\<close>

fun read_rows :: "string \<Rightarrow> string list \<Rightarrow> (string \<rightharpoonup> string) \<times> string list list \<Rightarrow>
    (string \<rightharpoonup> string) \<times> string list list" where
  "read_rows hook [] st = st"
| "read_rows hook (line # rest) (meta, cands) =
     (let fs = split_on (CHR 0x09) line in
      if is_prefix ''#'' line \<and> length fs \<ge> 2 then read_rows hook rest (meta(drop 1 (fs ! 0) \<mapsto> fs ! 1), cands)
      else if fs ! 0 = hook then read_rows hook rest (meta, cands @ [fs])
      else read_rows hook rest (meta, cands))"

definition entry_pad :: "int \<Rightarrow> bytes" where
  "entry_pad pad = (if pad \<noteq> 0 then [0xF3, 0x0F, 0x1E, 0xFA] else []) @ replicate 5 0x90"

record segment =
  sg_type :: int
  sg_flags :: int
  sg_offset :: int
  sg_va :: int
  sg_filesz :: int

definition segment_at :: "bytes \<Rightarrow> nat \<Rightarrow> segment" where
  "segment_at blob o' =
     \<lparr>sg_type = u32 blob o', sg_flags = u32 blob (o' + 4), sg_offset = u64 blob (o' + 8),
      sg_va = u64 blob (o' + 16), sg_filesz = u64 blob (o' + 32)\<rparr>"

definition holds :: "int \<Rightarrow> nat \<Rightarrow> segment \<Rightarrow> bool" where
  "holds entry n s \<longleftrightarrow>
     sg_type s = 1 \<and> sg_flags s AND 1 \<noteq> 0 \<and> sg_va s \<le> entry \<and> entry - sg_va s + int n \<le> sg_filesz s"

fun check_segments :: "bytes \<Rightarrow> int \<Rightarrow> bytes \<Rightarrow> segment list \<Rightarrow> unit result" where
  "check_segments blob entry expected [] = Inl (ValueError ''target is outside file-backed executable segments'')"
| "check_segments blob entry expected (s # rest) =
     (if holds entry (length expected) s then
        let at = nat (sg_offset s + entry - sg_va s) in
        if pyslice at (at + length expected) blob \<noteq> expected
        then Inl (ValueError ''index target does not have its declared entry pad'')
        else Inr ()
      else check_segments blob entry expected rest)"

definition segments_of :: "bytes \<Rightarrow> segment list result" where
  "segments_of blob =
     (if \<not> elf64 blob then Inl (ValueError ''target must be x86-64 ET_EXEC; PIE is not supported'')
      else ebind (need_bytes blob 16 4 (u16 blob 16, u16 blob 18)) (\<lambda>t.
        if t \<noteq> (2, 62) then Inl (ValueError ''target must be x86-64 ET_EXEC; PIE is not supported'')
        else ebind (need_bytes blob 32 8 (nat (u64 blob 32))) (\<lambda>phoff.
             ebind (need_bytes blob 54 4 (nat (u16 blob 54), nat (u16 blob 56))) (\<lambda>(sz, count).
               if sz \<noteq> 56 \<or> phoff + count * sz > length blob
               then Inl (ValueError ''invalid executable segment table'')
               else Inr (map (\<lambda>i. segment_at blob (phoff + i * sz)) [0..<count])))))"

definition resolve :: "string \<Rightarrow> bytes \<Rightarrow> string \<Rightarrow> (string \<times> int \<times> int) result" where
  "resolve index binary hook =
     ebind (build_id binary) (\<lambda>bid.
       if bid = [] \<or> length bid \<noteq> 40 then Inl (ValueError ''target requires a full 20-byte GNU build ID'')
       else
         let (meta, cands) = read_rows hook (splitlines index) (Map.empty, []) in
         if meta ''build_id'' \<noteq> Some bid then Inl (ValueError ''hook index BUILD ID MISMATCH'')
         else case cands of
           [row] \<Rightarrow>
             if length row < 4 \<or> row ! 2 \<noteq> ''pad'' \<or> row ! 3 \<notin> {''0'', ''4''}
             then Inl (ValueError ''target is not a supported +0/+4 padded entry'')
             else ebind (parse_int (row ! 3)) (\<lambda>pad.
                  ebind (parse_int0 (row ! 1)) (\<lambda>arm.
                    let entry = arm - pad in
                    ebind (segments_of binary) (\<lambda>segs.
                    ebind (check_segments binary entry (entry_pad pad) segs) (\<lambda>_. Inr (bid, entry, pad)))))
         | _ \<Rightarrow> Inl (ValueError ''target missing or ambiguous in hook index''))"

section \<open>The record and the tool\<close>

text \<open>\<^verbatim>\<open>struct.pack("<8s40sQBB6x", ...)\<close>.\<close>

definition target_record :: "string \<Rightarrow> int \<Rightarrow> bool \<Rightarrow> int \<Rightarrow> bytes result" where
  "target_record bid entry is_exit pad =
     ebind (pack_u64 entry) (\<lambda>e.
       if 0 \<le> pad \<and> pad < 256
       then Inr (MAGIC @ (take 40 (ascii bid) @ replicate (40 - length bid) 0) @ e @
                 [if is_exit then 1 else 0, word_of_int pad] @ replicate 6 0)
       else Inl StructError)"

record bind_args =
  ba_prog :: string
  ba_index :: string
  ba_binary :: string
  ba_debug :: "string option"

definition read_file :: "(string \<rightharpoonup> bytes) \<Rightarrow> string \<Rightarrow> bytes result" where
  "read_file fs p = (case fs p of None \<Rightarrow> Inl (Rejected ''OSError'') | Some b \<Rightarrow> Inr b)"

definition admit_exit ::
  "runner \<Rightarrow> (string \<rightharpoonup> bytes) \<Rightarrow> bind_args \<Rightarrow> string \<Rightarrow> string \<Rightarrow> unit result" where
  "admit_exit run fs a bid hook =
     (case ba_debug a of
        None \<Rightarrow> Inl (ValueError ''fexit requires a matching debug binary for return/unwind admission'')
      | Some d \<Rightarrow>
          if d = [] then Inl (ValueError ''fexit requires a matching debug binary for return/unwind admission'')
          else ebind (read_file fs d) (\<lambda>dbg. ebind (build_id dbg) (\<lambda>i.
            if i \<noteq> bid then Inl (ValueError ''fexit requires a matching debug binary for return/unwind admission'')
            else if exit_admit run [''exit_admit.py'', d, ba_binary a, hook] = Inr 0 then Inr ()
            else Inl (Rejected ''CalledProcessError''))))"

text \<open>\<^verbatim>\<open>sec.split("/", 1)[1]\<close>.\<close>

definition after_slash :: "string \<Rightarrow> string" where
  "after_slash sec = split_max 1 (CHR ''/'') sec ! 1"

text \<open>The object is rewritten only if \<^verbatim>\<open>objcopy\<close> kept the record in a single section.\<close>

definition preserved :: "bytes \<Rightarrow> bytes \<Rightarrow> bytes result" where
  "preserved r out =
     ebind (sections out) (\<lambda>ss.
       case filter (\<lambda>(n, s). n = ''.ls.target'') ss of
         [(n, s)] \<Rightarrow>
           if pyslice (st_offset s) (st_offset s + st_size s) out \<noteq> r
           then Inl (ValueError ''objcopy did not preserve the target record'')
           else Inr out
       | _ \<Rightarrow> Inl (ValueError ''objcopy did not preserve the target record''))"

text \<open>The part of \<^verbatim>\<open>main\<close> behind \<^verbatim>\<open>resolve\<close>, and the whole \<^verbatim>\<open>try\<close> block.\<close>

definition store_target ::
  "runner \<Rightarrow> (bytes \<Rightarrow> bytes \<Rightarrow> bytes option) \<Rightarrow> (string \<rightharpoonup> bytes) \<Rightarrow> bind_args \<Rightarrow> bytes \<Rightarrow> string \<Rightarrow>
     string \<times> int \<times> int \<Rightarrow> bytes result"
where
  "store_target run objcopy fs a blob sec t =
     (case t of (bid, entry, pad) \<Rightarrow>
        let is_exit = is_prefix ''fexit/'' sec in
        ebind (if is_exit then admit_exit run fs a bid (after_slash sec) else Inr ()) (\<lambda>_.
        ebind (target_record bid entry is_exit pad) (\<lambda>r.
        ebind (case objcopy r blob of None \<Rightarrow> Inl (Rejected ''CalledProcessError'') | Some out \<Rightarrow> Inr out)
          (preserved r))))"

definition bind_body ::
  "runner \<Rightarrow> (bytes \<Rightarrow> bytes \<Rightarrow> bytes option) \<Rightarrow> (string \<rightharpoonup> bytes) \<Rightarrow> (string \<rightharpoonup> string) \<Rightarrow> bind_args \<Rightarrow> bytes result"
where
  "bind_body run objcopy fs texts a =
     ebind (read_file fs (ba_prog a)) (\<lambda>blob.
     ebind (program_section blob) (\<lambda>sec.
     ebind (read_file fs (ba_binary a)) (\<lambda>binary.
     ebind (case texts (ba_index a) of None \<Rightarrow> Inl (Rejected ''OSError'') | Some t \<Rightarrow> Inr t) (\<lambda>index.
     ebind (resolve index binary (after_slash sec)) (store_target run objcopy fs a blob sec)))))"

text \<open>The exceptions of the final \<^verbatim>\<open>except\<close>; \<open>Rejected\<close> stands for \<^verbatim>\<open>OSError\<close> and \<^verbatim>\<open>CalledProcessError\<close>.\<close>

fun caught :: "exn \<Rightarrow> bool" where
  "caught (ValueError _) = True"
| "caught StructError = True"
| "caught (Rejected _) = True"
| "caught _ = False"

definition bind_main ::
  "runner \<Rightarrow> (bytes \<Rightarrow> bytes \<Rightarrow> bytes option) \<Rightarrow> (string \<rightharpoonup> bytes) \<Rightarrow> (string \<rightharpoonup> string) \<Rightarrow> bind_args \<Rightarrow> bytes result"
where
  "bind_main run objcopy fs texts a =
     (case bind_body run objcopy fs texts a of
        Inl e \<Rightarrow> if caught e then Inl (SystemExit ''target binding refused'') else Inl e
      | Inr out \<Rightarrow> Inr out)"

section \<open>Lemmas\<close>

lemma check_segmentsD:
  "check_segments blob entry ex segs = Inr () \<Longrightarrow>
     \<exists>s \<in> set segs. holds entry (length ex) s \<and>
       pyslice (nat (sg_offset s + entry - sg_va s)) (nat (sg_offset s + entry - sg_va s) + length ex) blob = ex"
  by (induction segs) (auto simp: Let_def split: if_splits)

lemma resolveD:
  assumes "resolve index binary hook = Inr (bid, entry, pad)"
  shows "build_id binary = Inr bid" "length bid = 40" "pad \<in> {0, 4}"
    and "\<exists>meta row. read_rows hook (splitlines index) (Map.empty, []) = (meta, [row]) \<and>
       meta ''build_id'' = Some bid \<and> parse_int0 (row ! 1) = Inr (entry + pad)"
    and "\<exists>segs. segments_of binary = Inr segs \<and> check_segments binary entry (entry_pad pad) segs = Inr ()"
proof -
  obtain meta cands where rr: "read_rows hook (splitlines index) (Map.empty, []) = (meta, cands)" by fastforce
  obtain row where row: "cands = [row]"
    using assms rr by (cases cands; cases "tl cands") (auto simp: resolve_def err_simps split: if_splits)
  with assms rr obtain arm segs where *: "build_id binary = Inr bid" "length bid = 40"
    "meta ''build_id'' = Some bid" "row ! 3 \<in> {''0'', ''4''}" "parse_int (row ! 3) = Inr pad"
    "parse_int0 (row ! 1) = Inr arm" "entry = arm - pad" "segments_of binary = Inr segs"
    "check_segments binary entry (entry_pad pad) segs = Inr ()"
    by (auto simp: resolve_def err_simps Let_def split: if_splits)
  have "parse_int ''0'' = Inr 0" "parse_int ''4'' = Inr 4" by code_simp+
  with * rr row show "build_id binary = Inr bid" "length bid = 40" "pad \<in> {0, 4}"
    "\<exists>meta row. read_rows hook (splitlines index) (Map.empty, []) = (meta, [row]) \<and>
       meta ''build_id'' = Some bid \<and> parse_int0 (row ! 1) = Inr (entry + pad)"
    "\<exists>segs. segments_of binary = Inr segs \<and> check_segments binary entry (entry_pad pad) segs = Inr ()"
    by auto
qed

text \<open>The 64-byte record read back field by field.\<close>

definition decode_target :: "bytes \<Rightarrow> (string \<times> int \<times> bool \<times> int) option" where
  "decode_target r =
     (if length r = 64 \<and> take 8 r = MAGIC
      then Some (map (\<lambda>b. char_of (unat b)) (pyslice 8 48 r), u64 r 48, r ! 56 \<noteq> 0, uint (r ! 57))
      else None)"

lemma ascii_back: "map (\<lambda>b. char_of (unat b)) (ascii s) = s"
proof -
  have "unat (word_of_nat (of_char c) :: byte) = of_char c" for c
    by (simp add: unat_of_nat)
  then show ?thesis by (simp add: ascii_def comp_def)
qed

lemma decode_target_record:
  assumes "target_record bid entry x pad = Inr r" "length bid = 40"
  shows "decode_target r = Some (bid, entry, x, pad)"
proof -
  define f where "f = [if x then 1 else 0, word_of_int pad :: byte]"
  have e: "0 \<le> entry" "entry < 18446744073709551616" "0 \<le> pad" "pad < 256"
    and r: "r = MAGIC @ ascii bid @ le_bytes 8 entry @ f @ replicate 6 0"
    using assms by (auto simp: target_record_def err_simps pack_u64_def ascii_def f_def split: if_splits)
  have l: "length MAGIC = 8" "length (ascii bid) = 40" using assms(2) by (simp_all add: MAGIC_def ascii_def)
  have "pyslice 8 48 r = ascii bid" using slice_at [of MAGIC 8 "ascii bid" 40] l r by simp
  moreover have "u64 r 48 = entry" using u_at(3) [of "MAGIC @ ascii bid" 48 entry] l e r by simp
  moreover have "r ! 56 = (if x then 1 else 0)" "r ! 57 = word_of_int pad"
    using l by (auto simp: r nth_append f_def)
  moreover have "uint (word_of_int pad :: byte) = pad" using e by (simp add: uint_word_of_int)
  moreover have "length r = 64" "take 8 r = MAGIC" using l by (auto simp: r f_def)
  ultimately show ?thesis by (simp add: decode_target_def ascii_back)
qed

lemma build_id_fails: "fails_in caught (build_id b)"
proof -
  have rd: "fails_in caught (read_exact b off n)" for off n by (simp add: read_exact_def Let_def)
  have sn: "fails_in caught (section_notes (read_exact b) o' s strs is)" for o' s strs "is"
    by (induction "is") (auto simp: rd split: option.splits)
  have sp: "fails_in caught (note_spans (read_exact b) o' s is)" for o' s "is"
    by (induction "is") (auto simp: rd)
  have pn: "fails_in caught (span_notes (read_exact b) spans)" for spans
    by (induction spans) (auto simp: rd split: option.splits)
  show ?thesis
    unfolding build_id_def find_note_def section_id_def segment_id_def
    by (auto simp: rd sn sp pn split: option.splits prod.splits)
qed

lemma emap_fails: "(\<And>x. fails_in P (f x)) \<Longrightarrow> fails_in P (emap f xs)"
  by (induction xs) auto

lemma sections_fails: "fails_in caught (sections b)"
  unfolding sections_def Let_def
  by (auto intro!: emap_fails simp: decode_ascii_def split: option.splits)

lemma resolve_fails: "fails_in caught (resolve i b h)"
proof -
  have "fails_in caught (parse_int x)" "fails_in caught (parse_int0 x)" for x
    by (auto simp: parse_int_def parse_int0_def Let_def split: option.splits prod.splits)
  moreover have "fails_in caught (check_segments b' e ex segs)" for b' e ex segs
    by (induction segs) (auto simp: Let_def)
  moreover have "fails_in caught (segments_of b')" for b'
    unfolding segments_of_def by (auto split: prod.splits)
  ultimately show ?thesis
    unfolding resolve_def Let_def by (auto simp: build_id_fails split: prod.splits list.splits)
qed

lemma bind_body_fails: "fails_in caught (bind_body run objcopy fs texts a)"
proof -
  have "fails_in caught (read_file fs' p)" for fs' p by (simp add: read_file_def split: option.splits)
  moreover have "fails_in caught (target_record x y z w)" for x y z w
    by (auto simp: target_record_def pack_u64_def)
  moreover have "fails_in caught (program_section b)" for b
    unfolding program_section_def by (auto simp: sections_fails split: list.splits)
  moreover have "fails_in caught (preserved r out)" for r out
    unfolding preserved_def by (auto simp: sections_fails split: list.splits)
  moreover have "fails_in caught (admit_exit run fs a bid h)" for bid h
    unfolding admit_exit_def by (auto simp: build_id_fails read_file_def split: option.splits)
  ultimately show ?thesis
    unfolding bind_body_def store_target_def Let_def by (auto simp: resolve_fails split: option.splits prod.splits)
qed

lemma preservedD:
  assumes "preserved r out = Inr out'"
  obtains ss s where "out' = out" "sections out = Inr ss"
    "filter (\<lambda>(n, s). n = ''.ls.target'') ss = [(''.ls.target'', s)]"
    "pyslice (st_offset s) (st_offset s + st_size s) out = r"
proof -
  obtain ss where ss: "sections out = Inr ss" using assms by (auto simp: preserved_def err_simps)
  let ?f = "filter (\<lambda>(n, s). n = ''.ls.target'') ss"
  obtain n s where f: "?f = [(n, s)]"
    using assms ss by (cases ?f; cases "tl ?f") (auto simp: preserved_def)
  then have "(n, s) \<in> set ?f" by simp
  then have n: "n = ''.ls.target''" unfolding set_filter by simp
  have "out' = out \<and> pyslice (st_offset s) (st_offset s + st_size s) out = r"
    using assms ss f by (simp add: preserved_def split: if_splits)
  then show thesis using that [OF _ ss] f n by simp
qed

lemma preserved_same: "preserved r x = Inr out \<Longrightarrow> x = out"
  by (elim preservedD) simp

lemma store_targetD:
  assumes "store_target run objcopy fs a blob sec (bid, entry, pad) = Inr out"
  shows "(is_prefix ''fexit/'' sec \<longrightarrow> admit_exit run fs a bid (after_slash sec) = Inr ()) \<and>
    (\<exists>r. target_record bid entry (is_prefix ''fexit/'' sec) pad = Inr r \<and> preserved r out = Inr out)"
proof -
  from assms obtain r x where "is_prefix ''fexit/'' sec \<longrightarrow> admit_exit run fs a bid (after_slash sec) = Inr ()"
    "target_record bid entry (is_prefix ''fexit/'' sec) pad = Inr r" "preserved r x = Inr out"
    by (auto simp: store_target_def err_simps Let_def split: if_splits)
  with preserved_same show ?thesis by blast
qed

lemma bind_bodyD:
  assumes "bind_body run objcopy fs texts a = Inr out"
  shows "\<exists>blob sec binary index t. fs (ba_prog a) = Some blob \<and> program_section blob = Inr sec \<and>
    fs (ba_binary a) = Some binary \<and> texts (ba_index a) = Some index \<and>
    resolve index binary (after_slash sec) = Inr t \<and> store_target run objcopy fs a blob sec t = Inr out"
  using assms by (auto simp: bind_body_def read_file_def err_simps split: option.splits)

lemma admit_exitD:
  "admit_exit run fs a bid h = Inr () \<Longrightarrow>
     \<exists>d. ba_debug a = Some d \<and> exit_admit run [''exit_admit.py'', d, ba_binary a, h] = Inr 0"
  by (auto simp: admit_exit_def err_simps split: option.splits if_splits)

section \<open>Properties\<close>

text \<open>
C33. What a bound program carries: when binding succeeds, the written object has one \<^verbatim>\<open>.ls.target\<close> section,
and its 64 bytes name the full build id of the target binary, the entry address, whether the one program section of
the given object is an exit hook, and the pad. The hook index is for that build and has one row for the name in
that section, which arms the entry plus the pad; the binary holds the declared entry bytes (an \<^verbatim>\<open>endbr64\<close> if the pad is 4, then
five nops) at that address in an executable segment; and an exit hook was admitted by the exit gate.
\<close>

theorem bind_target_sound:
  assumes "bind_main run objcopy fs texts a = Inr out"
  shows "\<exists>blob sec s bid entry pad index binary ss.
    fs (ba_prog a) = Some blob \<and> program_section blob = Inr sec \<and> sections out = Inr ss \<and> filter (\<lambda>(n, s). n = ''.ls.target'') ss = [(''.ls.target'', s)] \<and>
    decode_target (pyslice (st_offset s) (st_offset s + st_size s) out) =
      Some (bid, entry, is_prefix ''fexit/'' sec, pad) \<and>
    fs (ba_binary a) = Some binary \<and> texts (ba_index a) = Some index \<and>
    build_id binary = Inr bid \<and> length bid = 40 \<and> pad \<in> {0, 4} \<and>
    (\<exists>meta row. read_rows (after_slash sec) (splitlines index) (Map.empty, []) = (meta, [row]) \<and>
       meta ''build_id'' = Some bid \<and> parse_int0 (row ! 1) = Inr (entry + pad)) \<and>
    (\<exists>segs g. segments_of binary = Inr segs \<and> g \<in> set segs \<and> holds entry (length (entry_pad pad)) g \<and>
       pyslice (nat (sg_offset g + entry - sg_va g)) (nat (sg_offset g + entry - sg_va g) + length (entry_pad pad)) binary
         = entry_pad pad) \<and>
    (is_prefix ''fexit/'' sec \<longrightarrow>
       (\<exists>d. ba_debug a = Some d \<and> exit_admit run [''exit_admit.py'', d, ba_binary a, after_slash sec] = Inr 0))"
proof -
  have "bind_body run objcopy fs texts a = Inr out"
    using assms by (auto simp: bind_main_def split: sum.splits if_splits)
  from bind_bodyD [OF this] obtain blob sec binary index bid entry pad where
    b: "fs (ba_binary a) = Some binary" "texts (ba_index a) = Some index" "fs (ba_prog a) = Some blob" "program_section blob = Inr sec"
    and res: "resolve index binary (after_slash sec) = Inr (bid, entry, pad)"
    and st: "store_target run objcopy fs a blob sec (bid, entry, pad) = Inr out"
    by (metis prod_cases3)
  from store_targetD [OF st] obtain r where
    adm: "is_prefix ''fexit/'' sec \<longrightarrow> admit_exit run fs a bid (after_slash sec) = Inr ()"
    and r: "target_record bid entry (is_prefix ''fexit/'' sec) pad = Inr r" and p: "preserved r out = Inr out"
    by blast
  from p obtain ss s where ss: "sections out = Inr ss" "filter (\<lambda>(n, s). n = ''.ls.target'') ss = [(''.ls.target'', s)]"
    "pyslice (st_offset s) (st_offset s + st_size s) out = r" by (elim preservedD)
  note d = resolveD [OF res]
  have "decode_target (pyslice (st_offset s) (st_offset s + st_size s) out) = Some (bid, entry, is_prefix ''fexit/'' sec, pad)"
    using decode_target_record [OF r d(2)] ss(3) by simp
  moreover have "\<exists>segs g. segments_of binary = Inr segs \<and> g \<in> set segs \<and> holds entry (length (entry_pad pad)) g \<and>
       pyslice (nat (sg_offset g + entry - sg_va g)) (nat (sg_offset g + entry - sg_va g) + length (entry_pad pad)) binary
         = entry_pad pad"
    using d(5) check_segmentsD by blast
  moreover have "is_prefix ''fexit/'' sec \<longrightarrow>
      (\<exists>d. ba_debug a = Some d \<and> exit_admit run [''exit_admit.py'', d, ba_binary a, after_slash sec] = Inr 0)"
    using adm admit_exitD by blast
  ultimately show ?thesis using b ss(1,2) d(1-4) by blast
qed

text \<open>A program object with one \<^verbatim>\<open>fentry/\<close> section, and a target binary with a padded entry at 0x1000.\<close>

definition sh_row :: "int \<Rightarrow> int \<Rightarrow> int \<Rightarrow> bytes" where
  "sh_row n o' z = le_bytes 4 n @ replicate 20 0 @ le_bytes 8 o' @ le_bytes 8 z @ replicate 24 0"

definition small_object :: "string \<Rightarrow> bytes \<Rightarrow> bytes" where
  "small_object nm body =
     (let names = ascii nm @ [0] in
      ELF_MAGIC @ [2, 1] @ replicate 34 0 @ le_bytes 8 64 @ replicate 10 0 @ le_bytes 2 64 @ le_bytes 2 2 @ le_bytes 2 1 @
      sh_row 0 (192 + int (length names)) (int (length body)) @ sh_row (int (length nm)) 192 (int (length names)) @
      names @ body)"

definition small_binary :: bytes where
  "small_binary =
     ELF_MAGIC @ [2, 1] @ replicate 10 0 @ le_bytes 2 2 @ le_bytes 2 62 @ replicate 12 0 @ le_bytes 8 64 @ replicate 14 0 @
     le_bytes 2 56 @ le_bytes 2 2 @ replicate 6 0 @
     (le_bytes 4 4 @ replicate 4 0 @ le_bytes 8 176 @ replicate 16 0 @ le_bytes 8 36 @ replicate 16 0) @
     (le_bytes 4 1 @ le_bytes 4 5 @ le_bytes 8 212 @ le_bytes 8 4096 @ replicate 8 0 @ le_bytes 8 9 @ replicate 16 0) @
     note_header 20 @ sample_id @ entry_pad 4"

definition small_record :: bytes where
  "small_record = MAGIC @ ascii (to_hex sample_id) @ le_bytes 8 4096 @ [0, 4] @ replicate 6 0"

definition small_index :: string where
  "small_index = ''#build_id'' @ [CHR 0x09] @ to_hex sample_id @ [CHR 0x0A] @
     ''f'' @ [CHR 0x09] @ ''0x1004'' @ [CHR 0x09] @ ''pad'' @ [CHR 0x09] @ ''4'' @ [CHR 0x0A]"

lemma small_resolve: "resolve small_index small_binary ''f'' = Inr (to_hex sample_id, 4096, 4)"
  by code_simp

lemma small_bind:
  "bind_main (\<lambda>_. None) (\<lambda>r p. Some (small_object ''.ls.target'' r))
     [''p'' \<mapsto> small_object ''fentry/f'' [], ''b'' \<mapsto> small_binary] [''i'' \<mapsto> small_index]
     \<lparr>ba_prog = ''p'', ba_index = ''i'', ba_binary = ''b'', ba_debug = None\<rparr> =
   Inr (small_object ''.ls.target'' small_record)"
proof -
  have p: "program_section (small_object ''fentry/f'' []) = Inr ''fentry/f''" by code_simp
  have s: "after_slash ''fentry/f'' = ''f''" by code_simp
  have r: "target_record (to_hex sample_id) 4096 False 4 = Inr small_record" by code_simp
  have k: "preserved small_record (small_object ''.ls.target'' small_record) =
      Inr (small_object ''.ls.target'' small_record)" by code_simp
  show ?thesis
    by (simp add: bind_main_def bind_body_def read_file_def p s small_resolve store_target_def r k)
qed

theorem bind_target_sound_witness:
  "\<exists>ss s bid entry pad. bind_main (\<lambda>_. None) (\<lambda>r p. Some (small_object ''.ls.target'' r))
     [''p'' \<mapsto> small_object ''fentry/f'' [], ''b'' \<mapsto> small_binary] [''i'' \<mapsto> small_index]
     \<lparr>ba_prog = ''p'', ba_index = ''i'', ba_binary = ''b'', ba_debug = None\<rparr> =
       Inr (small_object ''.ls.target'' small_record) \<and>
     sections (small_object ''.ls.target'' small_record) = Inr ss \<and>
     filter (\<lambda>(n, s). n = ''.ls.target'') ss = [(''.ls.target'', s)] \<and> build_id small_binary = Inr bid \<and>
     decode_target (pyslice (st_offset s) (st_offset s + st_size s) (small_object ''.ls.target'' small_record)) =
       Some (bid, entry, False, pad)"
proof -
  have "program_section (small_object ''fentry/f'' []) = Inr ''fentry/f''" by code_simp
  then show ?thesis using bind_target_sound [OF small_bind] small_bind by auto
qed

text \<open>
Every failure of the binding tool is its own refusal: whatever the object, the binary, the index or
the external tools contain, \<^verbatim>\<open>main\<close> either writes a bound object or exits with the refusal text; no
other exception escapes.
\<close>

theorem bind_target_refuses:
  "(\<exists>out. bind_main run objcopy fs texts a = Inr out) \<or>
   bind_main run objcopy fs texts a = Inl (SystemExit ''target binding refused'')"
  using bind_body_fails [of run objcopy fs texts a]
  by (auto simp: bind_main_def fails_in_def split: sum.splits)

end
