(* ===== verification/Hook_Index.thy ===== *)
theory Hook_Index
  imports Hook_Map Loader_Cli Bind_Target
begin

text \<open>
  The index file between its writer, the hook map generator (\<^verbatim>\<open>mk_hook_map.py\<close>), and its two readers, the
  loader client (\<^verbatim>\<open>ls-load.py\<close>) and the target binding tool (\<^verbatim>\<open>bind_target.py\<close>). What a reader has to do with a line is the
  locale \<open>index_reader\<close>; both readers are instances, and for both the lines of a written index read back as the
  build id and the rows of its hook points.
\<close>

section \<open>The fields of an index are free of separators\<close>

lemma hex_int_clean [simp]: "clean (hex_int n)"
proof (induction n rule: hex_int.induct)
  case (1 n)
  then show ?case by (subst hex_int.simps) (simp add: hex_char_clean nat_less_iff)
qed

lemma fmt_hex_clean [simp]: "clean (fmt_hex a)"
  by (simp add: fmt_hex_def is_space_def is_ascii_space_def)

lemma xdigit_clean: "is_xdigit c \<Longrightarrow> \<not> is_space c"
  by (auto simp: is_xdigit_def is_digit_def is_space_def is_ascii_space_def Let_def)

lemma hexrun_clean: "hexrun s = Some (h, r) \<Longrightarrow> clean h"
  using xdigit_clean by (auto simp: hexrun_def clean_def list_all_iff dest: set_takeWhileD split: list.splits)

lemma search_re_Some: "search_re p s = Some x \<Longrightarrow> \<exists>t. p t = Some x"
  by (induction p s rule: search_re.induct) (auto simp: search_re.simps split: option.splits list.splits)

lemma notes_build_id_clean: "notes_build_id t p = Inr (Some b) \<Longrightarrow> clean b"
  by (auto simp: notes_build_id_def err_simps match_build_id_def bind_eq_Some_conv dest!: search_re_Some hexrun_clean)

lemma functions_line_clean:
  assumes "functions_line fns line = Inr fns'" "list_all (\<lambda>f. clean (snd f) \<and> snd f \<noteq> []) fns"
  shows "list_all (\<lambda>f. clean (snd f) \<and> snd f \<noteq> []) fns'"
proof -
  have "clean w \<and> w \<noteq> []" if "w \<in> set (split_words line)" for w
    using that split_words_clean [of "[]" w line] split_words_nonempty [of w "[]" line] by (simp add: split_words_def)
  then show ?thesis using assms by (auto simp: functions_line_def Let_def err_simps split: if_splits)
qed

lemma nm_functions_clean:
  assumes "nm_functions t dbg = Inr funcs"
  shows "list_all (\<lambda>f. clean (snd f) \<and> snd f \<noteq> []) funcs"
proof -
  from assms obtain out where "efold functions_line [] (splitlines out) = Inr funcs"
    by (auto simp: nm_functions_def err_simps)
  then show ?thesis by (rule efold_invariant) (auto intro: functions_line_clean)
qed

lemma hook_points_named:
  assumes "hook_map_main t binary dbg version = Inr (bid, hs, ta, idx)" "h \<in> set hs"
  shows "clean (h_name h)" "h_name h \<noteq> []" "clean (h_method h)"
proof -
  obtain taddr tsize bs funcs rs where "nm_functions t dbg = Inr funcs"
    and "efold (hook_step taddr tsize bs rs) ([], no_tally) funcs = Inr (hs, ta)"
    using hook_map_mainD(4) [OF assms(1)] by (auto simp: ran_def)
  then have "armable taddr tsize bs rs (set funcs) h" and f: "list_all (\<lambda>f. clean (snd f) \<and> snd f \<noteq> []) funcs"
    using hook_fold_armable assms(2) nm_functions_clean by (auto simp: list_all_iff)
  then show "clean (h_name h)" "h_name h \<noteq> []" "clean (h_method h)"
    by (auto simp: armable_def list_all_iff is_space_def is_ascii_space_def split: option.splits)
qed

section \<open>Reading a written index\<close>

definition hook_fields :: "hook_point \<Rightarrow> string list" where
  "hook_fields h = [h_name h, fmt_hex (h_arm h), h_method h,
     (case h_pad h of Some p \<Rightarrow> str_nat p | None \<Rightarrow> ''-''), str_nat (h_displace h)]"

definition header_rows :: "string option \<Rightarrow> string \<Rightarrow> string list list" where
  "header_rows bid version =
     [[''#ls-hook-index'', ''1''], [''#build_id'', str_option bid], [''#tmos_version'', version], [''#ctx_abi_version'', ''1''],
      [''#name'', ''arm_at'', ''arm_method'', ''pad_offset'', ''displace_bytes'']]"

lemma hook_index_rows:
  "hook_index bid version hs =
     concat (map (\<lambda>l. l @ [CHR 0x0A]) (map (join [CHR 0x09]) (header_rows bid version @ map hook_fields hs)))"
  by (simp add: hook_index_def header_rows_def tabbed_def hook_line_def [abs_def] hook_fields_def comp_def)

lemma hook_fields_clean: "clean (h_name h) \<Longrightarrow> clean (h_method h) \<Longrightarrow> list_all clean (hook_fields h)"
  by (auto simp: hook_fields_def is_space_def is_ascii_space_def split: option.splits)

lemma header_no_break:
  assumes "no_break (str_option bid)" "no_break version" "r \<in> set (header_rows bid version)"
  shows "no_break (join [CHR 0x09] r)"
  using assms by (auto simp: header_rows_def no_break_def)

lemma index_lines:
  assumes "no_break (str_option bid)" "no_break version" "\<forall>h \<in> set hs. list_all clean (hook_fields h)"
  shows "split_on (CHR 0x0A) (universal_newlines (hook_index bid version hs)) =
    map (join [CHR 0x09]) (header_rows bid version @ map hook_fields hs) @ [[]]"
proof -
  let ?ls = "map (join [CHR 0x09]) (header_rows bid version @ map hook_fields hs)"
  have nb: "no_break l" if "l \<in> set ?ls" for l
    using that assms header_no_break join_clean_no_break by (auto simp: no_break_def)
  then have "CHR 0x0D \<notin> set (hook_index bid version hs)"
    unfolding hook_index_rows no_break_def by auto
  then have "universal_newlines (hook_index bid version hs) = hook_index bid version hs" by (rule universal_newlines_id)
  moreover have "split_on (CHR 0x0A) (hook_index bid version hs) = ?ls @ [[]]"
    unfolding hook_index_rows by (rule split_lines) (use nb in \<open>auto simp: no_break_def\<close>)
  ultimately show ?thesis by simp
qed

section \<open>The contract of an index reader\<close>

definition good_row :: "string list \<Rightarrow> bool" where
  "good_row fs = (length fs \<ge> 3 \<and> fs ! 0 \<noteq> [] \<and> \<not> is_prefix ''#'' (fs ! 0) \<and> (\<forall>f \<in> set fs. CHR 0x09 \<notin> set f))"

definition plain_name :: "hook_point \<Rightarrow> bool" where
  "plain_name h = (h_name h \<noteq> [] \<and> \<not> is_prefix ''#'' (h_name h) \<and> list_all clean (hook_fields h))"

lemma plain_good_row: "plain_name h \<Longrightarrow> good_row (hook_fields h)"
  using clean_no_sep(1) by (auto simp: plain_name_def good_row_def hook_fields_def)

locale index_reader =
  fixes step :: "'s \<Rightarrow> string \<Rightarrow> 's" and start :: 's and build :: "'s \<Rightarrow> string option" and rows :: "'s \<Rightarrow> 'e list"
    and name :: string and entry :: "string list \<Rightarrow> 'e"
  assumes start_rows: "rows start = []"
    and header_build: "CHR 0x09 \<notin> set k \<Longrightarrow> k \<noteq> ''name'' \<Longrightarrow> build (step s (join [CHR 0x09] [CHR ''#'' # k, v])) =
      (if k = ''build_id'' then Some (hd (split_on (CHR 0x09) v)) else build s)"
    and header_rows: "CHR 0x09 \<notin> set k \<Longrightarrow> rows (step s (join [CHR 0x09] ((CHR ''#'' # k) # v # vs))) = rows s"
    and names_build: "build (step s (join [CHR 0x09] (''#name'' # v # vs))) = build s"
    and row_build: "good_row fs \<Longrightarrow> build (step s (join [CHR 0x09] fs)) = build s"
    and row_rows: "good_row fs \<Longrightarrow> rows (step s (join [CHR 0x09] fs)) = rows s @ (if fs ! 0 = name then [entry fs] else [])"
begin

lemma read_rows_of:
  "\<forall>fs \<in> set fss. good_row fs \<Longrightarrow>
     build (foldl step s (map (join [CHR 0x09]) fss)) = build s \<and>
     rows (foldl step s (map (join [CHR 0x09]) fss)) = rows s @ map entry (filter (\<lambda>fs. fs ! 0 = name) fss)"
  by (induction fss arbitrary: s) (auto simp: row_build row_rows)

lemma read_header:
  assumes "CHR 0x09 \<notin> set b"
  shows "build (foldl step start (map (join [CHR 0x09]) (header_rows (Some b) version))) = Some b"
    "rows (foldl step start (map (join [CHR 0x09]) (header_rows (Some b) version))) = []"
proof -
  have "hd (split_on (CHR 0x09) b) = b" using assms by (simp add: split_on_no_sep)
  then show "build (foldl step start (map (join [CHR 0x09]) (header_rows (Some b) version))) = Some b"
    by (simp add: header_rows_def str_option_def names_build header_build del: join.simps)
  show "rows (foldl step start (map (join [CHR 0x09]) (header_rows (Some b) version))) = []"
    by (simp add: header_rows_def header_rows start_rows del: join.simps)
qed

lemma read_written:
  assumes "CHR 0x09 \<notin> set b" "\<forall>h \<in> set hs. plain_name h"
  shows "build (foldl step start (map (join [CHR 0x09]) (header_rows (Some b) version @ map hook_fields hs))) = Some b"
    "rows (foldl step start (map (join [CHR 0x09]) (header_rows (Some b) version @ map hook_fields hs))) =
       map (\<lambda>h. entry (hook_fields h)) (filter (\<lambda>h. h_name h = name) hs)"
proof -
  have "\<forall>fs \<in> set (map hook_fields hs). good_row fs" using assms(2) plain_good_row by auto
  note r = read_rows_of [OF this] read_header [OF assms(1)]
  have "map entry (filter (\<lambda>fs. fs ! 0 = name) (map hook_fields hs)) = map (\<lambda>h. entry (hook_fields h)) (filter (\<lambda>h. h_name h = name) hs)"
    by (simp add: filter_map comp_def hook_fields_def)
  with r show "build (foldl step start (map (join [CHR 0x09]) (header_rows (Some b) version @ map hook_fields hs))) = Some b"
    "rows (foldl step start (map (join [CHR 0x09]) (header_rows (Some b) version @ map hook_fields hs))) =
       map (\<lambda>h. entry (hook_fields h)) (filter (\<lambda>h. h_name h = name) hs)"
    by (simp_all del: map_map)
qed

end

section \<open>The two readers\<close>

lemma split_good_row: "good_row fs \<Longrightarrow> split_on (CHR 0x09) (join [CHR 0x09] fs) = fs"
  by (intro split_on_join) (auto simp: good_row_def)

lemma good_row_line:
  assumes "good_row fs"
  shows "join [CHR 0x09] fs \<noteq> []" "\<not> is_prefix ''#'' (join [CHR 0x09] fs)"
proof -
  obtain c cs f gs where "fs = (c # cs) # f # gs"
    using assms by (cases fs; cases "hd fs"; cases "tl fs") (auto simp: good_row_def)
  with assms show "join [CHR 0x09] fs \<noteq> []" "\<not> is_prefix ''#'' (join [CHR 0x09] fs)" by (auto simp: good_row_def)
qed

lemma split_header: "CHR 0x09 \<notin> set k \<Longrightarrow> split_on (CHR 0x09) (join [CHR 0x09] (k # v # vs)) = k # split_on (CHR 0x09) (join [CHR 0x09] (v # vs))"
  by (simp add: split_on_append)

text \<open>The loader client keeps a dictionary of lists; an entry is the address, the method and the pad.\<close>

definition row_entry :: "string list \<Rightarrow> string \<times> string \<times> string" where
  "row_entry fs = (fs ! 1, fs ! 2, if length fs > 3 then fs ! 3 else ''-'')"

interpretation client: index_reader index_line "([], [])" "\<lambda>ix. map_of (fst ix) ''build_id''" "\<lambda>ix. listed (snd ix) name" name row_entry
  for name
proof
  show "listed (snd ([], [])) name = []" by (simp add: listed_def)
next
  fix k v s assume k: "CHR 0x09 \<notin> set k" "k \<noteq> ''name''"
  then show "map_of (fst (index_line s (join [CHR 0x09] [CHR ''#'' # k, v]))) ''build_id'' =
      (if k = ''build_id'' then Some (hd (split_on (CHR 0x09) v)) else map_of (fst s) ''build_id'')"
    by (cases s; cases "split_on (CHR 0x09) v") (simp_all add: index_line_def split_on_append update_conv Let_def)
next
  fix k v vs s
  show "listed (snd (index_line s (join [CHR 0x09] ((CHR ''#'' # k) # v # vs)))) name = listed (snd s) name"
    by (cases s) (simp add: index_line_def Let_def)
next
  fix s v vs
  show "map_of (fst (index_line s (join [CHR 0x09] (''#name'' # v # vs)))) ''build_id'' = map_of (fst s) ''build_id''"
    using split_header [of "''name''" v vs] by (cases s) (simp add: index_line_def Let_def)
next
  fix fs s assume fs: "good_row fs"
  then show "map_of (fst (index_line s (join [CHR 0x09] fs))) ''build_id'' = map_of (fst s) ''build_id''"
    using good_row_line [OF fs] by (cases s) (simp add: index_line_def Let_def)
  from fs show "listed (snd (index_line s (join [CHR 0x09] fs))) name = listed (snd s) name @ (if fs ! 0 = name then [row_entry fs] else [])"
    using good_row_line [OF fs] split_good_row [OF fs]
    by (cases s) (auto simp: index_line_def listed_add row_entry_def good_row_def Let_def)
qed

text \<open>The target binding tool keeps the rows themselves.\<close>

definition row_step :: "string \<Rightarrow> (string \<rightharpoonup> string) \<times> string list list \<Rightarrow> string \<Rightarrow> (string \<rightharpoonup> string) \<times> string list list" where
  "row_step hook st line = read_rows hook [line] st"

lemma read_rows_foldl: "read_rows hook lines st = foldl (row_step hook) st lines"
  by (induction lines arbitrary: st) (auto simp: row_step_def Let_def)

interpretation target_tool: index_reader "row_step name" "(Map.empty, [])" "\<lambda>st. fst st ''build_id''" snd name "\<lambda>fs. fs"
  for name
proof
  fix k v s assume k: "CHR 0x09 \<notin> set k" "k \<noteq> ''name''"
  then show "fst (row_step name s (join [CHR 0x09] [CHR ''#'' # k, v])) ''build_id'' =
      (if k = ''build_id'' then Some (hd (split_on (CHR 0x09) v)) else fst s ''build_id'')"
    using split_header [of "CHR ''#'' # k" v "[]"]
    by (cases s; cases "split_on (CHR 0x09) v") (auto simp: row_step_def Let_def)
next
  fix k v vs s assume "CHR 0x09 \<notin> set k"
  then show "snd (row_step name s (join [CHR 0x09] ((CHR ''#'' # k) # v # vs))) = snd s"
    using split_header [of "CHR ''#'' # k" v vs] by (cases s; cases "split_on (CHR 0x09) (join [CHR 0x09] (v # vs))") (auto simp: row_step_def Let_def)
next
  fix s v vs
  show "fst (row_step name s (join [CHR 0x09] (''#name'' # v # vs))) ''build_id'' = fst s ''build_id''"
    using split_header [of "''#name''" v vs] by (cases s; cases "split_on (CHR 0x09) (join [CHR 0x09] (v # vs))") (auto simp: row_step_def Let_def)
next
  fix fs s assume fs: "good_row fs"
  then show "fst (row_step name s (join [CHR 0x09] fs)) ''build_id'' = fst s ''build_id''"
    "snd (row_step name s (join [CHR 0x09] fs)) = snd s @ (if fs ! 0 = name then [fs] else [])"
    using good_row_line [OF fs] split_good_row [OF fs] by (cases s; simp add: row_step_def Let_def)+
qed simp

text \<open>Everything the readers see of an index written by a successful run.\<close>

definition entry_of :: "hook_point \<Rightarrow> string \<times> string \<times> string" where
  "entry_of h = (fmt_hex (h_arm h), h_method h, case h_pad h of Some p \<Rightarrow> str_nat p | None \<Rightarrow> ''-'')"

lemma row_entry_fields: "row_entry (hook_fields h) = entry_of h"
  by (simp add: row_entry_def hook_fields_def entry_of_def)

lemma written_names:
  assumes "hook_map_main t binary dbg version = Inr (bid, hs, ta, idx)" "\<forall>h \<in> set hs. \<not> is_prefix ''#'' (h_name h)"
  shows "\<forall>h \<in> set hs. plain_name h"
  using hook_points_named [OF assms(1)] hook_fields_clean assms(2) by (auto simp: plain_name_def)

lemma written_index:
  assumes run: "hook_map_main t binary dbg version = Inr (Some bid, hs, ta, idx)"
    and "no_break (version_of version)" "\<forall>h \<in> set hs. \<not> is_prefix ''#'' (h_name h)"
  shows "map_of (fst (read_index idx)) ''build_id'' = Some bid"
    "listed (snd (read_index idx)) name = map entry_of (filter (\<lambda>h. h_name h = name) hs)"
proof -
  have bid: "clean bid" using hook_map_mainD(1) [OF run] by (rule notes_build_id_clean)
  have plain: "\<forall>h \<in> set hs. plain_name h" using run assms(3) by (rule written_names)
  let ?lines = "map (join [CHR 0x09]) (header_rows (Some bid) (version_of version) @ map hook_fields hs)"
  have "split_on (CHR 0x0A) (universal_newlines idx) = ?lines @ [[]]"
    using index_lines [of "Some bid" "version_of version" hs] hook_map_mainD(3) [OF run] clean_no_sep [OF bid] assms(2) plain
    by (simp add: no_break_def str_option_def plain_name_def)
  moreover have "index_line ix [] = ix" for ix by (cases ix) (simp add: index_line_def)
  ultimately have "read_index idx = foldl index_line ([], []) ?lines" by (simp add: read_index_def)
  then show "map_of (fst (read_index idx)) ''build_id'' = Some bid"
    "listed (snd (read_index idx)) name = map entry_of (filter (\<lambda>h. h_name h = name) hs)"
    using client.read_written [OF clean_no_sep(1) [OF bid] plain] by (simp_all only: row_entry_fields)
qed

section \<open>What the target binding tool reads back\<close>

definition unbroken :: "string \<Rightarrow> bool" where
  "unbroken s = list_all (\<lambda>c. \<not> is_break c) s"

lemma unbroken_simps [simp]: "unbroken []" "unbroken (c # s) \<longleftrightarrow> \<not> is_break c \<and> unbroken s" "unbroken (s @ t) \<longleftrightarrow> unbroken s \<and> unbroken t"
  by (auto simp: unbroken_def)

lemma clean_unbroken: "clean s \<Longrightarrow> unbroken s"
  by (auto simp: clean_def unbroken_def list_all_iff is_space_def is_ascii_space_def is_break_def)

lemma splitlines_from_line: "unbroken l \<Longrightarrow> splitlines_from acc (l @ CHR 0x0A # rest) = (acc @ l) # splitlines_from [] rest"
proof (induction l arbitrary: acc)
  case Nil
  show ?case by (cases rest) (simp_all add: is_break_def)
next
  case (Cons c l)
  then show ?case by (cases "l @ CHR 0x0A # rest") auto
qed

lemma splitlines_lines: "\<forall>l \<in> set ls. unbroken l \<Longrightarrow> splitlines (concat (map (\<lambda>l. l @ [CHR 0x0A]) ls)) = ls"
  unfolding splitlines_def by (induction ls) (auto simp: splitlines_from_line)

lemma join_unbroken: "list_all unbroken fs \<Longrightarrow> unbroken (join [CHR 0x09] fs)"
  by (induction "[CHR 0x09]" fs rule: join.induct) (auto simp: is_break_def)

lemma written_rows:
  assumes run: "hook_map_main t binary dbg version = Inr (Some bid, hs, ta, idx)"
    and "unbroken (version_of version)" "\<forall>h \<in> set hs. \<not> is_prefix ''#'' (h_name h)"
  shows "fst (read_rows name (splitlines idx) (Map.empty, [])) ''build_id'' = Some bid"
    "snd (read_rows name (splitlines idx) (Map.empty, [])) = map hook_fields (filter (\<lambda>h. h_name h = name) hs)"
proof -
  have bid: "clean bid" using hook_map_mainD(1) [OF run] by (rule notes_build_id_clean)
  have plain: "\<forall>h \<in> set hs. plain_name h" using run assms(3) by (rule written_names)
  let ?rows = "header_rows (Some bid) (version_of version) @ map hook_fields hs"
  have "list_all unbroken fs" if "fs \<in> set ?rows" for fs
    using that plain clean_unbroken clean_unbroken [OF bid] assms(2)
    by (auto simp: plain_name_def header_rows_def str_option_def is_break_def list_all_iff)
  then have "\<forall>l \<in> set (map (join [CHR 0x09]) ?rows). unbroken l" using join_unbroken by auto
  from splitlines_lines [OF this] have "splitlines idx = map (join [CHR 0x09]) ?rows"
    using hook_map_mainD(3) [OF run] by (simp only: hook_index_rows)
  then show "fst (read_rows name (splitlines idx) (Map.empty, [])) ''build_id'' = Some bid"
    "snd (read_rows name (splitlines idx) (Map.empty, [])) = map hook_fields (filter (\<lambda>h. h_name h = name) hs)"
    using target_tool.read_written [OF clean_no_sep(1) [OF bid] plain] by (simp_all only: read_rows_foldl)
qed

text \<open>Addresses survive the file: the hexadecimal text reads back as the number.\<close>

lemma base_digits_hex: "0 \<le> n \<Longrightarrow> base_digits 16 0 ok (hex_int n @ ys) = base_digits 16 n True ys"
proof (induction n arbitrary: ok ys rule: hex_int.induct)
  case (1 n)
  show ?case
  proof (cases "n < 16")
    case True
    then show ?thesis using 1(2) by (subst hex_int.simps) (simp add: hex_char_props nat_less_iff)
  next
    case False
    then have "base_digits 16 0 ok (hex_int n @ ys) = base_digits 16 (n div 16) True (hex_char (nat (n mod 16)) # ys)"
      using 1 by (subst hex_int.simps) simp
    also have "\<dots> = base_digits 16 (n div 16 * 16 + n mod 16) True ys" by (simp add: hex_char_props nat_less_iff)
    finally show ?thesis by simp
  qed
qed

lemma hex_int_first: "\<exists>c cs. hex_int n = c # cs \<and> hex_val c \<noteq> None"
proof (induction n rule: hex_int.induct)
  case (1 n)
  then show ?case by (subst hex_int.simps) (auto simp: hex_char_props nat_less_iff)
qed

lemma parse_int0_fmt_hex: "0 \<le> a \<Longrightarrow> parse_int0 (fmt_hex a) = Inr a"
proof -
  assume a: "0 \<le> a"
  obtain c cs where c: "hex_int a = c # cs" "hex_val c \<noteq> None" using hex_int_first by blast
  have us: "c \<noteq> CHR ''_''" using c(2) by (auto simp: hex_val_def)
  have "clean (fmt_hex a)" "fmt_hex a \<noteq> []" by (simp_all add: fmt_hex_def is_space_def is_ascii_space_def)
  then have "strip (fmt_hex a) = fmt_hex a" by (intro strip_id) (auto simp: clean_def list_all_iff)
  moreover have "prefixed_digits 16 (hex_int a) = Some a"
    using base_digits_hex [OF a, of False "[]"] us by (simp add: prefixed_digits_def c(1))
  ultimately show ?thesis using a by (simp add: parse_int0_def fmt_hex_def unsign_def)
qed

lemma hex_num_nonneg: "0 \<le> hex_num s"
proof -
  have "0 \<le> acc \<Longrightarrow> 0 \<le> foldl (\<lambda>a c. 16 * a + (case hex_val c of Some d \<Rightarrow> int d | None \<Rightarrow> 0)) acc s" for acc
    by (induction s arbitrary: acc) (auto split: option.splits)
  then show ?thesis by (simp add: hex_num_def)
qed

lemma text_section_nonneg:
  assumes "text_section t p = Inr (a, b, c)"
  shows "0 \<le> a"
proof -
  obtain out where "search_re match_text_section out = Some (a, b, c)"
    using assms by (auto simp: text_section_def err_simps split: option.splits)
  from search_re_Some [OF this] show ?thesis by (auto simp: match_text_section_def bind_eq_Some_conv hex_num_nonneg)
qed

lemma hook_entry_nonneg:
  assumes "hook_map_main t binary dbg version = Inr (bid, hs, ta, idx)" "h \<in> set hs"
  shows "0 \<le> h_entry h" "h_pad h = Some p \<Longrightarrow> h_arm h = h_entry h + int p \<and> p \<in> {0, 4}"
proof -
  obtain taddr tsize bs funcs rs where ran: "ran t binary dbg taddr tsize bs funcs rs"
    and fold: "efold (hook_step taddr tsize bs rs) ([], no_tally) funcs = Inr (hs, ta)"
    using hook_map_mainD(4) [OF assms(1)] by blast
  have a: "armable taddr tsize bs rs (set funcs) h"
    using hook_fold_armable [OF fold] assms(2) by (auto simp: list_all_iff)
  have "0 \<le> taddr" using ran text_section_nonneg by (auto simp: ran_def)
  with a show "0 \<le> h_entry h" by (simp add: armable_def in_range_def)
  show "h_pad h = Some p \<Longrightarrow> h_arm h = h_entry h + int p \<and> p \<in> {0, 4}" using a by (auto simp: armable_def)
qed

lemma resolve_written:
  assumes run: "hook_map_main t binary dbg version = Inr (Some bid, hs, ta, idx)"
    and shape: "unbroken (version_of version)" "\<forall>h \<in> set hs. \<not> is_prefix ''#'' (h_name h)"
    and res: "resolve idx blob name = Inr (b, entry, pad)"
  shows "b = bid \<and> (\<exists>h. filter (\<lambda>h. h_name h = name) hs = [h] \<and> h_pad h = Some (nat pad) \<and> h_entry h = entry \<and> h_arm h = entry + pad)"
proof -
  obtain meta cands where rr: "read_rows name (splitlines idx) (Map.empty, []) = (meta, cands)" by fastforce
  have meta: "meta ''build_id'' = Some bid" and cands: "cands = map hook_fields (filter (\<lambda>h. h_name h = name) hs)"
    using written_rows [OF run shape, of name] rr by simp_all
  obtain row where row: "cands = [row]"
    using res rr by (cases cands; cases "tl cands") (auto simp: resolve_def err_simps split: if_splits)
  then obtain h where h: "filter (\<lambda>h. h_name h = name) hs = [h]" "row = hook_fields h" using cands by auto
  have mem: "h \<in> set hs" using arg_cong [OF h(1), of set] by auto
  from res rr row obtain arm where *: "b = bid" "row ! 3 \<in> {''0'', ''4''}" "parse_int (row ! 3) = Inr pad"
    "parse_int0 (row ! 1) = Inr arm" "entry = arm - pad"
    using meta by (auto simp: resolve_def err_simps Let_def split: if_splits)
  obtain p where p: "h_pad h = Some p" "row ! 3 = str_nat p"
    using *(2) h(2) by (cases "h_pad h") (auto simp: hook_fields_def)
  have "str_nat p = str_int (int p)" by (simp add: str_int_def)
  then have pad: "pad = int p" using *(3) p(2) by simp
  have "arm = h_arm h"
    using *(4) h(2) parse_int0_fmt_hex [of "h_arm h"] hook_entry_nonneg [OF run mem] p(1) by (simp add: hook_fields_def)
  then show ?thesis using hook_entry_nonneg(2) [OF run mem p(1)] *(1,5) h(1) p(1) pad by simp
qed

end
