(* ===== verification/Mk_Probe.thy ===== *)
theory Mk_Probe
  imports Loader_Cli "HOL-Library.Multiset" "HOL-Library.Sublist"
begin

text \<open>
  The probe generator \<^verbatim>\<open>substrate/mk_probe.py\<close>: the shape of a function's parameters from the debug
  information, the signature index that caches it, the record layout under the 96-byte ceiling, and the
  generated program text.

  The debug information is an input in the form \<^verbatim>\<open>pyelftools\<close> gives it: a compilation unit lists its entries
  with their children and looks up an entry by its address (\<open>cu_at\<close>, an error where there is none). The
  unpacking of packages and the printed progress are not modelled.
\<close>

section \<open>Debug information\<close>

record die =
  d_tag :: string
  d_name :: "string option"
  d_type :: "int option"
  d_low_pc :: bool

record cu =
  cu_offset :: int
  cu_at :: "int \<Rightarrow> die result"
  cu_dies :: "(die \<times> die list) list"

type_synonym param = "string option \<times> string \<times> string"

text \<open>\<^verbatim>\<open>name or default\<close>.\<close>

definition or_else :: "string option \<Rightarrow> string \<Rightarrow> string" where
  "or_else n d = (case n of None \<Rightarrow> d | Some s \<Rightarrow> if s = [] then d else s)"

definition STR_BYTES :: nat where "STR_BYTES = 24"
definition BLOB_BYTES :: nat where "BLOB_BYTES = 16"
definition CTX_MAX :: nat where "CTX_MAX = 96"
definition LS_MAP_NAME_MAX :: nat where "LS_MAP_NAME_MAX = 32"

definition QUALIFIERS :: "string list" where
  "QUALIFIERS = [''DW_TAG_typedef'', ''DW_TAG_const_type'', ''DW_TAG_volatile_type'']"

definition type_at :: "cu \<Rightarrow> int \<Rightarrow> die result" where
  "type_at c v = cu_at c (v + cu_offset c)"

text \<open>The loop that looks through typedefs and qualifiers, at most eight times.\<close>

fun peel :: "cu \<Rightarrow> nat \<Rightarrow> die option \<Rightarrow> die option result" where
  "peel c n None = Inr None"
| "peel c 0 (Some p) = Inr (Some p)"
| "peel c (Suc n) (Some p) =
     (if d_tag p \<in> set QUALIFIERS then
        (case d_type p of None \<Rightarrow> peel c n None | Some v \<Rightarrow> ebind (type_at c v) (\<lambda>q. peel c n (Some q)))
      else Inr (Some p))"

definition pointee :: "die option \<Rightarrow> string \<times> string" where
  "pointee peeled =
     (case peeled of
        None \<Rightarrow> (''opaque'', ''void *'')
      | Some p \<Rightarrow>
          if d_tag p = ''DW_TAG_base_type'' \<and> ends_with ''char'' (or_else (d_name p) [])
          then (''string'', or_else (d_name p) [] @ '' *'')
          else if d_tag p \<in> {''DW_TAG_structure_type'', ''DW_TAG_union_type''}
          then (''blob'', ''struct '' @ or_else (d_name p) ''anon'' @ '' *'')
          else (''opaque'', or_else (d_name p) (d_tag p) @ '' *''))"

function resolve_type :: "cu \<Rightarrow> die option \<Rightarrow> nat \<Rightarrow> (string \<times> string) result" where
  "resolve_type c d depth =
     (case d of
        None \<Rightarrow> Inr (''unknown'', ''?'')
      | Some t \<Rightarrow>
          if depth > 8 then Inr (''unknown'', ''?'')
          else if d_tag t = ''DW_TAG_base_type'' then Inr (''scalar'', or_else (d_name t) ''int'')
          else if d_tag t = ''DW_TAG_enumeration_type'' then Inr (''scalar'', ''enum '' @ or_else (d_name t) ''?'')
          else if d_tag t \<in> set QUALIFIERS then
            (case d_type t of
               None \<Rightarrow> Inr (''scalar'', or_else (d_name t) ''void'')
             | Some v \<Rightarrow> ebind (type_at c v) (\<lambda>q. resolve_type c (Some q) (depth + 1)))
          else if d_tag t = ''DW_TAG_pointer_type'' then
            (case d_type t of
               None \<Rightarrow> Inr (''opaque'', ''void *'')
             | Some v \<Rightarrow> ebind (type_at c v) (\<lambda>q. ebind (peel c 8 (Some q)) (\<lambda>p. Inr (pointee p))))
          else Inr (''unknown'', d_tag t))"
  by pat_completeness auto
termination by (relation "measure (\<lambda>(c, d, depth). 9 - depth)") auto

declare resolve_type.simps [simp del]

section \<open>Signatures\<close>

definition param_of :: "cu \<Rightarrow> die \<Rightarrow> param result" where
  "param_of c child =
     ebind (case d_type child of None \<Rightarrow> Inr None | Some v \<Rightarrow> ebind (type_at c v) (\<lambda>q. Inr (Some q))) (\<lambda>t.
     ebind (resolve_type c t 0) (\<lambda>(kind, detail). Inr (d_name child, kind, detail)))"

definition params_of :: "cu \<Rightarrow> die list \<Rightarrow> param list result" where
  "params_of c children = emap (param_of c) (filter (\<lambda>d. d_tag d = ''DW_TAG_formal_parameter'') children)"

definition named :: "param list \<Rightarrow> nat" where
  "named ps = length (filter (\<lambda>p. or_else (fst p) [] \<noteq> []) ps)"

definition score :: "die \<Rightarrow> param list \<Rightarrow> nat \<times> nat" where
  "score d ps = (if d_low_pc d then 1 else 0, named ps)"

definition higher :: "nat \<times> nat \<Rightarrow> nat \<times> nat \<Rightarrow> bool" where
  "higher a b = (fst a > fst b \<or> fst a = fst b \<and> snd a > snd b)"

type_synonym subprogram = "cu \<times> die \<times> die list"

definition subprograms :: "cu list \<Rightarrow> subprogram list" where
  "subprograms cus =
     concat (map (\<lambda>c. map (\<lambda>(d, ch). (c, d, ch)) (filter (\<lambda>(d, ch). d_tag d = ''DW_TAG_subprogram'') (cu_dies c))) cus)"

fun signature_scan :: "string \<Rightarrow> subprogram list \<Rightarrow> ((nat \<times> nat) \<times> param list) option \<Rightarrow> param list result" where
  "signature_scan want [] best =
     (case best of None \<Rightarrow> Inl (SystemExit ''*** no DWARF subprogram with parameters'') | Some (_, ps) \<Rightarrow> Inr ps)"
| "signature_scan want ((c, d, ch) # rest) best =
     (if d_name d \<noteq> Some want then signature_scan want rest best
      else
        ebind (params_of c ch) (\<lambda>ps.
          if ps = [] then signature_scan want rest best
          else if d_low_pc d \<and> named ps = length ps then Inr ps
          else
            signature_scan want rest
              (case best of
                 None \<Rightarrow> Some (score d ps, ps)
               | Some (s, qs) \<Rightarrow> if higher (score d ps) s then Some (score d ps, ps) else best)))"

text \<open>\<^const>\<open>None\<close> is a file without debug information.\<close>

definition signature :: "cu list option \<Rightarrow> string \<Rightarrow> param list result" where
  "signature dwarf want =
     (case dwarf of
        None \<Rightarrow> Inl (SystemExit ''*** no DWARF'')
      | Some cus \<Rightarrow> signature_scan want (subprograms cus) None)"

section \<open>The record layout\<close>

type_synonym slot = "nat \<times> string \<times> string \<times> string"
type_synonym field = "nat \<times> string \<times> string \<times> string \<times> nat"

definition numbered :: "param list \<Rightarrow> slot list" where
  "numbered ps = map (\<lambda>(i, n, k, d). (i, or_else n (''arg'' @ str_nat i), k, d)) (enumerate 0 ps)"

definition kind_order :: "string \<Rightarrow> nat" where
  "kind_order k =
     (case map_of [(''scalar'', 0), (''string'', 1), (''blob'', 2), (''opaque'', 0), (''unknown'', 3)] k of
        Some n \<Rightarrow> n | None \<Rightarrow> 3)"

definition kind_bytes :: "string \<Rightarrow> nat option" where
  "kind_bytes k =
     map_of [(''scalar'', 8), (''opaque'', 8), (''string'', STR_BYTES), (''blob'', BLOB_BYTES)] k"

definition layout_step :: "bool \<Rightarrow> field list \<times> slot list \<times> nat \<Rightarrow> slot \<Rightarrow> field list \<times> slot list \<times> nat" where
  "layout_step no_probe_read st f =
     (case (st, f) of ((flds, dropped, used), (i, nm, kind, detail)) \<Rightarrow>
        if no_probe_read \<and> (kind = ''string'' \<or> kind = ''blob'') then (flds, dropped @ [f], used)
        else case kind_bytes kind of
          None \<Rightarrow> (flds, dropped @ [f], used)
        | Some want \<Rightarrow>
            if used + want > CTX_MAX then (flds, dropped @ [f], used)
            else (flds @ [(i, nm, kind, detail, want)], dropped, used + want))"

definition layout :: "param list \<Rightarrow> bool \<Rightarrow> field list \<times> slot list \<times> nat" where
  "layout params no_probe_read =
     foldl (layout_step no_probe_read) ([], drop 5 (numbered params), 4)
       (sort_key (\<lambda>(i, nm, kind, detail). kind_order kind) (take 5 (numbered params)))"

definition map_name :: "string \<Rightarrow> string result" where
  "map_name fn =
     (let name = ''probe_'' @ take 8 (to_hex (sha256 (encode_utf8 fn))) @ ''_out'' in
      if length name < LS_MAP_NAME_MAX then Inr name else Inl (AssertionError name))"

section \<open>The generated program\<close>

text \<open>\<^verbatim>\<open>%-14s\<close> and \<^verbatim>\<open>%-8s\<close>.\<close>

definition pad_right :: "nat \<Rightarrow> string \<Rightarrow> string" where
  "pad_right n s = s @ replicate (n - length s) (CHR '' '')"

definition head_lines :: "string \<Rightarrow> bool \<Rightarrow> string list" where
  "head_lines fn no_probe_read =
     [''/* GENERATED by substrate/mk_probe.py --- do not edit.'',
      '' *'',
      '' * A probe for '' @ fn @ ''(), derived entirely from the build's own DWARF. No host-side ctx'',
      '' * builder exists for this function and none is needed: the program is handed the''] @
     (if no_probe_read then
     ['' * GENERIC five-register context and reads SCALAR ARGUMENTS ONLY.'',
      '' *'',
      '' * GENERATED WITH --no-probe-read. Every pointer argument is dropped, because a'',
      '' * pointer has to be dereferenced and that needs bpf_probe_read (helper 4), which'',
      '' * the target build does not register. A program using an unregistered helper is'',
      '' * refused at load without saying which helper, so the choice is made here instead.'',
      '' * Regenerate without the flag once the target has helper 4 to capture the rest.'']
      else
     ['' * GENERIC five-register context and does its own dereferencing through'',
      '' * bpf_probe_read, so this costs a program rather than a rebuild of TMM.'']) @
     ['' *'',
      '' * Signature as DWARF describes it:'']"

definition signature_line :: "nat \<times> param \<Rightarrow> string" where
  "signature_line p =
     (case p of (i, nm, kind, detail) \<Rightarrow>
        '' *     arg'' @ str_nat i @ ''  '' @ pad_right 14 (or_else nm ''?'') @ '' '' @ pad_right 8 kind @ '' '' @ detail @
        (if i \<ge> 5 then ''   [UNREACHABLE: beyond 5 registers]'' else []))"

definition dropped_why :: "slot \<Rightarrow> string" where
  "dropped_why s =
     (case s of (i, nm, kind, detail) \<Rightarrow>
        if i \<ge> 5 then ''beyond the five registers the generic context carries''
        else if kind \<in> {''scalar'', ''string'', ''blob'', ''opaque''} then ''no room inside the 96-byte context ceiling''
        else ''type not classifiable from DWARF ('' @ detail @ '')'')"

definition dropped_lines :: "slot list \<Rightarrow> string list" where
  "dropped_lines dropped =
     (if dropped = [] then []
      else
     ['' *'',
      '' * DROPPED, and why --- so nothing is silently absent from the record:''] @
     map (\<lambda>s. case s of (i, nm, _) \<Rightarrow> '' *     arg'' @ str_nat i @ '' '' @ pad_right 14 nm @ '' '' @ dropped_why s) dropped)"

definition prologue_lines :: "nat \<Rightarrow> string list" where
  "prologue_lines used =
     ['' *'',
      '' * Record is '' @ str_nat used @ '' of '' @ str_nat CTX_MAX @ '' bytes. The ceiling is PREVAIL's limit on context reads.'',
      '' */'',
      ''typedef unsigned int  __u32;'',
      ''typedef unsigned long long __u64;'',
      [],
      ''struct bpf_map_def { __u32 type, key_size, value_size, max_entries, map_flags; };'',
      ''#define BPF_MAP_TYPE_HASH             1'',
      ''#define BPF_MAP_TYPE_PERF_EVENT_ARRAY 4'',
      []]"

definition map_lines :: "string \<Rightarrow> string \<Rightarrow> string list" where
  "map_lines mname fn =
     [''/* Output map: '' @ mname @ ''  <-  '' @ fn,
      '' *'',
      '' * Named from a DIGEST of the function name, not from the name itself. The host records'',
      '' * a map by symbol name in a 32-byte table and refuses anything longer, and a refused'',
      '' * map is silent: the helper gets a null map, returns -1, this program does not read the'',
      '' * return value, so the probe fires and the counter is exact and no record ever appears.'',
      '' * A 36-character name did exactly that on 2026-08-19. */'',
      ''struct bpf_map_def '' @ mname @ '' __attribute__((section(\"maps\"), used)) = {'',
      ''    .type = BPF_MAP_TYPE_PERF_EVENT_ARRAY,'',
      ''    .key_size = sizeof(__u32), .value_size = sizeof(__u32), .max_entries = 16,'',
      ''};'',
      []]"

definition probe_read_decl :: string where
  "probe_read_decl = ''static long ('' @ ''*bpf_probe_read)(void *, __u32, const void *) = (void *)4;''"

definition helper_lines :: "field list \<Rightarrow> string list" where
  "helper_lines flds =
     (if list_ex (\<lambda>(_, _, k, _, _). k = ''string'' \<or> k = ''blob'') flds then
     [probe_read_decl]
      else []) @
     [''static long ('' @ ''*bpf_perf_event_output)(void *, void *, __u64, void *, __u64) = (void *)25;'',
      [],
      ''struct ls_ctx_generic { __u64 arg[5]; };'',
      [],
      ''/* The record this probe emits. A consumer decodes it from the descriptor emitted'',
      '' * alongside --- the host validated its LENGTH and nothing else. */'',
      ''struct rec {'',
      ''    __u32 present;      /* bit i set = arg i was captured */'']"

definition is_register :: "string \<Rightarrow> bool" where
  "is_register kind = (kind = ''scalar'' \<or> kind = ''opaque'')"

definition member_line :: "field \<Rightarrow> string" where
  "member_line f =
     (case f of (i, nm, kind, detail, nb) \<Rightarrow>
        if is_register kind then ''    __u64 '' @ nm @ '';'' else ''    char  '' @ nm @ ''['' @ str_nat nb @ ''];'')"

definition capture_lines :: "field \<Rightarrow> string list" where
  "capture_lines f =
     (case f of (i, nm, kind, detail, nb) \<Rightarrow>
        (if is_register kind then
           [''    r.'' @ nm @ '' = c->arg['' @ str_nat i @ ''];                    /* '' @ detail @
              '' --- register, no read needed */'',
            ''    r.present |= 1u << '' @ str_nat i @ '';'']
         else
           [''    /* '' @ detail @ '' --- a pointer, so probe_read it. A bad address returns non-zero and'',
            ''     * the field simply stays absent rather than faulting the data plane. */'',
            ''    if (bpf_probe_read(r.'' @ nm @ '', sizeof r.'' @ nm @ '', (const void *)c->arg['' @ str_nat i @ '']) == 0)'',
            ''        r.present |= 1u << '' @ str_nat i @ '';'']) @ [[]])"

definition body_lines :: "string \<Rightarrow> string \<Rightarrow> field list \<Rightarrow> string list" where
  "body_lines mname fn flds =
     [''_Static_assert(sizeof(struct rec) <= '' @ str_nat CTX_MAX @ '', \"record exceeds PREVAIL's context ceiling\");'',
      [],
      ''__attribute__((section(\"fentry/'' @ fn @ ''\"), used))'',
      ''__u64'',
      ''shield(struct ls_ctx_generic *c)'',
      ''{'',
      ''    struct rec r;'',
      ''    int i;'',
      [],
      ''    /* Zero the whole record first. A field a probe_read fails on must read as absent,'',
      ''     * not as whatever was on the stack --- and `present` is what says which is which. */'',
      ''    for (i = 0; i < (int)sizeof r; i++)'',
      ''        ((char *)&r)[i] = 0;'',
      ''    r.present = 0;'',
      []] @
     concat (map capture_lines flds) @
     [''    bpf_perf_event_output(c, &'' @ mname @ '', 0, &r, sizeof r);'',
      ''    return 0ull;                          /* observation only --- always fall through */'',
      ''}'']"

definition generate :: "string \<Rightarrow> param list \<Rightarrow> field list \<Rightarrow> slot list \<Rightarrow> nat \<Rightarrow> bool \<Rightarrow> string result" where
  "generate fn params flds dropped used no_probe_read =
     ebind (map_name fn) (\<lambda>mname.
       Inr (join [CHR 0x0A]
         (head_lines fn no_probe_read @ map signature_line (enumerate 0 params) @ dropped_lines dropped @
          prologue_lines used @ map_lines mname fn @ helper_lines flds @ map member_line flds @ [''};''] @
          body_lines mname fn flds) @ [CHR 0x0A]))"

section \<open>The signature index\<close>

definition SIG_VERSION :: nat where "SIG_VERSION = 1"

definition index_step ::
  "(string \<times> (nat \<times> nat) \<times> param list) list \<Rightarrow> subprogram \<Rightarrow> (string \<times> (nat \<times> nat) \<times> param list) list result"
where
  "index_step seen sp =
     (case sp of (c, d, ch) \<Rightarrow>
        let nm = or_else (d_name d) [] in
        if nm = [] then Inr seen
        else
          ebind (params_of c ch) (\<lambda>ps.
            if ps = [] then Inr seen
            else case map_of seen nm of
                   None \<Rightarrow> Inr (AList.update nm (score d ps, ps) seen)
                 | Some (s, _) \<Rightarrow> if higher (score d ps) s then Inr (AList.update nm (score d ps, ps) seen) else Inr seen))"

definition replace_char :: "char \<Rightarrow> char \<Rightarrow> string \<Rightarrow> string" where
  "replace_char a b s = map (\<lambda>c. if c = a then b else c) s"

definition param_text :: "param \<Rightarrow> string" where
  "param_text p =
     (case p of (a, b, c) \<Rightarrow>
        replace_char (CHR '':'') (CHR ''_'') (or_else a []) @ '':'' @ b @ '':'' @
        replace_char (CHR ''|'') (CHR ''_'') (replace_char (CHR '':'') (CHR ''_'') c))"

definition sig_line :: "string \<Rightarrow> param list \<Rightarrow> string" where
  "sig_line nm ps = tabbed [nm, str_nat (length ps), join ''|'' (map param_text ps)]"

definition build_index :: "string \<Rightarrow> (string \<times> (nat \<times> nat) \<times> param list) list \<Rightarrow> string" where
  "build_index bid seen =
     tabbed [''#ls-sig-index'', str_nat SIG_VERSION] @ tabbed [''#build_id'', bid] @
     tabbed [''#name'', ''nparams'', ''name:kind:detail|...''] @
     concat (map (\<lambda>nm. sig_line nm (case map_of seen nm of Some (_, ps) \<Rightarrow> ps | None \<Rightarrow> [])) (sort (map fst seen)))"

definition build_index_main :: "bytes \<Rightarrow> cu list option \<Rightarrow> string result" where
  "build_index_main dbg dwarf =
     ebind (build_id dbg) (\<lambda>bid.
       case dwarf of
         None \<Rightarrow> Inl (SystemExit ''*** no DWARF'')
       | Some cus \<Rightarrow> ebind (efold index_step [] (subprograms cus)) (\<lambda>seen. Inr (build_index bid seen)))"

definition param_token :: "string \<Rightarrow> param list" where
  "param_token tok =
     (case split_max 2 (CHR '':'') tok of
        [a, b, c] \<Rightarrow> [(if a = [] then None else Some a, b, c)]
      | _ \<Rightarrow> [])"

fun load_index_lines :: "string \<Rightarrow> string list \<Rightarrow> param list option" where
  "load_index_lines want [] = None"
| "load_index_lines want (line # rest) =
     (if is_prefix ''#'' line then load_index_lines want rest
      else
        let parts = split_on (CHR 0x09) line in
        if length parts < 3 \<or> parts ! 0 \<noteq> want then load_index_lines want rest
        else Some (concat (map param_token (split_on (CHR ''|'') (parts ! 2)))))"

definition load_index :: "string \<Rightarrow> string \<Rightarrow> param list option" where
  "load_index txt' want = load_index_lines want (split_on (CHR 0x0A) (universal_newlines txt'))"

section \<open>The command\<close>

text \<open>The choice of the debug file whose build id is that of the shipped binary.\<close>

definition pick_debug :: "string \<Rightarrow> (string \<times> string) list \<Rightarrow> string result" where
  "pick_debug want cands =
     (let found = map snd (filter (\<lambda>(b, q). b = want) cands) in
      if found = [] then Inl (SystemExit ''*** no debug binary matches the shipped binary's build id'')
      else if length found > 1 then Inl (SystemExit ''*** debug binaries share a build id; refusing to guess'')
      else Inr (hd found))"

record probe_args =
  pa_index :: "string option"
  pa_dwarf :: "cu list option option"
  pa_function :: "string option"
  pa_no_probe_read :: bool
  pa_out :: "string option"

definition probe_params :: "probe_args \<Rightarrow> string \<Rightarrow> param list result" where
  "probe_params a fn =
     (case pa_index a of
        Some t \<Rightarrow>
          (case load_index t fn of
             None \<Rightarrow> Inl (SystemExit ''*** not in the index'')
           | Some ps \<Rightarrow> Inr ps)
      | None \<Rightarrow>
          (case pa_dwarf a of
             None \<Rightarrow> Inl (SystemExit ''*** need --debuginfo, --debs, or a prebuilt --index'')
           | Some dw \<Rightarrow> signature dw fn))"

text \<open>\<^verbatim>\<open>main\<close> for \<^verbatim>\<open>--function\<close> without \<^verbatim>\<open>--describe\<close>, once the debug file is chosen: the file name and text it writes.\<close>

definition probe_main :: "probe_args \<Rightarrow> (string \<times> string) result" where
  "probe_main a =
     (if pa_index a = None \<and> pa_dwarf a = None then Inl (SystemExit ''*** need --debuginfo, --debs, or a prebuilt --index'')
      else case or_else (pa_function a) [] of
        [] \<Rightarrow> Inl (SystemExit ''*** need --function (or --build-index)'')
      | fn \<Rightarrow>
          ebind (probe_params a fn) (\<lambda>ps.
            case layout ps (pa_no_probe_read a) of (flds, dropped, used) \<Rightarrow>
              if flds = [] then Inl (SystemExit ''*** nothing capturable under these constraints'')
              else ebind (generate fn ps flds dropped used (pa_no_probe_read a)) (\<lambda>src.
                Inr (or_else (pa_out a) (''probe_'' @ fn @ ''.bpf.c''), src))))"

section \<open>The layout keeps the ceiling\<close>

definition field_slot :: "field \<Rightarrow> slot" where
  "field_slot f = (case f of (i, nm, kind, detail, nb) \<Rightarrow> (i, nm, kind, detail))"

definition field_kind :: "field \<Rightarrow> string" where
  "field_kind f = (case f of (i, nm, kind, detail, nb) \<Rightarrow> kind)"

definition field_bytes :: "field \<Rightarrow> nat" where
  "field_bytes f = (case f of (i, nm, kind, detail, nb) \<Rightarrow> nb)"

definition sized :: "field \<Rightarrow> bool" where
  "sized f = (kind_bytes (field_kind f) = Some (field_bytes f))"

text \<open>What the loop keeps: every field has its kind's width, the running sum is exact and under the ceiling.\<close>

definition laid_out :: "bool \<Rightarrow> field list \<times> slot list \<times> nat \<Rightarrow> bool" where
  "laid_out npr st = (case st of (flds, dropped, used) \<Rightarrow>
     list_all sized flds \<and> used = 4 + sum_list (map field_bytes flds) \<and> used \<le> CTX_MAX \<and>
     (npr \<longrightarrow> list_all (\<lambda>f. is_register (field_kind f)) flds))"

lemma kind_bytes_cases:
  "kind_bytes k = Some n \<longleftrightarrow> (is_register k \<and> n = 8) \<or> (k = ''string'' \<and> n = 24) \<or> (k = ''blob'' \<and> n = 16)"
  by (auto simp: kind_bytes_def is_register_def STR_BYTES_def BLOB_BYTES_def)

lemma layout_step_laid_out: "laid_out npr st \<Longrightarrow> laid_out npr (layout_step npr st f)"
  by (cases st; cases f)
    (auto simp: laid_out_def layout_step_def sized_def field_kind_def field_bytes_def kind_bytes_cases split: option.splits)

lemma layout_step_mset:
  "layout_step npr (flds, dropped, used) f = (flds', dropped', used') \<Longrightarrow>
     mset (map field_slot flds') + mset dropped' = mset (map field_slot flds) + mset dropped + {#f#}"
  by (cases f) (auto simp: layout_step_def field_slot_def split: if_splits option.splits)

lemma layout_step_fields:
  "layout_step npr (flds, dropped, used) f = (flds', dropped', used') \<Longrightarrow>
     flds' = flds \<or> (\<exists>g. flds' = flds @ [g] \<and> field_slot g = f)"
  by (cases f) (auto simp: layout_step_def field_slot_def split: if_splits option.splits)

lemma layout_fold_laid_out: "laid_out npr st \<Longrightarrow> laid_out npr (foldl (layout_step npr) st fs)"
proof (induction fs arbitrary: st)
  case (Cons f fs)
  from Cons.IH [OF layout_step_laid_out [OF Cons.prems]] show ?case by simp
qed simp

lemma layout_laid_out: "laid_out npr (layout params npr)"
  unfolding layout_def by (rule layout_fold_laid_out) (simp add: laid_out_def CTX_MAX_def)

lemma layout_fold_mset:
  "foldl (layout_step npr) st fs = st' \<Longrightarrow>
     mset (map field_slot (fst st')) + mset (fst (snd st')) = mset (map field_slot (fst st)) + mset (fst (snd st)) + mset fs"
proof (induction fs arbitrary: st)
  case (Cons f fs)
  obtain fl dr us where 1: "layout_step npr st f = (fl, dr, us)" by (metis prod_cases3)
  with Cons.IH [of "(fl, dr, us)"] Cons.prems layout_step_mset [of npr "fst st" "fst (snd st)" "snd (snd st)" f fl dr us]
  show ?case by simp
qed simp

lemma layout_fold_fields:
  "foldl (layout_step npr) st fs = st' \<Longrightarrow> \<exists>gs. fst st' = fst st @ gs \<and> subseq (map field_slot gs) fs"
proof (induction fs arbitrary: st)
  case (Cons f fs)
  obtain fl dr us where 1: "layout_step npr st f = (fl, dr, us)" by (metis prod_cases3)
  with Cons.IH [of "(fl, dr, us)"] Cons.prems obtain gs where gs: "fst st' = fl @ gs" "subseq (map field_slot gs) fs" by auto
  from layout_step_fields [of npr "fst st" "fst (snd st)" "snd (snd st)" f fl dr us] 1
  consider "fl = fst st" | g where "fl = fst st @ [g]" "field_slot g = f" by auto
  then show ?case
  proof cases
    case 1
    with gs show ?thesis by auto
  next
    case (2 g)
    with gs show ?thesis by (intro exI [of _ "g # gs"]) simp
  qed
qed simp

text \<open>The size the C compiler gives the record: members at multiples of their alignment, as is the whole.\<close>

definition round_up :: "nat \<Rightarrow> nat \<Rightarrow> nat" where
  "round_up off a = (off + a - 1) div a * a"

fun c_end :: "nat \<Rightarrow> field list \<Rightarrow> nat" where
  "c_end off [] = off"
| "c_end off (f # fs) = c_end (round_up off (if is_register (field_kind f) then 8 else 1) + field_bytes f) fs"

definition c_sizeof :: "field list \<Rightarrow> nat" where
  "c_sizeof fs = round_up (c_end 4 fs) (if list_ex (\<lambda>f. is_register (field_kind f)) fs then 8 else 4)"

lemma sized_bytes: "sized f \<Longrightarrow> field_bytes f \<in> {8, 16, 24}"
  by (auto simp: sized_def kind_bytes_cases)

lemma c_end_aligned:
  "list_all sized fs \<Longrightarrow> off mod 8 = 0 \<Longrightarrow> c_end off fs = off + sum_list (map field_bytes fs)"
proof (induction fs arbitrary: off)
  case (Cons f fs)
  have "round_up off (if is_register (field_kind f) then 8 else 1) = off"
    using Cons.prems(2) by (auto simp: round_up_def)
  moreover have "(off + field_bytes f) mod 8 = 0" using Cons.prems sized_bytes [of f] by auto
  ultimately show ?case using Cons.IH [of "off + field_bytes f"] Cons.prems by simp
qed simp

lemma c_end_chars:
  "list_all (\<lambda>f. \<not> is_register (field_kind f)) fs \<Longrightarrow> c_end off fs = off + sum_list (map field_bytes fs)"
  by (induction fs arbitrary: off) (auto simp: round_up_def)

lemma sized_sum_mod: "list_all sized fs \<Longrightarrow> sum_list (map field_bytes fs) mod 8 = 0"
proof (induction fs)
  case (Cons f fs)
  then show ?case using sized_bytes [of f] by auto
qed simp

lemma is_register_order: "kind_bytes k = Some n \<Longrightarrow> is_register k \<longleftrightarrow> kind_order k = 0"
  by (auto simp: kind_bytes_cases kind_order_def is_register_def)

lemma c_sizeof_bound:
  assumes sized: "list_all sized fs" and srt: "sorted (map (\<lambda>f. kind_order (field_kind f)) fs)"
    and used: "used = 4 + sum_list (map field_bytes fs)" "used \<le> 96"
  shows "c_sizeof fs \<le> 96"
proof (cases fs)
  case Nil
  then show ?thesis by (simp add: c_sizeof_def round_up_def)
next
  case (Cons f gs)
  from sized_sum_mod [OF sized] obtain k where "sum_list (map field_bytes fs) = 8 * k" by (auto simp: mod_eq_0_iff_dvd)
  with used(1) have mod: "used = 8 * k + 4" by simp
  show ?thesis
  proof (cases "is_register (field_kind f)")
    case True
    then have "c_end 4 fs = c_end (8 + field_bytes f) gs" by (simp add: Cons round_up_def)
    moreover have "(8 + field_bytes f) mod 8 = 0" using sized sized_bytes [of f] Cons by auto
    ultimately have "c_end 4 fs = used + 4" using c_end_aligned sized used(1) Cons by simp
    then show ?thesis using True mod used(2) Cons by (simp add: c_sizeof_def round_up_def)
  next
    case False
    have "\<not> is_register (field_kind g)" if "g \<in> set fs" for g
    proof -
      have "kind_order (field_kind f) \<le> kind_order (field_kind g)" using srt that Cons by auto
      moreover have "kind_order (field_kind f) \<noteq> 0" "is_register (field_kind g) \<longleftrightarrow> kind_order (field_kind g) = 0"
        using is_register_order False sized that Cons by (auto simp: list_all_iff sized_def)
      ultimately show ?thesis by simp
    qed
    then have no: "list_all (\<lambda>f. \<not> is_register (field_kind f)) fs" by (simp add: list_all_iff)
    then have "c_end 4 fs = used" using c_end_chars used(1) by simp
    moreover have "\<not> list_ex (\<lambda>f. is_register (field_kind f)) fs" using no by (auto simp: list_ex_iff list_all_iff)
    ultimately show ?thesis using mod used(2) by (simp add: c_sizeof_def round_up_def)
  qed
qed

text \<open>Register arguments come first and always fit, so none of the first five is dropped.\<close>

definition slot_kind :: "slot \<Rightarrow> string" where
  "slot_kind s = (case s of (i, nm, kind, detail) \<Rightarrow> kind)"

lemma kind_order_register: "kind_order k = 0 \<longleftrightarrow> is_register k"
  by (auto simp: kind_order_def is_register_def)

lemma layout_registers:
  "list_all (\<lambda>s. is_register (slot_kind s)) fs \<Longrightarrow> snd (snd st) + 8 * length fs \<le> 96 \<Longrightarrow>
     fst (snd (foldl (layout_step npr) st fs)) = fst (snd st)"
proof (induction fs arbitrary: st)
  case (Cons f fs)
  obtain i nm k d where f: "f = (i, nm, k, d)" by (cases f)
  obtain fl dr us where st: "st = (fl, dr, us)" by (cases st)
  have k: "is_register k" "k \<noteq> ''string''" "k \<noteq> ''blob''" using Cons.prems(1) by (auto simp: f slot_kind_def is_register_def)
  then have "layout_step npr st f = (fl @ [(i, nm, k, d, 8)], dr, us + 8)"
    using Cons.prems(2) kind_bytes_cases [of k 8] by (simp add: layout_step_def st f CTX_MAX_def)
  with Cons.IH [of "(fl @ [(i, nm, k, d, 8)], dr, us + 8)"] Cons.prems show ?case by (simp add: st)
qed simp

lemma layout_dropped:
  "s \<in> set (fst (snd (foldl (layout_step npr) st fs))) \<Longrightarrow> s \<in> set (fst (snd st)) \<or> s \<in> set fs"
proof (induction fs arbitrary: st)
  case (Cons f fs)
  have "set (fst (snd (layout_step npr st f))) \<subseteq> insert f (set (fst (snd st)))"
    by (cases st; cases f) (auto simp: layout_step_def split: option.splits)
  with Cons.IH [of "layout_step npr st f"] Cons.prems show ?case by auto
qed simp

lemma sorted_registers_first:
  assumes "sorted (map (\<lambda>s. kind_order (slot_kind s)) fs)" "s \<in> set (dropWhile (\<lambda>s. is_register (slot_kind s)) fs)"
  shows "\<not> is_register (slot_kind s)"
  using assms
proof (induction fs)
  case (Cons f fs)
  show ?case
  proof (cases "is_register (slot_kind f)")
    case True
    with Cons show ?thesis by simp
  next
    case False
    then have "kind_order (slot_kind f) \<noteq> 0" by (simp add: kind_order_register)
    moreover have "s = f \<or> kind_order (slot_kind f) \<le> kind_order (slot_kind s)" using Cons.prems False by auto
    ultimately show ?thesis using False kind_order_register [of "slot_kind s"] by auto
  qed
qed simp

lemma numbered_index: "s \<in> set (numbered ps) \<Longrightarrow> fst s < length ps"
  by (auto simp: numbered_def enumerate_eq_zip dest!: set_zip_leftD)

lemma numbered_take: "take n (numbered ps) = numbered (take n ps)"
  by (simp add: numbered_def enumerate_eq_zip take_map take_zip min_def)

lemma layout_keeps_registers:
  assumes "layout params npr = (flds, dropped, used)" "s \<in> set dropped" "fst s < 5" "s \<notin> set (drop 5 (numbered params))"
  shows "\<not> is_register (slot_kind s)"
proof -
  let ?fs = "sort_key (\<lambda>s. kind_order (slot_kind s)) (take 5 (numbered params))"
  let ?r = "\<lambda>s. is_register (slot_kind s)"
  have fold: "foldl (layout_step npr) ([], drop 5 (numbered params), 4) ?fs = (flds, dropped, used)"
    using assms(1) by (simp add: layout_def slot_kind_def case_prod_unfold)
  let ?st = "foldl (layout_step npr) ([], drop 5 (numbered params), 4) (takeWhile ?r ?fs)"
  have "length (takeWhile ?r ?fs) \<le> 5" using length_takeWhile_le [of ?r ?fs] by simp
  then have "fst (snd ?st) = drop 5 (numbered params)"
    using layout_registers [of "takeWhile ?r ?fs" "([], drop 5 (numbered params), 4)" npr]
    by (auto simp: list_all_iff dest: set_takeWhileD)
  moreover have "(flds, dropped, used) = foldl (layout_step npr) ?st (dropWhile ?r ?fs)"
    unfolding fold [symmetric] foldl_append [symmetric] by simp
  ultimately have "s \<in> set (dropWhile ?r ?fs)"
    using layout_dropped [of s npr ?st "dropWhile ?r ?fs"] assms(2,4) by (metis fst_conv snd_conv)
  then show ?thesis using sorted_registers_first [of ?fs s] sorted_sort_key by blast
qed

lemma numbered_drop: "s \<in> set (drop n (numbered ps)) \<Longrightarrow> n \<le> fst s"
  by (auto simp: numbered_def enumerate_eq_zip drop_map drop_zip dest!: set_zip_leftD)

lemma subseq_sorted: "subseq xs ys \<Longrightarrow> sorted ys \<Longrightarrow> sorted xs"
  by (induction rule: list_emb.induct) (auto dest: list_emb_set)

lemma field_slot_simps [simp]: "slot_kind (field_slot f) = field_kind f" "fst (field_slot f) = fst f"
  by (cases f; simp add: field_slot_def slot_kind_def field_kind_def)+

text \<open>
C27. The record layout of a generated probe. Every parameter is a field or reported as dropped, exactly once;
only the first five arguments become fields, each of its kind's width; the stated record size is four bytes and
the widths, and the structure the C compiler lays out for these members never exceeds the 96 bytes of the
context ceiling, so the generated static assertion holds. A register argument among the first five is always captured, and
with \<^verbatim>\<open>--no-probe-read\<close> nothing else is.
\<close>

theorem probe_layout:
  assumes "layout params npr = (flds, dropped, used)"
  shows "mset (map field_slot flds) + mset dropped = mset (numbered params) \<and>
    used = 4 + sum_list (map field_bytes flds) \<and> used \<le> CTX_MAX \<and> c_sizeof flds \<le> CTX_MAX \<and>
    (\<forall>f \<in> set flds. fst f < 5 \<and> sized f \<and> (npr \<longrightarrow> is_register (field_kind f))) \<and>
    (\<forall>s \<in> set (take 5 (numbered params)). is_register (slot_kind s) \<longrightarrow> s \<in> set (map field_slot flds))"
proof -
  let ?fs = "sort_key (\<lambda>s. kind_order (slot_kind s)) (take 5 (numbered params))"
  have fold: "foldl (layout_step npr) ([], drop 5 (numbered params), 4) ?fs = (flds, dropped, used)"
    using assms by (simp add: layout_def slot_kind_def case_prod_unfold)
  have parts: "mset (map field_slot flds) + mset dropped = mset (numbered params)"
    using layout_fold_mset [OF fold] mset_append [of "take 5 (numbered params)" "drop 5 (numbered params)"]
    by (simp add: add.commute)
  have laid: "laid_out npr (flds, dropped, used)"
    using layout_laid_out [of npr params] assms by simp
  have sub: "subseq (map field_slot flds) ?fs" using layout_fold_fields [OF fold] by auto
  have "sorted (map (\<lambda>f. kind_order (field_kind f)) flds)"
    using subseq_sorted [OF subseq_map [OF sub, of "\<lambda>s. kind_order (slot_kind s)"]] by (simp add: comp_def)
  with laid have "c_sizeof flds \<le> CTX_MAX" using c_sizeof_bound [of flds used] by (simp add: laid_out_def CTX_MAX_def)
  moreover have "fst f < 5" if "f \<in> set flds" for f
  proof -
    have "field_slot f \<in> set (map field_slot flds)" using that by simp
    from list_emb_set [OF sub this] have "field_slot f \<in> set ?fs" by metis
    then have "field_slot f \<in> set (numbered (take 5 params))" by (simp add: numbered_take)
    from numbered_index [OF this] show ?thesis by simp
  qed
  moreover have "s \<in> set (map field_slot flds)" if s: "s \<in> set (take 5 (numbered params))" "is_register (slot_kind s)" for s
  proof -
    have "fst s < 5" using numbered_index [of s "take 5 params"] s(1) by (simp add: numbered_take)
    moreover from this have "s \<notin> set (drop 5 (numbered params))" using numbered_drop [of s 5] by force
    ultimately have "s \<notin> set dropped" using layout_keeps_registers [OF assms] s(2) by blast
    moreover have "s \<in># mset (map field_slot flds) + mset dropped" unfolding parts using in_set_takeD [OF s(1)] by simp
    ultimately show ?thesis by simp
  qed
  ultimately show ?thesis using parts laid by (auto simp: laid_out_def list_all_iff)
qed

theorem probe_layout_witness:
  "\<exists>flds dropped used. layout [(Some ''uf'', ''blob'', ''struct uflow *''), (Some ''line'', ''scalar'', ''int'')] False =
      (flds, dropped, used) \<and> map fst flds = [1, 0] \<and> c_sizeof flds \<le> CTX_MAX"
proof -
  let ?ps = "[(Some ''uf'', ''blob'', ''struct uflow *''), (Some ''line'', ''scalar'', ''int'')]"
  obtain flds dropped used where l: "layout ?ps False = (flds, dropped, used)" by (cases "layout ?ps False")
  moreover have "map fst (fst (layout ?ps False)) = [1, 0]" by code_simp
  ultimately show ?thesis using probe_layout [OF l] by auto
qed

section \<open>Kinds\<close>

definition KINDS :: "string set" where
  "KINDS = {''scalar'', ''string'', ''blob'', ''opaque'', ''unknown''}"

lemma pointee_kind: "fst (pointee p) \<in> KINDS"
  by (auto simp: pointee_def KINDS_def split: option.splits)

definition kinded :: "(string \<times> string) result \<Rightarrow> bool" where
  "kinded r = (\<forall>k t. r = Inr (k, t) \<longrightarrow> k \<in> KINDS)"

lemma kinded_if: "(b \<Longrightarrow> kinded x) \<Longrightarrow> (\<not> b \<Longrightarrow> kinded y) \<Longrightarrow> kinded (if b then x else y)"
  by simp

lemma kinded_bind: "(\<And>x. r = Inr x \<Longrightarrow> kinded (f x)) \<Longrightarrow> kinded (ebind r f)"
  by (auto simp: kinded_def err_simps)

lemma kinded_option: "(o' = None \<Longrightarrow> kinded x) \<Longrightarrow> (\<And>v. o' = Some v \<Longrightarrow> kinded (f v)) \<Longrightarrow> kinded (case o' of None \<Rightarrow> x | Some v \<Rightarrow> f v)"
  by (cases o') auto

lemma kinded_Inr: "fst p \<in> KINDS \<Longrightarrow> kinded (Inr p)"
  by (auto simp: kinded_def)

lemmas kinded_intros = kinded_if kinded_bind kinded_option kinded_Inr

lemma resolve_kinded: "kinded (resolve_type c d n)"
proof (induction c d n rule: resolve_type.induct)
  case (1 c d n)
  show ?case
    by (subst resolve_type.simps) (intro kinded_intros 1 pointee_kind; (assumption | simp add: KINDS_def))
qed

lemma params_of_kinds: "params_of c ch = Inr ps \<Longrightarrow> p \<in> set ps \<Longrightarrow> fst (snd p) \<in> KINDS"
proof -
  assume a: "params_of c ch = Inr ps" "p \<in> set ps"
  obtain x where "param_of c x = Inr p" using emap_set [OF a(1) [unfolded params_of_def] a(2)] by blast
  then obtain t k d where "resolve_type c t 0 = Inr (k, d)" "fst (snd p) = k" by (auto simp: param_of_def err_simps)
  with resolve_kinded [of c t 0] show ?thesis by (simp add: kinded_def)
qed

section \<open>The index and the walk choose the same signature\<close>

type_synonym candidate = "(nat \<times> nat) \<times> param list"

text \<open>The candidates for a name, in the order of the debug information, and the choice among them.\<close>

fun candidates :: "string \<Rightarrow> subprogram list \<Rightarrow> candidate list" where
  "candidates nm [] = []"
| "candidates nm ((c, d, ch) # rest) =
     (if d_name d = Some nm then
        (case params_of c ch of Inl _ \<Rightarrow> [] | Inr ps \<Rightarrow> if ps = [] then [] else [(score d ps, ps)])
      else []) @ candidates nm rest"

fun better :: "candidate option \<Rightarrow> candidate \<Rightarrow> candidate option" where
  "better None c = Some c"
| "better (Some b) c = (if higher (fst c) (fst b) then Some c else Some b)"

definition complete :: "candidate \<Rightarrow> bool" where
  "complete c = (fst (fst c) = 1 \<and> snd (fst c) = length (snd c))"

lemma index_step_seen:
  assumes "index_step seen (c, d, ch) = Inr seen'" "nm \<noteq> []"
  shows "map_of seen' nm = foldl better (map_of seen nm) (candidates nm [(c, d, ch)])"
    and "d_name d = Some nm \<Longrightarrow> \<exists>ps. params_of c ch = Inr ps"
  using assms
  by (auto simp: index_step_def Let_def or_else_def err_simps update_conv split: if_splits option.splits)

lemma candidates_Cons: "candidates nm (sp # sps) = candidates nm [sp] @ candidates nm sps"
  by (cases sp) simp

lemma index_fold_seen:
  assumes "efold index_step seen sps = Inr seen'" "nm \<noteq> []"
  shows "map_of seen' nm = foldl better (map_of seen nm) (candidates nm sps)"
  using assms(1)
proof (induction sps arbitrary: seen)
  case (Cons sp sps)
  obtain c d ch where sp: "sp = (c, d, ch)" by (cases sp)
  from Cons.prems obtain s1 where s1: "index_step seen sp = Inr s1" "efold index_step s1 sps = Inr seen'" by (auto simp: err_simps)
  from index_step_seen(1) [OF s1(1) [unfolded sp] assms(2)] Cons.IH [OF s1(2)] show ?case
    by (subst candidates_Cons) (simp add: sp)
qed simp

lemma index_fold_total:
  assumes "efold index_step seen sps = Inr seen'" "(c, d, ch) \<in> set sps" "d_name d = Some nm" "nm \<noteq> []"
  shows "\<exists>ps. params_of c ch = Inr ps"
  using assms(1,2)
proof (induction sps arbitrary: seen)
  case (Cons sp sps)
  from Cons.prems obtain s1 where s1: "index_step seen sp = Inr s1" "efold index_step s1 sps = Inr seen'" by (auto simp: err_simps)
  then show ?case using Cons.IH [OF s1(2)] Cons.prems(2) index_step_seen(2) [of seen c d ch s1 nm] assms(3,4) by auto
qed simp

definition chosen :: "candidate option \<Rightarrow> candidate list \<Rightarrow> param list result" where
  "chosen best cs =
     (case find complete cs of
        Some b \<Rightarrow> Inr (snd b)
      | None \<Rightarrow> (case foldl better best cs of
                   None \<Rightarrow> Inl (SystemExit ''*** no DWARF subprogram with parameters'')
                 | Some b \<Rightarrow> Inr (snd b)))"

lemma chosen_Cons: "chosen best (c # cs) = (if complete c then Inr (snd c) else chosen (better best c) cs)"
  by (cases "find complete cs") (simp_all add: chosen_def)

lemma signature_scan_spec:
  assumes "\<And>c d ch. (c, d, ch) \<in> set sps \<Longrightarrow> d_name d = Some want \<Longrightarrow> \<exists>ps. params_of c ch = Inr ps"
  shows "signature_scan want sps best = chosen best (candidates want sps)"
  using assms
proof (induction sps arbitrary: best)
  case Nil
  then show ?case by (auto simp: chosen_def split: option.splits)
next
  case (Cons sp sps)
  obtain c d ch where sp: "sp = (c, d, ch)" by (cases sp)
  have IH: "signature_scan want sps b = chosen b (candidates want sps)" for b
    by (rule Cons.IH) (use Cons.prems in auto)
  show ?case
  proof (cases "d_name d = Some want")
    case True
    with Cons.prems [of c d ch] sp obtain ps where ps: "params_of c ch = Inr ps" by auto
    have "complete (score d ps, ps) \<longleftrightarrow> d_low_pc d \<and> named ps = length ps" by (simp add: complete_def score_def)
    moreover have "(case best of None \<Rightarrow> Some (score d ps, ps)
        | Some (s, qs) \<Rightarrow> if higher (score d ps) s then Some (score d ps, ps) else best) = better best (score d ps, ps)"
      by (cases best) auto
    ultimately show ?thesis using True ps by (simp add: sp IH chosen_Cons)
  next
    case False
    then show ?thesis by (simp add: sp IH)
  qed
qed

text \<open>When a name has one number of parameters throughout, the first complete definition is also the best.\<close>

lemma candidates_score:
  "b \<in> set (candidates nm sps) \<Longrightarrow> fst (fst b) \<le> 1 \<and> snd (fst b) \<le> length (snd b) \<and> snd b \<noteq> [] \<and>
     (\<forall>p \<in> set (snd b). fst (snd p) \<in> KINDS)"
proof (induction nm sps rule: candidates.induct)
  case (2 nm c d ch rest)
  show ?case
  proof (cases "b \<in> set (candidates nm rest)")
    case False
    with 2(2) have "b \<in> set (case params_of c ch of Inl _ \<Rightarrow> [] | Inr ps \<Rightarrow> if ps = [] then [] else [(score d ps, ps)])"
      by (cases "d_name d = Some nm") simp_all
    then obtain ps where "params_of c ch = Inr ps" "ps \<noteq> []" "b = (score d ps, ps)"
      by (cases "params_of c ch") (auto split: if_splits)
    moreover have "named ps \<le> length ps" by (simp add: named_def)
    ultimately show ?thesis using params_of_kinds [of c ch ps] by (simp add: score_def)
  next
    case True
    then show ?thesis by (rule 2(1))
  qed
qed simp

lemma better_keeps_top:
  "list_all (\<lambda>b. fst (fst b) \<le> 1 \<and> snd (fst b) \<le> n) cs \<Longrightarrow> fst t = (1, n) \<Longrightarrow> foldl better (Some t) cs = Some t"
  by (induction cs) (auto simp: higher_def)

lemma complete_is_best:
  assumes "find complete cs = Some b" "list_all (\<lambda>b. fst (fst b) \<le> 1 \<and> snd (fst b) \<le> n \<and> length (snd b) = n) cs"
    and "case best of None \<Rightarrow> True | Some a \<Rightarrow> fst (fst a) \<le> 1 \<and> snd (fst a) \<le> n \<and> fst a \<noteq> (1, n)"
  shows "foldl better best cs = Some b"
  using assms
proof (induction cs arbitrary: best)
  case (Cons c cs)
  show ?case
  proof (cases "complete c")
    case True
    with Cons.prems have c: "c = b" "fst c = (1, n)" by (auto simp: complete_def prod_eq_iff)
    then have "better best c = Some c" using Cons.prems(3) by (cases best) (auto simp: higher_def prod_eq_iff)
    then show ?thesis using better_keeps_top [of n cs c] c Cons.prems(2) by (auto simp: list_all_iff)
  next
    case False
    have "case better best c of None \<Rightarrow> True | Some a \<Rightarrow> fst (fst a) \<le> 1 \<and> snd (fst a) \<le> n \<and> fst a \<noteq> (1, n)"
      using Cons.prems(2,3) False by (cases best) (auto simp: complete_def prod_eq_iff)
    with Cons.IH [of "better best c"] Cons.prems False show ?thesis by simp
  qed
qed simp

lemma index_agrees_with_walk:
  assumes "efold index_step [] (subprograms cus) = Inr seen" "fn \<noteq> []"
    and "\<forall>b \<in> set (candidates fn (subprograms cus)). length (snd b) = n"
  shows "signature (Some cus) fn =
    (case map_of seen fn of None \<Rightarrow> Inl (SystemExit ''*** no DWARF subprogram with parameters'') | Some b \<Rightarrow> Inr (snd b))"
proof -
  let ?cs = "candidates fn (subprograms cus)"
  have seen: "map_of seen fn = foldl better None ?cs" using index_fold_seen [OF assms(1,2)] by simp
  have sc: "list_all (\<lambda>b. fst (fst b) \<le> 1 \<and> snd (fst b) \<le> n \<and> length (snd b) = n) ?cs"
    using candidates_score [of _ fn "subprograms cus"] assms(3) by (fastforce simp: list_all_iff)
  have "signature (Some cus) fn = chosen None ?cs"
    using signature_scan_spec [of "subprograms cus" fn None] index_fold_total [OF assms(1) _ _ assms(2)]
    by (auto simp: signature_def)
  then show ?thesis
    using complete_is_best [OF _ sc, of _ None] by (cases "find complete ?cs") (simp_all add: seen chosen_def)
qed

section \<open>Reading a written signature index\<close>

text \<open>What a parameter is after a round trip through the file: the separators in its texts are underscores.\<close>

definition reload :: "param \<Rightarrow> param" where
  "reload p =
     (case p of (a, k, c) \<Rightarrow>
        let a' = replace_char (CHR '':'') (CHR ''_'') (or_else a []) in
        (if a' = [] then None else Some a', k,
         replace_char (CHR ''|'') (CHR ''_'') (replace_char (CHR '':'') (CHR ''_'') c)))"

definition one_line :: "string \<Rightarrow> bool" where
  "one_line s = (CHR 0x09 \<notin> set s \<and> no_break s)"

text \<open>Texts that fit the line format: names are words, parameter names have no bar, nothing has a tab or a line end.\<close>

definition plain_param :: "param \<Rightarrow> bool" where
  "plain_param p = (case p of (a, k, c) \<Rightarrow>
     k \<in> KINDS \<and> one_line (or_else a []) \<and> CHR ''|'' \<notin> set (or_else a []) \<and> one_line c)"

definition writable :: "(string \<times> candidate) list \<Rightarrow> bool" where
  "writable seen = (\<forall>(nm, b) \<in> set seen. clean nm \<and> \<not> is_prefix ''#'' nm \<and>
     (\<forall>p \<in> set (snd b). one_line (or_else (fst p) []) \<and> CHR ''|'' \<notin> set (or_else (fst p) []) \<and> one_line (snd (snd p))))"

lemma replace_char_set:
  assumes "x \<noteq> b"
  shows "x \<in> set (replace_char a b s) \<longleftrightarrow> x \<in> set s \<and> x \<noteq> a"
  using assms by (auto simp: replace_char_def image_iff)

lemma kind_plain: "k \<in> KINDS \<Longrightarrow> CHR '':'' \<notin> set k \<and> CHR ''|'' \<notin> set k \<and> one_line k"
  by (auto simp: KINDS_def one_line_def no_break_def)

lemma param_text_plain:
  assumes "plain_param p"
  shows "CHR ''|'' \<notin> set (param_text p)" "one_line (param_text p)"
proof -
  obtain a k c where p: "p = (a, k, c)" by (cases p)
  have k: "k \<in> KINDS" and a: "one_line (or_else a [])" "CHR ''|'' \<notin> set (or_else a [])" "one_line c"
    using assms by (simp_all add: plain_param_def p)
  note [simp] = replace_char_set
  show "CHR ''|'' \<notin> set (param_text p)" using kind_plain [OF k] a by (simp add: param_text_def p)
  show "one_line (param_text p)" using kind_plain [OF k] a by (simp add: param_text_def p one_line_def no_break_def)
qed

lemma param_token_text: "plain_param p \<Longrightarrow> param_token (param_text p) = [reload p]"
proof -
  assume "plain_param p"
  obtain a k c where p: "p = (a, k, c)" by (cases p)
  have k: "CHR '':'' \<notin> set k" using \<open>plain_param p\<close> kind_plain by (auto simp: plain_param_def p)
  let ?a = "replace_char (CHR '':'') (CHR ''_'') (or_else a [])"
  let ?c = "replace_char (CHR ''|'') (CHR ''_'') (replace_char (CHR '':'') (CHR ''_'') c)"
  have a: "CHR '':'' \<notin> set ?a" by (simp add: replace_char_set)
  have "split_max 2 (CHR '':'') (?a @ CHR '':'' # k @ CHR '':'' # ?c) = [?a, k, ?c]"
    using split_max_append [OF a, of 1 "k @ CHR '':'' # ?c"] split_max_append [OF k, of 0 ?c] by (simp add: numeral_2_eq_2)
  then show "param_token (param_text p) = [reload p]"
    by (simp add: param_token_def param_text_def p reload_def Let_def)
qed

definition sig_row :: "string \<Rightarrow> param list \<Rightarrow> string list" where
  "sig_row nm ps = [nm, str_nat (length ps), join ''|'' (map param_text ps)]"

lemma join_plain:
  assumes "\<forall>p \<in> set ps. plain_param p"
  shows "one_line (join ''|'' (map param_text ps))"
  using set_join [of "''|''" "map param_text ps"] param_text_plain(2) assms
  by (auto simp: one_line_def no_break_def)

lemma sig_row_line:
  assumes "clean nm" "\<not> is_prefix ''#'' nm" "nm \<noteq> []" "\<forall>p \<in> set ps. plain_param p"
  shows "split_on (CHR 0x09) (join [CHR 0x09] (sig_row nm ps)) = sig_row nm ps"
    "\<not> is_prefix ''#'' (join [CHR 0x09] (sig_row nm ps))" "no_break (join [CHR 0x09] (sig_row nm ps))"
proof -
  have "one_line nm" "one_line (str_nat (length ps))"
    using assms(1) clean_no_sep by (auto simp: one_line_def no_break_def dest: clean_no_sep [OF clean_str_nat, THEN notE])
  then show "split_on (CHR 0x09) (join [CHR 0x09] (sig_row nm ps)) = sig_row nm ps"
    using join_plain [OF assms(4)] by (intro split_on_join) (auto simp: sig_row_def one_line_def)
  show "\<not> is_prefix ''#'' (join [CHR 0x09] (sig_row nm ps))"
    using assms(2,3) by (cases nm) (simp_all add: sig_row_def)
  show "no_break (join [CHR 0x09] (sig_row nm ps))"
    using \<open>one_line nm\<close> \<open>one_line (str_nat _)\<close> join_plain [OF assms(4)] by (simp add: sig_row_def one_line_def no_break_def)
qed

lemma sig_row_tokens:
  assumes "ps \<noteq> []" "\<forall>p \<in> set ps. plain_param p"
  shows "concat (map param_token (split_on (CHR ''|'') (sig_row nm ps ! 2))) = map reload ps"
proof -
  have "split_on (CHR ''|'') (join ''|'' (map param_text ps)) = map param_text ps"
    using assms param_text_plain(1) by (intro split_on_join) auto
  moreover have "concat (map param_token (map param_text ps)) = map reload ps"
    using assms(2) by (induction ps) (simp_all add: param_token_text)
  ultimately show ?thesis by (simp add: sig_row_def)
qed

lemma load_rows:
  assumes "\<forall>nm \<in> set nms. clean nm \<and> \<not> is_prefix ''#'' nm \<and> nm \<noteq> [] \<and> ps nm \<noteq> [] \<and> (\<forall>p \<in> set (ps nm). plain_param p)"
  shows "load_index_lines want (map (join [CHR 0x09]) (map (\<lambda>nm. sig_row nm (ps nm)) nms) @ [[]]) =
    (if want \<in> set nms then Some (map reload (ps want)) else None)"
  using assms
proof (induction nms)
  case (Cons nm nms)
  then have nm: "clean nm" "\<not> is_prefix ''#'' nm" "nm \<noteq> []" "ps nm \<noteq> []" "\<forall>p \<in> set (ps nm). plain_param p" by auto
  have row: "length (sig_row nm (ps nm)) = 3" "sig_row nm (ps nm) ! 0 = nm" by (simp_all add: sig_row_def)
  show ?case
    using Cons sig_row_line [OF nm(1,2,3,5)] sig_row_tokens [OF nm(4,5), of nm] row
    by (cases "nm = want") (simp_all add: Let_def)
qed (simp add: Let_def)

lemma seen_named:
  assumes "efold index_step [] sps = Inr seen"
  shows "map_of seen [] = None"
proof -
  have "map_of seen' [] = None" if "map_of seen [] = None" "index_step seen sp = Inr seen'" for sp seen seen'
    using that by (cases sp) (auto simp: index_step_def Let_def err_simps update_conv split: if_splits option.splits)
  then show ?thesis using efold_invariant [OF assms, of "\<lambda>s. map_of s [] = None"] by simp
qed

lemma better_member: "foldl better best cs = Some b \<Longrightarrow> best = Some b \<or> b \<in> set cs"
proof (induction cs arbitrary: best)
  case (Cons c cs)
  from Cons.IH [OF Cons.prems [simplified foldl_Cons]] have "better best c = Some b \<or> b \<in> set cs" .
  then show ?case by (cases best) (auto split: if_splits)
qed simp

lemma seen_params:
  assumes "efold index_step [] sps = Inr seen" "writable seen" "map_of seen nm = Some b"
  shows "clean nm \<and> \<not> is_prefix ''#'' nm \<and> nm \<noteq> [] \<and> snd b \<noteq> [] \<and> (\<forall>p \<in> set (snd b). plain_param p)"
proof -
  have mem: "(nm, b) \<in> set seen" using assms(3) by (rule map_of_SomeD)
  have nm: "nm \<noteq> []" using seen_named [OF assms(1)] assms(3) by auto
  have "foldl better None (candidates nm sps) = Some b" using index_fold_seen [OF assms(1) nm] assms(3) by simp
  from better_member [OF this] have "b \<in> set (candidates nm sps)" by simp
  from candidates_score [OF this] show ?thesis
    using mem nm assms(2) unfolding writable_def plain_param_def by (auto simp: case_prod_unfold)
qed

lemma build_index_lines:
  "build_index bid seen = concat (map (\<lambda>l. l @ [CHR 0x0A]) (map (join [CHR 0x09])
     ([[''#ls-sig-index'', str_nat SIG_VERSION], [''#build_id'', bid], [''#name'', ''nparams'', ''name:kind:detail|...'']] @
      map (\<lambda>nm. sig_row nm (case map_of seen nm of Some (_, ps) \<Rightarrow> ps | None \<Rightarrow> [])) (sort (map fst seen)))))"
  by (simp add: build_index_def tabbed_def sig_line_def [abs_def] sig_row_def comp_def)

definition seen_of :: "(string \<times> candidate) list \<Rightarrow> string \<Rightarrow> param list" where
  "seen_of seen nm = (case map_of seen nm of Some (_, ps) \<Rightarrow> ps | None \<Rightarrow> [])"

definition index_header :: "string \<Rightarrow> string list" where
  "index_header bid = map (join [CHR 0x09]) [[''#ls-sig-index'', str_nat SIG_VERSION], [''#build_id'', bid],
     [''#name'', ''nparams'', ''name:kind:detail|...'']]"

definition index_rows :: "(string \<times> candidate) list \<Rightarrow> string list" where
  "index_rows seen = map (join [CHR 0x09]) (map (\<lambda>nm. sig_row nm (seen_of seen nm)) (sort (map fst seen)))"

lemma index_names:
  assumes "efold index_step [] sps = Inr seen" "writable seen"
  shows "\<forall>nm \<in> set (sort (map fst seen)). clean nm \<and> \<not> is_prefix ''#'' nm \<and> nm \<noteq> [] \<and> seen_of seen nm \<noteq> [] \<and>
      (\<forall>p \<in> set (seen_of seen nm). plain_param p)"
proof
  fix nm assume "nm \<in> set (sort (map fst seen))"
  then obtain b where b: "map_of seen nm = Some b" by (metis list.set_map map_of_eq_None_iff not_None_eq set_sort)
  from seen_params [OF assms b] b show "clean nm \<and> \<not> is_prefix ''#'' nm \<and> nm \<noteq> [] \<and> seen_of seen nm \<noteq> [] \<and>
    (\<forall>p \<in> set (seen_of seen nm). plain_param p)" by (cases b) (simp add: seen_of_def)
qed

lemma written_lines:
  assumes "efold index_step [] sps = Inr seen" "writable seen" "clean bid"
  shows "split_on (CHR 0x0A) (universal_newlines (build_index bid seen)) = index_header bid @ index_rows seen @ [[]]"
proof -
  let ?hdr = "index_header bid" and ?rows = "index_rows seen"
  have idx: "build_index bid seen = concat (map (\<lambda>l. l @ [CHR 0x0A]) (?hdr @ ?rows))"
    unfolding build_index_lines by (simp add: index_header_def index_rows_def seen_of_def)
  have "no_break l" if "l \<in> set (?hdr @ ?rows)" for l
    using that index_names [OF assms(1,2)] sig_row_line(3) clean_no_sep [OF assms(3)]
      clean_no_sep [OF clean_str_nat [of SIG_VERSION]]
    by (auto simp: no_break_def index_header_def index_rows_def)
  then have nb: "\<forall>l \<in> set (?hdr @ ?rows). CHR 0x0A \<notin> set l \<and> CHR 0x0D \<notin> set l" by (simp only: no_break_def) blast
  then have "CHR 0x0D \<notin> set (build_index bid seen)" unfolding idx by auto
  then show ?thesis
    using split_lines [of "?hdr @ ?rows"] nb unfolding idx by (simp add: universal_newlines_id)
qed

lemma load_written_index:
  assumes "efold index_step [] sps = Inr seen" "writable seen" "clean bid"
  shows "load_index (build_index bid seen) fn = map_option (\<lambda>b. map reload (snd b)) (map_of seen fn)"
proof -
  have "load_index (build_index bid seen) fn = load_index_lines fn (index_rows seen @ [[]])"
    unfolding load_index_def written_lines [OF assms] by (simp add: index_header_def)
  also have "\<dots> = (if fn \<in> set (sort (map fst seen)) then Some (map reload (seen_of seen fn)) else None)"
    using load_rows [OF index_names [OF assms(1,2)]] by (simp add: index_rows_def)
  also have "\<dots> = map_option (\<lambda>b. map reload (snd b)) (map_of seen fn)"
    by (cases "map_of seen fn") (auto simp: seen_of_def map_of_eq_None_iff dest: map_of_SomeD intro: rev_image_eqI)
  finally show ?thesis .
qed

lemma build_id_clean:
  assumes "build_id blob = Inr bid"
  shows "clean bid"
proof -
  obtain bs where "bid = to_hex bs" using assms by (auto simp: build_id_def err_simps split: if_splits option.splits)
  then show ?thesis by simp
qed

text \<open>
The signature index answers as the debug information does. An index written for a debug file gives, for
every name whose subprograms agree on their number of parameters, the parameters the walk over the debug information finds, in
order and with their kinds, the separators of the file format read back as underscores, and nothing where the walk finds none.
\<close>

theorem signature_index_faithful:
  assumes "build_index_main dbg (Some cus) = Inr t" "efold index_step [] (subprograms cus) = Inr seen" "writable seen" "fn \<noteq> []"
    and "\<forall>b \<in> set (candidates fn (subprograms cus)). length (snd b) = n"
  shows "case signature (Some cus) fn of
           Inr ps \<Rightarrow> load_index t fn = Some (map reload ps)
         | Inl _ \<Rightarrow> load_index t fn = None"
proof -
  obtain bid where "build_id dbg = Inr bid" and t: "t = build_index bid seen"
    using assms(1,2) by (auto simp: build_index_main_def err_simps)
  then have "load_index t fn = map_option (\<lambda>b. map reload (snd b)) (map_of seen fn)"
    using load_written_index [OF assms(2,3) build_id_clean] by simp
  then show ?thesis using index_agrees_with_walk [OF assms(2,4,5)] by (cases "map_of seen fn") simp_all
qed

definition sample_param :: "string \<Rightarrow> die" where
  "sample_param n = \<lparr>d_tag = ''DW_TAG_formal_parameter'', d_name = Some n, d_type = Some 1, d_low_pc = False\<rparr>"

definition sample_cu :: cu where
  "sample_cu =
     \<lparr>cu_offset = 0,
      cu_at = (\<lambda>_. Inr \<lparr>d_tag = ''DW_TAG_base_type'', d_name = Some ''int'', d_type = None, d_low_pc = False\<rparr>),
      cu_dies =
        [(\<lparr>d_tag = ''DW_TAG_subprogram'', d_name = Some ''f'', d_type = None, d_low_pc = True\<rparr>, [sample_param ''a'']),
         (\<lparr>d_tag = ''DW_TAG_subprogram'', d_name = Some ''g'', d_type = None, d_low_pc = True\<rparr>, [sample_param ''a'']),
         (\<lparr>d_tag = ''DW_TAG_subprogram'', d_name = Some ''g'', d_type = None, d_low_pc = True\<rparr>, [sample_param ''a'', sample_param ''b''])]\<rparr>"

lemma sample_seen:
  "efold index_step [] (subprograms [sample_cu]) =
     Inr [(''f'', (1, 1), [(Some ''a'', ''scalar'', ''int'')]),
          (''g'', (1, 2), [(Some ''a'', ''scalar'', ''int''), (Some ''b'', ''scalar'', ''int'')])]"
  by code_simp

definition sample_index :: "(string \<times> candidate) list" where
  "sample_index = [(''f'', (1, 1), [(Some ''a'', ''scalar'', ''int'')]),
     (''g'', (1, 2), [(Some ''a'', ''scalar'', ''int''), (Some ''b'', ''scalar'', ''int'')])]"

lemma sample_index_facts:
  "build_index_main sample_elf (Some [sample_cu]) = Inr (build_index (to_hex sample_id) sample_index)"
  "efold index_step [] (subprograms [sample_cu]) = Inr sample_index" "writable sample_index"
  "candidates ''f'' (subprograms [sample_cu]) = [((1, 1), [(Some ''a'', ''scalar'', ''int'')])]"
  "signature (Some [sample_cu]) ''f'' = Inr [(Some ''a'', ''scalar'', ''int'')]"
  "reload (Some ''a'', ''scalar'', ''int'') = (Some ''a'', ''scalar'', ''int'')"
proof -
  have "build_id sample_elf = Inr (to_hex sample_id)" by code_simp
  then show "build_index_main sample_elf (Some [sample_cu]) = Inr (build_index (to_hex sample_id) sample_index)"
    by (simp add: build_index_main_def sample_seen sample_index_def)
  show "efold index_step [] (subprograms [sample_cu]) = Inr sample_index" by (simp add: sample_seen sample_index_def)
  show "writable sample_index"
    by (simp add: sample_index_def writable_def one_line_def no_break_def or_else_def is_space_def is_ascii_space_def)
qed code_simp+

theorem signature_index_faithful_witness:
  "load_index (build_index (to_hex sample_id) sample_index) ''f'' = Some [(Some ''a'', ''scalar'', ''int'')]"
  using signature_index_faithful [OF sample_index_facts(1-3), of "''f''" 1]
  by (simp add: sample_index_facts)

text \<open>
  Where two functions share a name but not their number of parameters, the index and the walk disagree: the walk
  stops at the first complete definition, the index keeps the one with the most named parameters.
\<close>

theorem index_and_walk_differ:
  "signature (Some [sample_cu]) ''g'' = Inr [(Some ''a'', ''scalar'', ''int'')] \<and>
   map_option snd (map_of [(''f'', (1, 1), [(Some ''a'', ''scalar'', ''int'')]),
          (''g'', (1, 2), [(Some ''a'', ''scalar'', ''int''), (Some ''b'', ''scalar'', ''int'')])] ''g'') =
     Some [(Some ''a'', ''scalar'', ''int''), (Some ''b'', ''scalar'', ''int'')]"
  by code_simp

section \<open>The generated text\<close>

lemma map_name_fits: "\<exists>m. map_name fn = Inr m \<and> length m = 18"
  by (simp add: map_name_def LS_MAP_NAME_MAX_def Let_def)

lemma decl_iff: "list_all sized flds \<Longrightarrow>
  probe_read_decl \<in> set (helper_lines flds) \<longleftrightarrow> (\<exists>f \<in> set flds. \<not> is_register (field_kind f))"
proof -
  assume "list_all sized flds"
  moreover have "(case f of (_, _, k, _, _) \<Rightarrow> k = ''string'' \<or> k = ''blob'') \<longleftrightarrow> \<not> is_register (field_kind f)" if "sized f" for f :: field
    using that by (cases f) (auto simp: sized_def kind_bytes_cases field_kind_def is_register_def)
  ultimately have "list_ex (\<lambda>(_, _, k, _, _). k = ''string'' \<or> k = ''blob'') flds \<longleftrightarrow> (\<exists>f \<in> set flds. \<not> is_register (field_kind f))"
    unfolding list_all_iff list_ex_iff by (intro bex_cong refl) blast
  then show ?thesis by (simp add: helper_lines_def probe_read_decl_def)
qed

text \<open>
Generation never fails on its own output. For every function name the map name is 18 characters, inside the
host's 32-byte table, so the assertion holds and a text is produced; the text declares the dereferencing helper
exactly when some field of the record is read through a pointer, so never with \<^verbatim>\<open>--no-probe-read\<close>.
\<close>

theorem generate_total:
  assumes "layout params npr = (flds, dropped, used)"
  shows "(\<exists>m src. map_name fn = Inr m \<and> length m = 18 \<and> generate fn params flds dropped used npr = Inr src) \<and>
    (probe_read_decl \<in> set (helper_lines flds) \<longleftrightarrow> (\<exists>f \<in> set flds. \<not> is_register (field_kind f))) \<and>
    (npr \<longrightarrow> probe_read_decl \<notin> set (helper_lines flds))"
proof -
  have "laid_out npr (flds, dropped, used)"
    using layout_laid_out [of npr params] assms by simp
  then show ?thesis
    using map_name_fits [of fn] decl_iff [of flds] by (auto simp: generate_def laid_out_def list_all_iff)
qed

theorem generate_total_witness:
  "\<exists>src. generate ''f'' [(Some ''p'', ''string'', ''char *'')] [] [(0, ''p'', ''string'', ''char *'')] 4 True = Inr src"
proof -
  have "layout [(Some ''p'', ''string'', ''char *'')] True = ([], [(0, ''p'', ''string'', ''char *'')], 4)" by code_simp
  from generate_total [OF this] show ?thesis by blast
qed

text \<open>A pointer argument left out by \<^verbatim>\<open>--no-probe-read\<close> is reported as one that did not fit.\<close>

theorem no_probe_read_reason:
  "layout [(Some ''p'', ''string'', ''char *'')] True = ([], [(0, ''p'', ''string'', ''char *'')], 4) \<and>
   dropped_why (0, ''p'', ''string'', ''char *'') = ''no room inside the 96-byte context ceiling''"
  by code_simp

end
