(* ===== verification/Trace_Ring.thy ===== *)
theory Trace_Ring
  imports Build_Id
begin

text \<open>
  \<^verbatim>\<open>substrate/loader-client/ls_tp_dump.py\<close>: the decoder of the tracepoint's shared-memory segment. The
  walk over a ring is a loop over offsets; every step moves it forward by at least eight bytes, so it
  ends on any bytes. The result is what the tool prints, except for the wall-clock rendering of a record's
  time stamp.
\<close>

unbundle bit_operations_syntax

definition SEG_MAGIC :: int where "SEG_MAGIC = 0x4C53534547303031"
definition SEG_HDR :: nat where "SEG_HDR = 32"
definition RING_HDR :: nat where "RING_HDR = 56"
definition REC_HDR :: nat where "REC_HDR = 32"
definition RING_BUSY :: int where "RING_BUSY = 2 ^ 31"
definition RING_DISCARD :: int where "RING_DISCARD = 2 ^ 30"
definition RING_LENMASK :: int where "RING_LENMASK = 0x3FFFFFFF"
definition SCHEMA_HTTP :: int where "SCHEMA_HTTP = 2"
definition SEG_VERSION :: int where "SEG_VERSION = 2"

definition HTTP_FIELDS :: "string list" where
  "HTTP_FIELDS =
     [''parse_err'', ''err'', ''reject_reason'', ''passthru'', ''version'', ''method'',
      ''header_count'', ''status_code'', ''invalid_flags'', ''body_pos'', ''hdr_bytes'']"

definition VERSION :: "(int \<times> string) list" where
  "VERSION = [(0, ''UNKNOWN''), (1, ''HTTP/0.9''), (2, ''HTTP/1.1''), (3, ''HTTP/1.0'')]"

definition INVALID :: "(int \<times> string) list" where
  "INVALID = [(0x01, ''method''), (0x02, ''scheme''), (0x04, ''path''), (0x08, ''status''), (0x10, ''authority'')]"

lemmas ring_consts = SEG_HDR_def RING_HDR_def REC_HDR_def RING_BUSY_def RING_DISCARD_def RING_LENMASK_def

section \<open>A record's payload\<close>

record http =
  h_vals :: "(string \<times> int) list"
  h_version_name :: string
  h_invalid_names :: string

definition decode_http :: "int list \<Rightarrow> http" where
  "decode_http vals =
     (let d = zip HTTP_FIELDS vals; v = the (map_of d ''version''); fl = the (map_of d ''invalid_flags'');
          names = join '','' (map snd (filter (\<lambda>(b, n). fl AND b \<noteq> 0) INVALID)) in
      \<lparr>h_vals = d,
       h_version_name = (case map_of VERSION v of Some n \<Rightarrow> n | None \<Rightarrow> CHR ''?'' # str_int v),
       h_invalid_names = (if names = [] then ''-'' else names)\<rparr>)"

definition http_class :: "http \<Rightarrow> string" where
  "http_class f =
     (if the (map_of (h_vals f) ''parse_err'') \<notin> {3, 5, 16} then ''normal''
      else if the (map_of (h_vals f) ''passthru'') \<noteq> 0 then ''waived'' else ''refused'')"

section \<open>The walk\<close>

record trace_rec =
  tr_seq :: int
  tr_hook :: int
  tr_schema :: int
  tr_tmm :: int
  tr_len :: nat
  tr_payload :: nat
  tr_ts :: int

definition rec_at :: "bytes \<Rightarrow> nat \<Rightarrow> trace_rec" where
  "rec_at d o' =
     \<lparr>tr_seq = u64 d (o' + 8), tr_hook = u32 d o', tr_schema = u32 d (o' + 4), tr_tmm = u32 d (o' + 16),
      tr_len = nat (u32 d (o' + 20)), tr_payload = o' + REC_HDR, tr_ts = u64 d (o' + 24)\<rparr>"

text \<open>\<^verbatim>\<open>(8 + REC_HDR + ln + 7) & ~7\<close>.\<close>

definition rec_size :: "nat \<Rightarrow> nat" where
  "rec_size ln = (8 + REC_HDR + ln + 7) div 8 * 8"

function walk :: "bytes \<Rightarrow> nat \<Rightarrow> nat \<Rightarrow> nat \<Rightarrow> nat \<Rightarrow> trace_rec list result" where
  "walk d data pos rdsz off =
     (if off < pos \<and> off < rdsz then
        if length d < data + off + 4 then Inl StructError
        else
          let hdr = u32 d (data + off) in
          if hdr AND RING_DISCARD \<noteq> 0 then walk d data pos rdsz (off + 8 + nat (hdr AND RING_LENMASK))
          else if hdr AND RING_BUSY \<noteq> 0 then Inr []
          else if hdr AND RING_LENMASK = 0 then Inr []
          else if length d < data + off + 8 + 32 then Inl StructError
          else
            let r = rec_at d (data + off + 8) in
            (case walk d data pos rdsz (off + rec_size (tr_len r)) of
               Inl e \<Rightarrow> Inl e
             | Inr rs \<Rightarrow> Inr (r # rs))
      else Inr [])"
  by pat_completeness auto
termination
  by (relation "measure (\<lambda>(d, data, pos, rdsz, off). pos - off)") (auto simp: rec_size_def REC_HDR_def)

declare walk.simps [simp del]

section \<open>The segment\<close>

datatype line = Http int http | Raw trace_rec

record ring =
  rg_index :: nat
  rg_producer :: nat
  rg_consumer :: int
  rg_drops :: int
  rg_stream :: bool
  rg_records :: "trace_rec list"
  rg_lines :: "line list"

definition print_rec :: "bytes \<Rightarrow> trace_rec \<Rightarrow> line result" where
  "print_rec d r =
     (if tr_schema r = SCHEMA_HTTP \<and> tr_len r = 44
      then need_bytes d (tr_payload r) 44 (Http (tr_seq r) (decode_http (u32s d (tr_payload r) 11)))
      else Inr (Raw r))"

definition shown :: "int \<Rightarrow> 'a list \<Rightarrow> 'a list" where
  "shown n rs = (if n = 0 then rs else if n > 0 then take (nat n) rs else take (length rs - nat (- n)) rs)"

text \<open>A ring that never produced or dropped anything is skipped, but its drop count is added.\<close>

definition dump_ring :: "bytes \<Rightarrow> int \<Rightarrow> bool \<Rightarrow> nat \<Rightarrow> nat \<Rightarrow> (int \<times> ring option) result" where
  "dump_ring d maxn quiet stride i =
     (let base = SEG_HDR + i * stride in
      ebind (need_bytes d base 56 ()) (\<lambda>_.
        let pol = u32 d (base + 12); rdsz = nat (u32 d (base + 16)); pos = nat (u64 d (base + 24));
            cons = u64 d (base + 32); dr = u64 d (base + 40) in
        if pos = 0 \<and> dr = 0 then Inr (dr, None)
        else
          ebind (walk d (base + RING_HDR) pos rdsz 0) (\<lambda>recs.
          ebind (if quiet then Inr [] else emap (print_rec d) (shown maxn recs)) (\<lambda>lines.
            Inr (dr, Some \<lparr>rg_index = i, rg_producer = pos, rg_consumer = cons, rg_drops = dr,
                           rg_stream = (pol = 0), rg_records = recs, rg_lines = lines\<rparr>)))))"

definition dump_main :: "bytes \<Rightarrow> int \<Rightarrow> bool \<Rightarrow> (ring list \<times> nat \<times> int) result" where
  "dump_main d maxn quiet =
     (if length d < SEG_HDR then Inl (SystemExit ''too small to be a segment'')
      else
        let magic = u64 d 0; ver = u32 d 8; n_rings = nat (u32 d 12); stride = nat (u32 d 16); dsz = u32 d 20 in
        if magic = SEG_MAGIC \<and> ver \<noteq> 0 \<and> ver \<noteq> SEG_VERSION then Inl (SystemExit ''segment is another format version'')
        else if magic \<noteq> SEG_MAGIC then Inl (SystemExit ''not a tracepoint segment'')
        else if dsz AND (dsz - 1) \<noteq> 0 then Inl (SystemExit ''data_size is not a power of two'')
        else if stride \<noteq> RING_HDR + nat dsz then Inl (SystemExit ''layout mismatch with ls_tp_ring.h'')
        else if length d < SEG_HDR + n_rings * stride then Inl (SystemExit ''truncated'')
        else
          ebind (emap (dump_ring d maxn quiet stride) [0..<n_rings]) (\<lambda>rs.
            let rings = concat (map (\<lambda>(dr, r). case r of None \<Rightarrow> [] | Some x \<Rightarrow> [x]) rs) in
            Inr (rings, sum_list (map (\<lambda>r. length (rg_records r)) rings), sum_list (map fst rs))))"

section \<open>What a producer wrote\<close>

text \<open>
  The bytes of one committed record, as \<^verbatim>\<open>ls_ring.h\<close> lays them out: a header word with the length of the
  body, a reserved word, the record header, the payload, and padding to eight bytes.
\<close>

definition encode_rec :: "trace_rec \<times> bytes \<Rightarrow> bytes" where
  "encode_rec rp =
     (case rp of (r, p) \<Rightarrow>
        le_bytes 4 (int (REC_HDR + tr_len r)) @ le_bytes 4 0 @ le_bytes 4 (tr_hook r) @ le_bytes 4 (tr_schema r) @
        le_bytes 8 (tr_seq r) @ le_bytes 4 (tr_tmm r) @ le_bytes 4 (int (tr_len r)) @ le_bytes 8 (tr_ts r) @
        p @ replicate (rec_size (tr_len r) - 40 - tr_len r) 0)"

definition rec_ok :: "trace_rec \<times> bytes \<Rightarrow> bool" where
  "rec_ok rp =
     (case rp of (r, p) \<Rightarrow>
        0 \<le> tr_hook r \<and> tr_hook r < 4294967296 \<and> 0 \<le> tr_schema r \<and> tr_schema r < 4294967296 \<and>
        0 \<le> tr_seq r \<and> tr_seq r < 18446744073709551616 \<and> 0 \<le> tr_tmm r \<and> tr_tmm r < 4294967296 \<and>
        0 \<le> tr_ts r \<and> tr_ts r < 18446744073709551616 \<and> REC_HDR + tr_len r < 2 ^ 30 \<and> length p = tr_len r)"

fun place :: "nat \<Rightarrow> (trace_rec \<times> bytes) list \<Rightarrow> trace_rec list" where
  "place off [] = []"
| "place off ((r, p) # rest) = r\<lparr>tr_payload := off + 40\<rparr> # place (off + rec_size (tr_len r)) rest"

lemma rec_size_bounds: "40 + ln \<le> rec_size ln" "0 < rec_size ln"
  by (simp_all add: rec_size_def REC_HDR_def)

lemma length_encode_rec: "rec_ok (r, p) \<Longrightarrow> length (encode_rec (r, p)) = rec_size (tr_len r)"
  using rec_size_bounds(1) [of "tr_len r"] by (simp add: encode_rec_def rec_ok_def)

lemma rec_at_encoded:
  assumes "rec_ok (r, p)" "length pre = o'"
  shows "rec_at (pre @ encode_rec (r, p) @ post) (o' + 8) = r\<lparr>tr_payload := o' + 40\<rparr>"
    and "u32 (pre @ encode_rec (r, p) @ post) o' = int (REC_HDR + tr_len r)"
proof -
  let ?tail = "p @ replicate (rec_size (tr_len r) - 40 - tr_len r) 0 @ post"
  let ?w4 = "le_bytes 4" and ?w8 = "le_bytes 8"
  let ?h = "?w4 (int (REC_HDR + tr_len r))"
  note ok = assms(1) [unfolded rec_ok_def split_conv]
  have d: "pre @ encode_rec (r, p) @ post = pre @ ?h @ ?w4 0 @ ?w4 (tr_hook r) @ ?w4 (tr_schema r) @ ?w8 (tr_seq r) @
      ?w4 (tr_tmm r) @ ?w4 (int (tr_len r)) @ ?w8 (tr_ts r) @ ?tail" by (simp add: encode_rec_def)
  show "u32 (pre @ encode_rec (r, p) @ post) o' = int (REC_HDR + tr_len r)"
    unfolding d using ok by (intro u_at(2) [OF assms(2)]) (auto simp: REC_HDR_def)
  have "u32 (pre @ encode_rec (r, p) @ post) (o' + 8) = tr_hook r"
    unfolding d using u_at(2) [of "pre @ ?h @ ?w4 0" "o' + 8" "tr_hook r"] ok assms(2) by simp
  moreover have "u32 (pre @ encode_rec (r, p) @ post) (o' + 8 + 4) = tr_schema r"
    unfolding d using u_at(2) [of "pre @ ?h @ ?w4 0 @ ?w4 (tr_hook r)" "o' + 8 + 4" "tr_schema r"] ok assms(2) by simp
  moreover have "u64 (pre @ encode_rec (r, p) @ post) (o' + 8 + 8) = tr_seq r"
    unfolding d using u_at(3) [of "pre @ ?h @ ?w4 0 @ ?w4 (tr_hook r) @ ?w4 (tr_schema r)" "o' + 8 + 8" "tr_seq r"] ok assms(2)
    by simp
  moreover have "u32 (pre @ encode_rec (r, p) @ post) (o' + 8 + 16) = tr_tmm r"
    unfolding d using u_at(2) [of "pre @ ?h @ ?w4 0 @ ?w4 (tr_hook r) @ ?w4 (tr_schema r) @ ?w8 (tr_seq r)" "o' + 8 + 16" "tr_tmm r"]
      ok assms(2) by simp
  moreover have "u32 (pre @ encode_rec (r, p) @ post) (o' + 8 + 20) = int (tr_len r)"
    unfolding d using u_at(2) [of "pre @ ?h @ ?w4 0 @ ?w4 (tr_hook r) @ ?w4 (tr_schema r) @ ?w8 (tr_seq r) @ ?w4 (tr_tmm r)"
        "o' + 8 + 20" "int (tr_len r)"] ok assms(2) by simp
  moreover have "u64 (pre @ encode_rec (r, p) @ post) (o' + 8 + 24) = tr_ts r"
    unfolding d using u_at(3) [of "pre @ ?h @ ?w4 0 @ ?w4 (tr_hook r) @ ?w4 (tr_schema r) @ ?w8 (tr_seq r) @ ?w4 (tr_tmm r) @
        ?w4 (int (tr_len r))" "o' + 8 + 24" "tr_ts r"] ok assms(2) by simp
  ultimately show "rec_at (pre @ encode_rec (r, p) @ post) (o' + 8) = r\<lparr>tr_payload := o' + 40\<rparr>"
    by (cases r) (simp add: rec_at_def REC_HDR_def)
qed

lemma header_word:
  assumes "0 < h" "h < 2 ^ 30"
  shows "h AND RING_DISCARD = 0" "h AND RING_BUSY = 0" "h AND RING_LENMASK = h"
proof -
  have t: "take_bit 30 h = h" using assms by (simp add: take_bit_int_eq_self)
  have "\<not> bit h 30" "\<not> bit h 31"
    using bit_take_bit_iff [of 30 h 30] bit_take_bit_iff [of 30 h 31] unfolding t by auto
  then show "h AND RING_DISCARD = 0" "h AND RING_BUSY = 0"
    unfolding RING_DISCARD_def RING_BUSY_def and_exp_eq_0_iff_not_bit by simp_all
  have "RING_LENMASK = mask 30" by (simp add: RING_LENMASK_def mask_eq_exp_minus_1)
  then show "h AND RING_LENMASK = h" using t by (simp add: take_bit_eq_mask)
qed

lemma walk_encoded:
  assumes "list_all rec_ok rs" "length (pre @ done') = data + off" "length pre = data"
    "off + length (concat (map encode_rec rs)) \<le> rdsz"
  shows "walk (pre @ done' @ concat (map encode_rec rs) @ post) data
      (off + length (concat (map encode_rec rs))) rdsz off = Inr (place (data + off) rs)"
  using assms
proof (induction rs arbitrary: done' off)
  case Nil
  then show ?case by (simp add: walk.simps)
next
  case (Cons rp rs)
  obtain r p where rp: "rp = (r, p)" by (cases rp)
  have ok: "rec_ok (r, p)" using Cons.prems(1) rp by simp
  let ?d = "pre @ done' @ concat (map encode_rec (rp # rs)) @ post"
  have d: "?d = (pre @ done') @ encode_rec (r, p) @ (concat (map encode_rec rs) @ post)" by (simp add: rp)
  note at = rec_at_encoded [OF ok Cons.prems(2), of "concat (map encode_rec rs) @ post", folded d]
  have sz: "length (encode_rec (r, p)) = rec_size (tr_len r)" by (rule length_encode_rec [OF ok])
  note rb = rec_size_bounds [of "tr_len r"]
  have len: "data + off + 40 \<le> length ?d" unfolding d using Cons.prems(2) sz rb by simp
  have h: "0 < int (REC_HDR + tr_len r)" "int (REC_HDR + tr_len r) < 2 ^ 30"
    using ok by (simp_all add: rec_ok_def REC_HDR_def)
  have rest: "walk ?d data (off + length (concat (map encode_rec (rp # rs)))) rdsz (off + rec_size (tr_len r)) =
      Inr (place (data + (off + rec_size (tr_len r))) rs)"
    using Cons.IH [of "done' @ encode_rec (r, p)" "off + rec_size (tr_len r)"] Cons.prems sz rp
    by (simp add: add.assoc)
  have lt: "off < off + length (concat (map encode_rec (rp # rs)))" using sz rb rp by simp
  moreover have "off < rdsz" using Cons.prems(4) lt by linarith
  ultimately show ?case
    using at header_word [OF h] h len rest
    by (subst walk.simps) (simp add: Let_def rp add.assoc)
qed

section \<open>Properties\<close>

text \<open>
The decoder reads back what a producer wrote: over a ring whose data holds a sequence of committed
records up to the producer position, the walk ends and returns exactly those records, in order, with
every header field and the position of its payload.
\<close>

theorem ring_walk_exact:
  assumes "list_all rec_ok rs" "length pre = data" "length (concat (map encode_rec rs)) \<le> rdsz"
  shows "walk (pre @ concat (map encode_rec rs) @ post) data (length (concat (map encode_rec rs))) rdsz 0 =
    Inr (place data rs)"
  using walk_encoded [OF assms(1), of pre "[]" data 0 rdsz post] assms(2,3) by simp

definition sample_rec :: trace_rec where
  "sample_rec = \<lparr>tr_seq = 7, tr_hook = 1, tr_schema = 9, tr_tmm = 2, tr_len = 3, tr_payload = 0, tr_ts = 5\<rparr>"

theorem ring_walk_exact_witness:
  "walk ([] @ concat (map encode_rec [(sample_rec, [1, 2, 3])]) @ []) 0
     (length (concat (map encode_rec [(sample_rec, [1, 2, 3])]))) 64 0 = Inr [sample_rec\<lparr>tr_payload := 40\<rparr>]"
proof -
  have "list_all rec_ok [(sample_rec, [1, 2, 3])]" by (simp add: rec_ok_def sample_rec_def REC_HDR_def)
  moreover have "length (concat (map encode_rec [(sample_rec, [1, 2, 3])])) \<le> 64" by code_simp
  ultimately show ?thesis using ring_walk_exact [of "[(sample_rec, [1, 2, 3])]" "[]" 0 64 "[]"] by simp
qed

end
