(* ===== verification/Py_Regex.thy ===== *)
theory Py_Regex
  imports Py_Lines "HOL-Library.AList"
begin

text \<open>
  The pieces of Python's regular expressions that the type catalogue and the trace language are written with.
  A matcher takes the text that is left and returns what it captured with the text behind it; the expressions
  of the sources are concatenations in which each repetition is over a class of characters disjoint from what
  may follow it, so greedy matching needs no backtracking. Where an expression is lazy the definition says so.
\<close>

type_synonym 'a matcher = "string \<Rightarrow> ('a \<times> string) option"

text \<open>\<^verbatim>\<open>\w\<close>: letters, digits and the underscore, the letters and numerals above 127 included.\<close>

definition re_word :: "char \<Rightarrow> bool" where
  "re_word c =
     (is_word c \<or>
      (let n = of_char c :: nat in
       n \<in> {170, 178, 179, 181, 185, 186, 188, 189, 190} \<or> (192 \<le> n \<and> n \<noteq> 215 \<and> n \<noteq> 247)))"

definition re_alpha :: "char \<Rightarrow> bool" where
  "re_alpha c = (c = CHR ''_'' \<or> (let n = of_char c :: nat in (65 \<le> n \<and> n \<le> 90) \<or> (97 \<le> n \<and> n \<le> 122)))"

definition many1 :: "(char \<Rightarrow> bool) \<Rightarrow> string matcher" where
  "many1 P s = (case takeWhile P s of [] \<Rightarrow> None | t \<Rightarrow> Some (t, dropWhile P s))"

definition skip :: "string \<Rightarrow> string" where
  "skip s = dropWhile is_space s"

definition skip1 :: "string \<Rightarrow> string option" where
  "skip1 s = (case s of [] \<Rightarrow> None | c # cs \<Rightarrow> if is_space c then Some (skip cs) else None)"

definition lits :: "string \<Rightarrow> string \<Rightarrow> string option" where
  "lits p s = (if is_prefix p s then Some (drop (length p) s) else None)"

text \<open>\<^verbatim>\<open>[A-Za-z_]\w*\<close>.\<close>

definition ident :: "string matcher" where
  "ident s =
     (case s of
        [] \<Rightarrow> None
      | c # cs \<Rightarrow> if re_alpha c then Some (c # takeWhile re_word cs, dropWhile re_word cs) else None)"

definition is_ident :: "string \<Rightarrow> bool" where
  "is_ident s = (case ident s of Some (_, r) \<Rightarrow> r = [] | None \<Rightarrow> False)"

text \<open>\<^verbatim>\<open>$\<close> holds at the end of the text and before a line feed that ends it.\<close>

definition at_end :: "string \<Rightarrow> bool" where
  "at_end s = (s = [] \<or> s = [CHR 0x0A])"

definition dec_num :: "string \<Rightarrow> int" where
  "dec_num s = foldl (\<lambda>a c. 10 * a + int (digit_val c)) 0 s"

text \<open>\<^verbatim>\<open>(\d+)\<close> read by \<^verbatim>\<open>int\<close>.\<close>

definition number :: "int matcher" where
  "number s = map_option (\<lambda>(d, r). (dec_num d, r)) (many1 is_digit s)"

text \<open>\<^verbatim>\<open>re.search\<close>: the leftmost position at which the expression matches.\<close>

fun re_search :: "(string \<Rightarrow> 'a option) \<Rightarrow> string \<Rightarrow> 'a option" where
  "re_search p [] = p []"
| "re_search p (c # cs) = (case p (c # cs) of Some x \<Rightarrow> Some x | None \<Rightarrow> re_search p cs)"

lemma ident_word: "ident s = Some (n, r) \<Longrightarrow> n \<noteq> [] \<and> s = n @ r"
  by (auto simp: ident_def split: list.splits if_splits)

lemma re_alpha_word: "re_alpha c \<Longrightarrow> re_word c"
  by (auto simp: re_alpha_def re_word_def is_word_def Let_def)

lemma is_ident_iff: "is_ident s \<longleftrightarrow> s \<noteq> [] \<and> re_alpha (hd s) \<and> (\<forall>c \<in> set s. re_word c)"
  by (cases s) (auto simp: is_ident_def ident_def re_alpha_word split: if_splits)

lemma many1_append: "many1 P s = Some (t, r) \<Longrightarrow> s = t @ r \<and> t \<noteq> [] \<and> (\<forall>c \<in> set t. P c)"
  by (auto simp: many1_def split: list.splits dest: set_takeWhileD)

end
