(* ===== verification/Type_Catalog.thy ===== *)
theory Type_Catalog
  imports Py_Regex
begin

text \<open>
  The struct-field catalogue \<^verbatim>\<open>substrate/gen_type_catalog.py\<close>: the text \<^verbatim>\<open>bpftool btf dump\<close> prints (an input)
  gives the type table of a build, and the table the JSON document the trace language resolves paths with:
  each struct's readable fields with their widths, and under reserved keys its pointer edges, its embedded
  structs and its bitfields. A document is a \<open>jval\<close>; dictionaries keep the order of insertion.
\<close>

section \<open>The type table\<close>

type_synonym member = "string \<times> int \<times> int \<times> int"

record btype =
  b_kind :: string
  b_name :: string
  b_members :: "member list"
  b_size :: "int option"
  b_ref :: "int option"

type_synonym types = "(int \<times> btype) list"

text \<open>\<^verbatim>\<open>^\[(\d+)\]\s+(\w+)\s+\<close>, the start of both header expressions.\<close>

definition match_head :: "string \<Rightarrow> (int \<times> string \<times> string) option" where
  "match_head ln =
     Option.bind (lits ''['' ln) (\<lambda>s.
     Option.bind (number s) (\<lambda>(tid, s).
     Option.bind (lits '']'' s) (\<lambda>s.
     Option.bind (skip1 s) (\<lambda>s.
     Option.bind (many1 re_word s) (\<lambda>(kind, s).
     Option.bind (skip1 s) (\<lambda>s. Some (tid, kind, s)))))))"

definition quote :: char where "quote = CHR 0x27"

definition match_hdr :: "string \<Rightarrow> (int \<times> string \<times> string \<times> string) option" where
  "match_hdr ln =
     Option.bind (match_head ln) (\<lambda>(tid, kind, s).
     Option.bind (lits [quote] s) (\<lambda>s.
     Option.bind (lits [quote] (dropWhile (\<lambda>c. c \<noteq> quote) s)) (\<lambda>rest.
       Some (tid, kind, takeWhile (\<lambda>c. c \<noteq> quote) s, rest))))"

definition match_anon :: "string \<Rightarrow> (int \<times> string \<times> string \<times> string) option" where
  "match_anon ln =
     Option.bind (match_head ln) (\<lambda>(tid, kind, s).
     Option.bind (lits ''(anon)'' s) (\<lambda>rest. Some (tid, kind, [], rest)))"

definition keyed :: "string \<Rightarrow> int matcher" where
  "keyed key s = Option.bind (lits key s) number"

text \<open>\<^verbatim>\<open>(?:\s+key=(\d+))?\<close>, with 0 where the group did not take part.\<close>

definition optional_key :: "string \<Rightarrow> string \<Rightarrow> int \<times> string" where
  "optional_key key s =
     (case Option.bind (skip1 s) (keyed key) of None \<Rightarrow> (0, s) | Some r \<Rightarrow> r)"

definition match_mem :: "string \<Rightarrow> member option" where
  "match_mem ln =
     Option.bind (skip1 ln) (\<lambda>s.
     Option.bind (lits [quote] s) (\<lambda>s.
     Option.bind (many1 (\<lambda>c. c \<noteq> quote) s) (\<lambda>(fname, s).
     Option.bind (lits [quote] s) (\<lambda>s.
     Option.bind (skip1 s) (\<lambda>s.
     Option.bind (keyed ''type_id='' s) (\<lambda>(ftid, s).
       let (boff, s) = optional_key ''bits_offset='' s;
           (bsz, s) = optional_key ''bitfield_size='' s
       in Some (fname, ftid, boff, bsz)))))))"

definition new_type :: "string \<Rightarrow> string \<Rightarrow> string \<Rightarrow> btype" where
  "new_type kind name rest =
     \<lparr>b_kind = kind, b_name = name, b_members = [],
      b_size = map_option fst (re_search (keyed ''size='') rest),
      b_ref = map_option fst (re_search (keyed ''type_id='') rest)\<rparr>"

definition add_member :: "member \<Rightarrow> btype \<Rightarrow> btype" where
  "add_member mm t = t\<lparr>b_members := b_members t @ [mm]\<rparr>"

text \<open>One line of the dump; \<open>cur\<close> is the type whose members are being read.\<close>

definition dump_line :: "types \<times> int option \<Rightarrow> string \<Rightarrow> types \<times> int option" where
  "dump_line st ln =
     (case st of (ts, cur) \<Rightarrow>
        (case (case match_hdr ln of Some g \<Rightarrow> Some g | None \<Rightarrow> match_anon ln) of
           Some (tid, kind, name, rest) \<Rightarrow> (AList.update tid (new_type kind name rest) ts, Some tid)
         | None \<Rightarrow>
             (case (match_mem ln, cur) of
                (Some mm, Some c) \<Rightarrow>
                  (case map_of ts c of
                     Some t \<Rightarrow>
                       if b_kind t \<in> {''STRUCT'', ''UNION''} then (AList.update c (add_member mm t) ts, cur)
                       else st
                   | None \<Rightarrow> st)
              | _ \<Rightarrow> st)))"

definition parse_dump :: "string \<Rightarrow> types" where
  "parse_dump raw = fst (foldl dump_line ([], None) (splitlines raw))"

section \<open>Sizes and targets\<close>

definition WRAPPERS :: "string list" where
  "WRAPPERS = [''TYPEDEF'', ''CONST'', ''VOLATILE'', ''RESTRICT'', ''TYPE_TAG'']"

definition type_get :: "types \<Rightarrow> int option \<Rightarrow> btype option" where
  "type_get ts tid = Option.bind tid (map_of ts)"

function size_of :: "types \<Rightarrow> int option \<Rightarrow> nat \<Rightarrow> int" where
  "size_of ts tid depth =
     (if depth > 12 then 0
      else case type_get ts tid of
        None \<Rightarrow> 0
      | Some t \<Rightarrow>
          if b_kind t = ''PTR'' then 8
          else if b_kind t \<in> {''INT'', ''ENUM'', ''ENUM64'', ''FLOAT''} then
            (case b_size t of None \<Rightarrow> 0 | Some s \<Rightarrow> s)
          else if b_kind t \<in> set WRAPPERS then size_of ts (b_ref t) (depth + 1)
          else 0)"
  by pat_completeness auto
termination by (relation "measure (\<lambda>(ts, tid, depth). 13 - depth)") auto

text \<open>The loop that peels the pointee.\<close>

fun peel_ref :: "types \<Rightarrow> nat \<Rightarrow> btype option \<Rightarrow> btype option" where
  "peel_ref ts 0 pt = pt"
| "peel_ref ts (Suc n) pt =
     (case pt of
        None \<Rightarrow> None
      | Some t \<Rightarrow> if b_kind t \<in> set WRAPPERS then peel_ref ts n (type_get ts (b_ref t)) else pt)"

definition struct_name :: "btype option \<Rightarrow> string option" where
  "struct_name pt =
     (case pt of
        None \<Rightarrow> None
      | Some t \<Rightarrow> if b_kind t = ''STRUCT'' \<and> b_name t \<noteq> [] then Some (b_name t) else None)"

function ptr_target :: "types \<Rightarrow> int option \<Rightarrow> nat \<Rightarrow> string option" where
  "ptr_target ts tid depth =
     (if depth > 12 then None
      else case type_get ts tid of
        None \<Rightarrow> None
      | Some t \<Rightarrow>
          if b_kind t \<in> set WRAPPERS then ptr_target ts (b_ref t) (depth + 1)
          else if b_kind t \<noteq> ''PTR'' then None
          else struct_name (peel_ref ts 12 (type_get ts (b_ref t))))"
  by pat_completeness auto
termination by (relation "measure (\<lambda>(ts, tid, depth). 13 - depth)") auto

function embedded_target :: "types \<Rightarrow> int option \<Rightarrow> nat \<Rightarrow> string option" where
  "embedded_target ts tid depth =
     (if depth > 12 then None
      else case type_get ts tid of
        None \<Rightarrow> None
      | Some t \<Rightarrow>
          if b_kind t \<in> set WRAPPERS then embedded_target ts (b_ref t) (depth + 1)
          else if b_kind t = ''STRUCT'' \<and> is_ident (b_name t) then Some (b_name t)
          else None)"
  by pat_completeness auto
termination by (relation "measure (\<lambda>(ts, tid, depth). 13 - depth)") auto

declare size_of.simps [simp del] ptr_target.simps [simp del] embedded_target.simps [simp del]

section \<open>The catalogue\<close>

definition WIDTHS :: "(int \<times> string) list" where
  "WIDTHS = [(1, ''u8''), (2, ''u16''), (4, ''u32''), (8, ''u64'')]"

type_synonym 'a dict = "(string \<times> 'a) list"

record bitfield =
  bf_unit :: string
  bf_byte :: int
  bf_shift :: int
  bf_width :: int

record layouts =
  l_fields :: "string dict"
  l_edges :: "string dict"
  l_bits :: "bitfield dict"
  l_members :: "string dict"

definition bitfield_of :: "int \<Rightarrow> string \<Rightarrow> int \<Rightarrow> int \<Rightarrow> bitfield" where
  "bitfield_of s w boff bsz =
     (let byte = (boff div (s * 8)) * s in
      \<lparr>bf_unit = w, bf_byte = byte, bf_shift = boff - byte * 8, bf_width = bsz\<rparr>)"

definition member_step :: "types \<Rightarrow> string \<Rightarrow> layouts \<Rightarrow> member \<Rightarrow> layouts" where
  "member_step ts sname l mm =
     (case mm of (fname, ftid, boff, bsz) \<Rightarrow>
        let s = size_of ts (Some ftid) 0 in
        if bsz \<noteq> 0 then
          (case map_of WIDTHS s of
             None \<Rightarrow> l
           | Some w \<Rightarrow> l\<lparr>l_bits := AList.update fname (bitfield_of s w boff bsz) (l_bits l)\<rparr>)
        else
          let l = (case map_of WIDTHS s of
                     None \<Rightarrow> l | Some w \<Rightarrow> l\<lparr>l_fields := AList.update fname w (l_fields l)\<rparr>);
              l = (case ptr_target ts (Some ftid) 0 of
                     None \<Rightarrow> l | Some tgt \<Rightarrow> l\<lparr>l_edges := AList.update fname tgt (l_edges l)\<rparr>) in
          case embedded_target ts (Some ftid) 0 of
            None \<Rightarrow> l
          | Some tgt \<Rightarrow>
              if is_ident sname \<and> is_ident fname
              then l\<lparr>l_members := AList.update fname tgt (l_members l)\<rparr> else l)"

definition struct_layouts :: "types \<Rightarrow> btype \<Rightarrow> layouts" where
  "struct_layouts ts t =
     foldl (member_step ts (b_name t)) \<lparr>l_fields = [], l_edges = [], l_bits = [], l_members = []\<rparr> (b_members t)"

text \<open>The richest definition is kept where a struct name repeats.\<close>

definition richer :: "'a dict \<Rightarrow> string \<Rightarrow> 'a dict dict \<Rightarrow> bool" where
  "richer d name m =
     (d \<noteq> [] \<and> (case map_of m name of None \<Rightarrow> True | Some old \<Rightarrow> length d > length old))"

definition keep_richest :: "'a dict \<Rightarrow> string \<Rightarrow> 'a dict dict \<Rightarrow> 'a dict dict" where
  "keep_richest d name m = (if richer d name m then AList.update name d m else m)"

record catalog =
  c_fields :: "string dict dict"
  c_ptrs :: "string dict dict"
  c_bits :: "bitfield dict dict"
  c_embedded :: "string dict dict"

definition setdefault :: "string \<Rightarrow> 'a \<Rightarrow> 'a dict \<Rightarrow> 'a dict" where
  "setdefault k v d = (if map_of d k = None then d @ [(k, v)] else d)"

definition struct_step :: "types \<Rightarrow> catalog \<Rightarrow> btype \<Rightarrow> catalog" where
  "struct_step ts c t =
     (if b_kind t \<noteq> ''STRUCT'' \<or> b_name t = [] then c
      else
        let l = struct_layouts ts t; n = b_name t;
            fs = keep_richest (l_fields l) n (c_fields c) in
        \<lparr>c_fields = (if richer (l_members l) n (c_embedded c) then setdefault n [] fs else fs),
         c_ptrs = keep_richest (l_edges l) n (c_ptrs c),
         c_bits = keep_richest (l_bits l) n (c_bits c),
         c_embedded = keep_richest (l_members l) n (c_embedded c)\<rparr>)"

definition catalog_of :: "types \<Rightarrow> catalog" where
  "catalog_of ts =
     foldl (struct_step ts) \<lparr>c_fields = [], c_ptrs = [], c_bits = [], c_embedded = []\<rparr> (map snd ts)"

text \<open>The document: reserved keys beside the structs, each replacing a struct of that name.\<close>

definition json_dict :: "('a \<Rightarrow> jval) \<Rightarrow> 'a dict \<Rightarrow> jval" where
  "json_dict f d = JObj (map (\<lambda>(k, v). (k, f v)) d)"

definition json_bitfield :: "bitfield \<Rightarrow> jval" where
  "json_bitfield b =
     JObj [(''unit'', JStr (bf_unit b)), (''byte'', JInt (bf_byte b)), (''shift'', JInt (bf_shift b)),
           (''width'', JInt (bf_width b))]"

definition catalog_json :: "catalog \<Rightarrow> jobj" where
  "catalog_json c =
     AList.update ''__embedded__'' (json_dict (json_dict JStr) (c_embedded c))
      (AList.update ''__bitfields__'' (json_dict (json_dict json_bitfield) (c_bits c))
       (AList.update ''__ptr_targets__'' (json_dict (json_dict JStr) (c_ptrs c))
         (map (\<lambda>(k, v). (k, json_dict JStr v)) (c_fields c))))"

definition build_catalog :: "string \<Rightarrow> jobj" where
  "build_catalog raw = catalog_json (catalog_of (parse_dump raw))"

section \<open>What the catalogue advertises\<close>

text \<open>
  The four facts a consumer relies on, for one definition of a struct: a readable field is a whole member of
  that width, an edge is a member that points to the struct, an embedded struct is a member of that type, and
  a bitfield is described by the storage unit that holds it.
\<close>

definition whole_member :: "types \<Rightarrow> btype \<Rightarrow> string \<Rightarrow> string \<Rightarrow> bool" where
  "whole_member ts t f w =
     (\<exists>ftid boff. (f, ftid, boff, 0) \<in> set (b_members t) \<and> map_of WIDTHS (size_of ts (Some ftid) 0) = Some w)"

definition pointer_member :: "types \<Rightarrow> btype \<Rightarrow> string \<Rightarrow> string \<Rightarrow> bool" where
  "pointer_member ts t f tgt =
     (\<exists>ftid boff. (f, ftid, boff, 0) \<in> set (b_members t) \<and> ptr_target ts (Some ftid) 0 = Some tgt)"

definition inline_member :: "types \<Rightarrow> btype \<Rightarrow> string \<Rightarrow> string \<Rightarrow> bool" where
  "inline_member ts t f tgt =
     (\<exists>ftid boff. (f, ftid, boff, 0) \<in> set (b_members t) \<and> embedded_target ts (Some ftid) 0 = Some tgt)"

definition unit_of :: "types \<Rightarrow> btype \<Rightarrow> string \<Rightarrow> bitfield \<Rightarrow> bool" where
  "unit_of ts t f b =
     (\<exists>ftid boff s. (f, ftid, boff, bf_width b) \<in> set (b_members t) \<and> bf_width b \<noteq> 0 \<and>
        s = size_of ts (Some ftid) 0 \<and> map_of WIDTHS s = Some (bf_unit b) \<and>
        bf_byte b * 8 + bf_shift b = boff \<and> 0 \<le> bf_shift b \<and> bf_shift b < s * 8 \<and> s dvd bf_byte b)"

definition all_entries :: "('a \<Rightarrow> 'b \<Rightarrow> bool) \<Rightarrow> ('a \<times> 'b) list \<Rightarrow> bool" where
  "all_entries P d = (\<forall>k v. map_of d k = Some v \<longrightarrow> P k v)"

lemma all_entries_Nil [simp]: "all_entries P []"
  by (simp add: all_entries_def)

lemma all_entries_update: "all_entries P d \<Longrightarrow> P k v \<Longrightarrow> all_entries P (AList.update k v d)"
  by (auto simp: all_entries_def update_conv')

lemma all_entries_mono: "all_entries P d \<Longrightarrow> (\<And>k v. P k v \<Longrightarrow> Q k v) \<Longrightarrow> all_entries Q d"
  by (auto simp: all_entries_def)

definition layouts_ok :: "types \<Rightarrow> btype \<Rightarrow> layouts \<Rightarrow> bool" where
  "layouts_ok ts t l =
     (all_entries (whole_member ts t) (l_fields l) \<and> all_entries (pointer_member ts t) (l_edges l) \<and>
      all_entries (unit_of ts t) (l_bits l) \<and> all_entries (inline_member ts t) (l_members l))"

lemma foldl_invariant:
  assumes "P s" "\<And>s x. x \<in> set xs \<Longrightarrow> P s \<Longrightarrow> P (f s x)"
  shows "P (foldl f s xs)"
  using assms by (induction xs arbitrary: s) auto

lemma WIDTHS_pos: "map_of WIDTHS s = Some w \<Longrightarrow> 0 < s"
  by (auto simp: WIDTHS_def split: if_splits)

lemma bitfield_of_unit:
  assumes "(f, ftid, boff, bsz) \<in> set (b_members t)" "bsz \<noteq> 0"
    and "map_of WIDTHS (size_of ts (Some ftid) 0) = Some w"
  shows "unit_of ts t f (bitfield_of (size_of ts (Some ftid) 0) w boff bsz)"
proof -
  let ?s = "size_of ts (Some ftid) 0"
  have s: "0 < ?s" using assms(3) by (rule WIDTHS_pos)
  have e: "boff - (boff div (?s * 8)) * ?s * 8 = boff mod (?s * 8)"
    by (simp add: minus_div_mult_eq_mod [symmetric] algebra_simps)
  have "0 \<le> boff mod (?s * 8)" "boff mod (?s * 8) < ?s * 8" using s by simp_all
  with assms s e show ?thesis
    unfolding unit_of_def bitfield_of_def Let_def
    by (intro exI [of _ ftid] exI [of _ boff] exI [of _ ?s]) simp
qed

lemma member_step_ok:
  assumes "mm \<in> set (b_members t)" "layouts_ok ts t l"
  shows "layouts_ok ts t (member_step ts n l mm)"
proof -
  obtain f ftid boff bsz where mm: "mm = (f, ftid, boff, bsz)" by (cases mm) auto
  let ?s = "size_of ts (Some ftid) 0"
  show ?thesis
  proof (cases "bsz = 0")
    case True
    have w: "whole_member ts t f w" if "map_of WIDTHS ?s = Some w" for w
      using assms(1) mm True that unfolding whole_member_def by blast
    have p: "pointer_member ts t f g" if "ptr_target ts (Some ftid) 0 = Some g" for g
      using assms(1) mm True that unfolding pointer_member_def by blast
    have i: "inline_member ts t f g" if "embedded_target ts (Some ftid) 0 = Some g" for g
      using assms(1) mm True that unfolding inline_member_def by blast
    show ?thesis
      using assms(2) True w p i
      by (auto simp: mm member_step_def layouts_ok_def Let_def all_entries_update split: option.split)
  next
    case False
    then have "unit_of ts t f (bitfield_of ?s w boff bsz)" if "map_of WIDTHS ?s = Some w" for w
      using assms(1) that by (intro bitfield_of_unit) (auto simp: mm)
    with assms(2) False show ?thesis
      by (auto simp: mm member_step_def layouts_ok_def Let_def all_entries_update split: option.split)
  qed
qed

lemma struct_layouts_ok: "layouts_ok ts t (struct_layouts ts t)"
  unfolding struct_layouts_def
  by (rule foldl_invariant) (simp add: layouts_ok_def, rule member_step_ok)

text \<open>Every entry of the catalogue comes from one struct of the table with that name.\<close>

definition from_struct :: "types \<Rightarrow> (btype \<Rightarrow> string \<Rightarrow> 'a \<Rightarrow> bool) \<Rightarrow> string \<Rightarrow> 'a dict \<Rightarrow> bool" where
  "from_struct ts P n d =
     (d = [] \<or> (\<exists>t \<in> snd ` set ts. b_kind t = ''STRUCT'' \<and> b_name t = n \<and> all_entries (P t) d))"

definition catalog_ok :: "types \<Rightarrow> catalog \<Rightarrow> bool" where
  "catalog_ok ts c =
     (all_entries (from_struct ts (whole_member ts)) (c_fields c) \<and>
      all_entries (from_struct ts (pointer_member ts)) (c_ptrs c) \<and>
      all_entries (from_struct ts (unit_of ts)) (c_bits c) \<and>
      all_entries (from_struct ts (inline_member ts)) (c_embedded c))"

lemma keep_richest_entries:
  "all_entries P m \<Longrightarrow> P n d \<Longrightarrow> all_entries P (keep_richest d n m)"
  by (simp add: keep_richest_def all_entries_update)

lemma setdefault_entries: "all_entries P m \<Longrightarrow> P n v \<Longrightarrow> all_entries P (setdefault n v m)"
  by (auto simp: setdefault_def all_entries_def map_add_def split: option.splits if_splits)

lemma struct_step_ok:
  assumes "t \<in> snd ` set ts" "catalog_ok ts c"
  shows "catalog_ok ts (struct_step ts c t)"
proof (cases "b_kind t \<noteq> ''STRUCT'' \<or> b_name t = []")
  case True
  with assms(2) show ?thesis by (auto simp: struct_step_def)
next
  case False
  have fs: "from_struct ts P (b_name t) d" if "all_entries (P t) d" for P and d :: "'a dict"
    using assms(1) False that by (auto simp: from_struct_def)
  have e: "from_struct ts P n []" for P :: "btype \<Rightarrow> string \<Rightarrow> string \<Rightarrow> bool" and n
    by (simp add: from_struct_def)
  show ?thesis
    using False assms(2) struct_layouts_ok [of ts t]
    by (auto simp: struct_step_def Let_def catalog_ok_def layouts_ok_def e
        intro!: keep_richest_entries setdefault_entries from_struct_def [THEN iffD2] assms(1))
qed

lemma catalog_of_ok: "catalog_ok ts (catalog_of ts)"
  unfolding catalog_of_def
  by (rule foldl_invariant) (simp add: catalog_ok_def, rule struct_step_ok, simp_all)

lemma from_struct_entry:
  assumes "all_entries (from_struct ts P) m" "map_of m s = Some d" "map_of d f = Some v"
  obtains t where "t \<in> snd ` set ts" "b_kind t = ''STRUCT''" "b_name t = s" "P t f v"
  using assms unfolding all_entries_def from_struct_def
  by (metis map_of_eq_None_iff list.map(1) empty_set empty_iff image_empty option.distinct(1))

lemma field_entry:
  assumes "map_of (c_fields (catalog_of ts)) s = Some d" "map_of d f = Some w"
  obtains t where "t \<in> snd ` set ts" "b_kind t = ''STRUCT''" "b_name t = s" "whole_member ts t f w"
  using from_struct_entry [of ts "whole_member ts"] catalog_of_ok [of ts] assms unfolding catalog_ok_def by metis

lemma pointer_entry:
  assumes "map_of (c_ptrs (catalog_of ts)) s = Some d" "map_of d f = Some w"
  obtains t where "t \<in> snd ` set ts" "b_kind t = ''STRUCT''" "b_name t = s" "pointer_member ts t f w"
  using from_struct_entry [of ts "pointer_member ts"] catalog_of_ok [of ts] assms unfolding catalog_ok_def by metis

lemma embedded_entry:
  assumes "map_of (c_embedded (catalog_of ts)) s = Some d" "map_of d f = Some w"
  obtains t where "t \<in> snd ` set ts" "b_kind t = ''STRUCT''" "b_name t = s" "inline_member ts t f w"
  using from_struct_entry [of ts "inline_member ts"] catalog_of_ok [of ts] assms unfolding catalog_ok_def by metis

lemma bitfield_entry:
  assumes "map_of (c_bits (catalog_of ts)) s = Some d" "map_of d f = Some w"
  obtains t where "t \<in> snd ` set ts" "b_kind t = ''STRUCT''" "b_name t = s" "unit_of ts t f w"
  using from_struct_entry [of ts "unit_of ts"] catalog_of_ok [of ts] assms unfolding catalog_ok_def by metis

text \<open>At most one definition of a name, with distinct member names, as a C compilation unit has it.\<close>

definition single_definition :: "types \<Rightarrow> string \<Rightarrow> bool" where
  "single_definition ts s =
     (\<exists>t. \<forall>u \<in> snd ` set ts. b_kind u = ''STRUCT'' \<and> b_name u = s \<longrightarrow> u = t \<and> distinct (map fst (b_members u)))"

lemma bitfield_not_scalar:
  assumes d: "map_of (c_fields (catalog_of ts)) s = Some d"
    and b: "map_of (c_bits (catalog_of ts)) s = Some bs" "map_of bs f = Some b"
    and sd: "single_definition ts s"
  shows "map_of d f = None"
proof (rule ccontr)
  assume "map_of d f \<noteq> None"
  then obtain w where "map_of d f = Some w" by auto
  then obtain u where u: "u \<in> snd ` set ts" "b_kind u = ''STRUCT''" "b_name u = s" "whole_member ts u f w"
    by (rule field_entry [OF d])
  from b obtain t where t: "t \<in> snd ` set ts" "b_kind t = ''STRUCT''" "b_name t = s" "unit_of ts t f b"
    by (rule bitfield_entry)
  from sd u t have "u = t" and dist: "distinct (map fst (b_members t))"
    unfolding single_definition_def by metis+
  with u t obtain i j k l where m: "(f, i, j, 0) \<in> set (b_members t)" "(f, k, l, bf_width b) \<in> set (b_members t)"
    and "bf_width b \<noteq> 0"
    unfolding whole_member_def unit_of_def by blast
  from eq_key_imp_eq_value [OF dist m] \<open>bf_width b \<noteq> 0\<close> show False by simp
qed

definition defined_as :: "types \<Rightarrow> string \<Rightarrow> (btype \<Rightarrow> bool) \<Rightarrow> bool" where
  "defined_as ts s P = (\<exists>t \<in> snd ` set ts. b_kind t = ''STRUCT'' \<and> b_name t = s \<and> P t)"

lemma defined_asI: "t \<in> snd ` set ts \<Longrightarrow> b_kind t = ''STRUCT'' \<Longrightarrow> b_name t = s \<Longrightarrow> P t \<Longrightarrow> defined_as ts s P"
  unfolding defined_as_def by blast

text \<open>
  C25. No bitfield is advertised as a readable field: a field of the flat map is a whole (non-bitfield) member
  of a struct of the table with that name and width, and a name the catalogue describes as a bitfield is not
  in the flat map of a struct that is defined once. The description of a bitfield locates it: the bits from
  the start of its unit and the unit's byte offset add up to the member's bit offset.
\<close>

theorem no_bitfield_as_scalar:
  assumes "map_of (c_fields (catalog_of ts)) s = Some d"
  shows "all_entries (\<lambda>f w. defined_as ts s (\<lambda>t. whole_member ts t f w)) d \<and>
    (\<forall>bs. map_of (c_bits (catalog_of ts)) s = Some bs \<longrightarrow>
       all_entries (\<lambda>f b. defined_as ts s (\<lambda>t. unit_of ts t f b) \<and>
                          (single_definition ts s \<longrightarrow> map_of d f = None)) bs)"
proof (intro conjI allI impI)
  show "all_entries (\<lambda>f w. defined_as ts s (\<lambda>t. whole_member ts t f w)) d"
    unfolding all_entries_def using assms by (metis field_entry defined_asI)
  fix bs assume b: "map_of (c_bits (catalog_of ts)) s = Some bs"
  show "all_entries (\<lambda>f b. defined_as ts s (\<lambda>t. unit_of ts t f b) \<and> (single_definition ts s \<longrightarrow> map_of d f = None)) bs"
    unfolding all_entries_def using b assms bitfield_not_scalar by (metis bitfield_entry defined_asI)
qed

text \<open>A dump with one struct of a 32-bit member and a one-bit member beside it.\<close>

definition sample_dump :: string where
  "sample_dump = join [CHR 0x0A]
     [''[1] INT '' @ [quote] @ ''unsigned int'' @ [quote] @ '' size=4 bits_offset=0 nr_bits=32 encoding=(none)'',
      ''[2] STRUCT '' @ [quote] @ ''parse_info'' @ [quote] @ '' size=8 vlen=2'',
      [CHR 0x09] @ [quote] @ ''len'' @ [quote] @ '' type_id=1 bits_offset=0'',
      [CHR 0x09] @ [quote] @ ''is_trailer'' @ [quote] @ '' type_id=1 bits_offset=33 bitfield_size=1'']"

definition sample_types :: types where
  "sample_types =
     [(1, \<lparr>b_kind = ''INT'', b_name = ''unsigned int'', b_members = [], b_size = Some 4, b_ref = None\<rparr>),
      (2, \<lparr>b_kind = ''STRUCT'', b_name = ''parse_info'',
           b_members = [(''len'', 1, 0, 0), (''is_trailer'', 1, 33, 1)], b_size = Some 8, b_ref = None\<rparr>)]"

lemma sample_parsed: "parse_dump sample_dump = sample_types"
  by code_simp

definition sample_bits :: bitfield where
  "sample_bits = \<lparr>bf_unit = ''u32'', bf_byte = 4, bf_shift = 1, bf_width = 1\<rparr>"

lemma sample_catalog:
  "catalog_of sample_types =
     \<lparr>c_fields = [(''parse_info'', [(''len'', ''u32'')])], c_ptrs = [],
      c_bits = [(''parse_info'', [(''is_trailer'', sample_bits)])], c_embedded = []\<rparr>"
  by code_simp

theorem no_bitfield_as_scalar_witness:
  "defined_as (parse_dump sample_dump) ''parse_info'' (\<lambda>t. unit_of (parse_dump sample_dump) t ''is_trailer'' sample_bits)"
proof -
  have "map_of (c_fields (catalog_of (parse_dump sample_dump))) ''parse_info'' = Some [(''len'', ''u32'')]"
    unfolding sample_parsed sample_catalog by simp
  note * = no_bitfield_as_scalar [OF this, THEN conjunct2, THEN spec, of "[(''is_trailer'', sample_bits)]"]
  have "map_of (c_bits (catalog_of (parse_dump sample_dump))) ''parse_info'' = Some [(''is_trailer'', sample_bits)]"
    unfolding sample_parsed sample_catalog by simp
  from * [THEN mp, OF this] show ?thesis by (auto simp: all_entries_def)
qed

text \<open>
  Where two files of a build define a struct of one name, the flat map and the bitfields are kept from
  different definitions: a name can then be in both, and a reader of the flat map does not see that it is a
  bitfield in the other definition.
\<close>

definition clash_types :: types where
  "clash_types =
     [(1, \<lparr>b_kind = ''INT'', b_name = ''unsigned int'', b_members = [], b_size = Some 4, b_ref = None\<rparr>),
      (2, \<lparr>b_kind = ''STRUCT'', b_name = ''state'', b_members = [(''flag'', 1, 0, 0)], b_size = Some 4, b_ref = None\<rparr>),
      (3, \<lparr>b_kind = ''STRUCT'', b_name = ''state'', b_members = [(''flag'', 1, 0, 1)], b_size = Some 4, b_ref = None\<rparr>)]"

theorem richest_definition_mixes:
  "map_of (c_fields (catalog_of clash_types)) ''state'' = Some [(''flag'', ''u32'')] \<and>
   map_of (c_bits (catalog_of clash_types)) ''state'' =
     Some [(''flag'', \<lparr>bf_unit = ''u32'', bf_byte = 0, bf_shift = 0, bf_width = 1\<rparr>)]"
  by code_simp

end
