(* ===== verification/Trace_Dsl.thy ===== *)
theory Trace_Dsl
  imports Type_Catalog
begin

text \<open>
  The trace language of \<^verbatim>\<open>substrate/tmmtrace.py\<close>, first half: the expressions of its grammar, the parameters of a
  hook out of the signature index, and the resolution of a value to an argument, to a field of a struct or to
  a chain of reads, over the type catalogue.

  The catalogue is the parsed document (\<open>JObj []\<close> where the file cannot be read), the signature index is its text
  (\<open>None\<close> where it cannot be read). Long error messages are cut to their first words.
\<close>

section \<open>Expressions of the grammar\<close>

definition nl :: char where "nl = CHR 0x0A"

text \<open>\<^verbatim>\<open>(?:/(?P<pred>[^/]*)/\s*)?\<close>: without a slash the group takes no part.\<close>

definition match_pred_group :: "string option matcher" where
  "match_pred_group s =
     (case lits ''/'' s of
        None \<Rightarrow> Some (None, s)
      | Some s \<Rightarrow>
          Option.bind (lits ''/'' (dropWhile (\<lambda>c. c \<noteq> CHR ''/'') s)) (\<lambda>r.
            Some (Some (takeWhile (\<lambda>c. c \<noteq> CHR ''/'') s), skip r)))"

text \<open>
  \<^verbatim>\<open>\{\s*(?P<act>.*?)\s*\}\s*$\<close>: the brace that closes is the last character that is not a space, and the lazy
  group is what stands between the braces without the spaces around it; it has no line feed.
\<close>

definition match_action :: "string \<Rightarrow> string option" where
  "match_action s =
     Option.bind (lits [CHR 0x7B] s) (\<lambda>r.
       let t = rstrip r in
       if t \<noteq> [] \<and> last t = CHR 0x7D \<and> nl \<notin> set (strip (butlast t)) then Some (strip (butlast t)) else None)"

definition match_probe :: "string \<Rightarrow> (string \<times> string \<times> string option \<times> string) option" where
  "match_probe e =
     Option.bind
       (case lits ''fentry/'' (skip e) of
          Some s \<Rightarrow> Some (''fentry'', s)
        | None \<Rightarrow> map_option (Pair ''fexit'') (lits ''fexit/'' (skip e))) (\<lambda>(sec, s).
     Option.bind (ident s) (\<lambda>(hook, s).
     Option.bind (match_pred_group (skip s)) (\<lambda>(pr, s).
     Option.bind (match_action s) (\<lambda>act. Some (sec, hook, pr, act)))))"

definition parse_expr :: "string \<Rightarrow> (string \<times> string \<times> string \<times> string) result" where
  "parse_expr e =
     (case match_probe e of
        None \<Rightarrow> Inl (DslError ''expected  <fentry|fexit>/<hook> [/pred/] { <action> }'')
      | Some (sec, hook, pr, act) \<Rightarrow>
          Inr (sec, hook, strip (case pr of None \<Rightarrow> [] | Some p \<Rightarrow> p), strip act))"

definition arg_digit :: "nat matcher" where
  "arg_digit s =
     (case s of
        [] \<Rightarrow> None
      | c # cs \<Rightarrow> if 48 \<le> (of_char c :: nat) \<and> (of_char c :: nat) \<le> 52 then Some (digit_val c, cs) else None)"

definition match_arg :: "string \<Rightarrow> nat option" where
  "match_arg s =
     Option.bind (lits ''arg'' s) (\<lambda>s. Option.bind (arg_digit s) (\<lambda>(n, s). if at_end s then Some n else None))"

text \<open>\<^verbatim>\<open>(?::(u8|u16|u32|u64))?$\<close>.\<close>

definition match_width :: "string \<Rightarrow> string option option" where
  "match_width s =
     (if at_end s then Some None
      else Option.bind (lits '':'' s) (\<lambda>r.
           Option.bind (find (\<lambda>w. is_prefix w r) [''u8'', ''u16'', ''u32'', ''u64'']) (\<lambda>w.
             if at_end (drop (length w) r) then Some (Some w) else None)))"

definition match_field :: "string \<Rightarrow> (string \<times> nat \<times> string \<times> string option) option" where
  "match_field s =
     Option.bind (ident s) (\<lambda>(st, s).
     Option.bind (lits ''(arg'' s) (\<lambda>s.
     Option.bind (arg_digit s) (\<lambda>(n, s).
     Option.bind (lits '').'' s) (\<lambda>s.
     Option.bind (ident s) (\<lambda>(f, s).
     Option.bind (match_width s) (\<lambda>w. Some (st, n, f, w)))))))"

definition chomp :: "string \<Rightarrow> string" where
  "chomp s = (if s \<noteq> [] \<and> last s = nl then butlast s else s)"

text \<open>
  The four expressions \<^verbatim>\<open>args.a\<close>, \<^verbatim>\<open>argN.a\<close>, \<^verbatim>\<open>args.a.b\<close> and \<^verbatim>\<open>argN.a.b\<close>: the named argument, if any, and the
  identifiers between the dots. One identifier is the plain form, more are a path.
\<close>

definition match_dotted :: "string \<Rightarrow> (nat option \<times> string list) option" where
  "match_dotted s =
     Option.bind
       (case lits ''args.'' s of
          Some r \<Rightarrow> Some (None, r)
        | None \<Rightarrow>
            Option.bind (lits ''arg'' s) (\<lambda>r. Option.bind (arg_digit r) (\<lambda>(n, r). map_option (Pair (Some n)) (lits ''.'' r))))
       (\<lambda>(n, r). let ps = split_on (CHR ''.'') (chomp r) in if list_all is_ident ps then Some (n, ps) else None)"

text \<open>\<^verbatim>\<open>(?:@\w+\s*=\s*)?\<close>.\<close>

definition skip_assign :: "string \<Rightarrow> string" where
  "skip_assign s =
     (case Option.bind (lits ''@'' s) (\<lambda>r. Option.bind (many1 re_word r) (\<lambda>(_, r). lits ''='' (skip r))) of
        None \<Rightarrow> s
      | Some r \<Rightarrow> skip r)"

definition match_count :: "string \<Rightarrow> bool" where
  "match_count s =
     (case lits ''count'' (skip_assign s) of
        None \<Rightarrow> False
      | Some r \<Rightarrow> at_end r \<or> (case lits ''()'' r of None \<Rightarrow> False | Some r \<Rightarrow> at_end r))"

text \<open>
  \<^verbatim>\<open>\(\s*(.+?)\s*\)$\<close> behind its bracket: the text up to the bracket that ends it, without the spaces around it.
  Where there are only spaces the first repetition gives the last of them back to the group.
\<close>

definition call_arg :: "string \<Rightarrow> string option" where
  "call_arg s =
     (let t = chomp s in
      if t = [] \<or> last t \<noteq> CHR '')'' then None
      else
        let g = strip (butlast t) in
        if g \<noteq> [] then (if nl \<in> set g then None else Some g)
        else (case dropWhile (\<lambda>c. c = nl) (rev (butlast t)) of [] \<Rightarrow> None | c # _ \<Rightarrow> Some [c]))"

definition match_hist :: "string \<Rightarrow> string option" where
  "match_hist s = Option.bind (lits ''hist('' (skip_assign s)) call_arg"

definition match_shield :: "string \<Rightarrow> string option" where
  "match_shield s = Option.bind (lits ''shield('' s) call_arg"

definition OPS :: "string list" where
  "OPS = [''=='', ''!='', ''<='', ''>='', ''<'', ''>'']"

definition pred_tail :: "string \<Rightarrow> (string \<times> string) option" where
  "pred_tail s =
     (let t = skip s in
      Option.bind (find (\<lambda>op. is_prefix op t) OPS) (\<lambda>op.
        let r = skip (drop (length op) t);
            sg = (if is_prefix ''-'' r then ''-'' else []) in
        Option.bind (many1 is_digit (drop (length sg) r)) (\<lambda>(n, r). if at_end r then Some (op, sg @ n) else None)))"

text \<open>\<^verbatim>\<open>^(.+?)\s*(==|!=|<=|>=|<|>)\s*(-?\d+)$\<close>: the lazy group grows until the rest matches.\<close>

fun scan_pred :: "string \<Rightarrow> string \<Rightarrow> (string \<times> string \<times> string) option" where
  "scan_pred pre [] = None"
| "scan_pred pre (c # cs) =
     (if c = nl then None
      else case pred_tail cs of
        Some (op, n) \<Rightarrow> Some (pre @ [c], op, n)
      | None \<Rightarrow> scan_pred (pre @ [c]) cs)"

definition match_pred :: "string \<Rightarrow> (string \<times> string \<times> string) option" where
  "match_pred s = scan_pred [] s"

text \<open>\<^verbatim>\<open>re.split(r"\|\||&&", pred)\<close>.\<close>

fun split_terms :: "string \<Rightarrow> string \<Rightarrow> string list" where
  "split_terms acc [] = [acc]"
| "split_terms acc [c] = [acc @ [c]]"
| "split_terms acc (c # d # cs) =
     (if [c, d] = ''||'' \<or> [c, d] = ''&&'' then acc # split_terms [] cs else split_terms (acc @ [c]) (d # cs))"

section \<open>The parameters of a hook\<close>

definition sigs_line :: "string dict \<Rightarrow> string \<Rightarrow> string dict" where
  "sigs_line d ln =
     (if is_prefix ''#'' ln then d
      else let f = split_on (CHR 0x09) ln in if length f \<ge> 3 then AList.update (f ! 0) (f ! 2) d else d)"

definition load_sigs :: "string option \<Rightarrow> string dict" where
  "load_sigs file =
     (case file of None \<Rightarrow> [] | Some t \<Rightarrow> foldl sigs_line [] (split_on nl (universal_newlines t)))"

type_synonym hparam = "string \<times> string \<times> string option \<times> string"

text \<open>\<^verbatim>\<open>struct\s+(\w+)\s*\*\<close>, searched for in the detail of a parameter.\<close>

definition match_struct_ptr :: "string \<Rightarrow> string option" where
  "match_struct_ptr s =
     Option.bind (lits ''struct'' s) (\<lambda>s.
     Option.bind (skip1 s) (\<lambda>s.
     Option.bind (many1 re_word s) (\<lambda>(n, s).
     Option.bind (lits ''*'' (skip s)) (\<lambda>_. Some n))))"

definition param_spec :: "string \<Rightarrow> hparam list" where
  "param_spec p =
     (case split_max 2 (CHR '':'') p of
        [name, kind, detail] \<Rightarrow> [(name, kind, re_search match_struct_ptr detail, detail)]
      | _ \<Rightarrow> [])"

definition hook_params :: "string option \<Rightarrow> string \<Rightarrow> hparam list option" where
  "hook_params file hook =
     (case map_of (load_sigs file) hook of
        None \<Rightarrow> None
      | Some spec \<Rightarrow> if spec = [] then None else Some (concat (map param_spec (split_on (CHR ''|'') spec))))"

section \<open>The catalogue document\<close>

text \<open>\<^verbatim>\<open>d.get(k, default)\<close>, which only a dictionary has.\<close>

definition dict_get :: "jval \<Rightarrow> string \<Rightarrow> jval \<Rightarrow> jval result" where
  "dict_get d k dflt =
     (case d of
        JObj m \<Rightarrow> Inr (case map_of m k of None \<Rightarrow> dflt | Some v \<Rightarrow> v)
      | _ \<Rightarrow> Inl (AttributeError ''get''))"

definition nested_get :: "jval \<Rightarrow> string \<Rightarrow> string \<Rightarrow> jval result" where
  "nested_get d s f = ebind (dict_get d s (JObj [])) (\<lambda>m. dict_get m f JNull)"

definition ptr_edges :: "jval \<Rightarrow> jval result" where
  "ptr_edges types = dict_get types ''__ptr_targets__'' (JObj [])"

definition embedded_edges :: "jval \<Rightarrow> jval result" where
  "embedded_edges types = dict_get types ''__embedded__'' (JObj [])"

definition bitfields :: "jval \<Rightarrow> jval result" where
  "bitfields types = dict_get types ''__bitfields__'' (JObj [])"

text \<open>An argument of \<^verbatim>\<open>%d\<close>.\<close>

definition fmt_d :: "jval \<Rightarrow> string result" where
  "fmt_d v =
     (case v of
        JInt i \<Rightarrow> Inr (str_int i)
      | JBool b \<Rightarrow> Inr (if b then ''1'' else ''0'')
      | _ \<Rightarrow> Inl (TypeError ''%d format: a real number is required''))"

definition bitfield_refusal :: "jval \<Rightarrow> string \<Rightarrow> string \<Rightarrow> string option result" where
  "bitfield_refusal types s f =
     ebind (bitfields types) (\<lambda>b.
     ebind (nested_get b s f) (\<lambda>bf.
       if \<not> truthy bf then Inr None
       else case bf of
         JObj m \<Rightarrow>
           ebind (jitem m ''width'') (\<lambda>w. ebind (jitem m ''shift'') (\<lambda>sh.
           ebind (jitem m ''unit'') (\<lambda>_. ebind (jitem m ''byte'') (\<lambda>by.
           ebind (fmt_d w) (\<lambda>w. ebind (fmt_d sh) (\<lambda>sh. ebind (fmt_d by) (\<lambda>by.
             Inr (Some (s @ ''.'' @ f @ '' is a BITFIELD ('' @ w @ '' bit(s) at bit '' @ sh @ '' of a unit at byte '' @ by @ '')''))))))))) 
       | _ \<Rightarrow> Inl (TypeError ''indices must be integers'')))"

definition CTYPE :: "string dict" where
  "CTYPE = [(''u8'', ''__u8''), (''u16'', ''__u16''), (''u32'', ''__u32''), (''u64'', ''__u64'')]"

text \<open>\<^verbatim>\<open>CTYPE[ty]\<close>: a list or dictionary is not a key.\<close>

definition ctype_of :: "jval \<Rightarrow> string result" where
  "ctype_of ty =
     (case ty of
        JStr s \<Rightarrow> (case map_of CTYPE s of None \<Rightarrow> Inl (KeyError s) | Some c \<Rightarrow> Inr c)
      | JArr _ \<Rightarrow> Inl (TypeError ''unhashable type'')
      | JObj _ \<Rightarrow> Inl (TypeError ''unhashable type'')
      | _ \<Rightarrow> Inl (KeyError ''CTYPE''))"

section \<open>Resolution of a path\<close>

datatype hop_kind = Ptr | Embedded | ScalarHop

type_synonym hop = "string \<times> string \<times> hop_kind \<times> string"

datatype rvalue =
    RScalar nat
  | RField string nat string jval
  | RChain nat "hop list"

text \<open>
  The target of an edge is the next struct to look in; a number or a truth value is in no dictionary, and a
  list or dictionary cannot be looked up.
\<close>

definition edge_name :: "jval \<Rightarrow> string option result" where
  "edge_name v =
     (case v of
        JStr s \<Rightarrow> Inr (Some s)
      | JArr _ \<Rightarrow> Inl (TypeError ''unhashable type'')
      | JObj _ \<Rightarrow> Inl (TypeError ''unhashable type'')
      | _ \<Rightarrow> Inr None)"

text \<open>One argument's path: \<open>Inl why\<close> where it does not resolve from this struct, the hops where it does.\<close>

definition refuse_or :: "jval \<Rightarrow> string \<Rightarrow> string \<Rightarrow> string \<Rightarrow> (string + hop list) result" where
  "refuse_or types cur f why =
     ebind (bitfield_refusal types cur f) (\<lambda>r. case r of Some m \<Rightarrow> Inl (DslError m) | None \<Rightarrow> Inr (Inl why))"

definition last_hop :: "jval \<Rightarrow> string \<Rightarrow> string \<Rightarrow> hop list \<Rightarrow> (string + hop list) result" where
  "last_hop types cur f hops =
     ebind (nested_get types cur f) (\<lambda>ty.
       if truthy ty then ebind (ctype_of ty) (\<lambda>ct. Inr (Inr (hops @ [(cur, f, ScalarHop, ct)])))
       else refuse_or types cur f (cur @ '' has no scalar '' @ f))"

definition next_edge :: "jval \<Rightarrow> string \<Rightarrow> string \<Rightarrow> (string + hop_kind \<times> jval) result" where
  "next_edge types cur f =
     ebind (ptr_edges types) (\<lambda>ps. ebind (nested_get ps cur f) (\<lambda>tgt.
     ebind (embedded_edges types) (\<lambda>es. ebind (nested_get es cur f) (\<lambda>member.
       if truthy tgt \<and> truthy member then Inl (DslError (''ambiguous pointer/embedded metadata for '' @ cur @ ''.'' @ f))
       else if \<not> truthy tgt \<and> \<not> truthy member then
         ebind (refuse_or types cur f (cur @ '' has no pointer or named embedded struct field '' @ f)) (\<lambda>r.
           Inr (Inl (case r of Inl why \<Rightarrow> why | Inr _ \<Rightarrow> [])))
       else Inr (Inr (if truthy tgt then (Ptr, tgt) else (Embedded, member)))))))"

fun walk_path :: "jval \<Rightarrow> string \<Rightarrow> string list \<Rightarrow> hop list \<Rightarrow> (string + hop list) result" where
  "walk_path types cur [] hops = Inr (Inr hops)"
| "walk_path types cur [f] hops = last_hop types cur f hops"
| "walk_path types cur (f # g # fs) hops =
     ebind (next_edge types cur f) (\<lambda>r.
       case r of
         Inl why \<Rightarrow> Inr (Inl why)
       | Inr (kind, tgt) \<Rightarrow>
           ebind (edge_name tgt) (\<lambda>n.
             case n of
               None \<Rightarrow> Inr (Inl ''no such struct'')
             | Some s \<Rightarrow> walk_path types s (g # fs) (hops @ [(cur, f, kind, s)])))"

definition enum_params :: "hparam list \<Rightarrow> (nat \<times> hparam) list" where
  "enum_params ps = zip [0..<length ps] ps"

definition path_starts :: "hparam list \<Rightarrow> nat option \<Rightarrow> (nat \<times> string) list" where
  "path_starts ps argidx =
     concat (map (\<lambda>(i, (pn, kind, st, _)).
        case st of
          Some s \<Rightarrow> if kind = ''blob'' \<and> (argidx = None \<or> argidx = Some i) then [(i, s)] else []
        | None \<Rightarrow> []) (enum_params ps))"

fun try_starts :: "jval \<Rightarrow> string list \<Rightarrow> (nat \<times> string) list \<Rightarrow> rvalue result" where
  "try_starts types parts [] = Inl (DslError (''could not resolve path '' @ join ''.'' parts))"
| "try_starts types parts ((i, s0) # rest) =
     ebind (walk_path types s0 parts []) (\<lambda>r.
       case r of Inl why \<Rightarrow> try_starts types parts rest | Inr hops \<Rightarrow> Inr (RChain i hops))"

definition resolve_path :: "string option \<Rightarrow> jval \<Rightarrow> string \<Rightarrow> nat option \<Rightarrow> string list \<Rightarrow> rvalue result" where
  "resolve_path file types hook argidx parts =
     (case hook_params file hook of
        None \<Rightarrow> Inl (DslError (''no signature for '' @ hook))
      | Some ps \<Rightarrow>
          let starts = path_starts ps argidx in
          if starts = [] then Inl (DslError (''no struct-typed argument to start '' @ join ''.'' parts @ '' from at '' @ hook))
          else try_starts types parts starts)"

section \<open>Resolution of a value\<close>

definition this_arg :: "nat option \<Rightarrow> nat \<Rightarrow> bool" where
  "this_arg n_only i = (n_only = None \<or> n_only = Some i)"

definition scalar_param :: "nat option \<Rightarrow> string \<Rightarrow> nat \<times> hparam \<Rightarrow> bool" where
  "scalar_param n_only name p =
     (case p of (i, (pn, kind, _, _)) \<Rightarrow> this_arg n_only i \<and> pn = name \<and> kind \<in> {''scalar'', ''string''})"

text \<open>\<^verbatim>\<open>name in d\<close> and \<^verbatim>\<open>d[name]\<close> for a document that may not be a dictionary.\<close>

definition in_doc :: "string \<Rightarrow> jval \<Rightarrow> bool result" where
  "in_doc k d =
     (case d of
        JObj m \<Rightarrow> Inr (map_of m k \<noteq> None)
      | JArr xs \<Rightarrow> Inr (JStr k \<in> set xs)
      | JStr s \<Rightarrow> Inr (contains k s)
      | _ \<Rightarrow> Inl (TypeError ''argument is not iterable''))"

definition doc_item :: "jval \<Rightarrow> string \<Rightarrow> jval result" where
  "doc_item d k = (case d of JObj m \<Rightarrow> jitem m k | _ \<Rightarrow> Inl (TypeError ''indices must be integers''))"

definition blob_struct :: "nat option \<Rightarrow> nat \<times> hparam \<Rightarrow> string option" where
  "blob_struct n_only p =
     (case p of (i, (pn, kind, st, _)) \<Rightarrow> if this_arg n_only i \<and> kind = ''blob'' then st else None)"

fun field_param :: "jval \<Rightarrow> nat option \<Rightarrow> string \<Rightarrow> (nat \<times> hparam) list \<Rightarrow> rvalue option result" where
  "field_param types n_only name [] = Inr None"
| "field_param types n_only name (p # rest) =
     (case blob_struct n_only p of
        None \<Rightarrow> field_param types n_only name rest
      | Some s \<Rightarrow>
          ebind (dict_get types s (JObj [])) (\<lambda>d.
          ebind (in_doc name d) (\<lambda>present.
            if present then ebind (doc_item d name) (\<lambda>ty. Inr (Some (RField s (fst p) name ty)))
            else field_param types n_only name rest)))"

fun bitfield_param :: "jval \<Rightarrow> nat option \<Rightarrow> string \<Rightarrow> (nat \<times> hparam) list \<Rightarrow> unit result" where
  "bitfield_param types n_only name [] = Inr ()"
| "bitfield_param types n_only name (p # rest) =
     (case blob_struct n_only p of
        None \<Rightarrow> bitfield_param types n_only name rest
      | Some s \<Rightarrow>
          ebind (bitfield_refusal types s name) (\<lambda>r.
            case r of Some m \<Rightarrow> Inl (DslError m) | None \<Rightarrow> bitfield_param types n_only name rest))"

definition resolve_name :: "string option \<Rightarrow> jval \<Rightarrow> string \<Rightarrow> nat option \<Rightarrow> string \<Rightarrow> rvalue result" where
  "resolve_name file types hook n_only name =
     (case hook_params file hook of
        None \<Rightarrow> Inl (DslError (''no signature for '' @ hook))
      | Some ps \<Rightarrow>
          (case find (scalar_param n_only name) (enum_params ps) of
             Some p \<Rightarrow> Inr (RScalar (fst p))
           | None \<Rightarrow>
               ebind (field_param types n_only name (enum_params ps)) (\<lambda>r.
                 case r of
                   Some v \<Rightarrow> Inr v
                 | None \<Rightarrow>
                     ebind (bitfield_param types n_only name (enum_params ps)) (\<lambda>_.
                       Inl (DslError (''could not resolve '' @ name @ '' at '' @ hook))))))"

definition resolve_value :: "string option \<Rightarrow> jval \<Rightarrow> string \<Rightarrow> string \<Rightarrow> rvalue result" where
  "resolve_value file types hook tok =
     (case match_arg tok of
        Some n \<Rightarrow> Inr (RScalar n)
      | None \<Rightarrow>
          (case match_field tok of
             Some (st, n, f, w) \<Rightarrow> Inr (RField st n f (JStr (case w of None \<Rightarrow> ''u64'' | Some w \<Rightarrow> w)))
           | None \<Rightarrow>
               (case match_dotted tok of
                  None \<Rightarrow> Inl (DslError (''bad value '' @ tok))
                | Some (n, parts) \<Rightarrow>
                    if length parts \<ge> 2 then resolve_path file types hook n parts
                    else resolve_name file types hook n (hd parts))))"

end
