(* ===== verification/Trace_Codegen.thy ===== *)
theory Trace_Codegen
  imports Trace_Dsl Sign_Shield
begin

text \<open>
  The trace language of \<^verbatim>\<open>substrate/tmmtrace.py\<close>, second half: the program a trace expression becomes. The code
  generator appends lines of C; here each group of lines it appends is one \<open>stmt\<close> and each expression it
  builds one \<open>cexp\<close>, and the \<open>render\<close> functions give the text, so that the same value is both the generated
  text and the program the theorems run.
\<close>

section \<open>Statements and their text\<close>

datatype src = SArg nat | SVar string | SAddr string string

datatype stmt =
    Point string string src
  | PointArg string string nat
  | NullCheck string
  | ReadHop string string string
  | ReadVal string string string string
  | Canary string string string string

datatype cexp = EArg nat | EVar string

definition arg_text :: "nat \<Rightarrow> string" where
  "arg_text n = ''c->arg['' @ str_nat n @ '']''"

fun src_text :: "src \<Rightarrow> string" where
  "src_text (SArg n) = arg_text n"
| "src_text (SVar v) = v"
| "src_text (SAddr p f) = ''&'' @ p @ ''->'' @ f"

fun render_stmt :: "stmt \<Rightarrow> string list" where
  "render_stmt (Point s p e) = [''    struct '' @ s @ '' *'' @ p @ '' = (struct '' @ s @ '' *)('' @ src_text e @ '');'']"
| "render_stmt (PointArg s p n) = [''    struct '' @ s @ '' *'' @ p @ '' = (struct '' @ s @ '' *)'' @ arg_text n @ '';'']"
| "render_stmt (NullCheck p) = [''    if ('' @ p @ '' == 0) return 0ull;'']"
| "render_stmt (ReadHop h p f) =
     [''    __u64 '' @ h @ '' = 0;'',
      ''    if (bpf_probe_read(&'' @ h @ '', sizeof '' @ h @ '', &'' @ p @ ''->'' @ f @ '') != 0 || '' @ h @ '' == 0)'',
      ''        return 0ull;   /* unreadable or NULL hop --- decline */'']"
| "render_stmt (ReadVal ct v p f) =
     [''    '' @ ct @ '' '' @ v @ '' = 0;'',
      ''    if (bpf_probe_read(&'' @ v @ '', sizeof '' @ v @ '', &'' @ p @ ''->'' @ f @ '') != 0)'',
      ''        return 0ull;'']"
| "render_stmt (Canary ct v p f) =
     [''    '' @ ct @ '' '' @ v @ '' = 0;'',
      ''    (void)bpf_probe_read(&'' @ v @ '', sizeof '' @ v @ '', &'' @ p @ ''->'' @ f @ '');  /* canary: relocation only */'']"

definition render_chunk :: "stmt list \<Rightarrow> string" where
  "render_chunk c = concat (map (\<lambda>l. l @ [nl]) (concat (map render_stmt c)))"

fun cexp_text :: "cexp \<Rightarrow> string" where
  "cexp_text (EArg n) = arg_text n"
| "cexp_text (EVar v) = ''(__u64)'' @ v"

section \<open>Reads\<close>

text \<open>\<open>sfields\<close>: the fields the program must see, per struct.\<close>

type_synonym sfields = "string dict dict"

definition reg :: "sfields \<Rightarrow> string \<Rightarrow> string \<Rightarrow> string \<Rightarrow> sfields result" where
  "reg sf s f ct =
     (let fl = (case map_of sf s of None \<Rightarrow> [] | Some fl \<Rightarrow> fl) in
      if (case map_of fl f of None \<Rightarrow> False | Some old \<Rightarrow> old \<noteq> ct)
      then Inl (DslError (''conflicting field types for '' @ s @ ''.'' @ f))
      else Inr (AList.update s (AList.update f ct fl) sf))"

definition var2 :: "char \<Rightarrow> nat \<Rightarrow> nat \<Rightarrow> string" where
  "var2 c k h = c # str_nat k @ ''_'' @ str_nat h"

definition var1 :: "char \<Rightarrow> nat \<Rightarrow> string" where
  "var1 c k = c # str_nat k"

definition hop_ctype :: "hop_kind \<Rightarrow> string \<Rightarrow> string" where
  "hop_ctype kind extra = (case kind of Ptr \<Rightarrow> ''__u64'' | Embedded \<Rightarrow> ''struct '' @ extra | ScalarHop \<Rightarrow> extra)"

fun read_hops :: "nat \<Rightarrow> nat \<Rightarrow> src \<Rightarrow> hop list \<Rightarrow> sfields \<times> stmt list \<Rightarrow> (sfields \<times> stmt list \<times> cexp) result" where
  "read_hops k h e [] (sf, ls) = Inl (DslError ''chain did not end in a scalar'')"
| "read_hops k h e ((s, f, kind, extra) # hops) (sf, ls) =
     ebind (reg sf s f (hop_ctype kind extra)) (\<lambda>sf.
       let pv = var2 (CHR ''p'') k h; ls = ls @ [Point s pv e, NullCheck pv] in
       case kind of
         Ptr \<Rightarrow> read_hops k (h + 1) (SVar (var2 (CHR ''h'') k h)) hops (sf, ls @ [ReadHop (var2 (CHR ''h'') k h) pv f])
       | Embedded \<Rightarrow> read_hops k (h + 1) (SAddr pv f) hops (sf, ls)
       | ScalarHop \<Rightarrow> Inr (sf, ls @ [ReadVal extra (var1 (CHR ''v'') k) pv f], EVar (var1 (CHR ''v'') k)))"

fun read_value :: "rvalue \<Rightarrow> nat \<Rightarrow> sfields \<Rightarrow> (sfields \<times> stmt list \<times> cexp) result" where
  "read_value (RScalar n) k sf = Inr (sf, [], EArg n)"
| "read_value (RChain n hops) k sf = read_hops k 0 (SArg n) hops (sf, [])"
| "read_value (RField s n f ty) k sf =
     ebind (ctype_of ty) (\<lambda>ct. ebind (reg sf s f ct) (\<lambda>sf.
       let p = var1 (CHR ''p'') k; v = var1 (CHR ''v'') k in
       Inr (sf, [PointArg s p n, ReadVal ct v p f], EVar v)))"

section \<open>The state of the generator\<close>

record gen =
  g_sfields :: sfields
  g_code :: "stmt list list"
  g_k :: nat

definition gen0 :: gen where
  "gen0 = \<lparr>g_sfields = [], g_code = [], g_k = 0\<rparr>"

definition take_tok :: "string option \<Rightarrow> jval \<Rightarrow> string \<Rightarrow> gen \<Rightarrow> string \<Rightarrow> (gen \<times> cexp) result" where
  "take_tok file types hook g tok =
     ebind (resolve_value file types hook tok) (\<lambda>v.
     ebind (read_value v (g_k g) (g_sfields g)) (\<lambda>(sf, cd, ex).
       Inr (\<lparr>g_sfields = sf, g_code = (if cd = [] then g_code g else g_code g @ [cd]), g_k = g_k g + 1\<rparr>, ex)))"

type_synonym cterm = "cexp \<times> string \<times> string"

definition term_step ::
  "string option \<Rightarrow> jval \<Rightarrow> string \<Rightarrow> gen \<times> cterm list \<Rightarrow> string \<Rightarrow> (gen \<times> cterm list) result"
where
  "term_step file types hook st t =
     (case st of (g, parts) \<Rightarrow>
        (case match_pred t of
           None \<Rightarrow> Inl (DslError ''predicate term must be  <value> <op> <int>'')
         | Some (lhs, op, rhs) \<Rightarrow>
             ebind (take_tok file types hook g (strip lhs)) (\<lambda>(g, ex). Inr (g, parts @ [(ex, op, rhs)]))))"

text \<open>The joined terms: the connective (\<open>True\<close> for \<^verbatim>\<open>||\<close>) and the terms in order.\<close>

type_synonym cond = "bool \<times> cterm list"

definition pred_terms :: "string \<Rightarrow> string list" where
  "pred_terms pr = filter (\<lambda>t. t \<noteq> []) (map strip (split_terms [] pr))"

definition gen_pred :: "string option \<Rightarrow> jval \<Rightarrow> string \<Rightarrow> string \<Rightarrow> (gen \<times> cond option) result" where
  "gen_pred file types hook pr =
     (if pr = [] then Inr (gen0, None)
      else
        let has_and = contains ''&&'' pr; has_or = contains ''||'' pr in
        if has_and \<and> has_or then Inl (DslError ''predicate mixes && and ||'')
        else if pred_terms pr = [] then Inl (DslError ''empty predicate'')
        else ebind (efold (term_step file types hook) (gen0, []) (pred_terms pr)) (\<lambda>(g, parts).
               Inr (g, Some (has_or, parts))))"

definition term_text :: "cterm \<Rightarrow> string" where
  "term_text t = (case t of (e, op, n) \<Rightarrow> cexp_text e @ '' '' @ op @ '' '' @ n)"

definition cond_text :: "cond \<Rightarrow> string" where
  "cond_text c =
     (case c of (any_of, parts) \<Rightarrow>
        if length parts > 1
        then join ('' '' @ (if any_of then ''||'' else ''&&'') @ '' '') (map (\<lambda>t. ''('' @ term_text t @ '')'') parts)
        else term_text (hd parts))"

datatype ret =
    RetShield cond
  | RetCount "cond option"
  | RetVal "cond option" cexp

fun ret_text :: "ret \<Rightarrow> string" where
  "ret_text (RetShield c) =
     ''    return ('' @ cond_text c @ '') ? 1ull : 0ull;   /* MATCH -> SAFE_RETURN; under ENFORCE the host '' @
     ''skips the body and returns the arm-time safe value */''"
| "ret_text (RetCount (Some c)) =
     ''    return ('' @ cond_text c @ '') ? 1ull : 0ull;   /* SAFE_RETURN on match; safe_returns = count */''"
| "ret_text (RetCount None) = ''    return 1ull;                 /* count every invocation (safe_returns) */''"
| "ret_text (RetVal (Some c) e) =
     ''    if (!('' @ cond_text c @ '')) return 0ull;'' @ [nl] @ ''    return '' @ cexp_text e @ '';   /* value; host samples it */''"
| "ret_text (RetVal None e) = ''    return '' @ cexp_text e @ '';                 /* value; host samples it */''"

section \<open>The canary\<close>

text \<open>
  The first struct argument whose entry in the catalogue is not empty, with the first field of that entry;
  a truthy entry that is not a dictionary cannot be iterated by keys.
\<close>

fun find_canary :: "jval \<Rightarrow> (nat \<times> hparam) list \<Rightarrow> (nat \<times> string \<times> string \<times> string) option result" where
  "find_canary types [] = Inr None"
| "find_canary types (p # rest) =
     (case blob_struct None p of
        None \<Rightarrow> find_canary types rest
      | Some s \<Rightarrow>
          ebind (dict_get types s JNull) (\<lambda>d.
            if \<not> truthy d then find_canary types rest
            else case d of
              JObj ((f, ty) # _) \<Rightarrow> ebind (ctype_of ty) (\<lambda>ct. Inr (Some (fst p, s, f, ct)))
            | _ \<Rightarrow> Inl (TypeError ''indices must be integers'')))"

definition add_canary :: "string option \<Rightarrow> jval \<Rightarrow> string \<Rightarrow> gen \<Rightarrow> gen result" where
  "add_canary file types hook g =
     (if g_code g \<noteq> [] then Inr g
      else
        ebind (find_canary types (case hook_params file hook of None \<Rightarrow> [] | Some ps \<Rightarrow> enum_params ps)) (\<lambda>r.
          case r of
            None \<Rightarrow> Inr g
          | Some (i, s, f, ct) \<Rightarrow>
              ebind (reg (g_sfields g) s f ct) (\<lambda>sf.
                Inr (g\<lparr>g_sfields := sf, g_code := [[PointArg s ''pc'' i, Canary ct ''vc'' ''pc'' f]]\<rparr>))))"

definition gen_action :: "string option \<Rightarrow> jval \<Rightarrow> string \<Rightarrow> string \<Rightarrow> gen \<times> cond option \<Rightarrow> (gen \<times> ret) result" where
  "gen_action file types hook act st =
     (case st of (g, cond) \<Rightarrow>
        let is_shield = (match_shield act \<noteq> None) in
        if match_count act \<or> is_shield then
          (if is_shield \<and> cond = None then Inl (DslError ''shield(...) needs a predicate to gate the SAFE_RETURN'')
           else
             ebind (add_canary file types hook g) (\<lambda>g.
               Inr (g, case (is_shield, cond) of (True, Some c) \<Rightarrow> RetShield c | _ \<Rightarrow> RetCount cond)))
        else
          ebind (take_tok file types hook g (case match_hist act of Some t \<Rightarrow> t | None \<Rightarrow> act)) (\<lambda>(g, ex).
            Inr (g, RetVal cond ex)))"

section \<open>Declarations\<close>

text \<open>\<^verbatim>\<open>sorted(fl.items())\<close> and one declaration.\<close>

definition struct_decl :: "string \<Rightarrow> string dict \<Rightarrow> string" where
  "struct_decl s fl =
     ''struct '' @ s @ '' { '' @
     join '' '' (map (\<lambda>(f, ct). ct @ '' '' @ f @ '';'') (sort_key fst fl)) @
     '' } __attribute__((preserve_access_index));''"

definition embedded_name :: "string \<Rightarrow> string option" where
  "embedded_name ct = lits ''struct '' ct"

text \<open>The structs not yet on the path of the recursion; they bound its depth.\<close>

definition unvisited :: "sfields \<Rightarrow> string list \<Rightarrow> nat" where
  "unvisited sf visiting = card (fst ` set sf - set visiting)"

lemma unvisited_less:
  "s \<notin> set visiting \<Longrightarrow> map_of sf s = Some fl \<Longrightarrow> unvisited sf (s # visiting) < unvisited sf visiting"
proof -
  assume "s \<notin> set visiting" "map_of sf s = Some fl"
  then have "s \<in> fst ` set sf - set visiting" by (force dest: map_of_SomeD)
  then show ?thesis unfolding unvisited_def by (intro psubset_card_mono) auto
qed

text \<open>The state of the emission: the declarations and the structs they declare, the latest first.\<close>

type_synonym emission = "string list \<times> string list"

function (sequential) emit :: "sfields \<Rightarrow> string list \<Rightarrow> emission \<Rightarrow> string \<Rightarrow> emission result"
and emit_deps :: "sfields \<Rightarrow> string list \<Rightarrow> emission \<Rightarrow> string list \<Rightarrow> emission result"
where
  "emit sf visiting st s =
     (if s \<in> set (snd st) then Inr st
      else if s \<in> set visiting then Inl (DslError (''incomplete or cyclic embedded struct metadata: '' @ s))
      else case map_of sf s of
        None \<Rightarrow> Inl (DslError (''incomplete or cyclic embedded struct metadata: '' @ s))
      | Some fl \<Rightarrow>
          ebind (emit_deps sf (s # visiting) st (map snd fl)) (\<lambda>(structs, emitted).
            Inr (structs @ [struct_decl s fl], s # emitted)))"
| "emit_deps sf visiting st [] = Inr st"
| "emit_deps sf visiting st (ct # cts) =
     (case embedded_name ct of
        None \<Rightarrow> emit_deps sf visiting st cts
      | Some s \<Rightarrow> ebind (emit sf visiting st s) (\<lambda>st. emit_deps sf visiting st cts))"
  by pat_completeness auto

termination
  by (relation "measures [\<lambda>x. case x of Inl (sf, v, st, s) \<Rightarrow> unvisited sf v | Inr (sf, v, st, cts) \<Rightarrow> unvisited sf v,
                          \<lambda>x. case x of Inl _ \<Rightarrow> 0 | Inr (sf, v, st, cts) \<Rightarrow> Suc (length cts)]")
    (auto simp: unvisited_less)

declare emit.simps [simp del]

definition emit_all :: "sfields \<Rightarrow> emission result" where
  "emit_all sf = efold (emit sf []) ([], []) (sort (map fst sf))"

section \<open>The name of the program\<close>

text \<open>\<^verbatim>\<open>hashlib.sha1(data).digest()\<close>, after FIPS 180-4; the padding is that of the 256-bit digest.\<close>

definition rotl :: "nat \<Rightarrow> word32 \<Rightarrow> word32" where
  "rotl n x = rotr (32 - n) x"

fun sha1_schedule :: "nat \<Rightarrow> word32 list \<Rightarrow> word32 list" where
  "sha1_schedule 0 w = w"
| "sha1_schedule (Suc n) w = sha1_schedule n (rotl 1 (w ! 2 XOR w ! 7 XOR w ! 13 XOR w ! 15) # w)"

definition sha1_f :: "nat \<Rightarrow> word32 \<Rightarrow> word32 \<Rightarrow> word32 \<Rightarrow> word32" where
  "sha1_f t b c d =
     (if t < 20 then ((b AND c) XOR (NOT b AND d)) + 1518500249
      else if t < 40 then (b XOR c XOR d) + 1859775393
      else if t < 60 then ((b AND c) XOR (b AND d) XOR (c AND d)) + 2400959708
      else (b XOR c XOR d) + 3395469782)"

fun sha1_round :: "word32 list \<Rightarrow> nat \<times> word32 \<Rightarrow> word32 list" where
  "sha1_round [a, b, c, d, e] (t, w) = [rotl 5 a + sha1_f t b c d + e + w, a, rotl 30 b, c, d]"
| "sha1_round s _ = s"

fun sha1_blocks :: "word32 list \<Rightarrow> word32 list \<Rightarrow> word32 list" where
  "sha1_blocks h [] = h"
| "sha1_blocks h (w # ws) =
     sha1_blocks
       (map2 (+) h (foldl sha1_round h (zip [0..<80] (rev (sha1_schedule 64 (rev (take 16 (w # ws))))))))
       (drop 15 ws)"

definition sha1 :: "bytes \<Rightarrow> bytes" where
  "sha1 m =
     concat (map (\<lambda>w. be_bytes 4 (uint w))
       (sha1_blocks [1732584193, 4023233417, 2562383102, 271733878, 3285377520] (words32 (sha_pad m))))"

definition strip_char :: "char \<Rightarrow> string \<Rightarrow> string" where
  "strip_char c s = rev (dropWhile (\<lambda>x. x = c) (rev (dropWhile (\<lambda>x. x = c) s)))"

definition program_tag :: "string \<Rightarrow> string" where
  "program_tag act =
     (let t = strip_char (CHR ''_'') (take 12 (map (\<lambda>c. if is_word c then c else CHR ''_'') act)) in
      if t = [] then ''probe'' else t)"

definition program_ident :: "string \<Rightarrow> string \<Rightarrow> string \<Rightarrow> string" where
  "program_ident e hook act =
     ''tt_'' @ hook @ ''_'' @ program_tag act @ ''_'' @ take 6 (to_hex (sha1 (encode_utf8 e)))"

section \<open>The program\<close>

record program =
  tp_section :: string
  tp_hook :: string
  tp_name :: string
  tp_sfields :: sfields
  tp_code :: "stmt list list"
  tp_ret :: ret
  tp_structs :: "string list"
  tp_order :: "string list"

definition compile :: "string option \<Rightarrow> jval \<Rightarrow> string \<Rightarrow> program result" where
  "compile file types e =
     ebind (parse_expr e) (\<lambda>(sec, hook, pr, act).
     ebind (gen_pred file types hook pr) (\<lambda>gc.
     ebind (gen_action file types hook act gc) (\<lambda>(g, r).
     ebind (emit_all (g_sfields g)) (\<lambda>(structs, emitted).
       Inr \<lparr>tp_section = sec, tp_hook = hook, tp_name = program_ident e hook act, tp_sfields = g_sfields g,
            tp_code = g_code g, tp_ret = r, tp_structs = structs, tp_order = rev emitted\<rparr>))))"

definition ctx_name :: "string \<Rightarrow> string" where
  "ctx_name sec = (if sec = ''fexit'' then ''ls_ctx_exit'' else ''ls_ctx_generic'')"

definition ctx_def :: "string \<Rightarrow> string" where
  "ctx_def sec =
     (if sec = ''fexit'' then ''struct ls_ctx_exit { __u64 arg[5]; __u64 ret; };''
      else ''struct ls_ctx_generic { __u64 arg[5]; };'')"

definition program_text :: "string \<Rightarrow> program \<Rightarrow> string" where
  "program_text e p =
     join [nl]
       ([''/* generated by tmmtrace from:  '' @ e @ '' */'',
         ''typedef unsigned char __u8; typedef unsigned short __u16;'',
         ''typedef unsigned int __u32; typedef unsigned long long __u64;'',
         ''static long (*bpf_probe_read)(void *, __u32, const void *) = (void *)4;''] @
        tp_structs p @
        [ctx_def (tp_section p), [],
         ''__attribute__((section('' @ [CHR 0x22] @ tp_section p @ ''/'' @ tp_hook p @ [CHR 0x22] @ ''), used))'',
         ''__u64 '' @ tp_name p @ ''(struct '' @ ctx_name (tp_section p) @ '' *c)'', [CHR 0x7B]] @
        map render_chunk (tp_code p) @ [ret_text (tp_ret p), [CHR 0x7D], []])"

definition codegen :: "string option \<Rightarrow> jval \<Rightarrow> string \<Rightarrow> (string \<times> string \<times> string \<times> string) result" where
  "codegen file types e =
     ebind (compile file types e) (\<lambda>p. Inr (program_text e p, tp_name p, tp_section p, tp_hook p))"

section \<open>Declarations in dependency order\<close>

definition fields_of :: "sfields \<Rightarrow> string \<Rightarrow> string dict" where
  "fields_of sf s = (case map_of sf s of None \<Rightarrow> [] | Some fl \<Rightarrow> fl)"

definition deps :: "sfields \<Rightarrow> string \<Rightarrow> string set" where
  "deps sf s = {d. \<exists>f ct. (f, ct) \<in> set (fields_of sf s) \<and> embedded_name ct = Some d}"

text \<open>Latest first: what a struct holds by value is declared before it.\<close>

fun declared_first :: "sfields \<Rightarrow> string list \<Rightarrow> bool" where
  "declared_first sf [] = True"
| "declared_first sf (s # es) = (deps sf s \<subseteq> set es \<and> s \<notin> set es \<and> declared_first sf es)"

definition emission_ok :: "sfields \<Rightarrow> emission \<Rightarrow> bool" where
  "emission_ok sf st =
     (fst st = map (\<lambda>s. struct_decl s (fields_of sf s)) (rev (snd st)) \<and> declared_first sf (snd st) \<and>
      set (snd st) \<subseteq> fst ` set sf)"

definition emission_step :: "sfields \<Rightarrow> string list \<Rightarrow> emission \<Rightarrow> emission \<Rightarrow> string set \<Rightarrow> bool" where
  "emission_step sf visiting st st' need =
     (emission_ok sf st' \<and> set (snd st) \<subseteq> set (snd st') \<and> need \<subseteq> set (snd st') \<and>
      set (snd st') \<inter> set visiting \<subseteq> set (snd st))"

lemma emission_stepI:
  assumes "emission_ok sf st'" "set (snd st) \<subseteq> set (snd st')" "need \<subseteq> set (snd st')"
    "set (snd st') \<inter> set visiting \<subseteq> set (snd st)"
  shows "emission_step sf visiting st st' need"
  using assms by (simp add: emission_step_def)

lemma emission_step_trans:
  assumes "emission_step sf v st st' A" "emission_step sf v st' st'' B"
  shows "emission_step sf v st st'' (A \<union> B)"
  using assms unfolding emission_step_def by blast

definition embedded_names :: "string list \<Rightarrow> string set" where
  "embedded_names cts = {d. \<exists>ct \<in> set cts. embedded_name ct = Some d}"

lemma embedded_names_simps [simp]:
  "embedded_names [] = {}"
  "embedded_names (ct # cts) = (case embedded_name ct of None \<Rightarrow> {} | Some d \<Rightarrow> {d}) \<union> embedded_names cts"
  by (auto simp: embedded_names_def split: option.splits)

lemma deps_names: "map_of sf s = Some fl \<Longrightarrow> deps sf s = embedded_names (map snd fl)"
  by (force simp: deps_def fields_of_def embedded_names_def)

lemma emit_step_deps:
  assumes "map_of sf s = Some fl" "s \<notin> set (snd st)" "s \<notin> set visiting"
    and "emission_step sf (s # visiting) st (ds, es) (embedded_names (map snd fl))"
  shows "emission_step sf visiting st (ds @ [struct_decl s fl], s # es) {s}"
proof -
  from assms(1) have "s \<in> fst ` set sf" by (force dest: map_of_SomeD)
  moreover have "s \<notin> set es" using assms(2,4) by (auto simp: emission_step_def)
  ultimately show ?thesis
    using assms by (auto simp: emission_step_def emission_ok_def deps_names fields_of_def)
qed

lemma emit_sound:
  "emit sf visiting st s = Inr st' \<Longrightarrow> emission_ok sf st \<Longrightarrow> emission_step sf visiting st st' {s}"
  "emit_deps sf visiting st cts = Inr st' \<Longrightarrow> emission_ok sf st \<Longrightarrow>
     emission_step sf visiting st st' (embedded_names cts)"
proof (induction sf visiting st s and sf visiting st cts arbitrary: st' and st' rule: emit_emit_deps.induct)
  case (1 sf visiting st s)
  show ?case
  proof (cases "s \<in> set (snd st)")
    case True
    then have "st' = st" using "1.prems"(1) by (simp add: emit.simps)
    with True "1.prems"(2) show ?thesis by (simp add: emission_step_def)
  next
    case False
    then have nv: "s \<notin> set visiting" using "1.prems"(1) by (auto simp: emit.simps split: if_splits)
    obtain fl where fl: "map_of sf s = Some fl"
      using "1.prems"(1) False nv by (cases "map_of sf s") (auto simp: emit.simps)
    then obtain ds es where d: "emit_deps sf (s # visiting) st (map snd fl) = Inr (ds, es)"
      and st': "st' = (ds @ [struct_decl s fl], s # es)"
      using "1.prems"(1) False nv by (auto simp: emit.simps err_simps)
    show ?thesis
      unfolding st' by (rule emit_step_deps [OF fl False nv]) (rule "1.IH" [OF False nv fl d "1.prems"(2)])
  qed
next
  case (2 sf visiting st)
  then show ?case by (simp add: emission_step_def)
next
  case (3 sf visiting st ct cts)
  show ?case
  proof (cases "embedded_name ct")
    case None
    with 3 show ?thesis by simp
  next
    case (Some d)
    then obtain st1 where s1: "emit sf visiting st d = Inr st1" "emit_deps sf visiting st1 cts = Inr st'"
      using "3.prems"(1) by (auto simp: err_simps)
    have a: "emission_step sf visiting st st1 {d}" by (rule "3.IH"(2) [OF Some s1(1) "3.prems"(2)])
    then have "emission_ok sf st1" by (simp add: emission_step_def)
    with "3.IH"(3) [OF Some s1(2)] have "emission_step sf visiting st1 st' (embedded_names cts)" by simp
    from emission_step_trans [OF a this] Some show ?thesis by simp
  qed
qed

lemma emit_fold_sound:
  "efold (emit sf []) st ss = Inr st' \<Longrightarrow> emission_ok sf st \<Longrightarrow> emission_step sf [] st st' (set ss)"
proof (induction ss arbitrary: st)
  case Nil
  then show ?case by (simp add: emission_step_def)
next
  case (Cons s ss)
  then obtain st1 where s1: "emit sf [] st s = Inr st1" "efold (emit sf []) st1 ss = Inr st'" by (auto simp: err_simps)
  have a: "emission_step sf [] st st1 {s}" by (rule emit_sound(1) [OF s1(1) Cons.prems(2)])
  then have "emission_ok sf st1" by (simp add: emission_step_def)
  from emission_step_trans [OF a Cons.IH [OF s1(2) this]] show ?case by simp
qed

lemma emit_all_sound:
  assumes "emit_all sf = Inr (structs, emitted)"
  shows "structs = map (\<lambda>s. struct_decl s (fields_of sf s)) (rev emitted)" "declared_first sf emitted"
    "set emitted = fst ` set sf"
proof -
  have "emission_step sf [] ([], []) (structs, emitted) (fst ` set sf)"
    using emit_fold_sound [OF assms [unfolded emit_all_def]] by (simp add: emission_ok_def)
  then show "structs = map (\<lambda>s. struct_decl s (fields_of sf s)) (rev emitted)" "declared_first sf emitted"
    "set emitted = fst ` set sf"
    unfolding emission_step_def emission_ok_def by auto
qed

text \<open>
  The other direction: where every embedded struct is registered and the nesting is well-founded, as it is for
  structs of finite size, the emission never refuses.
\<close>

definition ranked :: "sfields \<Rightarrow> (string \<Rightarrow> nat) \<Rightarrow> bool" where
  "ranked sf rank = (\<forall>s \<in> fst ` set sf. \<forall>d \<in> deps sf s. d \<in> fst ` set sf \<and> rank d < rank s)"

lemma emit_total:
  "ranked sf rank \<Longrightarrow> s \<in> fst ` set sf \<Longrightarrow> \<forall>v \<in> set visiting. rank s < rank v \<Longrightarrow>
     \<exists>st'. emit sf visiting st s = Inr st'"
  "ranked sf rank \<Longrightarrow> \<forall>d \<in> embedded_names cts. d \<in> fst ` set sf \<and> (\<forall>v \<in> set visiting. rank d < rank v) \<Longrightarrow>
     \<exists>st'. emit_deps sf visiting st cts = Inr st'"
proof (induction sf visiting st s and sf visiting st cts rule: emit_emit_deps.induct)
  case (1 sf visiting st s)
  show ?case
  proof (cases "s \<in> set (snd st)")
    case True
    then show ?thesis by (simp add: emit.simps)
  next
    case False
    have nv: "s \<notin> set visiting" using "1.prems"(3) by blast
    obtain fl where fl: "map_of sf s = Some fl" using "1.prems"(2) by (metis imageE prod.collapse weak_map_of_SomeI)
    have "\<exists>st'. emit_deps sf (s # visiting) st (map snd fl) = Inr st'"
      using "1.prems" deps_names [OF fl]
      by (intro "1.IH" [OF False nv fl]) (auto simp: ranked_def dest: less_trans)
    then show ?thesis using False nv fl by (auto simp: emit.simps)
  qed
next
  case (3 sf visiting st ct cts)
  show ?case
  proof (cases "embedded_name ct")
    case None
    with 3 show ?thesis by simp
  next
    case (Some d)
    with 3 obtain st1 where "emit sf visiting st d = Inr st1" by fastforce
    with 3 Some show ?thesis by simp
  qed
qed simp

lemma emit_all_total: "ranked sf rank \<Longrightarrow> \<exists>st. emit_all sf = Inr st"
proof -
  assume r: "ranked sf rank"
  have "\<exists>st'. efold (emit sf []) st ss = Inr st'" if "set ss \<subseteq> fst ` set sf" for ss st
    using that
  proof (induction ss arbitrary: st)
    case (Cons s ss)
    then obtain st1 where "emit sf [] st s = Inr st1" using emit_total(1) [OF r, of s "[]" st] by auto
    with Cons show ?case by simp
  qed simp
  then show ?thesis by (simp add: emit_all_def)
qed

end
