(* ===== verification/Trace_Semantics.thy ===== *)
theory Trace_Semantics
  imports Trace_Codegen
begin

text \<open>
  What the programs of \<^verbatim>\<open>substrate/tmmtrace.py\<close> do: a type checker for the generated statements and declarations,
  the execution of a program on a memory (the C semantics of the statements the generator can append), and the
  meaning of a trace expression read directly off the resolved values. The theorems: every generated program is
  well typed, and it returns what the expression means.
\<close>

section \<open>Types of the generated code\<close>

datatype vtype = VInt | VPtr string

type_synonym tenv = "string \<rightharpoonup> vtype"

definition field_ty :: "sfields \<Rightarrow> string \<Rightarrow> string \<Rightarrow> string option" where
  "field_ty sf s f = map_of (fields_of sf s) f"

definition int_types :: "string set" where
  "int_types = set (map snd CTYPE)"

definition src_ok :: "sfields \<Rightarrow> tenv \<Rightarrow> string \<Rightarrow> src \<Rightarrow> bool" where
  "src_ok sf G s e =
     (case e of
        SArg n \<Rightarrow> True
      | SVar v \<Rightarrow> G v = Some VInt
      | SAddr p f \<Rightarrow>
          (case G p of Some (VPtr t) \<Rightarrow> field_ty sf t f = Some (''struct '' @ s) | _ \<Rightarrow> False))"

definition access_ok :: "sfields \<Rightarrow> tenv \<Rightarrow> string \<Rightarrow> string \<Rightarrow> string \<Rightarrow> bool" where
  "access_ok sf G p f ct =
     (ct \<in> int_types \<and> (case G p of Some (VPtr s) \<Rightarrow> field_ty sf s f = Some ct | _ \<Rightarrow> False))"

text \<open>A declaration needs a name that is not taken; a read goes through a declared field of its own type.\<close>

fun type_stmt :: "sfields \<Rightarrow> tenv \<Rightarrow> stmt \<Rightarrow> tenv option" where
  "type_stmt sf G (Point s p e) = (if G p = None \<and> src_ok sf G s e then Some (G(p \<mapsto> VPtr s)) else None)"
| "type_stmt sf G (PointArg s p n) = (if G p = None then Some (G(p \<mapsto> VPtr s)) else None)"
| "type_stmt sf G (NullCheck p) = (if G p = None then None else Some G)"
| "type_stmt sf G (ReadHop h p f) =
     (if G h = None \<and> access_ok sf G p f ''__u64'' then Some (G(h \<mapsto> VInt)) else None)"
| "type_stmt sf G (ReadVal ct v p f) = (if G v = None \<and> access_ok sf G p f ct then Some (G(v \<mapsto> VInt)) else None)"
| "type_stmt sf G (Canary ct v p f) = (if G v = None \<and> access_ok sf G p f ct then Some (G(v \<mapsto> VInt)) else None)"

fun type_code :: "sfields \<Rightarrow> tenv \<Rightarrow> stmt list \<Rightarrow> tenv option" where
  "type_code sf G [] = Some G"
| "type_code sf G (c # cs) = Option.bind (type_stmt sf G c) (\<lambda>G. type_code sf G cs)"

fun cexp_ok :: "tenv \<Rightarrow> cexp \<Rightarrow> bool" where
  "cexp_ok G (EArg n) = True"
| "cexp_ok G (EVar v) = (G v = Some VInt)"

definition cond_ok :: "tenv \<Rightarrow> cond option \<Rightarrow> bool" where
  "cond_ok G c = (case c of None \<Rightarrow> True | Some (_, ts) \<Rightarrow> list_all (\<lambda>t. cexp_ok G (fst t)) ts)"

fun ret_ok :: "tenv \<Rightarrow> ret \<Rightarrow> bool" where
  "ret_ok G (RetShield c) = cond_ok G (Some c)"
| "ret_ok G (RetCount c) = cond_ok G c"
| "ret_ok G (RetVal c e) = (cond_ok G c \<and> cexp_ok G e)"

definition well_typed :: "program \<Rightarrow> bool" where
  "well_typed p =
     (declared_first (tp_sfields p) (rev (tp_order p)) \<and> set (tp_order p) = fst ` set (tp_sfields p) \<and>
      tp_structs p = map (\<lambda>s. struct_decl s (fields_of (tp_sfields p) s)) (tp_order p) \<and>
      (case type_code (tp_sfields p) Map.empty (concat (tp_code p)) of
         None \<Rightarrow> False | Some G \<Rightarrow> ret_ok G (tp_ret p)))"

section \<open>Registered fields\<close>

definition extends :: "sfields \<Rightarrow> sfields \<Rightarrow> bool" where
  "extends sf sf' = (\<forall>s f ct. field_ty sf s f = Some ct \<longrightarrow> field_ty sf' s f = Some ct)"

lemma extends_refl [simp]: "extends sf sf"
  by (simp add: extends_def)

lemma extends_trans: "extends a b \<Longrightarrow> extends b c \<Longrightarrow> extends a c"
  by (simp add: extends_def)

lemma reg_extends:
  assumes "reg sf s f ct = Inr sf'"
  shows "extends sf sf'" "field_ty sf' s f = Some ct"
proof -
  from assms have sf': "sf' = AList.update s (AList.update f ct (fields_of sf s)) sf"
    and old: "case map_of (fields_of sf s) f of None \<Rightarrow> True | Some old \<Rightarrow> old = ct"
    by (auto simp: reg_def Let_def fields_of_def split: if_splits option.splits)
  have new: "field_ty sf' t g = (if t = s then map_of (AList.update f ct (fields_of sf s)) g else field_ty sf t g)" for t g
    by (simp add: field_ty_def fields_of_def sf' update_conv')
  show "field_ty sf' s f = Some ct" by (simp add: new update_conv')
  show "extends sf sf'"
    unfolding extends_def
  proof (intro allI impI)
    fix t g c assume "field_ty sf t g = Some c"
    then show "field_ty sf' t g = Some c"
      unfolding new using old by (auto simp: field_ty_def update_conv' split: option.splits)
  qed
qed

lemma src_ok_mono: "src_ok sf G s e \<Longrightarrow> extends sf sf' \<Longrightarrow> src_ok sf' G s e"
  by (auto simp: src_ok_def extends_def split: src.splits option.splits vtype.splits)

lemma access_ok_mono: "access_ok sf G p f ct \<Longrightarrow> extends sf sf' \<Longrightarrow> access_ok sf' G p f ct"
  by (auto simp: access_ok_def extends_def split: option.splits vtype.splits)

lemma type_stmt_mono: "type_stmt sf G c = Some G' \<Longrightarrow> extends sf sf' \<Longrightarrow> type_stmt sf' G c = Some G'"
  by (cases c) (auto split: if_splits intro: src_ok_mono access_ok_mono)

lemma type_code_mono: "type_code sf G cs = Some G' \<Longrightarrow> extends sf sf' \<Longrightarrow> type_code sf' G cs = Some G'"
  by (induction cs arbitrary: G) (auto simp: bind_eq_Some_conv dest: type_stmt_mono)

lemma type_code_append: "type_code sf G (xs @ ys) = Option.bind (type_code sf G xs) (\<lambda>G. type_code sf G ys)"
  by (induction xs arbitrary: G) (auto split: Option.bind_splits)

section \<open>Variables\<close>

text \<open>The names the code of the \<open>k\<close>-th value declares.\<close>

definition owned :: "nat \<Rightarrow> string set" where
  "owned k = {var1 (CHR ''p'') k, var1 (CHR ''v'') k} \<union> range (var2 (CHR ''p'') k) \<union> range (var2 (CHR ''h'') k)"

lemma str_nat_inj [simp]: "str_nat m = str_nat n \<longleftrightarrow> m = n"
  by (metis foldl_str_nat of_nat_eq_iff)

lemma underscore_not_digit: "CHR ''_'' \<notin> set (str_nat n)"
  using str_nat_digits [of n] by (auto simp: is_digit_def)

lemma str_nat_split: "str_nat k @ CHR ''_'' # a = str_nat j @ CHR ''_'' # b \<Longrightarrow> k = j \<and> a = b"
proof -
  assume e: "str_nat k @ CHR ''_'' # a = str_nat j @ CHR ''_'' # b"
  have "takeWhile (\<lambda>c. c \<noteq> CHR ''_'') (str_nat n @ CHR ''_'' # x) = str_nat n" for n x
    using underscore_not_digit [of n] by (subst takeWhile_append2) auto
  from this [of k a] this [of j b] e have "str_nat k = str_nat j" by simp
  with e show ?thesis by simp
qed

lemma var2_inj [simp]: "var2 c k h = var2 d j i \<longleftrightarrow> c = d \<and> k = j \<and> h = i"
  by (auto simp: var2_def dest: str_nat_split)

lemma var1_inj [simp]: "var1 c k = var1 d j \<longleftrightarrow> c = d \<and> k = j"
  by (simp add: var1_def)

lemma var12 [simp]: "var1 c k \<noteq> var2 d j i" "var2 d j i \<noteq> var1 c k"
proof -
  have "CHR ''_'' \<in> set (str_nat j @ CHR ''_'' # str_nat i)" by simp
  with underscore_not_digit [of k] have "str_nat k \<noteq> str_nat j @ CHR ''_'' # str_nat i" by metis
  then show "var1 c k \<noteq> var2 d j i" "var2 d j i \<noteq> var1 c k" by (auto simp: var1_def var2_def)
qed

lemma owned_disjoint: "j \<noteq> k \<Longrightarrow> owned j \<inter> owned k = {}"
  by (auto simp: owned_def)

definition below :: "nat \<Rightarrow> string set" where
  "below k = (\<Union>j<k. owned j)"

lemma below_Suc: "below (Suc k) = below k \<union> owned k"
  by (auto simp: below_def less_Suc_eq)

lemma below_disjoint: "below k \<inter> owned k = {}"
proof -
  have "owned j \<inter> owned k = {}" if "j < k" for j using that by (intro owned_disjoint) simp
  then show ?thesis unfolding below_def by blast
qed

section \<open>Chains of reads\<close>

text \<open>A resolved chain: every edge leads to the struct of the next hop, and the last hop is an integer.\<close>

fun hops_ok :: "hop list \<Rightarrow> bool" where
  "hops_ok [] = False"
| "hops_ok [(s, f, k, x)] = (k = ScalarHop \<and> x \<in> int_types)"
| "hops_ok ((s, f, k, x) # h # hs) = (k \<noteq> ScalarHop \<and> fst h = x \<and> hops_ok (h # hs))"

fun value_ok :: "rvalue \<Rightarrow> bool" where
  "value_ok (RChain n hops) = hops_ok hops"
| "value_ok _ = True"

lemma ctype_of_int: "ctype_of ty = Inr ct \<Longrightarrow> ct \<in> int_types"
  by (force simp: ctype_of_def int_types_def split: jval.splits option.splits dest: map_of_SomeD)

lemma refuse_or_never: "refuse_or types cur f why \<noteq> Inr (Inr hops)"
  by (auto simp: refuse_or_def err_simps split: option.splits)

lemma last_hop_hops:
  "last_hop types cur f hops = Inr (Inr hs) \<Longrightarrow> \<exists>ct. hs = hops @ [(cur, f, ScalarHop, ct)] \<and> ct \<in> int_types"
  by (auto simp: last_hop_def err_simps refuse_or_never split: if_splits dest: ctype_of_int)

lemma next_edge_kind: "next_edge types cur f = Inr (Inr (k, tgt)) \<Longrightarrow> k \<noteq> ScalarHop"
  by (auto simp: next_edge_def err_simps split: if_splits)

lemma walk_edge:
  assumes "walk_path types cur (f # g # fs) hops = Inr (Inr hs)"
  obtains k tgt s where "next_edge types cur f = Inr (Inr (k, tgt))" "edge_name tgt = Inr (Some s)"
    "walk_path types s (g # fs) (hops @ [(cur, f, k, s)]) = Inr (Inr hs)"
proof -
  obtain k tgt where e: "next_edge types cur f = Inr (Inr (k, tgt))"
    using assms by (cases "next_edge types cur f") (auto split: sum.splits)
  moreover obtain s where "edge_name tgt = Inr (Some s)"
    using assms e by (cases "edge_name tgt") (auto split: option.splits)
  ultimately show thesis using assms that by simp
qed

lemma walk_hops:
  "walk_path types cur parts hops = Inr (Inr hs) \<Longrightarrow> parts \<noteq> [] \<Longrightarrow>
   \<exists>new. hs = hops @ new \<and> hops_ok new \<and> fst (hd new) = cur"
proof (induction parts arbitrary: cur hops rule: induct_list012)
  case (2 f)
  then show ?case by (auto dest: last_hop_hops)
next
  case (3 f g fs)
  from "3.prems"(1) obtain k tgt s where e: "next_edge types cur f = Inr (Inr (k, tgt))"
      and w: "walk_path types s (g # fs) (hops @ [(cur, f, k, s)]) = Inr (Inr hs)"
    by (rule walk_edge)
  from "3.IH"(2) [OF w] obtain new where new: "hs = (hops @ [(cur, f, k, s)]) @ new" "hops_ok new"
      "fst (hd new) = s" by blast
  from new(2) obtain h hs' where "new = h # hs'" by (cases new) auto
  with new next_edge_kind [OF e] show ?case by (intro exI [of _ "(cur, f, k, s) # new"]) auto
qed simp

lemma try_starts_ok: "try_starts types parts ss = Inr v \<Longrightarrow> parts \<noteq> [] \<Longrightarrow> value_ok v"
proof (induction types parts ss rule: try_starts.induct)
  case (2 types parts i s0 rest)
  from "2.prems"(1) obtain r where r: "walk_path types s0 parts [] = Inr r" by (auto simp: err_simps)
  show ?case
  proof (cases r)
    case (Inl why)
    with r "2.prems" show ?thesis by (intro "2.IH") simp_all
  next
    case (Inr hops)
    with r "2.prems" walk_hops [of types s0 parts "[]" hops] show ?thesis by auto
  qed
qed simp

lemma field_param_ok: "field_param types n name ps = Inr (Some v) \<Longrightarrow> value_ok v"
  by (induction types n name ps rule: field_param.induct) (auto simp: err_simps split: option.splits if_splits)

lemma resolve_value_ok: "resolve_value file types hook tok = Inr v \<Longrightarrow> value_ok v"
  by (auto simp: resolve_value_def resolve_path_def resolve_name_def err_simps Let_def
      split: option.splits if_splits dest!: field_param_ok try_starts_ok)

lemma read_hops_acc:
  "read_hops k h e hops (sf, ls) =
   ebind (read_hops k h e hops (sf, [])) (\<lambda>(sf', ls', ex). Inr (sf', ls @ ls', ex))"
proof (induction hops arbitrary: h e sf ls)
  case (Cons hop hops)
  obtain s f kind extra where hop: "hop = (s, f, kind, extra)" by (cases hop) auto
  show ?case
  proof (cases "reg sf s f (hop_ctype kind extra)")
    case (Inr sf1)
    let ?pv = "var2 (CHR ''p'') k h" and ?hv = "var2 (CHR ''h'') k h"
    show ?thesis
      using Inr Cons.IH [of "h + 1" "SVar ?hv" sf1 "ls @ [Point s ?pv e, NullCheck ?pv, ReadHop ?hv ?pv f]"]
        Cons.IH [of "h + 1" "SVar ?hv" sf1 "[Point s ?pv e, NullCheck ?pv, ReadHop ?hv ?pv f]"]
        Cons.IH [of "h + 1" "SAddr ?pv f" sf1 "ls @ [Point s ?pv e, NullCheck ?pv]"]
        Cons.IH [of "h + 1" "SAddr ?pv f" sf1 "[Point s ?pv e, NullCheck ?pv]"]
      by (cases kind) (simp_all add: hop Let_def ebind_assoc split_def)
  qed (simp add: hop)
qed simp

lemma read_hops_cases:
  assumes "read_hops k h e ((s, f, kind, extra) # hops) (sf, []) = Inr (sf', ls, ex)"
  defines "pv \<equiv> var2 (CHR ''p'') k h" and "hv \<equiv> var2 (CHR ''h'') k h" and "v \<equiv> var1 (CHR ''v'') k"
  obtains
    (ptr) sf1 ls2 where "kind = Ptr" "reg sf s f ''__u64'' = Inr sf1"
      "read_hops k (h + 1) (SVar hv) hops (sf1, []) = Inr (sf', ls2, ex)"
      "ls = Point s pv e # NullCheck pv # ReadHop hv pv f # ls2"
  | (embedded) sf1 ls2 where "kind = Embedded" "reg sf s f (''struct '' @ extra) = Inr sf1"
      "read_hops k (h + 1) (SAddr pv f) hops (sf1, []) = Inr (sf', ls2, ex)"
      "ls = Point s pv e # NullCheck pv # ls2"
  | (scalar) "kind = ScalarHop" "reg sf s f extra = Inr sf'" "ex = EVar v"
      "ls = [Point s pv e, NullCheck pv, ReadVal extra v pv f]"
proof (cases kind)
  case Ptr
  let ?l = "[Point s pv e, NullCheck pv, ReadHop hv pv f]"
  from assms(1) Ptr obtain sf1 where r: "reg sf s f ''__u64'' = Inr sf1"
      "read_hops k (h + 1) (SVar hv) hops (sf1, ?l) = Inr (sf', ls, ex)"
    by (auto simp: err_simps hop_ctype_def Let_def pv_def hv_def)
  from r(2) obtain ls2 where "read_hops k (h + 1) (SVar hv) hops (sf1, []) = Inr (sf', ls2, ex)" "ls = ?l @ ls2"
    by (subst (asm) read_hops_acc) (auto simp: err_simps)
  with Ptr r(1) show thesis by (intro ptr) auto
next
  case Embedded
  let ?l = "[Point s pv e, NullCheck pv]"
  from assms(1) Embedded obtain sf1 where r: "reg sf s f (''struct '' @ extra) = Inr sf1"
      "read_hops k (h + 1) (SAddr pv f) hops (sf1, ?l) = Inr (sf', ls, ex)"
    by (auto simp: err_simps hop_ctype_def Let_def pv_def hv_def)
  from r(2) obtain ls2 where "read_hops k (h + 1) (SAddr pv f) hops (sf1, []) = Inr (sf', ls2, ex)" "ls = ?l @ ls2"
    by (subst (asm) read_hops_acc) (auto simp: err_simps)
  with Embedded r(1) show thesis by (intro embedded) auto
next
  case ScalarHop
  with assms(1) show thesis
    by (intro scalar) (auto simp: err_simps hop_ctype_def Let_def pv_def v_def)
qed

section \<open>Generated code is well typed\<close>

definition fresh :: "tenv \<Rightarrow> nat \<Rightarrow> nat \<Rightarrow> bool" where
  "fresh G k h =
     (G (var1 (CHR ''v'') k) = None \<and>
      (\<forall>i \<ge> h. G (var2 (CHR ''p'') k i) = None \<and> G (var2 (CHR ''h'') k i) = None))"

definition typed_read :: "sfields \<Rightarrow> sfields \<Rightarrow> tenv \<Rightarrow> nat \<Rightarrow> stmt list \<Rightarrow> cexp \<Rightarrow> bool" where
  "typed_read sf sf' G k ls ex =
     (extends sf sf' \<and> (\<exists>G'. type_code sf' G ls = Some G' \<and> cexp_ok G' ex \<and> G \<subseteq>\<^sub>m G' \<and> dom G' \<subseteq> dom G \<union> owned k))"

lemma typed_read_step:
  assumes "extends sf sf1" "type_code sf1 G pre = Some G1" "G \<subseteq>\<^sub>m G1" "dom G1 \<subseteq> dom G \<union> owned k"
    and "typed_read sf1 sf' G1 k ls ex"
  shows "typed_read sf sf' G k (pre @ ls) ex"
proof -
  from assms(5) obtain G' where g: "extends sf1 sf'" "type_code sf' G1 ls = Some G'" "cexp_ok G' ex" "G1 \<subseteq>\<^sub>m G'"
      "dom G' \<subseteq> dom G1 \<union> owned k" unfolding typed_read_def by blast
  have "type_code sf' G (pre @ ls) = Some G'"
    using type_code_mono [OF assms(2) g(1)] g(2) by (simp add: type_code_append)
  moreover have "dom G' \<subseteq> dom G \<union> owned k" using g(5) assms(4) by blast
  ultimately show ?thesis
    unfolding typed_read_def using extends_trans [OF assms(1) g(1)] g(3) map_le_trans [OF assms(3) g(4)] by blast
qed

lemma owned_vars [simp]:
  "var2 (CHR ''p'') k h \<in> owned k" "var2 (CHR ''h'') k h \<in> owned k" "var1 (CHR ''v'') k \<in> owned k"
  "var1 (CHR ''p'') k \<in> owned k"
  by (auto simp: owned_def)

lemma map_le_upd: "G p = None \<Longrightarrow> G \<subseteq>\<^sub>m G(p \<mapsto> t)"
  by (auto simp: map_le_def)

lemma u64_int_type [simp]: "''__u64'' \<in> int_types"
  by (simp add: int_types_def CTYPE_def)

lemma read_hops_typed:
  "read_hops k h e hops (sf, []) = Inr (sf', ls, ex) \<Longrightarrow> hops_ok hops \<Longrightarrow> src_ok sf G (fst (hd hops)) e \<Longrightarrow>
   fresh G k h \<Longrightarrow> typed_read sf sf' G k ls ex"
proof (induction hops arbitrary: h e sf ls G)
  case (Cons hop hops)
  obtain s f kind extra where hop: "hop = (s, f, kind, extra)" by (cases hop) auto
  let ?pv = "var2 (CHR ''p'') k h" and ?hv = "var2 (CHR ''h'') k h"
  have pn: "G ?pv = None" and hn: "G ?hv = None" using Cons.prems(4) by (simp_all add: fresh_def)
  have src: "src_ok sf G s e" using Cons.prems(3) by (simp add: hop)
  from Cons.prems(1) [unfolded hop] show ?case
  proof (cases rule: read_hops_cases)
    case (ptr sf1 ls2)
    note r = reg_extends [OF ptr(2)]
    define G1 where "G1 = G(?pv \<mapsto> VPtr s, ?hv \<mapsto> VInt)"
    have ok: "hops_ok hops" using Cons.prems(2) ptr(1) by (cases hops) (auto simp: hop)
    have "typed_read sf1 sf' G1 k ls2 ex"
      by (rule Cons.IH [OF ptr(3) ok]) (use Cons.prems(4) in \<open>auto simp: src_ok_def fresh_def G1_def\<close>)
    moreover have "type_code sf1 G [Point s ?pv e, NullCheck ?pv, ReadHop ?hv ?pv f] = Some G1"
      using src_ok_mono [OF src r(1)] r(2) pn hn by (simp add: G1_def access_ok_def)
    ultimately have "typed_read sf sf' G k ([Point s ?pv e, NullCheck ?pv, ReadHop ?hv ?pv f] @ ls2) ex"
      by (rule typed_read_step [OF r(1), rotated 3]) (use pn hn in \<open>auto simp: G1_def map_le_def\<close>)
    then show ?thesis by (simp add: ptr(4))
  next
    case (embedded sf1 ls2)
    note r = reg_extends [OF embedded(2)]
    define G1 where "G1 = G(?pv \<mapsto> VPtr s)"
    have ok: "hops_ok hops" "fst (hd hops) = extra"
      using Cons.prems(2) embedded(1) by (cases hops; auto simp: hop)+
    have "typed_read sf1 sf' G1 k ls2 ex"
      by (rule Cons.IH [OF embedded(3) ok(1)])
        (use Cons.prems(4) r(2) in \<open>auto simp: src_ok_def fresh_def G1_def ok(2)\<close>)
    moreover have "type_code sf1 G [Point s ?pv e, NullCheck ?pv] = Some G1"
      using src_ok_mono [OF src r(1)] pn by (simp add: G1_def)
    ultimately have "typed_read sf sf' G k ([Point s ?pv e, NullCheck ?pv] @ ls2) ex"
      by (rule typed_read_step [OF r(1), rotated 3]) (use pn in \<open>auto simp: G1_def map_le_def\<close>)
    then show ?thesis by (simp add: embedded(4))
  next
    case scalar
    note r = reg_extends [OF scalar(2)]
    have "extra \<in> int_types" using Cons.prems(2) scalar(1) by (cases hops) (auto simp: hop)
    with r src_ok_mono [OF src r(1)] pn Cons.prems(4) show ?thesis
      unfolding typed_read_def scalar
      by (intro conjI exI [of _ "G(?pv \<mapsto> VPtr s, var1 (CHR ''v'') k \<mapsto> VInt)"])
        (auto simp: fresh_def access_ok_def map_le_def)
  qed
qed simp

lemma read_value_typed:
  assumes "read_value v k sf = Inr (sf', ls, ex)" "value_ok v" "dom G \<inter> owned k = {}"
  shows "typed_read sf sf' G k ls ex"
proof (cases v)
  case (RScalar n)
  with assms(1) show ?thesis by (auto simp: typed_read_def)
next
  case (RField s n f ty)
  with assms(1) obtain ct where ct: "ctype_of ty = Inr ct" "reg sf s f ct = Inr sf'" "ex = EVar (var1 (CHR ''v'') k)"
      "ls = [PointArg s (var1 (CHR ''p'') k) n, ReadVal ct (var1 (CHR ''v'') k) (var1 (CHR ''p'') k) f]"
    by (auto simp: err_simps Let_def)
  have "G (var1 (CHR ''p'') k) = None" "G (var1 (CHR ''v'') k) = None" using assms(3) by (auto simp: owned_def)
  with reg_extends [OF ct(2)] ctype_of_int [OF ct(1)] show ?thesis
    unfolding typed_read_def ct(3,4)
    by (intro conjI exI [of _ "G(var1 (CHR ''p'') k \<mapsto> VPtr s, var1 (CHR ''v'') k \<mapsto> VInt)"])
      (auto simp: access_ok_def map_le_def)
next
  case (RChain n hops)
  have "fresh G k 0" using assms(3) by (auto simp: fresh_def owned_def)
  with assms RChain show ?thesis by (intro read_hops_typed) (auto simp: src_ok_def)
qed

definition gen_typed :: "gen \<Rightarrow> tenv \<Rightarrow> bool" where
  "gen_typed g G = (type_code (g_sfields g) Map.empty (concat (g_code g)) = Some G \<and> dom G \<subseteq> below (g_k g))"

lemma cexp_ok_mono: "cexp_ok G e \<Longrightarrow> G \<subseteq>\<^sub>m G' \<Longrightarrow> cexp_ok G' e"
  by (cases e) (auto simp: map_le_def dom_def)

lemma take_tok_typed:
  assumes "take_tok file types hook g tok = Inr (g', ex)" "gen_typed g G"
  obtains G' where "gen_typed g' G'" "cexp_ok G' ex" "G \<subseteq>\<^sub>m G'"
proof -
  from assms(1) obtain v sf cd where v: "resolve_value file types hook tok = Inr v"
      "read_value v (g_k g) (g_sfields g) = Inr (sf, cd, ex)"
      "g' = \<lparr>g_sfields = sf, g_code = (if cd = [] then g_code g else g_code g @ [cd]), g_k = g_k g + 1\<rparr>"
    by (auto simp: take_tok_def err_simps)
  have "dom G \<inter> owned (g_k g) = {}"
    using assms(2) below_disjoint [of "g_k g"] unfolding gen_typed_def by blast
  from read_value_typed [OF v(2) resolve_value_ok [OF v(1)] this]
  obtain G' where G': "extends (g_sfields g) sf" "type_code sf G cd = Some G'" "cexp_ok G' ex" "G \<subseteq>\<^sub>m G'"
      "dom G' \<subseteq> dom G \<union> owned (g_k g)"
    unfolding typed_read_def by blast
  have "type_code sf Map.empty (concat (g_code g)) = Some G"
    using assms(2) G'(1) by (auto simp: gen_typed_def intro: type_code_mono)
  with G'(2) have "type_code sf Map.empty (concat (g_code g')) = Some G'"
    by (auto simp: v(3) type_code_append)
  moreover have "dom G' \<subseteq> below (g_k g')"
    using G'(5) assms(2) by (auto simp: v(3) gen_typed_def below_Suc)
  ultimately have "gen_typed g' G'" by (simp add: gen_typed_def v(3))
  with G'(3,4) that show thesis by blast
qed

definition terms_typed :: "gen \<times> cterm list \<Rightarrow> bool" where
  "terms_typed st = (\<exists>G. gen_typed (fst st) G \<and> list_all (\<lambda>t. cexp_ok G (fst t)) (snd st))"

lemma term_step_Inr:
  assumes "term_step file types hook (g, parts) t = Inr st'"
  obtains lhs op n g' ex where "match_pred t = Some (lhs, op, n)"
    "take_tok file types hook g (strip lhs) = Inr (g', ex)" "st' = (g', parts @ [(ex, op, n)])"
  using assms by (auto simp: term_step_def err_simps split: option.splits)

lemma term_step_typed:
  assumes "terms_typed st" "term_step file types hook st t = Inr st'"
  shows "terms_typed st'"
proof -
  obtain g parts where st: "st = (g, parts)" by (cases st) auto
  from assms(2) obtain lhs op rhs g' ex where t: "take_tok file types hook g (strip lhs) = Inr (g', ex)"
      "st' = (g', parts @ [(ex, op, rhs)])"
    unfolding st by (rule term_step_Inr)
  from assms(1) obtain G where G: "gen_typed g G" "list_all (\<lambda>t. cexp_ok G (fst t)) parts"
    by (auto simp: st terms_typed_def)
  from take_tok_typed [OF t(1) G(1)] obtain G' where G': "gen_typed g' G'" "cexp_ok G' ex" "G \<subseteq>\<^sub>m G'" by blast
  from G(2) G'(3) have "list_all (\<lambda>t. cexp_ok G' (fst t)) parts"
    by (auto simp: list_all_iff intro: cexp_ok_mono)
  with G' t(2) show ?thesis by (auto simp: terms_typed_def)
qed

lemma gen0_typed: "gen_typed gen0 Map.empty"
  by (simp add: gen_typed_def gen0_def)

lemma gen_pred_typed:
  assumes "gen_pred file types hook pr = Inr (g, c)"
  obtains G where "gen_typed g G" "cond_ok G c"
proof (cases "pr = []")
  case True
  with assms gen0_typed that show thesis by (auto simp: gen_pred_def cond_ok_def)
next
  case False
  with assms obtain parts where e: "efold (term_step file types hook) (gen0, []) (pred_terms pr) = Inr (g, parts)"
      "c = Some (contains ''||'' pr, parts)"
    by (auto simp: gen_pred_def Let_def err_simps split: if_splits)
  have "terms_typed (g, parts)"
  proof (rule efold_invariant [OF e(1)])
    show "terms_typed (gen0, [])" using gen0_typed by (auto simp: terms_typed_def)
  qed (rule term_step_typed)
  with e(2) that show thesis by (auto simp: terms_typed_def cond_ok_def)
qed

lemma find_canary_int: "find_canary types ps = Inr (Some (i, s, f, ct)) \<Longrightarrow> ct \<in> int_types"
proof (induction types ps rule: find_canary.induct)
  case (2 types p rest)
  show ?case
  proof (cases "blob_struct None p")
    case None
    with 2 show ?thesis by simp
  next
    case (Some s')
    with "2.prems" obtain d where d: "dict_get types s' JNull = Inr d" by (auto simp: err_simps)
    with Some 2 show ?thesis
      by (cases "truthy d") (auto simp: err_simps split: jval.splits list.splits dest: ctype_of_int)
  qed
qed simp

lemma add_canary_cases:
  assumes "add_canary file types hook g = Inr g'"
  obtains (same) "g' = g"
  | (canary) sf i s f ct where "g_code g = []" "ct \<in> int_types" "reg (g_sfields g) s f ct = Inr sf"
      "g' = g\<lparr>g_sfields := sf, g_code := [[PointArg s ''pc'' i, Canary ct ''vc'' ''pc'' f]]\<rparr>"
proof (cases "g_code g = []")
  case False
  with assms show thesis by (intro same) (simp add: add_canary_def)
next
  case True
  let ?ps = "case hook_params file hook of None \<Rightarrow> [] | Some ps \<Rightarrow> enum_params ps"
  from assms True obtain r where r: "find_canary types ?ps = Inr r" by (auto simp: add_canary_def err_simps)
  show thesis
  proof (cases r)
    case None
    with assms True r show thesis by (intro same) (simp add: add_canary_def)
  next
    case (Some q)
    obtain i s f ct where q: "q = (i, s, f, ct)" by (cases q) auto
    have ct: "ct \<in> int_types" using r Some q by (auto intro: find_canary_int)
    from assms True r Some q obtain sf where "reg (g_sfields g) s f ct = Inr sf"
        "g' = g\<lparr>g_sfields := sf, g_code := [[PointArg s ''pc'' i, Canary ct ''vc'' ''pc'' f]]\<rparr>"
      by (auto simp: add_canary_def err_simps)
    with True ct show thesis by (rule canary)
  qed
qed

lemma add_canary_typed:
  assumes "add_canary file types hook g = Inr g'" "gen_typed g G"
  obtains G' where "type_code (g_sfields g') Map.empty (concat (g_code g')) = Some G'" "G \<subseteq>\<^sub>m G'"
  using assms(1)
proof (cases rule: add_canary_cases)
  case same
  with assms that [of G] show thesis by (simp add: gen_typed_def)
next
  case (canary sf i s f ct)
  have "G = Map.empty" using assms(2) canary(1) by (simp add: gen_typed_def)
  with reg_extends(2) [OF canary(3)] canary that [of "[''pc'' \<mapsto> VPtr s, ''vc'' \<mapsto> VInt]"] show thesis
    by (simp add: access_ok_def)
qed

lemma cond_ok_mono: "cond_ok G c \<Longrightarrow> G \<subseteq>\<^sub>m G' \<Longrightarrow> cond_ok G' c"
  by (auto simp: cond_ok_def list_all_iff split: option.splits intro: cexp_ok_mono)

lemma gen_action_typed:
  assumes "gen_action file types hook act (g, c) = Inr (g', r)" "gen_typed g G" "cond_ok G c"
  obtains G' where "type_code (g_sfields g') Map.empty (concat (g_code g')) = Some G'" "ret_ok G' r"
proof (cases "match_count act \<or> match_shield act \<noteq> None")
  case True
  with assms(1) have a: "add_canary file types hook g = Inr g'" and r: "r = RetCount c \<or> c \<noteq> None \<and> r = RetShield (the c)"
    by (auto simp: gen_action_def Let_def err_simps split: if_splits option.splits bool.splits)
  from add_canary_typed [OF a assms(2)] obtain G'
    where G': "type_code (g_sfields g') Map.empty (concat (g_code g')) = Some G'" "G \<subseteq>\<^sub>m G'" by blast
  from cond_ok_mono [OF assms(3) G'(2)] r have "ret_ok G' r" by auto
  with G'(1) that show thesis by blast
next
  case False
  with assms(1) obtain tok ex where t: "take_tok file types hook g tok = Inr (g', ex)" "r = RetVal c ex"
    by (auto simp: gen_action_def Let_def err_simps)
  from take_tok_typed [OF t(1) assms(2)] obtain G' where G': "gen_typed g' G'" "cexp_ok G' ex" "G \<subseteq>\<^sub>m G'" by blast
  with cond_ok_mono [OF assms(3) G'(3)] t(2) that show thesis by (auto simp: gen_typed_def)
qed

lemma compile_parts:
  assumes "compile file types e = Inr p"
  obtains sec hook pr act g0 c g r emitted where
    "parse_expr e = Inr (sec, hook, pr, act)" "gen_pred file types hook pr = Inr (g0, c)"
    "gen_action file types hook act (g0, c) = Inr (g, r)" "emit_all (g_sfields g) = Inr (tp_structs p, emitted)"
    "tp_sfields p = g_sfields g" "tp_code p = g_code g" "tp_ret p = r" "tp_order p = rev emitted"
    "tp_section p = sec" "tp_hook p = hook" "tp_name p = program_ident e hook act"
  using assms by (force simp: compile_def err_simps)

lemma compile_well_typed:
  assumes "compile file types e = Inr p"
  shows "well_typed p"
proof -
  from assms obtain sec hook pr act g0 c g r emitted where p:
    "gen_pred file types hook pr = Inr (g0, c)" "gen_action file types hook act (g0, c) = Inr (g, r)"
    "emit_all (g_sfields g) = Inr (tp_structs p, emitted)"
    "tp_sfields p = g_sfields g" "tp_code p = g_code g" "tp_ret p = r" "tp_order p = rev emitted"
    by (rule compile_parts)
  from gen_pred_typed [OF p(1)] obtain G where "gen_typed g0 G" "cond_ok G c" by blast
  from gen_action_typed [OF p(2) this] obtain G' where
    "type_code (g_sfields g) Map.empty (concat (g_code g)) = Some G'" "ret_ok G' r" by blast
  with emit_all_sound [OF p(3)] p show ?thesis by (simp add: well_typed_def)
qed

section \<open>Execution\<close>

text \<open>
  A 64-bit memory some of whose bytes can be read, and the offset of each field that the relocator patches in.
  \<^verbatim>\<open>bpf_probe_read\<close> of \<open>n\<close> bytes fails where one of them cannot be read; values are little-endian.
\<close>

type_synonym word64 = "64 word"

record machine =
  m_byte :: "word64 \<Rightarrow> byte option"
  m_offset :: "string \<Rightarrow> string \<Rightarrow> word64"
  m_arg :: "nat \<Rightarrow> word64"

fun read_bytes :: "machine \<Rightarrow> word64 \<Rightarrow> nat \<Rightarrow> bytes option" where
  "read_bytes M a 0 = Some []"
| "read_bytes M a (Suc n) =
     (case m_byte M a of None \<Rightarrow> None | Some b \<Rightarrow> map_option ((#) b) (read_bytes M (a + 1) n))"

definition ct_bytes :: "string \<Rightarrow> nat" where
  "ct_bytes ct = (if ct = ''__u8'' then 1 else if ct = ''__u16'' then 2 else if ct = ''__u32'' then 4 else 8)"

definition load :: "machine \<Rightarrow> string \<Rightarrow> word64 \<Rightarrow> word64 option" where
  "load M ct a = map_option (\<lambda>bs. word_of_int (le_int bs)) (read_bytes M a (ct_bytes ct))"

text \<open>A variable holds its value, and where it is a pointer the struct it points to.\<close>

type_synonym venv = "string \<rightharpoonup> string \<times> word64"

definition var_val :: "venv \<Rightarrow> string \<Rightarrow> word64" where
  "var_val E v = (case E v of None \<Rightarrow> 0 | Some (_, w) \<Rightarrow> w)"

definition field_addr :: "machine \<Rightarrow> venv \<Rightarrow> string \<Rightarrow> string \<Rightarrow> word64" where
  "field_addr M E p f = (case E p of None \<Rightarrow> 0 | Some (s, a) \<Rightarrow> a + m_offset M s f)"

fun src_val :: "machine \<Rightarrow> venv \<Rightarrow> src \<Rightarrow> word64" where
  "src_val M E (SArg n) = m_arg M n"
| "src_val M E (SVar v) = var_val E v"
| "src_val M E (SAddr p f) = field_addr M E p f"

text \<open>One statement: \<open>None\<close> where it returns 0 from the program.\<close>

fun exec_stmt :: "machine \<Rightarrow> venv \<Rightarrow> stmt \<Rightarrow> venv option" where
  "exec_stmt M E (Point s p e) = Some (E(p \<mapsto> (s, src_val M E e)))"
| "exec_stmt M E (PointArg s p n) = Some (E(p \<mapsto> (s, m_arg M n)))"
| "exec_stmt M E (NullCheck p) = (if var_val E p = 0 then None else Some E)"
| "exec_stmt M E (ReadHop h p f) =
     (case load M ''__u64'' (field_addr M E p f) of
        None \<Rightarrow> None
      | Some w \<Rightarrow> if w = 0 then None else Some (E(h \<mapsto> ([], w))))"
| "exec_stmt M E (ReadVal ct v p f) =
     (case load M ct (field_addr M E p f) of None \<Rightarrow> None | Some w \<Rightarrow> Some (E(v \<mapsto> ([], w))))"
| "exec_stmt M E (Canary ct v p f) =
     Some (E(v \<mapsto> ([], case load M ct (field_addr M E p f) of None \<Rightarrow> 0 | Some w \<Rightarrow> w)))"

fun exec :: "machine \<Rightarrow> venv \<Rightarrow> stmt list \<Rightarrow> venv option" where
  "exec M E [] = Some E"
| "exec M E (c # cs) = Option.bind (exec_stmt M E c) (\<lambda>E. exec M E cs)"

fun cexp_val :: "machine \<Rightarrow> venv \<Rightarrow> cexp \<Rightarrow> word64" where
  "cexp_val M E (EArg n) = m_arg M n"
| "cexp_val M E (EVar v) = var_val E v"

text \<open>
  A C integer constant: a leading zero makes it octal, a minus negates it, and it is compared with the 64-bit
  unsigned value after conversion to that type. \<open>None\<close> is a constant the compiler refuses.
\<close>

definition c_literal :: "string \<Rightarrow> int option" where
  "c_literal s =
     (let (sg, d) = unsign s in
      Option.bind (base_digits (if is_prefix ''0'' d then 8 else 10) 0 False d) (\<lambda>n.
        if n < 2 ^ 64 then Some (sg * n) else None))"

definition literal_word :: "string \<Rightarrow> word64" where
  "literal_word s = (case c_literal s of None \<Rightarrow> 0 | Some i \<Rightarrow> word_of_int i)"

definition compare :: "string \<Rightarrow> word64 \<Rightarrow> word64 \<Rightarrow> bool" where
  "compare op x y =
     (if op = ''=='' then x = y else if op = ''!='' then x \<noteq> y else if op = ''<='' then x \<le> y
      else if op = ''>='' then x \<ge> y else if op = ''<'' then x < y else x > y)"

definition connect :: "bool \<Rightarrow> bool list \<Rightarrow> bool" where
  "connect any_of bs = (if any_of then list_ex (\<lambda>b. b) bs else list_all (\<lambda>b. b) bs)"

definition cond_val :: "machine \<Rightarrow> venv \<Rightarrow> cond \<Rightarrow> bool" where
  "cond_val M E c =
     (case c of (any_of, ts) \<Rightarrow>
        connect any_of (map (\<lambda>(e, op, n). compare op (cexp_val M E e) (literal_word n)) ts))"

fun ret_val :: "machine \<Rightarrow> venv \<Rightarrow> ret \<Rightarrow> word64" where
  "ret_val M E (RetShield c) = (if cond_val M E c then 1 else 0)"
| "ret_val M E (RetCount (Some c)) = (if cond_val M E c then 1 else 0)"
| "ret_val M E (RetCount None) = 1"
| "ret_val M E (RetVal (Some c) e) = (if cond_val M E c then cexp_val M E e else 0)"
| "ret_val M E (RetVal None e) = cexp_val M E e"

definition run_program :: "machine \<Rightarrow> program \<Rightarrow> word64" where
  "run_program M p =
     (case exec M Map.empty (concat (tp_code p)) of None \<Rightarrow> 0 | Some E \<Rightarrow> ret_val M E (tp_ret p))"

section \<open>The meaning of an expression\<close>

text \<open>
  What a resolved value is on a machine, without any program: an argument, the field at an argument's address,
  or the end of a walk that stops at a null or unreadable hop.
\<close>

fun follow :: "machine \<Rightarrow> word64 \<Rightarrow> hop list \<Rightarrow> word64 option" where
  "follow M a [] = None"
| "follow M a ((s, f, kind, extra) # hops) =
     (if a = 0 then None
      else case kind of
        Ptr \<Rightarrow> Option.bind (load M ''__u64'' (a + m_offset M s f)) (\<lambda>w. if w = 0 then None else follow M w hops)
      | Embedded \<Rightarrow> follow M (a + m_offset M s f) hops
      | ScalarHop \<Rightarrow> load M extra (a + m_offset M s f))"

fun value_at :: "machine \<Rightarrow> rvalue \<Rightarrow> word64 option" where
  "value_at M (RScalar n) = Some (m_arg M n)"
| "value_at M (RChain n hops) = follow M (m_arg M n) hops"
| "value_at M (RField s n f ty) =
     (case ctype_of ty of Inl _ \<Rightarrow> None | Inr ct \<Rightarrow> load M ct (m_arg M n + m_offset M s f))"

type_synonym rterm = "rvalue \<times> string \<times> string"

definition resolve_term :: "string option \<Rightarrow> jval \<Rightarrow> string \<Rightarrow> string \<Rightarrow> rterm option" where
  "resolve_term file types hook t =
     Option.bind (match_pred t) (\<lambda>(lhs, op, n).
       case resolve_value file types hook (strip lhs) of Inl _ \<Rightarrow> None | Inr v \<Rightarrow> Some (v, op, n))"

definition term_holds :: "machine \<Rightarrow> rterm \<Rightarrow> bool" where
  "term_holds M t =
     (case t of (v, op, n) \<Rightarrow>
        (case value_at M v of None \<Rightarrow> False | Some w \<Rightarrow> compare op w (literal_word n)))"

text \<open>
  The predicate declines as a whole where one of its values cannot be read; otherwise it is the conjunction,
  or for \<^verbatim>\<open>||\<close> the disjunction, of its terms. No predicate always holds.
\<close>

definition readable :: "machine \<Rightarrow> rterm list \<Rightarrow> bool" where
  "readable M ts = list_all (\<lambda>t. value_at M (fst t) \<noteq> None) ts"

definition pred_holds :: "machine \<Rightarrow> string \<Rightarrow> rterm list \<Rightarrow> bool" where
  "pred_holds M pr ts = (readable M ts \<and> (pr = [] \<or> connect (contains ''||'' pr) (map (term_holds M) ts)))"

definition value_token :: "string \<Rightarrow> string" where
  "value_token act = (case match_hist act of Some t \<Rightarrow> t | None \<Rightarrow> act)"

definition meaning :: "machine \<Rightarrow> string option \<Rightarrow> jval \<Rightarrow> string \<Rightarrow> string \<Rightarrow> string \<Rightarrow> rterm list \<Rightarrow> word64" where
  "meaning M file types hook pr act ts =
     (if \<not> pred_holds M pr ts then 0
      else if match_count act \<or> match_shield act \<noteq> None then 1
      else case resolve_value file types hook (value_token act) of
        Inl _ \<Rightarrow> 0
      | Inr v \<Rightarrow> (case value_at M v of None \<Rightarrow> 0 | Some w \<Rightarrow> w))"

section \<open>Generated code computes the meaning\<close>

definition exec_read :: "machine \<Rightarrow> venv \<Rightarrow> nat \<Rightarrow> stmt list \<Rightarrow> cexp \<Rightarrow> word64 option \<Rightarrow> bool" where
  "exec_read M E k ls ex r =
     (case r of
        None \<Rightarrow> exec M E ls = None
      | Some w \<Rightarrow> \<exists>E'. exec M E ls = Some E' \<and> cexp_val M E' ex = w \<and> (\<forall>v. v \<notin> owned k \<longrightarrow> E' v = E v))"

lemma exec_append: "exec M E (xs @ ys) = Option.bind (exec M E xs) (\<lambda>E. exec M E ys)"
  by (induction xs arbitrary: E) (auto split: Option.bind_splits)

lemma exec_read_step:
  assumes "exec M E pre = Some E1" "\<forall>v. v \<notin> owned k \<longrightarrow> E1 v = E v" "exec_read M E1 k ls ex r"
  shows "exec_read M E k (pre @ ls) ex r"
  using assms by (cases r) (auto simp: exec_read_def exec_append)

lemma exec_read_stop: "exec M E ls = None \<Longrightarrow> exec_read M E k ls ex None"
  by (simp add: exec_read_def)

lemma var_val_upd [simp]: "var_val (E(v \<mapsto> (s, w))) u = (if u = v then w else var_val E u)"
  by (simp add: var_val_def)

lemma field_addr_upd [simp]:
  "field_addr M (E(p \<mapsto> (s, a))) q f = (if q = p then a + m_offset M s f else field_addr M E q f)"
  by (simp add: field_addr_def)

lemma read_hops_exec:
  "read_hops k h e hops (sf, []) = Inr (sf', ls, ex) \<Longrightarrow>
   exec_read M E k ls ex (follow M (src_val M E e) hops)"
proof (induction hops arbitrary: h e sf ls E)
  case (Cons hop hops)
  obtain s f kind extra where hop: "hop = (s, f, kind, extra)" by (cases hop) auto
  let ?pv = "var2 (CHR ''p'') k h" and ?hv = "var2 (CHR ''h'') k h"
  define a where "a = src_val M E e"
  define E1 where "E1 = E(?pv \<mapsto> (s, a))"
  show ?case
  proof (cases "a = 0")
    case True
    from Cons.prems [unfolded hop] have "exec M E ls = None"
      by (cases rule: read_hops_cases) (simp_all add: a_def [symmetric] True)
    with True show ?thesis by (simp add: hop a_def [symmetric] exec_read_def)
  next
    case False
    from Cons.prems [unfolded hop] show ?thesis
    proof (cases rule: read_hops_cases)
      case (ptr sf1 ls2)
      show ?thesis
      proof (cases "load M ''__u64'' (a + m_offset M s f)")
        case None
        with False show ?thesis by (simp add: ptr hop a_def [symmetric] exec_read_def)
      next
        case (Some w)
        show ?thesis
        proof (cases "w = 0")
          case True
          with Some False show ?thesis by (simp add: ptr hop a_def [symmetric] exec_read_def)
        next
          case wn: False
          define E2 where "E2 = E1(?hv \<mapsto> ([], w))"
          have "src_val M E2 (SVar ?hv) = w" by (simp add: E2_def var_val_def)
          with Cons.IH [OF ptr(3), of E2] have "exec_read M E2 k ls2 ex (follow M w hops)" by metis
          then have "exec_read M E k ([Point s ?pv e, NullCheck ?pv, ReadHop ?hv ?pv f] @ ls2) ex (follow M w hops)"
            by (rule exec_read_step [rotated 2])
              (use False wn Some in \<open>auto simp: a_def [symmetric] E1_def E2_def\<close>)
          then show ?thesis using Some wn False by (simp add: ptr hop a_def [symmetric])
        qed
      qed
    next
      case (embedded sf1 ls2)
      have "src_val M E1 (SAddr ?pv f) = a + m_offset M s f" by (simp add: E1_def field_addr_def)
      with Cons.IH [OF embedded(3), of E1] have "exec_read M E1 k ls2 ex (follow M (a + m_offset M s f) hops)"
        by metis
      then have "exec_read M E k ([Point s ?pv e, NullCheck ?pv] @ ls2) ex (follow M (a + m_offset M s f) hops)"
        by (rule exec_read_step [rotated 2]) (use False in \<open>auto simp: a_def [symmetric] E1_def\<close>)
      then show ?thesis using False by (simp add: embedded hop a_def [symmetric])
    next
      case scalar
      with False show ?thesis
        by (auto simp: hop a_def [symmetric] exec_read_def split: option.split)
    qed
  qed
qed simp

lemma read_value_exec:
  "read_value v k sf = Inr (sf', ls, ex) \<Longrightarrow> exec_read M E k ls ex (value_at M v)"
proof (cases v)
  case (RChain n hops)
  assume "read_value v k sf = Inr (sf', ls, ex)"
  with RChain read_hops_exec [of k 0 "SArg n" hops sf sf' ls ex M E] show ?thesis by simp
qed (auto simp: exec_read_def err_simps Let_def split: option.split)

text \<open>The values a generator state has taken so far, and the expressions that hold them.\<close>

definition exp_below :: "nat \<Rightarrow> cexp \<Rightarrow> bool" where
  "exp_below k e = (case e of EArg n \<Rightarrow> True | EVar v \<Rightarrow> v \<in> below k)"

definition taken :: "machine \<Rightarrow> gen \<Rightarrow> cexp list \<Rightarrow> rvalue list \<Rightarrow> bool" where
  "taken M g es vs =
     (list_all (exp_below (g_k g)) es \<and>
      (case those (map (value_at M) vs) of
         None \<Rightarrow> exec M Map.empty (concat (g_code g)) = None
       | Some ws \<Rightarrow> \<exists>E. exec M Map.empty (concat (g_code g)) = Some E \<and> map (cexp_val M E) es = ws))"

lemma those_snoc: "those (xs @ [x]) = Option.bind (those xs) (\<lambda>ys. map_option (\<lambda>y. ys @ [y]) x)"
  by (induction xs) (auto simp: option.map_comp comp_def map_option_case split: option.splits)

lemma cexp_val_frame:
  "exp_below k e \<Longrightarrow> (\<And>v. v \<notin> owned k \<Longrightarrow> E' v = E v) \<Longrightarrow> cexp_val M E' e = cexp_val M E e"
proof (cases e)
  case (EVar v)
  assume "exp_below k e" "\<And>v. v \<notin> owned k \<Longrightarrow> E' v = E v"
  moreover from this EVar below_disjoint [of k] have "v \<notin> owned k" by (auto simp: exp_below_def)
  ultimately show ?thesis using EVar by (simp add: var_val_def)
qed simp

lemma read_value_below: "read_value v k sf = Inr (sf', ls, ex) \<Longrightarrow> exp_below (Suc k) ex"
proof -
  have hops: "read_hops k h e hops (sf, []) = Inr (sf', ls, ex) \<Longrightarrow> exp_below (Suc k) ex" for h e hops sf ls
  proof (induction hops arbitrary: h e sf ls)
    case (Cons hop hops)
    obtain s f kind extra where hop: "hop = (s, f, kind, extra)" by (cases hop) auto
    from Cons.prems [unfolded hop] show ?case
      by (cases rule: read_hops_cases) (auto simp: exp_below_def below_Suc dest: Cons.IH)
  qed simp
  assume "read_value v k sf = Inr (sf', ls, ex)"
  then show ?thesis
    by (cases v) (auto simp: exp_below_def below_Suc err_simps Let_def dest: hops)
qed

lemma exp_below_mono: "exp_below k e \<Longrightarrow> exp_below (Suc k) e"
  by (cases e) (auto simp: exp_below_def below_Suc)

lemma take_tok_taken:
  assumes "take_tok file types hook g tok = Inr (g', ex)" "taken M g es vs"
  obtains v where "resolve_value file types hook tok = Inr v" "taken M g' (es @ [ex]) (vs @ [v])"
proof -
  from assms(1) obtain v sf cd where v: "resolve_value file types hook tok = Inr v"
      "read_value v (g_k g) (g_sfields g) = Inr (sf, cd, ex)"
      "g' = \<lparr>g_sfields = sf, g_code = (if cd = [] then g_code g else g_code g @ [cd]), g_k = g_k g + 1\<rparr>"
    by (auto simp: take_tok_def err_simps)
  have code: "concat (g_code g') = concat (g_code g) @ cd" by (simp add: v(3))
  have bel: "list_all (exp_below (g_k g')) (es @ [ex])"
    using assms(2) read_value_below [OF v(2)] by (auto simp: taken_def v(3) list_all_iff intro: exp_below_mono)
  show thesis
  proof (cases "those (map (value_at M) vs)")
    case None
    with assms(2) bel have "taken M g' (es @ [ex]) (vs @ [v])"
      by (simp add: taken_def code exec_append those_snoc)
    with v(1) that show thesis by blast
  next
    case (Some ws)
    with assms(2) obtain E where E: "exec M Map.empty (concat (g_code g)) = Some E" "map (cexp_val M E) es = ws"
      and eb: "list_all (exp_below (g_k g)) es" by (auto simp: taken_def)
    note r = read_value_exec [OF v(2), of M E]
    have "taken M g' (es @ [ex]) (vs @ [v])"
    proof (cases "value_at M v")
      case None
      with r E Some bel show ?thesis by (simp add: taken_def code exec_append those_snoc exec_read_def)
    next
      case w: (Some w)
      with r obtain E' where E': "exec M E cd = Some E'" "cexp_val M E' ex = w" "\<And>u. u \<notin> owned (g_k g) \<Longrightarrow> E' u = E u"
        by (auto simp: exec_read_def)
      have "map (cexp_val M E') es = ws"
        using E(2) eb by (auto simp: list_all_iff intro!: cexp_val_frame [OF _ E'(3)])
      with E(1) E' Some w bel show ?thesis by (simp add: taken_def code exec_append those_snoc)
    qed
    with v(1) that show thesis by blast
  qed
qed

definition resolved_terms :: "string option \<Rightarrow> jval \<Rightarrow> string \<Rightarrow> string \<Rightarrow> rterm list option" where
  "resolved_terms file types hook pr = those (map (resolve_term file types hook) (if pr = [] then [] else pred_terms pr))"

lemma terms_taken:
  "efold (term_step file types hook) (g, parts) ts = Inr (g', parts') \<Longrightarrow> taken M g (map fst parts) vs \<Longrightarrow>
   \<exists>rts. those (map (resolve_term file types hook) ts) = Some rts \<and> map snd parts' = map snd parts @ map snd rts \<and>
         taken M g' (map fst parts') (vs @ map fst rts)"
proof (induction ts arbitrary: g parts vs)
  case Nil
  then show ?case by simp
next
  case (Cons t ts)
  from Cons.prems(1) obtain lhs op n g1 ex where m: "match_pred t = Some (lhs, op, n)"
      and t: "take_tok file types hook g (strip lhs) = Inr (g1, ex)"
      and e: "efold (term_step file types hook) (g1, parts @ [(ex, op, n)]) ts = Inr (g', parts')"
    by (auto simp: err_simps elim: term_step_Inr)
  from take_tok_taken [OF t Cons.prems(2)] obtain v where v: "resolve_value file types hook (strip lhs) = Inr v"
      "taken M g1 (map fst parts @ [ex]) (vs @ [v])" by blast
  from Cons.IH [OF e, of "vs @ [v]"] v(2) obtain rts where
    "those (map (resolve_term file types hook) ts) = Some rts"
    "map snd parts' = map snd parts @ (op, n) # map snd rts" "taken M g' (map fst parts') (vs @ v # map fst rts)"
    by auto
  moreover have "resolve_term file types hook t = Some (v, op, n)" by (simp add: resolve_term_def m v(1))
  ultimately show ?case by (intro exI [of _ "(v, op, n) # rts"]) simp
qed

lemma taken_gen0: "taken M gen0 [] []"
  by (simp add: taken_def gen0_def)

definition cond_parts :: "cond option \<Rightarrow> cterm list" where
  "cond_parts c = (case c of None \<Rightarrow> [] | Some (_, ts) \<Rightarrow> ts)"

lemma gen_pred_taken:
  assumes "gen_pred file types hook pr = Inr (g, c)"
  obtains rts where "resolved_terms file types hook pr = Some rts" "map snd (cond_parts c) = map snd rts"
    "taken M g (map fst (cond_parts c)) (map fst rts)"
    "c = (if pr = [] then None else Some (contains ''||'' pr, cond_parts c))"
proof (cases "pr = []")
  case True
  with assms taken_gen0 [of M] that [of "[]"] show thesis
    by (simp add: gen_pred_def cond_parts_def resolved_terms_def)
next
  case False
  with assms obtain parts where e: "efold (term_step file types hook) (gen0, []) (pred_terms pr) = Inr (g, parts)"
      "c = Some (contains ''||'' pr, parts)"
    by (auto simp: gen_pred_def Let_def err_simps split: if_splits)
  from terms_taken [OF e(1), of M "[]"] taken_gen0 obtain rts where
    "those (map (resolve_term file types hook) (pred_terms pr)) = Some rts" "map snd parts = map snd rts"
    "taken M g (map fst parts) (map fst rts)" by auto
  with e(2) False that show thesis by (simp add: cond_parts_def resolved_terms_def)
qed

lemma those_eq_Some: "those xs = Some ys \<longleftrightarrow> xs = map Some ys"
proof (induction xs arbitrary: ys)
  case (Cons x xs)
  then show ?case by (cases x; cases ys) auto
qed auto

lemma terms_agree:
  "map (value_at M) (map fst rts) = map Some (map (cexp_val M E) (map fst parts)) \<Longrightarrow> map snd parts = map snd rts \<Longrightarrow>
   map (\<lambda>(e, op, n). compare op (cexp_val M E e) (literal_word n)) parts = map (term_holds M) rts"
proof (induction rts arbitrary: parts)
  case (Cons r rts)
  then obtain q qs where parts: "parts = q # qs" by (cases parts) auto
  with Cons show ?case by (auto simp: term_holds_def split: prod.splits)
qed simp

text \<open>What the return statement sees: the predicate of the meaning, on the values the code has read.\<close>

definition cond_holds :: "machine \<Rightarrow> venv \<Rightarrow> cond option \<Rightarrow> bool" where
  "cond_holds M E c = (case c of None \<Rightarrow> True | Some c \<Rightarrow> cond_val M E c)"

lemma taken_cond:
  assumes "map (value_at M) (map fst rts) = map Some (map (cexp_val M E) (map fst (cond_parts c)))"
    and "map snd (cond_parts c) = map snd rts" "c = (if pr = [] then None else Some (contains ''||'' pr, cond_parts c))"
  shows "cond_holds M E c = pred_holds M pr rts"
proof -
  have "None \<notin> set (map (value_at M) (map fst rts))" unfolding assms(1) by auto
  then have "readable M rts" by (force simp: readable_def list_all_iff)
  show ?thesis
  proof (cases "pr = []")
    case True
    then have "c = None" using assms(3) by simp
    with True \<open>readable M rts\<close> show ?thesis by (simp add: cond_holds_def pred_holds_def)
  next
    case False
    then have "cond_holds M E c = cond_val M E (contains ''||'' pr, cond_parts c)"
      using assms(3) by (metis cond_holds_def option.case(2))
    with False \<open>readable M rts\<close> terms_agree [OF assms(1,2)] show ?thesis
      by (simp add: cond_val_def pred_holds_def)
  qed
qed

lemma unreadable: "those (map (value_at M) (map fst rts)) = None \<Longrightarrow> \<not> pred_holds M pr rts"
proof
  assume n: "those (map (value_at M) (map fst rts)) = None" and "pred_holds M pr rts"
  then have "\<forall>t \<in> set rts. value_at M (fst t) \<noteq> None" by (simp add: pred_holds_def readable_def list_all_iff)
  then have "map (value_at M) (map fst rts) = map Some (map (\<lambda>t. the (value_at M (fst t))) rts)" by simp
  with n those_eq_Some show False by (metis option.distinct(1))
qed

text \<open>The canary reads without gating, so what was taken stays taken.\<close>

lemma canary_vars: "''pc'' \<notin> below k" "''vc'' \<notin> below k"
proof -
  have "hd (str_nat n) \<noteq> CHR ''c''" for n
    using str_nat_digits [of n] str_nat_nonempty [of n] hd_in_set by (fastforce simp: is_digit_def)
  then have "str_nat n @ x \<noteq> ''c''" for n x
    using str_nat_nonempty [of n] by (metis hd_append2 list.sel(1))
  from this [of _ "[]"] this show "''pc'' \<notin> below k" "''vc'' \<notin> below k"
    by (auto simp: below_def owned_def var1_def var2_def dest: sym)
qed

lemma add_canary_exec:
  assumes "add_canary file types hook g = Inr g'" "taken M g es vs"
  shows "taken M g' es vs"
  using assms(1)
proof (cases rule: add_canary_cases)
  case (canary sf i s f ct)
  have "cexp_val M (Map.empty(''pc'' \<mapsto> x, ''vc'' \<mapsto> y)) e = cexp_val M Map.empty e" if "exp_below (g_k g) e" for x y e
    using that canary_vars [of "g_k g"] by (cases e) (auto simp: exp_below_def var_val_def)
  with assms(2) canary(1,4) show ?thesis by (auto simp: taken_def list_all_iff split: option.splits)
qed (use assms(2) in simp)

definition result_of :: "machine \<Rightarrow> gen \<Rightarrow> ret \<Rightarrow> word64" where
  "result_of M g r = (case exec M Map.empty (concat (g_code g)) of None \<Rightarrow> 0 | Some E \<Rightarrow> ret_val M E r)"

lemma ret_val_gate: "ret_val M E (RetCount c) = (if cond_holds M E c then 1 else 0)"
  "ret_val M E (RetVal c e) = (if cond_holds M E c then cexp_val M E e else 0)"
  "c \<noteq> None \<Longrightarrow> ret_val M E (RetShield (the c)) = (if cond_holds M E c then 1 else 0)"
  by (cases c; simp add: cond_holds_def)+

lemma gate_meaning:
  assumes "taken M g (map fst (cond_parts c)) (map fst rts)" "map snd (cond_parts c) = map snd rts"
    and "c = (if pr = [] then None else Some (contains ''||'' pr, cond_parts c))"
    and "match_count act \<or> match_shield act \<noteq> None" "r = RetCount c \<or> c \<noteq> None \<and> r = RetShield (the c)"
  shows "result_of M g r = meaning M file types hook pr act rts"
proof (cases "those (map (value_at M) (map fst rts))")
  case None
  with assms(1) unreadable [OF None] show ?thesis by (simp add: taken_def result_of_def meaning_def)
next
  case (Some ws)
  with assms(1) obtain E where E: "exec M Map.empty (concat (g_code g)) = Some E"
      "map (cexp_val M E) (map fst (cond_parts c)) = ws" by (auto simp: taken_def)
  from Some E(2) have "map (value_at M) (map fst rts) = map Some (map (cexp_val M E) (map fst (cond_parts c)))"
    by (simp only: those_eq_Some)
  note E = E(1) this
  have "ret_val M E r = (if cond_holds M E c then 1 else 0)" using assms(5) ret_val_gate(1,3) by metis
  with taken_cond [OF E(2) assms(2,3)] E(1) assms(4) show ?thesis
    by (auto simp: result_of_def meaning_def)
qed

lemma value_meaning:
  assumes "taken M g (map fst (cond_parts c) @ [ex]) (map fst rts @ [v])" "map snd (cond_parts c) = map snd rts"
    and "c = (if pr = [] then None else Some (contains ''||'' pr, cond_parts c))"
    and "\<not> (match_count act \<or> match_shield act \<noteq> None)" "resolve_value file types hook (value_token act) = Inr v"
  shows "result_of M g (RetVal c ex) = meaning M file types hook pr act rts"
proof (cases "those (map (value_at M) (map fst rts))")
  case None
  with assms(1) unreadable [OF None] show ?thesis by (simp add: taken_def result_of_def meaning_def those_snoc)
next
  case (Some ws)
  show ?thesis
  proof (cases "value_at M v")
    case None
    with Some assms(1,4,5) show ?thesis by (simp add: taken_def result_of_def meaning_def those_snoc)
  next
    case w: (Some w)
    with Some assms(1) obtain E where E: "exec M Map.empty (concat (g_code g)) = Some E" "cexp_val M E ex = w"
        "map (cexp_val M E) (map fst (cond_parts c)) = ws"
      by (auto simp: taken_def those_snoc)
    from Some E(3) have "map (value_at M) (map fst rts) = map Some (map (cexp_val M E) (map fst (cond_parts c)))"
      by (simp only: those_eq_Some)
    from taken_cond [OF this assms(2,3)] E(1,2) w assms(4,5) show ?thesis
      by (simp add: result_of_def meaning_def ret_val_gate)
  qed
qed

lemma gen_action_meaning:
  assumes "gen_action file types hook act (g, c) = Inr (g', r)"
    and "taken M g (map fst (cond_parts c)) (map fst rts)" "map snd (cond_parts c) = map snd rts"
    and "c = (if pr = [] then None else Some (contains ''||'' pr, cond_parts c))"
  shows "result_of M g' r = meaning M file types hook pr act rts"
proof (cases "match_count act \<or> match_shield act \<noteq> None")
  case True
  with assms(1) have "add_canary file types hook g = Inr g'" and r: "r = RetCount c \<or> c \<noteq> None \<and> r = RetShield (the c)"
    by (auto simp: gen_action_def Let_def err_simps split: if_splits option.splits bool.splits)
  from add_canary_exec [OF this(1) assms(2)] show ?thesis by (rule gate_meaning [OF _ assms(3,4) True r])
next
  case False
  with assms(1) obtain ex where t: "take_tok file types hook g (value_token act) = Inr (g', ex)" "r = RetVal c ex"
    by (auto simp: gen_action_def Let_def err_simps value_token_def)
  from take_tok_taken [OF t(1) assms(2)] obtain v where v: "resolve_value file types hook (value_token act) = Inr v"
      "taken M g' (map fst (cond_parts c) @ [ex]) (map fst rts @ [v])" by blast
  show ?thesis unfolding t(2) by (rule value_meaning [OF v(2) assms(3,4) False v(1)])
qed

lemma compile_meaning:
  assumes "compile file types e = Inr p"
  obtains sec hook pr act ts where "parse_expr e = Inr (sec, hook, pr, act)"
    "resolved_terms file types hook pr = Some ts" "\<And>M. run_program M p = meaning M file types hook pr act ts"
proof -
  from assms obtain sec hook pr act g0 c g r emitted where p: "parse_expr e = Inr (sec, hook, pr, act)"
    "gen_pred file types hook pr = Inr (g0, c)" "gen_action file types hook act (g0, c) = Inr (g, r)"
    "tp_code p = g_code g" "tp_ret p = r"
    by (rule compile_parts)
  obtain ts where ts: "resolved_terms file types hook pr = Some ts"
    using gen_pred_taken [OF p(2)] by blast
  have "run_program M p = meaning M file types hook pr act ts" for M
  proof -
    from gen_pred_taken [OF p(2), of M] obtain rts where r: "resolved_terms file types hook pr = Some rts"
      "map snd (cond_parts c) = map snd rts" "taken M g0 (map fst (cond_parts c)) (map fst rts)"
      "c = (if pr = [] then None else Some (contains ''||'' pr, cond_parts c))" by blast
    from r(1) ts have "rts = ts" by simp
    with gen_action_meaning [OF p(3) r(3,2,4)] show ?thesis
      by (simp only: run_program_def result_of_def p(4,5))
  qed
  with p(1) ts that show thesis by blast
qed

section \<open>The declarations are complete\<close>

definition closed :: "sfields \<Rightarrow> bool" where
  "closed sf = (\<forall>s \<in> fst ` set sf. deps sf s \<subseteq> fst ` set sf)"

lemma set_update_subset: "set (AList.update k v xs) \<subseteq> insert (k, v) (set xs)"
  by (induction xs) auto

lemma reg_keys:
  assumes "reg sf s f ct = Inr sf'"
  shows "fst ` set sf' = insert s (fst ` set sf)"
    "deps sf' t \<subseteq> deps sf t \<union> (if t = s then {d. embedded_name ct = Some d} else {})"
proof -
  from assms have sf': "sf' = AList.update s (AList.update f ct (fields_of sf s)) sf"
    by (auto simp: reg_def Let_def fields_of_def split: if_splits option.splits)
  show "fst ` set sf' = insert s (fst ` set sf)" by (simp add: sf' dom_update)
  have "fields_of sf' t = (if t = s then AList.update f ct (fields_of sf s) else fields_of sf t)"
    by (simp add: fields_of_def sf' update_conv')
  then show "deps sf' t \<subseteq> deps sf t \<union> (if t = s then {d. embedded_name ct = Some d} else {})"
    using set_update_subset [of f ct "fields_of sf s"] by (auto simp: deps_def)
qed

lemma embedded_name_simps [simp]: "embedded_name (''struct '' @ x) = Some x" "embedded_name ''__u64'' = None"
  by (simp_all add: embedded_name_def lits_def is_prefix_iff)

lemma int_types_scalar: "ct \<in> int_types \<Longrightarrow> embedded_name ct = None"
  by (auto simp: int_types_def CTYPE_def embedded_name_def lits_def)

text \<open>Closed but for one struct that the next hop registers.\<close>

definition closed_but :: "string set \<Rightarrow> sfields \<Rightarrow> bool" where
  "closed_but D sf = (\<forall>s \<in> fst ` set sf. deps sf s \<subseteq> fst ` set sf \<union> D)"

lemma closed_but_empty: "closed_but {} sf = closed sf"
  by (simp add: closed_but_def closed_def)

lemma closed_but_reg:
  assumes "closed_but {s} sf" "reg sf s f ct = Inr sf'" "{d. embedded_name ct = Some d} \<subseteq> D"
  shows "closed_but D sf'"
proof -
  have "deps sf s \<subseteq> insert s (fst ` set sf)"
  proof (cases "s \<in> fst ` set sf")
    case True
    with assms(1) show ?thesis unfolding closed_but_def by blast
  next
    case False
    then have "map_of sf s = None" by (simp add: map_of_eq_None_iff)
    then show ?thesis by (simp add: deps_def fields_of_def)
  qed
  note own = this
  show ?thesis
    unfolding closed_but_def reg_keys(1) [OF assms(2)]
  proof
    fix t assume t: "t \<in> insert s (fst ` set sf)"
    have "deps sf t \<subseteq> insert s (fst ` set sf)"
      using own assms(1) t unfolding closed_but_def by blast
    with reg_keys(2) [OF assms(2), of t] assms(3)
    show "deps sf' t \<subseteq> insert s (fst ` set sf) \<union> D" by (cases "t = s") auto
  qed
qed

lemma read_hops_closed:
  "read_hops k h e hops (sf, []) = Inr (sf', ls, ex) \<Longrightarrow> hops_ok hops \<Longrightarrow> closed_but {fst (hd hops)} sf \<Longrightarrow> closed sf'"
proof (induction hops arbitrary: h e sf ls)
  case (Cons hop hops)
  obtain s f kind extra where hop: "hop = (s, f, kind, extra)" by (cases hop) auto
  have c: "closed_but {s} sf" using Cons.prems(3) by (simp add: hop)
  from Cons.prems(1) [unfolded hop] show ?case
  proof (cases rule: read_hops_cases)
    case (ptr sf1 ls2)
    have ok: "hops_ok hops" using Cons.prems(2) ptr(1) by (cases hops) (auto simp: hop)
    show ?thesis
      by (rule Cons.IH [OF ptr(3) ok]) (rule closed_but_reg [OF c ptr(2)], simp)
  next
    case (embedded sf1 ls2)
    have ok: "hops_ok hops" "fst (hd hops) = extra"
      using Cons.prems(2) embedded(1) by (cases hops; auto simp: hop)+
    show ?thesis
      by (rule Cons.IH [OF embedded(3) ok(1)]) (rule closed_but_reg [OF c embedded(2)], unfold embedded_name_simps ok(2), blast)
  next
    case scalar
    have "extra \<in> int_types" using Cons.prems(2) scalar(1) by (cases hops) (auto simp: hop)
    with closed_but_reg [OF c scalar(2), of "{}"] show ?thesis
      by (simp add: int_types_scalar closed_but_empty)
  qed
qed simp

lemma closed_reg:
  assumes "closed sf" "reg sf s f ct = Inr sf'" "ct \<in> int_types"
  shows "closed sf'"
proof -
  have "closed_but {s} sf" using assms(1) unfolding closed_def closed_but_def by blast
  from closed_but_reg [OF this assms(2), of "{}"] assms(3) show ?thesis
    by (simp add: int_types_scalar closed_but_empty)
qed

lemma take_tok_closed:
  assumes "take_tok file types hook g tok = Inr (g', ex)" "closed (g_sfields g)"
  shows "closed (g_sfields g')"
proof -
  from assms(1) obtain v sf cd where v: "resolve_value file types hook tok = Inr v"
      "read_value v (g_k g) (g_sfields g) = Inr (sf, cd, ex)" "g_sfields g' = sf"
    by (auto simp: take_tok_def err_simps)
  have ok: "value_ok v" by (rule resolve_value_ok [OF v(1)])
  show ?thesis
  proof (cases v)
    case (RScalar n)
    with v assms(2) show ?thesis by simp
  next
    case (RField s n f ty)
    with v(2) obtain ct where "ctype_of ty = Inr ct" "reg (g_sfields g) s f ct = Inr sf"
      by (auto simp: err_simps Let_def)
    with v(3) closed_reg [OF assms(2)] ctype_of_int show ?thesis by blast
  next
    case (RChain n hops)
    have "closed_but {fst (hd hops)} (g_sfields g)"
      using assms(2) unfolding closed_def closed_but_def by blast
    with v(2,3) ok RChain show ?thesis by (auto intro: read_hops_closed)
  qed
qed

lemma gen_pred_closed:
  assumes "gen_pred file types hook pr = Inr (g, c)"
  shows "closed (g_sfields g)"
proof (cases "pr = []")
  case True
  with assms show ?thesis by (auto simp: gen_pred_def gen0_def closed_def)
next
  case False
  with assms obtain parts where e: "efold (term_step file types hook) (gen0, []) (pred_terms pr) = Inr (g, parts)"
    by (auto simp: gen_pred_def Let_def err_simps split: if_splits)
  have "closed (g_sfields (fst (g, parts)))"
  proof (rule efold_invariant [OF e])
    show "closed (g_sfields (fst (gen0, [])))" by (simp add: gen0_def closed_def)
  next
    fix st t st' assume "closed (g_sfields (fst st))" "term_step file types hook st t = Inr st'"
    then show "closed (g_sfields (fst st'))"
      by (cases st) (auto elim!: term_step_Inr intro: take_tok_closed)
  qed
  then show ?thesis by simp
qed

lemma gen_action_closed:
  assumes "gen_action file types hook act (g, c) = Inr (g', r)" "closed (g_sfields g)"
  shows "closed (g_sfields g')"
proof (cases "match_count act \<or> match_shield act \<noteq> None")
  case True
  with assms(1) have "add_canary file types hook g = Inr g'"
    by (auto simp: gen_action_def Let_def err_simps split: if_splits)
  then show ?thesis
    by (cases rule: add_canary_cases) (use assms(2) closed_reg in auto)
next
  case False
  with assms show ?thesis by (auto simp: gen_action_def Let_def err_simps intro: take_tok_closed)
qed

lemma compile_total:
  assumes "parse_expr e = Inr (sec, hook, pr, act)" "gen_pred file types hook pr = Inr gc"
    and "gen_action file types hook act gc = Inr (g, r)"
    and "\<And>s d. s \<in> fst ` set (g_sfields g) \<Longrightarrow> d \<in> deps (g_sfields g) s \<Longrightarrow> rank d < (rank s :: nat)"
  shows "\<exists>p. compile file types e = Inr p \<and> well_typed p"
proof -
  obtain g0 c where gc: "gc = (g0, c)" by (cases gc) auto
  have "closed (g_sfields g)"
    using gen_action_closed [OF assms(3) [unfolded gc] gen_pred_closed [OF assms(2) [unfolded gc]]] .
  with assms(4) have "ranked (g_sfields g) rank" unfolding ranked_def closed_def by blast
  then obtain structs emitted where "emit_all (g_sfields g) = Inr (structs, emitted)"
    using emit_all_total by fastforce
  with assms(1-3) obtain p where "compile file types e = Inr p" by (auto simp: compile_def gc)
  with compile_well_typed show ?thesis by blast
qed

section \<open>Properties\<close>

text \<open>
  A struct argument whose connection state holds a pointer to a record with an embedded record of keys, and an
  expression that shields on a size three hops away and on a state field.
\<close>

definition sample_doc :: jval where
  "sample_doc = JObj
     [(''conn'', JObj [(''state'', JStr ''u32'')]), (''tls'', JObj [(''curve'', JStr ''u16'')]),
      (''keys'', JObj [(''sz'', JStr ''u32'')]),
      (''__ptr_targets__'', JObj [(''conn'', JObj [(''tls'', JStr ''tls'')])]),
      (''__embedded__'', JObj [(''tls'', JObj [(''keys'', JStr ''keys'')])])]"

definition sample_sigs :: "string option" where
  "sample_sigs = Some (tabbed [''ssl_compute'', ''2'', ''c:blob:struct conn *|n:scalar:int''])"

definition sample_pred :: string where
  "sample_pred = ''args.tls.keys.sz > 4096 && args.state == 3''"

definition sample_expr :: string where
  "sample_expr = ''fentry/ssl_compute /'' @ sample_pred @ ''/ { shield(0) }''"

definition sample_gen :: gen where
  "sample_gen =
     \<lparr>g_sfields =
        [(''conn'', [(''tls'', ''__u64''), (''state'', ''__u32'')]), (''tls'', [(''keys'', ''struct keys'')]),
         (''keys'', [(''sz'', ''__u32'')])],
      g_code =
        [[Point ''conn'' ''p0_0'' (SArg 0), NullCheck ''p0_0'', ReadHop ''h0_0'' ''p0_0'' ''tls'',
          Point ''tls'' ''p0_1'' (SVar ''h0_0''), NullCheck ''p0_1'',
          Point ''keys'' ''p0_2'' (SAddr ''p0_1'' ''keys''), NullCheck ''p0_2'',
          ReadVal ''__u32'' ''v0'' ''p0_2'' ''sz''],
         [PointArg ''conn'' ''p1'' 0, ReadVal ''__u32'' ''v1'' ''p1'' ''state'']],
      g_k = 2\<rparr>"

definition sample_cond :: cond where
  "sample_cond = (False, [(EVar ''v0'', ''>'', ''4096''), (EVar ''v1'', ''=='', ''3'')])"

lemma sample_parsed_expr: "parse_expr sample_expr = Inr (''fentry'', ''ssl_compute'', sample_pred, ''shield(0)'')"
  by code_simp

lemma sample_gen_pred: "gen_pred sample_sigs sample_doc ''ssl_compute'' sample_pred = Inr (sample_gen, Some sample_cond)"
  by code_simp

lemma sample_gen_action:
  "gen_action sample_sigs sample_doc ''ssl_compute'' ''shield(0)'' (sample_gen, Some sample_cond) =
   Inr (sample_gen, RetShield sample_cond)"
  by code_simp

lemma sample_deps: "\<forall>s \<in> fst ` set (g_sfields sample_gen). \<forall>d \<in> deps (g_sfields sample_gen) s. d = ''keys'' \<and> s = ''tls''"
  by (auto simp: sample_gen_def deps_def fields_of_def embedded_name_def lits_def split: if_splits)

definition sample_rank :: "string \<Rightarrow> nat" where
  "sample_rank s = (if s = ''tls'' then 1 else 0)"

lemma sample_ranked:
  assumes "s \<in> fst ` set (g_sfields sample_gen)" "d \<in> deps (g_sfields sample_gen) s"
  shows "sample_rank d < sample_rank s"
proof -
  from assms sample_deps have "d = ''keys''" "s = ''tls''" by blast+
  then show ?thesis by (simp add: sample_rank_def)
qed

lemmas sample_steps = sample_parsed_expr sample_gen_pred sample_gen_action

lemma sample_compiles: "\<exists>p. compile sample_sigs sample_doc sample_expr = Inr p"
proof -
  have "\<exists>p. compile sample_sigs sample_doc sample_expr = Inr p \<and> well_typed p"
    by (rule compile_total [OF sample_steps]) (erule (1) sample_ranked)
  then show ?thesis by (elim exE conjE) (rule exI)
qed

text \<open>
  C14. Whatever expression the generator accepts, the program it writes is well typed: every variable is declared
  once and before its use, every field it reads is a declared field of the struct behind that pointer and is read
  with the field's own type, a struct held by value is declared before the struct that holds it, and each
  struct the program mentions is declared exactly once with all its registered fields.
\<close>

theorem program_well_typed:
  assumes "compile file types e = Inr p"
  shows "well_typed p"
  using assms by (rule compile_well_typed)

theorem program_well_typed_witness: "\<exists>p. compile sample_sigs sample_doc sample_expr = Inr p \<and> well_typed p"
proof -
  obtain p where p: "compile sample_sigs sample_doc sample_expr = Inr p" using sample_compiles by blast
  from program_well_typed [OF this] p show ?thesis by blast
qed

text \<open>
  C26. Code generation ends with a program whenever the values of the expression resolve and the nesting of
  embedded structs is well-founded: the walk over embedded members visits no struct twice and never meets one
  it has not registered, so the refusal of incomplete metadata cannot be reached.
\<close>

theorem codegen_terminates:
  assumes "parse_expr e = Inr (sec, hook, pr, act)" "gen_pred file types hook pr = Inr gc"
    and "gen_action file types hook act gc = Inr (g, r)"
    and "\<And>s d. s \<in> fst ` set (g_sfields g) \<Longrightarrow> d \<in> deps (g_sfields g) s \<Longrightarrow> rank d < (rank s :: nat)"
  shows "\<exists>txt fn. codegen file types e = Inr (txt, fn, sec, hook)"
proof -
  have "\<exists>p. compile file types e = Inr p \<and> well_typed p"
    by (rule compile_total [OF assms(1-3)]) (erule (1) assms(4))
  then obtain p where p: "compile file types e = Inr p" by (elim exE conjE)
  from p have "tp_section p = sec" "tp_hook p = hook" by (rule compile_parts, use assms(1) in simp)+
  with p show ?thesis by (simp add: codegen_def)
qed

theorem codegen_terminates_witness:
  "\<exists>txt fn. codegen sample_sigs sample_doc sample_expr = Inr (txt, fn, ''fentry'', ''ssl_compute'')"
  by (rule codegen_terminates [OF sample_steps]) (erule (1) sample_ranked)

text \<open>
  C13. The generated program computes the expression: on every memory it returns the value the resolved path
  leads to, or 1 for a count or shield, exactly when all the values of the predicate can be read and its terms
  hold, and 0 otherwise.
\<close>

theorem program_meaning:
  assumes "compile file types e = Inr p" "parse_expr e = Inr (sec, hook, pr, act)"
  shows "\<exists>ts. resolved_terms file types hook pr = Some ts \<and>
              (\<forall>M. run_program M p = meaning M file types hook pr act ts)"
  using compile_meaning [OF assms(1)] assms(2) by (metis prod.inject sum.inject(2))

text \<open>
  A connection at address 4096 in state 3, whose record at 8192 holds the size 65535, and the same memory with a
  null pointer to that record.
\<close>

definition sample_offset :: "string \<Rightarrow> string \<Rightarrow> word64" where
  "sample_offset s f = (if f = ''tls'' then 8 else if f = ''keys'' then 16 else if f = ''sz'' then 4 else 0)"

definition sample_memory :: "byte \<Rightarrow> (word64 \<times> byte) list" where
  "sample_memory b =
     [(4096, 3), (4097, 0), (4098, 0), (4099, 0),
      (4104, 0), (4105, b), (4106, 0), (4107, 0), (4108, 0), (4109, 0), (4110, 0), (4111, 0),
      (8212, 255), (8213, 255), (8214, 0), (8215, 0)]"

definition sample_machine :: "byte \<Rightarrow> machine" where
  "sample_machine b =
     \<lparr>m_byte = map_of (sample_memory b), m_offset = sample_offset, m_arg = (\<lambda>n. if n = 0 then 4096 else 0)\<rparr>"

definition sample_terms :: "rterm list" where
  "sample_terms =
     [(RChain 0 [(''conn'', ''tls'', Ptr, ''tls''), (''tls'', ''keys'', Embedded, ''keys''),
                 (''keys'', ''sz'', ScalarHop, ''__u32'')], ''>'', ''4096''),
      (RField ''conn'' 0 ''state'' (JStr ''u32''), ''=='', ''3'')]"

lemma sample_resolved: "resolved_terms sample_sigs sample_doc ''ssl_compute'' sample_pred = Some sample_terms"
  by code_simp

lemma sample_holds:
  "readable (sample_machine 32) sample_terms" "list_all (term_holds (sample_machine 32)) sample_terms"
  "\<not> readable (sample_machine 0) sample_terms" "\<not> contains ''||'' sample_pred" "match_shield ''shield(0)'' = Some ''0''"
  by code_simp+

theorem program_meaning_witness:
  "\<exists>p. compile sample_sigs sample_doc sample_expr = Inr p \<and> run_program (sample_machine 0) p = 0"
proof -
  obtain p where p: "compile sample_sigs sample_doc sample_expr = Inr p" using sample_compiles by blast
  from program_meaning [OF p sample_parsed_expr] sample_resolved
  have "run_program (sample_machine 0) p =
      meaning (sample_machine 0) sample_sigs sample_doc ''ssl_compute'' sample_pred ''shield(0)'' sample_terms"
    by auto
  with p sample_holds(3) show ?thesis by (auto simp: meaning_def pred_holds_def)
qed

text \<open>
  C15. A shield is gated by its predicate: the expression has one, its terms are joined by one connective only,
  and the program answers 1 (the host skips the function) only where every value it mentions can be read and
  all terms hold (for \<^verbatim>\<open>||\<close>, one of them); in every other state it answers 0.
\<close>

theorem shield_gated:
  assumes "compile file types e = Inr p" "parse_expr e = Inr (sec, hook, pr, act)" "match_shield act \<noteq> None"
  shows "\<not> (contains ''&&'' pr \<and> contains ''||'' pr) \<and>
    (\<exists>ts. resolved_terms file types hook pr = Some ts \<and> ts \<noteq> [] \<and>
      (\<forall>M. run_program M p =
         (if readable M ts \<and>
             (if contains ''||'' pr then list_ex (term_holds M) ts else list_all (term_holds M) ts)
          then 1 else 0)))"
proof -
  from assms(1) obtain g0 c g r where g: "gen_pred file types hook pr = Inr (g0, c)"
      "gen_action file types hook act (g0, c) = Inr (g, r)"
    by (rule compile_parts) (use assms(2) in auto)
  from g(2) assms(3) have "c \<noteq> None" by (cases c) (auto simp: gen_action_def Let_def)
  with g(1) have pr: "pr \<noteq> []" "\<not> (contains ''&&'' pr \<and> contains ''||'' pr)" "pred_terms pr \<noteq> []"
    by (auto simp: gen_pred_def Let_def split: if_splits)
  from compile_meaning [OF assms(1)] assms(2) obtain ts where ts: "resolved_terms file types hook pr = Some ts"
      "\<And>M. run_program M p = meaning M file types hook pr act ts"
    by (metis prod.inject sum.inject(2))
  from ts(1) pr(1,3) have "ts \<noteq> []" by (auto simp: resolved_terms_def those_eq_Some)
  moreover have "meaning M file types hook pr act ts =
      (if readable M ts \<and> (if contains ''||'' pr then list_ex (term_holds M) ts else list_all (term_holds M) ts)
       then 1 else 0)" for M
    using assms(3) pr(1) by (auto simp: meaning_def pred_holds_def connect_def list_ex_iff list_all_iff)
  ultimately show ?thesis using ts pr(2) by auto
qed

theorem shield_gated_witness:
  "\<exists>p. compile sample_sigs sample_doc sample_expr = Inr p \<and> run_program (sample_machine 32) p = 1"
proof -
  obtain p where p: "compile sample_sigs sample_doc sample_expr = Inr p" using sample_compiles by blast
  have "match_shield ''shield(0)'' \<noteq> None" by (simp add: sample_holds(5))
  from shield_gated [OF p sample_parsed_expr this] sample_resolved sample_holds(1,2,4)
  have "run_program (sample_machine 32) p = 1" by auto
  with p show ?thesis by blast
qed

section \<open>Constants and arguments beyond their range\<close>

lemma load_narrow:
  assumes "load M ct a = Some w" "ct \<in> {''__u8'', ''__u16'', ''__u32''}"
  shows "uint w < 2 ^ 32"
proof -
  have len: "read_bytes M a n = Some bs \<Longrightarrow> length bs = n" for a n bs
    by (induction n arbitrary: a bs) (auto split: option.splits)
  from assms(1) obtain bs where bs: "read_bytes M a (ct_bytes ct) = Some bs" "w = word_of_int (le_int bs)"
    by (auto simp: load_def)
  have "le_int bs < 256 ^ length bs" by (rule le_int_less)
  also have "(256 :: int) ^ length bs \<le> 256 ^ 4"
    using len [OF bs(1)] assms(2) by (intro power_increasing) (auto simp: ct_bytes_def)
  finally have "le_int bs < 2 ^ 32" by simp
  then show ?thesis
    unfolding bs(2) using le_int_nonneg [of bs] by (simp add: uint_word_of_int mod_pos_pos_trivial)
qed

text \<open>
  A negative constant is compared as a 64-bit unsigned number with a value that was zero-extended from at most
  32 bits: no such field equals -1, and every one is below it.
\<close>

theorem negative_constant_misfires:
  assumes "load M ct a = Some w" "ct \<in> {''__u8'', ''__u16'', ''__u32''}"
  shows "\<not> compare ''=='' w (literal_word ''-1'') \<and> compare ''<'' w (literal_word ''-1'')"
proof -
  have l: "literal_word ''-1'' = - 1" by code_simp
  have "uint w < 2 ^ 32" using assms by (rule load_narrow)
  then have "w < - 1" by (simp add: word_less_def uint_word_ariths)
  with l show ?thesis by (simp add: compare_def)
qed

text \<open>A constant with a leading zero is an octal constant of C, and some are none.\<close>

theorem leading_zero_is_octal:
  "match_pred ''args.port == 010'' = Some (''args.port'', ''=='', ''010'') \<and> c_literal ''010'' = Some 8 \<and> c_literal ''08'' = None"
  by code_simp

text \<open>
  A sixth parameter resolves to \<^verbatim>\<open>c->arg[5]\<close>, behind the five arguments of the context; at a function's exit that
  is the return value.
\<close>

theorem sixth_argument_out_of_range:
  "resolve_value (Some (tabbed [''f'', ''6'', ''a:scalar:int|b:scalar:int|c:scalar:int|d:scalar:int|e:scalar:int|g:scalar:int'']))
     (JObj []) ''f'' ''args.g'' = Inr (RScalar 5)"
  by code_simp

end
