(* ===== verification/Trace_Paths.thy ===== *)
theory Trace_Paths
  imports Trace_Semantics
begin

text \<open>
  The type catalogue and the trace language together: what a value resolves to over a catalogue that
  \<^verbatim>\<open>gen_type_catalog.py\<close> built is backed, hop by hop, by members of the build's type table.
\<close>

section \<open>The document as the resolver reads it\<close>

lemma map_of_json: "map_of (map (\<lambda>(k, v). (k, g v)) d) k = map_option g (map_of d k)"
  by (induction d) auto

lemma dict_get_json:
  "dict_get (json_dict g d) k dflt = Inr (case map_of d k of None \<Rightarrow> dflt | Some v \<Rightarrow> g v)"
  by (simp add: dict_get_def json_dict_def map_of_json split: option.split)

lemma nested_get_json:
  "nested_get (json_dict (json_dict JStr) m) s f =
   Inr (case Option.bind (map_of m s) (\<lambda>d. map_of d f) of None \<Rightarrow> JNull | Some w \<Rightarrow> JStr w)"
  by (auto simp: nested_get_def dict_get_json split: option.split)
    (simp_all add: dict_get_def json_dict_def map_of_json)

definition reserved :: "string list" where
  "reserved = [''__ptr_targets__'', ''__bitfields__'', ''__embedded__'']"

lemma catalog_json_get:
  "map_of (catalog_json c) ''__ptr_targets__'' = Some (json_dict (json_dict JStr) (c_ptrs c))"
  "map_of (catalog_json c) ''__embedded__'' = Some (json_dict (json_dict JStr) (c_embedded c))"
  "map_of (catalog_json c) ''__bitfields__'' = Some (json_dict (json_dict json_bitfield) (c_bits c))"
  "s \<notin> set reserved \<Longrightarrow> map_of (catalog_json c) s = map_option (json_dict JStr) (map_of (c_fields c) s)"
  by (simp_all add: catalog_json_def update_conv' map_of_json reserved_def)

lemma edges_of_catalog:
  "ptr_edges (JObj (catalog_json c)) = Inr (json_dict (json_dict JStr) (c_ptrs c))"
  "embedded_edges (JObj (catalog_json c)) = Inr (json_dict (json_dict JStr) (c_embedded c))"
  by (simp_all add: ptr_edges_def embedded_edges_def dict_get_def catalog_json_get)

text \<open>A width the document holds is one the catalogue has for that struct; a reserved key holds none.\<close>

lemma catalog_width:
  assumes "map_of (catalog_json c) s = Some d" "d = JObj m" "map_of m f = Some (JStr w)"
  shows "Option.bind (map_of (c_fields c) s) (\<lambda>d. map_of d f) = Some w"
proof (cases "s \<in> set reserved")
  case True
  then consider "s = ''__ptr_targets__''" | "s = ''__bitfields__''" | "s = ''__embedded__''"
    by (auto simp: reserved_def)
  then show ?thesis
    using assms by cases (auto simp: catalog_json_get json_dict_def map_of_json)
next
  case False
  with assms show ?thesis by (auto simp: catalog_json_get json_dict_def map_of_json)
qed

lemma ctype_of_str: "ctype_of ty = Inr ct \<Longrightarrow> \<exists>w. ty = JStr w \<and> map_of CTYPE w = Some ct"
  by (auto simp: ctype_of_def split: jval.splits option.splits)

section \<open>Backed values\<close>

definition width_backed :: "types \<Rightarrow> string \<Rightarrow> string \<Rightarrow> string \<Rightarrow> bool" where
  "width_backed ts s f ct = (\<exists>w. map_of CTYPE w = Some ct \<and> defined_as ts s (\<lambda>t. whole_member ts t f w))"

definition hop_backed :: "types \<Rightarrow> hop \<Rightarrow> bool" where
  "hop_backed ts h =
     (case h of (s, f, kind, x) \<Rightarrow>
        (case kind of
           Ptr \<Rightarrow> defined_as ts s (\<lambda>t. pointer_member ts t f x)
         | Embedded \<Rightarrow> defined_as ts s (\<lambda>t. inline_member ts t f x)
         | ScalarHop \<Rightarrow> width_backed ts s f x))"

fun value_backed :: "types \<Rightarrow> rvalue \<Rightarrow> bool" where
  "value_backed ts (RScalar n) = True"
| "value_backed ts (RField s n f ty) = (\<forall>ct. ctype_of ty = Inr ct \<longrightarrow> width_backed ts s f ct)"
| "value_backed ts (RChain n hops) = (hops_ok hops \<and> list_all (hop_backed ts) hops)"

lemma width_backedI:
  assumes "Option.bind (map_of (c_fields (catalog_of ts)) s) (\<lambda>d. map_of d f) = Some w" "map_of CTYPE w = Some ct"
  shows "width_backed ts s f ct"
proof -
  from assms(1) obtain d where "map_of (c_fields (catalog_of ts)) s = Some d" "map_of d f = Some w"
    by (auto simp: bind_eq_Some_conv)
  then obtain t where "t \<in> snd ` set ts" "b_kind t = ''STRUCT''" "b_name t = s" "whole_member ts t f w"
    by (rule field_entry)
  with assms(2) show ?thesis unfolding width_backed_def by (blast intro: defined_asI)
qed

lemma last_hop_backed:
  assumes "last_hop (JObj (catalog_json (catalog_of ts))) cur f hops = Inr (Inr hs)"
  obtains ct where "hs = hops @ [(cur, f, ScalarHop, ct)]" "width_backed ts cur f ct"
proof -
  let ?doc = "JObj (catalog_json (catalog_of ts))"
  from assms obtain ty ct where ty: "nested_get ?doc cur f = Inr ty" "ctype_of ty = Inr ct"
      "hs = hops @ [(cur, f, ScalarHop, ct)]"
    by (auto simp: last_hop_def err_simps refuse_or_never split: if_splits)
  from ctype_of_str [OF ty(2)] obtain w where w: "ty = JStr w" "map_of CTYPE w = Some ct" by blast
  from ty(1) w(1) obtain d m where d: "map_of (catalog_json (catalog_of ts)) cur = Some d" "d = JObj m" "map_of m f = Some (JStr w)"
    by (auto simp: nested_get_def dict_get_def err_simps split: option.splits jval.splits)
  have "width_backed ts cur f ct" by (rule width_backedI [OF catalog_width [OF d] w(2)])
  with ty(3) that show thesis by blast
qed

lemma next_edge_backed:
  assumes "next_edge (JObj (catalog_json (catalog_of ts))) cur f = Inr (Inr (k, tgt))" "edge_name tgt = Inr (Some s)"
  shows "hop_backed ts (cur, f, k, s)"
proof -
  let ?get = "\<lambda>m. case Option.bind (map_of m cur) (\<lambda>d. map_of d f) of None \<Rightarrow> JNull | Some w \<Rightarrow> JStr w"
  have tgt: "(k, tgt) = (Ptr, ?get (c_ptrs (catalog_of ts))) \<or> (k, tgt) = (Embedded, ?get (c_embedded (catalog_of ts)))"
    using assms(1) unfolding next_edge_def edges_of_catalog nested_get_json ebind.simps
    by (auto simp: err_simps split: if_splits)
  have "tgt = JStr s" using tgt assms(2) by (auto simp: edge_name_def split: option.splits)
  then have "k = Ptr \<and> Option.bind (map_of (c_ptrs (catalog_of ts)) cur) (\<lambda>d. map_of d f) = Some s \<or>
      k = Embedded \<and> Option.bind (map_of (c_embedded (catalog_of ts)) cur) (\<lambda>d. map_of d f) = Some s"
    using tgt by (auto split: option.splits)
  then show ?thesis
    unfolding hop_backed_def bind_eq_Some_conv
    by (elim disjE conjE exE) (auto elim!: pointer_entry embedded_entry intro: defined_asI)
qed

lemma walk_backed:
  "walk_path (JObj (catalog_json (catalog_of ts))) cur parts hops = Inr (Inr hs) \<Longrightarrow> list_all (hop_backed ts) hops \<Longrightarrow>
   list_all (hop_backed ts) hs"
proof (induction parts arbitrary: cur hops rule: induct_list012)
  case (2 f)
  from "2.prems"(1) have "last_hop (JObj (catalog_json (catalog_of ts))) cur f hops = Inr (Inr hs)" by simp
  then show ?case by (rule last_hop_backed) (use "2.prems"(2) in \<open>auto simp: hop_backed_def\<close>)
next
  case (3 f g fs)
  from "3.prems"(1) obtain k tgt s where e: "next_edge (JObj (catalog_json (catalog_of ts))) cur f = Inr (Inr (k, tgt))"
      "edge_name tgt = Inr (Some s)"
      and w: "walk_path (JObj (catalog_json (catalog_of ts))) s (g # fs) (hops @ [(cur, f, k, s)]) = Inr (Inr hs)"
    by (rule walk_edge)
  show ?case
    by (rule "3.IH"(2) [OF w]) (use "3.prems"(2) next_edge_backed [OF e] in simp)
qed simp

lemma try_starts_backed:
  "try_starts (JObj (catalog_json (catalog_of ts))) parts ss = Inr v \<Longrightarrow> parts \<noteq> [] \<Longrightarrow> value_backed ts v"
proof (induction ss)
  case (Cons p ss)
  obtain i s0 where p: "p = (i, s0)" by (cases p) auto
  from Cons.prems(1) p obtain r where r: "walk_path (JObj (catalog_json (catalog_of ts))) s0 parts [] = Inr r"
    by (auto simp: err_simps)
  show ?case
  proof (cases r)
    case (Inl why)
    with r Cons p show ?thesis by simp
  next
    case (Inr hops)
    with r Cons.prems p have "v = RChain i hops" by simp
    with r Inr Cons.prems(2) walk_hops [of _ s0 parts "[]" hops] walk_backed [of ts s0 parts "[]" hops] show ?thesis
      by auto
  qed
qed simp

lemma field_param_backed:
  "field_param (JObj (catalog_json (catalog_of ts))) n name ps = Inr (Some v) \<Longrightarrow> value_backed ts v"
proof (induction ps)
  case (Cons p ps)
  let ?doc = "JObj (catalog_json (catalog_of ts))"
  show ?case
  proof (cases "blob_struct n p")
    case None
    with Cons show ?thesis by simp
  next
    case (Some s)
    then obtain d present where d: "dict_get ?doc s (JObj []) = Inr d" "in_doc name d = Inr present"
      using Cons.prems by (auto simp: err_simps)
    show ?thesis
    proof (cases present)
      case False
      with Cons Some d show ?thesis by simp
    next
      case True
      with Cons.prems Some d obtain ty where ty: "doc_item d name = Inr ty" "v = RField s (fst p) name ty"
        by (auto simp: err_simps)
      have "width_backed ts s name ct" if ct: "ctype_of ty = Inr ct" for ct
      proof -
        from ctype_of_str [OF ct] obtain w where w: "ty = JStr w" "map_of CTYPE w = Some ct" by blast
        from ty(1) w(1) obtain m where m: "d = JObj m" "map_of m name = Some (JStr w)"
          by (auto simp: doc_item_def jitem_def split: jval.splits option.splits)
        moreover from this d(1) have "map_of (catalog_json (catalog_of ts)) s = Some d"
          by (auto simp: dict_get_def split: option.splits)
        ultimately show ?thesis using width_backedI [OF catalog_width w(2)] by blast
      qed
      with ty(2) show ?thesis by simp
    qed
  qed
qed simp

text \<open>
  C16. Every value written as a dotted path resolves, over a catalogue built from a type table, only to reads that
  the table backs: each pointer hop is a member that points to the struct of the next hop, each embedded hop is
  a member of that struct type, and the field read at the end is a whole member of the width it is read
  with, never a bitfield.
\<close>

theorem resolved_paths_backed:
  assumes "resolve_value file (JObj (build_catalog raw)) hook tok = Inr v" "match_field tok = None"
  shows "value_backed (parse_dump raw) v"
proof (cases "match_arg tok")
  case (Some n)
  with assms show ?thesis by (auto simp: resolve_value_def)
next
  case None
  let ?doc = "JObj (catalog_json (catalog_of (parse_dump raw)))"
  from assms None obtain n parts where m: "match_dotted tok = Some (n, parts)"
    by (auto simp: resolve_value_def split: option.splits)
  show ?thesis
  proof (cases "length parts \<ge> 2")
    case True
    with assms None m obtain ps where "hook_params file hook = Some ps" "try_starts ?doc parts (path_starts ps n) = Inr v"
      by (auto simp: resolve_value_def resolve_path_def build_catalog_def Let_def split: option.splits if_splits)
    then show ?thesis using True by (intro try_starts_backed) auto
  next
    case False
    with assms None m show ?thesis
      by (auto simp: resolve_value_def resolve_name_def build_catalog_def err_simps split: option.splits
          intro: field_param_backed)
  qed
qed

definition path_dump :: string where
  "path_dump = join [CHR 0x0A]
     [''[1] INT '' @ [quote] @ ''unsigned int'' @ [quote] @ '' size=4 bits_offset=0 nr_bits=32 encoding=(none)'',
      ''[2] STRUCT '' @ [quote] @ ''keys'' @ [quote] @ '' size=4 vlen=1'',
      [CHR 0x09] @ [quote] @ ''sz'' @ [quote] @ '' type_id=1 bits_offset=0'',
      ''[3] STRUCT '' @ [quote] @ ''tls'' @ [quote] @ '' size=4 vlen=1'',
      [CHR 0x09] @ [quote] @ ''keys'' @ [quote] @ '' type_id=2 bits_offset=0'',
      ''[4] PTR (anon) type_id=3'',
      ''[5] STRUCT '' @ [quote] @ ''conn'' @ [quote] @ '' size=8 vlen=1'',
      [CHR 0x09] @ [quote] @ ''tls'' @ [quote] @ '' type_id=4 bits_offset=0'']"

definition path_value :: rvalue where
  "path_value = RChain 0 [(''conn'', ''tls'', Ptr, ''tls''), (''tls'', ''keys'', Embedded, ''keys''),
                          (''keys'', ''sz'', ScalarHop, ''__u32'')]"

lemma path_resolves: "resolve_value sample_sigs (JObj (build_catalog path_dump)) ''ssl_compute'' ''args.tls.keys.sz'' = Inr path_value"
  by code_simp

theorem resolved_paths_backed_witness: "value_backed (parse_dump path_dump) path_value"
  by (rule resolved_paths_backed [OF path_resolves]) code_simp

end
