(* ===== verification/Trace_Tool.thy ===== *)
theory Trace_Tool
  imports Trace_Semantics
begin

text \<open>
  The commands around the trace language in \<^verbatim>\<open>substrate/tmmtrace.py\<close>: the histogram of sampled values, the
  selection of hooks out of the hook map, and the build of a program with its metadata. The compiler and the
  verifier are inputs (what they answer to a source), as are the files.
\<close>

section \<open>The histogram\<close>

text \<open>\<^verbatim>\<open>str.isdigit\<close> also holds of the superscript digits, which \<^verbatim>\<open>int\<close> refuses.\<close>

definition isdigit :: "string \<Rightarrow> bool" where
  "isdigit s = (s \<noteq> [] \<and> list_all (\<lambda>c. is_digit c \<or> (of_char c :: nat) \<in> {178, 179, 185}) s)"

definition hist_vals :: "string \<Rightarrow> int list result" where
  "hist_vals stdin = emap parse_int (filter (\<lambda>x. isdigit (dropWhile (\<lambda>c. c = CHR ''-'') x)) (split_words stdin))"

function bit_length :: "int \<Rightarrow> int" where
  "bit_length v = (if v \<le> 0 then 0 else 1 + bit_length (v div 2))"
  by pat_completeness auto
termination by (relation "measure nat") auto

declare bit_length.simps [simp del]

definition bucket :: "int \<Rightarrow> int" where
  "bucket v = (if v > 0 then bit_length v - 1 else -1)"

definition count_bucket :: "(int \<times> int) list \<Rightarrow> int \<Rightarrow> (int \<times> int) list" where
  "count_bucket bs v =
     AList.update (bucket v) ((case map_of bs (bucket v) of None \<Rightarrow> 0 | Some n \<Rightarrow> n) + 1) bs"

definition hist_buckets :: "int list \<Rightarrow> (int \<times> int) list" where
  "hist_buckets vals = foldl count_bucket [] vals"

definition range_text :: "int \<Rightarrow> string" where
  "range_text b =
     (if b < 0 then ''(<=0)''
      else ''['' @ str_int (2 ^ nat b) @ '', '' @ str_int (2 ^ nat (b + 1)) @ '')'')"

definition pad_left :: "nat \<Rightarrow> string \<Rightarrow> string" where
  "pad_left n s = replicate (n - length s) (CHR '' '') @ s"

definition pad_to :: "nat \<Rightarrow> string \<Rightarrow> string" where
  "pad_to n s = s @ replicate (n - length s) (CHR '' '')"

definition count_of :: "(int \<times> int) list \<Rightarrow> int \<Rightarrow> int" where
  "count_of bs b = (case map_of bs b of None \<Rightarrow> 0 | Some n \<Rightarrow> n)"

text \<open>The bar is \<^verbatim>\<open>"@" * int(40 * n / hi)\<close>, the whole part of the quotient.\<close>

definition hist_line :: "(int \<times> int) list \<Rightarrow> int \<Rightarrow> int \<Rightarrow> string" where
  "hist_line bs hi b =
     (let n = count_of bs b in
      ''  '' @ pad_to 14 (range_text b) @ '' '' @ pad_left 6 (str_int n) @ '' |'' @
      (if hi \<noteq> 0 then replicate (nat (40 * n div hi)) (CHR 0x40) else []))"

definition hist_rows :: "int list \<Rightarrow> int list" where
  "hist_rows vals = (let ks = map fst (hist_buckets vals) in [Min (set ks)..Max (set ks)])"

definition hist_stdin :: "string \<Rightarrow> string list result" where
  "hist_stdin stdin =
     ebind (hist_vals stdin) (\<lambda>vals.
       if vals = [] then Inr [''(no values)'']
       else
         let bs = hist_buckets vals; hi = Max (set (map snd bs)) in
         Inr ((''count '' @ str_nat (length vals) @ ''  min '' @ str_int (Min (set vals)) @ ''  max '' @ str_int (Max (set vals))) #
              map (hist_line bs hi) (hist_rows vals)))"

section \<open>Names by pattern\<close>

text \<open>
  \<^verbatim>\<open>fnmatch.fnmatch\<close>: a star is any text, a question mark any character, and brackets a set of characters and
  ranges, inverted by an exclamation mark. A bracket that is not closed is itself; the first character of a set
  may be a closing bracket.
\<close>

fun in_class :: "string \<Rightarrow> char \<Rightarrow> bool" where
  "in_class [] c = False"
| "in_class [a] c = (a = c)"
| "in_class [a, b] c = (a = c \<or> b = c)"
| "in_class (a # b # d # r) c =
     (if b = CHR ''-'' then (of_char a \<le> (of_char c :: nat) \<and> of_char c \<le> (of_char d :: nat)) \<or> in_class r c
      else a = c \<or> in_class (b # d # r) c)"

text \<open>The text up to the bracket that closes a class, the text behind it.\<close>

definition class_body :: "string \<Rightarrow> (string \<times> string) option" where
  "class_body p =
     (let neg = is_prefix ''!'' p; q = (if neg then drop 1 p else p);
          first = (if is_prefix '']'' q then '']'' else []);
          q = drop (length first) q;
          body = takeWhile (\<lambda>c. c \<noteq> CHR '']'') q in
      if length body < length q
      then Some ((if neg then ''!'' else []) @ first @ body, drop (length body + 1) q) else None)"

definition class_match :: "string \<Rightarrow> char \<Rightarrow> bool" where
  "class_match cl c = (if is_prefix ''!'' cl then \<not> in_class (drop 1 cl) c else in_class cl c)"

lemma class_body_shorter: "class_body p = Some (cl, r) \<Longrightarrow> length r < length p"
  by (auto simp: class_body_def Let_def split: if_splits)

function fnmatch :: "string \<Rightarrow> string \<Rightarrow> bool" where
  "fnmatch [] s = (s = [])"
| "fnmatch (p # ps) s =
     (if p = CHR ''*'' then fnmatch ps s \<or> (case s of [] \<Rightarrow> False | _ # t \<Rightarrow> fnmatch (p # ps) t)
      else if s = [] then False
      else if p = CHR ''?'' then fnmatch ps (tl s)
      else if p = CHR ''['' then
        (case class_body ps of
           None \<Rightarrow> hd s = p \<and> fnmatch ps (tl s)
         | Some (cl, r) \<Rightarrow> class_match cl (hd s) \<and> fnmatch r (tl s))
      else hd s = p \<and> fnmatch ps (tl s))"
  by pat_completeness auto
termination
  by (relation "measure (\<lambda>(p, s). length p + length s)") (auto dest: class_body_shorter)

declare fnmatch.simps [simp del]

section \<open>The list of hooks\<close>

definition NOISE :: "string list" where
  "NOISE = [''.isra.'', ''.part.'', ''.constprop.'', ''.cold'', ''.lto_priv'']"

definition is_noise :: "string \<Rightarrow> bool" where
  "is_noise n =
     (list_ex (\<lambda>s. contains s n) NOISE \<or> starts_any [''TCL_'', ''_ZN'', ''_ZL''] n \<or> contains ''_setentry_'' n \<or>
      is_prefix ''__'' n)"

record list_opts =
  lo_glob :: string
  lo_mode :: "string option"
  lo_path :: "string option"
  lo_armable :: bool
  lo_no_noise :: bool

definition name_of :: "jobj \<Rightarrow> string" where
  "name_of h = (case map_of h ''name'' of Some (JStr n) \<Rightarrow> n | _ \<Rightarrow> [])"

definition wants :: "string option \<Rightarrow> jval \<Rightarrow> bool" where
  "wants req v = (case req of None \<Rightarrow> True | Some r \<Rightarrow> r = [] \<or> v = JStr r)"

definition keep_hook :: "list_opts \<Rightarrow> jobj \<Rightarrow> bool" where
  "keep_hook o' h =
     (fnmatch (lo_glob o') (name_of h) \<and> wants (lo_mode o') (jget h ''attach_mode'') \<and>
      wants (lo_path o') (jget h ''path_class'') \<and>
      (lo_armable o' \<longrightarrow> truthy (jget h ''relocatable'')) \<and> (lo_no_noise o' \<longrightarrow> \<not> is_noise (name_of h)))"

definition hook_out :: "jobj \<Rightarrow> string" where
  "hook_out h =
     (if jget h ''inline_status'' = JStr ''partial''
      then name_of h @ ''   [PARTIAL: '' @
           (case map_of h ''inline_sites'' of Some (JInt i) \<Rightarrow> str_int i | _ \<Rightarrow> ''0'') @
           '' inlined site(s) a shield here would MISS]''
      else name_of h)"

text \<open>The hooks of a map whose entries are objects with a textual name; what is printed, one line each.\<close>

definition list_hooks :: "jobj list \<Rightarrow> list_opts \<Rightarrow> string list" where
  "list_hooks hp o' = map hook_out (sort_key name_of (filter (keep_hook o') hp))"

text \<open>The options of the command; \<^verbatim>\<open>next(it)\<close> raises where a value is missing.\<close>

fun list_args :: "list_opts \<Rightarrow> string list \<Rightarrow> list_opts result" where
  "list_args o' [] = Inr o'"
| "list_args o' (a # as) =
     (if a = ''--mode'' then (case as of [] \<Rightarrow> Inl StopIteration | v # vs \<Rightarrow> list_args (o'\<lparr>lo_mode := Some v\<rparr>) vs)
      else if a = ''--path'' then (case as of [] \<Rightarrow> Inl StopIteration | v # vs \<Rightarrow> list_args (o'\<lparr>lo_path := Some v\<rparr>) vs)
      else if a = ''--armable'' then list_args (o'\<lparr>lo_armable := True\<rparr>) as
      else if a = ''--no-noise'' then list_args (o'\<lparr>lo_no_noise := True\<rparr>) as
      else if \<not> is_prefix ''-'' a then list_args (o'\<lparr>lo_glob := a\<rparr>) as
      else list_args o' as)"

section \<open>Building a program\<close>

text \<open>The compiler's answer to a source, and the verifier's to an object and section (\<open>None\<close>: not installed).\<close>

record toolchain =
  tc_clang :: "string \<Rightarrow> bytes option"
  tc_prevail :: "(bytes \<Rightarrow> string \<Rightarrow> bool) option"

definition program_kind :: "string \<Rightarrow> string" where
  "program_kind act =
     (if match_shield act \<noteq> None then ''shield'' else if match_count act then ''count'' else ''value'')"

definition build_meta :: "string \<Rightarrow> string \<Rightarrow> string \<Rightarrow> string \<Rightarrow> bool \<Rightarrow> string \<Rightarrow> jobj" where
  "build_meta e fn sec hook verified act =
     [(''expr'', JStr e), (''fn'', JStr fn), (''section'', JStr sec), (''hook'', JStr hook),
      (''kind'', JStr (program_kind act)), (''verified'', JBool verified)] @
     (case match_shield act of None \<Rightarrow> [] | Some v \<Rightarrow> [(''safe_value'', JStr v)])"

definition build_prog :: "toolchain \<Rightarrow> string option \<Rightarrow> jval \<Rightarrow> string \<Rightarrow> (bytes \<times> jobj) result" where
  "build_prog tc file types e =
     ebind (codegen file types e) (\<lambda>(src, fn, section, hook).
       case tc_clang tc src of
         None \<Rightarrow> Inl (SystemExit ''*** clang failed'')
       | Some obj \<Rightarrow>
           let sec = section @ ''/'' @ hook in
           ebind (case tc_prevail tc of
                    None \<Rightarrow> Inr False
                  | Some pv \<Rightarrow> if pv obj sec then Inr True else Inl (SystemExit (''*** PREVAIL REFUSED '' @ fn))) (\<lambda>verified.
           ebind (parse_expr e) (\<lambda>(_, _, _, act). Inr (obj, build_meta e fn sec hook verified act))))"

definition verify_expr :: "toolchain \<Rightarrow> string option \<Rightarrow> jval \<Rightarrow> string \<Rightarrow> int result" where
  "verify_expr tc file types e =
     ebind (codegen file types e) (\<lambda>(src, fn, section, hook).
       case tc_prevail tc of
         None \<Rightarrow> Inl (SystemExit ''*** PREVAIL not found'')
       | Some pv \<Rightarrow>
           (case tc_clang tc src of
              None \<Rightarrow> Inl (SystemExit ''*** clang failed'')
            | Some obj \<Rightarrow> Inr (if pv obj (section @ ''/'' @ hook) then 0 else 1)))"

section \<open>What the histogram counts\<close>

lemma bit_length_bounds: "0 < v \<Longrightarrow> 0 < bit_length v \<and> 2 ^ nat (bit_length v - 1) \<le> v \<and> v < 2 ^ nat (bit_length v)"
proof (induction v rule: bit_length.induct)
  case (1 v)
  show ?case
  proof (cases "v = 1")
    case True
    then show ?thesis by (simp add: bit_length.simps)
  next
    case False
    with "1.prems" have p: "0 < v div 2" by linarith
    with "1.IH" "1.prems" have IH: "0 < bit_length (v div 2)" "2 ^ nat (bit_length (v div 2) - 1) \<le> v div 2"
        "v div 2 < 2 ^ nat (bit_length (v div 2))" by auto
    have b: "bit_length v = 1 + bit_length (v div 2)" using "1.prems" by (simp add: bit_length.simps [of v])
    define k where "k = nat (bit_length (v div 2) - 1)"
    have k: "nat (bit_length v - 1) = Suc k" "nat (bit_length v) = Suc (Suc k)" "nat (bit_length (v div 2)) = Suc k"
      using IH(1) b by (auto simp: k_def)
    show ?thesis using IH b unfolding k using k_def [symmetric] by auto linarith+
  qed
qed

definition in_bucket :: "int \<Rightarrow> int \<Rightarrow> bool" where
  "in_bucket b v = (if b < 0 then b = -1 \<and> v \<le> 0 else 2 ^ nat b \<le> v \<and> v < 2 ^ nat (b + 1))"

lemma in_bucket_unique: "in_bucket b v \<Longrightarrow> in_bucket c v \<Longrightarrow> b \<le> c"
proof (rule ccontr)
  assume b: "in_bucket b v" and c: "in_bucket c v" and "\<not> b \<le> c"
  then have lt: "c + 1 \<le> b" by simp
  have pos: "0 < v" if "0 \<le> d" "in_bucket d v" for d
  proof -
    have "(0 :: int) < 2 ^ nat d" by simp
    also have "\<dots> \<le> v" using that by (simp add: in_bucket_def)
    finally show ?thesis .
  qed
  show False
  proof (cases "c < 0")
    case True
    with c have "v \<le> 0" "0 \<le> b" using lt by (auto simp: in_bucket_def)
    with pos b show False by fastforce
  next
    case False
    with lt have "(2 :: int) ^ nat (c + 1) \<le> 2 ^ nat b" by (intro power_increasing) auto
    with b c lt False show False by (auto simp: in_bucket_def)
  qed
qed

lemma bucket_in: "in_bucket (bucket v) v"
  using bit_length_bounds [of v] by (auto simp: in_bucket_def bucket_def)

lemma bucket_iff: "bucket v = b \<longleftrightarrow> in_bucket b v"
  using in_bucket_unique bucket_in by (metis order.antisym)

lemma count_bucket_of: "count_of (count_bucket bs v) b = count_of bs b + (if bucket v = b then 1 else 0)"
  by (simp add: count_bucket_def count_of_def update_conv')

lemma count_fold:
  "count_of (foldl count_bucket bs vals) b = count_of bs b + int (length (filter (in_bucket b) vals))"
  by (induction vals arbitrary: bs) (auto simp: count_bucket_of bucket_iff)

lemma keys_fold: "fst ` set (foldl count_bucket bs vals) = fst ` set bs \<union> bucket ` set vals"
  by (induction vals arbitrary: bs) (auto simp: count_bucket_def dom_update)

lemma sum_over_rows:
  "bucket ` set vals \<subseteq> set bs \<Longrightarrow> distinct bs \<Longrightarrow>
   sum_list (map (\<lambda>b. int (length (filter (in_bucket b) vals))) bs) = int (length vals)"
proof (induction vals)
  case (Cons v vals)
  have "sum_list (map (\<lambda>b. if in_bucket b v then 1 else 0 :: int) bs) = 1"
  proof -
    have "in_bucket b v \<longleftrightarrow> b = bucket v" for b using bucket_iff by metis
    then have "sum_list (map (\<lambda>b. if in_bucket b v then 1 else 0 :: int) bs) = (\<Sum>b \<in> set bs. if b = bucket v then 1 else 0)"
      using Cons.prems(2) by (simp add: sum_list_distinct_conv_sum_set)
    also have "\<dots> = 1" using Cons.prems(1) by simp
    finally show ?thesis .
  qed
  moreover have "(\<lambda>b. int (length (filter (in_bucket b) (v # vals)))) =
      (\<lambda>b. (if in_bucket b v then 1 else 0) + int (length (filter (in_bucket b) vals)))" by auto
  ultimately show ?case using Cons by (simp add: sum_list_addf)
qed simp

text \<open>
  The histogram accounts for every sample: each row's count is the number of values inside the range the row
  prints, every value is in exactly one row, and the rows add up to the count of the header.
\<close>

theorem histogram_accounts:
  assumes "hist_vals stdin = Inr vals" "vals \<noteq> []"
  shows "(\<forall>b. count_of (hist_buckets vals) b = int (length (filter (in_bucket b) vals))) \<and>
    (\<forall>v \<in> set vals. \<exists>!b. b \<in> set (hist_rows vals) \<and> in_bucket b v) \<and>
    sum_list (map (count_of (hist_buckets vals)) (hist_rows vals)) = int (length vals)"
proof -
  have c: "count_of (hist_buckets vals) b = int (length (filter (in_bucket b) vals))" for b
    using count_fold [of "[]" vals b] by (simp add: hist_buckets_def count_of_def)
  have k: "fst ` set (hist_buckets vals) = bucket ` set vals"
    using keys_fold [of "[]" vals] by (simp add: hist_buckets_def)
  then have sub: "bucket ` set vals \<subseteq> set (hist_rows vals)" by (auto simp: hist_rows_def)
  then have "\<forall>v \<in> set vals. \<exists>!b. b \<in> set (hist_rows vals) \<and> in_bucket b v"
    using bucket_iff bucket_in by (metis image_subset_iff)
  moreover have "distinct (hist_rows vals)" by (simp add: hist_rows_def Let_def)
  moreover have "count_of (hist_buckets vals) = (\<lambda>b. int (length (filter (in_bucket b) vals)))" by (rule ext) (rule c)
  ultimately show ?thesis using c sum_over_rows [OF sub] by simp
qed

theorem histogram_accounts_witness:
  "sum_list (map (count_of (hist_buckets [1, 3, 300, -4])) (hist_rows [1, 3, 300, -4])) = 4"
proof -
  have "hist_vals ''1 3 300 -4'' = Inr [1, 3, 300, -4]" by code_simp
  from histogram_accounts [OF this] show ?thesis by simp
qed

text \<open>A token of digits behind two signs passes the filter and then stops the command.\<close>

theorem double_sign_raises: "hist_vals ''7 --5'' = Inl (ValueError ''invalid literal for int() with base 10'')"
  by code_simp

text \<open>
  The metadata says what happened: a program is marked verified exactly when the verifier is present and
  accepted the object under the program's section, and a shield carries its safe value and is never built
  without a predicate.
\<close>

lemma build_prog_honest:
  assumes "build_prog tc file types e = Inr (obj, meta)"
  obtains src fn sec hook act where "codegen file types e = Inr (src, fn, sec, hook)" "tc_clang tc src = Some obj"
    "jget meta ''verified'' = JBool (tc_prevail tc \<noteq> None)"
    "\<And>pv. tc_prevail tc = Some pv \<Longrightarrow> pv obj (sec @ ''/'' @ hook)"
    "jget meta ''kind'' = JStr ''shield'' \<longleftrightarrow> match_shield act \<noteq> None" "jget meta ''safe_value'' = JNull \<longleftrightarrow> match_shield act = None"
  using assms
  by (fastforce simp: build_prog_def build_meta_def program_kind_def jget_def Let_def err_simps
      split: option.splits if_splits)

lemma list_hooks_selects:
  "h \<in> set hp \<Longrightarrow> keep_hook o' h \<Longrightarrow> hook_out h \<in> set (list_hooks hp o')"
  "l \<in> set (list_hooks hp o') \<Longrightarrow> \<exists>h \<in> set hp. keep_hook o' h \<and> l = hook_out h"
  by (auto simp: list_hooks_def)

end
