(* ===== verification/Trace_Signatures.thy ===== *)
theory Trace_Signatures
  imports Mk_Probe Trace_Dsl
begin

text \<open>
  The signature index between its writer and its second reader: \<^verbatim>\<open>mk_probe.py\<close> writes the parameters it finds in
  the debug information, \<^verbatim>\<open>tmmtrace.py\<close> reads them with a reader of its own.
\<close>

text \<open>A parameter as the trace language keeps it: with the struct its type text points to.\<close>

definition trace_param :: "param \<Rightarrow> hparam" where
  "trace_param p = (case p of (a, k, c) \<Rightarrow> (or_else a [], k, re_search match_struct_ptr c, c))"

lemma param_spec_token: "param_spec tok = map trace_param (param_token tok)"
  by (auto simp: param_spec_def param_token_def trace_param_def or_else_def split: list.splits)

lemma param_spec_tokens: "concat (map param_spec toks) = map trace_param (concat (map param_token toks))"
  by (induction toks) (simp_all add: param_spec_token)

lemma sigs_rows:
  assumes "\<forall>nm \<in> set nms. clean nm \<and> \<not> is_prefix ''#'' nm \<and> nm \<noteq> [] \<and> ps nm \<noteq> [] \<and> (\<forall>p \<in> set (ps nm). plain_param p)"
  shows "map_of (foldl sigs_line d (map (join [CHR 0x09]) (map (\<lambda>nm. sig_row nm (ps nm)) nms))) want =
    (if want \<in> set nms then Some (sig_row want (ps want) ! 2) else map_of d want)"
  using assms
proof (induction nms arbitrary: d)
  case (Cons nm nms)
  then have nm: "clean nm" "\<not> is_prefix ''#'' nm" "nm \<noteq> []" "\<forall>p \<in> set (ps nm). plain_param p" by auto
  have row: "length (sig_row nm (ps nm)) = 3" "sig_row nm (ps nm) ! 0 = nm" by (simp_all add: sig_row_def)
  have "sigs_line d (join [CHR 0x09] (sig_row nm (ps nm))) = AList.update nm (sig_row nm (ps nm) ! 2) d"
    using sig_row_line [OF nm] row by (simp add: sigs_line_def Let_def)
  with Cons show ?case by (auto simp: update_conv')
qed simp

lemma written_spec_nonempty: "ps \<noteq> [] \<Longrightarrow> sig_row nm ps ! 2 \<noteq> []"
  by (cases ps rule: remdups_adj.cases) (auto simp: sig_row_def param_text_def)

lemma hook_params_written:
  assumes "efold index_step [] sps = Inr seen" "writable seen" "clean bid"
  shows "hook_params (Some (build_index bid seen)) fn =
    map_option (\<lambda>b. map (trace_param \<circ> reload) (snd b)) (map_of seen fn)"
proof -
  note names = index_names [OF assms(1,2)]
  have "map_of (load_sigs (Some (build_index bid seen))) fn =
      (if fn \<in> set (sort (map fst seen)) then Some (sig_row fn (seen_of seen fn) ! 2) else None)"
    unfolding load_sigs_def option.case nl_def written_lines [OF assms]
    using sigs_rows [OF names, of "[]"]
    by (simp add: index_header_def index_rows_def sigs_line_def Let_def)
  moreover have "seen_of seen fn \<noteq> []" "concat (map param_spec (split_on (CHR ''|'') (sig_row fn (seen_of seen fn) ! 2))) =
      map (trace_param \<circ> reload) (seen_of seen fn)" if "fn \<in> set (sort (map fst seen))"
  proof -
    from names that have n: "seen_of seen fn \<noteq> []" "\<forall>p \<in> set (seen_of seen fn). plain_param p" by blast+
    show "seen_of seen fn \<noteq> []" by (rule n(1))
    show "concat (map param_spec (split_on (CHR ''|'') (sig_row fn (seen_of seen fn) ! 2))) =
      map (trace_param \<circ> reload) (seen_of seen fn)"
      unfolding param_spec_tokens sig_row_tokens [OF n] by simp
  qed
  ultimately have "hook_params (Some (build_index bid seen)) fn =
      (if fn \<in> set (sort (map fst seen)) then Some (map (trace_param \<circ> reload) (seen_of seen fn)) else None)"
    using written_spec_nonempty by (simp add: hook_params_def)
  also have "\<dots> = map_option (\<lambda>b. map (trace_param \<circ> reload) (snd b)) (map_of seen fn)"
    by (cases "map_of seen fn") (auto simp: seen_of_def map_of_eq_None_iff dest: map_of_SomeD intro: rev_image_eqI)
  finally show ?thesis .
qed

text \<open>
  The trace language sees the parameters of the debug information: over an index that the probe generator
  wrote for a debug file, the parameters of a hook are those the walk over the debug information finds, in
  order, each with its kind and the struct it points to, for every name whose subprograms agree on their number
  of parameters; a name the walk does not find has none.
\<close>

theorem trace_sees_debug_params:
  assumes "build_index_main dbg (Some cus) = Inr t" "efold index_step [] (subprograms cus) = Inr seen" "writable seen" "fn \<noteq> []"
    and "\<forall>b \<in> set (candidates fn (subprograms cus)). length (snd b) = n"
  shows "hook_params (Some t) fn =
    (case signature (Some cus) fn of Inr ps \<Rightarrow> Some (map (trace_param \<circ> reload) ps) | Inl _ \<Rightarrow> None)"
proof -
  obtain bid where "build_id dbg = Inr bid" and t: "t = build_index bid seen"
    using assms(1,2) by (auto simp: build_index_main_def err_simps)
  then have "hook_params (Some t) fn = map_option (\<lambda>b. map (trace_param \<circ> reload) (snd b)) (map_of seen fn)"
    using hook_params_written [OF assms(2,3) build_id_clean] by simp
  then show ?thesis using index_agrees_with_walk [OF assms(2,4,5)] by (cases "map_of seen fn") simp_all
qed

theorem trace_sees_debug_params_witness:
  "hook_params (Some (build_index (to_hex sample_id) sample_index)) ''f'' = Some [(''a'', ''scalar'', None, ''int'')]"
proof -
  have "trace_param (Some ''a'', ''scalar'', ''int'') = (''a'', ''scalar'', None, ''int'')" by code_simp
  with trace_sees_debug_params [OF sample_index_facts(1-3), of "''f''" 1] show ?thesis
    by (simp add: sample_index_facts)
qed

end
