(* ===== verification/Gap_Window.thy ===== *)
theory Gap_Window
  imports Evidence_Joins
begin

text \<open>
  The guard of a closed observation window, \<^verbatim>\<open>env/ai-traffic/gap_window.py\<close>: a window that starts without evidence of
  freshness, is told of a gap, changes its programs, is not sealed exactly once, or sees foreign or capacity-limited events
  reports no identity. What the window hides or shows is stated over the sequence of calls made on it.
\<close>

unbundle bit_operations_syntax

section \<open>The window\<close>

type_synonym instances = "(string \<times> jval) list"

record obs_window =
  w_run :: jval
  w_instances :: instances
  w_reason :: "string option"
  w_changes :: "string list"
  w_closed :: bool

text \<open>Equality of dictionaries does not depend on the order of their keys.\<close>

definition same_dict :: "instances \<Rightarrow> instances \<Rightarrow> bool" where
  "same_dict d e = list_all (\<lambda>k. map_of d k = map_of e k) (map fst d @ map fst e)"

definition invalidate :: "string \<Rightarrow> obs_window \<Rightarrow> obs_window" where
  "invalidate r w =
     w\<lparr>w_changes := w_changes w @ [r], w_reason := (case w_reason w of None \<Rightarrow> Some r | Some x \<Rightarrow> Some x)\<rparr>"

definition positive_int :: "jval \<Rightarrow> bool" where
  "positive_int v = (case v of JInt i \<Rightarrow> i > 0 | _ \<Rightarrow> False)"

definition window_programs :: "string list" where
  "window_programs = [''init'', ''parse'', ''fini'', ''candidate'']"

definition fresh_evidence :: "jval \<Rightarrow> instances \<Rightarrow> bool \<Rightarrow> bool" where
  "fresh_evidence run insts fresh =
     (fresh \<and> positive_int run \<and> set (map fst insts) = set window_programs \<and> list_all (truthy \<circ> snd) insts)"

definition new_window :: "jval \<Rightarrow> instances \<Rightarrow> bool \<Rightarrow> obs_window" where
  "new_window run insts fresh =
     (let w = \<lparr>w_run = run, w_instances = insts, w_reason = None, w_changes = [], w_closed = False\<rparr> in
      if fresh_evidence run insts fresh then w else invalidate ''missing_fresh_window_evidence'' w)"

definition close_window :: "instances \<Rightarrow> obs_window \<Rightarrow> obs_window" where
  "close_window insts w =
     (let w = (if w_closed w \<or> \<not> same_dict insts (w_instances w) then invalidate ''changed_window_identity'' w else w) in
      w\<lparr>w_closed := True\<rparr>)"

text \<open>\<^verbatim>\<open>e["run"] != self.run\<close>; a truth value equals the integer it stands for.\<close>

definition run_is :: "jval \<Rightarrow> int \<Rightarrow> bool" where
  "run_is v r = (case v of JInt i \<Rightarrow> r = i | JBool b \<Rightarrow> r = (if b then 1 else 0) | _ \<Rightarrow> False)"

definition foreign_run :: "jval \<Rightarrow> lifetime_event list \<Rightarrow> candidate_event list \<Rightarrow> bool" where
  "foreign_run run ls cs = list_ex (\<lambda>r. \<not> run_is run r) (map c_run ls @ map k_run cs)"

definition at_capacity :: "lifetime_event list \<Rightarrow> candidate_event list \<Rightarrow> bool" where
  "at_capacity ls cs =
     (list_ex (\<lambda>e. l_kind e = 1 \<and> l_flags e AND 4 \<noteq> 0) ls \<or> list_ex (\<lambda>e. k_flags e AND 256 \<noteq> 0) cs)"

definition observe :: "lifetime_event list \<Rightarrow> candidate_event list \<Rightarrow> obs_window \<Rightarrow> obs_window" where
  "observe ls cs w =
     (let w = (if foreign_run (w_run w) ls cs then invalidate ''changed_run_token'' w else w) in
      if at_capacity ls cs then invalidate ''tracking_capacity'' w else w)"

text \<open>\<^verbatim>\<open>self.reason or (None if self.closed else "window_not_closed")\<close>: an empty reason counts as none.\<close>

definition hidden_for :: "obs_window \<Rightarrow> string option" where
  "hidden_for w =
     (if w_reason w \<noteq> None \<and> w_reason w \<noteq> Some [] then w_reason w
      else if w_closed w then None else Some ''window_not_closed'')"

definition hide_row :: "string \<Rightarrow> corr_row \<Rightarrow> corr_row" where
  "hide_row reason row =
     row\<lparr>cr_status := ''unknown'', cr_reason := reason, cr_actor := JNull, cr_operation := JNull,
         cr_authority_attempt := JNull, cr_originator := JNull, cr_parent := JNull\<rparr>"

definition match_window ::
  "lifetime_event list \<Rightarrow> candidate_event list \<Rightarrow> jobj list \<Rightarrow> jobj \<Rightarrow> obs_window \<Rightarrow> obs_window \<times> corr_row list result"
where
  "match_window ls cs ledger accounting w =
     (let w = observe ls cs w in
      (w, ebind (correlation_join ls cs ledger accounting) (\<lambda>rows.
            Inr (case hidden_for w of None \<Rightarrow> rows | Some r \<Rightarrow> map (hide_row r) rows))))"

section \<open>Sequences of calls\<close>

datatype window_op =
    Report string
  | Seal instances
  | Observe "lifetime_event list" "candidate_event list"

fun apply_op :: "obs_window \<Rightarrow> window_op \<Rightarrow> obs_window" where
  "apply_op w (Report r) = invalidate r w"
| "apply_op w (Seal insts) = close_window insts w"
| "apply_op w (Observe ls cs) = observe ls cs w"

abbreviation window_after :: "jval \<Rightarrow> instances \<Rightarrow> bool \<Rightarrow> window_op list \<Rightarrow> obs_window" where
  "window_after run insts fresh ops \<equiv> foldl apply_op (new_window run insts fresh) ops"

text \<open>What the calls have to be for the window to report identities.\<close>

definition seals :: "window_op list \<Rightarrow> instances list" where
  "seals ops = List.map_filter (\<lambda>x. case x of Seal i \<Rightarrow> Some i | _ \<Rightarrow> None) ops"

fun harmless :: "jval \<Rightarrow> window_op \<Rightarrow> bool" where
  "harmless run (Report r) = False"
| "harmless run (Seal i) = True"
| "harmless run (Observe ls cs) = (\<not> foreign_run run ls cs \<and> \<not> at_capacity ls cs)"

definition trusted :: "jval \<Rightarrow> instances \<Rightarrow> bool \<Rightarrow> window_op list \<Rightarrow> bool" where
  "trusted run insts fresh ops =
     (fresh_evidence run insts fresh \<and> list_all (harmless run) ops \<and>
      (case seals ops of [i] \<Rightarrow> same_dict i insts | _ \<Rightarrow> False))"

lemma invalidate_simps [simp]:
  "w_run (invalidate r w) = w_run w" "w_instances (invalidate r w) = w_instances w" "w_closed (invalidate r w) = w_closed w"
  "w_reason (invalidate r w) \<noteq> None"
  by (auto simp: invalidate_def split: option.split)

lemma invalidate_kept: "w_reason w = Some x \<Longrightarrow> w_reason (invalidate r w) = Some x"
  by (simp add: invalidate_def)

lemma apply_op_fixed:
  "w_run (apply_op w x) = w_run w" "w_instances (apply_op w x) = w_instances w"
  "w_reason w = Some r \<Longrightarrow> w_reason (apply_op w x) = Some r"
  "w_closed (apply_op w x) \<longleftrightarrow> w_closed w \<or> seals [x] \<noteq> []"
  by (cases x; simp add: close_window_def observe_def Let_def seals_def List.map_filter_def invalidate_kept)+

text \<open>A reason is there after the calls where one was there before, or where one of the calls gave one.\<close>

lemma apply_op_clean:
  "w_reason (apply_op w x) = None \<longleftrightarrow>
   w_reason w = None \<and> harmless (w_run w) x \<and> (\<forall>i \<in> set (seals [x]). \<not> w_closed w \<and> same_dict i (w_instances w))"
  by (cases x; cases "w_reason w")
    (auto simp: close_window_def observe_def Let_def seals_def List.map_filter_def invalidate_kept)

lemma seals_Cons: "seals (x # xs) = seals [x] @ seals xs"
  by (simp add: seals_def List.map_filter_def split: option.split)

lemma seals_one: "length (seals [x]) \<le> 1"
  by (simp add: seals_def List.map_filter_def)

lemma ops_clean:
  "w_reason (foldl apply_op w ops) = None \<longleftrightarrow>
   w_reason w = None \<and> list_all (harmless (w_run w)) ops \<and>
   (\<forall>i \<in> set (seals ops). same_dict i (w_instances w)) \<and> (if w_closed w then seals ops = [] else length (seals ops) \<le> 1)"
proof (induction ops arbitrary: w)
  case (Cons x ops)
  have "seals [x] = [] \<or> (\<exists>i. seals [x] = [i])" using seals_one [of x] by (cases "seals [x]") auto
  then show ?case
    by (auto simp: Cons.IH apply_op_clean apply_op_fixed seals_Cons [of x ops])
qed (simp add: seals_def List.map_filter_def)

lemma ops_closed: "w_closed (foldl apply_op w ops) \<longleftrightarrow> w_closed w \<or> seals ops \<noteq> []"
proof (induction ops arbitrary: w)
  case (Cons x ops)
  then show ?case by (auto simp: apply_op_fixed seals_Cons [of x ops])
qed (simp add: seals_def List.map_filter_def)

lemma new_window_simps [simp]:
  "w_run (new_window run insts fresh) = run" "w_instances (new_window run insts fresh) = insts"
  "\<not> w_closed (new_window run insts fresh)" "w_reason (new_window run insts fresh) = None \<longleftrightarrow> fresh_evidence run insts fresh"
  by (auto simp: new_window_def Let_def)

lemma apply_op_reason:
  assumes "w_reason w \<noteq> Some []" "x \<noteq> Report []"
  shows "w_reason (apply_op w x) \<noteq> Some []"
proof -
  have "w_reason (invalidate r v) \<noteq> Some []" if "w_reason v \<noteq> Some []" "r \<noteq> []" for r v
    using that by (cases "w_reason v") (simp_all add: invalidate_def)
  then show ?thesis using assms by (cases x) (simp_all add: close_window_def observe_def Let_def)
qed

lemma ops_reason:
  "w_reason w \<noteq> Some [] \<Longrightarrow> Report [] \<notin> set ops \<Longrightarrow> w_reason (foldl apply_op w ops) \<noteq> Some []"
proof (induction ops arbitrary: w)
  case (Cons x ops)
  have "w_reason (apply_op w x) \<noteq> Some []" by (rule apply_op_reason) (use Cons.prems in auto)
  then have "w_reason (foldl apply_op (apply_op w x) ops) \<noteq> Some []" by (rule Cons.IH) (use Cons.prems in auto)
  then show ?case by simp
qed simp

lemma new_window_reason: "w_reason (new_window run insts fresh) \<noteq> Some []"
  by (simp add: new_window_def invalidate_def Let_def)

lemma trusted_iff:
  "trusted run insts fresh ops \<longleftrightarrow>
   w_reason (window_after run insts fresh ops) = None \<and> w_closed (window_after run insts fresh ops)"
proof -
  have "(case xs of [i] \<Rightarrow> P i | _ \<Rightarrow> False) \<longleftrightarrow> (\<forall>i \<in> set xs. P i) \<and> length xs \<le> 1 \<and> xs \<noteq> []" for P and xs :: "instances list"
    by (cases xs rule: list.exhaust; cases "tl xs") auto
  then show ?thesis by (auto simp: trusted_def ops_clean ops_closed)
qed

lemma hidden_for_iff:
  assumes "Report [] \<notin> set ops"
  shows "hidden_for (window_after run insts fresh ops) = None \<longleftrightarrow> trusted run insts fresh ops"
    "hidden_for (window_after run insts fresh ops) \<noteq> Some []"
  using ops_reason [OF new_window_reason assms] by (auto simp: hidden_for_def trusted_iff)

lemma after_observe: "observe ls cs (window_after run insts fresh ops) = window_after run insts fresh (ops @ [Observe ls cs])"
  by simp

lemma window_guard:
  assumes "Report [] \<notin> set ops"
  shows "snd (match_window ls cs ledger accounting (window_after run insts fresh ops)) =
      (if trusted run insts fresh (ops @ [Observe ls cs]) then correlation_join ls cs ledger accounting
       else ebind (correlation_join ls cs ledger accounting) (\<lambda>rows.
              Inr (map (hide_row (the (hidden_for (window_after run insts fresh (ops @ [Observe ls cs]))))) rows)))"
    "hidden_for (window_after run insts fresh (ops @ [Observe ls cs])) \<noteq> Some []"
proof -
  have r: "Report [] \<notin> set (ops @ [Observe ls cs])" using assms by simp
  have h: "hidden_for (window_after run insts fresh (ops @ [Observe ls cs])) = None \<longleftrightarrow> trusted run insts fresh (ops @ [Observe ls cs])"
    "hidden_for (window_after run insts fresh (ops @ [Observe ls cs])) \<noteq> Some []"
    using hidden_for_iff [OF r] by auto
  show "hidden_for (window_after run insts fresh (ops @ [Observe ls cs])) \<noteq> Some []" by (fact h(2))
  show "snd (match_window ls cs ledger accounting (window_after run insts fresh ops)) =
      (if trusted run insts fresh (ops @ [Observe ls cs]) then correlation_join ls cs ledger accounting
       else ebind (correlation_join ls cs ledger accounting) (\<lambda>rows.
              Inr (map (hide_row (the (hidden_for (window_after run insts fresh (ops @ [Observe ls cs]))))) rows)))"
    using h unfolding match_window_def Let_def after_observe snd_conv
    by (cases "hidden_for (window_after run insts fresh (ops @ [Observe ls cs]))") simp_all
qed

text \<open>
  What the calls told the window, in order: the reason a call gives depends on the calls before it only through an earlier seal.
\<close>

fun complaints_of :: "jval \<Rightarrow> instances \<Rightarrow> bool \<Rightarrow> window_op \<Rightarrow> string list" where
  "complaints_of run insts sealed (Report r) = [r]"
| "complaints_of run insts sealed (Seal i) = (if sealed \<or> \<not> same_dict i insts then [''changed_window_identity''] else [])"
| "complaints_of run insts sealed (Observe ls cs) =
     (if foreign_run run ls cs then [''changed_run_token''] else []) @ (if at_capacity ls cs then [''tracking_capacity''] else [])"

fun complaints :: "jval \<Rightarrow> instances \<Rightarrow> bool \<Rightarrow> window_op list \<Rightarrow> string list" where
  "complaints run insts sealed [] = []"
| "complaints run insts sealed (x # xs) =
     complaints_of run insts sealed x @ complaints run insts (sealed \<or> seals [x] \<noteq> []) xs"

definition told :: "jval \<Rightarrow> instances \<Rightarrow> bool \<Rightarrow> window_op list \<Rightarrow> string list" where
  "told run insts fresh ops =
     (if fresh_evidence run insts fresh then [] else [''missing_fresh_window_evidence'']) @ complaints run insts False ops"

lemma invalidate_changes:
  assumes "w_reason w = (case w_changes w of [] \<Rightarrow> None | r # _ \<Rightarrow> Some r)"
  shows "w_changes (invalidate r w) = w_changes w @ [r]"
    "w_reason (invalidate r w) = (case w_changes w @ [r] of [] \<Rightarrow> None | r # _ \<Rightarrow> Some r)"
  using assms by (auto simp: invalidate_def split: list.splits)

lemma apply_op_changes:
  assumes "w_reason w = (case w_changes w of [] \<Rightarrow> None | r # _ \<Rightarrow> Some r)"
  shows "w_changes (apply_op w x) = w_changes w @ complaints_of (w_run w) (w_instances w) (w_closed w) x"
    "w_reason (apply_op w x) = (case w_changes (apply_op w x) of [] \<Rightarrow> None | r # _ \<Rightarrow> Some r)"
  using assms invalidate_changes [OF assms] invalidate_changes [of "invalidate ''changed_run_token'' w"]
  by (cases x; simp add: close_window_def observe_def Let_def)+

lemma ops_changes:
  assumes "w_reason w = (case w_changes w of [] \<Rightarrow> None | r # _ \<Rightarrow> Some r)"
  shows "w_changes (foldl apply_op w ops) = w_changes w @ complaints (w_run w) (w_instances w) (w_closed w) ops \<and>
    w_reason (foldl apply_op w ops) = (case w_changes (foldl apply_op w ops) of [] \<Rightarrow> None | r # _ \<Rightarrow> Some r)"
  using assms
proof (induction ops arbitrary: w)
  case (Cons x ops)
  from Cons.IH [OF apply_op_changes(2) [OF Cons.prems]] show ?case
    using apply_op_changes(1) [OF Cons.prems] by (simp add: apply_op_fixed)
qed simp

lemma window_told:
  "w_changes (window_after run insts fresh ops) = told run insts fresh ops"
  "w_reason (window_after run insts fresh ops) = (case told run insts fresh ops of [] \<Rightarrow> None | r # _ \<Rightarrow> Some r)"
proof -
  have w: "w_changes (new_window run insts fresh) = (if fresh_evidence run insts fresh then [] else [''missing_fresh_window_evidence''])"
    "w_reason (new_window run insts fresh) = (case w_changes (new_window run insts fresh) of [] \<Rightarrow> None | r # _ \<Rightarrow> Some r)"
    by (simp_all add: new_window_def invalidate_def Let_def)
  from ops_changes [OF w(2), of ops] w(1) show
    "w_changes (window_after run insts fresh ops) = told run insts fresh ops"
    "w_reason (window_after run insts fresh ops) = (case told run insts fresh ops of [] \<Rightarrow> None | r # _ \<Rightarrow> Some r)"
    by (simp_all add: told_def)
qed

lemma hidden_told:
  assumes "Report [] \<notin> set ops" "\<not> trusted run insts fresh ops"
  shows "hidden_for (window_after run insts fresh ops) =
    Some (case told run insts fresh ops of [] \<Rightarrow> ''window_not_closed'' | r # _ \<Rightarrow> r)"
  using hidden_for_iff [OF assms(1), of run insts fresh] assms(2) ops_reason [OF new_window_reason assms(1), of run insts fresh]
    window_told(2) [of run insts fresh ops]
  by (auto simp: hidden_for_def split: list.splits if_splits)

text \<open>
  C8. The window shows identities exactly when it may, and says why when it does not. After any calls on a window, with no empty reason
  reported among them, a match returns what the correlation join returns, unchanged, if the window was opened with evidence of
  freshness, no gap was reported, it was sealed once with the programs it was opened with, and every event it was ever
  given belongs to its run and none met a capacity limit. Otherwise, row by row, it keeps the observation of the join and nothing
  of the identity: the status is unknown, there is no actor, operation, authority attempt, originator or parent, and the reason is the first
  that was given, or that the window is not closed.
\<close>

theorem window_guard_exact:
  assumes "Report [] \<notin> set ops"
  shows "case (correlation_join ls cs ledger accounting, snd (match_window ls cs ledger accounting (window_after run insts fresh ops))) of
      (Inl e, r) \<Rightarrow> r = Inl e
    | (Inr rows, r) \<Rightarrow>
        if trusted run insts fresh (ops @ [Observe ls cs]) then r = Inr rows
        else \<exists>shown. r = Inr shown \<and> list_all2 (\<lambda>row s.
            cr_status s = ''unknown'' \<and> cr_actor s = JNull \<and> cr_operation s = JNull \<and>
            cr_authority_attempt s = JNull \<and> cr_originator s = JNull \<and> cr_parent s = JNull \<and>
            cr_reason s = (case told run insts fresh (ops @ [Observe ls cs]) of [] \<Rightarrow> ''window_not_closed'' | r # _ \<Rightarrow> r) \<and>
            cr_sequence s = cr_sequence row \<and> cr_life s = cr_life row \<and> cr_attempt s = cr_attempt row) rows shown"
proof -
  let ?ops = "ops @ [Observe ls cs]"
  have r: "Report [] \<notin> set ?ops" using assms by simp
  show ?thesis
    using window_guard(1) [OF assms, of ls cs ledger accounting run insts fresh] hidden_told [OF r, of run insts fresh]
    by (cases "correlation_join ls cs ledger accounting")
      (auto simp: hide_row_def list_all2_map2 intro!: list_all2_refl)
qed

definition sample_instances :: instances where
  "sample_instances = [(''init'', JStr ''1''), (''parse'', JStr ''2''), (''fini'', JStr ''3''), (''candidate'', JStr ''4'')]"

definition sample_lives :: "lifetime_event list" where
  "sample_lives = [sample_life 1 1 0, sample_life 3 2 1, sample_life 4 3 1]"

definition sample_candidates :: "candidate_event list" where
  "sample_candidates =
     [\<lparr>k_sequence = 2, k_run = 3, k_failures = 0, k_life = 1, k_attempt = 1, k_flags = 1,
       k_path = JStr ''/mcp'', k_nonce = JStr ''0123456789abcdef0123456789abcdef''\<rparr>]"

definition sample_ledger :: "jobj list" where
  "sample_ledger =
     [[(''path'', JStr ''/mcp''), (''nonce'', JStr ''0123456789abcdef0123456789abcdef''),
       (''attempt'', JInt 1), (''actor'', JStr ''agent-A''), (''auth_evidence'', JStr ''hmac''),
       (''accepted'', JBool True), (''operation'', JStr ''op'')]]"

definition sample_accounting :: jobj where
  "sample_accounting =
     [(''init'', JInt 1), (''parse'', JInt 1), (''fini'', JInt 1), (''candidate'', JInt 1), (''drops'', JInt 0),
      (''errors'', JInt 0), (''selections'', JInt 0)]"

definition shown_actors :: "corr_row list result \<Rightarrow> jval list" where
  "shown_actors r = (case r of Inr rows \<Rightarrow> map cr_actor rows | Inl _ \<Rightarrow> [])"

definition shown_reasons :: "corr_row list result \<Rightarrow> string list" where
  "shown_reasons r = (case r of Inr rows \<Rightarrow> map cr_reason rows | Inl _ \<Rightarrow> [])"

theorem window_guard_exact_witness:
  "shown_actors (snd (match_window sample_lives sample_candidates sample_ledger sample_accounting
      (window_after (JInt 3) sample_instances True [Seal sample_instances]))) = [JStr ''agent-A''] \<and>
   shown_actors (snd (match_window sample_lives sample_candidates sample_ledger sample_accounting
      (window_after (JInt 3) sample_instances True [Report ''missed_boundaries'', Seal sample_instances]))) = [JNull] \<and>
   shown_reasons (snd (match_window sample_lives sample_candidates sample_ledger sample_accounting
      (window_after (JInt 3) sample_instances True [Report ''missed_boundaries'', Seal sample_instances]))) = [''missed_boundaries'']"
proof -
  let ?good = "[Seal sample_instances]" and ?bad = "[Report ''missed_boundaries'', Seal sample_instances]"
  let ?match = "\<lambda>ops. snd (match_window sample_lives sample_candidates sample_ledger sample_accounting
      (window_after (JInt 3) sample_instances True ops))"
  have t: "trusted (JInt 3) sample_instances True (?good @ [Observe sample_lives sample_candidates])"
    "\<not> trusted (JInt 3) sample_instances True (?bad @ [Observe sample_lives sample_candidates])"
    "told (JInt 3) sample_instances True (?bad @ [Observe sample_lives sample_candidates]) = [''missed_boundaries'']" by code_simp+
  have j: "shown_actors (correlation_join sample_lives sample_candidates sample_ledger sample_accounting) = [JStr ''agent-A'']"
    by code_simp
  then obtain row where row: "correlation_join sample_lives sample_candidates sample_ledger sample_accounting = Inr [row]" "cr_actor row = JStr ''agent-A''"
    by (auto simp: shown_actors_def split: sum.splits)
  have "Report [] \<notin> set ?good" "Report [] \<notin> set ?bad" by simp_all
  note g = window_guard_exact [where ls = sample_lives and cs = sample_candidates and ledger = sample_ledger and accounting = sample_accounting and
      run = "JInt 3" and insts = sample_instances and fresh = True, OF this(1)]
    window_guard_exact [where ls = sample_lives and cs = sample_candidates and ledger = sample_ledger and accounting = sample_accounting and
      run = "JInt 3" and insts = sample_instances and fresh = True, OF this(2)]
  have "?match ?good = Inr [row]" using g(1) t(1) unfolding row(1) by simp
  moreover obtain s where "?match ?bad = Inr [s]" "cr_actor s = JNull" "cr_reason s = ''missed_boundaries''"
    using g(2) t(2,3) unfolding row(1) by (auto simp: list_all2_Cons1)
  ultimately show ?thesis using row(2) by (simp add: shown_actors_def shown_reasons_def)
qed

text \<open>An empty reason masks every later one: the gap reported after it does not hide the rows.\<close>

theorem empty_reason_unmasks:
  "shown_actors (snd (match_window sample_lives sample_candidates sample_ledger sample_accounting
      (window_after (JInt 3) sample_instances True [Report [], Report ''missed_boundaries'', Seal sample_instances]))) = [JStr ''agent-A'']"
  by code_simp

end
