(* ===== verification/Py_Codec.thy ===== *)
theory Py_Codec
  imports Sign_Shield
begin

text \<open>
  Library routines of the attribution fixture: the keyed digest \<^verbatim>\<open>hmac.new(key, msg, hashlib.sha256)\<close>, the URL-safe
  base64 of \<^verbatim>\<open>base64\<close>, the two reads of an \<^verbatim>\<open>asyncio.StreamReader\<close> the code uses, and the splitting of a header
  block.
\<close>

section \<open>Keyed digest\<close>

definition hmac_key :: "bytes \<Rightarrow> bytes" where
  "hmac_key key = (let k = (if length key > 64 then sha256 key else key) in k @ replicate (64 - length k) 0)"

definition hmac_sha256 :: "bytes \<Rightarrow> bytes \<Rightarrow> bytes" where
  "hmac_sha256 key msg =
     sha256 (map (\<lambda>b. b XOR 0x5c) (hmac_key key) @ sha256 (map (\<lambda>b. b XOR 0x36) (hmac_key key) @ msg))"

text \<open>\<^verbatim>\<open>hmac.compare_digest\<close> of two texts: equality of ASCII texts, and a \<^verbatim>\<open>TypeError\<close> for others.\<close>

definition is_ascii :: "string \<Rightarrow> bool" where
  "is_ascii s = list_all (\<lambda>c. (of_char c :: nat) < 128) s"

definition compare_digest :: "string \<Rightarrow> string \<Rightarrow> bool result" where
  "compare_digest a b =
     (if is_ascii a \<and> is_ascii b then Inr (a = b)
      else Inl (TypeError ''comparing strings with non-ASCII characters is not supported''))"

section \<open>Base64\<close>

definition b64_char :: "nat \<Rightarrow> char" where
  "b64_char n =
     (if n < 26 then char_of (65 + n) else if n < 52 then char_of (71 + n) else if n < 62 then char_of (n - 4)
      else if n = 62 then CHR ''-'' else CHR ''_'')"

text \<open>The decoder maps the two URL-safe characters to the standard ones, which it accepts as well.\<close>

definition b64_val :: "char \<Rightarrow> nat option" where
  "b64_val c =
     (let n = of_char c in
      if 65 \<le> n \<and> n \<le> 90 then Some (n - 65)
      else if 97 \<le> n \<and> n \<le> 122 then Some (n - 71)
      else if 48 \<le> n \<and> n \<le> 57 then Some (n + 4)
      else if n = 45 \<or> n = 43 then Some 62
      else if n = 95 \<or> n = 47 then Some 63
      else None)"

fun b64_encode :: "bytes \<Rightarrow> string" where
  "b64_encode [] = []"
| "b64_encode [a] = [b64_char (unat a div 4), b64_char ((unat a mod 4) * 16), CHR ''='', CHR ''='']"
| "b64_encode [a, b] =
     [b64_char (unat a div 4), b64_char ((unat a mod 4) * 16 + unat b div 16), b64_char ((unat b mod 16) * 4), CHR ''='']"
| "b64_encode (a # b # c # r) =
     b64_char (unat a div 4) # b64_char ((unat a mod 4) * 16 + unat b div 16) #
     b64_char ((unat b mod 16) * 4 + unat c div 64) # b64_char (unat c mod 64) # b64_encode r"

text \<open>
  The decoder without strict checking: characters outside the alphabet are skipped, and the padding that
  completes a group of four ends the input. \<open>q\<close> is the position in the group, \<open>l\<close> the bits left over, \<open>p\<close> the
  padding seen.
\<close>

fun b64_scan :: "nat \<Rightarrow> nat \<Rightarrow> nat \<Rightarrow> string \<Rightarrow> bytes option" where
  "b64_scan q l p [] = (if q = 0 then Some [] else None)"
| "b64_scan q l p (c # cs) =
     (if c = CHR ''='' then
        (if q \<ge> 2 \<and> q + (p + 1) \<ge> 4 then Some [] else b64_scan q l (if q \<ge> 2 then p + 1 else p) cs)
      else case b64_val c of
        None \<Rightarrow> b64_scan q l p cs
      | Some x \<Rightarrow>
          if q = 0 then b64_scan 1 x 0 cs
          else if q = 1 then map_option ((#) (word_of_nat (l * 4 + x div 16))) (b64_scan 2 (x mod 16) 0 cs)
          else if q = 2 then map_option ((#) (word_of_nat (l * 16 + x div 4))) (b64_scan 3 (x mod 4) 0 cs)
          else map_option ((#) (word_of_nat (l * 64 + x))) (b64_scan 0 0 0 cs))"

definition b64_decode :: "string \<Rightarrow> bytes result" where
  "b64_decode s =
     (if \<not> is_ascii s then Inl (ValueError ''string argument should contain only ASCII characters'')
      else case b64_scan 0 0 0 s of None \<Rightarrow> Inl (ValueError ''Incorrect padding'') | Some bs \<Rightarrow> Inr bs)"

lemma of_b64_char:
  assumes "n < 64"
  shows "(of_char (b64_char n) :: nat) =
    (if n < 26 then 65 + n else if n < 52 then 71 + n else if n < 62 then n - 4 else if n = 62 then 45 else 95)"
  using assms by (simp add: b64_char_def)

lemma b64_char_props:
  assumes "n < 64"
  shows "b64_val (b64_char n) = Some n" "b64_char n \<noteq> CHR ''=''" "CHR ''.'' \<noteq> b64_char n"
    "(of_char (b64_char n) :: nat) < 128"
proof -
  note c = of_b64_char [OF assms]
  show "b64_val (b64_char n) = Some n" using assms by (simp add: b64_val_def Let_def c) linarith
  show "(of_char (b64_char n) :: nat) < 128" using assms by (simp add: c) linarith
  have "(of_char (b64_char n) :: nat) \<noteq> 61" "(of_char (b64_char n) :: nat) \<noteq> 46" using assms by (simp_all add: c) linarith+
  then show "b64_char n \<noteq> CHR ''=''" "CHR ''.'' \<noteq> b64_char n" by (auto dest: sym)
qed

lemma byte_parts [simp]:
  fixes b :: byte
  shows "unat b div 4 < 64" "unat b div 16 < 16" "unat b div 64 < 4" "unat b div 16 div 16 = 0"
    "unat b div 64 div 4 = 0" "unat b div 16 mod 16 = unat b div 16" "unat b div 64 mod 4 = unat b div 64"
  using unat_byte_less [of b] by (simp_all add: less_mult_imp_div_less div_mult2_eq [symmetric])

lemma sextets [simp]:
  fixes a b c :: byte
  shows "unat a mod 4 * 16 + unat b div 16 < 64" "unat b mod 16 * 4 + unat c div 64 < 64"
    "unat a mod 4 * 16 < 64" "unat b mod 16 * 4 < 64"
  using byte_parts(2) [of b] byte_parts(3) [of c] mod_less_divisor [of 4 "unat a"] mod_less_divisor [of 16 "unat b"]
  by linarith+

lemma b64_scan_encode: "b64_scan 0 0 0 (b64_encode bs) = Some bs"
  by (induction bs rule: b64_encode.induct) (simp_all add: b64_char_props)

lemma b64_encode_ascii: "is_ascii (b64_encode bs)"
  by (induction bs rule: b64_encode.induct) (simp_all add: is_ascii_def b64_char_props)

lemma b64_decode_encode [simp]: "b64_decode (b64_encode bs) = Inr bs"
  by (simp add: b64_decode_def b64_encode_ascii b64_scan_encode)

lemma b64_encode_no_dot: "CHR ''.'' \<notin> set (b64_encode bs)"
  by (induction bs rule: b64_encode.induct) (simp_all add: b64_char_props)

section \<open>Streams\<close>

text \<open>
  What is left to read from a connection, up to its end. \<^verbatim>\<open>readuntil\<close> fails where the separator is not within the
  reader's limit of 65536 bytes, and with the bytes read so far where the stream ends before it.
\<close>

definition STREAM_LIMIT :: nat where "STREAM_LIMIT = 65536"

definition crlf :: bytes where "crlf = [13, 10]"

definition readuntil :: "bytes \<Rightarrow> bytes \<Rightarrow> (bytes \<times> bytes) result" where
  "readuntil sep s =
     (case find_at sep 0 s of
        Some i \<Rightarrow>
          if i > STREAM_LIMIT then Inl (LimitOverrunError) else Inr (take (i + length sep) s, drop (i + length sep) s)
      | None \<Rightarrow>
          if length s + 1 - length sep > STREAM_LIMIT then Inl (LimitOverrunError)
          else Inl (IncompleteReadError (s \<noteq> [])))"

definition readexactly :: "nat \<Rightarrow> bytes \<Rightarrow> (bytes \<times> bytes) result" where
  "readexactly n s =
     (if n \<le> length s then Inr (take n s, drop n s) else Inl (IncompleteReadError (s \<noteq> [])))"

text \<open>\<^verbatim>\<open>text.split("\r\n")\<close>.\<close>

fun split_crlf_from :: "string \<Rightarrow> string \<Rightarrow> string list" where
  "split_crlf_from acc [] = [acc]"
| "split_crlf_from acc [c] = [acc @ [c]]"
| "split_crlf_from acc (c # d # cs) =
     (if c = CHR 0x0D \<and> d = CHR 0x0A then acc # split_crlf_from [] cs else split_crlf_from (acc @ [c]) (d # cs))"

definition split_crlf :: "string \<Rightarrow> string list" where
  "split_crlf s = split_crlf_from [] s"

lemma join_split_on: "join [c] (split_on c s) = s"
proof (induction s)
  case (Cons x s)
  obtain y ys where ys: "split_on c s = y # ys" by (cases "split_on c s") auto
  have "join [c] ((x # y) # ys) = x # join [c] (y # ys)" by (cases ys) simp_all
  with Cons ys show ?case by simp
qed simp

lemma readuntil_shorter: "readuntil sep s = Inr (a, r) \<Longrightarrow> s = a @ r"
  by (auto simp: readuntil_def split: option.splits if_splits)

lemma readexactly_shorter: "readexactly n s = Inr (a, r) \<Longrightarrow> s = a @ r \<and> length a = n"
  by (auto simp: readexactly_def split: if_splits)

end
