(* ===== verification/Authority.thy ===== *)
theory Authority
  imports Py_Codec Py_Regex
begin

text \<open>
  The request-proof authority \<^verbatim>\<open>env/ai-traffic/attribution.py\<close>: the fixed-length message reader, the keyed proof of a
  request, delegation grants, the decision on a request with its ledger, the connection loop, and the client
  that signs requests.

  Inputs of a decision are what the code takes from outside: \<^verbatim>\<open>json.loads\<close> (its errors are \<^verbatim>\<open>ValueError\<close>s), the clock
  in whole seconds, and the two random identifiers. Sets and dictionaries are lists without repeated keys; a
  ledger row is the dictionary the code builds. An exception leaves the changes made before it in place, so a
  decision returns the state beside its result.
\<close>

section \<open>Messages\<close>

definition encoded :: "jval \<Rightarrow> bytes" where
  "encoded v = encode_utf8 (dumps v)"

definition proof_bytes :: "string \<Rightarrow> string \<Rightarrow> bytes \<Rightarrow> bytes" where
  "proof_bytes path nonce body =
     encode_utf8 (''POST'' @ [CHR 0x0A]) @ encode_utf8 path @ [10] @ encode_utf8 nonce @ [10] @ body"

definition request_proof :: "bytes \<Rightarrow> string \<Rightarrow> string \<Rightarrow> bytes \<Rightarrow> string" where
  "request_proof key path nonce body = to_hex (hmac_sha256 key (proof_bytes path nonce body))"

definition lower_char :: "char \<Rightarrow> char" where
  "lower_char c = (let n = of_char c :: nat in if 65 \<le> n \<and> n \<le> 90 then char_of (n + 32) else c)"

type_synonym headers = "(string \<times> string) list"

definition header_line :: "headers \<Rightarrow> string \<Rightarrow> headers result" where
  "header_line hs line =
     (case split_max 1 (CHR '':'') line of
        [k, v] \<Rightarrow>
          let k = map lower_char k in
          if map_of hs k \<noteq> None then Inl (ValueError ''duplicate fixture header'') else Inr (hs @ [(k, strip v)])
      | _ \<Rightarrow> Inl (ValueError ''not enough values to unpack''))"

text \<open>\<^verbatim>\<open>lines[1:-2]\<close>.\<close>

definition header_lines :: "string list \<Rightarrow> string list" where
  "header_lines ls = drop 1 (take (length ls - 2) ls)"

definition read_message :: "bytes \<Rightarrow> ((string \<times> headers \<times> bytes) \<times> bytes) result" where
  "read_message s =
     ebind (readuntil (crlf @ crlf) s) (\<lambda>(block, s).
     ebind (decode_ascii block) (\<lambda>txt.
       let ls = split_crlf txt in
       ebind (efold header_line [] (header_lines ls)) (\<lambda>hs.
         if map_of hs ''transfer-encoding'' \<noteq> None then Inl (ValueError ''fixture requires fixed content length'')
         else case map_of hs ''content-length'' of
           None \<Rightarrow> Inl (KeyError ''content-length'')
         | Some cl \<Rightarrow>
             ebind (parse_int cl) (\<lambda>n.
               if \<not> (0 \<le> n \<and> n \<le> 16384) then Inl (ValueError ''fixture message too large'')
               else ebind (readexactly (nat n) s) (\<lambda>(body, s). Inr ((hd ls, hs, body), s))))))"

section \<open>Grants\<close>

record authority =
  a_keys :: "(string \<times> bytes) list"
  a_grant_key :: bytes
  a_seen :: "(string \<times> string) list"
  a_operations :: "(string \<times> jobj) list"
  a_ledger :: "jobj list"
  a_errors :: "string list"

record request_ctx =
  rc_loads :: "bytes \<Rightarrow> jval result"
  rc_now :: int
  rc_attempt :: string
  rc_operation :: string

text \<open>\<^verbatim>\<open>d.get(k)\<close> on a dictionary with text keys: other keys are absent, lists and dictionaries cannot be looked up.\<close>

definition text_get :: "(string \<times> 'a) list \<Rightarrow> jval \<Rightarrow> 'a option result" where
  "text_get d k =
     (case k of
        JStr s \<Rightarrow> Inr (map_of d s)
      | JArr _ \<Rightarrow> Inl (TypeError ''unhashable type'')
      | JObj _ \<Rightarrow> Inl (TypeError ''unhashable type'')
      | _ \<Rightarrow> Inr None)"

definition grant_claims :: "string \<Rightarrow> jval \<Rightarrow> jobj \<Rightarrow> jval \<Rightarrow> int \<Rightarrow> jval" where
  "grant_claims actor recipient parent scope now =
     JObj [(''issuer'', JStr actor), (''recipient'', recipient), (''parent'', jget parent ''operation''),
           (''originator'', jget parent ''originator''), (''scope'', scope), (''audience'', JStr ''fixture-tools''),
           (''expires'', JInt (now + 60))]"

definition sign_grant :: "bytes \<Rightarrow> jval \<Rightarrow> string" where
  "sign_grant gk claims =
     (let payload = b64_encode (encoded claims) in
      payload @ ''.'' @ to_hex (hmac_sha256 gk (encode_utf8 payload)))"

definition mint :: "authority \<Rightarrow> int \<Rightarrow> string \<Rightarrow> jval \<Rightarrow> string result" where
  "mint A now actor params =
     (case params of
        JObj ps \<Rightarrow>
          ebind (text_get (a_operations A) (jget ps ''parent'')) (\<lambda>parent.
            case parent of
              None \<Rightarrow> Inl (Rejected ''parent_not_owned'')
            | Some p \<Rightarrow>
                if jget p ''actor'' \<noteq> JStr actor then Inl (Rejected ''parent_not_owned'')
                else
                  ebind (text_get (a_keys A) (jget ps ''recipient'')) (\<lambda>r.
                    if r = None \<or> jget ps ''scope'' \<noteq> JArr [JStr ''tools/call'']
                    then Inl (Rejected ''delegation_not_permitted'')
                    else Inr (sign_grant (a_grant_key A)
                                (grant_claims actor (jget ps ''recipient'') p (jget ps ''scope'') now))))
      | _ \<Rightarrow> Inl (AttributeError ''get''))"

text \<open>\<^verbatim>\<open>method not in scope\<close>, and \<^verbatim>\<open>expires <= now\<close> of a number.\<close>

definition in_scope :: "jval \<Rightarrow> jval \<Rightarrow> bool result" where
  "in_scope meth scope =
     (case scope of
        JArr xs \<Rightarrow> Inr (meth \<in> set xs)
      | JStr s \<Rightarrow> (case meth of JStr t \<Rightarrow> Inr (contains t s) | _ \<Rightarrow> Inl (TypeError ''in <string> requires string''))
      | JObj d \<Rightarrow> ebind (text_get d meth) (\<lambda>r. Inr (r \<noteq> None))
      | _ \<Rightarrow> Inl (TypeError ''argument is not iterable''))"

definition number_of :: "jval \<Rightarrow> int result" where
  "number_of v =
     (case v of
        JInt i \<Rightarrow> Inr i
      | JBool b \<Rightarrow> Inr (if b then 1 else 0)
      | _ \<Rightarrow> Inl (TypeError ''<= not supported between instances''))"

definition check_claims :: "authority \<Rightarrow> int \<Rightarrow> string \<Rightarrow> jval \<Rightarrow> jval \<Rightarrow> jobj result" where
  "check_claims A now actor meth v =
     (case v of
        JObj claims \<Rightarrow>
          ebind (jitem claims ''parent'') (\<lambda>pk.
          ebind (text_get (a_operations A) pk) (\<lambda>parent.
            case parent of
              None \<Rightarrow> Inl (Rejected ''invalid_grant_parent'')
            | Some p \<Rightarrow>
                ebind (jitem claims ''issuer'') (\<lambda>issuer.
                  if jget p ''actor'' \<noteq> issuer then Inl (Rejected ''invalid_grant_parent'')
                  else
                    ebind (jitem claims ''recipient'') (\<lambda>rcp.
                      if rcp \<noteq> JStr actor then Inl (Rejected ''wrong_grant_recipient'')
                      else
                        ebind (jitem claims ''audience'') (\<lambda>aud.
                        ebind (if aud \<noteq> JStr ''fixture-tools'' then Inr False
                               else ebind (jitem claims ''scope'') (in_scope meth)) (\<lambda>ok.
                          if \<not> ok then Inl (Rejected ''grant_scope'')
                          else
                            ebind (jitem claims ''expires'') (\<lambda>e.
                            ebind (number_of e) (\<lambda>e.
                              if e \<le> now then Inl (Rejected ''expired_grant'') else Inr claims))))))))
      | _ \<Rightarrow> Inl (TypeError ''indices must be integers''))"

fun malformed :: "exn \<Rightarrow> exn" where
  "malformed (ValueError m) = Rejected ''malformed_grant''"
| "malformed (KeyError m) = Rejected ''malformed_grant''"
| "malformed (TypeError m) = Rejected ''malformed_grant''"
| "malformed x = x"

definition catching :: "'a result \<Rightarrow> 'a result" where
  "catching r = (case r of Inl e \<Rightarrow> Inl (malformed e) | Inr x \<Rightarrow> Inr x)"

definition delegation :: "authority \<Rightarrow> request_ctx \<Rightarrow> jval \<Rightarrow> string \<Rightarrow> jval \<Rightarrow> jobj result" where
  "delegation A rc token actor meth =
     (case token of
        JStr t \<Rightarrow>
          catching
            (case split_on (CHR ''.'') t of
               [payload, signature] \<Rightarrow>
                 ebind (compare_digest signature (to_hex (hmac_sha256 (a_grant_key A) (encode_utf8 payload)))) (\<lambda>same.
                   if \<not> same then Inl (Rejected ''invalid_grant_signature'')
                   else
                     ebind (b64_decode payload) (\<lambda>bs.
                     ebind (rc_loads rc bs) (\<lambda>v. check_claims A (rc_now rc) actor meth v)))
             | _ \<Rightarrow> Inl (ValueError ''values to unpack''))
      | _ \<Rightarrow> Inl (AttributeError ''split''))"

section \<open>Decisions\<close>

definition header_or :: "headers \<Rightarrow> string \<Rightarrow> string \<Rightarrow> string" where
  "header_or hs k d = (case map_of hs k of None \<Rightarrow> d | Some v \<Rightarrow> v)"

definition opt_text :: "string option \<Rightarrow> jval" where
  "opt_text v = (case v of None \<Rightarrow> JNull | Some s \<Rightarrow> JStr s)"

definition upd :: "(string \<times> jval) list \<Rightarrow> jobj \<Rightarrow> jobj" where
  "upd kvs d = foldl (\<lambda>d (k, v). AList.update k v d) d kvs"

definition new_row :: "request_ctx \<Rightarrow> string \<Rightarrow> headers \<Rightarrow> bytes \<Rightarrow> string \<Rightarrow> jval \<Rightarrow> jobj" where
  "new_row rc path hs body connection peer =
     [(''attempt'', JStr (rc_attempt rc)), (''nonce'', JStr (header_or hs ''x-proof-nonce'' [])),
      (''connection'', JStr connection), (''peer'', peer), (''path'', JStr path),
      (''body_sha256'', JStr (to_hex (sha256 body))), (''actor'', JNull), (''originator'', JNull), (''parent'', JNull),
      (''claimed_actor'', opt_text (map_of hs ''x-claimed-agent'')), (''accepted'', JBool False),
      (''reason'', JStr ''unauthenticated'')]"

text \<open>The proof is compared only for a known actor with a non-empty key and a non-empty nonce.\<close>

definition authenticate :: "authority \<Rightarrow> string \<Rightarrow> headers \<Rightarrow> bytes \<Rightarrow> jobj \<Rightarrow> (string \<times> jobj) result" where
  "authenticate A path hs body row =
     (let nonce = header_or hs ''x-proof-nonce'' [] in
      case map_of hs ''x-agent-key'' of
        None \<Rightarrow> Inl (Rejected ''invalid_request_proof'')
      | Some actor \<Rightarrow>
          (case map_of (a_keys A) actor of
             None \<Rightarrow> Inl (Rejected ''invalid_request_proof'')
           | Some key \<Rightarrow>
               if key = [] \<or> nonce = [] then Inl (Rejected ''invalid_request_proof'')
               else
                 ebind (compare_digest (request_proof key path nonce body) (header_or hs ''x-request-proof'' [])) (\<lambda>same.
                   if \<not> same then Inl (Rejected ''invalid_request_proof'')
                   else
                     Inr (actor,
                       upd [(''actor'', JStr actor), (''auth_evidence'', JStr ''fixture-hmac-request-proof''),
                            (''principal'', JStr (''configured-principal-'' @ actor)),
                            (''claim_mismatch'', JBool (jget row ''claimed_actor'' \<noteq> JNull \<and> jget row ''claimed_actor'' \<noteq> JStr actor))]
                         row))))"

definition PERMITTED :: "(string \<times> string) list" where
  "PERMITTED = [(''/mcp'', ''tools/call''), (''/mcp'', ''resources/read''), (''/a2a'', ''SendMessage'')]"

text \<open>The originator and parent of a request, and its row with the digest of its grant.\<close>

definition lineage :: "authority \<Rightarrow> request_ctx \<Rightarrow> jobj \<Rightarrow> string \<Rightarrow> jval \<Rightarrow> jobj \<Rightarrow> (jval \<times> jval \<times> jobj) result" where
  "lineage A rc d actor meth row =
     (case map_of d ''delegation'' of
        None \<Rightarrow> Inr (JStr actor, JNull, row)
      | Some token \<Rightarrow>
          ebind (delegation A rc token actor meth) (\<lambda>grant.
          ebind (jitem grant ''originator'') (\<lambda>og.
          ebind (jitem grant ''parent'') (\<lambda>pa.
            Inr (og, pa,
              upd [(''delegation_sha256'', JStr (to_hex (sha256 (encode_utf8 (case token of JStr t \<Rightarrow> t | _ \<Rightarrow> [])))))] row)))))"

definition permit :: "authority \<Rightarrow> request_ctx \<Rightarrow> string \<Rightarrow> jobj \<Rightarrow> string \<Rightarrow> jval \<Rightarrow> jval \<Rightarrow> jobj result" where
  "permit A rc path d actor meth parent =
     (if path = ''/delegate'' \<and> meth = JStr ''delegate'' then
        (if truthy parent then Inl (Rejected ''redelegation_not_supported'')
         else
           ebind (jitem d ''params'') (\<lambda>ps.
           ebind (mint A (rc_now rc) actor ps) (\<lambda>g. Inr [(''grant'', JStr g)])))
      else if \<not> list_ex (\<lambda>(p, m). path = p \<and> meth = JStr m) PERMITTED then Inl (Rejected ''unsupported_fixture_operation'')
      else Inr [])"

text \<open>
  What follows the nonce check: \<open>Inr\<close> an accepted row and the answer, \<open>Inl\<close> the exception with the row as far as
  it was filled in.
\<close>

definition describe :: "jobj \<Rightarrow> jval \<Rightarrow> jobj \<Rightarrow> jobj" where
  "describe d meth row =
     upd [(''method'', meth), (''caller_id'', jget d ''id''), (''caller_operation'', jget d ''operation''),
          (''caller_session'', jget d ''session''), (''caller_task'', jget d ''task'')] row"

definition accept_row :: "request_ctx \<Rightarrow> jval \<Rightarrow> jval \<Rightarrow> jobj \<Rightarrow> jobj" where
  "accept_row rc og pa row =
     upd [(''accepted'', JBool True), (''reason'', JStr ''accepted''), (''operation'', JStr (rc_operation rc)),
          (''originator'', og), (''parent'', pa)] row"

definition authorize ::
  "authority \<Rightarrow> request_ctx \<Rightarrow> string \<Rightarrow> string \<Rightarrow> bytes \<Rightarrow> jobj \<Rightarrow> (exn \<times> jobj) + (jobj \<times> jobj)"
where
  "authorize A rc path actor body row =
     (case rc_loads rc body of
        Inl e \<Rightarrow> Inl (e, row)
      | Inr (JObj d) \<Rightarrow>
          (case jitem d ''method'' of
             Inl e \<Rightarrow> Inl (e, row)
           | Inr meth \<Rightarrow>
               let row = describe d meth row in
               (case lineage A rc d actor meth row of
                  Inl e \<Rightarrow> Inl (e, row)
                | Inr (og, pa, row) \<Rightarrow>
                    (case permit A rc path d actor meth pa of
                       Inl e \<Rightarrow> Inl (e, row)
                     | Inr response \<Rightarrow> Inr (accept_row rc og pa row, response))))
      | Inr _ \<Rightarrow> Inl (TypeError ''indices must be integers'', row))"

text \<open>A rejection is recorded in the ledger and answered; any other exception leaves the function.\<close>

definition rejected :: "authority \<Rightarrow> int \<Rightarrow> exn \<Rightarrow> jobj \<Rightarrow> authority \<times> (int \<times> jobj) result" where
  "rejected A status e row =
     (case e of
        Rejected m \<Rightarrow>
          let row = upd [(''reason'', JStr m)] row in (A\<lparr>a_ledger := a_ledger A @ [row]\<rparr>, Inr (status, row))
      | _ \<Rightarrow> (A, Inl e))"

definition process ::
  "authority \<Rightarrow> request_ctx \<Rightarrow> string \<Rightarrow> headers \<Rightarrow> bytes \<Rightarrow> string \<Rightarrow> jval \<Rightarrow> authority \<times> (int \<times> jobj) result"
where
  "process A rc path hs body connection peer =
     (let row = new_row rc path hs body connection peer; nonce = header_or hs ''x-proof-nonce'' [] in
      case authenticate A path hs body row of
        Inl e \<Rightarrow> rejected A 401 e row
      | Inr (actor, row) \<Rightarrow>
          if (actor, nonce) \<in> set (a_seen A) then rejected A 403 (Rejected ''replayed_nonce'') row
          else
            let A = A\<lparr>a_seen := a_seen A @ [(actor, nonce)]\<rparr> in
            (case authorize A rc path actor body row of
               Inl (e, row) \<Rightarrow> rejected A 403 e row
             | Inr (row, response) \<Rightarrow>
                 (A\<lparr>a_operations := AList.update (rc_operation rc) row (a_operations A),
                    a_ledger := a_ledger A @ [row]\<rparr>,
                  Inr (200, upd row response))))"

section \<open>The connection loop\<close>

lemma read_message_shorter: "read_message s = Inr (m, r) \<Longrightarrow> length r < length s"
proof -
  assume "read_message s = Inr (m, r)"
  then obtain block s1 n body where b: "readuntil (crlf @ crlf) s = Inr (block, s1)" "readexactly n s1 = Inr (body, r)"
    by (auto simp: read_message_def Let_def err_simps split: if_splits option.splits)
  from b(1) have "block \<noteq> []"
    by (auto simp: readuntil_def crlf_def split: option.splits if_splits)
  with readuntil_shorter [OF b(1)] readexactly_shorter [OF b(2)] show ?thesis by auto
qed

definition reply_bytes :: "int \<Rightarrow> jobj \<Rightarrow> bytes" where
  "reply_bytes status response =
     (let payload = encoded (JObj response) in
      encode_utf8 (''HTTP/1.1 '' @ str_int status @ '' Fixture'' @ [CHR 0x0D, CHR 0x0A] @ ''Content-Length: '' @
        str_nat (length payload) @ [CHR 0x0D, CHR 0x0A] @ ''Content-Type: application/json'' @
        [CHR 0x0D, CHR 0x0A, CHR 0x0D, CHR 0x0A]) @ payload)"

text \<open>\<^verbatim>\<open>repr(error)\<close>, of a message that needs no escape.\<close>

definition repr_exn :: "exn \<Rightarrow> string" where
  "repr_exn e =
     (let q = [CHR 0x27] in
      case e of ValueError m \<Rightarrow> ''ValueError('' @ q @ m @ q @ '')'' | KeyError k \<Rightarrow> ''KeyError('' @ q @ k @ q @ '')'' | _ \<Rightarrow> [])"

text \<open>The handlers around the loop: the state, the bytes written, and the exception that leaves the coroutine.\<close>

definition closing :: "authority \<Rightarrow> exn \<Rightarrow> bytes \<Rightarrow> authority \<times> bytes \<times> exn option" where
  "closing A e out =
     (case e of
        IncompleteReadError some \<Rightarrow>
          (if some then A\<lparr>a_errors := a_errors A @ [''truncated request'']\<rparr> else A, out, None)
      | ValueError _ \<Rightarrow> (A\<lparr>a_errors := a_errors A @ [repr_exn e]\<rparr>, out, None)
      | KeyError _ \<Rightarrow> (A\<lparr>a_errors := a_errors A @ [repr_exn e]\<rparr>, out, None)
      | _ \<Rightarrow> (A, out, Some e))"

definition request_path :: "string \<Rightarrow> string result" where
  "request_path first =
     (case split_words first of
        [meth, path, version] \<Rightarrow>
          if meth \<noteq> ''POST'' \<or> version \<noteq> ''HTTP/1.1'' then Inl (ValueError ''unexpected fixture request'') else Inr path
      | _ \<Rightarrow> Inl (ValueError ''values to unpack''))"

text \<open>\<open>rcs n\<close> is what the \<open>n\<close>-th request of the connection takes from outside.\<close>

function serve ::
  "(nat \<Rightarrow> request_ctx) \<Rightarrow> string \<Rightarrow> jval \<Rightarrow> nat \<Rightarrow> authority \<Rightarrow> bytes \<Rightarrow> bytes \<Rightarrow> authority \<times> bytes \<times> exn option"
where
  "serve rcs connection peer n A s out =
     (case read_message s of
        Inl e \<Rightarrow> closing A e out
      | Inr ((first, hs, body), rest) \<Rightarrow>
          (case request_path first of
             Inl e \<Rightarrow> closing A e out
           | Inr path \<Rightarrow>
               (case process A (rcs n) path hs body connection peer of
                  (A', Inl e) \<Rightarrow> closing A' e out
                | (A', Inr (status, response)) \<Rightarrow>
                    serve rcs connection peer (n + 1) A' rest (out @ reply_bytes status response))))"
  by pat_completeness auto
termination
  by (relation "measure (\<lambda>(_, _, _, _, _, s, _). length s)") (auto dest: read_message_shorter)

declare serve.simps [simp del]

section \<open>The client\<close>

record client_opts =
  co_params :: "jval option"
  co_delegation :: "jval option"
  co_key_actor :: "string option"
  co_claimed :: "string option"
  co_status :: int
  co_originator :: "string option"

definition client_body :: "string \<Rightarrow> client_opts \<Rightarrow> bytes" where
  "client_body meth co =
     encoded (JObj
       ([(''jsonrpc'', JStr ''2.0''), (''id'', JInt 7), (''operation'', JStr ''same-operation''),
         (''session'', JStr ''same-session''), (''task'', JStr ''same-task''), (''method'', JStr meth)] @
        (case co_params co of None \<Rightarrow> [] | Some v \<Rightarrow> [(''params'', v)]) @
        (case co_delegation co of None \<Rightarrow> [] | Some v \<Rightarrow> [(''delegation'', v)])))"

definition cr :: string where "cr = [CHR 0x0D, CHR 0x0A]"

text \<open>The message of a request: the key is the named actor's or another's, and must be known to the client.\<close>

definition signed_message ::
  "(string \<times> bytes) list \<Rightarrow> string \<Rightarrow> string \<Rightarrow> string \<Rightarrow> string \<Rightarrow> client_opts \<Rightarrow> bytes result"
where
  "signed_message keys nonce actor path meth co =
     (let body = client_body meth co;
          signer = (case co_key_actor co of None \<Rightarrow> actor | Some k \<Rightarrow> k) in
      case map_of keys signer of
        None \<Rightarrow> Inl (KeyError signer)
      | Some key \<Rightarrow>
          Inr (encode_utf8
            (''POST '' @ path @ '' HTTP/1.1'' @ cr @ ''Host: fixture'' @ cr @ ''Content-Length: '' @ str_nat (length body) @ cr @
             ''X-Agent-Key: '' @ actor @ cr @ ''X-Proof-Nonce: '' @ nonce @ cr @
             ''X-Request-Proof: '' @ request_proof key path nonce body @ cr @
             (case co_claimed co of
                None \<Rightarrow> []
              | Some c \<Rightarrow> if c = [] then [] else ''X-Claimed-Agent: '' @ c @ cr)) @ crlf @ body))"

text \<open>The answer: the status of the first line and the document of the body.\<close>

definition client_answer :: "(bytes \<Rightarrow> jval result) \<Rightarrow> bytes \<Rightarrow> (int \<times> jval) result" where
  "client_answer loads s =
     ebind (read_message s) (\<lambda>((first, _, raw), _).
       case split_words first of
         _ # st # _ \<Rightarrow> ebind (parse_int st) (\<lambda>st. ebind (loads raw) (\<lambda>v. Inr (st, v)))
       | _ \<Rightarrow> Inl IndexError)"

definition client_receipt :: "string \<Rightarrow> jval \<Rightarrow> client_opts \<Rightarrow> bytes \<Rightarrow> string \<Rightarrow> int \<Rightarrow> jobj \<Rightarrow> jobj" where
  "client_receipt name expected co body nonce observed result =
     [(''case'', JStr name), (''expected_actor'', expected), (''expected_status'', JInt (co_status co)),
      (''status'', JInt observed), (''body_sha256'', JStr (to_hex (sha256 body))), (''nonce'', JStr nonce),
      (''result'', JObj (filter (\<lambda>(k, v). k \<noteq> ''grant'') result))]"

text \<open>The expectations of a request, each an assertion.\<close>

definition client_check :: "string \<Rightarrow> jval \<Rightarrow> client_opts \<Rightarrow> int \<Rightarrow> jobj \<Rightarrow> unit result" where
  "client_check actor expected co observed result =
     (if observed \<noteq> co_status co then Inl (AssertionError ''status'')
      else
        ebind (jitem result ''actor'') (\<lambda>a.
          if a \<noteq> expected then Inl (AssertionError ''actor'')
          else
            ebind (jitem result ''accepted'') (\<lambda>acc.
              if acc \<noteq> JBool (observed = 200) then Inl (AssertionError ''accepted'')
              else if observed \<noteq> 200 then Inr ()
              else
                ebind (jitem result ''originator'') (\<lambda>og.
                  if og \<noteq> JStr (case co_originator co of None \<Rightarrow> actor | Some x \<Rightarrow> x)
                  then Inl (AssertionError ''originator'') else Inr ()))))"

end
