(* ===== verification/Authority_Safety.thy ===== *)
theory Authority_Safety
  imports Authority
begin

text \<open>
  Invariants of the request-proof authority over every sequence of requests: a nonce is accepted once per actor,
  an accepted request proved itself under its actor's own key, every recorded operation is an accepted row of the
  ledger, and a delegated request descends from one accepted before it.
\<close>

section \<open>Rows\<close>

lemma upd_simps [simp]: "upd [] d = d" "upd ((k, v) # kvs) d = upd kvs (AList.update k v d)"
  by (simp_all add: upd_def)

lemma jget_upd_other: "k \<notin> fst ` set kvs \<Longrightarrow> jget (upd kvs d) k = jget d k"
  by (induction kvs arbitrary: d) auto

definition accepted :: "jobj \<Rightarrow> bool" where
  "accepted r = (jget r ''accepted'' = JBool True)"

text \<open>Who asked: the actor and the nonce of a row.\<close>

definition who :: "jobj \<Rightarrow> jval \<times> jval" where
  "who r = (jget r ''actor'', jget r ''nonce'')"

text \<open>The keys that no later step of a decision rewrites.\<close>

definition fixed_keys :: "string set" where
  "fixed_keys = {''nonce'', ''path'', ''body_sha256'', ''actor'', ''attempt'', ''connection'', ''peer''}"

definition same_request :: "jobj \<Rightarrow> jobj \<Rightarrow> bool" where
  "same_request r s = (\<forall>k \<in> fixed_keys. jget r k = jget s k)"

lemma same_request_refl [simp]: "same_request r r"
  by (simp add: same_request_def)

lemma same_request_trans: "same_request a b \<Longrightarrow> same_request b c \<Longrightarrow> same_request a c"
  by (simp add: same_request_def)

lemma same_request_who: "same_request r s \<Longrightarrow> who r = who s"
  by (simp add: same_request_def fixed_keys_def who_def)

lemma same_request_upd: "fst ` set kvs \<inter> fixed_keys = {} \<Longrightarrow> same_request (upd kvs r) r"
  unfolding same_request_def by (auto intro!: jget_upd_other)

lemma describe_row: "same_request (describe d m r) r" "jget (describe d m r) ''accepted'' = jget r ''accepted''"
  unfolding describe_def by (rule same_request_upd) (auto simp: fixed_keys_def)

lemma accept_row_row:
  "same_request (accept_row rc og pa r) r" "accepted (accept_row rc og pa r)"
  "jget (accept_row rc og pa r) ''operation'' = JStr (rc_operation rc)"
  "jget (accept_row rc og pa r) ''originator'' = og" "jget (accept_row rc og pa r) ''parent'' = pa"
  unfolding accept_row_def accepted_def by (rule same_request_upd) (auto simp: fixed_keys_def)

lemma new_row_row:
  "\<not> accepted (new_row rc path hs body c p)" "jget (new_row rc path hs body c p) ''nonce'' = JStr (header_or hs ''x-proof-nonce'' [])"
  "jget (new_row rc path hs body c p) ''path'' = JStr path"
  "jget (new_row rc path hs body c p) ''body_sha256'' = JStr (to_hex (sha256 body))"
  by (simp_all add: new_row_def accepted_def jget_def)

section \<open>The parts of a decision\<close>

text \<open>A request proof that verifies: the actor is known, and the sent proof is the keyed digest under its key.\<close>

definition proved :: "authority \<Rightarrow> string \<Rightarrow> headers \<Rightarrow> bytes \<Rightarrow> string \<Rightarrow> bool" where
  "proved A path hs body actor =
     (\<exists>key. map_of hs ''x-agent-key'' = Some actor \<and> map_of (a_keys A) actor = Some key \<and> key \<noteq> [] \<and>
            header_or hs ''x-proof-nonce'' [] \<noteq> [] \<and>
            header_or hs ''x-request-proof'' [] = request_proof key path (header_or hs ''x-proof-nonce'' []) body)"

lemma authenticate_Inr:
  assumes "authenticate A path hs body row = Inr (actor, row')"
  shows "proved A path hs body actor" "jget row' ''actor'' = JStr actor"
    "jget row' ''nonce'' = jget row ''nonce''" "jget row' ''path'' = jget row ''path''"
    "jget row' ''body_sha256'' = jget row ''body_sha256''" "jget row' ''accepted'' = jget row ''accepted''"
  using assms
  by (auto simp: authenticate_def proved_def compare_digest_def Let_def err_simps split: option.splits if_splits)

lemma authenticate_Inl:
  assumes "authenticate A path hs body row = Inl e"
  shows "e = Rejected ''invalid_request_proof'' \<or> (\<exists>m. e = TypeError m)"
  using assms
  by (auto simp: authenticate_def compare_digest_def Let_def err_simps split: option.splits if_splits)

text \<open>Where a request comes from: itself, or an operation that was accepted.\<close>

definition descends :: "authority \<Rightarrow> string \<Rightarrow> jval \<Rightarrow> jval \<Rightarrow> bool" where
  "descends A actor og pa =
     (og = JStr actor \<and> pa = JNull \<or> (\<exists>op p. pa = JStr op \<and> map_of (a_operations A) op = Some p))"

lemma check_claims_Inr:
  assumes "check_claims A now actor meth v = Inr claims"
  obtains op p e where "v = JObj claims" "jitem claims ''parent'' = Inr (JStr op)" "map_of (a_operations A) op = Some p"
    "jitem claims ''issuer'' = Inr (jget p ''actor'')" "jitem claims ''recipient'' = Inr (JStr actor)"
    "jitem claims ''audience'' = Inr (JStr ''fixture-tools'')" "jitem claims ''expires'' = Inr e"
    "\<exists>t. number_of e = Inr t \<and> now < t"
proof -
  from assms obtain cl where v: "v = JObj cl" by (cases v) (auto simp: check_claims_def)
  from assms v obtain pk p where pk: "jitem cl ''parent'' = Inr pk" "text_get (a_operations A) pk = Inr (Some p)"
    by (auto simp: check_claims_def err_simps split: option.splits)
  then obtain op where op: "pk = JStr op" "map_of (a_operations A) op = Some p"
    by (cases pk) (auto simp: text_get_def)
  from assms v pk obtain issuer where i: "jitem cl ''issuer'' = Inr issuer" "jget p ''actor'' = issuer"
    by (auto simp: check_claims_def err_simps split: if_splits)
  from assms v pk i obtain rcp where r: "jitem cl ''recipient'' = Inr rcp" "rcp = JStr actor"
    by (auto simp: check_claims_def err_simps split: if_splits)
  from assms v pk i r obtain aud where a: "jitem cl ''audience'' = Inr aud" "aud = JStr ''fixture-tools''"
    by (auto simp: check_claims_def err_simps split: if_splits)
  from assms v pk i r a obtain e t where e: "jitem cl ''expires'' = Inr e" "number_of e = Inr t" "now < t" "claims = cl"
    by (auto simp: check_claims_def err_simps split: if_splits)
  from v pk op i r a e that show thesis by auto
qed

lemma delegation_Inr:
  assumes "delegation A rc token actor meth = Inr claims"
  obtains payload tag bs v where "token = JStr (payload @ ''.'' @ tag)"
    "tag = to_hex (hmac_sha256 (a_grant_key A) (encode_utf8 payload))" "b64_decode payload = Inr bs"
    "rc_loads rc bs = Inr v" "check_claims A (rc_now rc) actor meth v = Inr claims"
proof -
  from assms obtain t where t: "token = JStr t" by (cases token) (auto simp: delegation_def)
  obtain payload tag where p: "split_on (CHR ''.'') t = [payload, tag]"
    using assms t by (auto simp: delegation_def catching_def split: list.splits sum.splits)
  have tok: "token = JStr (payload @ ''.'' @ tag)" using t p join_split_on [of "CHR ''.''" t] by simp
  from assms t p have d: "ebind (compare_digest tag (to_hex (hmac_sha256 (a_grant_key A) (encode_utf8 payload)))) (\<lambda>same.
      if \<not> same then Inl (Rejected ''invalid_grant_signature'')
      else ebind (b64_decode payload) (\<lambda>bs. ebind (rc_loads rc bs) (\<lambda>v. check_claims A (rc_now rc) actor meth v))) =
    Inr claims"
    by (simp add: delegation_def catching_def split: sum.splits)
  then obtain bs v where "tag = to_hex (hmac_sha256 (a_grant_key A) (encode_utf8 payload))" "b64_decode payload = Inr bs"
    "rc_loads rc bs = Inr v" "check_claims A (rc_now rc) actor meth v = Inr claims"
    by (auto simp: compare_digest_def err_simps split: if_splits)
  with tok that show thesis by blast
qed

lemma lineage_Inr:
  assumes "lineage A rc d actor meth row = Inr (og, pa, row')"
  shows "descends A actor og pa" "same_request row' row" "jget row' ''accepted'' = jget row ''accepted''"
proof -
  have "descends A actor og pa \<and> same_request row' row \<and> jget row' ''accepted'' = jget row ''accepted''"
  proof (cases "map_of d ''delegation''")
    case None
    with assms show ?thesis by (simp add: lineage_def descends_def)
  next
    case (Some token)
    with assms obtain grant where g: "delegation A rc token actor meth = Inr grant" "jitem grant ''parent'' = Inr pa"
      and row': "\<exists>v. row' = upd [(''delegation_sha256'', v)] row"
      by (auto simp: lineage_def err_simps)
    from g(1) obtain v where "check_claims A (rc_now rc) actor meth v = Inr grant" by (rule delegation_Inr)
    then obtain op p where "jitem grant ''parent'' = Inr (JStr op)" "map_of (a_operations A) op = Some p"
      by (rule check_claims_Inr)
    with g(2) have "descends A actor og pa" by (auto simp: descends_def)
    moreover have "same_request row' row" using row' by (auto simp del: upd_simps intro!: same_request_upd simp: fixed_keys_def)
    ultimately show ?thesis using row' by auto
  qed
  then show "descends A actor og pa" "same_request row' row" "jget row' ''accepted'' = jget row ''accepted''" by auto
qed

lemma authorize_Inl:
  assumes "authorize A rc path actor body row = Inl (e, row')"
  shows "same_request row' row" "jget row' ''accepted'' = jget row ''accepted''"
proof -
  have "row' = row \<or> (\<exists>d m. row' = describe d m row) \<or>
      (\<exists>d m og pa. lineage A rc d actor m (describe d m row) = Inr (og, pa, row'))"
    using assms by (auto simp: authorize_def Let_def split: sum.splits jval.splits)
  then have "same_request row' row \<and> jget row' ''accepted'' = jget row ''accepted''"
  proof (elim disjE exE)
    fix d m og pa assume "lineage A rc d actor m (describe d m row) = Inr (og, pa, row')"
    note l = lineage_Inr(2,3) [OF this]
    from same_request_trans [OF l(1) describe_row(1)] l(2) describe_row(2) [of d m row] show ?thesis by simp
  qed (simp_all add: describe_row)
  then show "same_request row' row" "jget row' ''accepted'' = jget row ''accepted''" by auto
qed

lemma authorize_Inr:
  assumes "authorize A rc path actor body row = Inr (row', response)"
  obtains og pa where "descends A actor og pa" "same_request row' row" "accepted row'"
    "jget row' ''operation'' = JStr (rc_operation rc)" "jget row' ''originator'' = og" "jget row' ''parent'' = pa"
proof -
  from assms obtain d meth og pa row2 where l: "lineage A rc d actor meth (describe d meth row) = Inr (og, pa, row2)"
      "row' = accept_row rc og pa row2"
    by (auto simp: authorize_def Let_def split: sum.splits jval.splits)
  from lineage_Inr [OF l(1)] describe_row(1) [of d meth row] accept_row_row [of rc og pa row2] that show thesis
    by (metis l(2) same_request_trans)
qed

text \<open>The nonce a request carries, and the state that has consumed it.\<close>

definition nonce_of :: "headers \<Rightarrow> string" where
  "nonce_of hs = header_or hs ''x-proof-nonce'' []"

definition consume :: "authority \<Rightarrow> string \<Rightarrow> headers \<Rightarrow> authority" where
  "consume A actor hs = A\<lparr>a_seen := a_seen A @ [(actor, nonce_of hs)]\<rparr>"

definition log_row :: "authority \<Rightarrow> jobj \<Rightarrow> authority" where
  "log_row A row = A\<lparr>a_ledger := a_ledger A @ [row]\<rparr>"

text \<open>The row of an accepted request: it names the actor, nonce, path and body of that very request.\<close>

definition row_of :: "jobj \<Rightarrow> string \<Rightarrow> string \<Rightarrow> headers \<Rightarrow> bytes \<Rightarrow> bool" where
  "row_of row actor path hs body =
     (who row = (JStr actor, JStr (nonce_of hs)) \<and> jget row ''path'' = JStr path \<and>
      jget row ''body_sha256'' = JStr (to_hex (sha256 body)))"

lemma rejected_cases:
  assumes "rejected A status e row = (A', r)" "\<not> accepted row"
  obtains (logged) row' where "\<not> accepted row'" "A' = log_row A row'" "r = Inr (status, row')"
  | (raised) "A' = A" "r = Inl e" "\<forall>m. e \<noteq> Rejected m"
proof (cases "\<exists>m. e = Rejected m")
  case True
  then obtain m where m: "e = Rejected m" by blast
  have "\<not> accepted (upd [(''reason'', JStr m)] row)" using assms(2) by (simp add: accepted_def)
  with assms(1) m show thesis by (intro logged) (auto simp: rejected_def log_row_def Let_def)
next
  case False
  with assms(1) show thesis by (intro raised) (cases e; simp add: rejected_def)+
qed

lemma process_cases:
  assumes "process A rc path hs body c p = (A', r)"
  obtains
    (raised) m where "A' = A" "r = Inl (TypeError m)"
  | (refused) row status where "\<not> accepted row" "status \<noteq> 200" "A' = log_row A row" "r = Inr (status, row)"
  | (escaped) actor e where "proved A path hs body actor" "(actor, nonce_of hs) \<notin> set (a_seen A)"
      "A' = consume A actor hs" "r = Inl e" "\<forall>m. e \<noteq> Rejected m"
  | (denied) actor row where "proved A path hs body actor" "(actor, nonce_of hs) \<notin> set (a_seen A)"
      "\<not> accepted row" "A' = log_row (consume A actor hs) row" "r = Inr (403, row)"
  | (granted) actor row og pa response where "proved A path hs body actor" "(actor, nonce_of hs) \<notin> set (a_seen A)"
      "accepted row" "row_of row actor path hs body" "jget row ''operation'' = JStr (rc_operation rc)"
      "descends A actor og pa" "jget row ''originator'' = og" "jget row ''parent'' = pa"
      "A' = (log_row (consume A actor hs) row)\<lparr>a_operations := AList.update (rc_operation rc) row (a_operations A)\<rparr>"
      "r = Inr (200, upd row response)"
proof -
  let ?row = "new_row rc path hs body c p"
  show thesis
  proof (cases "authenticate A path hs body ?row")
    case (Inl e)
    with assms have "rejected A 401 e ?row = (A', r)" by (simp add: process_def)
    from this new_row_row(1) show thesis
    proof (cases rule: rejected_cases)
      case (logged row')
      then show thesis by (intro refused) auto
    next
      case raised': raised
      with authenticate_Inl [OF Inl] show thesis using raised by auto
    qed
  next
    case (Inr q)
    obtain actor row where q: "q = (actor, row)" by (cases q) auto
    note a = authenticate_Inr [OF Inr [unfolded q]]
    have na: "\<not> accepted row" using a(6) new_row_row(1) by (simp add: accepted_def)
    have ro: "row_of row actor path hs body" using a new_row_row by (simp add: row_of_def who_def nonce_of_def)
    show thesis
    proof (cases "(actor, nonce_of hs) \<in> set (a_seen A)")
      case True
      with assms Inr q have "rejected A 403 (Rejected ''replayed_nonce'') row = (A', r)"
        by (simp add: process_def Let_def nonce_of_def)
      from this na show thesis by (cases rule: rejected_cases) (use refused in auto)
    next
      case fresh: False
      let ?A = "consume A actor hs"
      show thesis
      proof (cases "authorize ?A rc path actor body row")
        case er: (Inl er)
        obtain e row' where e: "er = (e, row')" by (cases er) auto
        note al = authorize_Inl [OF er [unfolded e]]
        have na': "\<not> accepted row'" using al(2) na by (simp add: accepted_def)
        from assms Inr q fresh er e have "rejected ?A 403 e row' = (A', r)"
          by (simp add: process_def Let_def nonce_of_def consume_def)
        from this na' show thesis
        proof (cases rule: rejected_cases)
          case (logged row2)
          with a(1) fresh show thesis by (intro denied) auto
        next
          case raised': raised
          with a(1) fresh show thesis by (intro escaped) auto
        qed
      next
        case ok: (Inr rr)
        obtain row' response where rr: "rr = (row', response)" by (cases rr) auto
        from ok [unfolded rr] obtain og pa where g: "descends ?A actor og pa" "same_request row' row" "accepted row'"
          "jget row' ''operation'' = JStr (rc_operation rc)" "jget row' ''originator'' = og" "jget row' ''parent'' = pa"
          by (rule authorize_Inr)
        have ro': "row_of row' actor path hs body"
          using ro g(2) same_request_who [OF g(2)] by (simp add: row_of_def same_request_def fixed_keys_def)
        have "descends A actor og pa" using g(1) by (simp add: descends_def consume_def)
        moreover from assms Inr q fresh ok rr
        have "A' = (log_row ?A row')\<lparr>a_operations := AList.update (rc_operation rc) row' (a_operations A)\<rparr>"
            "r = Inr (200, upd row' response)"
          by (auto simp: process_def Let_def nonce_of_def consume_def log_row_def)
        ultimately show thesis using a(1) fresh g ro' by (intro granted) auto
      qed
    qed
  qed
qed

section \<open>Reachable states\<close>

text \<open>A fresh authority, any request, and the errors the connection loop notes.\<close>

inductive reachable :: "authority \<Rightarrow> bool" where
  start: "a_seen A = [] \<Longrightarrow> a_operations A = [] \<Longrightarrow> a_ledger A = [] \<Longrightarrow> reachable A"
| request: "reachable A \<Longrightarrow> process A rc path hs body c p = (A', r) \<Longrightarrow> reachable A'"
| noted: "reachable A \<Longrightarrow> reachable (A\<lparr>a_errors := es\<rparr>)"

definition seen_vals :: "authority \<Rightarrow> (jval \<times> jval) set" where
  "seen_vals A = (\<lambda>(a, n). (JStr a, JStr n)) ` set (a_seen A)"

definition nonces_ok :: "authority \<Rightarrow> bool" where
  "nonces_ok A =
     (distinct (map who (filter accepted (a_ledger A))) \<and> who ` {r \<in> set (a_ledger A). accepted r} \<subseteq> seen_vals A)"

definition operations_ok :: "authority \<Rightarrow> bool" where
  "operations_ok A =
     (\<forall>op row. map_of (a_operations A) op = Some row \<longrightarrow>
        row \<in> set (a_ledger A) \<and> accepted row \<and> jget row ''operation'' = JStr op)"

text \<open>The \<open>i\<close>-th row, where it was accepted, is its actor's own or names an operation accepted in an earlier row.\<close>

definition rooted :: "jobj list \<Rightarrow> nat \<Rightarrow> bool" where
  "rooted rows i =
     (accepted (rows ! i) \<longrightarrow>
        jget (rows ! i) ''originator'' = jget (rows ! i) ''actor'' \<and> jget (rows ! i) ''parent'' = JNull \<or>
        (\<exists>j < i. accepted (rows ! j) \<and> jget (rows ! i) ''parent'' = jget (rows ! j) ''operation''))"

definition lineage_ok :: "authority \<Rightarrow> bool" where
  "lineage_ok A = (\<forall>i < length (a_ledger A). rooted (a_ledger A) i)"

definition ledger_ok :: "authority \<Rightarrow> bool" where
  "ledger_ok A = (nonces_ok A \<and> operations_ok A \<and> lineage_ok A)"

lemma seen_vals_consume: "seen_vals (consume A actor hs) = insert (JStr actor, JStr (nonce_of hs)) (seen_vals A)"
  by (auto simp: seen_vals_def consume_def)

lemma fresh_who: "(actor, n) \<notin> set (a_seen A) \<Longrightarrow> (JStr actor, JStr n) \<notin> seen_vals A"
  by (auto simp: seen_vals_def)

lemma rooted_append: "i < length rows \<Longrightarrow> rooted (rows @ [r]) i = rooted rows i"
  by (simp add: rooted_def nth_append cong: conj_cong)

lemma lineage_ok_append:
  assumes "\<forall>i < length rows. rooted rows i" "rooted (rows @ [r]) (length rows)"
  shows "\<forall>i < length (rows @ [r]). rooted (rows @ [r]) i"
  using assms by (auto simp: less_Suc_eq rooted_append)

lemma ledger_ok_unaccepted:
  assumes "ledger_ok A" "\<not> accepted row" "a_seen A' = a_seen A @ ns" "a_operations A' = a_operations A"
    "a_ledger A' = a_ledger A @ [row]"
  shows "ledger_ok A'"
proof -
  have s: "seen_vals A \<subseteq> seen_vals A'" by (auto simp: seen_vals_def assms(3))
  have "nonces_ok A'" using assms(1,2) s by (auto simp: ledger_ok_def nonces_ok_def assms(5))
  moreover have "operations_ok A'" using assms(1) by (auto simp: ledger_ok_def operations_ok_def assms(4,5))
  moreover have "rooted (a_ledger A @ [row]) (length (a_ledger A))" using assms(2) by (simp add: rooted_def)
  with assms(1) have "lineage_ok A'"
    unfolding ledger_ok_def lineage_ok_def assms(5) by (intro lineage_ok_append) auto
  ultimately show ?thesis by (simp add: ledger_ok_def)
qed

lemma ledger_ok_same:
  assumes "ledger_ok A" "a_seen A' = a_seen A @ ns" "a_operations A' = a_operations A" "a_ledger A' = a_ledger A"
  shows "ledger_ok A'"
proof -
  have "seen_vals A \<subseteq> seen_vals A'" by (auto simp: seen_vals_def assms(2))
  with assms show ?thesis unfolding ledger_ok_def nonces_ok_def operations_ok_def lineage_ok_def by auto
qed

lemma ledger_ok_granted:
  assumes ok: "ledger_ok A" and fresh: "(actor, nonce_of hs) \<notin> set (a_seen A)" and acc: "accepted row"
    and ro: "row_of row actor path hs body" and op: "jget row ''operation'' = JStr (rc_operation rc)"
    and desc: "descends A actor (jget row ''originator'') (jget row ''parent'')"
    and A': "A' = (log_row (consume A actor hs) row)\<lparr>a_operations := AList.update (rc_operation rc) row (a_operations A)\<rparr>"
  shows "ledger_ok A'"
proof -
  have led: "a_ledger A' = a_ledger A @ [row]" by (simp add: A' log_row_def consume_def)
  have sv: "seen_vals A' = insert (who row) (seen_vals A)"
    using seen_vals_consume [of A actor hs] ro by (simp add: A' log_row_def row_of_def seen_vals_def)
  have new: "who row \<notin> seen_vals A" using ro fresh_who [OF fresh] by (simp add: row_of_def)
  have "nonces_ok A'"
    using ok acc new unfolding ledger_ok_def nonces_ok_def led sv by auto
  moreover have "operations_ok A'"
    using ok acc op unfolding ledger_ok_def operations_ok_def led by (auto simp: A' update_conv')
  moreover have "rooted (a_ledger A @ [row]) (length (a_ledger A))"
  proof -
    have own: "jget row ''actor'' = JStr actor" using ro by (simp add: row_of_def who_def)
    from desc consider "jget row ''originator'' = JStr actor" "jget row ''parent'' = JNull"
      | o' q where "jget row ''parent'' = JStr o'" "map_of (a_operations A) o' = Some q"
      unfolding descends_def by blast
    then show ?thesis
    proof cases
      case 1
      with own show ?thesis by (simp add: rooted_def)
    next
      case 2
      with ok have "q \<in> set (a_ledger A)" "accepted q" "jget q ''operation'' = JStr o'"
        by (auto simp: ledger_ok_def operations_ok_def)
      then obtain k where "k < length (a_ledger A)" "accepted (a_ledger A ! k)" "jget (a_ledger A ! k) ''operation'' = JStr o'"
        by (auto simp: in_set_conv_nth)
      with 2 show ?thesis unfolding rooted_def by (intro impI disjI2 exI [of _ k]) (simp add: nth_append)
    qed
  qed
  with ok have "lineage_ok A'" unfolding ledger_ok_def lineage_ok_def led by (intro lineage_ok_append) auto
  ultimately show ?thesis by (simp add: ledger_ok_def)
qed

lemma process_ledger_ok:
  assumes "process A rc path hs body c p = (A', r)" "ledger_ok A"
  shows "ledger_ok A'"
  using assms(1)
proof (cases rule: process_cases)
  case (refused row status)
  then show ?thesis by (intro ledger_ok_unaccepted [OF assms(2), of row _ "[]"]) (auto simp: log_row_def)
next
  case (escaped actor e)
  then show ?thesis by (intro ledger_ok_same [OF assms(2)]) (auto simp: consume_def)
next
  case (denied actor row)
  then show ?thesis by (intro ledger_ok_unaccepted [OF assms(2)]) (auto simp: log_row_def consume_def)
next
  case (granted actor row og pa response)
  show ?thesis
    by (rule ledger_ok_granted [OF assms(2) granted(2,3,4,5) _ granted(9)]) (use granted(6,7,8) in simp)
qed (use assms(2) in simp)

lemma reachable_ledger_ok: "reachable A \<Longrightarrow> ledger_ok A"
proof (induction rule: reachable.induct)
  case (start A)
  then show ?case by (simp add: ledger_ok_def nonces_ok_def operations_ok_def lineage_ok_def)
next
  case (request A rc path hs body c p A' r)
  then show ?case by (blast intro: process_ledger_ok)
next
  case (noted A es)
  then show ?case by (intro ledger_ok_same [OF noted.IH]) simp_all
qed

text \<open>A connection only makes steps of this relation, whatever bytes arrive on it.\<close>

lemma closing_reachable: "reachable A \<Longrightarrow> reachable (fst (closing A e out))"
  by (cases e) (auto simp: closing_def intro: reachable.noted)

lemma serve_reachable: "reachable A \<Longrightarrow> reachable (fst (serve rcs c p n A s out))"
proof (induction rcs c p n A s out rule: serve.induct)
  case (1 rcs c p n A s out)
  show ?case
  proof (cases "read_message s")
    case (Inl e)
    with "1.prems" show ?thesis by (simp add: serve.simps [of rcs] closing_reachable)
  next
    case (Inr q)
    then obtain first hs body rest where q: "read_message s = Inr ((first, hs, body), rest)" by (cases q) auto
    show ?thesis
    proof (cases "request_path first")
      case (Inl e)
      with q "1.prems" show ?thesis by (simp add: serve.simps [of rcs] closing_reachable)
    next
      case path: (Inr path)
      obtain A' r where r: "process A (rcs n) path hs body c p = (A', r)" by (cases "process A (rcs n) path hs body c p")
      have A': "reachable A'" using "1.prems" r by (rule reachable.request)
      show ?thesis
      proof (cases r)
        case (Inl e)
        with q path r A' show ?thesis by (simp add: serve.simps [of rcs] closing_reachable)
      next
        case (Inr sr)
        obtain status response where sr: "sr = (status, response)" by (cases sr) auto
        from "1.IH" [OF q refl refl refl path r [unfolded Inr sr, symmetric] refl refl A'] q path r Inr sr show ?thesis
          by (simp add: serve.simps [of rcs c p n A])
      qed
    qed
  qed
qed

section \<open>Properties\<close>

text \<open>
  C5. Request proofs are accepted once: in every state the authority can reach, over any connections and any
  bytes, no two accepted rows of the ledger have the same actor and nonce; every recorded operation is an
  accepted row under its own identifier; and an accepted row is its actor's own or names as parent an operation
  that an earlier row accepted.
\<close>

theorem ledger_sound:
  assumes "reachable A"
  shows "(\<forall>i j. i < j \<longrightarrow> j < length (a_ledger A) \<longrightarrow> accepted (a_ledger A ! i) \<longrightarrow> accepted (a_ledger A ! j) \<longrightarrow>
            who (a_ledger A ! i) \<noteq> who (a_ledger A ! j)) \<and>
    (\<forall>op row. map_of (a_operations A) op = Some row \<longrightarrow>
       row \<in> set (a_ledger A) \<and> accepted row \<and> jget row ''operation'' = JStr op) \<and>
    (\<forall>i < length (a_ledger A). rooted (a_ledger A) i)"
proof -
  note ok = reachable_ledger_ok [OF assms]
  have "who (xs ! i) \<noteq> who (xs ! j)"
    if "distinct (map who (filter accepted xs))" "i < j" "j < length xs" "accepted (xs ! i)" "accepted (xs ! j)" for xs i j
    using that
  proof (induction xs arbitrary: i j)
    case (Cons x xs)
    obtain j' where j: "j = Suc j'" "j' < length xs" using Cons.prems(2,3) by (cases j) auto
    show ?case
    proof (cases i)
      case 0
      have "xs ! j' \<in> {r \<in> set xs. accepted r}" using j Cons.prems(5) by simp
      with Cons.prems(1,4) 0 j show ?thesis by auto
    next
      case (Suc i')
      with j Cons.prems have "who (xs ! i') \<noteq> who (xs ! j')"
        by (intro Cons.IH) (auto split: if_splits)
      with Suc j show ?thesis by simp
    qed
  qed simp
  with ok show ?thesis unfolding ledger_ok_def nonces_ok_def operations_ok_def lineage_ok_def by blast
qed

text \<open>
  An action is recorded only for a proved request: an answer with status 200 means the sent proof is the
  keyed digest, under the claimed actor's own key, of exactly this path, nonce and body, the nonce was not used by
  that actor before, and the one row added to the ledger names that actor, nonce, path and body. Any other answer
  adds a row that is not accepted, and records no operation.
\<close>

theorem accepted_is_proved:
  assumes "process A rc path hs body c p = (A', Inr (status, answer))"
  shows "\<exists>row. a_ledger A' = a_ledger A @ [row] \<and> (accepted row \<longleftrightarrow> status = 200) \<and>
    (status \<noteq> 200 \<longrightarrow> a_operations A' = a_operations A) \<and>
    (status = 200 \<longrightarrow>
       (\<exists>actor. proved A path hs body actor \<and> (actor, nonce_of hs) \<notin> set (a_seen A) \<and>
                (actor, nonce_of hs) \<in> set (a_seen A') \<and> row_of row actor path hs body \<and>
                a_operations A' = AList.update (rc_operation rc) row (a_operations A)))"
  using assms by (cases rule: process_cases) (auto simp: log_row_def consume_def)

lemma is_ascii_to_hex [simp]: "is_ascii (to_hex bs)"
proof (induction bs)
  case (Cons b bs)
  have "(of_char (hex_char n) :: nat) < 128" if "n < 16" for n using that by (simp add: hex_char_def)
  moreover have "unat b div 16 < 16" by simp
  ultimately show ?case using Cons by (simp add: is_ascii_def to_hex_def hex_byte_def)
qed (simp add: is_ascii_def to_hex_def)

lemma authenticate_proved:
  assumes "proved A path hs body actor"
  shows "\<exists>row'. authenticate A path hs body row = Inr (actor, row')"
  using assms
  by (auto simp: proved_def authenticate_def compare_digest_def request_proof_def Let_def)

text \<open>A proved request whose body is no document, or no object, raises after its nonce is spent: no row tells of it.\<close>

lemma escaped_request:
  assumes "proved A path hs body actor" "(actor, nonce_of hs) \<notin> set (a_seen A)"
    and "rc_loads rc body = Inl (ValueError m)"
  shows "process A rc path hs body c p = (consume A actor hs, Inl (ValueError m))"
proof -
  obtain row where "authenticate A path hs body (new_row rc path hs body c p) = Inr (actor, row)"
    using authenticate_proved [OF assms(1)] by blast
  with assms(2,3) show ?thesis
    by (simp add: process_def Let_def authorize_def rejected_def consume_def nonce_of_def)
qed

lemma escaped_list:
  assumes "proved A path hs body actor" "(actor, nonce_of hs) \<notin> set (a_seen A)" "rc_loads rc body = Inr (JArr xs)"
  shows "\<exists>m. process A rc path hs body c p = (consume A actor hs, Inl (TypeError m)) \<and>
             closing (consume A actor hs) (TypeError m) out = (consume A actor hs, out, Some (TypeError m))"
proof -
  obtain row where "authenticate A path hs body (new_row rc path hs body c p) = Inr (actor, row)"
    using authenticate_proved [OF assms(1)] by blast
  with assms(2,3) show ?thesis
    by (simp add: process_def Let_def authorize_def rejected_def consume_def nonce_of_def closing_def)
qed

section \<open>A worked history\<close>

text \<open>One agent with one key, its request for a tool call, and the authority after it.\<close>

definition demo_key :: bytes where "demo_key = replicate 32 7"

definition demo_authority :: authority where
  "demo_authority =
     \<lparr>a_keys = [(''agent-A'', demo_key)], a_grant_key = replicate 32 9, a_seen = [], a_operations = [], a_ledger = [],
      a_errors = []\<rparr>"

definition demo_doc :: jobj where
  "demo_doc = [(''method'', JStr ''tools/call'')]"

definition demo_rc :: request_ctx where
  "demo_rc = \<lparr>rc_loads = (\<lambda>_. Inr (JObj demo_doc)), rc_now = 100, rc_attempt = ''a1'', rc_operation = ''op1''\<rparr>"

definition demo_body :: bytes where "demo_body = encoded (JObj demo_doc)"

definition demo_headers :: headers where
  "demo_headers =
     [(''x-agent-key'', ''agent-A''), (''x-proof-nonce'', ''n1''),
      (''x-request-proof'', request_proof demo_key ''/mcp'' ''n1'' demo_body)]"

lemma demo_proved: "proved demo_authority ''/mcp'' demo_headers demo_body ''agent-A''" "nonce_of demo_headers = ''n1''"
  by (simp_all add: proved_def demo_authority_def demo_headers_def demo_key_def header_or_def nonce_of_def)

lemma demo_accepted:
  obtains A' answer where "process demo_authority demo_rc ''/mcp'' demo_headers demo_body ''c1'' JNull = (A', Inr (200, answer))"
proof -
  obtain row where "authenticate demo_authority ''/mcp'' demo_headers demo_body
      (new_row demo_rc ''/mcp'' demo_headers demo_body ''c1'' JNull) = Inr (''agent-A'', row)"
    using authenticate_proved [OF demo_proved(1)] by blast
  moreover have "a_seen demo_authority = []" by (simp add: demo_authority_def)
  ultimately show thesis
    using that
    by (simp add: process_def Let_def authorize_def demo_rc_def demo_doc_def jitem_def lineage_def permit_def PERMITTED_def)
qed

lemma demo_reachable: "reachable demo_authority"
  by (rule reachable.start) (simp_all add: demo_authority_def)

theorem ledger_sound_witness:
  "\<exists>A. reachable A \<and> length (a_ledger A) = 1 \<and> accepted (a_ledger A ! 0) \<and> rooted (a_ledger A) 0"
proof -
  obtain A' answer where p: "process demo_authority demo_rc ''/mcp'' demo_headers demo_body ''c1'' JNull = (A', Inr (200, answer))"
    by (rule demo_accepted)
  have r: "reachable A'" by (rule reachable.request [OF demo_reachable p])
  from p have "length (a_ledger A') = 1 \<and> accepted (a_ledger A' ! 0)"
    by (cases rule: process_cases) (auto simp: log_row_def consume_def demo_authority_def)
  with r ledger_sound [OF r] show ?thesis by auto
qed

theorem accepted_is_proved_witness:
  "\<exists>A' answer. process demo_authority demo_rc ''/mcp'' demo_headers demo_body ''c1'' JNull = (A', Inr (200, answer)) \<and>
     (''agent-A'', ''n1'') \<in> set (a_seen A')"
proof -
  obtain A' answer where p: "process demo_authority demo_rc ''/mcp'' demo_headers demo_body ''c1'' JNull = (A', Inr (200, answer))"
    by (rule demo_accepted)
  from accepted_is_proved [OF p] obtain actor where "proved demo_authority ''/mcp'' demo_headers demo_body actor"
      "(actor, nonce_of demo_headers) \<in> set (a_seen A')" by auto
  moreover from this(1) have "actor = ''agent-A''" by (auto simp: proved_def demo_headers_def)
  ultimately show ?thesis using p demo_proved(2) by auto
qed

text \<open>The same request with a body that is no document: the nonce is spent and the ledger stays empty.\<close>

theorem authenticated_request_unlogged:
  "process demo_authority (demo_rc\<lparr>rc_loads := \<lambda>_. Inl (ValueError ''Expecting value'')\<rparr>) ''/mcp'' demo_headers demo_body ''c1'' JNull =
   (demo_authority\<lparr>a_seen := [(''agent-A'', ''n1'')]\<rparr>, Inl (ValueError ''Expecting value''))"
  using escaped_request [OF demo_proved(1), of "demo_rc\<lparr>rc_loads := \<lambda>_. Inl (ValueError ''Expecting value'')\<rparr>" "''Expecting value''"]
  by (simp add: consume_def demo_proved(2) demo_authority_def)

section \<open>Grants\<close>

lemma check_claims_grant:
  assumes "JObj cl = grant_claims issuer (JStr rcp) p (JArr [JStr ''tools/call'']) t0" "\<forall>k. map_of cs k = map_of cl k"
    and "jget p ''operation'' = JStr op" "map_of (a_operations A) op = Some p" "jget p ''actor'' = JStr issuer"
  shows "check_claims A now actor meth (JObj cs) =
    (if actor \<noteq> rcp then Inl (Rejected ''wrong_grant_recipient'')
     else if meth \<noteq> JStr ''tools/call'' then Inl (Rejected ''grant_scope'')
     else if t0 + 60 \<le> now then Inl (Rejected ''expired_grant'') else Inr cs)"
  using assms by (auto simp: check_claims_def grant_claims_def jitem_def text_get_def in_scope_def number_of_def)

lemma to_hex_no_dot: "CHR ''.'' \<notin> set (to_hex bs)"
proof (induction bs)
  case (Cons b bs)
  have "CHR ''.'' \<noteq> hex_char n" if "n < 16" for n
    using that hex_char_props [OF that] by (auto simp: hex_val_def Let_def dest!: sym [of "CHR ''.''"])
  moreover have "unat b div 16 < 16" "unat b mod 16 < 16" by simp_all
  ultimately show ?case using Cons by (simp add: to_hex_def hex_byte_def)
qed (simp add: to_hex_def)

lemma delegation_signed:
  assumes "rc_loads rc (encoded v) = Inr w"
  shows "delegation A rc (JStr (sign_grant (a_grant_key A) v)) actor meth = catching (check_claims A (rc_now rc) actor meth w)"
proof -
  let ?p = "b64_encode (encoded v)" and ?tag = "to_hex (hmac_sha256 (a_grant_key A) (encode_utf8 (b64_encode (encoded v))))"
  have "split_on (CHR ''.'') (?p @ CHR ''.'' # ?tag) = [?p, ?tag]"
    using b64_encode_no_dot to_hex_no_dot by (simp add: split_on_append split_on_no_sep)
  with assms show ?thesis by (simp add: delegation_def sign_grant_def Let_def compare_digest_def)
qed

text \<open>
  C7. A grant gives exactly what was delegated: a token minted for an accepted operation of the actor is taken, in
  any later state that still has that operation, only from its recipient, only for the delegated method and only
  within sixty seconds, and the request then carries the originator and the operation of the grantor's row; every
  other use is rejected with its reason. The reader of documents has to give the claims back in some order of keys.
\<close>

theorem grant_roundtrip:
  assumes "reachable A" "mint A t0 issuer (JObj ps) = Inr token" "jget ps ''recipient'' = JStr rcp"
    and "map_of (a_operations A) op = Some p" "jget ps ''parent'' = JStr op"
    and "a_grant_key B = a_grant_key A" "map_of (a_operations B) op = Some p"
    and "JObj cl = grant_claims issuer (JStr rcp) p (JArr [JStr ''tools/call'']) t0"
    and "rc_loads rc (encoded (JObj cl)) = Inr (JObj cs)" "\<forall>k. map_of cs k = map_of cl k"
  shows "delegation B rc (JStr token) actor meth =
    (if actor \<noteq> rcp then Inl (Rejected ''wrong_grant_recipient'')
     else if meth \<noteq> JStr ''tools/call'' then Inl (Rejected ''grant_scope'')
     else if t0 + 60 \<le> rc_now rc then Inl (Rejected ''expired_grant'') else Inr cs) \<and>
    jget cs ''originator'' = jget p ''originator'' \<and> jget cs ''parent'' = JStr op"
proof -
  from assms(2-5) have m: "jget p ''actor'' = JStr issuer" "jget ps ''scope'' = JArr [JStr ''tools/call'']"
      "token = sign_grant (a_grant_key A) (grant_claims issuer (JStr rcp) p (JArr [JStr ''tools/call'']) t0)"
    by (auto simp: mint_def text_get_def err_simps split: if_splits)
  from reachable_ledger_ok [OF assms(1)] assms(4) have o: "jget p ''operation'' = JStr op"
    by (auto simp: ledger_ok_def operations_ok_def)
  have tok: "token = sign_grant (a_grant_key B) (JObj cl)" using m(3) assms(6,8) by simp
  have "delegation B rc (JStr token) actor meth = catching (check_claims B (rc_now rc) actor meth (JObj cs))"
    unfolding tok by (rule delegation_signed [OF assms(9)])
  moreover have "jget cs ''originator'' = jget p ''originator''" "jget cs ''parent'' = JStr op"
    using assms(8,10) o by (auto simp: jget_def grant_claims_def)
  ultimately show ?thesis
    using check_claims_grant [OF assms(8,10) o assms(7) m(1), of "rc_now rc" actor meth] by (simp add: catching_def)
qed

definition demo_params :: jobj where
  "demo_params = [(''parent'', JStr ''op1''), (''recipient'', JStr ''agent-A''), (''scope'', JArr [JStr ''tools/call''])]"

theorem grant_roundtrip_witness:
  "\<exists>A token p cs. reachable A \<and> mint A 100 ''agent-A'' (JObj demo_params) = Inr token \<and>
     map_of (a_operations A) ''op1'' = Some p \<and>
     delegation A (demo_rc\<lparr>rc_now := 130, rc_loads := \<lambda>_. Inr (JObj cs)\<rparr>) (JStr token) ''agent-A'' (JStr ''tools/call'') = Inr cs \<and>
     delegation A (demo_rc\<lparr>rc_now := 160, rc_loads := \<lambda>_. Inr (JObj cs)\<rparr>) (JStr token) ''agent-A'' (JStr ''tools/call'') =
       Inl (Rejected ''expired_grant'') \<and>
     jget cs ''originator'' = jget p ''originator''"
proof -
  obtain A' answer where pr: "process demo_authority demo_rc ''/mcp'' demo_headers demo_body ''c1'' JNull = (A', Inr (200, answer))"
    by (rule demo_accepted)
  have r: "reachable A'" by (rule reachable.request [OF demo_reachable pr])
  from pr obtain p where p: "map_of (a_operations A') ''op1'' = Some p" "jget p ''actor'' = JStr ''agent-A''" "a_keys A' = [(''agent-A'', demo_key)]"
  proof (cases rule: process_cases)
    case (granted actor row og pa response)
    have "actor = ''agent-A''" using granted(1) by (auto simp: proved_def demo_headers_def)
    then have "jget row ''actor'' = JStr ''agent-A''" using granted(4) by (simp add: row_of_def who_def)
    with granted(9) that show thesis
      by (auto simp: demo_rc_def update_conv' log_row_def consume_def demo_authority_def)
  qed auto
  define cl where "cl = [(''issuer'', JStr ''agent-A''), (''recipient'', JStr ''agent-A''), (''parent'', jget p ''operation''),
     (''originator'', jget p ''originator''), (''scope'', JArr [JStr ''tools/call'']), (''audience'', JStr ''fixture-tools''),
     (''expires'', JInt 160)]"
  have cl: "JObj cl = grant_claims ''agent-A'' (JStr ''agent-A'') p (JArr [JStr ''tools/call'']) 100"
    by (simp add: cl_def grant_claims_def)
  obtain token where t: "mint A' 100 ''agent-A'' (JObj demo_params) = Inr token"
    using p by (simp add: mint_def demo_params_def jget_def text_get_def)
  note g = grant_roundtrip [OF r t _ p(1) _ refl p(1) cl]
  have "delegation A' (demo_rc\<lparr>rc_now := 130, rc_loads := \<lambda>_. Inr (JObj cl)\<rparr>) (JStr token) ''agent-A'' (JStr ''tools/call'') = Inr cl"
      "jget cl ''originator'' = jget p ''originator''"
    using g [of "demo_rc\<lparr>rc_now := 130, rc_loads := \<lambda>_. Inr (JObj cl)\<rparr>" cl "''agent-A''" "JStr ''tools/call''"]
    by (simp_all add: demo_params_def jget_def)
  moreover have "delegation A' (demo_rc\<lparr>rc_now := 160, rc_loads := \<lambda>_. Inr (JObj cl)\<rparr>) (JStr token) ''agent-A'' (JStr ''tools/call'') =
      Inl (Rejected ''expired_grant'')"
    using g [of "demo_rc\<lparr>rc_now := 160, rc_loads := \<lambda>_. Inr (JObj cl)\<rparr>" cl "''agent-A''" "JStr ''tools/call''"]
    by (simp add: demo_params_def jget_def)
  ultimately show ?thesis using r t p(1) by blast
qed

end
