(* ===== verification/Authority_Wire.thy ===== *)
theory Authority_Wire
  imports Authority_Safety
begin

text \<open>
  The wire between the client and the authority of \<^verbatim>\<open>env/ai-traffic/attribution.py\<close>: a message the client writes is
  read back as that request, with the rest of the connection untouched, and proves itself.
\<close>

section \<open>Text and lines\<close>

lemma encode_ascii: "is_ascii s \<Longrightarrow> encode_utf8 s = map (\<lambda>c. word_of_nat (of_char c)) s"
  by (induction s) (simp_all add: encode_utf8_def encode_char_def is_ascii_def Let_def)

lemma ascii_byte:
  assumes "(of_char c :: nat) < 128"
  shows "unat (word_of_nat (of_char c) :: byte) = of_char c"
  using assms by (simp add: unat_of_nat)

lemma decode_encode: "is_ascii s \<Longrightarrow> decode_ascii (encode_utf8 s) = Inr s"
  by (simp add: encode_ascii decode_ascii_def list_all_iff is_ascii_def ascii_byte comp_def map_idI word_less_nat_alt)

lemma is_ascii_append [simp]: "is_ascii (s @ t) \<longleftrightarrow> is_ascii s \<and> is_ascii t" "is_ascii (c # s) \<longleftrightarrow> (of_char c :: nat) < 128 \<and> is_ascii s" "is_ascii []"
  by (simp_all add: is_ascii_def)

lemma is_ascii_str_nat [simp]: "is_ascii (str_nat n)"
  using str_nat_digits [of n] by (auto simp: is_ascii_def list_all_iff is_digit_def)

lemma encode_utf8_append [simp]: "encode_utf8 (s @ t) = encode_utf8 s @ encode_utf8 t" "encode_utf8 [] = []"
  by (simp_all add: encode_utf8_def)

text \<open>A line of a message: some text without a carriage return.\<close>

definition msg_line :: "string \<Rightarrow> bool" where
  "msg_line l = (l \<noteq> [] \<and> is_ascii l \<and> CHR 0x0D \<notin> set l)"

definition lines_text :: "string list \<Rightarrow> string" where
  "lines_text ls = concat (map (\<lambda>l. l @ cr) ls)"

lemma find_at_skip: "c \<notin> set l \<Longrightarrow> find_at (c # sub) i (l @ s) = find_at (c # sub) (i + length l) s"
  by (induction l arbitrary: i) auto

lemma find_block:
  fixes ls :: "'a list list"
  assumes "ls \<noteq> []" "\<forall>l \<in> set ls. l \<noteq> [] \<and> c \<notin> set l" "d \<noteq> c"
  shows "find_at [c, d, c, d] i (concat (map (\<lambda>l. l @ [c, d]) ls) @ [c, d] @ rest) =
    Some (i + length (concat (map (\<lambda>l. l @ [c, d]) ls)) - 2)"
  using assms(1,2)
proof (induction ls arbitrary: i rule: induct_list012)
  case (2 l)
  then show ?case using find_at_skip [of c l "[d, c, d]" i "[c, d, c, d] @ rest"] by simp
next
  case (3 l m ls)
  obtain x xs where m: "m = x # xs" using "3.prems"(2) by (cases m) auto
  have x: "x \<noteq> c" using "3.prems"(2) m by auto
  let ?t = "concat (map (\<lambda>l. l @ [c, d]) (m # ls)) @ [c, d] @ rest"
  have "find_at [c, d, c, d] i (l @ [c, d] @ ?t) = find_at [c, d, c, d] (i + length l) ([c, d] @ ?t)"
    using "3.prems"(2) by (intro find_at_skip) simp
  also have "\<dots> = find_at [c, d, c, d] (i + length l + 2) ?t" using x assms(3) m by simp
  also have "\<dots> = Some (i + length l + 2 + length (concat (map (\<lambda>l. l @ [c, d]) (m # ls))) - 2)"
    by (rule "3.IH"(2)) (use "3.prems" in auto)
  finally show ?case by simp
qed simp

lemma split_crlf_line: "CHR 0x0D \<notin> set l \<Longrightarrow> split_crlf_from acc (l @ cr @ s) = (acc @ l) # split_crlf_from [] s"
proof (induction l arbitrary: acc)
  case (Cons c l)
  then show ?case by (cases l) (auto simp: cr_def)
qed (simp add: cr_def)

lemma split_crlf_lines: "\<forall>l \<in> set ls. CHR 0x0D \<notin> set l \<Longrightarrow> split_crlf (lines_text ls @ cr) = ls @ [[], []]"
proof -
  assume "\<forall>l \<in> set ls. CHR 0x0D \<notin> set l"
  then have "split_crlf_from [] (lines_text ls @ cr) = ls @ [[], []]"
  proof (induction ls)
    case Nil
    then show ?case by (simp add: lines_text_def cr_def)
  next
    case (Cons l ls)
    then show ?case using split_crlf_line [of l "[]" "lines_text ls @ cr"] by (simp add: lines_text_def)
  qed
  then show ?thesis by (simp add: split_crlf_def)
qed

lemma encode_cr [simp]: "encode_utf8 cr = crlf"
  by (simp add: cr_def crlf_def encode_utf8_def encode_char_def)

lemma encode_lines: "encode_utf8 (lines_text ls) = concat (map (\<lambda>l. l @ crlf) (map encode_utf8 ls))"
  by (induction ls) (simp_all add: lines_text_def)

lemma encode_line_no_cr:
  assumes "msg_line l"
  shows "encode_utf8 l \<noteq> []" "13 \<notin> set (encode_utf8 l)"
proof -
  have a: "is_ascii l" using assms by (simp add: msg_line_def)
  show "encode_utf8 l \<noteq> []" using assms by (simp add: encode_ascii [OF a] msg_line_def)
  show "13 \<notin> set (encode_utf8 l)"
  proof
    assume "13 \<in> set (encode_utf8 l)"
    then obtain c where c: "c \<in> set l" "(13 :: byte) = word_of_nat (of_char c)" by (auto simp: encode_ascii [OF a])
    have "(of_char c :: nat) < 128" using a c(1) by (simp add: is_ascii_def list_all_iff)
    with arg_cong [OF c(2), of unat] have "(of_char c :: nat) = 13" by (simp add: ascii_byte)
    then have "(of_char c :: nat) = of_char (CHR 0x0D)" by simp
    then have "c = CHR 0x0D" by (simp only: of_char_eq_iff)
    with c(1) assms show False by (simp add: msg_line_def)
  qed
qed

lemma readuntil_block:
  assumes "ls \<noteq> []" "\<forall>l \<in> set ls. msg_line l" "length (encode_utf8 (lines_text ls)) \<le> STREAM_LIMIT"
  shows "readuntil (crlf @ crlf) (encode_utf8 (lines_text ls) @ crlf @ rest) = Inr (encode_utf8 (lines_text ls @ cr), rest)"
proof -
  let ?b = "encode_utf8 (lines_text ls)"
  have "find_at [13, 10, 13, 10] 0 (concat (map (\<lambda>l. l @ [13, 10]) (map encode_utf8 ls)) @ [13, 10] @ rest) =
      Some (0 + length (concat (map (\<lambda>l. l @ [13, 10]) (map encode_utf8 ls))) - 2)"
    by (rule find_block) (use assms(1,2) encode_line_no_cr in auto)
  then have "find_at (crlf @ crlf) 0 (?b @ crlf @ rest) = Some (length ?b - 2)"
    unfolding encode_lines by (simp add: crlf_def)
  moreover have "2 \<le> length ?b" using assms(1) by (cases ls) (simp_all add: lines_text_def crlf_def)
  then obtain n where "length ?b = n + 2" by (metis add.commute le_add_diff_inverse)
  ultimately show ?thesis using assms(3) by (simp add: readuntil_def crlf_def)
qed

section \<open>Headers\<close>

definition hline :: "string \<times> string \<Rightarrow> string" where
  "hline kv = fst kv @ '': '' @ snd kv"

definition low :: "string \<times> string \<Rightarrow> string \<times> string" where
  "low kv = (map lower_char (fst kv), snd kv)"

lemma strip_clean:
  assumes "clean v"
  shows "strip (CHR '' '' # v) = v"
proof -
  have d: "dropWhile is_space s = s" if "clean s" for s using that by (cases s) auto
  have "clean (rev v)" using assms by (simp add: clean_def)
  moreover have "is_space (CHR '' '')" by (simp add: is_space_def is_ascii_space_def)
  ultimately show ?thesis using assms by (simp add: strip_def d)
qed

lemma header_line_hline:
  assumes "CHR '':'' \<notin> set k" "clean v" "map lower_char k \<notin> set (map fst hs)"
  shows "header_line hs (hline (k, v)) = Inr (hs @ [low (k, v)])"
proof -
  have "split_max 1 (CHR '':'') (hline (k, v)) = [k, CHR '' '' # v]"
    using split_max_append [OF assms(1), of 0 "CHR '' '' # v"] by (simp add: hline_def)
  moreover have "map_of hs (map lower_char k) = None" using assms(3) by (simp add: map_of_eq_None_iff)
  ultimately show ?thesis by (simp add: header_line_def Let_def strip_clean [OF assms(2)] low_def)
qed

lemma header_lines_read:
  assumes "\<forall>(k, v) \<in> set kvs. CHR '':'' \<notin> set k \<and> clean v" "distinct (map fst hs @ map (fst \<circ> low) kvs)"
  shows "efold header_line hs (map hline kvs) = Inr (hs @ map low kvs)"
  using assms
proof (induction kvs arbitrary: hs)
  case (Cons kv kvs)
  obtain k v where kv: "kv = (k, v)" by (cases kv)
  have h: "header_line hs (hline kv) = Inr (hs @ [low kv])"
    using Cons.prems by (simp add: kv header_line_hline low_def)
  have "efold header_line (hs @ [low kv]) (map hline kvs) = Inr ((hs @ [low kv]) @ map low kvs)"
    using Cons.prems by (intro Cons.IH) auto
  with h show ?case by simp
qed simp

definition client_headers :: "bytes \<Rightarrow> string \<Rightarrow> string \<Rightarrow> string \<Rightarrow> bytes \<Rightarrow> client_opts \<Rightarrow> headers" where
  "client_headers key nonce actor path body co =
     [(''Host'', ''fixture''), (''Content-Length'', str_nat (length body)), (''X-Agent-Key'', actor), (''X-Proof-Nonce'', nonce),
      (''X-Request-Proof'', request_proof key path nonce body)] @
     (case co_claimed co of None \<Rightarrow> [] | Some c \<Rightarrow> if c = [] then [] else [(''X-Claimed-Agent'', c)])"

lemma lower_keys:
  "map lower_char ''Host'' = ''host''" "map lower_char ''Content-Length'' = ''content-length''"
  "map lower_char ''X-Agent-Key'' = ''x-agent-key''" "map lower_char ''X-Proof-Nonce'' = ''x-proof-nonce''"
  "map lower_char ''X-Request-Proof'' = ''x-request-proof''" "map lower_char ''X-Claimed-Agent'' = ''x-claimed-agent''"
  by code_simp+

lemma low_keys [simp]:
  "low (''Host'', v) = (''host'', v)" "low (''Content-Length'', v) = (''content-length'', v)"
  "low (''X-Agent-Key'', v) = (''x-agent-key'', v)" "low (''X-Proof-Nonce'', v) = (''x-proof-nonce'', v)"
  "low (''X-Request-Proof'', v) = (''x-request-proof'', v)" "low (''X-Claimed-Agent'', v) = (''x-claimed-agent'', v)"
  by (simp_all only: low_def fst_conv snd_conv lower_keys)

lemma read_client_headers:
  assumes "clean actor" "clean nonce" "\<forall>c. co_claimed co = Some c \<longrightarrow> clean c"
  shows "efold header_line [] (map hline (client_headers key nonce actor path body co)) =
    Inr (map low (client_headers key nonce actor path body co))"
proof -
  have "efold header_line [] (map hline (client_headers key nonce actor path body co)) =
      Inr ([] @ map low (client_headers key nonce actor path body co))"
  proof (rule header_lines_read)
    have "clean ''fixture''" by code_simp
    then show "\<forall>(k, v) \<in> set (client_headers key nonce actor path body co). CHR '':'' \<notin> set k \<and> clean v"
      using assms by (auto simp: client_headers_def request_proof_def split: option.splits)
    show "distinct (map fst ([] :: headers) @ map (fst \<circ> low) (client_headers key nonce actor path body co))"
      by (cases "co_claimed co") (simp_all add: client_headers_def)
  qed
  then show ?thesis by simp
qed

section \<open>A message read back\<close>

definition client_first :: "string \<Rightarrow> string" where
  "client_first path = ''POST '' @ path @ '' HTTP/1.1''"

lemma split_words_front: "clean w \<Longrightarrow> split_words_from acc (w @ s) = split_words_from (acc @ w) s"
  by (induction w arbitrary: acc) auto

lemma client_first_path:
  assumes "clean path" "path \<noteq> []"
  shows "request_path (client_first path) = Inr path"
proof -
  have c: "clean ''POST''" "clean ''HTTP/1.1''" by code_simp+
  have sp: "is_space (CHR '' '')" by (simp add: is_space_def is_ascii_space_def)
  have "split_words (''POST'' @ CHR '' '' # path @ CHR '' '' # ''HTTP/1.1'' @ []) = [''POST'', path, ''HTTP/1.1'']"
    unfolding split_words_def split_words_front [OF c(1)]
    by (simp only: append_Nil split_words_from.simps sp if_True list.simps if_False split_words_front [OF assms(1)]
        split_words_front [OF c(2)] assms(2))
  then have "split_words (client_first path) = [''POST'', path, ''HTTP/1.1'']" by (simp add: client_first_def)
  then show ?thesis by (simp add: request_path_def)
qed

lemma signed_message_lines:
  assumes "signed_message keys nonce actor path meth co = Inr msg" "co_key_actor co = None"
  obtains key where "map_of keys actor = Some key"
    "msg = encode_utf8 (lines_text (client_first path # map hline (client_headers key nonce actor path (client_body meth co) co))) @
       crlf @ client_body meth co"
proof -
  from assms obtain key where k: "map_of keys actor = Some key"
    by (auto simp: signed_message_def Let_def split: option.splits)
  moreover have "msg = encode_utf8 (lines_text (client_first path # map hline (client_headers key nonce actor path (client_body meth co) co))) @
       crlf @ client_body meth co"
    using assms k unfolding signed_message_def Let_def
    by (cases "co_claimed co") (auto simp: lines_text_def client_first_def client_headers_def hline_def split: if_splits)
  ultimately show thesis by (rule that)
qed

text \<open>What the fields of a request hold for it to travel: texts of ASCII without white space.\<close>

definition plain :: "string \<Rightarrow> bool" where
  "plain s = (is_ascii s \<and> clean s)"

lemma msg_line_hline:
  assumes "is_ascii k" "clean k" "plain v"
  shows "msg_line (hline (k, v))"
  using assms clean_no_sep(3) by (auto simp: msg_line_def hline_def plain_def)

definition client_keys :: "string list" where
  "client_keys =
     [''Host'', ''Content-Length'', ''X-Agent-Key'', ''X-Proof-Nonce'', ''X-Request-Proof'', ''X-Claimed-Agent'']"

lemma client_lines_ok:
  assumes "plain path" "plain actor" "plain nonce" "\<forall>c. co_claimed co = Some c \<longrightarrow> plain c"
  shows "\<forall>l \<in> set (client_first path # map hline (client_headers key nonce actor path body co)). msg_line l"
proof -
  have p: "plain (str_nat n)" "plain (request_proof key path nonce body)" "plain ''fixture''" for n
    by (simp_all add: plain_def request_proof_def) code_simp
  let ?kvs = "client_headers key nonce actor path body co"
  have "list_all (\<lambda>k. is_ascii k \<and> clean k) client_keys" by code_simp
  moreover have "fst ` set ?kvs \<subseteq> set client_keys"
    by (cases "co_claimed co") (simp_all add: client_headers_def client_keys_def)
  moreover have "\<forall>v \<in> snd ` set ?kvs. plain v"
    using assms(2-4) by (cases "co_claimed co") (simp_all add: client_headers_def p)
  ultimately have k: "is_ascii k \<and> clean k \<and> plain v" if "(k, v) \<in> set ?kvs" for k v
    using that by (force simp: list_all_iff)
  have "msg_line (client_first path)"
    using assms(1) clean_no_sep(3) by (auto simp: msg_line_def client_first_def plain_def)
  with k show ?thesis by (auto intro: msg_line_hline)
qed

lemma read_lines:
  assumes ls: "\<forall>l \<in> set (first # map hline kvs). msg_line l"
    and lim: "length (encode_utf8 (lines_text (first # map hline kvs))) \<le> STREAM_LIMIT"
    and hs: "efold header_line [] (map hline kvs) = Inr hs"
    and len: "map_of hs ''transfer-encoding'' = None" "map_of hs ''content-length'' = Some (str_nat (length body))"
      "length body \<le> 16384"
  shows "read_message (encode_utf8 (lines_text (first # map hline kvs)) @ crlf @ body @ rest) = Inr ((first, hs, body), rest)"
proof -
  let ?ls = "first # map hline kvs"
  have r: "readuntil (crlf @ crlf) (encode_utf8 (lines_text ?ls) @ crlf @ body @ rest) =
      Inr (encode_utf8 (lines_text ?ls @ cr), body @ rest)"
    by (rule readuntil_block) (use ls lim in auto)
  have "is_ascii (lines_text xs @ cr)" if "\<forall>l \<in> set xs. msg_line l" for xs
    using that by (induction xs) (auto simp: lines_text_def cr_def msg_line_def)
  from decode_encode [OF this [OF ls]] have d: "decode_ascii (encode_utf8 (lines_text ?ls) @ crlf) = Inr (lines_text ?ls @ cr)"
    by simp
  have s: "split_crlf (lines_text ?ls @ cr) = ?ls @ [[], []]"
    by (rule split_crlf_lines) (use ls in \<open>auto simp: msg_line_def\<close>)
  have h: "header_lines (first # map hline kvs @ [[], []]) = map hline kvs" by (simp add: header_lines_def)
  have "parse_int (str_nat (length body)) = Inr (int (length body))"
    using parse_int_str_int [of "int (length body)"] by (simp add: str_int_def)
  moreover have "readexactly (length body) (body @ rest) = Inr (body, rest)" by (simp add: readexactly_def)
  ultimately show ?thesis using len by (simp add: read_message_def r d s h hs Let_def)
qed

lemma signed_message_read:
  assumes "signed_message keys nonce actor path meth co = Inr msg" "co_key_actor co = None"
    and p: "plain path" "plain actor" "plain nonce" "\<forall>c. co_claimed co = Some c \<longrightarrow> plain c"
    and lim: "length msg \<le> STREAM_LIMIT" "length (client_body meth co) \<le> 16384"
  obtains key where "map_of keys actor = Some key"
    "read_message (msg @ rest) =
       Inr ((client_first path, map low (client_headers key nonce actor path (client_body meth co) co), client_body meth co), rest)"
proof -
  obtain key where k: "map_of keys actor = Some key"
    and msg: "msg = encode_utf8 (lines_text (client_first path # map hline (client_headers key nonce actor path (client_body meth co) co))) @
       crlf @ client_body meth co"
    by (rule signed_message_lines [OF assms(1,2)])
  let ?kvs = "client_headers key nonce actor path (client_body meth co) co"
  have "read_message (encode_utf8 (lines_text (client_first path # map hline ?kvs)) @ crlf @ client_body meth co @ rest) =
      Inr ((client_first path, map low ?kvs, client_body meth co), rest)"
  proof (rule read_lines)
    show "\<forall>l \<in> set (client_first path # map hline ?kvs). msg_line l" by (rule client_lines_ok [OF p])
    show "length (encode_utf8 (lines_text (client_first path # map hline ?kvs))) \<le> STREAM_LIMIT" using lim(1) msg by simp
    show "efold header_line [] (map hline ?kvs) = Inr (map low ?kvs)"
      by (rule read_client_headers) (use p in \<open>auto simp: plain_def\<close>)
    show "map_of (map low ?kvs) ''transfer-encoding'' = None"
      by (cases "co_claimed co") (simp_all add: client_headers_def)
    show "map_of (map low ?kvs) ''content-length'' = Some (str_nat (length (client_body meth co)))"
      by (simp add: client_headers_def)
  qed (rule lim(2))
  then show thesis by (intro that [OF k]) (simp add: msg)
qed

section \<open>A request answered\<close>

lemma distinct_upd: "distinct (map fst d) \<Longrightarrow> distinct (map fst (upd kvs d))"
  by (induction kvs arbitrary: d) (auto simp: distinct_update)

lemma map_of_upd: "distinct (map fst kvs) \<Longrightarrow> map_of (upd kvs d) k = (map_of d ++ map_of kvs) k"
proof (induction kvs arbitrary: d)
  case (Cons kv kvs)
  then show ?case by (cases kv) (auto simp: update_conv' map_add_def map_of_eq_None_iff [symmetric] split: option.splits)
qed simp

text \<open>The row of a proved request, and of one that is accepted without a grant.\<close>

definition auth_fields :: "string \<Rightarrow> jobj \<Rightarrow> jobj" where
  "auth_fields actor row =
     [(''actor'', JStr actor), (''auth_evidence'', JStr ''fixture-hmac-request-proof''),
      (''principal'', JStr (''configured-principal-'' @ actor)),
      (''claim_mismatch'', JBool (jget row ''claimed_actor'' \<noteq> JNull \<and> jget row ''claimed_actor'' \<noteq> JStr actor))]"

definition own_row :: "request_ctx \<Rightarrow> string \<Rightarrow> jobj \<Rightarrow> string \<Rightarrow> jobj \<Rightarrow> jobj" where
  "own_row rc actor d meth row =
     accept_row rc (JStr actor) JNull (describe d (JStr meth) (upd (auth_fields actor row) row))"

lemma authenticate_row:
  assumes "proved A path hs body actor"
  shows "authenticate A path hs body row = Inr (actor, upd (auth_fields actor row) row)"
  using assms by (auto simp: proved_def authenticate_def auth_fields_def compare_digest_def request_proof_def Let_def)

lemma accepted_process:
  assumes "proved A path hs body actor" "(actor, nonce_of hs) \<notin> set (a_seen A)"
    and "(path, meth) \<in> set PERMITTED" "rc_loads rc body = Inr (JObj d)" "map_of d ''method'' = Some (JStr meth)"
      "map_of d ''delegation'' = None"
  shows "process A rc path hs body c p =
    (let row = own_row rc actor d meth (new_row rc path hs body c p) in
     ((consume A actor hs)\<lparr>a_operations := AList.update (rc_operation rc) row (a_operations A), a_ledger := a_ledger A @ [row]\<rparr>,
      Inr (200, upd row [])))"
proof -
  have "path \<noteq> ''/delegate''" "list_ex (\<lambda>(q, m). path = q \<and> JStr meth = JStr m) PERMITTED"
    using assms(3) by (auto simp: PERMITTED_def)
  with assms(2-6) show ?thesis
    by (simp add: process_def authenticate_row [OF assms(1)] Let_def authorize_def jitem_def lineage_def permit_def
        nonce_of_def consume_def own_row_def)
qed

text \<open>The answer to a request is its row, and the row of an accepted request without a grant names its actor.\<close>

lemma accepted_answer:
  assumes "proved A path hs body actor" "(actor, nonce_of hs) \<notin> set (a_seen A)"
    and "(path, meth) \<in> set PERMITTED" "rc_loads rc body = Inr (JObj d)" "map_of d ''method'' = Some (JStr meth)"
      "map_of d ''delegation'' = None"
  shows "\<exists>A' answer. process A rc path hs body c p = (A', Inr (200, answer)) \<and>
    map_of answer ''actor'' = Some (JStr actor) \<and> map_of answer ''accepted'' = Some (JBool True) \<and>
    map_of answer ''originator'' = Some (JStr actor) \<and> map_of answer ''parent'' = Some JNull"
proof -
  let ?row = "own_row rc actor d meth (new_row rc path hs body c p)"
  have "distinct (map fst ?row)"
    unfolding own_row_def accept_row_def describe_def by (intro distinct_upd) (simp add: new_row_def)
  then have m: "map_of (upd ?row []) k = map_of ?row k" for k by (simp add: map_of_upd)
  have "map_of (upd ?row []) ''actor'' = Some (JStr actor)" "map_of (upd ?row []) ''accepted'' = Some (JBool True)"
    "map_of (upd ?row []) ''originator'' = Some (JStr actor)" "map_of (upd ?row []) ''parent'' = Some JNull"
    unfolding m by (simp_all add: own_row_def accept_row_def describe_def auth_fields_def update_conv')
  with accepted_process [OF assms] show ?thesis by (simp add: Let_def)
qed

text \<open>
  C6. A signed request reaches its decision and passes the client's own expectations: the message the client writes
  for a known actor is read back with its path, headers and body, byte for byte and with the rest of the connection
  untouched; where its nonce is fresh and its method is one the path permits, the authority answers 200, and the
  answer names the actor as the client expects. The fields are ASCII without white space, and the message is within
  the reader's two limits.
\<close>

theorem client_request_accepted:
  assumes "signed_message (a_keys A) nonce actor path meth co = Inr msg" "co_key_actor co = None"
    and "plain path" "plain actor" "plain nonce" "\<forall>c. co_claimed co = Some c \<longrightarrow> plain c" "nonce \<noteq> []"
    and "length msg \<le> STREAM_LIMIT" "length (client_body meth co) \<le> 16384"
    and "map_of (a_keys A) actor \<noteq> Some []" "(actor, nonce) \<notin> set (a_seen A)" "(path, meth) \<in> set PERMITTED"
    and "rc_loads rc (client_body meth co) = Inr (JObj d)" "map_of d ''method'' = Some (JStr meth)"
      "map_of d ''delegation'' = None"
  shows "\<exists>first hs A' answer.
    read_message (msg @ rest) = Inr ((first, hs, client_body meth co), rest) \<and> request_path first = Inr path \<and>
    process A rc path hs (client_body meth co) c p = (A', Inr (200, answer)) \<and>
    (co_status co = 200 \<and> co_originator co = None \<longrightarrow> client_check actor (JStr actor) co 200 answer = Inr ())"
proof -
  let ?b = "client_body meth co"
  obtain key where key: "map_of (a_keys A) actor = Some key"
    and r: "read_message (msg @ rest) = Inr ((client_first path, map low (client_headers key nonce actor path ?b co), ?b), rest)"
    using signed_message_read [OF assms(1-6,8,9)] by blast
  let ?hs = "map low (client_headers key nonce actor path ?b co)"
  have n: "nonce_of ?hs = nonce" by (simp add: nonce_of_def header_or_def client_headers_def)
  have "proved A path ?hs ?b actor"
    using key assms(7,10) by (simp add: proved_def header_or_def client_headers_def)
  from accepted_answer [OF this _ assms(12-15)] obtain A' answer where
    "process A rc path ?hs ?b c p = (A', Inr (200, answer))" "map_of answer ''actor'' = Some (JStr actor)"
    "map_of answer ''accepted'' = Some (JBool True)" "map_of answer ''originator'' = Some (JStr actor)"
    using assms(11) unfolding n by blast
  moreover have "request_path (client_first path) = Inr path"
    by (rule client_first_path) (use assms(3,12) in \<open>auto simp: plain_def PERMITTED_def\<close>)
  ultimately show ?thesis using r by (auto simp: client_check_def jitem_def)
qed

definition demo_opts :: client_opts where
  "demo_opts = \<lparr>co_params = None, co_delegation = None, co_key_actor = None, co_claimed = Some ''agent-B'', co_status = 200,
     co_originator = None\<rparr>"

lemma demo_client_body: "length (client_body ''tools/call'' demo_opts) \<le> 200"
  by code_simp

lemma lines_ascii: "\<forall>l \<in> set ls. msg_line l \<Longrightarrow> is_ascii (lines_text ls)"
  by (induction ls) (auto simp: lines_text_def cr_def msg_line_def)

lemma demo_message:
  obtains msg where "signed_message (a_keys demo_authority) ''n1'' ''agent-A'' ''/mcp'' ''tools/call'' demo_opts = Inr msg"
    "length msg \<le> STREAM_LIMIT"
proof -
  let ?b = "client_body ''tools/call'' demo_opts"
  let ?ls = "client_first ''/mcp'' # map hline (client_headers demo_key ''n1'' ''agent-A'' ''/mcp'' ?b demo_opts)"
  obtain msg where m: "signed_message (a_keys demo_authority) ''n1'' ''agent-A'' ''/mcp'' ''tools/call'' demo_opts = Inr msg"
    by (simp add: signed_message_def Let_def demo_authority_def demo_opts_def)
  have "msg = encode_utf8 (lines_text ?ls) @ crlf @ ?b"
    by (rule signed_message_lines [OF m]) (simp_all add: demo_opts_def demo_authority_def)
  moreover have "is_ascii (lines_text ?ls)"
    by (intro lines_ascii client_lines_ok) (simp_all add: demo_opts_def, code_simp+)
  ultimately have "length msg = length (lines_text ?ls) + 2 + length ?b" by (simp add: encode_ascii crlf_def)
  moreover have "length (str_nat n) \<le> 3" if "n \<le> 200" for n
    using that by (subst str_nat.simps, subst str_nat.simps, subst str_nat.simps) auto
  from this [OF demo_client_body] have "length (lines_text ?ls) \<le> 1000"
    by (simp add: lines_text_def client_first_def client_headers_def hline_def cr_def demo_opts_def request_proof_def hmac_sha256_def)
  ultimately show thesis using demo_client_body by (intro that [OF m]) (simp add: STREAM_LIMIT_def)
qed

theorem client_request_accepted_witness:
  "\<exists>msg first hs A' answer.
     signed_message (a_keys demo_authority) ''n1'' ''agent-A'' ''/mcp'' ''tools/call'' demo_opts = Inr msg \<and>
     read_message (msg @ [1, 2]) = Inr ((first, hs, client_body ''tools/call'' demo_opts), [1, 2]) \<and>
     process demo_authority demo_rc ''/mcp'' hs (client_body ''tools/call'' demo_opts) ''c1'' JNull = (A', Inr (200, answer)) \<and>
     client_check ''agent-A'' (JStr ''agent-A'') demo_opts 200 answer = Inr ()"
proof -
  obtain msg where m: "signed_message (a_keys demo_authority) ''n1'' ''agent-A'' ''/mcp'' ''tools/call'' demo_opts = Inr msg"
    "length msg \<le> STREAM_LIMIT" by (rule demo_message)
  have p: "plain ''/mcp''" "plain ''agent-A''" "plain ''n1''" "plain ''agent-B''" by code_simp+
  have "\<exists>first hs A' answer.
     read_message (msg @ [1, 2]) = Inr ((first, hs, client_body ''tools/call'' demo_opts), [1, 2]) \<and> request_path first = Inr ''/mcp'' \<and>
     process demo_authority demo_rc ''/mcp'' hs (client_body ''tools/call'' demo_opts) ''c1'' JNull = (A', Inr (200, answer)) \<and>
     (co_status demo_opts = 200 \<and> co_originator demo_opts = None \<longrightarrow>
        client_check ''agent-A'' (JStr ''agent-A'') demo_opts 200 answer = Inr ())"
    by (rule client_request_accepted [where d = demo_doc, OF m(1) _ p(1-3) _ _ m(2)])
      (use p(4) demo_client_body in \<open>simp_all add: demo_opts_def demo_authority_def demo_key_def PERMITTED_def demo_rc_def demo_doc_def\<close>)
  with m(1) show ?thesis by (auto simp: demo_opts_def)
qed

end
