(* ===== verification/Evidence_Chain.thy ===== *)
theory Evidence_Chain
  imports Gap_Window Authority_Wire
begin

text \<open>
  The chain from an observation to the request that caused it: a window that shows an actor for an observed parse
  (\<open>Gap_Window\<close>), over the ledger of the authority (\<open>Authority\<close>), names the actor whose key proved that very request.
\<close>

section \<open>The requests an authority received\<close>

text \<open>
  An authority with the requests it processed, in order, each as its path, headers and body. A row of the ledger is accounted for where
  one of these requests has its path, nonce and body digest and carries, in its header, the proof made with the key of the row's actor.
\<close>

type_synonym request = "string \<times> headers \<times> bytes"

inductive served :: "authority \<Rightarrow> request list \<Rightarrow> bool" where
  start: "a_seen A = [] \<Longrightarrow> a_operations A = [] \<Longrightarrow> a_ledger A = [] \<Longrightarrow> served A []"
| request: "served A reqs \<Longrightarrow> process A rc path hs body c p = (A', r) \<Longrightarrow> served A' (reqs @ [(path, hs, body)])"
| noted: "served A reqs \<Longrightarrow> served (A\<lparr>a_errors := es\<rparr>) reqs"

lemma served_reachable: "served A reqs \<Longrightarrow> reachable A"
  by (induction rule: served.induct) (auto intro: reachable.intros)

lemma reachable_served: "reachable A \<Longrightarrow> \<exists>reqs. served A reqs"
  by (induction rule: reachable.induct) (auto intro: served.intros)

definition rows_proved :: "authority \<Rightarrow> request list \<Rightarrow> bool" where
  "rows_proved A reqs =
     (\<forall>row \<in> set (a_ledger A). accepted row \<longrightarrow>
        (\<exists>actor path hs body. (path, hs, body) \<in> set reqs \<and> proved A path hs body actor \<and> row_of row actor path hs body))"

lemma proved_keys: "a_keys B = a_keys A \<Longrightarrow> proved B path hs body actor = proved A path hs body actor"
  by (simp add: proved_def)

lemma rows_proved_append:
  assumes "rows_proved A reqs" "a_keys B = a_keys A" "a_ledger B = a_ledger A @ rows"
    and "\<forall>row \<in> set rows. accepted row \<longrightarrow> (\<exists>actor. proved A path hs body actor \<and> row_of row actor path hs body)"
  shows "rows_proved B (reqs @ [(path, hs, body)])"
  unfolding rows_proved_def proved_keys [OF assms(2)]
proof (intro ballI impI)
  fix row assume "row \<in> set (a_ledger B)" "accepted row"
  then consider "row \<in> set (a_ledger A)" | "row \<in> set rows" unfolding assms(3) by auto
  then show "\<exists>actor path' hs' body'. (path', hs', body') \<in> set (reqs @ [(path, hs, body)]) \<and> proved A path' hs' body' actor \<and>
      row_of row actor path' hs' body'"
  proof cases
    case 1
    with assms(1) \<open>accepted row\<close> obtain actor path' hs' body' where "(path', hs', body') \<in> set reqs" "proved A path' hs' body' actor"
      "row_of row actor path' hs' body'" unfolding rows_proved_def by blast
    then show ?thesis by (intro exI [of _ actor] exI [of _ path'] exI [of _ hs'] exI [of _ body']) simp
  next
    case 2
    with assms(4) \<open>accepted row\<close> obtain actor where "proved A path hs body actor" "row_of row actor path hs body" by blast
    then show ?thesis by (intro exI [of _ actor] exI [of _ path] exI [of _ hs] exI [of _ body]) simp
  qed
qed

lemma process_rows_proved:
  assumes "process A rc path hs body c p = (A', r)" "rows_proved A reqs"
  shows "rows_proved A' (reqs @ [(path, hs, body)])"
  using assms(1)
proof (cases rule: process_cases)
  case (raised m)
  then show ?thesis by (intro rows_proved_append [OF assms(2), of _ "[]"]) simp_all
next
  case (refused row status)
  then show ?thesis by (intro rows_proved_append [OF assms(2), of _ "[row]"]) (auto simp: log_row_def)
next
  case (escaped actor e)
  then show ?thesis by (intro rows_proved_append [OF assms(2), of _ "[]"]) (auto simp: consume_def)
next
  case (denied actor row)
  then show ?thesis by (intro rows_proved_append [OF assms(2), of _ "[row]"]) (auto simp: log_row_def consume_def)
next
  case (granted actor row og pa response)
  then show ?thesis by (intro rows_proved_append [OF assms(2), of _ "[row]"]) (auto simp: log_row_def consume_def)
qed

lemma served_rows_proved: "served A reqs \<Longrightarrow> rows_proved A reqs"
proof (induction rule: served.induct)
  case (start A)
  then show ?case by (simp add: rows_proved_def)
next
  case (request A reqs rc path hs body c p A' r)
  then show ?case by (blast intro: process_rows_proved)
next
  case (noted A reqs es)
  then show ?case by (simp add: rows_proved_def proved_def)
qed

section \<open>From an observation to a proof\<close>

lemma hidden_unknown: "row \<in> set (map (hide_row r) rows) \<Longrightarrow> cr_status row = ''unknown''"
  by (auto simp: hide_row_def)

text \<open>
  C1. An attributed observation was proved by its actor. Where a window, after any calls with non-empty reasons,
  attributes an observed parse over the ledger of an authority that processed the requests \<open>reqs\<close>, the window was fresh, sealed once and
  without a gap; the parse carries the path and nonce of exactly one row of the ledger; that row was accepted for the actor and
  operation the window shows; and one of the requests the authority received has that path, nonce and body digest, names the actor
  in its header and carries in its header the proof over them that is made with the key of this actor.
\<close>

theorem observed_actor_proved:
  assumes "served A reqs" "Report [] \<notin> set ops"
    and "snd (match_window ls cs (a_ledger A) accounting (window_after run insts fresh ops)) = Inr rows"
    and "i < length rows" "cr_status (rows ! i) = ''attributed''"
  shows "trusted run insts fresh (ops @ [Observe ls cs]) \<and>
    (\<exists>actor path hs body row key. (path, hs, body) \<in> set reqs \<and>
       interval_value cs (completed ls ! i) = Some (path, nonce_of hs) \<and>
       ledger_matches (a_ledger A) (path, nonce_of hs) = [row] \<and> accepted row \<and> row_of row actor path hs body \<and>
       map_of hs ''x-agent-key'' = Some actor \<and> map_of (a_keys A) actor = Some key \<and>
       header_or hs ''x-request-proof'' [] = request_proof key path (nonce_of hs) body \<and>
       cr_actor (rows ! i) = JStr actor \<and> cr_operation (rows ! i) = jget row ''operation'')"
proof -
  have guard: "snd (match_window ls cs (a_ledger A) accounting (window_after run insts fresh ops)) =
      (if trusted run insts fresh (ops @ [Observe ls cs]) then correlation_join ls cs (a_ledger A) accounting
       else ebind (correlation_join ls cs (a_ledger A) accounting) (\<lambda>rows.
              Inr (map (hide_row (the (hidden_for (window_after run insts fresh (ops @ [Observe ls cs]))))) rows)))"
    by (rule window_guard [OF assms(2)])
  have t: "trusted run insts fresh (ops @ [Observe ls cs])"
  proof (rule ccontr)
    assume "\<not> ?thesis"
    with guard assms(3) obtain rows' r where "rows = map (hide_row r) rows'"
      by (cases "correlation_join ls cs (a_ledger A) accounting") auto
    with assms(4,5) hidden_unknown [of "rows ! i" r rows'] show False by auto
  qed
  with guard assms(3) have j: "correlation_join ls cs (a_ledger A) accounting = Inr rows" by simp
  from correlation_row [OF j assms(4,5)] obtain k m where k: "interval_value cs (completed ls ! i) = Some k"
    "ledger_matches (a_ledger A) k = [m]" "jget m ''accepted'' = JBool True" "cr_actor (rows ! i) = jget m ''actor''"
    "cr_operation (rows ! i) = jget m ''operation''"
    by blast
  have m: "m \<in> set (a_ledger A)" "jget m ''path'' = JStr (fst k)" "jget m ''nonce'' = JStr (snd k)"
    using k(2) by (auto simp: ledger_matches_def filter_eq_Cons_iff)
  have acc: "accepted m" using k(3) by (simp add: accepted_def)
  with m(1) served_rows_proved [OF assms(1)] obtain actor path hs body where
    p: "(path, hs, body) \<in> set reqs" "proved A path hs body actor" "row_of m actor path hs body" unfolding rows_proved_def by blast
  then obtain key where key: "map_of hs ''x-agent-key'' = Some actor" "map_of (a_keys A) actor = Some key"
    "header_or hs ''x-request-proof'' [] = request_proof key path (nonce_of hs) body" by (auto simp: proved_def nonce_of_def)
  have "k = (path, nonce_of hs)" using p(3) m(2,3) by (cases k) (simp add: row_of_def who_def)
  moreover have "cr_actor (rows ! i) = JStr actor" using p(3) k(4) by (simp add: row_of_def who_def)
  ultimately show ?thesis using t k p key acc by blast
qed

lemma map_of_upd_rev: "map_of (upd kvs d) k = (case map_of (rev kvs) k of None \<Rightarrow> map_of d k | Some v \<Rightarrow> Some v)"
  by (induction kvs rule: rev_induct) (auto simp: upd_def update_conv' split: option.splits)

text \<open>One request of the authority, observed.\<close>

definition seen_nonce :: string where
  "seen_nonce = ''0123456789abcdef0123456789abcdef''"

definition seen_headers :: headers where
  "seen_headers =
     [(''x-agent-key'', ''agent-A''), (''x-proof-nonce'', seen_nonce),
      (''x-request-proof'', request_proof demo_key ''/mcp'' seen_nonce demo_body)]"

lemma seen_row:
  obtains A' row where "served A' [(''/mcp'', seen_headers, demo_body)]" "a_ledger A' = [row]" "jget row ''path'' = JStr ''/mcp''" "jget row ''nonce'' = JStr seen_nonce"
    "jget row ''actor'' = JStr ''agent-A''" "jget row ''accepted'' = JBool True" "jget row ''operation'' = JStr ''op1''"
    "truthy (jget row ''auth_evidence'')" "jitem row ''attempt'' = Inr (JStr ''a1'')"
proof -
  have pr: "proved demo_authority ''/mcp'' seen_headers demo_body ''agent-A''" "nonce_of seen_headers = seen_nonce"
    by (simp_all add: proved_def demo_authority_def seen_headers_def demo_key_def header_or_def nonce_of_def seen_nonce_def)
  have a: "a_seen demo_authority = []" by (simp add: demo_authority_def)
  let ?row = "own_row demo_rc ''agent-A'' demo_doc ''tools/call'' (new_row demo_rc ''/mcp'' seen_headers demo_body ''c1'' JNull)"
  obtain A' r where p: "process demo_authority demo_rc ''/mcp'' seen_headers demo_body ''c1'' JNull = (A', r)" "a_ledger A' = [?row]"
    using accepted_process [OF pr(1), of "''tools/call''" demo_rc demo_doc "''c1''" JNull]
    by (simp add: a PERMITTED_def demo_rc_def demo_doc_def Let_def consume_def demo_authority_def)
  have "served demo_authority []" by (rule served.start) (simp_all add: demo_authority_def)
  from served.request [OF this p(1)] have v: "served A' [(''/mcp'', seen_headers, demo_body)]" by simp
  show thesis
  proof (rule that [OF v p(2)])
    show "jget ?row ''path'' = JStr ''/mcp''" "jget ?row ''nonce'' = JStr seen_nonce" "jget ?row ''actor'' = JStr ''agent-A''"
      "jget ?row ''accepted'' = JBool True" "jget ?row ''operation'' = JStr ''op1''" "truthy (jget ?row ''auth_evidence'')"
      "jitem ?row ''attempt'' = Inr (JStr ''a1'')"
      using pr(2)
      unfolding own_row_def accept_row_def describe_def jget_def jitem_def map_of_upd_rev
      by (simp_all add: auth_fields_def new_row_def nonce_of_def demo_rc_def)
  qed
qed

theorem observed_actor_proved_witness:
  "\<exists>A rows. served A [(''/mcp'', seen_headers, demo_body)] \<and>
     snd (match_window sample_lives sample_candidates (a_ledger A) sample_accounting
       (window_after (JInt 3) sample_instances True [Seal sample_instances])) = Inr rows \<and>
     cr_actor (rows ! 0) = JStr ''agent-A'' \<and> map_of seen_headers ''x-agent-key'' = Some ''agent-A'' \<and> nonce_of seen_headers = seen_nonce"
proof -
  obtain A row where A: "served A [(''/mcp'', seen_headers, demo_body)]" "a_ledger A = [row]"
    and row: "jget row ''path'' = JStr ''/mcp''" "jget row ''nonce'' = JStr seen_nonce"
    "jget row ''actor'' = JStr ''agent-A''" "jget row ''accepted'' = JBool True" "jget row ''operation'' = JStr ''op1''"
    "truthy (jget row ''auth_evidence'')" "jitem row ''attempt'' = Inr (JStr ''a1'')" by (rule seen_row)
  let ?done = "[sample_life 3 2 1]"
  have c: "completed sample_lives = ?done" "map (interval_value sample_candidates) ?done = [Some (''/mcp'', seen_nonce)]" by code_simp+
  have w: "window_ok sample_lives sample_candidates [r] sample_accounting" for r by code_simp
  have "ledger_matches [row] (''/mcp'', seen_nonce) = [row]" by (simp add: ledger_matches_def row)
  then have "corr_event [Some (''/mcp'', seen_nonce)] [row] (sample_life 3 2 1, Some (''/mcp'', seen_nonce)) =
      corr_matched (sample_life 3 2 1) row"
    by (simp add: corr_event_def sample_life_def)
  then obtain r where j: "correlation_join sample_lives sample_candidates (a_ledger A) sample_accounting = Inr [r]"
      "cr_status r = ''attributed''"
    using row c by (simp add: correlation_join_def w A(2) Let_def corr_matched_def)
  have "trusted (JInt 3) sample_instances True ([Seal sample_instances] @ [Observe sample_lives sample_candidates])" by code_simp
  then have s: "snd (match_window sample_lives sample_candidates (a_ledger A) sample_accounting
      (window_after (JInt 3) sample_instances True [Seal sample_instances])) = Inr [r]"
    using window_guard(1) [of "[Seal sample_instances]" sample_lives sample_candidates "a_ledger A" sample_accounting "JInt 3"
        sample_instances True] j(1) by simp
  have "interval_value sample_candidates (completed sample_lives ! 0) = Some (''/mcp'', seen_nonce)" using c by simp
  with observed_actor_proved [OF A(1) _ s, of 0] j(2)
  have "map_of seen_headers ''x-agent-key'' = Some ''agent-A''" "nonce_of seen_headers = seen_nonce" "cr_actor r = JStr ''agent-A''"
    using A(2) row(3) by (auto simp: row_of_def who_def ledger_matches_def split: if_splits)
  with A(1) s show ?thesis by (intro exI [of _ A] exI [of _ "[r]"]) simp
qed

end
