(* ===== verification/Bind_Sets.thy ===== *)
theory Bind_Sets
  imports Bind_Target
begin

text \<open>
  The two tools beside \<^verbatim>\<open>bind_target.py\<close>: \<^verbatim>\<open>substrate/completion_admit.py\<close> and \<^verbatim>\<open>substrate/bind_snapshot.py\<close>, which admit a
  void function for completion-only snapshots and bind a program to it, and \<^verbatim>\<open>substrate/bind_targets.py\<close>, which binds all entry
  sections of one object to a set of targets. Files, processes and \<^verbatim>\<open>objcopy\<close> are parameters as in \<open>Bind_Target\<close>.
\<close>

section \<open>Admission for completion snapshots\<close>

text \<open>\<^verbatim>\<open>subprocess.run(..., check=True)\<close>: a missing tool, a timeout and a non-zero exit all raise.\<close>

definition checked :: "runner \<Rightarrow> string list \<Rightarrow> string result" where
  "checked run argv =
     (case run argv of
        None \<Rightarrow> Inl (Rejected ''OSError'')
      | Some (rc, out) \<Rightarrow> if rc = 0 then Inr out else Inl (Rejected ''CalledProcessError''))"

definition function_name :: "string \<Rightarrow> bool" where
  "function_name s =
     (case s of [] \<Rightarrow> False | c # cs \<Rightarrow> is_word c \<and> \<not> is_digit c \<and> list_all (\<lambda>c. is_word c \<or> c = CHR ''.'') cs)"

definition type_lines :: "string \<Rightarrow> string list" where
  "type_lines out = map strip (filter (is_prefix ''type = '') (splitlines out))"

definition symbol_rows :: "string \<Rightarrow> string \<Rightarrow> string list list" where
  "symbol_rows fn out =
     filter (\<lambda>ws. length ws = 3 \<and> ws ! 2 = fn \<and> ws ! 1 \<in> {''t'', ''T'', ''w'', ''W''}) (map split_words (splitlines out))"

definition imports_initiator :: "string \<Rightarrow> bool" where
  "imports_initiator line = (contains '' UND '' line \<and> list_ex (\<lambda>s. search_word False s line) UNWIND_INITIATORS)"

text \<open>The scan of the frames: \<open>cur\<close> says whether the last frame header covers the address. \<open>True\<close> is a refusal.\<close>

fun lsda_scan :: "int \<Rightarrow> string list \<Rightarrow> bool \<Rightarrow> bool" where
  "lsda_scan a [] cur = False"
| "lsda_scan a (l # ls) cur =
     (case fde_match l of
        Some (lo, hi) \<Rightarrow> lsda_scan a ls (lo \<le> a \<and> a < hi)
      | None \<Rightarrow> cur \<and> contains ''LSDA Address'' l \<or> lsda_scan a ls cur)"

record qualification =
  q_build_id :: string
  q_function :: string
  q_address :: int

definition same_build :: "(string \<rightharpoonup> bytes) \<Rightarrow> string \<Rightarrow> string \<Rightarrow> string result" where
  "same_build fs debug binary =
     ebind (read_file fs binary) (\<lambda>bb.
     ebind (build_id bb) (\<lambda>rid.
       if rid = [] \<or> length rid \<noteq> 40 then Inl (ValueError ''matching full runtime and debug build IDs required'')
       else ebind (read_file fs debug) (\<lambda>db.
            ebind (build_id db) (\<lambda>i.
              if i \<noteq> rid then Inl (ValueError ''matching full runtime and debug build IDs required'') else Inr rid))))"

definition admit_completion ::
  "runner \<Rightarrow> (string \<rightharpoonup> bytes) \<Rightarrow> string \<Rightarrow> string \<Rightarrow> string \<Rightarrow> qualification result"
where
  "admit_completion run fs debug binary fn =
     (if \<not> function_name fn then Inl (ValueError ''unsupported function name'')
      else
        ebind (same_build fs debug binary) (\<lambda>rid.
        ebind (checked run [''gdb'', ''-q'', ''-batch'', ''-ex'', ''ptype '' @ fn, debug]) (\<lambda>types.
          if \<not> (length (type_lines types) = 1 \<and> is_prefix ''type = void ('' (hd (type_lines types)))
          then Inl (ValueError ''completion snapshots require an exact void return'')
          else
            ebind (checked run [''nm'', ''--defined-only'', debug]) (\<lambda>syms.
              if length (symbol_rows fn syms) \<noteq> 1 then Inl (ValueError ''missing or ambiguous target symbol'')
              else
                ebind (parse_hex (hd (hd (symbol_rows fn syms)))) (\<lambda>addr.
                ebind (checked run [''readelf'', ''--wide'', ''--dyn-syms'', binary]) (\<lambda>dyn.
                  if list_ex imports_initiator (splitlines dyn) then Inl (ValueError ''runtime imports an unwind initiator'')
                  else
                    ebind (checked run [''/usr/lib/llvm-18/bin/llvm-dwarfdump'', ''--eh-frame'', binary]) (\<lambda>frames.
                      if lsda_scan addr (splitlines frames) False then Inl (ValueError ''target frame carries an LSDA'')
                      else Inr \<lparr>q_build_id = rid, q_function = fn, q_address = addr\<rparr>)))))))"

section \<open>Records\<close>

text \<open>\<^verbatim>\<open>struct.pack("<8s40sQBB6x", magic, build, entry, kind, pad)\<close>.\<close>

definition pack_target :: "bytes \<Rightarrow> string \<Rightarrow> int \<Rightarrow> byte \<Rightarrow> int \<Rightarrow> bytes result" where
  "pack_target magic bid entry kind pad =
     ebind (pack_u64 entry) (\<lambda>e.
       if 0 \<le> pad \<and> pad < 256
       then Inr (magic @ (take 40 (ascii bid) @ replicate (40 - length bid) 0) @ e @ [kind, word_of_int pad] @ replicate 6 0)
       else Inl StructError)"

text \<open>What the tools check of the object \<^verbatim>\<open>objcopy\<close> wrote.\<close>

definition kept_record :: "string \<Rightarrow> bytes \<Rightarrow> bytes \<Rightarrow> bytes result" where
  "kept_record what r out =
     ebind (sections out) (\<lambda>ss.
       case filter (\<lambda>(n, s). n = ''.ls.target'') ss of
         [(n, s)] \<Rightarrow>
           if pyslice (st_offset s) (st_offset s + st_size s) out \<noteq> r
           then Inl (ValueError (''objcopy did not preserve '' @ what))
           else Inr out
       | _ \<Rightarrow> Inl (ValueError (''objcopy did not preserve '' @ what)))"

definition write_section :: "(bytes \<Rightarrow> bytes \<Rightarrow> bytes option) \<Rightarrow> string \<Rightarrow> bytes \<Rightarrow> bytes \<Rightarrow> bytes result" where
  "write_section objcopy what blob r =
     ebind (case objcopy r blob of None \<Rightarrow> Inl (Rejected ''CalledProcessError'') | Some out \<Rightarrow> Inr out) (kept_record what r)"

section \<open>Binding a snapshot program\<close>

definition SNAPSHOT_PREFIX :: string where
  "SNAPSHOT_PREFIX = ''fexit/snapshot/''"

definition SNAPSHOT_MAGIC :: bytes where
  "SNAPSHOT_MAGIC = [0x4C, 0x53, 0x54, 0x41, 0x52, 0x47, 0x32, 0x00]"

definition read_text :: "(string \<rightharpoonup> string) \<Rightarrow> string \<Rightarrow> string result" where
  "read_text texts p = (case texts p of None \<Rightarrow> Inl (Rejected ''OSError'') | Some t \<Rightarrow> Inr t)"

definition resolve_in ::
  "(string \<rightharpoonup> bytes) \<Rightarrow> (string \<rightharpoonup> string) \<Rightarrow> bind_args \<Rightarrow> string \<Rightarrow> (string \<times> int \<times> int) result"
where
  "resolve_in fs texts a fn =
     ebind (read_file fs (ba_binary a)) (\<lambda>binary. ebind (read_text texts (ba_index a)) (\<lambda>index. resolve index binary fn))"

definition bind_snapshot ::
  "runner \<Rightarrow> (bytes \<Rightarrow> bytes \<Rightarrow> bytes option) \<Rightarrow> (string \<rightharpoonup> bytes) \<Rightarrow> (string \<rightharpoonup> string) \<Rightarrow> bind_args \<Rightarrow> string \<Rightarrow>
     (qualification \<times> bytes) result"
where
  "bind_snapshot run objcopy fs texts a debug =
     ebind (read_file fs (ba_prog a)) (\<lambda>blob.
     ebind (program_section blob) (\<lambda>sec.
       let fn = drop (length SNAPSHOT_PREFIX) sec in
       if \<not> is_prefix SNAPSHOT_PREFIX sec \<or> fn = [] then Inl (ValueError ''expected one completion-only snapshot section'')
       else
         ebind (admit_completion run fs debug (ba_binary a) fn) (\<lambda>q.
         ebind (resolve_in fs texts a fn) (\<lambda>(build, entry, pad).
           if build \<noteq> q_build_id q \<or> entry \<noteq> q_address q then Inl (ValueError ''admission and attachment target differ'')
           else
             ebind (pack_target SNAPSHOT_MAGIC build entry 1 pad) (\<lambda>r.
             ebind (write_section objcopy ''the snapshot contract'' blob r) (\<lambda>out. Inr (q, out)))))))"

section \<open>Binding a set of targets\<close>

definition SET_MAGIC :: bytes where
  "SET_MAGIC = [0x4C, 0x53, 0x54, 0x53, 0x45, 0x54, 0x31, 0x00]"

definition MAX_TARGETS :: nat where "MAX_TARGETS = 12"

record set_target =
  ts_section :: string
  ts_build_id :: string
  ts_entry :: int
  ts_pad :: int

text \<open>\<^verbatim>\<open>struct.pack("<80s64s", section, target)\<close> of a name shorter than 80 bytes.\<close>

definition set_row :: "string \<Rightarrow> bytes \<Rightarrow> bytes" where
  "set_row sec r = ascii sec @ replicate (80 - length sec) 0 @ r"

text \<open>The loop over the sections, with the rows and targets so far; \<open>res\<close> resolves a hook name.\<close>

fun bind_rows ::
  "(string \<Rightarrow> (string \<times> int \<times> int) result) \<Rightarrow> string list \<Rightarrow> bytes list \<times> set_target list \<Rightarrow>
     (bytes list \<times> set_target list) result"
where
  "bind_rows res [] st = Inr st"
| "bind_rows res (sec # rest) (rows, targets) =
     (if \<not> is_prefix ''fentry/'' sec \<or> drop 7 sec = [] \<or> length sec \<ge> 80
      then Inl (ValueError ''target sets support named entry hooks only'')
      else
        ebind (res (drop 7 sec)) (\<lambda>(bid, entry, pad).
          if entry \<in> set (map ts_entry targets) then Inl (ValueError ''two sections resolve to the same entry'')
          else
            ebind (pack_target MAGIC bid entry 0 pad) (\<lambda>r.
              bind_rows res rest
                (rows @ [set_row sec r],
                 targets @ [\<lparr>ts_section = sec, ts_build_id = bid, ts_entry = entry, ts_pad = pad\<rparr>]))))"

definition set_record :: "bytes list \<Rightarrow> bytes" where
  "set_record rows = SET_MAGIC @ le_bytes 4 (int (length rows)) @ le_bytes 4 0 @ concat rows"

definition bind_targets ::
  "(bytes \<Rightarrow> bytes \<Rightarrow> bytes option) \<Rightarrow> (string \<rightharpoonup> bytes) \<Rightarrow> (string \<rightharpoonup> string) \<Rightarrow> bind_args \<Rightarrow> (set_target list \<times> bytes) result"
where
  "bind_targets objcopy fs texts a =
     ebind (read_file fs (ba_prog a)) (\<lambda>blob.
     ebind (sections blob) (\<lambda>ss.
       let names = filter (\<lambda>n. is_prefix ''fentry/'' n \<or> is_prefix ''fexit/'' n) (map fst ss) in
       if \<not> (2 \<le> length names \<and> length names \<le> MAX_TARGETS) \<or> \<not> distinct names
       then Inl (ValueError ''expected 2..12 distinct entry sections'')
       else
         ebind (bind_rows (resolve_in fs texts a) names ([], [])) (\<lambda>(rows, targets).
         ebind (write_section objcopy ''the target set'' blob (set_record rows)) (\<lambda>out. Inr (targets, out)))))"

section \<open>What the records hold\<close>

definition decode_record :: "bytes \<Rightarrow> bytes \<Rightarrow> (string \<times> int \<times> byte \<times> int) option" where
  "decode_record magic r =
     (if length r = 64 \<and> take 8 r = magic
      then Some (map (\<lambda>b. char_of (unat b)) (pyslice 8 48 r), u64 r 48, r ! 56, uint (r ! 57))
      else None)"

lemma decode_pack_target:
  assumes "pack_target magic bid entry kind pad = Inr r" "length bid = 40" "length magic = 8"
  shows "decode_record magic r = Some (bid, entry, kind, pad)" "length r = 64"
proof -
  define f where "f = [kind, word_of_int pad :: byte]"
  have e: "0 \<le> entry" "entry < 18446744073709551616" "0 \<le> pad" "pad < 256"
    and r: "r = magic @ ascii bid @ le_bytes 8 entry @ f @ replicate 6 0"
    using assms by (auto simp: pack_target_def err_simps pack_u64_def ascii_def f_def split: if_splits)
  have l: "length magic = 8" "length (ascii bid) = 40" using assms(2,3) by (simp_all add: ascii_def)
  have "pyslice 8 48 r = ascii bid" using slice_at [of magic 8 "ascii bid" 40] l r by simp
  moreover have "u64 r 48 = entry" using u_at(3) [of "magic @ ascii bid" 48 entry] l e r by simp
  moreover have "r ! 56 = kind" "r ! 57 = word_of_int pad" using l by (auto simp: r nth_append f_def)
  moreover have "uint (word_of_int pad :: byte) = pad" using e by (simp add: uint_word_of_int)
  moreover show "length r = 64" using l by (auto simp: r f_def)
  moreover have "take 8 r = magic" using l by (auto simp: r f_def)
  ultimately show "decode_record magic r = Some (bid, entry, kind, pad)" by (simp add: decode_record_def ascii_back)
qed

lemma kept_preserved: "kept_record what r out = Inr x \<longleftrightarrow> preserved r out = Inr x"
  by (cases "sections out") (auto simp: kept_record_def preserved_def split: list.splits)

lemma write_sectionD:
  assumes "write_section objcopy what blob r = Inr out"
  obtains ss s where "sections out = Inr ss" "filter (\<lambda>(n, s). n = ''.ls.target'') ss = [(''.ls.target'', s)]"
    "pyslice (st_offset s) (st_offset s + st_size s) out = r"
proof -
  obtain x where "preserved r x = Inr out"
    using assms by (auto simp: write_section_def err_simps kept_preserved split: option.splits)
  then show thesis using that by (elim preservedD) blast
qed

lemma resolve_inD:
  assumes "resolve_in fs texts a fn = Inr (bid, entry, pad)"
  obtains binary index where "fs (ba_binary a) = Some binary" "texts (ba_index a) = Some index"
    "resolve index binary fn = Inr (bid, entry, pad)"
  using assms by (auto simp: resolve_in_def read_file_def read_text_def err_simps split: option.splits)

text \<open>A bound section: the only one of its name, with these bytes.\<close>

definition bound_section :: "bytes \<Rightarrow> bytes \<Rightarrow> bool" where
  "bound_section out r =
     (\<exists>ss s. sections out = Inr ss \<and> filter (\<lambda>(n, s). n = ''.ls.target'') ss = [(''.ls.target'', s)] \<and>
             pyslice (st_offset s) (st_offset s + st_size s) out = r)"

text \<open>A resolved target: one row of an index for this build, and the declared entry bytes in an executable segment.\<close>

definition padded_entry :: "string \<Rightarrow> bytes \<Rightarrow> string \<Rightarrow> string \<Rightarrow> int \<Rightarrow> int \<Rightarrow> bool" where
  "padded_entry index binary fn bid entry pad =
     (build_id binary = Inr bid \<and> length bid = 40 \<and> pad \<in> {0, 4} \<and>
      (\<exists>meta row. read_rows fn (splitlines index) (Map.empty, []) = (meta, [row]) \<and>
         meta ''build_id'' = Some bid \<and> parse_int0 (row ! 1) = Inr (entry + pad)) \<and>
      (\<exists>segs g. segments_of binary = Inr segs \<and> g \<in> set segs \<and> holds entry (length (entry_pad pad)) g \<and>
         pyslice (nat (sg_offset g + entry - sg_va g)) (nat (sg_offset g + entry - sg_va g) + length (entry_pad pad)) binary
           = entry_pad pad))"

lemma resolve_padded:
  assumes "resolve index binary fn = Inr (bid, entry, pad)"
  shows "padded_entry index binary fn bid entry pad"
  unfolding padded_entry_def using resolveD [OF assms] check_segmentsD by blast

section \<open>Frames\<close>

text \<open>
  Line \<open>i\<close> tells of landing pads for an address: it carries the mark, and the last frame header before it covers the
  address.
\<close>

definition lsda_at :: "int \<Rightarrow> string list \<Rightarrow> nat \<Rightarrow> bool" where
  "lsda_at a ls i =
     (i < length ls \<and> fde_match (ls ! i) = None \<and> contains ''LSDA Address'' (ls ! i) \<and>
      (\<exists>j < i. (\<exists>lo hi. fde_match (ls ! j) = Some (lo, hi) \<and> lo \<le> a \<and> a < hi) \<and>
               (\<forall>k. j < k \<longrightarrow> k < i \<longrightarrow> fde_match (ls ! k) = None)))"

text \<open>The same with a frame header before the first line that covers the address if \<open>cur\<close>.\<close>

definition lsda_from :: "bool \<Rightarrow> int \<Rightarrow> string list \<Rightarrow> nat \<Rightarrow> bool" where
  "lsda_from cur a ls i =
     (lsda_at a ls i \<or> cur \<and> i < length ls \<and> contains ''LSDA Address'' (ls ! i) \<and> (\<forall>k \<le> i. fde_match (ls ! k) = None))"

lemma lsda_from_Suc:
  "lsda_from cur a (l # ls) (Suc i) \<longleftrightarrow>
   lsda_from (case fde_match l of Some (lo, hi) \<Rightarrow> lo \<le> a \<and> a < hi | None \<Rightarrow> cur) a ls i"
proof -
  have ex: "(\<exists>j < Suc i. P j) \<longleftrightarrow> P 0 \<or> (\<exists>j < i. P (Suc j))" for P by (auto simp: less_Suc_eq_0_disj)
  have al: "(\<forall>k. Suc j < k \<longrightarrow> k < Suc i \<longrightarrow> P k) \<longleftrightarrow> (\<forall>k. j < k \<longrightarrow> k < i \<longrightarrow> P (Suc k))" for j P
    by (metis Suc_less_eq Suc_less_eq2 less_Suc_eq_0_disj not_less_zero)
  have a0: "(\<forall>k. 0 < k \<longrightarrow> k < Suc i \<longrightarrow> P k) \<longleftrightarrow> (\<forall>k < i. P (Suc k))" for P
    by (metis Suc_less_eq gr0_conv_Suc zero_less_Suc)
  have le: "(\<forall>k \<le> Suc i. P k) \<longleftrightarrow> P 0 \<and> (\<forall>k \<le> i. P (Suc k))" for P
    by (metis Suc_le_mono le0 not0_implies_Suc)
  have eq: "(\<forall>k \<le> i. P k) \<longleftrightarrow> P i \<and> (\<forall>k < i. P k)" for P by (auto simp: le_less)
  show ?thesis
    unfolding lsda_from_def lsda_at_def ex al a0 le
    by (cases "fde_match l") (auto simp: eq split: prod.splits)
qed

lemma lsda_scan_iff: "lsda_scan a ls cur \<longleftrightarrow> (\<exists>i. lsda_from cur a ls i)"
proof (induction ls arbitrary: cur)
  case Nil
  then show ?case by (simp add: lsda_from_def lsda_at_def)
next
  case (Cons l ls)
  have "(\<exists>i. lsda_from cur a (l # ls) i) \<longleftrightarrow> lsda_from cur a (l # ls) 0 \<or> (\<exists>i. lsda_from cur a (l # ls) (Suc i))"
    by (metis not0_implies_Suc)
  also have "lsda_from cur a (l # ls) 0 \<longleftrightarrow> cur \<and> fde_match l = None \<and> contains ''LSDA Address'' l"
    by (auto simp: lsda_from_def lsda_at_def)
  finally show ?case
    by (cases "fde_match l") (auto simp: Cons.IH lsda_from_Suc)
qed

lemma lsda_scan_exact: "lsda_scan a ls False \<longleftrightarrow> (\<exists>i. lsda_at a ls i)"
  by (simp add: lsda_scan_iff lsda_from_def)

section \<open>Snapshots\<close>

lemma checkedD: "checked run argv = Inr out \<longleftrightarrow> run argv = Some (0, out)"
  by (auto simp: checked_def split: option.splits if_splits)

lemma same_buildD:
  assumes "same_build fs debug binary = Inr rid"
  shows "length rid = 40" "\<exists>b. fs binary = Some b \<and> build_id b = Inr rid" "\<exists>d. fs debug = Some d \<and> build_id d = Inr rid"
  using assms by (auto simp: same_build_def read_file_def err_simps split: option.splits if_splits)

text \<open>What an admitted function is: void, defined once, in a runtime without unwinding into it.\<close>

definition completes_only :: "runner \<Rightarrow> string \<Rightarrow> string \<Rightarrow> string \<Rightarrow> int \<Rightarrow> bool" where
  "completes_only run debug binary fn addr =
     (\<exists>types l syms row dyn frames.
        run [''gdb'', ''-q'', ''-batch'', ''-ex'', ''ptype '' @ fn, debug] = Some (0, types) \<and>
        type_lines types = [l] \<and> is_prefix ''type = void ('' l \<and>
        run [''nm'', ''--defined-only'', debug] = Some (0, syms) \<and>
        symbol_rows fn syms = [row] \<and> parse_hex (hd row) = Inr addr \<and>
        run [''readelf'', ''--wide'', ''--dyn-syms'', binary] = Some (0, dyn) \<and>
        (\<forall>line \<in> set (splitlines dyn). \<forall>s \<in> set UNWIND_INITIATORS. \<not> imports_symbol s line) \<and>
        run [''/usr/lib/llvm-18/bin/llvm-dwarfdump'', ''--eh-frame'', binary] = Some (0, frames) \<and>
        (\<nexists>i. lsda_at addr (splitlines frames) i))"

lemma imports_initiator_found:
  "s \<in> set UNWIND_INITIATORS \<Longrightarrow> imports_symbol s line \<Longrightarrow> imports_initiator line"
  using imports_found [of s line] unfolding imports_initiator_def list_ex_iff imports_symbol_def by blast

lemma admit_completionD:
  assumes "admit_completion run fs debug binary fn = Inr q"
  shows "function_name fn" "q_function q = fn" "same_build fs debug binary = Inr (q_build_id q)"
    "completes_only run debug binary fn (q_address q)"
proof -
  from assms obtain rid types syms addr dyn frames where
    "function_name fn" "same_build fs debug binary = Inr rid"
    and r: "run [''gdb'', ''-q'', ''-batch'', ''-ex'', ''ptype '' @ fn, debug] = Some (0, types)"
      "run [''nm'', ''--defined-only'', debug] = Some (0, syms)"
      "run [''readelf'', ''--wide'', ''--dyn-syms'', binary] = Some (0, dyn)"
      "run [''/usr/lib/llvm-18/bin/llvm-dwarfdump'', ''--eh-frame'', binary] = Some (0, frames)"
    and l: "length (type_lines types) = 1" "is_prefix ''type = void ('' (hd (type_lines types))"
    and s: "length (symbol_rows fn syms) = 1" "parse_hex (hd (hd (symbol_rows fn syms))) = Inr addr"
    and c: "\<not> list_ex imports_initiator (splitlines dyn)" "\<not> lsda_scan addr (splitlines frames) False"
    and q: "q = \<lparr>q_build_id = rid, q_function = fn, q_address = addr\<rparr>"
    by (auto simp: admit_completion_def err_simps checkedD split: if_splits)
  then show "function_name fn" "q_function q = fn" "same_build fs debug binary = Inr (q_build_id q)" by simp_all
  obtain x where x: "type_lines types = [x]" using l(1) by (auto simp: length_Suc_conv)
  obtain row where row: "symbol_rows fn syms = [row]" using s(1) by (auto simp: length_Suc_conv)
  have "\<forall>line \<in> set (splitlines dyn). \<forall>s \<in> set UNWIND_INITIATORS. \<not> imports_symbol s line"
    using c(1) imports_initiator_found by (auto simp: list_ex_iff)
  with r x row l(2) s(2) c(2) q show "completes_only run debug binary fn (q_address q)"
    unfolding completes_only_def lsda_scan_exact by auto
qed

text \<open>
  C34. What a bound snapshot program carries: the written object has one \<^verbatim>\<open>.ls.target\<close> section of 64 bytes that
  names, under the snapshot magic, the build id, the entry address, the exit kind and the pad of the function its
  section names; the runtime and the debug binary have that build id; the hook index is for that build and has one row
  for the function, whose declared entry bytes are in an executable segment; and at that very address the function was
  admitted: its type is an exact void return, the debug binary defines it once, the runtime imports no unwind initiator,
  and no frame that covers it carries an LSDA.
\<close>

theorem snapshot_bound_sound:
  assumes "bind_snapshot run objcopy fs texts a debug = Inr (q, out)"
  shows "\<exists>sec r bid entry pad index binary dbg.
    bound_section out r \<and> decode_record SNAPSHOT_MAGIC r = Some (bid, entry, 1, pad) \<and>
    is_prefix SNAPSHOT_PREFIX sec \<and> q_function q = drop (length SNAPSHOT_PREFIX) sec \<and> function_name (q_function q) \<and>
    fs (ba_binary a) = Some binary \<and> fs debug = Some dbg \<and> build_id dbg = Inr bid \<and>
    texts (ba_index a) = Some index \<and> padded_entry index binary (q_function q) bid entry pad \<and>
    completes_only run debug (ba_binary a) (q_function q) entry"
proof -
  let ?fn = "\<lambda>sec. drop (length SNAPSHOT_PREFIX) sec"
  from assms obtain blob sec bid entry pad r where
    b: "is_prefix SNAPSHOT_PREFIX sec" "admit_completion run fs debug (ba_binary a) (?fn sec) = Inr q"
      "resolve_in fs texts a (?fn sec) = Inr (bid, entry, pad)" "bid = q_build_id q" "entry = q_address q"
      "pack_target SNAPSHOT_MAGIC bid entry 1 pad = Inr r"
      "write_section objcopy ''the snapshot contract'' blob r = Inr out"
    by (auto simp: bind_snapshot_def err_simps Let_def split: if_splits)
  note q = admit_completionD [OF b(2)]
  obtain binary index where f: "fs (ba_binary a) = Some binary" "texts (ba_index a) = Some index"
    "resolve index binary (?fn sec) = Inr (bid, entry, pad)" by (rule resolve_inD [OF b(3)])
  note p = resolve_padded [OF f(3)]
  have l: "length bid = 40" "length SNAPSHOT_MAGIC = 8" using p by (auto simp: padded_entry_def SNAPSHOT_MAGIC_def)
  obtain dbg where dbg: "fs debug = Some dbg" "build_id dbg = Inr bid" using same_buildD(3) [OF q(3)] b(4) by auto
  have "bound_section out r" using write_sectionD [OF b(7)] unfolding bound_section_def by blast
  moreover note decode_pack_target(1) [OF b(6) l]
  moreover have "padded_entry index binary (q_function q) bid entry pad" "completes_only run debug (ba_binary a) (q_function q) entry"
    using p q b(5) by simp_all
  ultimately show ?thesis using b(1) q(1,2) f(1,2) dbg by metis
qed

section \<open>Target sets\<close>

definition text_of :: "bytes \<Rightarrow> string" where
  "text_of bs = map (\<lambda>b. char_of (unat b)) (takeWhile (\<lambda>b. b \<noteq> 0) bs)"

definition decode_row :: "bytes \<Rightarrow> (string \<times> (string \<times> int \<times> byte \<times> int)) option" where
  "decode_row row = map_option (Pair (text_of (take 80 row))) (decode_record MAGIC (drop 80 row))"

definition decode_set :: "bytes \<Rightarrow> (string \<times> (string \<times> int \<times> byte \<times> int)) option list option" where
  "decode_set r =
     (let n = nat (u32 r 8) in
      if take 8 r = SET_MAGIC \<and> length r = 16 + 144 * n
      then Some (map (\<lambda>i. decode_row (pyslice (16 + 144 * i) (16 + 144 * i + 144) r)) [0..<n])
      else None)"

lemma length_ascii: "length (ascii s) = length s"
  by (simp add: ascii_def)

lemma ascii_no_nul: "CHR 0x00 \<notin> set s \<Longrightarrow> 0 \<notin> set (ascii s)"
proof
  assume n: "CHR 0x00 \<notin> set s" and "0 \<in> set (ascii s)"
  then obtain c where c: "c \<in> set s" "(0 :: byte) = word_of_nat (of_char c)" by (auto simp: ascii_def)
  have "(of_char c :: nat) = unat (word_of_nat (of_char c) :: byte)" by (simp add: unat_of_nat)
  also have "\<dots> = of_char (CHR 0x00)" using c(2) by simp
  finally have "c = CHR 0x00" by (simp only: of_char_eq_iff)
  with n c(1) show False by simp
qed

lemma decode_set_row:
  assumes "pack_target MAGIC bid entry kind pad = Inr r" "length bid = 40" "length sec < 80" "CHR 0x00 \<notin> set sec"
  shows "decode_row (set_row sec r) = Some (sec, (bid, entry, kind, pad))" "length (set_row sec r) = 144"
proof -
  have m: "length MAGIC = 8" by (simp add: MAGIC_def)
  note r = decode_pack_target [OF assms(1,2) m]
  obtain k where k: "80 - length sec = Suc k" using assms(3) by (metis Suc_diff_Suc)
  have l: "length (ascii sec @ replicate (80 - length sec) 0) = 80" using assms(3) by (simp add: ascii_def)
  have "takeWhile (\<lambda>b. b \<noteq> 0) (ascii sec @ replicate (80 - length sec) 0) = ascii sec"
    using ascii_no_nul [OF assms(4)] by (subst takeWhile_append2) (auto simp: k)
  then have "text_of (take 80 (set_row sec r)) = sec" using l by (simp add: set_row_def text_of_def ascii_back length_ascii)
  moreover have "drop 80 (set_row sec r) = r" using l by (simp add: set_row_def)
  ultimately show "decode_row (set_row sec r) = Some (sec, (bid, entry, kind, pad))" using r(1) by (simp add: decode_row_def)
  show "length (set_row sec r) = 144" using l r(2) by (simp add: set_row_def)
qed

lemma nth_block:
  assumes "\<forall>b \<in> set bs. length b = n" "i < length bs"
  shows "pyslice (n * i) (n * i + n) (concat bs) = bs ! i"
  using assms
proof (induction bs arbitrary: i)
  case (Cons b bs)
  show ?case
  proof (cases i)
    case 0
    then show ?thesis using Cons.prems by (simp add: pyslice_def)
  next
    case (Suc j)
    have "pyslice (n + m) (n + m + n) (b @ xs) = pyslice m (m + n) xs" for m xs
      using Cons.prems(1) by (simp add: pyslice_def add.commute)
    from this [of "n * j" "concat bs"] Cons.IH [of j] Cons.prems Suc show ?thesis by simp
  qed
qed simp

lemma decode_set_record:
  assumes "\<forall>b \<in> set rows. length b = 144" "length rows < 2 ^ 32"
  shows "decode_set (set_record rows) = Some (map decode_row rows)"
proof -
  have c: "length SET_MAGIC = 8" by (simp add: SET_MAGIC_def)
  have n: "nat (u32 (set_record rows) 8) = length rows"
    using u_at(2) [of SET_MAGIC 8 "int (length rows)" "le_bytes 4 0 @ concat rows"] c assms(2) by (simp add: set_record_def)
  have len: "length (concat rows) = 144 * length rows" using assms(1) by (induction rows) auto
  have "pyslice (16 + 144 * i) (16 + 144 * i + 144) (set_record rows) = rows ! i" if "i < length rows" for i
  proof -
    have "pyslice (16 + m) (16 + m + 144) (set_record rows) = pyslice m (m + 144) (concat rows)" for m
      using c by (simp add: set_record_def pyslice_def ac_simps)
    with nth_block [OF assms(1) that] show ?thesis by simp
  qed
  then have "map (\<lambda>i. decode_row (pyslice (16 + 144 * i) (16 + 144 * i + 144) (set_record rows))) [0..<length rows] =
      map decode_row rows" by (intro nth_equalityI) auto
  moreover have "take 8 (set_record rows) = SET_MAGIC" "length (set_record rows) = 16 + 144 * length rows"
    using c len by (simp_all add: set_record_def)
  ultimately show ?thesis by (simp add: decode_set_def n Let_def)
qed

lemma section_names:
  assumes "sections blob = Inr ss" "(n, s) \<in> set ss"
  shows "CHR 0x00 \<notin> set n"
proof -
  let ?f = "\<lambda>names h. case find_from [0] (st_name h) names of
      None \<Rightarrow> Inl (ValueError ''unterminated section name'')
    | Some e \<Rightarrow> ebind (decode_ascii (pyslice (st_name h) e names)) (\<lambda>n. Inr (n, h))"
  have "\<exists>names table. sections blob = emap (?f names) table \<or> (\<exists>m. sections blob = Inl (ValueError m))"
    unfolding sections_def Let_def by (simp only: split: if_split) blast
  with assms(1) obtain names table where "emap (?f names) table = Inr ss" by auto
  from this assms(2) obtain h where "?f names h = Inr (n, s)" by (rule emap_set)
  then obtain e where e: "find_from [0] (st_name h) names = Some e" "decode_ascii (pyslice (st_name h) e names) = Inr n"
    by (auto simp: err_simps split: option.splits)
  let ?sl = "pyslice (st_name h) e names"
  have "b \<noteq> 0" if "b \<in> set ?sl" for b
  proof -
    from that obtain k where k: "k < length ?sl" "b = ?sl ! k" by (metis in_set_conv_nth)
    then have i: "st_name h + k < e" "st_name h + k < length names" "b = names ! (st_name h + k)"
      by (auto simp: pyslice_def min_less_iff_conj less_diff_conv add.commute)
    then have "pyslice (st_name h + k) (st_name h + k + 1) names = [b]"
      by (simp add: pyslice_def take_Suc_conv_app_nth)
    with find_from_Some(4) [OF e(1), of "st_name h + k"] i(1) show ?thesis by auto
  qed
  moreover have "n = map (\<lambda>b. char_of (unat b)) ?sl" "list_all (\<lambda>b. b < 128) ?sl"
    using e(2) by (auto simp: decode_ascii_def split: if_splits)
  moreover have "b = 0" if "CHR 0x00 = char_of (unat b)" for b :: byte
  proof -
    have "(of_char (CHR 0x00) :: nat) = unat b" using unat_byte_less [of b] by (subst that) simp
    then show ?thesis by (simp add: unat_eq_zero)
  qed
  ultimately show ?thesis by auto
qed

text \<open>What the loop gives for the sections it was given.\<close>

definition row_for :: "(string \<Rightarrow> (string \<times> int \<times> int) result) \<Rightarrow> set_target \<Rightarrow> bytes \<Rightarrow> bool" where
  "row_for res t row =
     (is_prefix ''fentry/'' (ts_section t) \<and> length (ts_section t) < 80 \<and>
      res (drop 7 (ts_section t)) = Inr (ts_build_id t, ts_entry t, ts_pad t) \<and>
      (\<exists>r. pack_target MAGIC (ts_build_id t) (ts_entry t) 0 (ts_pad t) = Inr r \<and> row = set_row (ts_section t) r))"

lemma bind_rowsD:
  assumes "bind_rows res secs (rows, ts) = Inr (rows', ts')" "distinct (map ts_entry ts)"
  shows "distinct (map ts_entry ts') \<and>
    (\<exists>new nrows. ts' = ts @ new \<and> rows' = rows @ nrows \<and> map ts_section new = secs \<and> list_all2 (row_for res) new nrows)"
  using assms
proof (induction secs arbitrary: rows ts)
  case (Cons sec secs)
  from Cons.prems(1) obtain bid entry pad r where
    c: "is_prefix ''fentry/'' sec" "length sec < 80" "res (drop 7 sec) = Inr (bid, entry, pad)" "entry \<notin> set (map ts_entry ts)"
      "pack_target MAGIC bid entry 0 pad = Inr r"
    and rest: "bind_rows res secs (rows @ [set_row sec r], ts @ [\<lparr>ts_section = sec, ts_build_id = bid, ts_entry = entry, ts_pad = pad\<rparr>]) =
      Inr (rows', ts')"
    by (auto simp: err_simps split: if_splits)
  let ?t = "\<lparr>ts_section = sec, ts_build_id = bid, ts_entry = entry, ts_pad = pad\<rparr>"
  have "distinct (map ts_entry (ts @ [?t]))" using c(4) Cons.prems(2) by simp
  from Cons.IH [OF rest this] obtain new nrows where
    "distinct (map ts_entry ts')" "ts' = (ts @ [?t]) @ new" "rows' = (rows @ [set_row sec r]) @ nrows"
    "map ts_section new = secs" "list_all2 (row_for res) new nrows" by blast
  moreover have "row_for res ?t (set_row sec r)" using c by (simp add: row_for_def)
  ultimately show ?case by (intro conjI exI [of _ "?t # new"] exI [of _ "set_row sec r # nrows"]) simp_all
qed simp

lemma rows_decode:
  assumes "list_all2 (row_for (resolve_in fs texts a)) targets rows"
    and "fs (ba_binary a) = Some binary" "texts (ba_index a) = Some index"
  shows "\<forall>t \<in> set targets. is_prefix ''fentry/'' (ts_section t) \<and>
      padded_entry index binary (drop 7 (ts_section t)) (ts_build_id t) (ts_entry t) (ts_pad t)"
    and "\<forall>t \<in> set targets. CHR 0x00 \<notin> set (ts_section t) \<Longrightarrow> length targets < 2 ^ 32 \<Longrightarrow>
      decode_set (set_record rows) = Some (map (\<lambda>t. Some (ts_section t, (ts_build_id t, ts_entry t, 0, ts_pad t))) targets)"
proof -
  have res: "is_prefix ''fentry/'' (ts_section t) \<and>
      padded_entry index binary (drop 7 (ts_section t)) (ts_build_id t) (ts_entry t) (ts_pad t)"
    if "row_for (resolve_in fs texts a) t row" for t row
    using that assms(2,3) by (auto simp: row_for_def intro!: resolve_padded elim!: resolve_inD)
  then show "\<forall>t \<in> set targets. is_prefix ''fentry/'' (ts_section t) \<and>
      padded_entry index binary (drop 7 (ts_section t)) (ts_build_id t) (ts_entry t) (ts_pad t)"
    using assms(1) by (metis in_set_conv_nth list_all2_conv_all_nth)
  assume nul: "\<forall>t \<in> set targets. CHR 0x00 \<notin> set (ts_section t)" and small: "length targets < 2 ^ 32"
  have row: "decode_row row = Some (ts_section t, (ts_build_id t, ts_entry t, 0, ts_pad t)) \<and> length row = 144"
    if r: "row_for (resolve_in fs texts a) t row" and t: "t \<in> set targets" for t row
  proof -
    have "length (ts_build_id t) = 40" using res [OF r] by (simp add: padded_entry_def)
    with r nul t show ?thesis by (auto simp: row_for_def intro!: decode_set_row)
  qed
  have n: "i < length targets \<Longrightarrow> row_for (resolve_in fs texts a) (targets ! i) (rows ! i)" "length rows = length targets" for i
    using assms(1) by (auto simp: list_all2_conv_all_nth)
  have ri: "decode_row (rows ! i) = Some (ts_section (targets ! i), (ts_build_id (targets ! i), ts_entry (targets ! i), 0, ts_pad (targets ! i)))"
      "length (rows ! i) = 144" if "i < length targets" for i
    using row [OF n(1) [OF that] nth_mem [OF that]] by blast+
  have "map decode_row rows = map (\<lambda>t. Some (ts_section t, (ts_build_id t, ts_entry t, 0, ts_pad t))) targets"
    by (rule nth_equalityI) (simp_all add: n(2) ri(1))
  moreover have "\<forall>row \<in> set rows. length row = 144" using ri(2) n(2) by (metis in_set_conv_nth)
  ultimately
  show "decode_set (set_record rows) = Some (map (\<lambda>t. Some (ts_section t, (ts_build_id t, ts_entry t, 0, ts_pad t))) targets)"
    using decode_set_record [of rows] small n(2) by simp
qed

text \<open>
  C35. What a bound target set carries: between two and twelve distinct entry sections, all of them of the object, in
  its order. The one \<^verbatim>\<open>.ls.target\<close> section of the written object reads back as one row per section, each with the
  section's name and the build id, entry, entry kind and pad resolved for it; the rows have the same build id, no two the
  same entry, and every entry is that of one row of the hook index with its declared entry bytes in the binary.
\<close>

theorem target_set_sound:
  assumes "bind_targets objcopy fs texts a = Inr (targets, out)"
  shows "\<exists>r index binary blob ss.
    bound_section out r \<and>
    decode_set r = Some (map (\<lambda>t. Some (ts_section t, (ts_build_id t, ts_entry t, 0, ts_pad t))) targets) \<and>
    fs (ba_prog a) = Some blob \<and> sections blob = Inr ss \<and>
    map ts_section targets = filter (\<lambda>n. is_prefix ''fentry/'' n \<or> is_prefix ''fexit/'' n) (map fst ss) \<and>
    2 \<le> length targets \<and> length targets \<le> 12 \<and> distinct (map ts_section targets) \<and> distinct (map ts_entry targets) \<and>
    fs (ba_binary a) = Some binary \<and> texts (ba_index a) = Some index \<and>
    (\<forall>t \<in> set targets. is_prefix ''fentry/'' (ts_section t) \<and>
       padded_entry index binary (drop 7 (ts_section t)) (ts_build_id t) (ts_entry t) (ts_pad t)) \<and>
    (\<forall>t \<in> set targets. \<forall>u \<in> set targets. ts_build_id t = ts_build_id u)"
proof -
  let ?names = "\<lambda>ss. filter (\<lambda>n. is_prefix ''fentry/'' n \<or> is_prefix ''fexit/'' n) (map fst ss)"
  from assms obtain blob ss rows where b: "fs (ba_prog a) = Some blob" "sections blob = Inr ss"
    and len: "2 \<le> length (?names ss)" "length (?names ss) \<le> 12" "distinct (?names ss)"
    and rows: "bind_rows (resolve_in fs texts a) (?names ss) ([], []) = Inr (rows, targets)"
    and w: "write_section objcopy ''the target set'' blob (set_record rows) = Inr out"
    by (auto simp: bind_targets_def read_file_def err_simps Let_def MAX_TARGETS_def split: if_splits option.splits)
  from bind_rowsD [OF rows] have d: "distinct (map ts_entry targets)" "map ts_section targets = ?names ss"
    and all: "list_all2 (row_for (resolve_in fs texts a)) targets rows" by auto
  have l: "length targets = length (?names ss)" using arg_cong [OF d(2), of length] by simp
  then obtain t ts where "targets = t # ts" using len(1) by (cases targets) auto
  with all obtain row0 where "row_for (resolve_in fs texts a) t row0" by (auto simp: list_all2_Cons1)
  then obtain binary index where f: "fs (ba_binary a) = Some binary" "texts (ba_index a) = Some index"
    by (auto simp: row_for_def elim!: resolve_inD)
  have nul: "\<forall>t \<in> set targets. CHR 0x00 \<notin> set (ts_section t)"
  proof
    fix t assume "t \<in> set targets"
    then have "ts_section t \<in> set (?names ss)" using d(2) by (metis image_eqI list.set_map)
    then show "CHR 0x00 \<notin> set (ts_section t)" using section_names [OF b(2)] by auto
  qed
  have "\<forall>t \<in> set targets. is_prefix ''fentry/'' (ts_section t) \<and>
      padded_entry index binary (drop 7 (ts_section t)) (ts_build_id t) (ts_entry t) (ts_pad t)"
    using rows_decode(1) [OF all f] .
  moreover from this have "build_id binary = Inr (ts_build_id t)" if "t \<in> set targets" for t
    using that by (auto simp: padded_entry_def)
  then have "\<forall>t \<in> set targets. \<forall>u \<in> set targets. ts_build_id t = ts_build_id u"
    by (metis sum.inject(2))
  moreover have "decode_set (set_record rows) = Some (map (\<lambda>t. Some (ts_section t, (ts_build_id t, ts_entry t, 0, ts_pad t))) targets)"
    using rows_decode(2) [OF all f nul] l len(2) by simp
  moreover have "bound_section out (set_record rows)" using write_sectionD [OF w] unfolding bound_section_def by blast
  moreover have "2 \<le> length targets" "length targets \<le> 12" "distinct (map ts_section targets)" using l len d(2) by simp_all
  ultimately show ?thesis using b d f by - (rule exI conjI | assumption)+
qed

section \<open>A worked binding\<close>

text \<open>A program object with two sections and the names table behind them, and an index with two functions.\<close>

definition pair_object :: "string \<Rightarrow> string \<Rightarrow> bytes" where
  "pair_object a b =
     (let names = ascii a @ [0] @ ascii b @ [0] in
      ELF_MAGIC @ [2, 1] @ replicate 34 0 @ le_bytes 8 64 @ replicate 10 0 @ le_bytes 2 64 @ le_bytes 2 3 @ le_bytes 2 2 @
      sh_row 0 256 0 @ sh_row (int (length a) + 1) 256 0 @ sh_row (int (length a)) 256 (int (length names)) @ names)"

definition pair_binary :: bytes where
  "pair_binary =
     ELF_MAGIC @ [2, 1] @ replicate 10 0 @ le_bytes 2 2 @ le_bytes 2 62 @ replicate 12 0 @ le_bytes 8 64 @ replicate 14 0 @
     le_bytes 2 56 @ le_bytes 2 2 @ replicate 6 0 @
     (le_bytes 4 4 @ replicate 4 0 @ le_bytes 8 176 @ replicate 16 0 @ le_bytes 8 36 @ replicate 16 0) @
     (le_bytes 4 1 @ le_bytes 4 5 @ le_bytes 8 212 @ le_bytes 8 4096 @ replicate 8 0 @ le_bytes 8 14 @ replicate 16 0) @
     note_header 20 @ sample_id @ entry_pad 4 @ entry_pad 0"

definition pair_index :: string where
  "pair_index = small_index @ ''g'' @ [CHR 0x09] @ ''0x1009'' @ [CHR 0x09] @ ''pad'' @ [CHR 0x09] @ ''0'' @ [CHR 0x0A]"

definition pair_args :: bind_args where
  "pair_args = \<lparr>ba_prog = ''p'', ba_index = ''i'', ba_binary = ''b'', ba_debug = None\<rparr>"

definition pair_targets :: "set_target list" where
  "pair_targets =
     [\<lparr>ts_section = ''fentry/f'', ts_build_id = to_hex sample_id, ts_entry = 4096, ts_pad = 4\<rparr>,
      \<lparr>ts_section = ''fentry/g'', ts_build_id = to_hex sample_id, ts_entry = 4105, ts_pad = 0\<rparr>]"

definition pair_rows :: "bytes list" where
  "pair_rows =
     map (\<lambda>t. set_row (ts_section t)
        (MAGIC @ ascii (ts_build_id t) @ le_bytes 8 (ts_entry t) @ [0, word_of_int (ts_pad t)] @ replicate 6 0)) pair_targets"

lemma pair_resolve: "resolve pair_index pair_binary ''f'' = Inr (to_hex sample_id, 4096, 4)"
  "resolve pair_index pair_binary ''g'' = Inr (to_hex sample_id, 4105, 0)"
  by code_simp+

lemma pair_sections: "map_sum id (map fst) (sections (pair_object ''fentry/f'' ''fentry/g'')) = Inr [''fentry/f'', ''fentry/g'', []]"
  by code_simp

lemma small_object_body:
  "pyslice (192 + length nm + 1) (192 + length nm + 1 + length body) (small_object nm body) = body"
proof -
  let ?h = "ELF_MAGIC @ [2, 1] @ replicate 34 0 @ le_bytes 8 64 @ replicate 10 0 @ le_bytes 2 64 @ le_bytes 2 2 @ le_bytes 2 1 @
      sh_row 0 (192 + int (length (ascii nm @ [0 :: byte]))) (int (length body)) @
      sh_row (int (length nm)) 192 (int (length (ascii nm @ [0 :: byte]))) @ ascii nm @ [0]"
  have "small_object nm body = ?h @ body @ []" by (simp add: small_object_def Let_def)
  moreover have "length ?h = 192 + length nm + 1" by (simp add: sh_row_def ascii_def ELF_MAGIC_def)
  ultimately show ?thesis using slice_at [of ?h _ body _ "[]"] by (simp only:)
qed

lemma pair_sections_out:
  "map_sum id (map (\<lambda>(n, s). (n, st_offset s, st_size s))) (sections (small_object ''.ls.target'' (set_record pair_rows))) =
   Inr [(''.ls.target'', 203, 304), ([], 192, 11)]"
  by code_simp

lemma pair_kept:
  "kept_record ''the target set'' (set_record pair_rows) (small_object ''.ls.target'' (set_record pair_rows)) =
     Inr (small_object ''.ls.target'' (set_record pair_rows))"
proof -
  obtain s t where ss: "sections (small_object ''.ls.target'' (set_record pair_rows)) = Inr [(''.ls.target'', s), ([], t)]"
      "st_offset s = 203" "st_size s = 304"
    using pair_sections_out by (cases "sections (small_object ''.ls.target'' (set_record pair_rows))") (auto simp: map_eq_Cons_conv)
  have "length (set_record pair_rows) = 304"
    by (simp add: set_record_def pair_rows_def pair_targets_def SET_MAGIC_def MAGIC_def set_row_def ascii_def sample_id_def)
  with small_object_body [of "''.ls.target''" "set_record pair_rows"] ss show ?thesis by (simp add: kept_record_def)
qed

lemma pair_bind:
  "bind_targets (\<lambda>r p. Some (small_object ''.ls.target'' r))
     [''p'' \<mapsto> pair_object ''fentry/f'' ''fentry/g'', ''b'' \<mapsto> pair_binary] [''i'' \<mapsto> pair_index] pair_args =
   Inr (pair_targets, small_object ''.ls.target'' (set_record pair_rows))"
proof -
  obtain ss where ss: "sections (pair_object ''fentry/f'' ''fentry/g'') = Inr ss" "map fst ss = [''fentry/f'', ''fentry/g'', []]"
    using pair_sections by (cases "sections (pair_object ''fentry/f'' ''fentry/g'')") auto
  have n: "filter (\<lambda>n. is_prefix ''fentry/'' n \<or> is_prefix ''fexit/'' n) [''fentry/f'', ''fentry/g'', []] = [''fentry/f'', ''fentry/g'']"
    by code_simp
  have rows: "bind_rows (\<lambda>fn. resolve pair_index pair_binary fn) [''fentry/f'', ''fentry/g''] ([], []) = Inr (pair_rows, pair_targets)"
  proof -
    have "pack_target MAGIC (to_hex sample_id) 4096 0 4 = Inr (MAGIC @ ascii (to_hex sample_id) @ le_bytes 8 4096 @ [0, 4] @ replicate 6 0)"
      "pack_target MAGIC (to_hex sample_id) 4105 0 0 = Inr (MAGIC @ ascii (to_hex sample_id) @ le_bytes 8 4105 @ [0, 0] @ replicate 6 0)"
      by code_simp+
    then show ?thesis by (simp add: pair_resolve pair_rows_def pair_targets_def)
  qed
  note k = pair_kept
  have res: "resolve_in [''p'' \<mapsto> pair_object ''fentry/f'' ''fentry/g'', ''b'' \<mapsto> pair_binary] [''i'' \<mapsto> pair_index] pair_args =
      (\<lambda>fn. resolve pair_index pair_binary fn)"
    by (simp add: resolve_in_def read_file_def read_text_def pair_args_def fun_eq_iff)
  show ?thesis
    unfolding bind_targets_def res Let_def
    by (simp add: read_file_def pair_args_def ss n [folded ss(2)] MAX_TARGETS_def rows write_section_def k
        del: filter_map length_filter_map bind_rows.simps)
qed

theorem target_set_sound_witness:
  "\<exists>r. bound_section (small_object ''.ls.target'' (set_record pair_rows)) r \<and>
     decode_set r = Some [Some (''fentry/f'', (to_hex sample_id, 4096, 0, 4)), Some (''fentry/g'', (to_hex sample_id, 4105, 0, 0))]"
  using target_set_sound [OF pair_bind] by (auto simp: pair_targets_def)

text \<open>A snapshot program for the function \<open>f\<close>, and the tools' answers about it.\<close>

definition dump_lines :: "string list \<Rightarrow> string" where
  "dump_lines ls = concat (map (\<lambda>l. l @ [CHR 0x0A]) ls)"

definition snap_tools :: "string list \<Rightarrow> runner" where
  "snap_tools dump argv =
     (if hd argv = ''gdb'' then Some (0, dump_lines [''type = void (int)''])
      else if hd argv = ''nm'' then Some (0, dump_lines [''0000000000001000 T f''])
      else if hd argv = ''readelf'' then Some (0, dump_lines [''     1: 0 0 FUNC GLOBAL DEFAULT UND memcpy''])
      else Some (0, dump_lines dump))"

definition snap_record :: bytes where
  "snap_record = SNAPSHOT_MAGIC @ ascii (to_hex sample_id) @ le_bytes 8 4096 @ [1, 4] @ replicate 6 0"

definition snap_fs :: "string \<rightharpoonup> bytes" where
  "snap_fs = [''p'' \<mapsto> small_object ''fexit/snapshot/f'' [], ''b'' \<mapsto> small_binary, ''d'' \<mapsto> small_binary]"

abbreviation snap_bind :: "string list \<Rightarrow> (qualification \<times> bytes) result" where
  "snap_bind dump \<equiv>
     bind_snapshot (snap_tools dump) (\<lambda>r p. Some (small_object ''.ls.target'' r)) snap_fs [''i'' \<mapsto> small_index] pair_args ''d''"

lemma snap_admit:
  assumes "lsda_scan 4096 (splitlines (dump_lines dump)) False = refused"
  shows "admit_completion (snap_tools dump) snap_fs ''d'' ''b'' ''f'' =
    (if refused then Inl (ValueError ''target frame carries an LSDA'')
     else Inr \<lparr>q_build_id = to_hex sample_id, q_function = ''f'', q_address = 4096\<rparr>)"
proof -
  have b: "build_id small_binary = Inr (to_hex sample_id)" "length (to_hex sample_id) = 40" "to_hex sample_id \<noteq> []" by code_simp+
  have "type_lines (dump_lines [''type = void (int)'']) = [''type = void (int)'']" "is_prefix ''type = void ('' ''type = void (int)''"
    "symbol_rows ''f'' (dump_lines [''0000000000001000 T f'']) = [[''0000000000001000'', ''T'', ''f'']]"
    "parse_hex ''0000000000001000'' = Inr 4096" "function_name ''f''"
    "\<not> list_ex imports_initiator (splitlines (dump_lines [''     1: 0 0 FUNC GLOBAL DEFAULT UND memcpy'']))" by code_simp+
  then show ?thesis
    using assms b by (auto simp: admit_completion_def same_build_def read_file_def snap_fs_def checked_def snap_tools_def)
qed

lemma snap_bound:
  assumes "\<not> lsda_scan 4096 (splitlines (dump_lines dump)) False"
  shows "snap_bind dump = Inr (\<lparr>q_build_id = to_hex sample_id, q_function = ''f'', q_address = 4096\<rparr>, small_object ''.ls.target'' snap_record)"
proof -
  have "program_section (small_object ''fexit/snapshot/f'' []) = Inr ''fexit/snapshot/f''"
    "is_prefix SNAPSHOT_PREFIX ''fexit/snapshot/f''" "length SNAPSHOT_PREFIX = 15"
    "pack_target SNAPSHOT_MAGIC (to_hex sample_id) 4096 1 4 = Inr snap_record"
    "kept_record ''the snapshot contract'' snap_record (small_object ''.ls.target'' snap_record) =
      Inr (small_object ''.ls.target'' snap_record)" by code_simp+
  moreover have "resolve_in snap_fs [''i'' \<mapsto> small_index] pair_args ''f'' = Inr (to_hex sample_id, 4096, 4)"
    by (simp add: resolve_in_def read_file_def read_text_def snap_fs_def pair_args_def small_resolve)
  moreover have "read_file snap_fs ''p'' = Inr (small_object ''fexit/snapshot/f'' [])" by (simp add: read_file_def snap_fs_def)
  ultimately show ?thesis
    using snap_admit [of dump False] assms by (simp add: bind_snapshot_def pair_args_def write_section_def Let_def)
qed

theorem snapshot_bound_sound_witness:
  "\<exists>r bid. bound_section (small_object ''.ls.target'' snap_record) r \<and> decode_record SNAPSHOT_MAGIC r = Some (bid, 4096, 1, 4)"
proof -
  have "\<not> lsda_scan 4096 (splitlines (dump_lines [''FDE cie=00000000 pc=00001000...00001020''])) False" by code_simp
  from snapshot_bound_sound [OF snap_bound [OF this]] obtain r bid entry pad where
    "bound_section (small_object ''.ls.target'' snap_record) r" "decode_record SNAPSHOT_MAGIC r = Some (bid, entry, 1, pad)" by blast
  moreover from this(1) have "r = snap_record"
  proof -
    have "preserved snap_record (small_object ''.ls.target'' snap_record) = Inr (small_object ''.ls.target'' snap_record)" by code_simp
    then show ?thesis using \<open>bound_section (small_object ''.ls.target'' snap_record) r\<close> by (auto simp: bound_section_def elim!: preservedD)
  qed
  moreover have "map_option (\<lambda>(b, e, k, p). (e, p)) (decode_record SNAPSHOT_MAGIC snap_record) = Some (4096, 4)" by code_simp
  ultimately show ?thesis by auto
qed

text \<open>A dump that describes no frame of the target is taken like one without landing pads.\<close>

theorem undescribed_frame_admitted: "\<exists>q. admit_completion (snap_tools []) snap_fs ''d'' ''b'' ''f'' = Inr q"
proof -
  have "lsda_scan 4096 (splitlines (dump_lines [])) False = False" by code_simp
  from snap_admit [OF this] show ?thesis by simp
qed

end
