(* ===== verification/Inline_Status.thy ===== *)
theory Inline_Status
  imports Py_Regex
begin

text \<open>
  \<^verbatim>\<open>substrate/mk_inline_status.py\<close>: reads the debug information of the shipped binary line by line and marks every hook of the map
  as complete or as partial, where copies inlined into callers are missed by arming it. The dump and the document of
  the map are inputs; the printed summary is not modelled.
\<close>

section \<open>Expressions\<close>

definition lower_hex :: "char \<Rightarrow> bool" where
  "lower_hex c = (is_digit c \<or> (97 \<le> (of_char c :: nat) \<and> (of_char c :: nat) \<le> 102))"

text \<open>\<^verbatim>\<open>\((DW_TAG_\w+)\)\<close> at the start of a text, and at the last place of a line where it matches: \<^verbatim>\<open>.*\<close> is greedy.\<close>

definition tag_here :: "string \<Rightarrow> string option" where
  "tag_here s =
     (case lits ''(DW_TAG_'' s of
        None \<Rightarrow> None
      | Some r \<Rightarrow>
          (case many1 re_word r of
             Some (w, c # _) \<Rightarrow> if c = CHR '')'' then Some (''DW_TAG_'' @ w) else None
           | _ \<Rightarrow> None))"

fun last_tag :: "string \<Rightarrow> string option" where
  "last_tag [] = None"
| "last_tag (c # cs) = (case last_tag cs of Some t \<Rightarrow> Some t | None \<Rightarrow> tag_here (c # cs))"

text \<open>\<^verbatim>\<open>^\s*<\d+><([0-9a-f]+)>:.*\((DW_TAG_\w+)\)\<close>; the dot stops at a line feed.\<close>

definition match_die :: "string \<Rightarrow> (string \<times> string) option" where
  "match_die line =
     Option.bind (lits ''<'' (skip line)) (\<lambda>r.
     Option.bind (many1 is_digit r) (\<lambda>(_, r).
     Option.bind (lits ''><'' r) (\<lambda>r.
     Option.bind (many1 lower_hex r) (\<lambda>(off, r).
     Option.bind (lits ''>:'' r) (\<lambda>r.
       map_option (Pair off) (last_tag (takeWhile (\<lambda>c. c \<noteq> CHR 0x0A) r)))))))"

text \<open>\<^verbatim>\<open>:?\s*([A-Za-z_][\w.]*)\s*$\<close> at the start of a text.\<close>

definition name_tail :: "string \<Rightarrow> string option" where
  "name_tail s =
     (let s = skip (case s of c # cs \<Rightarrow> if c = CHR '':'' then cs else s | [] \<Rightarrow> s) in
      case s of
        [] \<Rightarrow> None
      | c # cs \<Rightarrow>
          let P = (\<lambda>c. re_word c \<or> c = CHR ''.'') in
          if re_alpha c \<and> skip (dropWhile P cs) = [] then Some (c # takeWhile P cs) else None)"

text \<open>\<^verbatim>\<open>.*?\<close> in front of it: the first place where it matches, with no line feed before it.\<close>

fun lazy_name :: "string \<Rightarrow> string option" where
  "lazy_name [] = name_tail []"
| "lazy_name (c # cs) =
     (case name_tail (c # cs) of
        Some n \<Rightarrow> Some n
      | None \<Rightarrow> if c = CHR 0x0A then None else lazy_name cs)"

definition name_here :: "string \<Rightarrow> string option" where
  "name_here s =
     (case lits ''DW_AT_name'' s of
        None \<Rightarrow> None
      | Some r \<Rightarrow> (case lits '':'' (skip r) of None \<Rightarrow> None | Some r \<Rightarrow> lazy_name r))"

definition match_name :: "string \<Rightarrow> string option" where
  "match_name line = re_search name_here line"

definition origin_here :: "string \<Rightarrow> string option" where
  "origin_here s =
     (case lits ''DW_AT_abstract_origin:'' s of
        None \<Rightarrow> None
      | Some r \<Rightarrow>
          (case lits ''<0x'' (skip r) of
             None \<Rightarrow> None
           | Some r \<Rightarrow>
               (case many1 lower_hex r of
                  Some (h, c # _) \<Rightarrow> if c = CHR ''>'' then Some h else None
                | _ \<Rightarrow> None)))"

definition match_origin :: "string \<Rightarrow> string option" where
  "match_origin line = re_search origin_here line"

section \<open>The scan\<close>

definition SUBPROGRAM :: string where "SUBPROGRAM = ''DW_TAG_subprogram''"
definition INLINED :: string where "INLINED = ''DW_TAG_inlined_subroutine''"

type_synonym counter = "(string \<times> nat) list"

definition count_of_key :: "counter \<Rightarrow> string \<Rightarrow> nat" where
  "count_of_key d k = (case map_of d k of None \<Rightarrow> 0 | Some n \<Rightarrow> n)"

definition bump :: "string \<Rightarrow> nat \<Rightarrow> counter \<Rightarrow> counter" where
  "bump k n d = AList.update k (count_of_key d k + n) d"

record scan_state =
  sc_subprog :: "(string \<times> (string option \<times> bool)) list"
  sc_inlined :: counter
  sc_cur :: "(string \<times> string) option"

definition scan_line :: "scan_state \<Rightarrow> string \<Rightarrow> scan_state" where
  "scan_line s line =
     (case match_die line of
        Some (off, tag) \<Rightarrow>
          s\<lparr>sc_cur := Some (off, tag),
            sc_subprog :=
              (if tag = SUBPROGRAM \<and> map_of (sc_subprog s) off = None then sc_subprog s @ [(off, None, False)] else sc_subprog s)\<rparr>
      | None \<Rightarrow>
          (case sc_cur s of
             None \<Rightarrow> s
           | Some (off, tag) \<Rightarrow>
               if tag = SUBPROGRAM then
                 (case map_of (sc_subprog s) off of
                    None \<Rightarrow> s
                  | Some (nm, pc) \<Rightarrow>
                      s\<lparr>sc_subprog := AList.update off
                          (if nm = None then match_name line else nm, pc \<or> contains ''DW_AT_low_pc'' line) (sc_subprog s)\<rparr>)
               else if tag = INLINED then
                 (case match_origin line of None \<Rightarrow> s | Some o' \<Rightarrow> s\<lparr>sc_inlined := bump o' 1 (sc_inlined s)\<rparr>)
               else s))"

definition scan_lines :: "string list \<Rightarrow> scan_state" where
  "scan_lines ls = foldl scan_line \<lparr>sc_subprog = [], sc_inlined = [], sc_cur = None\<rparr> ls"

definition outline_names :: "scan_state \<Rightarrow> string list" where
  "outline_names s = List.map_filter (\<lambda>(_, nm, pc). if pc \<and> nm \<noteq> Some [] then nm else None) (sc_subprog s)"

definition by_name :: "scan_state \<Rightarrow> counter" where
  "by_name s =
     foldl (\<lambda>d (off, cnt). case map_of (sc_subprog s) off of
                Some (Some n, _) \<Rightarrow> if n = [] then d else bump n cnt d
              | _ \<Rightarrow> d) [] (sc_inlined s)"

definition inline_scan :: "string list \<Rightarrow> string list \<times> counter" where
  "inline_scan ls = (let s = scan_lines ls in (outline_names s, by_name s))"

section \<open>The annotation\<close>

text \<open>\<^verbatim>\<open>for h in hooks\<close>, and the name of a hook, which has to be an object with a hashable name.\<close>

definition items_of :: "jval \<Rightarrow> jval list result" where
  "items_of v =
     (case v of
        JArr xs \<Rightarrow> Inr xs
      | JStr s \<Rightarrow> Inr (map (\<lambda>c. JStr [c]) s)
      | JObj d \<Rightarrow> Inr (map (JStr \<circ> fst) d)
      | _ \<Rightarrow> Inl (TypeError ''object is not iterable''))"

definition hook_object :: "jval \<Rightarrow> jobj result" where
  "hook_object h = (case h of JObj d \<Rightarrow> Inr d | _ \<Rightarrow> Inl (AttributeError ''get''))"

definition mapped_name :: "jval \<Rightarrow> (jobj \<times> jval) result" where
  "mapped_name h =
     ebind (hook_object h) (\<lambda>d.
       case jget d ''name'' of
         JArr _ \<Rightarrow> Inl (TypeError ''unhashable type'')
       | JObj _ \<Rightarrow> Inl (TypeError ''unhashable type'')
       | v \<Rightarrow> Inr (d, v))"

definition sites_of :: "counter \<Rightarrow> jobj \<Rightarrow> nat" where
  "sites_of inl h = (case jget h ''name'' of JStr n \<Rightarrow> count_of_key inl n | _ \<Rightarrow> 0)"

definition mark_hook :: "counter \<Rightarrow> jobj \<Rightarrow> jobj" where
  "mark_hook inl h =
     (let n = sites_of inl h in
      AList.update ''inline_sites'' (JInt (int n))
        (AList.update ''inline_status'' (JStr (if n \<noteq> 0 then ''partial'' else ''out-of-line'')) h))"

definition inlined_only :: "string list \<Rightarrow> counter \<Rightarrow> jval list \<Rightarrow> (string \<times> nat) list" where
  "inlined_only outline inl mapped =
     sort_key (\<lambda>(n, c). - int c) (filter (\<lambda>(n, c). n \<notin> set outline \<and> JStr n \<notin> set mapped) inl)"

text \<open>\<^verbatim>\<open>main\<close> behind its arguments. \<^verbatim>\<open>doc.get\<close> is looked up before the alternative for a list is used.\<close>

definition annotate :: "jval \<Rightarrow> string \<Rightarrow> string list \<Rightarrow> jval result" where
  "annotate doc binary ls =
     (case doc of
        JObj d \<Rightarrow>
          (case inline_scan ls of (outline, inl) \<Rightarrow>
             if outline = [] then Inl (SystemExit ''no out-of-line subprograms found'')
             else
               ebind (items_of (case map_of d ''hook_points'' of None \<Rightarrow> JArr [] | Some v \<Rightarrow> v)) (\<lambda>items.
               ebind (emap mapped_name items) (\<lambda>hooks.
                 Inr (JObj
                   (AList.update ''inline_status_source'' (JStr binary)
                   (AList.update ''inlined_only''
                      (JArr (map (\<lambda>(n, c). JObj [(''name'', JStr n), (''inline_sites'', JInt (int c))])
                               (inlined_only outline inl (map snd hooks))))
                   (case map_of d ''hook_points'' of
                      Some (JArr _) \<Rightarrow> AList.update ''hook_points'' (JArr (map (JObj \<circ> mark_hook inl \<circ> fst) hooks)) d
                    | _ \<Rightarrow> d)))))))
      | _ \<Rightarrow> Inl (AttributeError ''get''))"

section \<open>Counters\<close>

definition weight :: "(string \<Rightarrow> bool) \<Rightarrow> counter \<Rightarrow> nat" where
  "weight P d = sum_list (map snd (filter (\<lambda>(k, n). P k) d))"

lemma keys_bump: "distinct (map fst d) \<Longrightarrow> distinct (map fst (bump k n d))"
  by (simp add: bump_def distinct_update)

lemma count_bump: "count_of_key (bump k n d) j = count_of_key d j + (if j = k then n else 0)"
  by (auto simp: bump_def count_of_key_def update_conv' split: option.splits)

lemma weight_bump:
  "distinct (map fst d) \<Longrightarrow> weight P (bump k n d) = weight P d + (if P k then n else 0)"
proof (induction d)
  case (Cons x d)
  obtain j c where x: "x = (j, c)" by (cases x)
  show ?case
  proof (cases "j = k")
    case True
    then show ?thesis by (simp add: x bump_def count_of_key_def weight_def)
  next
    case False
    then have "bump k n (x # d) = x # bump k n d" by (simp add: x bump_def count_of_key_def)
    with Cons x show ?thesis by (simp add: weight_def)
  qed
qed (simp add: bump_def count_of_key_def weight_def)

definition tally :: "string list \<Rightarrow> counter" where
  "tally xs = foldl (\<lambda>d k. bump k 1 d) [] xs"

lemma tally_snoc: "tally (xs @ [x]) = bump x 1 (tally xs)"
  by (simp add: tally_def)

lemma tally_keys: "distinct (map fst (tally xs))"
proof (induction xs rule: rev_induct)
  case (snoc x xs)
  then show ?case by (simp add: tally_snoc keys_bump)
qed (simp add: tally_def)

lemma weight_tally: "weight P (tally xs) = length (filter P xs)"
proof (induction xs rule: rev_induct)
  case (snoc x xs)
  then show ?case by (simp add: tally_snoc weight_bump [OF tally_keys])
qed (simp add: tally_def weight_def)

section \<open>Entries of the dump\<close>

text \<open>An entry: its offset, its tag, and the lines up to the next one.\<close>

record die =
  d_off :: string
  d_tag :: string
  d_lines :: "string list"

fun entries :: "string list \<Rightarrow> die list" where
  "entries [] = []"
| "entries (l # ls) =
     (case match_die l of
        Some (off, tag) \<Rightarrow> \<lparr>d_off = off, d_tag = tag, d_lines = takeWhile (\<lambda>x. match_die x = None) ls\<rparr> # entries ls
      | None \<Rightarrow> entries ls)"

definition first_of :: "(string \<Rightarrow> string option) \<Rightarrow> string list \<Rightarrow> string option" where
  "first_of f ls = (case List.map_filter f ls of [] \<Rightarrow> None | x # _ \<Rightarrow> Some x)"

definition subprograms :: "die list \<Rightarrow> die list" where
  "subprograms ds = filter (\<lambda>d. d_tag d = SUBPROGRAM) ds"

definition die_name :: "die \<Rightarrow> string option" where
  "die_name d = first_of match_name (d_lines d)"

definition has_code :: "die \<Rightarrow> bool" where
  "has_code d = list_ex (contains ''DW_AT_low_pc'') (d_lines d)"

definition origins :: "die list \<Rightarrow> string list" where
  "origins ds = concat (map (\<lambda>d. List.map_filter match_origin (d_lines d)) (filter (\<lambda>d. d_tag d = INLINED) ds))"

lemma map_filter_simps [simp]: "List.map_filter f [] = []"
  "List.map_filter f (xs @ ys) = List.map_filter f xs @ List.map_filter f ys"
  "List.map_filter f [x] = (case f x of None \<Rightarrow> [] | Some y \<Rightarrow> [y])"
  by (simp_all add: List.map_filter_def split: option.split)

lemma first_of_snoc: "first_of f (ls @ [l]) = (case first_of f ls of None \<Rightarrow> f l | Some x \<Rightarrow> Some x)"
  by (cases "List.map_filter f ls") (auto simp: first_of_def split: option.splits)

text \<open>A line more: a new entry, or another line of the last one.\<close>

definition add_line :: "string \<Rightarrow> die list \<Rightarrow> die list" where
  "add_line l ds = (if ds = [] then [] else butlast ds @ [(last ds)\<lparr>d_lines := d_lines (last ds) @ [l]\<rparr>])"

lemma entries_snoc:
  "entries (ls @ [l]) =
   (case match_die l of
      Some (off, tag) \<Rightarrow> entries ls @ [\<lparr>d_off = off, d_tag = tag, d_lines = []\<rparr>]
    | None \<Rightarrow> add_line l (entries ls))"
proof (induction ls)
  case Nil
  then show ?case by (simp add: add_line_def split: option.split)
next
  case (Cons x ls)
  have tw: "takeWhile P (xs @ [y]) = (if P y \<and> (\<forall>x \<in> set xs. P x) then takeWhile P xs @ [y] else takeWhile P xs)" for P xs and y :: string
    by (induction xs) auto
  have ne: "entries ls = [] \<longleftrightarrow> (\<forall>x \<in> set ls. match_die x = None)"
    by (induction ls) (auto split: option.splits)
  show ?case
  proof (cases "match_die x")
    case None
    then show ?thesis using Cons by (simp split: option.splits)
  next
    case (Some a)
    with Cons ne tw [of "\<lambda>x. match_die x = None" ls l] show ?thesis
      by (cases "entries ls = []") (auto simp: add_line_def split: option.splits prod.splits)
  qed
qed

section \<open>What the scan finds\<close>

definition row_of_die :: "die \<Rightarrow> string \<times> (string option \<times> bool)" where
  "row_of_die d = (d_off d, die_name d, has_code d)"

definition cur_of :: "die list \<Rightarrow> (string \<times> string) option" where
  "cur_of ds = (if ds = [] then None else Some (d_off (last ds), d_tag (last ds)))"

text \<open>The entries of the functions have different offsets, as the positions of a file have.\<close>

definition offsets_differ :: "die list \<Rightarrow> bool" where
  "offsets_differ ds = distinct (map d_off (subprograms ds))"

lemma add_line_snoc: "add_line l (ds @ [d]) = ds @ [d\<lparr>d_lines := d_lines d @ [l]\<rparr>]"
  by (simp add: add_line_def)

lemma update_last: "k \<notin> set (map fst xs) \<Longrightarrow> AList.update k v (xs @ [(k, w)]) = xs @ [(k, v)]"
  by (induction xs) auto

lemma row_fst: "map fst (map row_of_die ds) = map d_off ds"
  by (simp add: row_of_die_def)

lemma line_step:
  assumes "offsets_differ (ds @ [d])" "match_die l = None"
  shows "scan_line \<lparr>sc_subprog = map row_of_die (subprograms (ds @ [d])), sc_inlined = tally (origins (ds @ [d])),
                    sc_cur = cur_of (ds @ [d])\<rparr> l =
    \<lparr>sc_subprog = map row_of_die (subprograms (ds @ [d\<lparr>d_lines := d_lines d @ [l]\<rparr>])),
     sc_inlined = tally (origins (ds @ [d\<lparr>d_lines := d_lines d @ [l]\<rparr>])),
     sc_cur = cur_of (ds @ [d\<lparr>d_lines := d_lines d @ [l]\<rparr>])\<rparr>"
proof (cases "d_tag d = SUBPROGRAM")
  case True
  let ?xs = "map row_of_die (subprograms ds)"
  have k: "d_off d \<notin> set (map fst ?xs)" using assms(1) True unfolding row_fst by (simp add: offsets_differ_def subprograms_def)
  then have "map_of (?xs @ [row_of_die d]) (d_off d) = Some (die_name d, has_code d)"
    using map_of_eq_None_iff [of ?xs "d_off d"] by (simp add: row_of_die_def map_add_def flip: set_map)
  moreover have "AList.update (d_off d) v (?xs @ [row_of_die d]) = ?xs @ [(d_off d, v)]" for v
    using update_last [OF k] by (simp add: row_of_die_def)
  moreover have "origins (ds @ [d\<lparr>d_lines := d_lines d @ [l]\<rparr>]) = origins (ds @ [d])"
    using True by (simp add: origins_def SUBPROGRAM_def INLINED_def)
  ultimately show ?thesis
    using True assms(2)
    by (simp add: scan_line_def subprograms_def cur_of_def row_of_die_def die_name_def has_code_def first_of_snoc split: option.split)
next
  case False
  then have "subprograms (ds @ [d\<lparr>d_lines := d_lines d @ [l]\<rparr>]) = subprograms (ds @ [d])" by (simp add: subprograms_def)
  moreover have "tally (origins (ds @ [d\<lparr>d_lines := d_lines d @ [l]\<rparr>])) =
      (if d_tag d = INLINED then case match_origin l of None \<Rightarrow> tally (origins (ds @ [d])) | Some o' \<Rightarrow> bump o' 1 (tally (origins (ds @ [d])))
       else tally (origins (ds @ [d])))"
    by (simp add: origins_def tally_snoc flip: append_assoc split: option.split)
  ultimately show ?thesis
    using False assms(2) by (simp add: scan_line_def cur_of_def split: option.split)
qed

lemma scan_lines_entries:
  "offsets_differ (entries ls) \<Longrightarrow>
   scan_lines ls = \<lparr>sc_subprog = map row_of_die (subprograms (entries ls)), sc_inlined = tally (origins (entries ls)),
                   sc_cur = cur_of (entries ls)\<rparr>"
proof (induction ls rule: rev_induct)
  case Nil
  then show ?case by (simp add: scan_lines_def subprograms_def origins_def tally_def cur_of_def)
next
  case (snoc l ls)
  have step: "scan_lines (ls @ [l]) = scan_line (scan_lines ls) l" by (simp add: scan_lines_def)
  show ?case
  proof (cases "match_die l")
    case (Some a)
    obtain off tag where a: "a = (off, tag)" by (cases a)
    let ?d = "\<lparr>d_off = off, d_tag = tag, d_lines = []\<rparr>"
    have e: "entries (ls @ [l]) = entries ls @ [?d]" using Some a by (simp add: entries_snoc)
    have d: "offsets_differ (entries ls)" "tag = SUBPROGRAM \<Longrightarrow> off \<notin> set (map d_off (subprograms (entries ls)))"
      using snoc.prems unfolding e by (auto simp: offsets_differ_def subprograms_def)
    have "tag = SUBPROGRAM \<Longrightarrow> map_of (map row_of_die (subprograms (entries ls))) off = None"
      using d(2) by (simp add: map_of_eq_None_iff row_fst flip: set_map) (simp add: row_of_die_def)
    moreover have "row_of_die ?d = (off, None, False)" by (simp add: row_of_die_def die_name_def has_code_def first_of_def)
    moreover have "origins (entries ls @ [?d]) = origins (entries ls)" by (simp add: origins_def)
    ultimately show ?thesis unfolding step snoc.IH [OF d(1)] e using Some a
      by (auto simp: scan_line_def subprograms_def cur_of_def)
  next
    case None
    show ?thesis
    proof (cases "entries ls" rule: rev_cases)
      case Nil
      then have "offsets_differ (entries ls)" by (simp add: offsets_differ_def subprograms_def)
      with None Nil show ?thesis unfolding step by (simp add: snoc.IH scan_line_def entries_snoc add_line_def cur_of_def)
    next
      case (snoc ds d)
      let ?d = "d\<lparr>d_lines := d_lines d @ [l]\<rparr>"
      have e: "entries (ls @ [l]) = ds @ [?d]" using None snoc by (simp add: entries_snoc add_line_snoc)
      have differ: "offsets_differ (ds @ [d])" using \<open>offsets_differ (entries (ls @ [l]))\<close> unfolding e
        by (auto simp: offsets_differ_def subprograms_def)
      then have ih: "scan_lines ls = \<lparr>sc_subprog = map row_of_die (subprograms (ds @ [d])),
          sc_inlined = tally (origins (ds @ [d])), sc_cur = cur_of (ds @ [d])\<rparr>" using snoc.IH snoc by simp
      show ?thesis unfolding step ih e by (rule line_step [OF differ None])
    qed
  qed
qed

text \<open>The names with code of their own, and the number of inlined copies of a name.\<close>

definition code_names :: "die list \<Rightarrow> string set" where
  "code_names ds = {n. n \<noteq> [] \<and> (\<exists>d \<in> set (subprograms ds). die_name d = Some n \<and> has_code d)}"

definition copies :: "die list \<Rightarrow> string \<Rightarrow> nat" where
  "copies ds n =
     length (filter (\<lambda>off. n \<noteq> [] \<and> (\<exists>d \<in> set (subprograms ds). d_off d = off \<and> die_name d = Some n)) (origins ds))"

lemma by_name_fold:
  fixes f :: "string \<Rightarrow> string option"
  shows "count_of_key (foldl (\<lambda>d (off, cnt). case f off of None \<Rightarrow> d | Some n \<Rightarrow> bump n cnt d) acc items) n =
    count_of_key acc n + weight (\<lambda>off. f off = Some n) items"
proof (induction items arbitrary: acc)
  case (Cons x items)
  obtain off cnt where x: "x = (off, cnt)" by (cases x)
  show ?case by (cases "f off") (auto simp: x Cons.IH count_bump weight_def)
qed (simp add: weight_def)

lemma by_name_count:
  "count_of_key (by_name s) n =
   weight (\<lambda>off. n \<noteq> [] \<and> (\<exists>pc. map_of (sc_subprog s) off = Some (Some n, pc))) (sc_inlined s)"
proof -
  let ?f = "\<lambda>off. case map_of (sc_subprog s) off of Some (Some n, _) \<Rightarrow> if n = [] then None else Some n | _ \<Rightarrow> None"
  have f: "?f off = Some n \<longleftrightarrow> n \<noteq> [] \<and> (\<exists>pc. map_of (sc_subprog s) off = Some (Some n, pc))" for off
    by (auto split: option.splits if_splits)
  have "by_name s = foldl (\<lambda>d (off, cnt). case ?f off of None \<Rightarrow> d | Some n \<Rightarrow> bump n cnt d) [] (sc_inlined s)"
    unfolding by_name_def by (rule arg_cong [where f = "\<lambda>g. foldl g [] (sc_inlined s)"]) (auto simp: fun_eq_iff split: option.splits)
  then show ?thesis by (simp only: by_name_fold f) (simp add: count_of_key_def)
qed

lemma row_lookup:
  assumes "offsets_differ ds"
  shows "map_of (map row_of_die (subprograms ds)) off = Some (nm, pc) \<longleftrightarrow>
    (\<exists>d \<in> set (subprograms ds). d_off d = off \<and> die_name d = nm \<and> has_code d = pc)"
proof -
  have "distinct (map fst (map row_of_die (subprograms ds)))" using assms unfolding row_fst offsets_differ_def .
  from map_of_eq_Some_iff [OF this] show ?thesis by (auto simp: row_of_die_def)
qed

lemma rows_with_code:
  "set (List.map_filter (\<lambda>(_, nm, pc). if pc \<and> nm \<noteq> Some [] then nm else None) (map row_of_die ds)) =
   {n. n \<noteq> [] \<and> (\<exists>d \<in> set ds. die_name d = Some n \<and> has_code d)}"
proof (induction ds)
  case (Cons d ds)
  then show ?case by (cases "die_name d"; cases "has_code d") (auto simp: row_of_die_def List.map_filter_def)
qed simp

lemma scan_exact:
  assumes "offsets_differ (entries ls)"
  shows "set (fst (inline_scan ls)) = code_names (entries ls)" "count_of_key (snd (inline_scan ls)) n = copies (entries ls) n"
proof -
  note s = scan_lines_entries [OF assms]
  show "set (fst (inline_scan ls)) = code_names (entries ls)"
    by (simp add: inline_scan_def Let_def outline_names_def s code_names_def rows_with_code)
  show "count_of_key (snd (inline_scan ls)) n = copies (entries ls) n"
    unfolding inline_scan_def Let_def snd_conv by_name_count s scan_state.simps weight_tally copies_def row_lookup [OF assms]
    by (rule arg_cong [where f = length], rule filter_cong) auto
qed

text \<open>What is written for one hook.\<close>

definition marked :: "die list \<Rightarrow> jval \<Rightarrow> jval \<Rightarrow> bool" where
  "marked ds h h' =
     (\<exists>d d'. h = JObj d \<and> h' = JObj d' \<and>
        (\<forall>k. k \<noteq> ''inline_status'' \<longrightarrow> k \<noteq> ''inline_sites'' \<longrightarrow> map_of d' k = map_of d k) \<and>
        (let n = (case jget d ''name'' of JStr s \<Rightarrow> copies ds s | _ \<Rightarrow> 0) in
         map_of d' ''inline_sites'' = Some (JInt (int n)) \<and>
         map_of d' ''inline_status'' = Some (JStr (if n = 0 then ''out-of-line'' else ''partial''))))"

lemma mark_hook_marked:
  assumes "offsets_differ (entries ls)"
  shows "marked (entries ls) (JObj d) (JObj (mark_hook (snd (inline_scan ls)) d))"
proof -
  have "sites_of (snd (inline_scan ls)) d = (case jget d ''name'' of JStr s \<Rightarrow> copies (entries ls) s | _ \<Rightarrow> 0)"
    by (simp add: sites_of_def scan_exact(2) [OF assms] split: jval.split)
  then show ?thesis unfolding marked_def by (intro exI conjI) (auto simp: mark_hook_def Let_def update_conv')
qed

definition listed_only :: "jval \<Rightarrow> (jval \<times> jval) list" where
  "listed_only v = (case v of JArr xs \<Rightarrow> List.map_filter (\<lambda>x. case x of JObj d \<Rightarrow> Some (jget d ''name'', jget d ''inline_sites'') | _ \<Rightarrow> None) xs | _ \<Rightarrow> [])"

lemma listed_only_map:
  "set (listed_only (JArr (map (\<lambda>(n, c). JObj [(''name'', JStr n), (''inline_sites'', JInt (int c))]) xs))) =
   (\<lambda>(n, c). (JStr n, JInt (int c))) ` set xs"
proof -
  have "listed_only (JArr (map (\<lambda>(n, c). JObj [(''name'', JStr n), (''inline_sites'', JInt (int c))]) xs)) =
      map (\<lambda>(n, c). (JStr n, JInt (int c))) xs"
    by (induction xs) (auto simp: listed_only_def List.map_filter_def jget_def)
  then show ?thesis by simp
qed

lemma scan_keys: "distinct (map fst (snd (inline_scan ls)))"
proof -
  have "distinct (map fst (foldl (\<lambda>d (off, cnt). case f off of
      Some (Some n, _) \<Rightarrow> if n = [] then d else bump n cnt d | _ \<Rightarrow> d) acc items))"
    if "distinct (map fst acc)" for f :: "string \<Rightarrow> (string option \<times> bool) option" and acc items
    using that by (induction items arbitrary: acc) (auto simp: keys_bump split: option.split)
  from this [of "[]"] show ?thesis by (simp add: inline_scan_def by_name_def Let_def)
qed

text \<open>
  The status of a hook is what the debug information says: where the entries of the functions have different offsets,
  every hook of the map keeps its fields and gets the number of inlined copies of its name, that is of the inlined
  entries whose origin is a function entry with that name, and is partial exactly when that number is not zero. A
  function is listed as existing only inlined where none of its entries has both the name and code, and no hook has the
  name; it is listed with the number of its copies.
\<close>

theorem inline_status_exact:
  assumes "offsets_differ (entries ls)" "annotate (JObj d) binary ls = Inr (JObj out)"
    and "map_of d ''hook_points'' = Some (JArr hooks)"
  shows "(\<exists>hooks'. map_of out ''hook_points'' = Some (JArr hooks') \<and> list_all2 (marked (entries ls)) hooks hooks') \<and>
    (\<forall>n c. (n, c) \<in> set (listed_only (jget out ''inlined_only'')) \<longrightarrow>
       (\<exists>s. n = JStr s \<and> c = JInt (int (copies (entries ls) s)) \<and> s \<notin> code_names (entries ls) \<and>
            (\<forall>h \<in> set hooks. \<forall>e. h = JObj e \<longrightarrow> jget e ''name'' \<noteq> JStr s)))"
proof -
  obtain outline inl where sc: "inline_scan ls = (outline, inl)" by (cases "inline_scan ls")
  have sx: "set outline = code_names (entries ls)" "count_of_key inl n = copies (entries ls) n" for n
    using scan_exact [OF assms(1)] sc by auto
  from assms(2,3) obtain hs where hs: "emap mapped_name hooks = Inr hs"
    and out: "out = AList.update ''inline_status_source'' (JStr binary)
      (AList.update ''inlined_only'' (JArr (map (\<lambda>(n, c). JObj [(''name'', JStr n), (''inline_sites'', JInt (int c))])
         (inlined_only outline inl (map snd hs))))
       (AList.update ''hook_points'' (JArr (map (JObj \<circ> mark_hook inl \<circ> fst) hs)) d))"
    by (auto simp: annotate_def sc items_of_def err_simps split: if_splits)
  have nth: "hooks ! i = JObj (fst (hs ! i)) \<and> jget (fst (hs ! i)) ''name'' = snd (hs ! i)" if "i < length hooks" for i
    using emap_nth [OF hs that]
    by (cases "hs ! i") (auto simp: mapped_name_def hook_object_def err_simps split: jval.splits)
  have len: "length hs = length hooks" using emap_length [OF hs] by simp
  have "list_all2 (marked (entries ls)) hooks (map (JObj \<circ> mark_hook inl \<circ> fst) hs)"
    using nth mark_hook_marked [OF assms(1)] sc by (auto simp: list_all2_conv_all_nth len)
  then have "map_of out ''hook_points'' = Some (JArr (map (JObj \<circ> mark_hook inl \<circ> fst) hs)) \<and>
      list_all2 (marked (entries ls)) hooks (map (JObj \<circ> mark_hook inl \<circ> fst) hs)"
    by (simp add: out update_conv')
  moreover have "jget out ''inlined_only'' = JArr (map (\<lambda>(n, c). JObj [(''name'', JStr n), (''inline_sites'', JInt (int c))])
      (inlined_only outline inl (map snd hs)))" by (simp add: out)
  then have "set (listed_only (jget out ''inlined_only'')) =
      (\<lambda>(n, c). (JStr n, JInt (int c))) ` set (inlined_only outline inl (map snd hs))" by (simp only: listed_only_map)
  moreover have "c = copies (entries ls) n \<and> n \<notin> code_names (entries ls) \<and> (\<forall>h \<in> set hooks. \<forall>e. h = JObj e \<longrightarrow> jget e ''name'' \<noteq> JStr n)"
    if "(n, c) \<in> set (inlined_only outline inl (map snd hs))" for n c
  proof -
    have i: "(n, c) \<in> set inl" "n \<notin> set outline" "JStr n \<notin> set (map snd hs)" using that by (auto simp: inlined_only_def)
    have "map_of inl n = Some c" using i(1) scan_keys [of ls] sc by simp
    then have "c = copies (entries ls) n" using sx(2) [of n] by (simp add: count_of_key_def)
    moreover have "jget e ''name'' \<noteq> JStr n" if "JObj e \<in> set hooks" for e
    proof -
      from that obtain k where "k < length hooks" "hooks ! k = JObj e" by (auto simp: in_set_conv_nth)
      with nth [of k] len have "jget e ''name'' \<in> set (map snd hs)" by auto
      with i(3) show ?thesis by metis
    qed
    ultimately show ?thesis using i(2) sx(1) by auto
  qed
  then have "\<forall>n c. (n, c) \<in> (\<lambda>(n, c). (JStr n, JInt (int c))) ` set (inlined_only outline inl (map snd hs)) \<longrightarrow>
       (\<exists>s. n = JStr s \<and> c = JInt (int (copies (entries ls) s)) \<and> s \<notin> code_names (entries ls) \<and>
            (\<forall>h \<in> set hooks. \<forall>e. h = JObj e \<longrightarrow> jget e ''name'' \<noteq> JStr s))" by fastforce
  ultimately show ?thesis by metis
qed

text \<open>A function with code and an inlined copy, one that exists only inlined, and one whose code is a separate entry.\<close>

definition dump_line :: "string \<Rightarrow> string" where
  "dump_line s = s @ [CHR 0x0A]"

definition small_dump :: "string list" where
  "small_dump = map dump_line
     ['' <1><2d>: (DW_TAG_subprogram)'',
      '' DW_AT_name : (offset: 0x1f): foo'',
      '' DW_AT_low_pc : 0x1000'',
      '' <1><3a>: (DW_TAG_subprogram)'',
      '' DW_AT_name : bar'',
      '' <2><44>: (DW_TAG_inlined_subroutine)'',
      '' DW_AT_abstract_origin: <0x2d>'',
      '' <2><4c>: (DW_TAG_inlined_subroutine)'',
      '' DW_AT_abstract_origin: <0x3a>'']"

definition small_map :: jobj where
  "small_map = [(''hook_points'', JArr [JObj [(''name'', JStr ''foo'')]])]"

definition small_out :: jobj where
  "small_out =
     [(''hook_points'', JArr [JObj [(''name'', JStr ''foo''), (''inline_status'', JStr ''partial''), (''inline_sites'', JInt 1)]]),
      (''inlined_only'', JArr [JObj [(''name'', JStr ''bar''), (''inline_sites'', JInt 1)]]),
      (''inline_status_source'', JStr ''tmm'')]"

lemma small_dump_read: "annotate (JObj small_map) ''tmm'' small_dump = Inr (JObj small_out)"
  by code_simp

lemma small_dump_differ: "offsets_differ (entries small_dump)"
  by code_simp

theorem inline_status_exact_witness:
  "(\<exists>hooks'. map_of small_out ''hook_points'' = Some (JArr hooks') \<and>
      list_all2 (marked (entries small_dump)) [JObj [(''name'', JStr ''foo'')]] hooks') \<and>
   copies (entries small_dump) ''bar'' = 1 \<and> ''bar'' \<notin> code_names (entries small_dump)"
proof -
  have m: "map_of small_map ''hook_points'' = Some (JArr [JObj [(''name'', JStr ''foo'')]])" by (simp add: small_map_def)
  have "(JStr ''bar'', JInt 1) \<in> set (listed_only (jget small_out ''inlined_only''))" by code_simp
  with inline_status_exact [OF small_dump_differ small_dump_read m] show ?thesis by fastforce
qed

text \<open>
  The concrete instance of a partially inlined function has its own entry, with the code and a reference to the entry
  with the name: the function has code, and it is listed as one that exists only inlined.
\<close>

definition concrete_dump :: "string list" where
  "concrete_dump = map dump_line
     ['' <1><2d>: (DW_TAG_subprogram)'',
      '' DW_AT_name : foo'',
      '' <1><3a>: (DW_TAG_subprogram)'',
      '' DW_AT_abstract_origin: <0x2d>'',
      '' DW_AT_low_pc : 0x1000'',
      '' <1><44>: (DW_TAG_subprogram)'',
      '' DW_AT_name : main'',
      '' DW_AT_low_pc : 0x2000'',
      '' <2><4c>: (DW_TAG_inlined_subroutine)'',
      '' DW_AT_abstract_origin: <0x2d>'']"

lemma concrete_instance_not_counted:
  "annotate (JObj []) ''tmm'' concrete_dump =
   Inr (JObj [(''inlined_only'', JArr [JObj [(''name'', JStr ''foo''), (''inline_sites'', JInt 1)]]),
              (''inline_status_source'', JStr ''tmm'')])"
  by code_simp

text \<open>A map that is a list of hooks is refused, though the code has a case for it.\<close>

lemma list_document_refused: "annotate (JArr hooks) binary ls = Inl (AttributeError ''get'')"
  by (simp add: annotate_def)

end
