(* ===== verification/Hook_Document.thy ===== *)
theory Hook_Document
  imports Hook_Map Inline_Status
begin

text \<open>
  The document of the hook map that \<^verbatim>\<open>substrate/mk_hook_map.py\<close> writes, and what \<^verbatim>\<open>mk_inline_status.py\<close> makes of it. The
  annotator parses the text the generator printed; between the two the document is taken as it is.
\<close>

definition MAP_COMMENT :: string where
  "MAP_COMMENT =
     ''PHASE A+: addresses, pad status, and OFFLINE RELOCATABILITY. arm_method is '' @ [CHR 0x27] @ ''pad'' @ [CHR 0x27] @
     '' (overwrite the compiler'' @ [CHR 0x27] @ ''s 5 nops --- nothing is displaced) or '' @ [CHR 0x27] @ ''displace'' @ [CHR 0x27] @
     '' (no pad: copy displace_bytes of leading instructions to the trampoline verbatim, then write the jump over them). '' @
     ''The second route only appears for entries whose leading instructions are POSITION-INDEPENDENT, so the runtime '' @
     ''copies bytes and never decodes an instruction --- measured at 94.8% of TMM'' @ [CHR 0x27] @ ''s function entries, which is why no '' @
     ''disassembler is needed in the data plane. Entries that are neither padded nor copyable are OMITTED: fail closed. '' @
     ''pad_offset is 4 (endbr64 + 5 nops, indirect-call targets) or 0 (5 nops, direct-call-only: file-scope statics and '' @
     ''.isra/.constprop clones, which -fcf-protection gives no landing pad). ls_arm.c honours BOTH as of 2026-08-15 -- it '' @
     ''previously refused pad_offset==0, and those 4,611 entries are not a random slice: they are disproportionately the '' @
     ''internal, file-local logic worth probing. arg_btf (the typed argument layout a program is verified against) is NOT '' @
     ''emitted --- that needs DWARF parameter classification. Enough to arm a function by name; not enough to write a '' @
     ''program against one.''"

definition hook_doc :: "hook_point \<Rightarrow> jobj" where
  "hook_doc h =
     [(''name'', JStr (h_name h)), (''symbol'', JStr (h_name h)), (''entry'', JStr (fmt_hex (h_entry h))),
      (''attach_mode'', JStr ''observe''), (''path_class'', JStr ''unclassified''),
      (''enumerated_outcomes'', JArr [JStr ''LS_FALLTHROUGH'', JStr ''LS_SAFE_RETURN'']),
      (''arm_method'', JStr (h_method h)), (''relocatable'', JBool (h_relocatable h)), (''displace_bytes'', JInt (int (h_displace h)))] @
     (case h_pad h of
        Some p \<Rightarrow> [(''pad_offset'', JInt (int p)), (''arm_at'', JStr (fmt_hex (h_arm h))), (''patchable_pad_bytes'', JInt 5)]
      | None \<Rightarrow> [(''arm_at'', JStr (fmt_hex (h_arm h)))]) @
     (case h_why h of None \<Rightarrow> [] | Some w \<Rightarrow> [(''not_relocatable_why'', JStr w)])"

definition map_doc :: "string option \<Rightarrow> string \<Rightarrow> hook_point list \<Rightarrow> jobj" where
  "map_doc bid version hs =
     [(''_comment'', JStr MAP_COMMENT), (''tmos_version'', JStr version), (''build_id'', case bid of None \<Rightarrow> JNull | Some b \<Rightarrow> JStr b),
      (''ctx_abi_version'', JInt 1), (''generated_by'', JStr ''substrate/mk_hook_map.py (phase A: addresses + pad status)''),
      (''hook_points'', JArr (map (JObj \<circ> hook_doc) hs))]"

text \<open>What a reader finds of a hook point, and what was added.\<close>

definition describes :: "die list \<Rightarrow> hook_point \<Rightarrow> jval \<Rightarrow> bool" where
  "describes ds h v =
     (\<exists>d. v = JObj d \<and> jget d ''name'' = JStr (h_name h) \<and> jget d ''entry'' = JStr (fmt_hex (h_entry h)) \<and>
        jget d ''arm_at'' = JStr (fmt_hex (h_arm h)) \<and> jget d ''arm_method'' = JStr (h_method h) \<and>
        jget d ''pad_offset'' = (case h_pad h of None \<Rightarrow> JNull | Some p \<Rightarrow> JInt (int p)) \<and>
        jget d ''displace_bytes'' = JInt (int (h_displace h)) \<and>
        jget d ''inline_sites'' = JInt (int (copies ds (h_name h))) \<and>
        jget d ''inline_status'' = JStr (if copies ds (h_name h) = 0 then ''out-of-line'' else ''partial''))"

lemma hook_doc_fields [simp]:
  "jget (hook_doc h) ''name'' = JStr (h_name h)" "jget (hook_doc h) ''entry'' = JStr (fmt_hex (h_entry h))"
  "jget (hook_doc h) ''arm_at'' = JStr (fmt_hex (h_arm h))" "jget (hook_doc h) ''arm_method'' = JStr (h_method h)"
  "jget (hook_doc h) ''pad_offset'' = (case h_pad h of None \<Rightarrow> JNull | Some p \<Rightarrow> JInt (int p))"
  "jget (hook_doc h) ''displace_bytes'' = JInt (int (h_displace h))"
  by (simp_all add: hook_doc_def jget_def map_add_def split: option.splits)

lemma marked_describes:
  assumes "marked ds (JObj (hook_doc h)) v"
  shows "describes ds h v"
proof -
  obtain d' where d: "v = JObj d'" "\<And>k. k \<noteq> ''inline_status'' \<Longrightarrow> k \<noteq> ''inline_sites'' \<Longrightarrow> map_of d' k = map_of (hook_doc h) k"
    "map_of d' ''inline_sites'' = Some (JInt (int (copies ds (h_name h))))"
    "map_of d' ''inline_status'' = Some (JStr (if copies ds (h_name h) = 0 then ''out-of-line'' else ''partial''))"
    using assms by (auto simp: marked_def Let_def)
  have "jget d' k = jget (hook_doc h) k" if "k \<noteq> ''inline_status''" "k \<noteq> ''inline_sites''" for k
    using d(2) [OF that] by (simp add: jget_def)
  with d show ?thesis unfolding describes_def by (intro exI [of _ d'] conjI) (simp_all, simp_all add: jget_def)
qed

lemma map_doc_hooks [simp]: "map_of (map_doc bid v hs) ''hook_points'' = Some (JArr (map (JObj \<circ> hook_doc) hs))"
  by (simp add: map_doc_def)

lemma map_doc_names: "emap mapped_name (map (JObj \<circ> hook_doc) hs) = Inr (map (\<lambda>h. (hook_doc h, JStr (h_name h))) hs)"
  by (induction hs) (simp_all add: mapped_name_def hook_object_def err_simps)

text \<open>The annotator refuses no document of the generator, as long as the debug information has a function with code.\<close>

lemma annotate_map_doc:
  assumes "offsets_differ (entries ls)" "code_names (entries ls) \<noteq> {}"
  shows "\<exists>out. annotate (JObj (map_doc bid v hs)) exe ls = Inr (JObj out)"
proof -
  obtain outline inl where sc: "inline_scan ls = (outline, inl)" by (cases "inline_scan ls")
  with scan_exact [OF assms(1)] assms(2) have "outline \<noteq> []" by auto
  with sc show ?thesis by (simp add: annotate_def items_of_def map_doc_names err_simps)
qed

lemma annotated_hooks:
  assumes "offsets_differ (entries ls)" "annotate (JObj (map_doc bid v hs)) exe ls = Inr (JObj out)"
  shows "\<exists>hooks'. map_of out ''hook_points'' = Some (JArr hooks') \<and> list_all2 (describes (entries ls)) hs hooks'"
proof -
  obtain hooks' where "map_of out ''hook_points'' = Some (JArr hooks')"
    "list_all2 (marked (entries ls)) (map (JObj \<circ> hook_doc) hs) hooks'"
    using inline_status_exact [OF assms map_doc_hooks] by blast
  then show ?thesis by (auto simp: list_all2_map1 intro: list_all2_mono [OF _ marked_describes])
qed

lemma annotated_only:
  assumes "offsets_differ (entries ls)" "annotate (JObj (map_doc bid v hs)) exe ls = Inr (JObj out)"
    and "(n, c) \<in> set (listed_only (jget out ''inlined_only''))"
  shows "\<exists>s. n = JStr s \<and> c = JInt (int (copies (entries ls) s)) \<and> s \<notin> code_names (entries ls) \<and> s \<notin> h_name ` set hs"
  using inline_status_exact [OF assms(1,2) map_doc_hooks] assms(3) by fastforce

text \<open>
  C37. The map the generator writes is one the annotator reads, and nothing is lost between them: for a dump in which
  the entries have different offsets and some function has code, the document of a successful run is annotated; its
  hook points are those of the run, in their order, each with its name, addresses, arming method, pad and displaced
  bytes, and with the number of its inlined copies and the status they give; a function listed as only inlined is
  listed with its number of copies, is no hook point of the run, and no single entry of the dump has both its name and a
  low address. Its code may still stand in an entry of its own that refers to the named one, which the
  annotator does not see (\<open>concrete_instance_not_counted\<close>).
\<close>

theorem annotated_map_exact:
  assumes "hook_map_main t binary dbg version = Inr (bid, hs, ta, idx)"
    and "offsets_differ (entries ls)" "code_names (entries ls) \<noteq> {}"
  shows "\<exists>out hooks'. annotate (JObj (map_doc bid (version_of version) hs)) exe ls = Inr (JObj out) \<and>
    map_of out ''build_id'' = (case bid of None \<Rightarrow> Some JNull | Some b \<Rightarrow> Some (JStr b)) \<and> notes_build_id t binary = Inr bid \<and>
    map_of out ''hook_points'' = Some (JArr hooks') \<and> list_all2 (describes (entries ls)) hs hooks' \<and>
    (\<forall>n c. (n, c) \<in> set (listed_only (jget out ''inlined_only'')) \<longrightarrow>
       (\<exists>s. n = JStr s \<and> c = JInt (int (copies (entries ls) s)) \<and> s \<notin> code_names (entries ls) \<and> s \<notin> h_name ` set hs))"
proof -
  let ?doc = "map_doc bid (version_of version) hs"
  obtain out where out: "annotate (JObj ?doc) exe ls = Inr (JObj out)" using annotate_map_doc [OF assms(2,3)] by blast
  have "map_of out ''build_id'' = map_of ?doc ''build_id''"
    using out by (auto simp: annotate_def items_of_def err_simps update_conv' split: prod.splits if_splits sum.splits)
  then have "map_of out ''build_id'' = (case bid of None \<Rightarrow> Some JNull | Some b \<Rightarrow> Some (JStr b))"
    by (simp add: map_doc_def split: option.splits)
  with out annotated_hooks [OF assms(2) out] annotated_only [OF assms(2) out] hook_map_mainD(1) [OF assms(1)]
  show ?thesis by blast
qed

text \<open>The sample build, with a dump in which \<open>f\<close> has code and an inlined copy and \<open>h\<close> is only inlined.\<close>

definition doc_dump :: "string list" where
  "doc_dump = map dump_line
     ['' <1><2d>: (DW_TAG_subprogram)'',
      '' DW_AT_name : f'',
      '' DW_AT_low_pc : 0x1000'',
      '' <1><3a>: (DW_TAG_subprogram)'',
      '' DW_AT_name : h'',
      '' <2><44>: (DW_TAG_inlined_subroutine)'',
      '' DW_AT_abstract_origin: <0x2d>'',
      '' <2><4c>: (DW_TAG_inlined_subroutine)'',
      '' DW_AT_abstract_origin: <0x3a>'']"

lemma doc_dump_differ: "offsets_differ (entries doc_dump)"
  by code_simp

lemma doc_dump_code: "''f'' \<in> code_names (entries doc_dump)"
proof -
  have "\<exists>d \<in> set (subprograms (entries doc_dump)). die_name d = Some ''f'' \<and> has_code d" by code_simp
  then show ?thesis by (auto simp: code_names_def)
qed

lemma doc_dump_copies: "copies (entries doc_dump) ''f'' = 1" "copies (entries doc_dump) ''g'' = 0"
  by code_simp+

theorem annotated_map_exact_witness:
  "\<exists>out d e. annotate (JObj (map_doc (Some ''ab12'') ''unknown'' sample_points)) ''tmm'' doc_dump = Inr (JObj out) \<and>
     map_of out ''build_id'' = Some (JStr ''ab12'') \<and> map_of out ''hook_points'' = Some (JArr [JObj d, JObj e]) \<and>
     jget d ''name'' = JStr ''f'' \<and> jget d ''arm_at'' = JStr (fmt_hex 0x1004) \<and> jget d ''inline_status'' = JStr ''partial'' \<and>
     jget e ''name'' = JStr ''g'' \<and> jget e ''arm_method'' = JStr ''displace'' \<and> jget e ''inline_status'' = JStr ''out-of-line''"
proof -
  obtain ta idx where run: "hook_map_main sample_tools ''b'' ''d'' None = Inr (Some ''ab12'', sample_points, ta, idx)"
    using sample_hook_map by blast
  have "code_names (entries doc_dump) \<noteq> {}" using doc_dump_code by blast
  from annotated_map_exact [where exe = "''tmm''", OF run doc_dump_differ this]
  obtain out hooks' where "annotate (JObj (map_doc (Some ''ab12'') (version_of None) sample_points)) ''tmm'' doc_dump = Inr (JObj out)"
    "map_of out ''build_id'' = Some (JStr ''ab12'')" "map_of out ''hook_points'' = Some (JArr hooks')"
    "list_all2 (describes (entries doc_dump)) sample_points hooks'" by auto
  then show ?thesis
    by (auto simp: version_of_def sample_points_def list_all2_Cons1 describes_def doc_dump_copies)
qed

end
