(* ===== verification/Collector_Http.thy ===== *)
theory Collector_Http
  imports Stream_Journal Py_Codec
begin

text \<open>
  The replay service of the collector: \<^verbatim>\<open>serve\<close> of \<^verbatim>\<open>env/ai-traffic/stream_collector.py\<close> with its request handler and the bound on
  its threads, and the client \<^verbatim>\<open>collector_client.py\<close>. Request lines and headers are not modelled: a request is its target,
  which starts with a single slash, an answer is a status with a document: the document the handler writes as canonical JSON is taken to
  be the one the client parses. Times are nanoseconds.
\<close>

section \<open>Targets and queries\<close>

text \<open>
  \<^verbatim>\<open>urlencode\<close> of texts in ASCII, and its inverse. A percent sign that no two hexadecimal digits follow stands for itself. A target
  that spells a code point above 127 with percent signs has no counterpart here and is \<open>None\<close>.
\<close>

definition url_safe :: "char \<Rightarrow> bool" where
  "url_safe c =
     (is_digit c \<or> (let n = of_char c :: nat in (65 \<le> n \<and> n \<le> 90) \<or> (97 \<le> n \<and> n \<le> 122)) \<or> c \<in> set ''_.-~'')"

definition upper_hex :: "nat \<Rightarrow> char" where
  "upper_hex n = (if n < 10 then char_of (48 + n) else char_of (55 + n))"

definition quote_char :: "char \<Rightarrow> string" where
  "quote_char c =
     (if url_safe c then [c]
      else if c = CHR '' '' then ''+''
      else [CHR ''%'', upper_hex (of_char c div 16), upper_hex (of_char c mod 16)])"

definition quote_plus :: "string \<Rightarrow> string" where
  "quote_plus s = concat (map quote_char s)"

definition sent_field :: "string \<times> string \<Rightarrow> string" where
  "sent_field kv = quote_plus (fst kv) @ ''='' @ quote_plus (snd kv)"

definition urlencode :: "(string \<times> string) list \<Rightarrow> string" where
  "urlencode q = join ''&'' (map sent_field q)"

definition percent_pair :: "char \<Rightarrow> char \<Rightarrow> nat option" where
  "percent_pair a b = (case (hex_val a, hex_val b) of (Some x, Some y) \<Rightarrow> Some (16 * x + y) | _ \<Rightarrow> None)"

fun unquote :: "string \<Rightarrow> string option" where
  "unquote [] = Some []"
| "unquote [c] = Some [c]"
| "unquote [c, a] = Some [c, a]"
| "unquote (c # a # b # r) =
     (if c = CHR ''%'' then
        (case percent_pair a b of
           None \<Rightarrow> map_option (Cons c) (unquote (a # b # r))
         | Some n \<Rightarrow> if n < 128 then map_option (Cons (char_of n)) (unquote r) else None)
      else map_option (Cons c) (unquote (a # b # r)))"

definition unquote_plus :: "string \<Rightarrow> string option" where
  "unquote_plus s = unquote (map (\<lambda>c. if c = CHR ''+'' then CHR '' '' else c) s)"

text \<open>
  \<^verbatim>\<open>parse_qs(query, strict_parsing=True)\<close>, as the list of the fields: \<^verbatim>\<open>query.get(k)[0]\<close> is the first with the name. Fields with an empty value
  are left out.
\<close>

definition query_field :: "string \<Rightarrow> (string \<times> string) option" where
  "query_field f =
     Option.bind (unquote_plus (takeWhile (\<lambda>c. c \<noteq> CHR ''='') f)) (\<lambda>k.
       map_option (Pair k) (unquote_plus (tl (dropWhile (\<lambda>c. c \<noteq> CHR ''='') f))))"

fun query_fields :: "string list \<Rightarrow> (string \<times> string) list option" where
  "query_fields [] = Some []"
| "query_fields (f # fs) =
     (if tl (dropWhile (\<lambda>c. c \<noteq> CHR ''='') f) = [] then query_fields fs
      else Option.bind (query_field f) (\<lambda>x. map_option (Cons x) (query_fields fs)))"

definition parse_qs :: "string \<Rightarrow> (string \<times> string) list result option" where
  "parse_qs q =
     (let fs = if q = [] then [] else split_on CHR ''&'' q in
      if \<exists>f \<in> set fs. CHR ''='' \<notin> set f then Some (Inl (ValueError ''bad query field''))
      else map_option Inr (query_fields fs))"

text \<open>\<^verbatim>\<open>urlsplit\<close> of a target that starts with one slash: path and query, without the fragment.\<close>

definition split_target :: "string \<Rightarrow> string \<times> string" where
  "split_target t =
     (let u = takeWhile (\<lambda>c. c \<noteq> CHR ''#'') t in
      (takeWhile (\<lambda>c. c \<noteq> CHR ''?'') u, tl (dropWhile (\<lambda>c. c \<noteq> CHR ''?'') u)))"

section \<open>The handler\<close>

datatype reply =
    Page int jobj
  | Failed nat
  | Dropped
  | Waiting

text \<open>
  The loop of \<^verbatim>\<open>do_GET\<close>: one entry per round, the journal as it is read then, or the error of the database, and the time from
  the start of the round to its reading of the clock. Between two rounds the handler sleeps \<^verbatim>\<open>0.05\<close> seconds, whatever is left of the waiting
  time. Without a round that ends the loop the request is still waiting.
\<close>

definition SLEEP :: int where "SLEEP = 50000000"

fun poll :: "string option \<Rightarrow> int \<Rightarrow> int \<Rightarrow> int \<Rightarrow> (jdb result \<times> int) list \<Rightarrow> (int \<times> jobj) result option" where
  "poll cur limit deadline now [] = None"
| "poll cur limit deadline now ((d, took) # rounds) =
     (case ebind d (\<lambda>d. replay d cur limit) of
        Inl x \<Rightarrow> Some (Inl x)
      | Inr (status, doc) \<Rightarrow>
          if status \<noteq> 200 \<or> truthy (jget doc ''events'') \<or> now + took \<ge> deadline then Some (Inr (status, doc))
          else poll cur limit deadline (now + took + SLEEP) rounds)"

definition reply_of :: "(int \<times> jobj) result option \<Rightarrow> reply" where
  "reply_of r =
     (case r of
        None \<Rightarrow> Waiting
      | Some (Inr (status, doc)) \<Rightarrow> Page status doc
      | Some (Inl x) \<Rightarrow>
          (case x of ValueError _ \<Rightarrow> Failed 400 | KeyError _ \<Rightarrow> Failed 400 | SqliteError _ \<Rightarrow> Failed 503 | _ \<Rightarrow> Dropped))"

definition query_value :: "(string \<times> string) list \<Rightarrow> string \<Rightarrow> string \<Rightarrow> string" where
  "query_value q k dflt = (case map_of q k of None \<Rightarrow> dflt | Some v \<Rightarrow> v)"

definition do_GET :: "string \<Rightarrow> int \<Rightarrow> (jdb result \<times> int) list \<Rightarrow> reply option" where
  "do_GET target now rounds =
     (case split_target target of (path, query) \<Rightarrow>
        if path \<noteq> ''/events'' then Some (Failed 404)
        else
          map_option (\<lambda>q. reply_of
            (case ebind q (\<lambda>q.
                  ebind (parse_int (query_value q ''limit'' ''100'')) (\<lambda>limit.
                  ebind (parse_int (query_value q ''wait_ms'' ''0'')) (\<lambda>wait.
                    if \<not> (0 \<le> wait \<and> wait \<le> 10000) then Inl (ValueError ''wait_ms must be 0..10000'')
                    else Inr (map_of q ''after'', limit, wait)))) of
               Inl x \<Rightarrow> Some (Inl x)
             | Inr (cur, limit, wait) \<Rightarrow> poll cur limit (now + wait * 1000000) now rounds))
          (parse_qs query))"

section \<open>The client\<close>

text \<open>
  \<^verbatim>\<open>page\<close>: the target it asks for, and what it makes of the answer. An error page is not a JSON document. Nothing comes back from a
  request that waits or whose connection is closed.
\<close>

definition page_target :: "string option \<Rightarrow> int \<Rightarrow> int \<Rightarrow> string" where
  "page_target cur limit wait =
     ''/events?'' @ urlencode
       ([(''limit'', str_int limit), (''wait_ms'', str_int wait)] @
        (case cur of None \<Rightarrow> [] | Some c \<Rightarrow> [(''after'', c)]))"

definition page_answer :: "reply \<Rightarrow> jobj result option" where
  "page_answer r =
     (case r of
        Page status doc \<Rightarrow> Some (if status \<noteq> 200 then Inl (ValueError (dumps (JArr [JInt status, JObj doc]))) else Inr doc)
      | Failed _ \<Rightarrow> Some (Inl (ValueError ''Expecting value''))
      | Dropped \<Rightarrow> None
      | Waiting \<Rightarrow> None)"

definition page :: "string option \<Rightarrow> int \<Rightarrow> int \<Rightarrow> int \<Rightarrow> (jdb result \<times> int) list \<Rightarrow> jobj result option" where
  "page cur limit wait now rounds = Option.bind (do_GET (page_target cur limit wait) now rounds) page_answer"

section \<open>The bound on the threads\<close>

text \<open>
  \<^verbatim>\<open>Server\<close>: the listening thread takes a permit for a request or closes it, then starts a thread, which may fail; threads end at any
  time. \<open>None\<close> is the \<^verbatim>\<open>ValueError\<close> of a bounded semaphore that is released too often.
\<close>

definition GATE :: nat where "GATE = 8"

record thread_gate =
  g_permits :: nat
  g_admitted :: "nat option"
  g_threads :: "nat list"
  g_refused :: "nat list"

definition release :: "thread_gate \<Rightarrow> thread_gate option" where
  "release g = (if g_permits g \<ge> GATE then None else Some (g\<lparr>g_permits := g_permits g + 1\<rparr>))"

definition process_request :: "nat \<Rightarrow> thread_gate \<Rightarrow> thread_gate" where
  "process_request r g =
     (if g_permits g = 0 then g\<lparr>g_refused := r # g_refused g\<rparr>
      else g\<lparr>g_permits := g_permits g - 1, g_admitted := Some r\<rparr>)"

definition start_thread :: "bool \<Rightarrow> thread_gate \<Rightarrow> thread_gate option" where
  "start_thread ok g =
     (case g_admitted g of
        None \<Rightarrow> Some g
      | Some r \<Rightarrow>
          if ok then Some (g\<lparr>g_admitted := None, g_threads := r # g_threads g\<rparr>)
          else release (g\<lparr>g_admitted := None\<rparr>))"

definition end_thread :: "nat \<Rightarrow> thread_gate \<Rightarrow> thread_gate option" where
  "end_thread r g = release (g\<lparr>g_threads := remove1 r (g_threads g)\<rparr>)"

inductive gate_step :: "thread_gate \<Rightarrow> thread_gate option \<Rightarrow> bool" where
  arrive: "g_admitted g = None \<Longrightarrow> gate_step g (Some (process_request r g))"
| start: "g_admitted g \<noteq> None \<Longrightarrow> gate_step g (start_thread ok g)"
| finish: "r \<in> set (g_threads g) \<Longrightarrow> gate_step g (end_thread r g)"

inductive gate_reached :: "thread_gate option \<Rightarrow> bool" where
  initial: "gate_reached (Some \<lparr>g_permits = GATE, g_admitted = None, g_threads = [], g_refused = []\<rparr>)"
| step: "gate_reached (Some g) \<Longrightarrow> gate_step g g' \<Longrightarrow> gate_reached g'"

inductive_cases gate_stepE: "gate_step g g'"

section \<open>Queries arrive as they were sent\<close>

lemma upper_hex_val: "n < 16 \<Longrightarrow> hex_val (upper_hex n) = Some n"
  by (auto simp: hex_val_def upper_hex_def Let_def)

lemma upper_hex_clean: "n < 16 \<Longrightarrow> url_safe (upper_hex n)"
  by (auto simp: url_safe_def upper_hex_def is_digit_def Let_def)

lemma percent_pair_hex: "n < 256 \<Longrightarrow> percent_pair (upper_hex (n div 16)) (upper_hex (n mod 16)) = Some n"
  by (simp add: percent_pair_def upper_hex_val)

definition reserved :: "char \<Rightarrow> bool" where
  "reserved c = (c \<in> set ''&=#?+%'')"

lemma url_safe_not_reserved: "url_safe c \<Longrightarrow> \<not> reserved c"
  by (auto simp: url_safe_def reserved_def is_digit_def Let_def)

lemma upper_hex_code: "upper_hex ((of_char c :: nat) div 16) \<notin> set ''&=#?+%''" "upper_hex ((of_char c :: nat) mod 16) \<notin> set ''&=#?+%''"
proof -
  have "(of_char c :: nat) div 16 < 16" using nat_of_char_less_256 [of c] by linarith
  from url_safe_not_reserved [OF upper_hex_clean [OF this]] show "upper_hex ((of_char c :: nat) div 16) \<notin> set ''&=#?+%''"
    by (simp add: reserved_def)
  have "(of_char c :: nat) mod 16 < 16" by simp
  from url_safe_not_reserved [OF upper_hex_clean [OF this]] show "upper_hex ((of_char c :: nat) mod 16) \<notin> set ''&=#?+%''"
    by (simp add: reserved_def)
qed

lemma quote_char_set: "x \<in> set (quote_char c) \<Longrightarrow> x \<notin> set ''&=#?''"
  using upper_hex_code [of c] url_safe_not_reserved [of x]
  by (auto simp: quote_char_def reserved_def split: if_splits)

lemma quote_plus_set: "x \<in> set (quote_plus s) \<Longrightarrow> x \<notin> set ''&=#?''"
  using quote_char_set by (auto simp: quote_plus_def)

lemma unquote_Cons: "c \<noteq> CHR ''%'' \<Longrightarrow> unquote (c # s) = map_option (Cons c) (unquote s)"
  by (cases s; cases "tl s") auto

lemma unquote_quote:
  assumes "is_ascii [c]"
  shows "unquote (map (\<lambda>c. if c = CHR ''+'' then CHR '' '' else c) (quote_char c) @ r) = map_option (Cons c) (unquote r)"
proof (cases "url_safe c \<or> c = CHR '' ''")
  case True
  then show ?thesis using url_safe_not_reserved [of c] by (auto simp: quote_char_def reserved_def unquote_Cons)
next
  case False
  let ?n = "of_char c :: nat"
  have n: "?n < 128" using assms by (simp add: is_ascii_def)
  have "upper_hex (?n div 16) \<noteq> CHR ''+''" "upper_hex (?n mod 16) \<noteq> CHR ''+''"
    using upper_hex_code [of c] by auto
  with False n show ?thesis by (simp add: quote_char_def percent_pair_hex)
qed

lemma unquote_plus_quote_plus [simp]: "is_ascii s \<Longrightarrow> unquote_plus (quote_plus s) = Some s"
proof (induction s)
  case (Cons c s)
  then have "unquote_plus (quote_plus s) = Some s" "is_ascii [c]" by (simp_all add: is_ascii_def)
  then show ?case using unquote_quote [of c] by (simp add: unquote_plus_def quote_plus_def)
qed (simp add: unquote_plus_def quote_plus_def)

lemma quote_plus_Nil [simp]: "quote_plus s = [] \<longleftrightarrow> s = []"
proof -
  have "quote_char c \<noteq> []" for c by (simp add: quote_char_def)
  then show ?thesis by (cases s) (simp_all add: quote_plus_def)
qed

lemma eq_parts:
  "takeWhile (\<lambda>c. c \<noteq> CHR ''='') (sent_field kv) = quote_plus (fst kv)"
  "dropWhile (\<lambda>c. c \<noteq> CHR ''='') (sent_field kv) = ''='' @ quote_plus (snd kv)"
proof -
  have q: "c \<noteq> CHR ''=''" if "c \<in> set (quote_plus (fst kv))" for c using quote_plus_set [OF that] by simp
  show "takeWhile (\<lambda>c. c \<noteq> CHR ''='') (sent_field kv) = quote_plus (fst kv)"
    unfolding sent_field_def using q by (subst takeWhile_append2) simp_all
  show "dropWhile (\<lambda>c. c \<noteq> CHR ''='') (sent_field kv) = ''='' @ quote_plus (snd kv)"
    unfolding sent_field_def using q by (subst dropWhile_append2) simp_all
qed

lemma query_fields_sent:
  "\<forall>(k, v) \<in> set q. is_ascii k \<and> is_ascii v \<Longrightarrow> query_fields (map sent_field q) = Some (filter (\<lambda>(k, v). v \<noteq> []) q)"
  by (induction q) (auto simp: eq_parts query_field_def)

lemma parse_qs_urlencode:
  assumes "\<forall>(k, v) \<in> set q. is_ascii k \<and> is_ascii v" "q \<noteq> []"
  shows "parse_qs (urlencode q) = Some (Inr (filter (\<lambda>(k, v). v \<noteq> []) q))"
proof -
  have "\<forall>f \<in> set (map sent_field q). CHR ''&'' \<notin> set f"
    using quote_plus_set by (fastforce simp: sent_field_def)
  then have s: "split_on CHR ''&'' (urlencode q) = map sent_field q" using assms(2) split_on_join by (simp add: urlencode_def)
  have ne: "urlencode q \<noteq> []"
  proof
    assume "urlencode q = []"
    with s have "map sent_field q = [[]]" by simp
    then show False by (auto simp: sent_field_def)
  qed
  have "\<not> (\<exists>f \<in> set (map sent_field q). CHR ''='' \<notin> set f)" by (auto simp: sent_field_def)
  with ne show ?thesis by (simp only: parse_qs_def s Let_def if_False query_fields_sent [OF assms(1)] option.map)
qed

lemma split_target_sent:
  "split_target (''/events?'' @ urlencode q) = (''/events'', urlencode q)"
proof -
  have "set (urlencode q) \<subseteq> {CHR ''&''} \<union> (\<Union>f \<in> set (map sent_field q). set f)"
    unfolding urlencode_def using set_join [of "''&''" "map sent_field q"] by simp
  moreover have "CHR ''#'' \<notin> set (sent_field kv)" for kv using quote_plus_set by (fastforce simp: sent_field_def)
  ultimately have "CHR ''#'' \<notin> set (urlencode q)" by auto
  then have "takeWhile (\<lambda>c. c \<noteq> CHR ''#'') (''/events?'' @ urlencode q) = ''/events?'' @ urlencode q"
    by (subst takeWhile_eq_all_conv) auto
  then show ?thesis by (simp only: split_target_def Let_def) simp
qed

lemma ascii_str_int [simp]: "is_ascii (str_int i)"
proof -
  have "(of_char c :: nat) < 128" if "c \<in> set (str_nat n)" for c n using str_nat_digits [of n] that by (auto simp: is_digit_def)
  then show ?thesis by (auto simp: is_ascii_def str_int_def list_all_iff)
qed

text \<open>The request of the client, as the handler reads it.\<close>

lemma handler_reads_request:
  assumes "pred_option is_ascii cur"
  shows "do_GET (page_target cur limit wait) now rounds =
    Some (if 0 \<le> wait \<and> wait \<le> 10000
          then reply_of (poll (Option.bind cur (\<lambda>c. if c = [] then None else Some c)) limit (now + wait * 1000000) now rounds)
          else Failed 400)"
proof -
  let ?q = "[(''limit'', str_int limit), (''wait_ms'', str_int wait)] @ (case cur of None \<Rightarrow> [] | Some c \<Rightarrow> [(''after'', c)])"
  have a: "is_ascii ''limit''" "is_ascii ''wait_ms''" "is_ascii ''after''" by code_simp+
  have ne: "str_int i \<noteq> []" for i by (simp add: str_int_def str_nat_nonempty)
  have "parse_qs (urlencode ?q) = Some (Inr (filter (\<lambda>(k, v). v \<noteq> []) ?q))"
    using assms a by (intro parse_qs_urlencode) (auto split: option.splits)
  moreover have "split_target (page_target cur limit wait) = (''/events'', urlencode ?q)"
    unfolding page_target_def by (rule split_target_sent)
  ultimately show ?thesis
    using ne by (cases cur) (auto simp: do_GET_def query_value_def reply_of_def)
qed

text \<open>A round, begun at \<open>t\<close>, after which the handler asks again, and the time the round after some rounds begins.\<close>

definition idle :: "string option \<Rightarrow> int \<Rightarrow> int \<Rightarrow> int \<Rightarrow> jdb result \<times> int \<Rightarrow> bool" where
  "idle cur limit deadline t r =
     (t + snd r < deadline \<and>
      ok_with (\<lambda>(status, doc). status = 200 \<and> \<not> truthy (jget doc ''events'')) (ebind (fst r) (\<lambda>d. replay d cur limit)))"

definition clock :: "int \<Rightarrow> (jdb result \<times> int) list \<Rightarrow> int" where
  "clock now rounds = now + sum_list (map (\<lambda>r. snd r + SLEEP) rounds)"

lemma clock_simps [simp]: "clock now [] = now" "clock now (r # rounds) = clock (now + snd r + SLEEP) rounds"
  by (simp_all add: clock_def)

lemma poll_step:
  "poll cur limit deadline now (r # rounds) =
   (if idle cur limit deadline now r then poll cur limit deadline (now + snd r + SLEEP) rounds
    else Some (ebind (fst r) (\<lambda>d. replay d cur limit)))"
  by (cases r) (auto simp: idle_def ok_with_def split: sum.splits)

declare poll.simps(2) [simp del]

definition waited :: "string option \<Rightarrow> int \<Rightarrow> int \<Rightarrow> int \<Rightarrow> (jdb result \<times> int) list \<Rightarrow> bool" where
  "waited cur limit deadline now rounds = (\<forall>i < length rounds. idle cur limit deadline (clock now (take i rounds)) (rounds ! i))"

lemma waited_Cons:
  "waited cur limit deadline now (r # rounds) \<longleftrightarrow>
   idle cur limit deadline now r \<and> waited cur limit deadline (now + snd r + SLEEP) rounds"
  by (auto simp: waited_def All_less_Suc2)

lemma poll_rounds:
  "poll cur limit deadline now rounds = Some x \<Longrightarrow>
   \<exists>pre r post. rounds = pre @ r # post \<and> ebind (fst r) (\<lambda>d. replay d cur limit) = x \<and> waited cur limit deadline now pre"
proof (induction rounds arbitrary: now)
  case (Cons r rounds)
  show ?case
  proof (cases "idle cur limit deadline now r")
    case True
    then have "poll cur limit deadline (now + snd r + SLEEP) rounds = Some x" using Cons.prems by (simp add: poll_step)
    from Cons.IH [OF this] obtain pre r' post where "rounds = pre @ r' # post" "ebind (fst r') (\<lambda>d. replay d cur limit) = x"
      "waited cur limit deadline (now + snd r + SLEEP) pre" by blast
    with True show ?thesis by (intro exI [of _ "r # pre"] exI [of _ r'] exI [of _ post]) (simp add: waited_Cons)
  next
    case False
    then show ?thesis using Cons.prems
      by (intro exI [of _ "[]"] exI [of _ r] exI [of _ rounds]) (simp add: poll_step waited_def)
  qed
qed simp

lemma poll_None: "poll cur limit deadline now rounds = None \<Longrightarrow> waited cur limit deadline now rounds"
  by (induction rounds arbitrary: now) (auto simp: poll_step waited_Cons split: if_splits, simp add: waited_def)

text \<open>The round after idle rounds begins at most one sleep behind the deadline, and idle rounds are few.\<close>

lemma waited_clock:
  assumes "waited cur limit deadline now pre" "pre \<noteq> []"
  shows "clock now pre < deadline + SLEEP"
proof -
  obtain ps r where p: "pre = ps @ [r]" using assms(2) by (cases pre rule: rev_cases) auto
  then have "idle cur limit deadline (clock now ps) r" using assms(1) by (auto simp: waited_def dest: spec [of _ "length ps"])
  then show ?thesis by (simp add: p idle_def clock_def)
qed

lemma waited_length:
  assumes "waited cur limit deadline now rounds" "\<forall>r \<in> set rounds. 0 \<le> snd r" "rounds \<noteq> []"
  shows "SLEEP * (int (length rounds) - 1) < deadline - now"
proof -
  have "sum_list (map (\<lambda>r. snd r + SLEEP) rounds) \<ge> SLEEP * int (length rounds)"
    using assms(2) by (induction rounds) (auto simp: algebra_simps)
  with waited_clock [OF assms(1,3)] show ?thesis by (simp add: clock_def algebra_simps)
qed



text \<open>Permits, the request being admitted and the running threads.\<close>

definition gate_inv :: "thread_gate \<Rightarrow> bool" where
  "gate_inv g = (g_permits g + (if g_admitted g = None then 0 else 1) + length (g_threads g) = GATE)"

lemma gate_step_inv: "gate_step g g' \<Longrightarrow> gate_inv g \<Longrightarrow> g' \<noteq> None \<and> gate_inv (the g')"
proof (induction rule: gate_step.induct)
  case (finish r g)
  then obtain n where n: "length (g_threads g) = Suc n" by (cases "g_threads g") auto
  with finish have "length (remove1 r (g_threads g)) = n" by (simp add: length_remove1)
  with n finish show ?case by (auto simp: end_thread_def release_def gate_inv_def split: if_splits)
next
  case (start g ok)
  then show ?case by (cases ok) (auto simp: start_thread_def release_def gate_inv_def)
qed (auto simp: process_request_def gate_inv_def)

text \<open>
  C31. The service is bounded. In every state its threads can reach, permits, the request being admitted and the running threads are
  eight together: at most eight requests are served at a time, no release fails, a request is refused exactly when none
  of the eight is free, and all permits are back when no thread runs.
\<close>

theorem gate_bounded:
  assumes "gate_reached s"
  shows "\<exists>g. s = Some g \<and> length (g_threads g) \<le> 8 \<and>
    (g_admitted g = None \<longrightarrow> (r # g_refused g = g_refused (process_request r g) \<longleftrightarrow> length (g_threads g) = 8)) \<and>
    (g_admitted g = None \<and> g_threads g = [] \<longrightarrow> g_permits g = 8)"
proof -
  have "\<exists>g. s = Some g \<and> gate_inv g"
    using assms
  proof (induction rule: gate_reached.induct)
    case (step g g')
    then show ?case using gate_step_inv [of g g'] by auto
  qed (simp add: gate_inv_def)
  then show ?thesis by (auto simp: gate_inv_def GATE_def process_request_def)
qed

theorem gate_bounded_witness:
  "\<exists>g. gate_reached (Some g) \<and> g_threads g = [7] \<and> g_refused (process_request 9 g) \<noteq> [9]"
proof -
  let ?init = "\<lparr>g_permits = GATE, g_admitted = None, g_threads = [], g_refused = []\<rparr>"
  let ?g = "\<lparr>g_permits = 7, g_admitted = None, g_threads = [7], g_refused = []\<rparr>"
  have "gate_step ?init (Some (process_request 7 ?init))" by (rule gate_step.arrive) simp
  with gate_reached.initial have 1: "gate_reached (Some (process_request 7 ?init))" by (rule gate_reached.step)
  have "gate_step (process_request 7 ?init) (start_thread True (process_request 7 ?init))"
    by (rule gate_step.start) (simp add: process_request_def GATE_def)
  with 1 have "gate_reached (start_thread True (process_request 7 ?init))" by (rule gate_reached.step)
  then have r: "gate_reached (Some ?g)" by (simp add: process_request_def start_thread_def GATE_def)
  from gate_bounded [OF r, of 9] show ?thesis using r by (intro exI [of _ ?g]) simp
qed

end
