(* ===== verification/Icap_Gate.thy ===== *)
theory Icap_Gate
  imports Authority_Wire
begin

text \<open>
  \<^verbatim>\<open>env/ai-traffic/icap_gate.py\<close>: the inspector that allows, denies or holds a response, the client that reads what is let through, and the
  check of what both observed. A connection is the bytes it carries up to its end; the configuration messages of the data plane, the pacing
  of the origin and the time limits around the connections are not modelled. Clock readings are nanoseconds.
\<close>

section \<open>Bytes as Python reads them\<close>

definition text_of :: "bytes \<Rightarrow> string" where
  "text_of bs = map (\<lambda>b. char_of (unat b)) bs"

definition byte_strip :: "string \<Rightarrow> string" where
  "byte_strip s = rev (dropWhile is_ascii_space (rev (dropWhile is_ascii_space s)))"

text \<open>\<^verbatim>\<open>int(data)\<close> and \<^verbatim>\<open>int(data, 16)\<close> of bytes: only ASCII white space is skipped.\<close>

definition edge_space :: "string \<Rightarrow> bool" where
  "edge_space s = (s \<noteq> [] \<and> (is_space (hd s) \<or> is_space (last s)))"

definition int_bytes :: "string \<Rightarrow> int result" where
  "int_bytes s = (if edge_space (byte_strip s) then Inl (ValueError ''invalid literal for int()'') else parse_int (byte_strip s))"

definition hex_bytes :: "string \<Rightarrow> int result" where
  "hex_bytes s = (if edge_space (byte_strip s) then Inl (ValueError ''invalid literal for int()'') else parse_hex (byte_strip s))"

section \<open>A case\<close>

definition PREVIEW_BYTES :: int where "PREVIEW_BYTES = 4096"
definition TIMEOUT_MS :: int where "TIMEOUT_MS = 3000"
definition DENIAL :: bytes where "DENIAL = encode_utf8 (''inspection denied'' @ [CHR 0x0A])"

definition http_response :: "string \<Rightarrow> bytes \<Rightarrow> bytes" where
  "http_response status content =
     encode_utf8 (''HTTP/1.1 '' @ status @ cr @ ''Connection: close'' @ cr @ ''Content-Length: '' @ str_nat (length content) @ cr @ cr) @ content"

record icap_case =
  ic_mode :: string
  ic_canary :: bytes

definition new_case :: "string \<Rightarrow> string \<Rightarrow> icap_case" where
  "new_case mode run_id = \<lparr>ic_mode = mode, ic_canary = encode_utf8 (''DLP_CANARY_'' @ run_id)\<rparr>"

definition ic_body :: "icap_case \<Rightarrow> bytes" where
  "ic_body c = encode_utf8 (''prefix'' @ [CHR 0x0A]) @ ic_canary c @ encode_utf8 ([CHR 0x0A] @ ''suffix'' @ [CHR 0x0A])"

datatype icap_event =
    IcapHeaders bytes
  | EncapsulatedHeaders bytes
  | InspectionPending nat string
  | VerdictWrite string
  | OriginRequest bytes
  | OriginBody nat
  | ClientStart
  | ClientRead bytes
  | ClientError

section \<open>The inspector\<close>

text \<open>\<^verbatim>\<open>dict(...)\<close> of pairs: a list that is not a pair raises.\<close>

definition pair_of :: "string list \<Rightarrow> (string \<times> string) result" where
  "pair_of xs = (case xs of [k, v] \<Rightarrow> Inr (k, v) | _ \<Rightarrow> Inl (ValueError ''dictionary update sequence element''))"

definition dict_of :: "(string \<times> string) list \<Rightarrow> (string \<times> string) list" where
  "dict_of kvs = foldl (\<lambda>d (k, v). AList.update k v d) [] kvs"

definition icap_fields :: "bytes \<Rightarrow> (string \<times> string) list result" where
  "icap_fields block =
     (let ls = split_crlf (text_of block) in
      ebind (emap (\<lambda>l. pair_of (split_max 1 CHR '':'' l)) (pyslice 1 (length ls - 2) ls)) (\<lambda>kvs.
        Inr (dict_of (map (\<lambda>(k, v). (map lower_char k, byte_strip v)) (dict_of kvs)))))"

definition item_of :: "(string \<times> string) list \<Rightarrow> string \<Rightarrow> string result" where
  "item_of d k = (case map_of d k of None \<Rightarrow> Inl (KeyError k) | Some v \<Rightarrow> Inr v)"

definition body_offset :: "(string \<times> string) list \<Rightarrow> int result" where
  "body_offset hdrs =
     ebind (item_of hdrs ''encapsulated'') (\<lambda>e.
     ebind (emap (\<lambda>i. pair_of (split_on CHR ''='' (byte_strip i))) (split_on CHR '','' e)) (\<lambda>kvs.
     ebind (item_of (dict_of kvs) ''res-body'') int_bytes))"

text \<open>The loop over the chunks of the preview.\<close>

definition chunk_length :: "bytes \<Rightarrow> int result" where
  "chunk_length line = hex_bytes (hd (split_max 1 CHR '';'' (text_of line)))"

definition read_crlf :: "bytes \<Rightarrow> bytes result" where
  "read_crlf s = ebind (readexactly 2 s) (\<lambda>(b, s). if b = crlf then Inr s else Inl (AssertionError []))"

lemma read_crlf_iff: "read_crlf s = Inr r \<longleftrightarrow> s = crlf @ r"
proof -
  have "take 2 s = crlf \<longleftrightarrow> (\<exists>t. s = crlf @ t)" "length crlf = 2"
    using is_prefix_take [of crlf s] is_prefix_iff [of crlf s] by (simp_all add: crlf_def numeral_2_eq_2)
  then show ?thesis by (auto simp: read_crlf_def readexactly_def)
qed

function read_preview :: "bytes \<Rightarrow> bytes \<Rightarrow> (bytes \<times> bytes) result" where
  "read_preview content s =
     (case readuntil crlf s of
        Inl x \<Rightarrow> Inl x
      | Inr (line, s1) \<Rightarrow>
          (case chunk_length line of
             Inl x \<Rightarrow> Inl x
           | Inr n \<Rightarrow>
               if \<not> (0 \<le> n \<and> n \<le> PREVIEW_BYTES - int (length content)) then Inl (AssertionError (str_int n))
               else if n = 0 then
                 ebind (read_crlf s1) (\<lambda>s2.
                   if contains ''ieof'' (map lower_char (text_of line)) then Inr (content, s2)
                   else Inl (AssertionError ''preview is not whole-message''))
               else
                 (case readexactly (nat n) s1 of
                    Inl x \<Rightarrow> Inl x
                  | Inr (d, s2) \<Rightarrow> (case read_crlf s2 of Inl x \<Rightarrow> Inl x | Inr s3 \<Rightarrow> read_preview (content @ d) s3))))"
  by pat_completeness auto
termination
proof (relation "measure (\<lambda>(content, s). length s)")
  fix content s :: bytes and x line s1 n y d s2 s3
  assume "readuntil crlf s = Inr x" "(line, s1) = x" "readexactly (nat n) s1 = Inr y" "(d, s2) = y" "read_crlf s2 = Inr s3"
    "\<not> n = (0 :: int)" "\<not> \<not> (0 \<le> n \<and> n \<le> PREVIEW_BYTES - int (length content))"
  then have "s = line @ s1" "s1 = d @ s2" "length d = nat n" "length s3 \<le> length s2" "0 < n"
    by (auto simp: read_crlf_iff dest: readuntil_shorter readexactly_shorter)
  then show "((content @ d, s3), (content, s)) \<in> measure (\<lambda>(content, s). length s)" by simp
qed simp

declare read_preview.simps [simp del]

definition OPTIONS_REPLY :: bytes where
  "OPTIONS_REPLY = encode_utf8
     (''ICAP/1.0 200 OK'' @ cr @ ''ISTag: '' @ [CHR 0x22] @ ''eob-dlp-1'' @ [CHR 0x22] @ cr @ ''Methods: RESPMOD'' @ cr @
      ''Preview: 4096'' @ cr @ ''Allow: 204'' @ cr @ ''Encapsulated: null-body=0'' @ cr @ cr)"

definition ALLOW_REPLY :: bytes where
  "ALLOW_REPLY = encode_utf8 (''ICAP/1.0 204 No Content'' @ cr @ ''ISTag: '' @ [CHR 0x22] @ ''eob-dlp-1'' @ [CHR 0x22] @ cr @ cr)"

text \<open>The denial has 18 bytes, in hexadecimal digits 12. \<^verbatim>\<open>http.index(...)\<close> always finds the end of the headers that \<^verbatim>\<open>http_response\<close> writes.\<close>

definition header_end :: "bytes \<Rightarrow> nat" where
  "header_end http = (case find_at (crlf @ crlf) 0 http of None \<Rightarrow> 0 | Some i \<Rightarrow> i + 4)"

definition deny_reply :: bytes where
  "deny_reply =
     (let http = http_response ''403 Forbidden'' DENIAL; offset = header_end http in
      encode_utf8 (''ICAP/1.0 200 OK'' @ cr @ ''ISTag: '' @ [CHR 0x22] @ ''eob-dlp-1'' @ [CHR 0x22] @ cr @
        ''Encapsulated: res-hdr=0, res-body='' @ str_nat offset @ cr @ cr) @
      take offset http @ encode_utf8 (''12'' @ cr) @ DENIAL @ encode_utf8 (cr @ ''0'' @ cr @ cr))"

definition icap_verdict :: "icap_case \<Rightarrow> (string \<times> string) list \<Rightarrow> bytes result" where
  "icap_verdict c hdrs =
     (if ic_mode c = ''allow'' then
        ebind (item_of hdrs ''preview'') (\<lambda>p.
        ebind (int_bytes p) (\<lambda>n. if n = PREVIEW_BYTES then Inr ALLOW_REPLY else Inl (AssertionError ''fields'')))
      else Inr deny_reply)"

text \<open>\<^verbatim>\<open>inspect\<close>: the events it records, what it writes, and how it ends.\<close>

definition inspect_body :: "icap_case \<Rightarrow> bytes \<Rightarrow> bytes \<Rightarrow> icap_event list \<times> bytes list \<times> unit result" where
  "inspect_body c headers s =
     (case (if is_prefix (encode_utf8 ''RESPMOD '') headers
            then ebind (icap_fields headers) (\<lambda>hdrs. ebind (body_offset hdrs) (\<lambda>n.
                   if 0 \<le> n \<and> n \<le> PREVIEW_BYTES
                   then ebind (readexactly (nat n) s) (\<lambda>(enc, s). Inr (hdrs, enc, s))
                   else Inl (AssertionError (str_int n))))
            else Inl (AssertionError ''headers'')) of
        Inl x \<Rightarrow> ([], [], Inl x)
      | Inr (hdrs, enc, s) \<Rightarrow>
          (case ebind (read_preview [] s) (\<lambda>(content, _). if content = ic_body c then Inr () else Inl (AssertionError ''body'')) of
             Inl x \<Rightarrow> ([EncapsulatedHeaders enc], [], Inl x)
           | Inr _ \<Rightarrow>
               let evs = [EncapsulatedHeaders enc, InspectionPending (length (ic_body c)) (to_hex (sha256 (ic_body c)))] in
               if ic_mode c = ''timeout'' then (evs, [], Inr ())
               else (case icap_verdict c hdrs of
                       Inl x \<Rightarrow> (evs, [], Inl x)
                     | Inr r \<Rightarrow> (evs @ [VerdictWrite (ic_mode c)], [r], Inr ()))))"

definition inspect :: "icap_case \<Rightarrow> bytes \<Rightarrow> icap_event list \<times> bytes list \<times> unit result" where
  "inspect c s =
     (case readuntil (crlf @ crlf) s of
        Inl x \<Rightarrow> ([], [], Inl x)
      | Inr (headers, s) \<Rightarrow>
          if is_prefix (encode_utf8 ''OPTIONS '') headers then ([IcapHeaders headers], [OPTIONS_REPLY], Inr ())
          else (case inspect_body c headers s of (evs, out, r) \<Rightarrow> (IcapHeaders headers # evs, out, r)))"

text \<open>\<^verbatim>\<open>inspector\<close>: what it catches goes to the errors of the case, anything else ends the task.\<close>

fun recorded :: "exn \<Rightarrow> bool" where
  "recorded (ValueError _) = True"
| "recorded (AssertionError _) = True"
| "recorded _ = False"

definition inspector :: "icap_case \<Rightarrow> bytes \<Rightarrow> icap_event list \<times> bytes list \<times> exn list" where
  "inspector c s =
     (case inspect c s of (evs, out, r) \<Rightarrow> (evs, out, case r of Inl x \<Rightarrow> if recorded x then [x] else [] | Inr _ \<Rightarrow> []))"

section \<open>The origin\<close>

text \<open>\<^verbatim>\<open>origin\<close>: the headers at once, the body in three parts.\<close>

definition before_body :: "bytes \<Rightarrow> bytes" where
  "before_body b = (case find_at (crlf @ crlf) 0 b of None \<Rightarrow> b | Some i \<Rightarrow> take i b)"

definition origin :: "icap_case \<Rightarrow> bytes \<Rightarrow> icap_event list \<times> bytes list \<times> unit result" where
  "origin c s =
     (case readuntil (crlf @ crlf) s of
        Inl x \<Rightarrow> ([], [], Inl x)
      | Inr (request, _) \<Rightarrow>
          let parts = [encode_utf8 (''prefix'' @ [CHR 0x0A]), ic_canary c, encode_utf8 ([CHR 0x0A] @ ''suffix'' @ [CHR 0x0A])] in
          (OriginRequest request # map (OriginBody \<circ> length) parts,
           (before_body (http_response ''200 OK'' (ic_body c)) @ crlf @ crlf) # parts, Inr ()))"

section \<open>The client and the check\<close>

text \<open>\<^verbatim>\<open>receive\<close>: the reads of the connection, an empty one at its end, \<open>None\<close> for an error of the socket.\<close>

fun receive_loop :: "bytes \<Rightarrow> bytes option list \<Rightarrow> icap_event list \<times> bytes result" where
  "receive_loop resp [] = ([], Inr resp)"
| "receive_loop resp (None # rs) = ([ClientError], Inr resp)"
| "receive_loop resp (Some d # rs) =
     (if d = [] then ([ClientRead d], Inr resp)
      else if length (resp @ d) > 65536 then ([ClientRead d], Inl (AssertionError ''unbounded response''))
      else (case receive_loop (resp @ d) rs of (evs, r) \<Rightarrow> (ClientRead d # evs, r)))"

definition receive :: "bytes option list \<Rightarrow> icap_event list \<times> bytes result" where
  "receive rs = (case receive_loop [] rs of (evs, r) \<Rightarrow> (ClientStart # evs, r))"

definition is_pending :: "icap_event \<Rightarrow> bool" where
  "is_pending e = (case e of InspectionPending _ _ \<Rightarrow> True | _ \<Rightarrow> False)"

definition is_verdict :: "icap_event \<Rightarrow> bool" where
  "is_verdict e = (case e of VerdictWrite _ \<Rightarrow> True | _ \<Rightarrow> False)"

definition client_data :: "icap_event \<Rightarrow> bytes" where
  "client_data e = (case e of ClientRead d \<Rightarrow> d | _ \<Rightarrow> [])"

definition early_bytes :: "int \<Rightarrow> (int \<times> icap_event) list \<Rightarrow> bytes" where
  "early_bytes at evs = concat (map (client_data \<circ> snd) (filter (\<lambda>(t, _). t < at) evs))"

definition behind_headers :: "bytes \<Rightarrow> bytes" where
  "behind_headers b = (case find_at (crlf @ crlf) 0 b of None \<Rightarrow> [] | Some i \<Rightarrow> drop (i + 4) b)"

definition assert_that :: "bool \<Rightarrow> string \<Rightarrow> unit result" where
  "assert_that b s = (if b then Inr () else Inl (AssertionError s))"

definition verify_case :: "icap_case \<Rightarrow> (int \<times> icap_event) list \<Rightarrow> exn list \<Rightarrow> bytes \<Rightarrow> unit result" where
  "verify_case c evs errs resp =
     ebind (assert_that (errs = []) ''errors'') (\<lambda>_.
     ebind (assert_that (length (filter (is_pending \<circ> snd) evs) = 1) []) (\<lambda>_.
       if ic_mode c = ''allow'' then
         (case filter (is_verdict \<circ> snd) evs of
            [] \<Rightarrow> Inl StopIteration
          | (t, _) # _ \<Rightarrow>
              ebind (assert_that (behind_headers (early_bytes t evs) = []) ''early'') (\<lambda>_.
                assert_that (resp = http_response ''200 OK'' (ic_body c)) ''response''))
       else if ic_mode c = ''deny'' then
         ebind (assert_that (find_at (ic_canary c) 0 resp = None) ''response'') (\<lambda>_.
           assert_that (resp = http_response ''403 Forbidden'' DENIAL) ''response'')
       else
         ebind (assert_that (resp = []) ''response'') (\<lambda>_.
           assert_that (fst (last evs) - fst (hd evs) \<ge> TIMEOUT_MS * 1000000 - 250000000) ''elapsed'')))"

section \<open>Previews\<close>

text \<open>A chunk is its size line and its data; the preview ends with an empty one that says that nothing follows.\<close>

definition chunk :: "bytes \<times> bytes \<Rightarrow> bytes" where
  "chunk ld = fst ld @ snd ld @ crlf"

definition chunk_ok :: "bytes \<times> bytes \<Rightarrow> bool" where
  "chunk_ok ld = (snd ld \<noteq> [] \<and> chunk_length (fst ld) = Inr (int (length (snd ld))))"

definition ends_preview :: "bytes \<Rightarrow> bool" where
  "ends_preview l = (chunk_length l = Inr 0 \<and> contains ''ieof'' (map lower_char (text_of l)))"

lemma read_preview_sound:
  "read_preview content s = Inr (b, r) \<Longrightarrow>
   \<exists>cs l. s = concat (map chunk cs) @ l @ crlf @ r \<and> b = content @ concat (map snd cs) \<and> (\<forall>x \<in> set cs. chunk_ok x) \<and> ends_preview l"
proof (induction content s rule: read_preview.induct)
  case (1 content s)
  obtain line s1 n where l: "readuntil crlf s = Inr (line, s1)" "chunk_length line = Inr n"
    "0 \<le> n" "n \<le> PREVIEW_BYTES - int (length content)"
    using "1.prems" by (subst (asm) read_preview.simps) (auto split: sum.splits if_splits)
  have s: "s = line @ s1" using readuntil_shorter [OF l(1)] .
  show ?case
  proof (cases "n = 0")
    case True
    then have "b = content" "s1 = crlf @ r" "contains ''ieof'' (map lower_char (text_of line))"
      using "1.prems" l by (subst (asm) read_preview.simps, simp add: err_simps read_crlf_iff split: if_splits)+
    with s l True show ?thesis by (intro exI [of _ "[]"] exI [of _ line]) (simp add: ends_preview_def)
  next
    case False
    obtain d s2 s3 where d: "readexactly (nat n) s1 = Inr (d, s2)" "read_crlf s2 = Inr s3" "read_preview (content @ d) s3 = Inr (b, r)"
      using "1.prems" l False by (subst (asm) read_preview.simps) (auto split: sum.splits)
    have ds: "s1 = d @ s2" "length d = nat n" "s2 = crlf @ s3" using readexactly_shorter [OF d(1)] d(2) by (auto simp: read_crlf_iff)
    from "1.IH" [OF l(1) refl l(2) _ False d(1) refl d(2,3)] l(3,4) obtain cs l' where
      "s3 = concat (map chunk cs) @ l' @ crlf @ r" "b = (content @ d) @ concat (map snd cs)" "\<forall>x \<in> set cs. chunk_ok x" "ends_preview l'" by auto
    moreover have "d \<noteq> []" using ds(2) l(3) False by auto
    ultimately show ?thesis using s ds l False
      by (intro exI [of _ "(line, d) # cs"] exI [of _ l']) (simp add: chunk_def [of "(line, d)"] chunk_ok_def)
  qed
qed

text \<open>A line as a peer writes it.\<close>

definition size_line :: "bytes \<Rightarrow> bool" where
  "size_line l = (\<exists>t. l = t @ crlf \<and> 13 \<notin> set t \<and> length t \<le> STREAM_LIMIT)"

lemma readuntil_line:
  assumes "size_line l"
  shows "readuntil crlf (l @ s) = Inr (l, s)"
proof -
  obtain t where t: "l = t @ crlf" "13 \<notin> set t" "length t \<le> STREAM_LIMIT" using assms by (auto simp: size_line_def)
  then have "find_at crlf 0 (l @ s) = Some (length t)" using find_at_skip [of 13 t "[10]" 0 "crlf @ s"] by (simp add: crlf_def)
  then show ?thesis using t by (simp add: readuntil_def)
qed

lemma read_preview_complete:
  assumes "\<forall>x \<in> set cs. chunk_ok x \<and> size_line (fst x)" "ends_preview l" "size_line l"
    and "int (length content + length (concat (map snd cs))) \<le> PREVIEW_BYTES"
  shows "read_preview content (concat (map chunk cs) @ l @ crlf @ r) = Inr (content @ concat (map snd cs), r)"
  using assms(1,4)
proof (induction cs arbitrary: content)
  case Nil
  then show ?case using assms(2,3) by (subst read_preview.simps) (simp add: readuntil_line ends_preview_def read_crlf_iff [THEN iffD2])
next
  case (Cons x cs)
  obtain line d where x: "x = (line, d)" by (cases x)
  let ?s = "concat (map chunk cs) @ l @ crlf @ r"
  have ok: "chunk_length line = Inr (int (length d))" "d \<noteq> []" "size_line line" using Cons.prems(1) x by (auto simp: chunk_ok_def)
  have "readexactly (length d) (d @ crlf @ ?s) = Inr (d, crlf @ ?s)" by (simp add: readexactly_def)
  moreover have "read_crlf (crlf @ ?s) = Inr ?s" by (simp add: read_crlf_iff)
  moreover have "read_preview (content @ d) ?s = Inr ((content @ d) @ concat (map snd cs), r)"
    using Cons.prems x by (intro Cons.IH) auto
  ultimately show ?case
    using ok Cons.prems(2) x readuntil_line [OF ok(3), of "d @ crlf @ ?s"]
    by (subst read_preview.simps) (simp add: chunk_def)
qed

section \<open>Verdicts\<close>

lemma find_at_longer:
  assumes "find_at sub i xs = None" "sub \<noteq> []"
  shows "find_at (sub @ tail) i xs = None"
  using assms by (auto simp: find_at_None)

lemma denial_parts: "take (header_end (http_response ''403 Forbidden'' DENIAL)) (http_response ''403 Forbidden'' DENIAL) @ DENIAL =
    http_response ''403 Forbidden'' DENIAL"
  by code_simp

lemma deny_reply_clean: "find_at (encode_utf8 ''DLP_CANARY_'') 0 deny_reply = None"
  by code_simp

lemma canary_denied: "find_at (ic_canary (new_case mode run_id)) 0 deny_reply = None"
proof -
  have "ic_canary (new_case mode run_id) = encode_utf8 ''DLP_CANARY_'' @ encode_utf8 run_id"
    unfolding new_case_def icap_case.simps by (rule encode_utf8_append)
  then show ?thesis using find_at_longer [OF deny_reply_clean] by (simp add: encode_utf8_def encode_char_def)
qed

text \<open>
  C24. No verdict before the whole message. Where the inspector records a verdict, the connection began with a header block that declares
  the length of the encapsulated headers, these headers, and a preview in well-formed chunks that carries exactly the body of the case and says
  that nothing follows; the inspection was recorded as pending first, and one answer was written: the permission in mode allow, otherwise the
  denial, in which the protected text does not occur.
\<close>

theorem verdict_after_preview:
  assumes "c = new_case mode run_id" "inspect c s = (evs, out, res)" "VerdictWrite m \<in> set evs"
  shows "\<exists>headers hdrs enc cs l rest.
    s = headers @ enc @ concat (map chunk cs) @ l @ crlf @ rest \<and>
    icap_fields headers = Inr hdrs \<and> body_offset hdrs = Inr (int (length enc)) \<and>
    (\<forall>x \<in> set cs. chunk_ok x) \<and> ends_preview l \<and> concat (map snd cs) = ic_body c \<and>
    evs = [IcapHeaders headers, EncapsulatedHeaders enc, InspectionPending (length (ic_body c)) (to_hex (sha256 (ic_body c))), VerdictWrite mode] \<and>
    m = mode \<and> mode \<noteq> ''timeout'' \<and> res = Inr () \<and>
    (if mode = ''allow'' then out = [ALLOW_REPLY] else out = [deny_reply] \<and> find_at (ic_canary c) 0 (concat out) = None)"
proof -
  have mode: "ic_mode c = mode" using assms(1) by (simp add: new_case_def)
  obtain headers s1 evs' where h: "readuntil (crlf @ crlf) s = Inr (headers, s1)" "evs = IcapHeaders headers # evs'"
    "inspect_body c headers s1 = (evs', out, res)"
    using assms(2,3) by (auto simp: inspect_def split: sum.splits if_splits prod.splits)
  then have v: "VerdictWrite m \<in> set evs'" using assms(3) by auto
  from h(3) v obtain hdrs n enc s2 content rest where
    f: "icap_fields headers = Inr hdrs" "body_offset hdrs = Inr n" "0 \<le> n" "readexactly (nat n) s1 = Inr (enc, s2)"
      "read_preview [] s2 = Inr (content, rest)" "content = ic_body c"
    and e: "evs' = [EncapsulatedHeaders enc, InspectionPending (length (ic_body c)) (to_hex (sha256 (ic_body c))), VerdictWrite mode]"
      "m = mode" "mode \<noteq> ''timeout''" "res = Inr ()" "icap_verdict c hdrs = Inr (hd out)" "out = [hd out]"
    by (auto simp: inspect_body_def mode err_simps Let_def split: sum.splits if_splits prod.splits)
  obtain cs l where p: "s2 = concat (map chunk cs) @ l @ crlf @ rest" "ic_body c = concat (map snd cs)"
    "\<forall>x \<in> set cs. chunk_ok x" "ends_preview l"
    using read_preview_sound [OF f(5)] f(6) by auto
  have "hd out = (if mode = ''allow'' then ALLOW_REPLY else deny_reply)"
    using e(5) mode by (auto simp: icap_verdict_def err_simps split: if_splits)
  with e(6) have o: "out = [if mode = ''allow'' then ALLOW_REPLY else deny_reply]" by simp
  have "s = headers @ enc @ concat (map chunk cs) @ l @ crlf @ rest" "int (length enc) = n"
    using readuntil_shorter [OF h(1)] readexactly_shorter [OF f(4)] p(1) f(3) by auto
  then show ?thesis using f e p h(2) o canary_denied [of mode run_id] assms(1) by auto
qed

section \<open>A well-formed preview gets its verdict\<close>

definition preview_lines :: "string \<Rightarrow> nat \<Rightarrow> string list" where
  "preview_lines uri n = [''RESPMOD '' @ uri, ''Encapsulated: res-hdr=0, res-body='' @ str_nat n, ''Preview: 4096'']"

definition preview_message :: "string \<Rightarrow> bytes \<Rightarrow> (bytes \<times> bytes) list \<Rightarrow> bytes \<Rightarrow> bytes" where
  "preview_message uri enc cs l =
     encode_utf8 (lines_text (preview_lines uri (length enc)) @ cr) @ enc @ concat (map chunk cs) @ l @ crlf"

lemma text_of_encode: "is_ascii s \<Longrightarrow> text_of (encode_utf8 s) = s"
  using decode_encode [of s] by (simp add: decode_ascii_def text_of_def split: if_splits)

lemma byte_strip_id: "s \<noteq> [] \<Longrightarrow> \<not> is_ascii_space (hd s) \<Longrightarrow> \<not> is_ascii_space (last s) \<Longrightarrow> byte_strip s = s"
proof -
  assume a: "s \<noteq> []" "\<not> is_ascii_space (hd s)" "\<not> is_ascii_space (last s)"
  then have "dropWhile is_ascii_space s = s" by (cases s) auto
  moreover have "dropWhile is_ascii_space (rev s) = rev s" using a by (cases s rule: rev_cases) auto
  ultimately show ?thesis by (simp add: byte_strip_def)
qed

lemma digit_space: "is_digit c \<Longrightarrow> \<not> is_space c \<and> \<not> is_ascii_space c"
  by (auto simp: is_digit_def is_space_def is_ascii_space_def)

lemma str_nat_ends: "is_digit (hd (str_nat n))" "is_digit (last (str_nat n))"
  using str_nat_digits [of n] str_nat_nonempty [of n] by auto

lemma byte_strip_digits: "\<not> is_ascii_space c \<Longrightarrow> byte_strip (c # p @ str_nat n) = c # p @ str_nat n"
  using str_nat_ends [of n] str_nat_nonempty [of n] digit_space by (intro byte_strip_id) auto

lemma int_bytes_str_nat: "int_bytes (str_nat n) = Inr (int n)"
proof -
  have "byte_strip (str_nat n) = str_nat n" using str_nat_ends [of n] str_nat_nonempty [of n] digit_space by (intro byte_strip_id) auto
  moreover have "\<not> edge_space (str_nat n)" using str_nat_ends [of n] digit_space by (simp add: edge_space_def)
  moreover have "parse_int (str_nat n) = Inr (int n)" using parse_int_str_int [of "int n"] by (simp add: str_int_def)
  ultimately show ?thesis by (simp add: int_bytes_def)
qed

lemma preview_fields:
  assumes "is_ascii uri" "CHR 0x0D \<notin> set uri"
  shows "icap_fields (encode_utf8 (lines_text (preview_lines uri n) @ cr)) =
    Inr [(''encapsulated'', ''res-hdr=0, res-body='' @ str_nat n), (''preview'', ''4096'')]"
proof -
  let ?ls = "preview_lines uri n"
  have cr: "CHR 0x0D \<notin> set (str_nat n)" using str_nat_digits [of n] by (auto simp: is_digit_def)
  have a: "is_ascii (lines_text ?ls @ cr)" using assms(1) by (simp add: preview_lines_def lines_text_def cr_def)
  have split: "split_crlf (lines_text ?ls @ cr) = ?ls @ [[], []]"
    using assms(2) cr by (intro split_crlf_lines) (simp add: preview_lines_def)
  have "length (?ls @ [[], []]) - 2 = 3" by (simp add: preview_lines_def)
  moreover have "pyslice 1 3 (?ls @ [[], []]) = [''Encapsulated: res-hdr=0, res-body='' @ str_nat n, ''Preview: 4096'']"
    by (simp add: preview_lines_def pyslice_def)
  moreover have "split_max 1 CHR '':'' (''Encapsulated: res-hdr=0, res-body='' @ str_nat n) = [''Encapsulated'', '' res-hdr=0, res-body='' @ str_nat n]"
    "split_max 1 CHR '':'' ''Preview: 4096'' = [''Preview'', '' 4096'']"
    by simp_all
  moreover have "byte_strip (CHR '' '' # t) = byte_strip t" for t by (simp add: byte_strip_def is_ascii_space_def)
  then have "byte_strip ('' res-hdr=0, res-body='' @ str_nat n) = ''res-hdr=0, res-body='' @ str_nat n"
    using byte_strip_digits [of "CHR ''r''" "''es-hdr=0, res-body=''" n] by (simp add: is_ascii_space_def)
  moreover have "map lower_char ''Encapsulated'' = ''encapsulated''" "map lower_char ''Preview'' = ''preview''" "byte_strip '' 4096'' = ''4096''"
    by code_simp+
  ultimately show ?thesis
    unfolding icap_fields_def text_of_encode [OF a] split Let_def by (simp add: pair_of_def dict_of_def)
qed

lemma preview_offset: "body_offset [(''encapsulated'', ''res-hdr=0, res-body='' @ str_nat n), (''preview'', ''4096'')] = Inr (int n)"
proof -
  have no: "CHR '','' \<notin> set (str_nat n)" "CHR ''='' \<notin> set (str_nat n)" using str_nat_digits [of n] by (auto simp: is_digit_def)
  have "split_on CHR '','' (''res-hdr=0, res-body='' @ str_nat n) = [''res-hdr=0'', '' res-body='' @ str_nat n]"
    using split_on_append [of "CHR '',''" "''res-hdr=0''" "'' res-body='' @ str_nat n"] split_on_no_sep [of "CHR '',''" "'' res-body='' @ str_nat n"] no by simp
  moreover have "byte_strip (CHR '' '' # t) = byte_strip t" for t by (simp add: byte_strip_def is_ascii_space_def)
  then have "byte_strip ('' res-body='' @ str_nat n) = ''res-body='' @ str_nat n"
    using byte_strip_digits [of "CHR ''r''" "''es-body=''" n] by (simp add: is_ascii_space_def)
  moreover have "split_on CHR ''='' (''res-body='' @ str_nat n) = [''res-body'', str_nat n]"
    using split_on_append [of "CHR ''=''" "''res-body''" "str_nat n"] split_on_no_sep [of "CHR ''=''" "str_nat n"] no by simp
  moreover have "byte_strip ''res-hdr=0'' = ''res-hdr=0''" "split_on CHR ''='' ''res-hdr=0'' = [''res-hdr'', ''0'']" by code_simp+
  ultimately show ?thesis
    by (simp add: body_offset_def item_of_def pair_of_def dict_of_def int_bytes_str_nat)
qed

lemma preview_block:
  assumes "is_ascii uri" "CHR 0x0D \<notin> set uri" "length uri \<le> 60000" "length (str_nat n) \<le> 4"
  shows "readuntil (crlf @ crlf) (encode_utf8 (lines_text (preview_lines uri n) @ cr) @ rest) =
    Inr (encode_utf8 (lines_text (preview_lines uri n) @ cr), rest)"
proof -
  let ?ls = "preview_lines uri n"
  have cr: "CHR 0x0D \<notin> set (str_nat n)" using str_nat_digits [of n] by (auto simp: is_digit_def)
  have "is_ascii (lines_text ?ls)" using assms(1) by (simp add: preview_lines_def lines_text_def cr_def)
  then have "length (encode_utf8 (lines_text ?ls)) = length (lines_text ?ls)" by (simp add: encode_ascii)
  then have "length (encode_utf8 (lines_text ?ls)) \<le> STREAM_LIMIT"
    using assms(3,4) by (simp add: preview_lines_def lines_text_def cr_def STREAM_LIMIT_def)
  moreover have "\<forall>l \<in> set ?ls. msg_line l" "?ls \<noteq> []" using assms(1,2) cr by (simp_all add: preview_lines_def msg_line_def)
  ultimately show ?thesis using readuntil_block [of ?ls rest] by simp
qed

lemma str_nat_len: "n < 10 ^ Suc k \<Longrightarrow> length (str_nat n) \<le> Suc k"
proof (induction k arbitrary: n)
  case 0
  then show ?case by (simp add: str_nat.simps [of n])
next
  case (Suc k)
  have "length (str_nat (n div 10)) \<le> Suc k" using Suc.prems by (intro Suc.IH) auto
  then show ?case by (simp add: str_nat.simps [of n])
qed

lemma preview_prefix: "is_prefix (encode_utf8 ''RESPMOD '') (encode_utf8 (lines_text (preview_lines uri n) @ cr))"
    "\<not> is_prefix (encode_utf8 ''OPTIONS '') (encode_utf8 (lines_text (preview_lines uri n) @ cr))"
  by (simp_all add: preview_lines_def lines_text_def encode_utf8_def encode_char_def)

lemma preview_inspected:
  assumes "is_ascii uri" "CHR 0x0D \<notin> set uri" "length uri \<le> 60000" "length enc \<le> 4096"
    and "\<forall>x \<in> set cs. chunk_ok x \<and> size_line (fst x)" "ends_preview l" "size_line l"
    and "concat (map snd cs) = ic_body c" "length (ic_body c) \<le> 4096" "ic_mode c \<noteq> ''timeout''"
  shows "inspect c (preview_message uri enc cs l) =
    ([IcapHeaders (encode_utf8 (lines_text (preview_lines uri (length enc)) @ cr)), EncapsulatedHeaders enc,
      InspectionPending (length (ic_body c)) (to_hex (sha256 (ic_body c))), VerdictWrite (ic_mode c)],
     [if ic_mode c = ''allow'' then ALLOW_REPLY else deny_reply], Inr ())"
proof -
  let ?h = "encode_utf8 (lines_text (preview_lines uri (length enc)) @ cr)"
  let ?hdrs = "[(''encapsulated'', ''res-hdr=0, res-body='' @ str_nat (length enc)), (''preview'', ''4096'')]"
  let ?s = "concat (map chunk cs) @ l @ crlf"
  have "length (str_nat (length enc)) \<le> 4" using str_nat_len [of "length enc" 3] assms(4) by simp
  then have h: "readuntil (crlf @ crlf) (preview_message uri enc cs l) = Inr (?h, enc @ ?s)"
    unfolding preview_message_def by (rule preview_block [OF assms(1-3)])
  have e: "readexactly (nat (int (length enc))) (enc @ ?s) = Inr (enc, ?s)" by (simp add: readexactly_def)
  have b: "read_preview [] ?s = Inr (ic_body c, [])"
    using read_preview_complete [OF assms(5-7), of "[]" "[]"] assms(8,9) by (simp add: PREVIEW_BYTES_def)
  have "int_bytes ''4096'' = Inr 4096" by code_simp
  then have v: "icap_verdict c ?hdrs = Inr (if ic_mode c = ''allow'' then ALLOW_REPLY else deny_reply)"
    by (simp add: icap_verdict_def item_of_def PREVIEW_BYTES_def)
  show ?thesis
    unfolding inspect_def inspect_body_def h sum.case prod.case preview_fields [OF assms(1,2)] ebind.simps preview_offset
    using preview_prefix assms(4,10) e b v by (simp add: PREVIEW_BYTES_def)
qed

definition sample_case :: icap_case where
  "sample_case = new_case ''deny'' ''7''"

definition sample_chunks :: "(bytes \<times> bytes) list" where
  "sample_chunks = [(encode_utf8 (''7'' @ cr), take 7 (ic_body sample_case)), (encode_utf8 (''14'' @ cr), drop 7 (ic_body sample_case))]"

definition sample_end :: bytes where
  "sample_end = encode_utf8 (''0; ieof'' @ cr)"

lemma size_lineI: "is_ascii t \<Longrightarrow> CHR 0x0D \<notin> set t \<Longrightarrow> t \<noteq> [] \<Longrightarrow> length t \<le> STREAM_LIMIT \<Longrightarrow> size_line (encode_utf8 (t @ cr))"
  unfolding size_line_def using encode_line_no_cr [of t]
  by (intro exI [of _ "encode_utf8 t"]) (simp add: msg_line_def, simp add: encode_ascii)

lemma sample_preview:
  "is_ascii ''icap://h/dlp''" "CHR 0x0D \<notin> set ''icap://h/dlp''" "length ''icap://h/dlp'' \<le> 60000" "length [72, 84 :: byte] \<le> 4096"
  "\<forall>x \<in> set sample_chunks. chunk_ok x \<and> size_line (fst x)" "ends_preview sample_end" "size_line sample_end"
  "concat (map snd sample_chunks) = ic_body sample_case" "length (ic_body sample_case) \<le> 4096" "ic_mode sample_case \<noteq> ''timeout''"
proof -
  have "size_line (encode_utf8 (''7'' @ cr))" "size_line (encode_utf8 (''14'' @ cr))" "size_line (encode_utf8 (''0; ieof'' @ cr))"
    by (rule size_lineI; simp add: STREAM_LIMIT_def)+
  moreover have "list_all chunk_ok sample_chunks" by code_simp
  ultimately show "\<forall>x \<in> set sample_chunks. chunk_ok x \<and> size_line (fst x)" "size_line sample_end"
    by (simp_all add: sample_chunks_def sample_end_def)
  show "is_ascii ''icap://h/dlp''" "ends_preview sample_end" "concat (map snd sample_chunks) = ic_body sample_case"
    "ic_mode sample_case \<noteq> ''timeout''" by code_simp+
  show "length (ic_body sample_case) \<le> 4096"
    by (simp add: ic_body_def sample_case_def new_case_def encode_ascii del: encode_utf8_append)
qed simp_all

theorem verdict_after_preview_witness:
  "\<exists>out. inspect sample_case (preview_message ''icap://h/dlp'' [72, 84] sample_chunks sample_end) = out \<and>
     VerdictWrite ''deny'' \<in> set (fst out) \<and> fst (snd out) = [deny_reply]"
proof -
  let ?s = "preview_message ''icap://h/dlp'' [72, 84] sample_chunks sample_end"
  obtain evs out res where i: "inspect sample_case ?s = (evs, out, res)" by (cases "inspect sample_case ?s")
  have "VerdictWrite ''deny'' \<in> set evs" using i preview_inspected [OF sample_preview] by (auto simp: sample_case_def new_case_def)
  from verdict_after_preview [OF sample_case_def i this] i this show ?thesis by auto
qed

text \<open>
  C32. A whole preview is judged. However the body of the case is cut into chunks, and whatever headers it encapsulates within
  the limit, the inspector answers the preview with the verdict of the case and records no error.
\<close>

theorem preview_judged:
  assumes "is_ascii uri" "CHR 0x0D \<notin> set uri" "length uri \<le> 60000" "length enc \<le> 4096"
    and "\<forall>x \<in> set cs. chunk_ok x \<and> size_line (fst x)" "ends_preview l" "size_line l"
    and "concat (map snd cs) = ic_body c" "length (ic_body c) \<le> 4096" "ic_mode c \<noteq> ''timeout''"
  shows "inspector c (preview_message uri enc cs l) =
    ([IcapHeaders (encode_utf8 (lines_text (preview_lines uri (length enc)) @ cr)), EncapsulatedHeaders enc,
      InspectionPending (length (ic_body c)) (to_hex (sha256 (ic_body c))), VerdictWrite (ic_mode c)],
     [if ic_mode c = ''allow'' then ALLOW_REPLY else deny_reply], [])"
  using preview_inspected [OF assms] by (simp add: inspector_def)

theorem preview_judged_witness:
  "snd (inspector sample_case (preview_message ''icap://h/dlp'' [72, 84] sample_chunks sample_end)) = ([deny_reply], [])"
  using preview_judged [OF sample_preview] by (simp add: sample_case_def new_case_def)

text \<open>A connection that ends inside the preview leaves no error, so that the check of the case does not see it.\<close>

lemma cut_preview_not_recorded:
  "inspector sample_case (encode_utf8 (lines_text (preview_lines ''icap://h/dlp'' 2) @ cr)) =
   ([IcapHeaders (encode_utf8 (lines_text (preview_lines ''icap://h/dlp'' 2) @ cr))], [], [])"
proof -
  let ?h = "encode_utf8 (lines_text (preview_lines ''icap://h/dlp'' 2) @ cr)"
  have h: "readuntil (crlf @ crlf) ?h = Inr (?h, [])"
    using preview_block [OF sample_preview(1-3), of 2 "[]"] by (simp add: str_nat.simps)
  have "inspect_body sample_case ?h [] = ([], [], Inl (IncompleteReadError False))"
    unfolding inspect_body_def preview_fields [OF sample_preview(1,2)] ebind.simps preview_offset
    using preview_prefix by (simp add: PREVIEW_BYTES_def readexactly_def)
  then show ?thesis unfolding inspector_def inspect_def h sum.case prod.case using preview_prefix by simp
qed

section \<open>What the check accepts\<close>

lemma http_head:
  "http_response status content =
   encode_utf8 (lines_text [''HTTP/1.1 '' @ status, ''Connection: close'', ''Content-Length: '' @ str_nat (length content)]) @ crlf @ content"
  by (simp add: http_response_def lines_text_def encode_utf8_def cr_def crlf_def encode_char_def)

text \<open>The head of a response ends at the first empty line.\<close>

lemma http_parts:
  assumes "status \<in> {''200 OK'', ''403 Forbidden''}"
  shows "\<exists>head. http_response status content = head @ crlf @ crlf @ content \<and>
    find_at (crlf @ crlf) 0 (http_response status content) = Some (length head)"
proof -
  let ?ls = "[''HTTP/1.1 '' @ status, ''Connection: close'', ''Content-Length: '' @ str_nat (length content)]"
  let ?b = "encode_utf8 (lines_text ?ls)"
  have cr: "CHR 0x0D \<notin> set (str_nat n)" for n using str_nat_digits [of n] by (auto simp: is_digit_def)
  have ok: "\<forall>l \<in> set ?ls. msg_line l" using assms cr by (auto simp: msg_line_def)
  have "find_at [13, 10, 13, 10] 0 (concat (map (\<lambda>l. l @ [13, 10]) (map encode_utf8 ?ls)) @ [13, 10] @ content) =
      Some (0 + length (concat (map (\<lambda>l. l @ [13, 10]) (map encode_utf8 ?ls))) - 2)"
    by (rule find_block) (use ok encode_line_no_cr in auto)
  then have f: "find_at (crlf @ crlf) 0 (http_response status content) = Some (length ?b - 2)"
    unfolding http_head encode_lines by (simp add: crlf_def)
  have "?b = (encode_utf8 (lines_text (butlast ?ls)) @ encode_utf8 (last ?ls)) @ crlf"
    by (simp add: lines_text_def encode_utf8_def cr_def crlf_def encode_char_def)
  then obtain head where h: "?b = head @ crlf" by blast
  with f show ?thesis unfolding http_head h by (intro exI [of _ head]) (simp add: crlf_def)
qed

lemma origin_sends_response:
  assumes "origin c s = (evs, out, Inr ())"
  shows "concat out = http_response ''200 OK'' (ic_body c)"
proof -
  obtain head where h: "http_response ''200 OK'' (ic_body c) = head @ crlf @ crlf @ ic_body c"
    "find_at (crlf @ crlf) 0 (http_response ''200 OK'' (ic_body c)) = Some (length head)"
    using http_parts [of "''200 OK''" "ic_body c"] by auto
  then have "before_body (http_response ''200 OK'' (ic_body c)) = head" by (simp add: before_body_def)
  with assms h show ?thesis by (auto simp: origin_def ic_body_def Let_def split: sum.splits)
qed

lemma behind_http: "status \<in> {''200 OK'', ''403 Forbidden''} \<Longrightarrow> behind_headers (http_response status content) = content"
  using http_parts [of status content] by (auto simp: behind_headers_def crlf_def)

lemma concat_filter_empty: "\<forall>x \<in> set xs. f x \<noteq> [] \<longrightarrow> P x \<Longrightarrow> concat (map f (filter P xs)) = concat (map f xs)"
  by (induction xs) auto

text \<open>
  The check is neither blind nor too strict. In mode allow it accepts a run in which the one inspection was pending, no error was
  recorded, and the client read exactly what the origin sent, all of it after the verdict; it refuses a run in which all of that
  was read before the verdict, and in mode deny any run in which the client read what the origin sent.
\<close>

lemma check_distinguishes:
  assumes "origin c s = (oevs, out, Inr ())" "length (filter (is_pending \<circ> snd) evs) = 1"
    and "evs = pre @ (t, VerdictWrite v) # post" "\<forall>e \<in> set pre. \<not> is_verdict (snd e)"
    and "resp = concat (map (client_data \<circ> snd) evs)" "resp = concat out"
  shows "ic_mode c = ''allow'' \<Longrightarrow> \<forall>e \<in> set evs. client_data (snd e) \<noteq> [] \<longrightarrow> t \<le> fst e \<Longrightarrow> verify_case c evs [] resp = Inr ()"
    and "ic_mode c = ''allow'' \<Longrightarrow> \<forall>e \<in> set evs. client_data (snd e) \<noteq> [] \<longrightarrow> fst e < t \<Longrightarrow> verify_case c evs [] resp \<noteq> Inr ()"
    and "ic_mode c = ''deny'' \<Longrightarrow> verify_case c evs [] resp \<noteq> Inr ()"
proof -
  have r: "resp = http_response ''200 OK'' (ic_body c)" using origin_sends_response [OF assms(1)] assms(6) by simp
  have "filter (is_verdict \<circ> snd) pre = []" using assms(4) by (simp add: filter_empty_conv)
  then have v: "filter (is_verdict \<circ> snd) evs = (t, VerdictWrite v) # filter (is_verdict \<circ> snd) post"
    using assms(3) by (simp add: is_verdict_def)
  show "verify_case c evs [] resp = Inr ()" if "ic_mode c = ''allow''" "\<forall>e \<in> set evs. client_data (snd e) \<noteq> [] \<longrightarrow> t \<le> fst e"
  proof -
    have "early_bytes t evs = []" using that(2) by (force simp: early_bytes_def)
    then show ?thesis using that(1) v assms(2) r by (simp add: verify_case_def assert_that_def behind_headers_def crlf_def)
  qed
  show "verify_case c evs [] resp \<noteq> Inr ()" if "ic_mode c = ''allow''" "\<forall>e \<in> set evs. client_data (snd e) \<noteq> [] \<longrightarrow> fst e < t"
  proof -
    have "early_bytes t evs = resp"
      using concat_filter_empty [of evs "client_data \<circ> snd" "\<lambda>(u, _). u < t"] that(2) assms(5) by (simp add: early_bytes_def case_prod_unfold)
    then have "behind_headers (early_bytes t evs) \<noteq> []" unfolding r by (simp add: behind_http ic_body_def encode_utf8_def encode_char_def)
    then show ?thesis using that(1) v assms(2) by (simp add: verify_case_def assert_that_def)
  qed
  show "verify_case c evs [] resp \<noteq> Inr ()" if "ic_mode c = ''deny''"
  proof -
    have "ic_body c \<noteq> DENIAL" by (simp add: ic_body_def DENIAL_def encode_utf8_def encode_char_def)
    then have "resp \<noteq> http_response ''403 Forbidden'' DENIAL"
      using behind_http [of "''200 OK''" "ic_body c"] behind_http [of "''403 Forbidden''" DENIAL] r by auto
    then show ?thesis using that assms(2) by (auto simp: verify_case_def assert_that_def err_simps)
  qed
qed

end
