(* ===== verification/Metadata_Export.thy ===== *)
theory Metadata_Export
  imports Value_Decoders Sha256
begin

text \<open>
  \<^verbatim>\<open>env/ai-traffic/metadata_export.py\<close>: turns the receipt of a live run into an export of the values its programs captured, and shows them in a
  table. The parser of the nested document and the bytes of the receipt are arguments; the fixed text around the table is not modelled.
\<close>

section \<open>Documents\<close>

text \<open>\<^verbatim>\<open>v[k]\<close> with a text key.\<close>

definition jfield :: "jval \<Rightarrow> string \<Rightarrow> jval result" where
  "jfield v k = (case v of JObj d \<Rightarrow> jitem d k | _ \<Rightarrow> Inl (TypeError ''indices must be integers''))"

fun jpath :: "jval \<Rightarrow> string list \<Rightarrow> jval result" where
  "jpath v [] = Inr v"
| "jpath v (k # ks) = ebind (jfield v k) (\<lambda>w. jpath w ks)"

text \<open>\<^verbatim>\<open>for x in v\<close>.\<close>

definition elements :: "jval \<Rightarrow> jval list result" where
  "elements v =
     (case v of
        JArr xs \<Rightarrow> Inr xs
      | JStr s \<Rightarrow> Inr (map (\<lambda>c. JStr [c]) s)
      | JObj d \<Rightarrow> Inr (map (JStr \<circ> fst) d)
      | _ \<Rightarrow> Inl (TypeError ''object is not iterable''))"

text \<open>\<^verbatim>\<open>==\<close>: dictionaries without regard to order, truth values as numbers.\<close>

lemma size_entry: "(a, b) \<in> set d \<Longrightarrow> size b \<le> size_list (size_prod (\<lambda>x. 0) size) d"
  by (induction d) auto

function py_eq :: "jval \<Rightarrow> jval \<Rightarrow> bool" where
  "py_eq v w =
     (case v of
        JNull \<Rightarrow> w = JNull
      | JBool a \<Rightarrow> w = JBool a \<or> w = JInt (of_bool a)
      | JInt i \<Rightarrow> w = JInt i \<or> (\<exists>a \<in> {True, False}. w = JBool a \<and> i = of_bool a)
      | JStr s \<Rightarrow> w = JStr s
      | JArr xs \<Rightarrow>
          (case w of JArr ys \<Rightarrow> length xs = length ys \<and> list_all (\<lambda>i. py_eq (xs ! i) (ys ! i)) [0..<length xs] | _ \<Rightarrow> False)
      | JObj d \<Rightarrow>
          (case w of
             JObj e \<Rightarrow> length d = length e \<and>
               list_all (\<lambda>kx. case map_of e (fst kx) of None \<Rightarrow> False | Some y \<Rightarrow> py_eq (snd kx) y) d
           | _ \<Rightarrow> False))"
  by pat_completeness auto
termination
  by (relation "measure (\<lambda>(v, w). size v)") (auto simp: less_Suc_eq_le dest: size_list_estimation' [OF nth_mem] size_entry)

declare py_eq.simps [simp del]

lemma py_eq_atom: "py_eq (JInt i) (JInt i)" "py_eq (JStr s) (JStr s)"
  by (simp_all add: py_eq.simps)

lemma py_eq_object: "distinct (map fst d) \<Longrightarrow> \<forall>kx \<in> set d. py_eq (snd kx) (snd kx) \<Longrightarrow> py_eq (JObj d) (JObj d)"
  by (subst py_eq.simps) (auto simp: list_all_iff)

lemma py_eq_array: "\<forall>v \<in> set vs. py_eq v v \<Longrightarrow> py_eq (JArr vs) (JArr vs)"
  by (subst py_eq.simps) (auto simp: list_all_iff)

section \<open>The records of a receipt\<close>

definition method_fields :: "value_event \<Rightarrow> jobj" where
  "method_fields e =
     (let r = v_rec e; h = v_hdr r in
      [(''magic'', JInt (magic h)), (''abi'', JInt (abi h)), (''instance'', JInt (inst h)), (''revision'', JInt (revision h)),
       (''run'', JInt (run_id h)), (''monotonic_ns'', JInt (monotonic_ns h)), (''sequence'', JInt (seq_no h)),
       (''output_failures'', JInt (output_failures h)), (''status'', JInt (v_status r)), (''getter_result'', JInt (v_aux r)),
       (''original_length'', JInt (original_length r)), (''copied_length'', JInt (copied_length r)), (''flags'', JInt (v_flags r)),
       (''reads'', JInt (v_reads r)), (''source_bytes'', JInt (v_source_bytes r)), (''value_hex'', JStr (value_hex e)),
       (''status_name'', JStr (v_status_name e)), (''representation'', JStr (representation e))])"

definition payload_of :: "jval \<Rightarrow> jval \<Rightarrow> bytes result" where
  "payload_of program item =
     ebind (jfield item ''data'') (\<lambda>d.
     ebind (case d of JStr s \<Rightarrow> from_hex s | _ \<Rightarrow> Inl (TypeError ''fromhex() argument must be str'')) (\<lambda>payload.
     ebind (jfield item ''hook'') (\<lambda>hook.
     ebind (if \<not> py_eq hook (JStr ''prog'') then Inr True
            else ebind (jfield item ''slot'') (\<lambda>slot. ebind (jfield program ''slot'') (\<lambda>pslot.
                   if \<not> py_eq slot pslot then Inr True
                   else ebind (jfield item ''len'') (\<lambda>len. Inr (\<not> py_eq len (JInt (int (length payload)))))))) (\<lambda>bad.
       if bad then Inl (ValueError ''unexpected transport record'') else Inr payload))))"

text \<open>The payloads in the order of the batches, each decoded as it is read.\<close>

definition decoded_item :: "jval \<Rightarrow> jval \<Rightarrow> (bytes \<times> value_event) result" where
  "decoded_item program item =
     ebind (payload_of program item) (\<lambda>p. ebind (method_decode p) (\<lambda>e. Inr (p, e)))"

definition batch_records :: "jval \<Rightarrow> jval \<Rightarrow> (bytes \<times> value_event) list result" where
  "batch_records program batch =
     ebind (jfield batch ''transport'') (\<lambda>t. ebind (elements t) (emap (decoded_item program)))"

definition receipt_records :: "jval \<Rightarrow> jval \<Rightarrow> (bytes \<times> value_event) list result" where
  "receipt_records program test =
     ebind (jfield test ''batches'') (\<lambda>b. ebind (elements b) (\<lambda>bs. ebind (emap (batch_records program) bs) (\<lambda>rs. Inr (concat rs))))"

section \<open>The export\<close>

record shown_value =
  sv_text :: "utext option"
  sv_hex :: string
  sv_original :: int
  sv_copied :: int

record method_observation =
  ob_value :: "shown_value option"
  ob_record :: value_event

definition ob_field :: "method_observation \<Rightarrow> string option" where
  "ob_field ob = (if ob_value ob = None then None else Some ''root_object.method'')"

definition observe_record :: "value_event \<Rightarrow> method_observation" where
  "observe_record e =
     \<lparr>ob_value =
        (if v_status_name e \<in> {''complete'', ''truncated''} then
           Some \<lparr>sv_text = (case from_hex (value_hex e) of Inr bs \<Rightarrow> utf8_decode bs | Inl _ \<Rightarrow> None), sv_hex = value_hex e,
                 sv_original = original_length (v_rec e), sv_copied = copied_length (v_rec e)\<rparr>
         else None),
      ob_record = e\<rparr>"

record export_doc =
  ex_source :: string
  ex_sha256 :: string
  ex_runtime :: jval
  ex_hook :: jval
  ex_program_sha256 :: jval
  ex_observations :: "method_observation list"
  ex_without :: "(jval \<times> jval) list"

definition case_events :: "jval \<Rightarrow> jval list result" where
  "case_events test =
     ebind (jfield test ''comparisons'') (\<lambda>cs. ebind (elements cs) (\<lambda>cs.
       ebind (emap (\<lambda>c. ebind (jfield c ''events'') elements) cs) (\<lambda>es. Inr (concat es))))"

definition cases_without :: "jval \<Rightarrow> (jval \<times> jval) list result" where
  "cases_without test =
     ebind (jfield test ''comparisons'') (\<lambda>cs. ebind (elements cs) (\<lambda>cs.
       efold (\<lambda>acc c. ebind (jfield c ''events'') (\<lambda>e.
         if truthy e then Inr acc
         else ebind (jfield c ''case'') (\<lambda>n. ebind (jfield c ''filter'') (\<lambda>f. Inr (acc @ [(n, f)]))))) [] cs))"

text \<open>The nested document is text that is parsed again.\<close>

definition export :: "(string \<Rightarrow> jval result) \<Rightarrow> string \<Rightarrow> bytes \<Rightarrow> jval \<Rightarrow> export_doc result" where
  "export loads name raw receipt =
     ebind (jpath receipt [''files'', ''result.json'']) (\<lambda>t.
     ebind (case t of JStr s \<Rightarrow> loads s | _ \<Rightarrow> Inl (TypeError ''the JSON object must be str, bytes or bytearray'')) (\<lambda>test.
     ebind (jfield receipt ''passed'') (\<lambda>p1.
     ebind (if \<not> truthy p1 then Inr False else ebind (jfield test ''passed'') (\<lambda>p2. Inr (truthy p2))) (\<lambda>passed.
       if \<not> passed then Inl (ValueError ''this export requires a passed live receipt'')
       else
         ebind (jpath receipt [''program_build'', ''programs'', ''method'']) (\<lambda>program.
         ebind (receipt_records program test) (\<lambda>recs.
         ebind (jfield test ''events'') (\<lambda>evs.
           let records = map (JObj \<circ> method_fields \<circ> snd) recs in
           if \<not> py_eq (JArr records) evs then Inl (ValueError ''ring payloads differ from the saved decoded records'')
           else
             ebind (case_events test) (\<lambda>ces.
             if \<not> py_eq (JArr ces) (JArr records) then Inl (ValueError ''fixture comparison records differ from the captured records'')
             else
               ebind (jpath receipt [''program_build'', ''runtime'']) (\<lambda>runtime.
               ebind (jfield program ''section'') (\<lambda>sect.
               ebind (jfield program ''sha256'') (\<lambda>sha.
               ebind (cases_without test) (\<lambda>without.
                 Inr \<lparr>ex_source = name, ex_sha256 = to_hex (sha256 raw), ex_runtime = runtime, ex_hook = sect, ex_program_sha256 = sha,
                      ex_observations = map (observe_record \<circ> snd) recs, ex_without = without\<rparr>))))))))))))"

section \<open>The table\<close>

definition utext_of :: "string \<Rightarrow> utext" where
  "utext_of s = map of_char s"

text \<open>\<^verbatim>\<open>json.dumps(text, ensure_ascii=True)\<close> of one code point, then the replacement of the two characters that end a cell.\<close>

definition hex_code :: "nat \<Rightarrow> nat" where
  "hex_code n = (if n < 10 then 48 + n else 87 + n)"

definition u_escape :: "nat \<Rightarrow> utext" where
  "u_escape n = [92, 117, hex_code (n div 4096), hex_code (n div 256 mod 16), hex_code (n div 16 mod 16), hex_code (n mod 16)]"

definition dumps_char :: "nat \<Rightarrow> utext" where
  "dumps_char c =
     (if c = 34 then [92, 34] else if c = 92 then [92, 92] else if c = 10 then [92, 110] else if c = 13 then [92, 114]
      else if c = 9 then [92, 116] else if c = 12 then [92, 102] else if c = 8 then [92, 98]
      else if 32 \<le> c \<and> c \<le> 126 then [c]
      else if c < 0x10000 then u_escape c
      else u_escape (0xD800 + (c - 0x10000) div 1024) @ u_escape (0xDC00 + (c - 0x10000) mod 1024))"

definition replace_point :: "nat \<Rightarrow> utext \<Rightarrow> utext \<Rightarrow> utext" where
  "replace_point c new t = concat (map (\<lambda>x. if x = c then new else [x]) t)"

definition dumps_text :: "utext \<Rightarrow> utext" where
  "dumps_text t = 34 # concat (map dumps_char t) @ [34]"

definition shown_text :: "utext \<Rightarrow> utext" where
  "shown_text t = replace_point 96 (u_escape 96) (replace_point 124 (u_escape 124) (dumps_text t))"

definition value_cell :: "method_observation \<Rightarrow> utext" where
  "value_cell ob =
     (case ob_value ob of
        None \<Rightarrow> [0x2014]
      | Some v \<Rightarrow> 96 # (case sv_text v of None \<Rightarrow> utext_of (''hex: '' @ sv_hex v) | Some t \<Rightarrow> shown_text t) @ [96])"

definition table_row :: "method_observation \<Rightarrow> utext" where
  "table_row ob =
     (let r = v_rec (ob_record ob) in
      utext_of ''| '' @ utext_of (str_int (seq_no (v_hdr r))) @ utext_of '' | '' @ value_cell ob @ utext_of '' | '' @ utext_of (v_status_name (ob_record ob)) @ utext_of '' | '' @
      utext_of (case ob_value ob of None \<Rightarrow> ''unknown'' | Some v \<Rightarrow> str_int (sv_original v)) @ utext_of '' | '' @
      utext_of (str_int (copied_length r)) @ utext_of '' | '' @ utext_of (str_int (v_aux r)) @ utext_of '' |'')"

section \<open>A cell reads back\<close>

definition valid_point :: "nat \<Rightarrow> bool" where
  "valid_point c = (c < 0x110000 \<and> \<not> (0xD800 \<le> c \<and> c \<le> 0xDFFF))"

definition shown_char :: "nat \<Rightarrow> utext" where
  "shown_char c = (if c = 124 \<or> c = 96 then u_escape c else dumps_char c)"

text \<open>Printable, and neither a cell's end nor the end of a code span.\<close>

definition cell_char :: "nat \<Rightarrow> bool" where
  "cell_char x = (x \<noteq> 124 \<and> x \<noteq> 96 \<and> 32 \<le> x \<and> x \<le> 126)"

lemma hex_code_props: "n < 16 \<Longrightarrow> hex_digit (hex_code n) = Some n" "n < 16 \<Longrightarrow> cell_char (hex_code n)"
  by (simp_all add: hex_digit_def hex_code_def cell_char_def)

lemma u_escape_chars: "n < 65536 \<Longrightarrow> list_all cell_char (u_escape n)"
proof -
  assume "n < 65536"
  then have "n div 4096 < 16" by simp
  moreover have "n div 256 mod 16 < 16" "n div 16 mod 16 < 16" "n mod 16 < 16" by simp_all
  moreover have "cell_char 92" "cell_char 117" by (simp_all add: cell_char_def)
  ultimately show ?thesis by (simp add: u_escape_def hex_code_props(2))
qed

lemma hex4_escape: "n < 65536 \<Longrightarrow> hex4 (drop 2 (u_escape n) @ r) = Some n"
proof -
  assume n: "n < 65536"
  have "((n div 4096 * 16 + n div 256 mod 16) * 16 + n div 16 mod 16) * 16 + n mod 16 = n"
  proof -
    have "n div 16 * 16 + n mod 16 = n" "n div 256 * 16 + n div 16 mod 16 = n div 16" "n div 4096 * 16 + n div 256 mod 16 = n div 256"
      using div_mult_mod_eq [of "n div 16" 16] div_mult_mod_eq [of "n div 256" 16] div_mult2_eq [of n 16 16] div_mult2_eq [of n 256 16] by simp_all
    then show ?thesis by simp
  qed
  moreover have "n div 4096 < 16" using n by simp
  ultimately show ?thesis by (simp add: hex4_def u_escape_def hex_code_props(1))
qed

lemma escape_parts: "u_escape n = 92 # 117 # drop 2 (u_escape n)" "length (drop 2 (u_escape n)) = 4"
  by (simp_all add: u_escape_def)

lemma json_scan_escape:
  assumes "n < 65536" "\<not> (0xD800 \<le> n \<and> n \<le> 0xDBFF)"
  shows "json_scan (u_escape n @ r) = map_option (Cons n) (json_scan r)"
  using hex4_escape [OF assms(1), of r] assms(2) escape_parts(2) [of n] by (subst escape_parts(1)) auto

lemma json_scan_pair:
  assumes "0xD800 \<le> n" "n \<le> 0xDBFF" "0xDC00 \<le> k" "k \<le> 0xDFFF"
  shows "json_scan (u_escape n @ u_escape k @ r) = map_option (Cons (0x10000 + (n - 0xD800) * 1024 + (k - 0xDC00))) (json_scan r)"
proof -
  have "take 2 (u_escape k @ r) = [92, 117]" "drop 2 (u_escape k @ r) = drop 2 (u_escape k) @ r" "drop 10 (drop 2 (u_escape n) @ u_escape k @ r) = r"
    by (simp_all add: u_escape_def)
  then show ?thesis
    using hex4_escape [of n "u_escape k @ r"] hex4_escape [of k r] assms escape_parts(2) [of n] by (subst escape_parts(1)) simp
qed

lemma json_scan_shown:
  assumes "valid_point c"
  shows "json_scan (shown_char c @ r) = map_option (Cons c) (json_scan r)"
proof (cases "c < 0x10000")
  case True
  then have e: "json_scan (u_escape c @ r) = map_option (Cons c) (json_scan r)"
    using assms by (intro json_scan_escape) (auto simp: valid_point_def)
  consider "c = 124 \<or> c = 96" | "c \<in> {34, 92, 10, 13, 9, 12, 8}" | "c \<notin> {34, 92, 10, 13, 9, 12, 8, 124, 96}" "32 \<le> c \<and> c \<le> 126"
    | "c \<notin> {34, 92, 10, 13, 9, 12, 8, 124, 96}" "\<not> (32 \<le> c \<and> c \<le> 126)" by blast
  then show ?thesis
  proof cases
    case 2
    then show ?thesis by (auto simp: shown_char_def dumps_char_def json_escapes_def)
  qed (use e True in \<open>auto simp: shown_char_def dumps_char_def\<close>)
next
  case False
  let ?n = "0xD800 + (c - 0x10000) div 1024" and ?k = "0xDC00 + (c - 0x10000) mod 1024"
  have c: "c < 0x110000" using assms by (simp add: valid_point_def)
  then have "(c - 0x10000) div 1024 < 1024" by (simp add: less_mult_imp_div_less)
  then have n: "?n \<le> 0xDBFF" by simp
  have k: "?k \<le> 0xDFFF" using mod_less_divisor [of 1024 "c - 0x10000"] by linarith
  have "0x10000 + (?n - 0xD800) * 1024 + (?k - 0xDC00) = c" using False div_mult_mod_eq [of "c - 0x10000" 1024] by simp
  then show ?thesis using json_scan_pair [of ?n ?k r] n k False by (simp add: shown_char_def dumps_char_def)
qed

lemma shown_char_chars: "valid_point c \<Longrightarrow> list_all cell_char (shown_char c)"
proof -
  assume v: "valid_point c"
  have "c - 0x10000 < 1024 * 1024" using v by (auto simp: valid_point_def)
  then have "(c - 0x10000) div 1024 < 1024" by (rule less_mult_imp_div_less)
  then have "0xD800 + (c - 0x10000) div 1024 < 65536" by simp
  moreover have "0xDC00 + (c - 0x10000) mod 1024 < 65536" using mod_less_divisor [of 1024 "c - 0x10000"] by linarith
  moreover have "list_all cell_char [92, 34]" "list_all cell_char [92, 92]" "list_all cell_char [92, 110]" "list_all cell_char [92, 114]"
    "list_all cell_char [92, 116]" "list_all cell_char [92, 102]" "list_all cell_char [92, 98]" by (simp_all add: cell_char_def)
  moreover have "32 \<le> c \<Longrightarrow> c \<le> 126 \<Longrightarrow> c \<noteq> 124 \<Longrightarrow> c \<noteq> 96 \<Longrightarrow> list_all cell_char [c]" by (simp add: cell_char_def)
  ultimately show ?thesis unfolding shown_char_def dumps_char_def list_all_append
    by (simp only: u_escape_chars split: if_splits) (auto intro: u_escape_chars)
qed

lemma replace_point_append [simp]: "replace_point c new (s @ t) = replace_point c new s @ replace_point c new t"
  by (simp add: replace_point_def)

lemma replace_point_id: "c \<notin> set t \<Longrightarrow> replace_point c new t = t"
  by (induction t) (auto simp: replace_point_def)

lemma replaced_char:
  assumes "valid_point c"
  shows "replace_point 96 (u_escape 96) (replace_point 124 (u_escape 124) (dumps_char c)) = shown_char c"
proof -
  have no: "96 \<notin> set t" "124 \<notin> set t" if "list_all cell_char t" for t using that by (auto simp: list_all_iff cell_char_def)
  show ?thesis
  proof (cases "c = 124 \<or> c = 96")
    case True
    then have "dumps_char c = [c]" by (auto simp: dumps_char_def)
    moreover have "replace_point 96 (u_escape 96) (u_escape 124) = u_escape 124"
      using no [OF u_escape_chars] by (intro replace_point_id) simp
    ultimately show ?thesis using True by (auto simp: shown_char_def replace_point_def [of _ _ "[_]"])
  next
    case False
    then have "shown_char c = dumps_char c" by (simp add: shown_char_def)
    with no [OF shown_char_chars [OF assms]] show ?thesis by (simp add: replace_point_id)
  qed
qed

lemma shown_text_chars:
  assumes "list_all valid_point t"
  shows "shown_text t = 34 # concat (map shown_char t) @ [34]"
proof -
  have "replace_point 96 (u_escape 96) (replace_point 124 (u_escape 124) (concat (map dumps_char t))) = concat (map shown_char t)"
    using assms by (induction t) (simp_all add: replaced_char, simp add: replace_point_def)
  then show ?thesis by (simp add: shown_text_def dumps_text_def replace_point_def)
qed

lemma shown_text_reads_back:
  assumes "list_all valid_point t"
  shows "list_all cell_char (shown_text t)" "hd (shown_text t) = 34" "json_scan (tl (shown_text t)) = Some t"
proof -
  have "list_all cell_char (concat (map shown_char t))" using assms by (induction t) (simp_all add: shown_char_chars)
  then show "list_all cell_char (shown_text t)" by (simp add: shown_text_chars [OF assms] cell_char_def)
  show "hd (shown_text t) = 34" by (simp add: shown_text_chars [OF assms])
  have "json_scan (concat (map shown_char t) @ [34]) = Some t" using assms by (induction t) (simp_all add: json_scan_shown)
  then show "json_scan (tl (shown_text t)) = Some t" by (simp add: shown_text_chars [OF assms])
qed

text \<open>What UTF-8 decodes to can be shown.\<close>

lemma point2: "n < 32 \<Longrightarrow> b < 64 \<Longrightarrow> valid_point (n * 64 + b)"
  by (simp add: valid_point_def)

lemma point3: "n < 16 \<Longrightarrow> b < 64 \<Longrightarrow> c < 64 \<Longrightarrow> n = 13 \<longrightarrow> b < 32 \<Longrightarrow> valid_point (n * 4096 + b * 64 + c)"
proof -
  assume a: "n < 16" "b < 64" "c < 64" "n = 13 \<longrightarrow> b < 32"
  consider "n \<le> 12" | "n = 13" | "14 \<le> n" by linarith
  then show ?thesis using a by cases (simp_all add: valid_point_def)
qed

lemma point4: "n < 5 \<Longrightarrow> b < 64 \<Longrightarrow> c < 64 \<Longrightarrow> d < 64 \<Longrightarrow> n = 0 \<longrightarrow> 16 \<le> b \<Longrightarrow> n = 4 \<longrightarrow> b < 16 \<Longrightarrow>
    valid_point (n * 262144 + b * 4096 + c * 64 + d)"
proof -
  assume a: "n < 5" "b < 64" "c < 64" "d < 64" "n = 0 \<longrightarrow> 16 \<le> b" "n = 4 \<longrightarrow> b < 16"
  consider "n = 0" | "n \<ge> 1" "n \<le> 3" | "n = 4" using a(1) by linarith
  then show ?thesis using a by cases (simp_all add: valid_point_def)
qed

lemma utf8_points: "utf8_decode bs = Some t \<Longrightarrow> list_all valid_point t"
proof (induction bs arbitrary: t rule: utf8_decode.induct)
  case (2 a r)
  let ?n = "unat a"
  have c: "cont_byte b \<Longrightarrow> unat b - 128 < 64" for b by (auto simp: cont_byte_def)
  consider "?n < 128" | "194 \<le> ?n \<and> ?n < 224" | "224 \<le> ?n \<and> ?n < 240" | "240 \<le> ?n \<and> ?n < 245"
    using "2.prems" by (auto simp: Let_def split: if_splits)
  then show ?case
  proof cases
    case 1
    then show ?thesis using 2 by (auto simp: valid_point_def)
  next
    case 2
    then obtain b r1 t1 where "r = b # r1" "cont_byte b" "utf8_decode r1 = Some t1" "t = ((?n - 192) * 64 + (unat b - 128)) # t1"
      using "2.prems" by (auto simp: Let_def split: list.splits if_splits)
    moreover have "valid_point ((?n - 192) * 64 + (unat b - 128))" if "cont_byte b" for b using 2 c [OF that] by (intro point2) auto
    ultimately show ?thesis using "2.IH"(2) 2 by simp
  next
    case 3
    then obtain b d r2 t2 where r: "r = b # d # r2" "cont_byte b" "cont_byte d" "?n = 224 \<longrightarrow> 160 \<le> unat b" "?n = 237 \<longrightarrow> unat b < 160" "utf8_decode r2 = Some t2"
      "t = ((?n - 224) * 4096 + (unat b - 128) * 64 + (unat d - 128)) # t2"
      using "2.prems" by (auto simp: Let_def split: list.splits if_splits)
    then have "valid_point ((?n - 224) * 4096 + (unat b - 128) * 64 + (unat d - 128))" using 3 c by (intro point3) auto
    with r show ?thesis using "2.IH"(3) 3 by simp
  next
    case 4
    then obtain b d e r3 t3 where r: "r = b # d # e # r3" "cont_byte b" "cont_byte d" "cont_byte e" "?n = 240 \<longrightarrow> 144 \<le> unat b"
      "?n = 244 \<longrightarrow> unat b < 144" "utf8_decode r3 = Some t3"
      "t = ((?n - 240) * 262144 + (unat b - 128) * 4096 + (unat d - 128) * 64 + (unat e - 128)) # t3"
      using "2.prems" by (auto simp: Let_def split: list.splits if_splits)
    then have "valid_point ((?n - 240) * 262144 + (unat b - 128) * 4096 + (unat d - 128) * 64 + (unat e - 128))" using 4 c by (intro point4) auto
    with r show ?thesis using "2.IH"(4) 4 by simp
  qed
qed simp

section \<open>What is exported\<close>

definition transport_items :: "jval \<Rightarrow> jval list result" where
  "transport_items test =
     ebind (jfield test ''batches'') (\<lambda>b. ebind (elements b) (\<lambda>bs.
       ebind (emap (\<lambda>b. ebind (jfield b ''transport'') elements) bs) (\<lambda>is. Inr (concat is))))"

lemma emap_append: "emap f (xs @ ys) = ebind (emap f xs) (\<lambda>as. ebind (emap f ys) (\<lambda>bs. Inr (as @ bs)))"
  by (induction xs) (simp_all add: ebind_assoc)

lemma emap_nested:
  "emap (\<lambda>x. ebind (g x) (emap f)) xs = Inr rs \<Longrightarrow> \<exists>is. emap g xs = Inr is \<and> emap f (concat is) = Inr (concat rs)"
proof (induction xs arbitrary: rs)
  case (Cons x xs)
  then obtain i r rs' where "g x = Inr i" "emap f i = Inr r" "emap (\<lambda>x. ebind (g x) (emap f)) xs = Inr rs'" "rs = r # rs'"
    by (auto simp: err_simps)
  with Cons.IH show ?case by (fastforce simp: emap_append)
qed simp

lemma receipt_items:
  assumes "receipt_records program test = Inr recs"
  shows "\<exists>items. transport_items test = Inr items \<and> emap (decoded_item program) items = Inr recs"
proof -
  obtain b bs rs where b: "jfield test ''batches'' = Inr b" "elements b = Inr bs" "emap (batch_records program) bs = Inr rs" "recs = concat rs"
    using assms by (auto simp: receipt_records_def err_simps)
  have "batch_records program = (\<lambda>x. ebind (ebind (jfield x ''transport'') elements) (emap (decoded_item program)))"
    by (simp add: fun_eq_iff batch_records_def ebind_assoc)
  with b(3) emap_nested [of "\<lambda>x. ebind (jfield x ''transport'') elements" "decoded_item program" bs rs] obtain "is" where
    "emap (\<lambda>x. ebind (jfield x ''transport'') elements) bs = Inr is" "emap (decoded_item program) (concat is) = Inr (concat rs)" by auto
  with b show ?thesis by (simp add: transport_items_def)
qed

definition exported :: "jval \<Rightarrow> jval \<Rightarrow> method_observation \<Rightarrow> bool" where
  "exported program item ob =
     (\<exists>p e. payload_of program item = Inr p \<and> method_decode p = Inr e \<and> ob_record ob = e \<and>
        (case ob_value ob of
           None \<Rightarrow> v_status_name e \<notin> {''complete'', ''truncated''}
         | Some v \<Rightarrow>
             v_status_name e \<in> {''complete'', ''truncated''} \<and>
             sv_original v = u32 p 64 \<and> sv_copied v = u32 p 68 \<and>
             sv_hex v = to_hex (take (nat (u32 p 68)) (pyslice 80 144 p)) \<and>
             sv_text v = utf8_decode (take (nat (u32 p 68)) (pyslice 80 144 p)) \<and>
             pred_option (\<lambda>t. value_cell ob = 96 # shown_text t @ [96] \<and> list_all cell_char (shown_text t) \<and>
                json_scan (tl (shown_text t)) = Some t) (sv_text v)))"

lemma observed_exported:
  assumes "decoded_item program item = Inr (p, e)"
  shows "exported program item (observe_record e)"
proof -
  have d: "payload_of program item = Inr p" "method_decode p = Inr e" using assms by (auto simp: decoded_item_def err_simps)
  let ?bs = "take (nat (u32 p 68)) (pyslice 80 144 p)"
  have l: "copied_length (v_rec e) = u32 p 68" "original_length (v_rec e) = u32 p 64"
    using method_decodeD(2) [OF d(2)] by (simp_all add: unpack_value_rec_def)
  have h: "value_hex e = to_hex ?bs" using method_decodeD(3) [OF d(2)] by (simp add: l value_field_def)
  have "list_all cell_char (shown_text t) \<and> json_scan (tl (shown_text t)) = Some t" if "utf8_decode ?bs = Some t" for t
    using shown_text_reads_back [OF utf8_points [OF that]] by blast
  with d h l show ?thesis
    by (cases "utf8_decode ?bs") (auto simp: exported_def observe_record_def value_cell_def)
qed

text \<open>
  C40. The export is the ring's content. Where a receipt is exported there is one observation per captured transport record, in order; its
  record is the decoded payload of that transport record, and it has a value exactly where the status is complete or truncated. The value
  carries the two lengths that the payload has at its offsets 64 and 68, the hexadecimal digits of as many bytes from offset 80 as the second of
  them says (of at most 64), and the text those bytes decode to, if any. A value that is text stands in its cell of the table in a notation of printable ASCII characters that cannot end the
  cell, and that notation reads back as the text.
\<close>

theorem export_exact:
  assumes "export loads name raw receipt = Inr doc"
  shows "\<exists>s test program items. jpath receipt [''files'', ''result.json''] = Inr (JStr s) \<and> loads s = Inr test \<and>
    jpath receipt [''program_build'', ''programs'', ''method''] = Inr program \<and>
    transport_items test = Inr items \<and> list_all2 (exported program) items (ex_observations doc)"
proof -
  obtain t where t: "jpath receipt [''files'', ''result.json''] = Inr t" using assms by (auto simp: export_def err_simps simp del: jpath.simps)
  obtain s test program recs where e: "jpath receipt [''files'', ''result.json''] = Inr (JStr s)" "loads s = Inr test"
    "jpath receipt [''program_build'', ''programs'', ''method''] = Inr program" "receipt_records program test = Inr recs"
    "ex_observations doc = map (observe_record \<circ> snd) recs"
    using assms t by (cases t) (auto simp: export_def err_simps Let_def simp del: jpath.simps)
  obtain items where i: "transport_items test = Inr items" "emap (decoded_item program) items = Inr recs"
    using receipt_items [OF e(4)] by blast
  have "list_all2 (exported program) items (map (observe_record \<circ> snd) recs)"
  proof (rule list_all2_all_nthI)
    show "length items = length (map (observe_record \<circ> snd) recs)" using emap_length [OF i(2)] by simp
    fix n assume n: "n < length items"
    then have "decoded_item program (items ! n) = Inr (fst (recs ! n), snd (recs ! n))" using emap_nth [OF i(2)] by simp
    from observed_exported [OF this] n emap_length [OF i(2)] show "exported program (items ! n) (map (observe_record \<circ> snd) recs ! n)" by simp
  qed
  with e i show ?thesis by auto
qed

lemma py_eq_events: "py_eq (JArr (map (JObj \<circ> method_fields) es)) (JArr (map (JObj \<circ> method_fields) es))"
proof (rule py_eq_array, clarsimp)
  fix e
  show "py_eq (JObj (method_fields e)) (JObj (method_fields e))"
    by (rule py_eq_object) (simp_all add: method_fields_def Let_def py_eq_atom)
qed

text \<open>A receipt with one record, whose value is the text \<^verbatim>\<open>a|\<close>.\<close>

definition sample_payload :: bytes where
  "sample_payload = le_bytes 4 0x4A4D4554 @ le_bytes 4 1 @ replicate 48 0 @ le_bytes 4 1 @ le_bytes 4 0 @ le_bytes 4 2 @ le_bytes 4 2 @
     replicate 8 0 @ [97, 124] @ replicate 62 0"

definition sample_event :: jval where
  "sample_event = (case method_decode sample_payload of Inr e \<Rightarrow> JObj (method_fields e) | Inl _ \<Rightarrow> JNull)"

definition sample_test :: jval where
  "sample_test = JObj [(''passed'', JBool True),
     (''batches'', JArr [JObj [(''transport'', JArr [JObj [(''data'', JStr (to_hex sample_payload)), (''hook'', JStr ''prog''), (''slot'', JInt 5), (''len'', JInt 144)]])]]),
     (''events'', JArr [sample_event]), (''comparisons'', JArr [JObj [(''events'', JArr [sample_event])]])]"

definition sample_receipt :: jval where
  "sample_receipt = JObj [(''files'', JObj [(''result.json'', JStr ''t'')]), (''passed'', JBool True),
     (''program_build'', JObj [(''programs'', JObj [(''method'', JObj [(''slot'', JInt 5), (''section'', JStr ''s''), (''sha256'', JStr ''h'')])]), (''runtime'', JNull)])]"

definition sample_program :: jval where
  "sample_program = JObj [(''slot'', JInt 5), (''section'', JStr ''s''), (''sha256'', JStr ''h'')]"

lemma sample_decoded:
  "ok_with (\<lambda>e. value_cell (observe_record e) = utext_of (''`'' @ [CHR 0x22] @ ''a'' @ [CHR 0x5C] @ ''u007c'' @ [CHR 0x22] @ ''`'')) (method_decode sample_payload)"
  by code_simp

lemma sample_records:
  assumes "method_decode sample_payload = Inr e"
  shows "receipt_records sample_program sample_test = Inr [(sample_payload, e)]"
proof -
  have "length sample_payload = 144" by (simp add: sample_payload_def)
  with assms show ?thesis
    by (simp add: receipt_records_def sample_test_def jfield_def jitem_def elements_def batch_records_def decoded_item_def payload_of_def
        py_eq_atom sample_program_def)
qed

theorem export_exact_witness:
  "\<exists>doc items. export (\<lambda>_. Inr sample_test) ''r'' [] sample_receipt = Inr doc \<and> transport_items sample_test = Inr items \<and>
     list_all2 (exported sample_program) items (ex_observations doc) \<and>
     map value_cell (ex_observations doc) = [utext_of (''`'' @ [CHR 0x22] @ ''a'' @ [CHR 0x5C] @ ''u007c'' @ [CHR 0x22] @ ''`'')]"
proof -
  obtain e where m: "method_decode sample_payload = Inr e"
    "value_cell (observe_record e) = utext_of (''`'' @ [CHR 0x22] @ ''a'' @ [CHR 0x5C] @ ''u007c'' @ [CHR 0x22] @ ''`'')"
    using sample_decoded unfolding ok_with_iff by blast
  let ?rs = "[(sample_payload, e)]"
  have rs: "receipt_records sample_program sample_test = Inr ?rs" "map (JObj \<circ> method_fields \<circ> snd) ?rs = [sample_event]"
    using sample_records [OF m(1)] m(1) by (simp_all add: sample_event_def)
  have r: "jpath sample_receipt [''files'', ''result.json''] = Inr (JStr ''t'')" "jfield sample_receipt ''passed'' = Inr (JBool True)"
    "jpath sample_receipt [''program_build'', ''programs'', ''method''] = Inr sample_program" "jpath sample_receipt [''program_build'', ''runtime''] = Inr JNull"
    "jfield sample_program ''section'' = Inr (JStr ''s'')" "jfield sample_program ''sha256'' = Inr (JStr ''h'')"
    by (simp_all add: sample_receipt_def sample_program_def jfield_def jitem_def)
  have t: "jfield sample_test ''passed'' = Inr (JBool True)" "jfield sample_test ''events'' = Inr (JArr [sample_event])"
    "case_events sample_test = Inr [sample_event]" "cases_without sample_test = Inr []"
    by (simp_all add: sample_test_def case_events_def cases_without_def elements_def jfield_def jitem_def)
  have eq: "py_eq (JArr [sample_event]) (JArr [sample_event])"
    using rs(2) py_eq_events [of "[e]"] by simp
  let ?doc = "\<lparr>ex_source = ''r'', ex_sha256 = to_hex (sha256 []), ex_runtime = JNull, ex_hook = JStr ''s'', ex_program_sha256 = JStr ''h'',
    ex_observations = map (observe_record \<circ> snd) ?rs, ex_without = []\<rparr>"
  have ex: "export (\<lambda>_. Inr sample_test) ''r'' [] sample_receipt = Inr ?doc"
    using r t rs(1,2) eq by (simp add: export_def Let_def del: jpath.simps)
  from export_exact [OF ex] obtain items where "transport_items sample_test = Inr items"
    "list_all2 (exported sample_program) items (ex_observations ?doc)" using r by auto
  with ex m(2) show ?thesis by (intro exI [of _ ?doc] exI [of _ items]) simp
qed

end
