(* ===== verification/Generated_Headers.thy ===== *)
theory Generated_Headers
  imports Sign_Shield Py_Lines
begin

text \<open>
  Files generated for the C build: the wrapped trampoline (\<^verbatim>\<open>substrate/mk_tramp_asm.py\<close>), the built-in shield
  (\<^verbatim>\<open>mk_shield_blob.py\<close>) and the public key a build trusts (\<^verbatim>\<open>gen_sig_pubkey.py\<close>). What a compiler makes of them is read by \<open>c_text\<close> (adjacent string
  literals), \<open>code_lines\<close> (lines without comments) and \<open>array_of\<close> (an array of bytes). Files, the compiler and openssl are inputs; argument parsing and printed lines are not modelled.
\<close>

definition LF :: char where "LF = CHR 0x0A"
definition DQ :: char where "DQ = CHR 0x22"
definition BSL :: char where "BSL = CHR 0x5C"

text \<open>\<^verbatim>\<open>s.replace(sub, new)\<close> and \<^verbatim>\<open>s.count(sub)\<close> for a text that is not empty.\<close>

fun str_replace :: "string \<Rightarrow> string \<Rightarrow> string \<Rightarrow> string" where
  "str_replace sub new [] = []"
| "str_replace sub new (c # cs) =
     (if is_prefix sub (c # cs) then new @ str_replace sub new (drop (length sub - 1) cs) else c # str_replace sub new cs)"

fun str_count :: "string \<Rightarrow> string \<Rightarrow> nat" where
  "str_count sub [] = 0"
| "str_count sub (c # cs) =
     (if is_prefix sub (c # cs) then 1 + str_count sub (drop (length sub - 1) cs) else str_count sub cs)"

section \<open>The trampoline\<close>

definition GUARD :: string where "GUARD = ''#if defined(__x86_64__)''"

definition PREAMBLE :: string where
  "PREAMBLE = join [LF]
     [''/* ls_tramp_asm.c --- the validated trampoline_x86_64.S, wrapped in a file-scope'',
      ''   asm block because the TMM filelist compiles C only.'',
      '''',
      ''   GENERATED from trampoline_x86_64.S by `make tramp-asm`. Do not hand-edit: on'',
      ''   2026-08-17 Phase 3 was applied to THIS file and not to the .S, so the two'',
      ''   disagreed and the next regeneration would have silently reverted the change.'',
      ''   check-tramp-mirror fails the build if they drift. */'',
      GUARD, ''__asm__('', '''']"

definition EPILOGUE :: string where
  "EPILOGUE = '');'' @ [LF] @ ''#endif /* __x86_64__ */'' @ [LF]"

definition wrap :: "string \<Rightarrow> string" where
  "wrap line = [DQ] @ str_replace [DQ] [BSL, DQ] (str_replace [BSL] [BSL, BSL] line) @ [BSL, CHR ''n'', DQ, LF]"

text \<open>\<^verbatim>\<open>main\<close>: the file it writes, then its checks.\<close>

definition tramp_main :: "string \<Rightarrow> string \<times> unit result" where
  "tramp_main src =
     (let out = PREAMBLE @ concat (map wrap (split_on LF src)) @ EPILOGUE in
      (out,
       if \<not> contains GUARD out then Inl (SystemExit ''no #if guard'')
       else if str_count ''__asm__('' out \<noteq> 1 then Inl (SystemExit ''__asm__ blocks, expected 1'')
       else Inr ()))"

text \<open>Adjacent string literals with the escapes that are written; the flag says that a literal is open.\<close>

fun c_text :: "bool \<Rightarrow> string \<Rightarrow> string option" where
  "c_text lit [] = (if lit then None else Some [])"
| "c_text lit [c] =
     (if lit then (if c = DQ then Some [] else None) else if is_space c then Some [] else None)"
| "c_text lit (c # e # r) =
     (if \<not> lit then (if is_space c then c_text False (e # r) else if c = DQ then c_text True (e # r) else None)
      else if c = DQ then c_text False (e # r)
      else if c = LF then None
      else if c = BSL then
        (if e = CHR ''n'' then map_option (Cons LF) (c_text True r)
         else if e = BSL \<or> e = DQ then map_option (Cons e) (c_text True r) else None)
      else map_option (Cons c) (c_text True (e # r)))"

section \<open>Arrays of bytes\<close>

definition hex02 :: "byte \<Rightarrow> string" where
  "hex02 b = ''0x'' @ hex_byte b"

definition hex_token :: "string \<Rightarrow> byte option" where
  "hex_token s =
     (case s of
        [a, b, c, d] \<Rightarrow>
          if [a, b] = ''0x'' then (case (hex_val c, hex_val d) of (Some x, Some y) \<Rightarrow> Some (word_of_nat (16 * x + y)) | _ \<Rightarrow> None) else None
      | _ \<Rightarrow> None)"

fun all_some :: "'a option list \<Rightarrow> 'a list option" where
  "all_some [] = Some []"
| "all_some (x # xs) = (case (x, all_some xs) of (Some y, Some ys) \<Rightarrow> Some (y # ys) | _ \<Rightarrow> None)"

definition init_bytes :: "string \<Rightarrow> bytes option" where
  "init_bytes s = all_some (map hex_token (filter (\<lambda>t. t \<noteq> []) (split_on CHR '','' (filter (\<lambda>c. \<not> is_space c) s))))"

definition array_of :: "string \<Rightarrow> string list \<Rightarrow> bytes option" where
  "array_of decl ls = init_bytes (join [LF] (takeWhile (\<lambda>l. l \<noteq> ''};'') (tl (dropWhile (\<lambda>l. l \<noteq> decl) ls))))"

text \<open>What the generators of arrays promise: one declaration, its rows, its end.\<close>

locale array_header =
  fixes emit :: "'a \<Rightarrow> bytes \<Rightarrow> string list" and decl :: string and ok :: "'a \<Rightarrow> bytes \<Rightarrow> bool"
  assumes shape: "ok a data \<Longrightarrow> \<exists>pre rows post. emit a data = pre @ [decl] @ rows @ [''};''] @ post \<and>
      decl \<notin> set pre \<and> ''};'' \<notin> set rows \<and> init_bytes (join [LF] rows) = Some data"
begin

lemma read_back:
  assumes "ok a data"
  shows "array_of decl (emit a data) = Some data"
proof -
  obtain pre rows post where s: "emit a data = pre @ [decl] @ rows @ [''};''] @ post" "decl \<notin> set pre" "''};'' \<notin> set rows"
    "init_bytes (join [LF] rows) = Some data" using shape [OF assms] by blast
  have "dropWhile (\<lambda>l. l \<noteq> decl) (emit a data) = decl # rows @ [''};''] @ post"
    using s(2) unfolding s(1) by (subst dropWhile_append2) auto
  moreover have "takeWhile (\<lambda>l. l \<noteq> ''};'') (rows @ [''};''] @ post) = rows"
    using s(3) by (subst takeWhile_append2) auto
  ultimately show ?thesis using s(4) by (simp add: array_of_def)
qed

end

lemma hex_token_hex02: "hex_token (hex02 b) = Some b"
proof -
  have "unat b div 16 < 16" "unat b mod 16 < 16" using unat_byte_less [of b] by auto
  then show ?thesis using hex_char_props by (simp add: hex_token_def hex02_def hex_byte_def)
qed

lemma hex02_clean: "CHR '','' \<notin> set (hex02 b)" "\<forall>c \<in> set (hex02 b). \<not> is_space c" "hex02 b \<noteq> []"
proof -
  have "unat b div 16 < 16" "unat b mod 16 < 16" using unat_byte_less [of b] by auto
  then show "\<forall>c \<in> set (hex02 b). \<not> is_space c" using hex_char_clean by (auto simp: hex02_def hex_byte_def is_space_def is_ascii_space_def)
  have h: "hex_char n \<noteq> CHR '',''" if "n < 16" for n using hex_char_props [OF that] by (auto simp: hex_val_def)
  from h [OF \<open>unat b div 16 < 16\<close>] h [OF \<open>unat b mod 16 < 16\<close>] show "CHR '','' \<notin> set (hex02 b)" by (auto simp: hex02_def hex_byte_def)
qed (simp add: hex02_def)

text \<open>Bytes with a comma behind each, or between them, whatever white space stands around.\<close>

lemma tokens_read: "all_some (map hex_token (map hex02 data)) = Some data"
  by (induction data) (simp_all add: hex_token_hex02)

lemma init_bytes_commas:
  assumes "filter (\<lambda>c. \<not> is_space c) s = concat (map (\<lambda>b. hex02 b @ '','') data)"
  shows "init_bytes s = Some data"
proof -
  have "split_on CHR '','' (concat (map (\<lambda>b. hex02 b @ '','') data)) = map hex02 data @ [[]]"
    by (induction data) (simp_all add: split_on_append hex02_clean)
  moreover have "filter (\<lambda>t. t \<noteq> []) (map hex02 data) = map hex02 data" by (simp add: filter_id_conv hex02_clean)
  ultimately show ?thesis using assms tokens_read by (simp add: init_bytes_def)
qed

lemma init_bytes_between:
  assumes "filter (\<lambda>c. \<not> is_space c) s = join '','' (map hex02 data)"
  shows "init_bytes s = Some data"
proof (cases "data = []")
  case False
  have "split_on CHR '','' (join '','' (map hex02 data)) = map hex02 data"
    using False hex02_clean by (intro split_on_join) auto
  moreover have "filter (\<lambda>t. t \<noteq> []) (map hex02 data) = map hex02 data" by (simp add: filter_id_conv hex02_clean)
  ultimately show ?thesis using assms tokens_read by (simp add: init_bytes_def)
qed (use assms in \<open>simp add: init_bytes_def\<close>)

section \<open>The trampoline reads back\<close>

lemma replace_single: "str_replace [c] new s = concat (map (\<lambda>x. if x = c then new else [x]) s)"
  by (induction s) auto

definition esc :: "char \<Rightarrow> string" where
  "esc x = (if x = BSL then [BSL, BSL] else if x = DQ then [BSL, DQ] else [x])"

lemma chars_differ [simp]: "BSL \<noteq> DQ" "DQ \<noteq> BSL" "LF \<noteq> DQ" "DQ \<noteq> LF" "LF \<noteq> BSL" "BSL \<noteq> LF" "\<not> is_space DQ" "is_space LF" "BSL \<noteq> CHR ''n''" "DQ \<noteq> CHR ''n''"
  by (simp_all add: BSL_def DQ_def LF_def is_space_def is_ascii_space_def)

lemma wrap_esc: "wrap line = [DQ] @ concat (map esc line) @ [BSL, CHR ''n'', DQ, LF]"
proof -
  have "str_replace [DQ] [BSL, DQ] (str_replace [BSL] [BSL, BSL] line) = concat (map esc line)"
    unfolding replace_single by (induction line) (auto simp: esc_def)
  then show ?thesis by (simp add: wrap_def)
qed

lemma c_text_open: "r \<noteq> [] \<Longrightarrow> c_text False (DQ # r) = c_text True r" "r \<noteq> [] \<Longrightarrow> c_text True (DQ # r) = c_text False r"
    "c_text False (LF # r) = c_text False r" "c_text True (BSL # CHR ''n'' # r) = map_option (Cons LF) (c_text True r)"
  by (cases r; simp)+

lemma c_text_esc: "x \<noteq> LF \<Longrightarrow> r \<noteq> [] \<Longrightarrow> c_text True (esc x @ r) = map_option (Cons x) (c_text True r)"
  by (cases r) (auto simp: esc_def)

lemma c_text_escs: "LF \<notin> set l \<Longrightarrow> r \<noteq> [] \<Longrightarrow> c_text True (concat (map esc l) @ r) = map_option ((@) l) (c_text True r)"
  by (induction l; cases "c_text True r") (auto simp: c_text_esc)

lemma c_text_wrap: "LF \<notin> set l \<Longrightarrow> c_text False (wrap l @ r) = map_option ((@) (l @ [LF])) (c_text False r)"
  by (cases "c_text False r") (simp_all add: wrap_esc c_text_open c_text_escs)

lemma split_on_parts: "l \<in> set (split_on c s) \<Longrightarrow> c \<notin> set l"
proof (induction s arbitrary: l)
  case (Cons x s)
  obtain y ys where "split_on c s = y # ys" by (cases "split_on c s") auto
  with Cons show ?case by (auto split: if_splits)
qed simp

lemma lines_of_split: "concat (map (\<lambda>l. l @ [c]) (split_on c s)) = s @ [c]"
proof (induction s)
  case (Cons x s)
  obtain y ys where "split_on c s = y # ys" by (cases "split_on c s") auto
  with Cons show ?case by auto
qed simp

text \<open>
  The wrapped trampoline is the trampoline: the file is the fixed text around string literals that spell the source and one line
  feed, byte for byte, and the generator is content exactly where the file has the guard and one block of assembly.
\<close>

theorem trampoline_reads_back:
  assumes "tramp_main src = (out, r)"
  shows "\<exists>lits. out = PREAMBLE @ lits @ EPILOGUE \<and> c_text False lits = Some (src @ [LF]) \<and>
    (r = Inr () \<longleftrightarrow> contains GUARD out \<and> str_count ''__asm__('' out = 1)"
proof -
  have "c_text False (concat (map wrap ls)) = Some (concat (map (\<lambda>l. l @ [LF]) ls))" if "\<forall>l \<in> set ls. LF \<notin> set l" for ls
    using that by (induction ls) (simp_all add: c_text_wrap)
  then have "c_text False (concat (map wrap (split_on LF src))) = Some (src @ [LF])" using split_on_parts by (metis lines_of_split)
  then show ?thesis using assms by (auto simp: tramp_main_def Let_def split: if_splits)
qed

text \<open>A refused file has been written: the comment in the source says that none is left behind.\<close>

lemma refused_file_left:
  "tramp_main ''__asm__('' = (PREAMBLE @ wrap ''__asm__('' @ EPILOGUE, Inl (SystemExit ''__asm__ blocks, expected 1''))"
  by code_simp

section \<open>The public key\<close>

text \<open>\<^verbatim>\<open>raw_from_pem\<close>: the exit code and output of openssl on a public key, and on a private one.\<close>

definition raw_from_pem :: "int \<times> bytes \<Rightarrow> int \<times> bytes \<Rightarrow> bytes result" where
  "raw_from_pem pub priv =
     (let der = if fst pub \<noteq> 0 then priv else pub in
      if fst der \<noteq> 0 then Inl (SystemExit ''openssl could not read a key'')
      else if length (snd der) \<noteq> 44 then Inl (SystemExit ''expected a 44-byte Ed25519 SubjectPublicKeyInfo'')
      else Inr (drop 12 (snd der)))"

definition KEY_DECL :: string where
  "KEY_DECL = ''static const uint8_t ls_sig_pubkey[LS_SIG_PUBKEY_LEN] = {''"

definition key_rows :: "bytes \<Rightarrow> string list" where
  "key_rows raw = map (\<lambda>i. ''    '' @ join '' '' (map (\<lambda>b. hex02 b @ '','') (pyslice i (i + 8) raw))) [0, 8, 16, 24]"

record key_note =
  kn_none :: bool
  kn_origin :: string
  kn_fp :: string

definition key_comment :: "key_note \<Rightarrow> string list" where
  "key_comment n =
     [''/* GENERATED by substrate/gen_sig_pubkey.py --- do not edit.'', '' *'',
      '' * The Ed25519 public key this build will accept signatures from.'',
      '' *   origin      : '' @ kn_origin n, '' *   sha256(key) : '' @ kn_fp n, '' *''] @
     (if kn_none n then
        ['' * THIS BUILD HAS NO KEY, so ls_sig_verify refuses every load with LS_SIG_NO_PUBKEY.'',
         '' * That is the correct default for an unconfigured tree: a build that cannot verify'',
         '' * must not accept. An all-zero key is treated as ABSENT rather than as a key,'',
         '' * because zero is a valid Ed25519 point and would otherwise verify nothing while'',
         '' * looking configured.'']
      else
        ['' * Regenerate whenever the signing key changes. The fingerprint above is what an'',
         '' * operator compares against the signing service'' @ [CHR 0x27] @ ''s key --- if they differ, this'',
         '' * build trusts something else.''])"

definition key_lines :: "key_note \<Rightarrow> bytes \<Rightarrow> string list" where
  "key_lines n raw =
     key_comment n @
     ['' */'', ''#ifndef LS_SIG_PUBKEY_H'', ''#define LS_SIG_PUBKEY_H'', [], ''#include <stdint.h>'', [], ''#define LS_SIG_PUBKEY_LEN 32u'', [],
      ''/* Offsets into struct shield_binding, asserted against the ABI in check_sig.c so'',
      '' * this header cannot drift from shield_abi.h without a build failure. */'',
      ''#define LS_SIG_BINDING_LEN      112u'', ''#define LS_SIG_BINDING_HASH_OFF   0u'', [], KEY_DECL] @
     key_rows raw @ [''};'', [], ''#endif /* LS_SIG_PUBKEY_H */'']"

text \<open>\<^verbatim>\<open>main\<close>: without a key and without \<^verbatim>\<open>--none\<close> it refuses.\<close>

definition pubkey_main :: "bool \<Rightarrow> string option \<Rightarrow> int \<times> bytes \<Rightarrow> int \<times> bytes \<Rightarrow> string result" where
  "pubkey_main none key pub priv =
     ebind (if none then Inr (\<lparr>kn_none = True, kn_origin = ''no key --- this build verifies nothing'', kn_fp = ''none''\<rparr>, replicate 32 0)
            else if key = None \<or> key = Some [] then Inl (SystemExit ''give a key file, or --none to build a tree that refuses every load'')
            else ebind (raw_from_pem pub priv) (\<lambda>raw.
                   Inr (\<lparr>kn_none = False, kn_origin = the key, kn_fp = to_hex (sha256 raw)\<rparr>, raw)))
       (\<lambda>(n, raw). Inr (join [LF] (key_lines n raw) @ [LF]))"

section \<open>The built-in shield\<close>

definition BLOB_DECL :: string where
  "BLOB_DECL = ''static const unsigned char ls_shield_blob[] = {''"

record blob_names =
  bl_source :: string
  bl_section :: string
  bl_function :: string

text \<open>Rows of twelve bytes, as lines: all but the last end with a comma.\<close>

function rows12 :: "bytes \<Rightarrow> string list" where
  "rows12 data = (if data = [] then [] else (''    '' @ join '', '' (map hex02 (take 12 data))) # rows12 (drop 12 data))"
  by pat_completeness auto
termination by (relation "measure length") auto

declare rows12.simps [simp del]

definition blob_body :: "bytes \<Rightarrow> string" where
  "blob_body data = join ('','' @ [LF]) (rows12 data)"

definition BLOB_NOTE :: "string list" where
  "BLOB_NOTE =
     ['' *'', '' * Regenerate with:  make -C substrate shield-blob'', '' *'',
      '' * BOTH identities are here on purpose. PREVAIL proves a SECTION and uBPF'',
      '' * runs a SYMBOL; ls_vm_reload refuses a program whose section does not'',
      '' * match the hook it was submitted under (finding O14). Changing one of'',
      '' * these without the other makes TMM refuse its own built-in shield at'',
      '' * boot --- which is the intended behaviour, not a bug.'', '' *'',
      '' * This blob is a development convenience and a boot self-test. Shipping a'',
      '' * shield this way would make it a rebuild, which is the property this'',
      '' * project exists to remove. The socket load path is the real mechanism.'', '' */'',
      ''#ifndef LS_SHIELD_BLOB_H'', ''#define LS_SHIELD_BLOB_H'', []]"

definition source_line :: "blob_names \<Rightarrow> string" where
  "source_line n = '' * The shield TMM arms at startup, as bytes. Source: '' @ bl_source n"

definition count_line :: "nat \<Rightarrow> string" where
  "count_line len = '' * ('' @ str_nat len @ '' bytes of ELF, compiled with clang -O2 -g -target bpf).''"

definition section_line :: "blob_names \<Rightarrow> string" where
  "section_line n = ''#define LS_SHIELD_SECTION   '' @ [DQ] @ bl_section n @ [DQ]"

definition function_line :: "blob_names \<Rightarrow> string" where
  "function_line n = ''#define LS_SHIELD_FUNCTION  '' @ [DQ] @ bl_function n @ [DQ]"

definition blob_pre :: "blob_names \<Rightarrow> nat \<Rightarrow> string list" where
  "blob_pre n len =
     [''/* GENERATED by substrate/mk_shield_blob.py --- do not hand-edit.'', '' *'', source_line n, count_line len] @ BLOB_NOTE @
     [section_line n, function_line n, []]"

definition blob_template :: "blob_names \<Rightarrow> nat \<Rightarrow> string list" where
  "blob_template n len = blob_pre n len @ [BLOB_DECL, ''__BODY__'', ''};'', [], ''#endif /* LS_SHIELD_BLOB_H */'']"

text \<open>\<^verbatim>\<open>emit\<close>. The placeholder has no line feed, so it is replaced line by line.\<close>

definition blob_text :: "blob_names \<Rightarrow> bytes \<Rightarrow> string" where
  "blob_text n data = join [LF] (map (str_replace ''__BODY__'' (blob_body data)) (blob_template n (length data))) @ [LF]"

definition blob_main :: "bool \<Rightarrow> bytes option \<Rightarrow> bool \<Rightarrow> string \<Rightarrow> string \<Rightarrow> string \<Rightarrow> string option \<times> int" where
  "blob_main has_source built has_out source hook func =
     (if \<not> has_source then (None, 2)
      else case built of
        None \<Rightarrow> (None, if has_out then 0 else 3)
      | Some data \<Rightarrow> (Some (blob_text \<lparr>bl_source = source, bl_section = ''fentry/'' @ hook, bl_function = func\<rparr> data), 0))"

section \<open>The arrays read back\<close>

lemma join_Nil_sep: "join [] xs = concat xs"
  by (induction xs rule: induct_list012) auto

lemma filter_join: "filter P (join sep xs) = join (filter P sep) (map (filter P) xs)"
  by (induction xs rule: induct_list012) auto

lemma join_append: "xs \<noteq> [] \<Longrightarrow> ys \<noteq> [] \<Longrightarrow> join s (xs @ ys) = join s xs @ s @ join s ys"
  by (induction xs rule: induct_list012) (auto simp: neq_Nil_conv)

lemma join_nested: "\<forall>xs \<in> set xss. xs \<noteq> [] \<Longrightarrow> join s (map (join s) xss) = join s (concat xss)"
  by (induction xss rule: induct_list012) (auto simp: join_append)

lemma join_insert: "rs \<noteq> [] \<Longrightarrow> join s (pre @ [join s rs] @ post) = join s (pre @ rs @ post)"
  using join_nested [of "(map (\<lambda>x. [x]) pre) @ [rs] @ map (\<lambda>x. [x]) post" s] by (auto simp: comp_def)

lemma split_written:
  assumes "ls \<noteq> []" "\<forall>l \<in> set ls. c \<notin> set l"
  shows "split_on c (join [c] ls @ [c]) = ls @ [[]]"
proof -
  have "join [c] ls @ [c] = join [c] (ls @ [[]])" using assms(1) by (simp add: join_append)
  then show ?thesis using assms by (simp add: split_on_join)
qed

lemma no_space_hex: "filter (\<lambda>c. \<not> is_space c) (hex02 b) = hex02 b"
  using hex02_clean(2) by (simp add: filter_id_conv)

lemma blanks [simp]: "is_space CHR '' ''" "\<not> is_space CHR '',''"
  by (simp_all add: is_space_def is_ascii_space_def)

lemma key_rows_read:
  assumes "length raw = 32"
  shows "init_bytes (join [LF] (key_rows raw)) = Some raw"
proof (rule init_bytes_commas)
  have row: "filter (\<lambda>c. \<not> is_space c) (join '' '' (map (\<lambda>b. hex02 b @ '','') xs)) = concat (map (\<lambda>b. hex02 b @ '','') xs)" for xs
    by (simp add: filter_join join_Nil_sep comp_def no_space_hex)
  have "raw = pyslice 0 8 raw @ pyslice 8 16 raw @ pyslice 16 24 raw @ pyslice 24 32 raw"
  proof -
    have "pyslice 0 8 raw = take 8 raw" "pyslice 8 16 raw = take 8 (drop 8 raw)" "pyslice 16 24 raw = take 8 (drop 8 (drop 8 raw))"
      "pyslice 24 32 raw = drop 8 (drop 8 (drop 8 raw))"
      using assms by (simp_all add: pyslice_def drop_take)
    then show ?thesis by (simp only: append_take_drop_id)
  qed
  then have all: "concat (map (\<lambda>b. hex02 b @ '','') raw) = concat (map (\<lambda>b. hex02 b @ '','') (pyslice 0 8 raw)) @
      concat (map (\<lambda>b. hex02 b @ '','') (pyslice 8 16 raw)) @ concat (map (\<lambda>b. hex02 b @ '','') (pyslice 16 24 raw)) @
      concat (map (\<lambda>b. hex02 b @ '','') (pyslice 24 32 raw))"
    by (metis concat_append map_append)
  show "filter (\<lambda>c. \<not> is_space c) (join [LF] (key_rows raw)) = concat (map (\<lambda>b. hex02 b @ '','') raw)"
    unfolding all key_rows_def by (simp add: row)
qed

text \<open>
  A compiler reads the key header after it has joined the lines that end with a backslash (\<open>splice\<close>) and taken each comment as one blank
  (\<open>uncomment\<close>, whose flag says that a comment is open). A quotation mark, a comment to the end of the line and a comment that is not closed
  are not read: the header has none.
\<close>

fun splice :: "string \<Rightarrow> string" where
  "splice [] = []"
| "splice [a] = [a]"
| "splice (a # b # r) = (if a = BSL \<and> b = LF then splice r else a # splice (b # r))"

definition SLASH :: char where "SLASH = CHR 0x2F"
definition STAR :: char where "STAR = CHR 0x2A"

definition quote_mark :: "char \<Rightarrow> bool" where
  "quote_mark c = (c = DQ \<or> c = CHR 0x27)"

fun uncomment :: "bool \<Rightarrow> string \<Rightarrow> string option" where
  "uncomment com [] = (if com then None else Some [])"
| "uncomment com [c] = (if com \<or> quote_mark c then None else Some [c])"
| "uncomment True (a # b # r) =
     (if a = STAR \<and> b = SLASH then map_option (Cons CHR '' '') (uncomment False r) else uncomment True (b # r))"
| "uncomment False (a # b # r) =
     (if a = SLASH \<and> b = STAR then uncomment True r
      else if a = SLASH \<and> b = SLASH \<or> quote_mark a then None
      else map_option (Cons a) (uncomment False (b # r)))"

definition code_lines :: "string \<Rightarrow> string list" where
  "code_lines s = (case uncomment False (splice s) of Some t \<Rightarrow> split_on LF t | None \<Rightarrow> [])"

text \<open>Text that a comment may hold without being ended by it, and text outside comments.\<close>

fun closes :: "string \<Rightarrow> bool" where
  "closes [] = False"
| "closes [a] = False"
| "closes (a # b # r) = (a = STAR \<and> b = SLASH \<or> closes (b # r))"

definition quiet :: "string \<Rightarrow> bool" where
  "quiet s = (\<not> closes s \<and> (s = [] \<or> last s \<noteq> STAR))"

definition outside :: "string \<Rightarrow> bool" where
  "outside s = list_all (\<lambda>c. c \<noteq> SLASH \<and> \<not> quote_mark c) s"

lemma uncomment_quiet: "quiet s \<Longrightarrow> uncomment True (s @ r) = uncomment True r"
proof (induction s rule: closes.induct)
  case (2 v)
  then show ?case by (cases r) (auto simp: quiet_def)
qed (auto simp: quiet_def split: if_splits)

lemma uncomment_outside: "outside s \<Longrightarrow> uncomment False (s @ r) = map_option ((@) s) (uncomment False r)"
proof (induction s)
  case (Cons c s)
  then have c: "c \<noteq> SLASH" "\<not> quote_mark c" "outside s" by (simp_all add: outside_def)
  have "uncomment False (c # t) = map_option (Cons c) (uncomment False t)" for t using c by (cases t) simp_all
  with Cons.IH [OF c(3)] show ?case by (simp add: option.map_comp comp_def)
qed (cases "uncomment False r"; simp)

lemma uncomment_marks:
  "uncomment True (STAR # SLASH # r) = map_option (Cons CHR '' '') (uncomment False r)" "uncomment False (SLASH # STAR # r) = uncomment True r"
  by simp_all

lemma quiet_no_star: "STAR \<notin> set s \<Longrightarrow> quiet s"
  by (induction s rule: closes.induct) (auto simp: quiet_def)

lemma quiet_append: "quiet s \<Longrightarrow> quiet t \<Longrightarrow> quiet (s @ t)"
proof (induction s rule: closes.induct)
  case (2 v)
  then show ?case by (cases t) (auto simp: quiet_def)
qed (auto simp: quiet_def)

lemma quiet_Cons: "c \<noteq> STAR \<Longrightarrow> quiet s \<Longrightarrow> quiet (c # s)"
  using quiet_append [of "[c]" s] by (simp add: quiet_def)

lemma splice_id: "BSL \<notin> set s \<Longrightarrow> splice s = s"
  by (induction s rule: splice.induct) auto

lemma splice_prefix: "BSL \<notin> set s \<Longrightarrow> splice (s @ r) = s @ splice r"
proof (induction s)
  case (Cons c s)
  then show ?case by (cases "s @ r") auto
qed simp

text \<open>A line whose text is arbitrary: what is left of it is its own characters, wherever it was spliced.\<close>

lemma splice_line: "\<exists>t. splice (s @ LF # r) = t @ splice r \<and> set t \<subseteq> insert LF (set s)"
proof (induction s rule: splice.induct)
  case 1
  show ?case by (cases r) (auto intro: exI [of _ "[LF]"])
next
  case (2 v)
  have "splice (LF # r) = LF # splice r" by (cases r) auto
  then show ?case by (cases "v = BSL") (auto intro: exI [of _ "[]"] exI [of _ "[v, LF]"])
next
  case (3 a b s)
  show ?case
  proof (cases "a = BSL \<and> b = LF")
    case True
    with 3(1) obtain t where "splice (s @ LF # r) = t @ splice r" "set t \<subseteq> insert LF (set s)" by blast
    with True show ?thesis by (intro exI [of _ t]) auto
  next
    case False
    with 3(2) obtain t where "splice ((b # s) @ LF # r) = t @ splice r" "set t \<subseteq> insert LF (set (b # s))" by blast
    with False show ?thesis by (intro exI [of _ "a # t"]) auto
  qed
qed

definition unl :: "string list \<Rightarrow> string" where
  "unl ls = concat (map (\<lambda>l. l @ [LF]) ls)"

lemma unl_simps [simp]: "unl [] = []" "unl (l # ls) = l @ LF # unl ls" "unl (ls @ ms) = unl ls @ unl ms"
  by (simp_all add: unl_def)

lemma unl_join: "ls \<noteq> [] \<Longrightarrow> join [LF] ls @ [LF] = unl ls"
  by (induction ls rule: induct_list012) simp_all

lemma split_unl: "ls \<noteq> [] \<Longrightarrow> \<forall>l \<in> set ls. LF \<notin> set l \<Longrightarrow> split_on LF (unl ls) = ls @ [[]]"
  using split_written [of ls LF] by (simp add: unl_join)

text \<open>The path of the key has no asterisk: it cannot end the comment it stands in.\<close>

definition key_ok :: "key_note \<Rightarrow> bytes \<Rightarrow> bool" where
  "key_ok n raw = (length raw = 32 \<and> STAR \<notin> set (kn_origin n) \<and> list_all (\<lambda>c. c \<noteq> STAR \<and> c \<noteq> BSL) (kn_fp n))"

definition key_text :: "key_note \<Rightarrow> bytes \<Rightarrow> string" where
  "key_text n raw = join [LF] (key_lines n raw) @ [LF]"

definition KEY_HEAD :: string where
  "KEY_HEAD = '' GENERATED by substrate/gen_sig_pubkey.py --- do not edit.'' @ LF # '' *'' @ LF #
     '' * The Ed25519 public key this build will accept signatures from.'' @ LF # '' *   origin      : ''"

definition KEY_MID :: string where
  "KEY_MID = unl [[], ''#ifndef LS_SIG_PUBKEY_H'', ''#define LS_SIG_PUBKEY_H'', [], ''#include <stdint.h>'', [], ''#define LS_SIG_PUBKEY_LEN 32u'', []]"

definition KEY_OFFS :: string where
  "KEY_OFFS = '' Offsets into struct shield_binding, asserted against the ABI in check_sig.c so'' @ LF #
     '' * this header cannot drift from shield_abi.h without a build failure. ''"

definition key_body :: "bytes \<Rightarrow> string" where
  "key_body raw = unl ([[], ''#define LS_SIG_BINDING_LEN      112u'', ''#define LS_SIG_BINDING_HASH_OFF   0u'', [], KEY_DECL] @
     key_rows raw @ [''};'', []]) @ ''#endif ''"

definition key_tail :: "key_note \<Rightarrow> string" where
  "key_tail n = '' *   sha256(key) : '' @ kn_fp n @ LF # unl (drop 5 (key_comment n)) @ '' ''"

definition KEY_END :: string where
  "KEY_END = '' LS_SIG_PUBKEY_H ''"

lemma key_text_parts:
  "key_text n raw = SLASH # STAR # KEY_HEAD @ kn_origin n @ LF # key_tail n @ STAR # SLASH # KEY_MID @
     SLASH # STAR # KEY_OFFS @ STAR # SLASH # key_body raw @ SLASH # STAR # KEY_END @ STAR # SLASH # [LF]"
proof -
  have "key_text n raw = unl (key_lines n raw)" unfolding key_text_def by (rule unl_join) (simp add: key_lines_def key_comment_def)
  then show ?thesis
    by (simp add: key_lines_def key_comment_def key_tail_def KEY_HEAD_def KEY_MID_def KEY_OFFS_def KEY_END_def key_body_def SLASH_def STAR_def)
qed

definition code_char :: "char \<Rightarrow> bool" where
  "code_char c = (c \<noteq> SLASH \<and> \<not> quote_mark c \<and> c \<noteq> BSL \<and> c \<noteq> LF)"

lemmas char_defs = SLASH_def STAR_def quote_mark_def BSL_def LF_def DQ_def

lemma code_char_hex: "hex_val c = Some i \<Longrightarrow> code_char c \<and> c \<noteq> STAR"
  by (auto simp: code_char_def char_defs hex_val_def)

lemma code_char_fixed: "code_char CHR '' ''" "code_char CHR '',''" "code_char CHR ''0''" "code_char CHR ''x''"
  by (simp_all add: code_char_def char_defs)

lemma code_char_hex02: "list_all code_char (hex02 b)"
proof -
  have "unat b div 16 < 16" "unat b mod 16 < 16" using unat_byte_less [of b] by auto
  then show ?thesis using hex_char_props code_char_hex code_char_fixed by (simp add: hex02_def hex_byte_def)
qed

lemma code_char_rows: "\<forall>l \<in> set (key_rows raw). list_all code_char l"
proof -
  have "list_all code_char (join '' '' (map (\<lambda>b. hex02 b @ '','') xs))" for xs
    using code_char_hex02 code_char_fixed by (induction xs rule: induct_list012) simp_all
  with code_char_fixed show ?thesis by (simp add: key_rows_def)
qed

lemma outside_unl: "\<forall>l \<in> set ls. outside l \<Longrightarrow> outside (unl ls)"
  by (induction ls) (simp_all add: outside_def char_defs)

lemma quiet_unl: "\<forall>l \<in> set ls. quiet (l @ [LF]) \<Longrightarrow> quiet (unl ls)"
proof (induction ls)
  case (Cons l ls)
  then show ?case using quiet_append [of "l @ [LF]" "unl ls"] by simp
qed (simp add: quiet_def)

lemma key_outside: "outside KEY_MID" "outside (key_body raw)" "BSL \<notin> set KEY_MID" "BSL \<notin> set (key_body raw)"
proof -
  have "\<forall>l \<in> set (key_rows raw). outside l" "BSL \<notin> set (unl (key_rows raw))"
    using code_char_rows [of raw] by (auto simp: outside_def code_char_def list_all_iff unl_def)
  then show "outside (key_body raw)" "BSL \<notin> set (key_body raw)"
    using outside_unl [of "key_rows raw"] by (simp_all add: key_body_def outside_def KEY_DECL_def char_defs)
qed (simp_all add: KEY_MID_def outside_def char_defs)

lemma key_quiet: "quiet KEY_HEAD" "quiet KEY_OFFS" "quiet KEY_END" "BSL \<notin> set KEY_HEAD" "BSL \<notin> set KEY_OFFS" "BSL \<notin> set KEY_END"
  by code_simp+

lemma key_tail_quiet:
  assumes "key_ok n raw"
  shows "quiet (key_tail n)" "BSL \<notin> set (key_tail n)"
proof -
  have fp: "quiet (kn_fp n)" "BSL \<notin> set (kn_fp n)" using assms by (auto simp: key_ok_def list_all_iff intro: quiet_no_star)
  let ?b = "drop 5 (key_comment \<lparr>kn_none = kn_none n, kn_origin = [], kn_fp = []\<rparr>)"
  have "list_all (\<lambda>l. quiet (l @ [LF]) \<and> BSL \<notin> set l) (drop 5 (key_comment \<lparr>kn_none = True, kn_origin = [], kn_fp = []\<rparr>))"
    "list_all (\<lambda>l. quiet (l @ [LF]) \<and> BSL \<notin> set l) (drop 5 (key_comment \<lparr>kn_none = False, kn_origin = [], kn_fp = []\<rparr>))" by code_simp+
  then have b: "\<forall>l \<in> set ?b. quiet (l @ [LF]) \<and> BSL \<notin> set l" by (cases "kn_none n") (simp_all only: list_all_iff)
  have fixed: "quiet '' *   sha256(key) : ''" "quiet '' ''" "quiet [LF]" "BSL \<notin> set '' *   sha256(key) : ''" "BSL \<notin> set '' ''" "BSL \<notin> set [LF]"
    by code_simp+
  have u: "quiet (unl ?b)" "BSL \<notin> set (unl ?b)" using b quiet_unl by (auto simp: unl_def)
  have tail: "key_tail n = '' *   sha256(key) : '' @ kn_fp n @ [LF] @ unl ?b @ '' ''" by (simp add: key_tail_def key_comment_def)
  show "quiet (key_tail n)" unfolding tail by (intro quiet_append fixed u fp)
  show "BSL \<notin> set (key_tail n)" unfolding tail set_append Un_iff using fixed u fp by blast
qed

lemma key_uncommented:
  assumes "key_ok n raw"
  shows "uncomment False (splice (key_text n raw)) = Some ('' '' @ KEY_MID @ '' '' @ key_body raw @ '' '' @ [LF])"
proof -
  let ?rest = "key_tail n @ STAR # SLASH # KEY_MID @
     SLASH # STAR # KEY_OFFS @ STAR # SLASH # key_body raw @ SLASH # STAR # KEY_END @ STAR # SLASH # [LF]"
  obtain t where t: "splice (kn_origin n @ LF # ?rest) = t @ splice ?rest" "set t \<subseteq> insert LF (set (kn_origin n))" using splice_line by blast
  have "BSL \<notin> set ?rest" using key_tail_quiet [OF assms] key_outside key_quiet by (simp add: SLASH_def STAR_def BSL_def LF_def)
  then have "splice ?rest = ?rest" by (rule splice_id)
  moreover have "BSL \<notin> set (SLASH # STAR # KEY_HEAD)" using key_quiet by (simp add: SLASH_def STAR_def BSL_def)
  ultimately have "splice (key_text n raw) = (SLASH # STAR # KEY_HEAD) @ t @ ?rest"
    unfolding key_text_parts using splice_prefix [of "SLASH # STAR # KEY_HEAD" "kn_origin n @ LF # ?rest"] t(1) by simp
  moreover have "quiet t" using t(2) assms by (intro quiet_no_star) (auto simp: key_ok_def LF_def STAR_def)
  moreover have "uncomment False [LF] = Some [LF]" by (simp add: char_defs)
  ultimately show ?thesis
    using key_tail_quiet(1) [OF assms]
    by (simp only: append_Cons append_Nil uncomment_marks uncomment_quiet uncomment_outside key_outside key_quiet option.map)
qed

interpretation key_header: array_header "\<lambda>n raw. code_lines (key_text n raw)" KEY_DECL key_ok
proof
  fix n raw
  assume k: "key_ok n raw"
  let ?pre = "['' '', ''#ifndef LS_SIG_PUBKEY_H'', ''#define LS_SIG_PUBKEY_H'', [], ''#include <stdint.h>'', [], ''#define LS_SIG_PUBKEY_LEN 32u'', [],
      '' '', ''#define LS_SIG_BINDING_LEN      112u'', ''#define LS_SIG_BINDING_HASH_OFF   0u'', []]"
  let ?ls = "?pre @ [KEY_DECL] @ key_rows raw @ [''};''] @ [[], ''#endif  '']"
  have "'' '' @ KEY_MID @ '' '' @ key_body raw @ '' '' @ [LF] = unl ?ls" by (simp add: KEY_MID_def key_body_def)
  then have "code_lines (key_text n raw) = split_on LF (unl ?ls)"
    using key_uncommented [OF k] by (simp only: code_lines_def option.case)
  moreover have "\<forall>l \<in> set ?ls. LF \<notin> set l"
    using code_char_rows [of raw] by (auto simp: code_char_def list_all_iff) (simp_all add: KEY_DECL_def LF_def)
  ultimately have "code_lines (key_text n raw) = ?pre @ [KEY_DECL] @ key_rows raw @ [''};''] @ [[], ''#endif  '', []]"
    using split_unl [of ?ls] by simp
  moreover have "KEY_DECL \<notin> set ?pre" by (simp add: KEY_DECL_def)
  moreover have "''};'' \<notin> set (key_rows raw)" by (auto simp: key_rows_def)
  ultimately show "\<exists>pre rows post. code_lines (key_text n raw) = pre @ [KEY_DECL] @ rows @ [''};''] @ post \<and>
      KEY_DECL \<notin> set pre \<and> ''};'' \<notin> set rows \<and> init_bytes (join [LF] rows) = Some raw"
    using key_rows_read [of raw] k unfolding key_ok_def by blast
qed

lemma LF_hex: "LF \<notin> set (hex02 b)"
  using hex02_clean(2) [of b] chars_differ(8) by blast

lemma LF_blank: "LF \<noteq> CHR '' ''" "LF \<noteq> CHR '',''"
  by (simp_all add: LF_def)

lemma set_join_no: "c \<notin> set sep \<Longrightarrow> \<forall>x \<in> set xs. c \<notin> set x \<Longrightarrow> c \<notin> set (join sep xs)"
  using set_join [of sep xs] by auto

text \<open>The lines of the rows of the shield.\<close>

fun commas :: "string list \<Rightarrow> string list" where
  "commas [] = [[]]"
| "commas [x] = [x]"
| "commas (x # y # ys) = (x @ '','') # commas (y # ys)"

lemma commas_ne: "commas xs \<noteq> []"
  by (cases xs rule: commas.cases) simp_all

lemma join_commas: "join ('','' @ [LF]) xs = join [LF] (commas xs)"
proof (induction xs rule: commas.induct)
  case (3 x y ys)
  obtain z zs where "commas (y # ys) = z # zs" using commas_ne [of "y # ys"] by (cases "commas (y # ys)") auto
  with 3 show ?case by simp
qed simp_all

lemma commas_set: "l \<in> set (commas xs) \<Longrightarrow> l = [] \<or> (\<exists>x \<in> set xs. l = x \<or> l = x @ '','')"
  by (induction xs rule: commas.induct) auto

lemma rows12_shape: "x \<in> set (rows12 data) \<Longrightarrow> \<exists>ys. x = ''    '' @ join '', '' (map hex02 ys)"
  by (induction data rule: rows12.induct) (subst (asm) rows12.simps, auto split: if_splits)

lemma blob_body_read: "filter (\<lambda>c. \<not> is_space c) (blob_body data) = join '','' (map hex02 data)"
proof -
  have "\<exists>xss. map (filter (\<lambda>c. \<not> is_space c)) (rows12 data) = map (join '','') (map (map hex02) xss) \<and> concat xss = data \<and> (\<forall>xs \<in> set xss. xs \<noteq> [])"
  proof (induction data rule: rows12.induct)
    case (1 data)
    show ?case
    proof (cases "data = []")
      case True
      then show ?thesis by (intro exI [of _ "[]"]) (simp add: rows12.simps)
    next
      case False
      from "1.IH" [OF False] obtain xss where "map (filter (\<lambda>c. \<not> is_space c)) (rows12 (drop 12 data)) = map (join '','') (map (map hex02) xss)"
        "concat xss = drop 12 data" "\<forall>xs \<in> set xss. xs \<noteq> []" by blast
      with False show ?thesis
        by (intro exI [of _ "take 12 data # xss"], subst rows12.simps) (simp add: filter_join comp_def no_space_hex)
    qed
  qed
  then obtain xss where x: "map (filter (\<lambda>c. \<not> is_space c)) (rows12 data) = map (join '','') (map (map hex02) xss)" "concat xss = data"
    "\<forall>xs \<in> set xss. xs \<noteq> []" by blast
  have "filter (\<lambda>c. \<not> is_space c) (blob_body data) = join '','' (map (join '','') (map (map hex02) xss))"
    unfolding blob_body_def filter_join x(1) by simp
  also have "\<dots> = join '','' (concat (map (map hex02) xss))" using x(3) by (intro join_nested) auto
  also have "concat (map (map hex02) xss) = map hex02 data" unfolding x(2) [symmetric] by (rule map_concat [symmetric])
  finally show ?thesis .
qed

lemma str_replace_id: "sub \<noteq> [] \<Longrightarrow> find_at sub i s = None \<Longrightarrow> str_replace sub new s = s"
  by (induction s arbitrary: i) (auto split: if_splits)

text \<open>A line that the placeholder does not touch; the names stand in one line each and do not spell it.\<close>

definition plain_line :: "string \<Rightarrow> bool" where
  "plain_line l = (LF \<notin> set l \<and> \<not> contains ''__BODY__'' l)"

definition blob_ok :: "blob_names \<Rightarrow> bytes \<Rightarrow> bool" where
  "blob_ok n data = (plain_line (source_line n) \<and> plain_line (section_line n) \<and> plain_line (function_line n))"

lemma contains_chars: "sub \<noteq> [] \<Longrightarrow> contains sub s \<Longrightarrow> set sub \<subseteq> set s"
  by (auto simp: contains_iff)

lemma plain_fixed: "list_all plain_line BLOB_NOTE" "plain_line ''/* GENERATED by substrate/mk_shield_blob.py --- do not hand-edit.''"
    "plain_line '' *''" "plain_line []" "plain_line BLOB_DECL" "plain_line ''};''" "plain_line ''#endif /* LS_SHIELD_BLOB_H */''"
  by code_simp+

lemma plain_count: "plain_line (count_line k)"
proof -
  have d: "LF \<notin> set (str_nat k)" "CHR ''_'' \<notin> set (str_nat k)" using str_nat_digits [of k] by (auto simp: is_digit_def LF_def)
  then show ?thesis using contains_chars [of "''__BODY__''" "count_line k"] by (auto simp: plain_line_def count_line_def LF_def)
qed

lemma plain_pre: "blob_ok n data \<Longrightarrow> list_all plain_line (blob_pre n k)"
  using plain_fixed plain_count by (simp add: blob_pre_def blob_ok_def)

lemma plain_replace: "plain_line l \<Longrightarrow> str_replace ''__BODY__'' new l = l"
  by (rule str_replace_id [of _ 0]) (simp_all add: plain_line_def contains_def)

lemma blob_decl_first: "BLOB_DECL \<notin> set (blob_pre n k)"
proof -
  have "\<not> list_ex (\<lambda>l. l = BLOB_DECL) BLOB_NOTE" by code_simp
  then show ?thesis by (simp add: blob_pre_def list_ex_iff) (simp add: BLOB_DECL_def source_line_def count_line_def section_line_def function_line_def)
qed

lemma LF_rows: "l \<in> set (commas (rows12 data)) \<Longrightarrow> LF \<notin> set l \<and> l \<noteq> ''};''"
proof -
  assume "l \<in> set (commas (rows12 data))"
  then consider "l = []" | ys where "l = ''    '' @ join '', '' (map hex02 ys) \<or> l = (''    '' @ join '', '' (map hex02 ys)) @ '',''"
    using commas_set rows12_shape by metis
  moreover have "LF \<notin> set (join '', '' (map hex02 ys))" for ys using LF_hex LF_blank by (intro set_join_no) auto
  ultimately show ?thesis by cases (auto simp: LF_blank)
qed

interpretation blob_header: array_header "\<lambda>n data. split_on LF (blob_text n data)" BLOB_DECL blob_ok
proof
  fix n data
  assume k: "blob_ok n data"
  let ?pre = "blob_pre n (length data)" and ?rows = "commas (rows12 data)" and ?post = "[[], ''#endif /* LS_SHIELD_BLOB_H */'']"
  have id: "map (str_replace ''__BODY__'' new) ls = ls" if "list_all plain_line ls" for new ls
    using that by (induction ls) (simp_all add: plain_replace)
  have "str_replace ''__BODY__'' new ''__BODY__'' = new" for new by simp
  then have "map (str_replace ''__BODY__'' (blob_body data)) (blob_template n (length data)) = (?pre @ [BLOB_DECL]) @ [blob_body data] @ [''};''] @ ?post"
    using id [OF plain_pre [OF k]] id [of "[BLOB_DECL, ''};'', [], ''#endif /* LS_SHIELD_BLOB_H */'']"] plain_fixed
    by (simp add: blob_template_def plain_replace del: str_replace.simps)
  then have "blob_text n data = join [LF] ((?pre @ [BLOB_DECL]) @ ?rows @ [''};''] @ ?post) @ [LF]"
    unfolding blob_text_def blob_body_def join_commas by (simp only: join_insert [OF commas_ne])
  moreover have "\<forall>l \<in> set ((?pre @ [BLOB_DECL]) @ ?rows @ [''};''] @ ?post). LF \<notin> set l"
    using plain_pre [OF k, of "length data"] plain_fixed LF_rows by (auto simp: plain_line_def list_all_iff)
  ultimately have "split_on LF (blob_text n data) = ?pre @ [BLOB_DECL] @ ?rows @ [''};''] @ (?post @ [[]])" by (simp add: split_written)
  moreover have "init_bytes (join [LF] ?rows) = Some data"
    using init_bytes_between [OF blob_body_read] unfolding blob_body_def join_commas .
  ultimately show "\<exists>pre rows post. split_on LF (blob_text n data) = pre @ [BLOB_DECL] @ rows @ [''};''] @ post \<and>
      BLOB_DECL \<notin> set pre \<and> ''};'' \<notin> set rows \<and> init_bytes (join [LF] rows) = Some data"
    using blob_decl_first LF_rows by blast
qed

lemma blob_embedded:
  "blob_main True (Some data) has_out source hook func = (Some text, code) \<Longrightarrow>
   blob_ok \<lparr>bl_source = source, bl_section = ''fentry/'' @ hook, bl_function = func\<rparr> data \<Longrightarrow>
   array_of BLOB_DECL (split_on LF text) = Some data"
  using blob_header.read_back by (auto simp: blob_main_def)

lemma to_hex_chars: "list_all (\<lambda>c. c \<noteq> STAR \<and> c \<noteq> BSL) (to_hex bs)"
proof (induction bs)
  case (Cons b bs)
  have "unat b div 16 < 16" "unat b mod 16 < 16" using unat_byte_less [of b] by auto
  then have "list_all (\<lambda>c. c \<noteq> STAR \<and> c \<noteq> BSL) (hex_byte b)"
    using hex_char_props code_char_hex by (simp add: hex_byte_def code_char_def)
  with Cons show ?case by (simp add: to_hex_def)
qed (simp add: to_hex_def)

text \<open>
  C39. A build trusts the key it was given. Where the generator writes a header and the path of the key has no asterisk, a compiler that joins
  the spliced lines and drops the comments finds in it an array that is, byte for byte, 32 zeros where \<^verbatim>\<open>--none\<close> was given, and otherwise
  the last 32 bytes of a 44-byte key structure that openssl read, as a public key or else as the public half of a private one. A line
  feed or a backslash in the path changes nothing.
\<close>

theorem key_embedded:
  assumes "pubkey_main none key pub priv = Inr text" "none \<or> STAR \<notin> set (the key)"
  shows "array_of KEY_DECL (code_lines text) =
      Some (if none then replicate 32 0 else drop 12 (snd (if fst pub = 0 then pub else priv))) \<and>
    (\<not> none \<longrightarrow> key \<noteq> None \<and> fst (if fst pub = 0 then pub else priv) = 0 \<and> length (snd (if fst pub = 0 then pub else priv)) = 44)"
proof (cases none)
  case True
  let ?n = "\<lparr>kn_none = True, kn_origin = ''no key --- this build verifies nothing'', kn_fp = ''none''\<rparr>"
  have "key_ok ?n (replicate 32 0)" by (simp add: key_ok_def char_defs)
  from key_header.read_back [OF this] True assms(1) show ?thesis by (simp add: pubkey_main_def key_text_def)
next
  case False
  then obtain raw k where r: "raw_from_pem pub priv = Inr raw" "key = Some k"
    "text = key_text \<lparr>kn_none = False, kn_origin = k, kn_fp = to_hex (sha256 raw)\<rparr> raw"
    using assms(1) by (cases key) (auto simp: pubkey_main_def err_simps key_text_def split: if_splits)
  then have d: "raw = drop 12 (snd (if fst pub = 0 then pub else priv))" "fst (if fst pub = 0 then pub else priv) = 0"
    "length (snd (if fst pub = 0 then pub else priv)) = 44"
    by (auto simp: raw_from_pem_def Let_def split: if_splits)
  then have "key_ok \<lparr>kn_none = False, kn_origin = k, kn_fp = to_hex (sha256 raw)\<rparr> raw"
    using assms(2) False r(2) to_hex_chars by (simp add: key_ok_def)
  from key_header.read_back [OF this] False r d show ?thesis by simp
qed

theorem key_embedded_witness:
  "\<exists>hdr. pubkey_main False (Some ''k.pem'') (1, []) (0, replicate 12 0 @ replicate 32 7) = Inr hdr \<and>
     array_of KEY_DECL (code_lines hdr) = Some (replicate 32 7)"
proof -
  obtain hdr where t: "pubkey_main False (Some ''k.pem'') (1, []) (0, replicate 12 0 @ replicate 32 7) = Inr hdr"
    by (simp add: pubkey_main_def raw_from_pem_def)
  from key_embedded [OF t] t show ?thesis by (auto simp: STAR_def)
qed

text \<open>
  A key structure that ends with 32 zeros is written like any other, with the comment of a build that has a key, although the array is then
  the one of a build without a key.
\<close>

lemma zero_key_written:
  "\<exists>raw. raw_from_pem (0, replicate 44 0) priv = Inr raw \<and>
     pubkey_main False (Some ''k.pem'') (0, replicate 44 0) priv = Inr (key_text \<lparr>kn_none = False, kn_origin = ''k.pem'', kn_fp = to_hex (sha256 raw)\<rparr> raw) \<and>
     array_of KEY_DECL (code_lines (key_text \<lparr>kn_none = False, kn_origin = ''k.pem'', kn_fp = to_hex (sha256 raw)\<rparr> raw)) = Some (replicate 32 0)"
proof -
  have r: "raw_from_pem (0, replicate 44 0) priv = Inr (replicate 32 0)" by (simp add: raw_from_pem_def)
  have "key_ok \<lparr>kn_none = False, kn_origin = ''k.pem'', kn_fp = to_hex (sha256 (replicate 32 0))\<rparr> (replicate 32 0)"
    using to_hex_chars by (simp add: key_ok_def STAR_def)
  from key_header.read_back [OF this] r show ?thesis by (intro exI [of _ "replicate 32 0"]) (simp add: pubkey_main_def key_text_def)
qed

end
