(* ===== verification/Spec2Isabelle.thy ===== *)
theory Spec2Isabelle
  imports Activity_Combine Stream_Journal Evidence_Joins Budget_Soundness Hook_Index Mk_Probe Trace_Ring
    Trace_Paths Trace_Tool Trace_Signatures Evidence_Chain Bind_Sets Hook_Document Collector_Http Icap_Gate Metadata_Export Generated_Headers
begin

text \<open>
  A verification library for the Python tools of eob-tmm. The repository instruments a running data
  plane with small verified programs: host C (under \<^verbatim>\<open>src/substrate\<close>) runs them at function entries, and Python
  tools generate, admit, sign, bind and load them and collect what they record. The tools are what is
  modelled here, one theory per tool, translated from the source; a theorem about the C side is not claimed.

  \<^bold>\<open>The life of a program, and the theories along it.\<close>

  \<^enum> A probe is generated for a function from the debug information of the build: \<open>Mk_Probe\<close>
    (\<^verbatim>\<open>substrate/mk_probe.py\<close>: \<open>resolve_type\<close>, \<open>signature\<close>, \<open>layout\<close>, \<open>generate\<close>, the signature index \<open>build_index\<close> and \<open>load_index\<close>).
  \<^enum> The hook map lists the functions that can be armed in a build and writes the index that names
    resolve with: \<open>Hook_Map\<close> (\<^verbatim>\<open>substrate/mk_hook_map.py\<close>: \<open>relocatability\<close>, \<open>hook_step\<close>, \<open>hook_index\<close>, \<open>hook_map_main\<close>).
    \<open>Inline_Status\<close> (\<^verbatim>\<open>substrate/mk_inline_status.py\<close>: \<open>inline_scan\<close>, \<open>annotate\<close>) marks the hooks that inlined copies escape, in the document
    \<open>Hook_Document\<close> (\<open>map_doc\<close>) builds from the hook points.
  \<^enum> Or it is written in the trace language. \<open>Type_Catalog\<close> (\<^verbatim>\<open>gen_type_catalog.py\<close>) reads the structures of the debug information;
    \<open>Trace_Dsl\<close>, \<open>Trace_Codegen\<close>, \<open>Trace_Paths\<close>, \<open>Trace_Signatures\<close> and \<open>Trace_Tool\<close> (\<^verbatim>\<open>tmmtrace.py\<close>) parse a clause, resolve its field
    paths, generate the program as a syntax tree of the C subset it uses and run the tool; \<open>Trace_Semantics\<close> gives that subset a
    meaning. \<open>Py_Regex\<close> holds the pieces the regular expressions of the sources are translated with.
  \<^enum> A program is admitted: its longest path is priced by \<open>Budget_Pass\<close> (\<^verbatim>\<open>substrate/budget_pass.py\<close>), an
    exit hook is checked against its return type, the imports and the frames of the runtime by \<open>Exit_Admit\<close> (\<^verbatim>\<open>substrate/exit_admit.py\<close>).
  \<^enum> It is signed for a hook and a range of builds by \<open>Sign_Shield\<close> (\<^verbatim>\<open>substrate/sign_shield.py\<close>), and bound to an
    address of one binary by \<open>Bind_Target\<close> (\<^verbatim>\<open>substrate/bind_target.py\<close>), or to a snapshot or a set of functions by
    \<open>Bind_Sets\<close> (\<^verbatim>\<open>completion_admit.py\<close>, \<^verbatim>\<open>bind_snapshot.py\<close>, \<^verbatim>\<open>bind_targets.py\<close>), all reading build ids with \<open>Build_Id\<close>
    (\<^verbatim>\<open>substrate/ls_buildid.py\<close> and the copy in the loader client).
  \<^enum> It is sent to the host by the loader client: \<open>Loader_Wire\<close> (message and configuration formats) and \<open>Loader_Cli\<close> (socket,
    index lookup, arguments, \<open>ls_main\<close>), from \<^verbatim>\<open>env/scripts/ls-load.py\<close>, with the test client
    \<^verbatim>\<open>substrate/loader-client/ls_client.py\<close>. The rings the programs write are read by \<open>Trace_Ring\<close>
    (\<^verbatim>\<open>substrate/loader-client/ls_tp_dump.py\<close>).
  \<^enum> Records of observed traffic are decoded by \<open>Value_Decoders\<close> and \<open>Event_Decoders\<close> (the \<^verbatim>\<open>*_decode.py\<close> modules of
    \<^verbatim>\<open>env/ai-traffic\<close>), kept by the collector's journal \<open>Stream_Journal\<close> (\<^verbatim>\<open>stream_collector.py\<close>), exported by
    \<open>Activity_Export\<close> (\<^verbatim>\<open>activity_export.py\<close>), grouped into exchanges by \<open>Activity_Combine\<close> (\<^verbatim>\<open>activity_combine.py\<close>),
    served to readers by \<open>Collector_Http\<close> (its request handler and \<^verbatim>\<open>collector_client.py\<close>), and joined with attribution and correlation records by \<open>Evidence_Joins\<close> (\<^verbatim>\<open>attribution_join.py\<close>, \<^verbatim>\<open>correlation_join.py\<close>), under the guard
    \<open>Gap_Window\<close> (\<^verbatim>\<open>gap_window.py\<close>). \<open>Metadata_Export\<close> (\<^verbatim>\<open>metadata_export.py\<close>) turns the receipt of a run into a table.
  \<^enum> The actors those records name are proved to the attribution authority (\<^verbatim>\<open>attribution.py\<close>): \<open>Py_Codec\<close> (base64 and
    canonical JSON), \<open>Authority\<close> (grants, requests, the nonce table, the ledger), \<open>Authority_Safety\<close> (sequences of requests),
    \<open>Authority_Wire\<close> (the served connection and its client). \<open>Evidence_Chain\<close> follows one identity from the request to the row the
    window shows.
  \<^enum> A response can be held until it is inspected: \<open>Icap_Gate\<close> (\<^verbatim>\<open>icap_gate.py\<close>: the inspector, the origin, the client and the check).
  \<^enum> Files for the C build carry the trampoline, the built-in shield and the trusted key: \<open>Generated_Headers\<close> (\<^verbatim>\<open>mk_tramp_asm.py\<close>,
    \<^verbatim>\<open>mk_shield_blob.py\<close>, \<^verbatim>\<open>gen_sig_pubkey.py\<close>).

  \<open>Prelude\<close>, \<open>Py_Text\<close>, \<open>Py_Lines\<close> and \<open>Sha256\<close> hold what the tools use of Python: slices, little-endian reads
  and writes, text and number formats, JSON values, lines and fields, the digest. A Python exception is a
  value of \<open>exn\<close>, and an operation that may raise returns \<open>exn + 'a\<close>; \<open>ebind\<close> sequences them. Objects are records,
  dictionaries maps or association lists, files and processes arguments of the operations (\<open>loader_env\<close>, \<open>tools\<close>, the
  database record \<open>jdb\<close>). Characters are code points below 256.

  \<^bold>\<open>What is shown.\<close>

  \<^item> Journal: the invariant of the tables is kept by every frame, refused frames change nothing, rings have no
    gaps, a frame is acknowledged only after it is committed, a cursor gets its rows, a retention
    gap or a refusal, and following the replay pages from a cursor returns every later row.
    Over any sequence of runs of the collector on one file, refused and repeated lines, failing writes and early ends included, the retained rows of
    a ring tile an interval that ends at its checkpoint (\<open>runs_tile\<close>).
  \<^item> Combiner, exporter and joins: an exchange reported as observed is made of the events it names, no event is
    lost or counted twice, and a join names only evidence that fits.
  \<^item> Attribution: every accepted row of the ledger was proved by the key of its actor under a grant that was valid then, no
    nonce is accepted twice, what a client builds is accepted, and a grant reads back as it was issued. The window shows
    identities exactly when nothing it was told breaks it, masks them field by field with the first reason otherwise, and an actor it shows is
    the one whose key made the proof in a request that the authority received.
  \<^item> Service and gate: a page the client gets is the journal's answer to the cursor it sent, no round but the first begins more than
    50 ms after the deadline, the number of rounds is bounded, and the threads
    stay within their bound in every reachable state (\<open>gate_step\<close>). The inspector writes a verdict only for a whole preview, and
    every whole preview gets one.
  \<^item> Generated text: the key, the shield and the trampoline read back from the files byte for byte (the key after comments are removed as a
    compiler does), an exported value is the bytes of its payload, and one shown in the exporter's
    table cannot break its cell and reads back as it is.
  \<^item> Trace language: code generation ends, its programs are well typed and mean what the clause says, shields act only
    behind their gate, a resolved path is backed by the catalogue, and a bit field is never read as a scalar.
  \<^item> Decoders: a decoded value is exactly the bytes of the record that carry it, and malformed records are refused.
  \<^item> Admission: the gate refuses exactly the programs with a cyclic path of blocks and prices the others at their most expensive path,
    in its own table of estimated costs; this is no bound on running time, and a call of a local function is stepped over
    (\<open>local_call_unpriced\<close>). The exit gate admits exactly what its rules name, which lets through functions whose frame was not read. Further lemmas
    record inputs the gates let through.
  \<^item> Signing, binding, loading: the binding commits to its fields, the expiry is exact, the message layout is that of
    the wire, an attachment record names a padded entry of the binary, and so do the rows of a target set and a snapshot.
  \<^item> Generation: every hook point is armable as the map says; the analysis that stops early classifies like one of the
    whole function; a probe's record stays under its ceiling; the signature index agrees with the walk it caches; the annotated map
    keeps every hook point of the run, with the inline status that the entries with both a name and an address give it.
  \<^item> Across tools, in this theory and in \<open>Hook_Index\<close>: a name resolved against a written index gives the hook point of
    the map, for the loader client and for the binding tool, and what a load sends is what was signed.

  Interfaces are locales: \<open>value_decoder\<close> (the contract of the decoders, four instances), \<open>paged_log\<close> (paged reads of a growing log, the
  journal's replay), \<open>array_header\<close> (what a generated array of bytes promises, the key and the shield) and \<open>index_reader\<close> (what a reader does with a line of the hook index, with the loader client and
  the binding tool as instances).

  \<^bold>\<open>Loops and bounds.\<close> Functions are total. The longest-path search of the budget pass takes fuel; the number of blocks
  and one more is enough, which \<open>Budget_Soundness\<close> proves. Type resolution is bounded by its depth counter, the ring walk and the hexadecimal
  text by measures; the path expansion of the trace language by the structures not yet visited, the served connection by the bytes
  that remain; \<open>follow\<close> takes a number of pages, and the theorem gives one that suffices. The exporter's and the
  combiner's limits (frame size, page size, capacity) are the source's constants.

  \<^bold>\<open>Not modelled.\<close> Network and process handling, argument parsing, package unpacking, request lines and headers of the HTTP service,
  and printed reports are left out: they are input and output around the functions modelled. Signatures
  (ed25519, openssl), the output of clang, of the verifier, of readelf, objcopy and gdb, and parsed JSON documents are arguments, and
  clocks count whole seconds or nanoseconds. Writing a document as JSON and reading it back is the identity, and the interpreter's recursion limit
  appears only where a JSON parser is an argument and may raise \<open>RecursionError\<close>. An argument register of a traced program beyond the fifth and a constant
  the C compiler refuses have a value in \<open>Trace_Semantics\<close> that the C side would not give. The suites, checks and deployment scripts test or drive the tools, and the C substrate is outside
  the language of this library.
\<close>

section \<open>From the hook map to the loader client\<close>

lemma index_candidates:
  assumes "read_index t = (meta, syms)"
  shows "map_of syms name = (if listed (snd (read_index t)) name = [] then None else Some (listed (snd (read_index t)) name))"
proof (cases "map_of syms name")
  case (Some l)
  moreover have "l \<noteq> []"
    using index_nonempty [of "([], [])" "split_on (CHR 0x0A) (universal_newlines t)" name l] Some assms by (simp add: read_index_def)
  ultimately show ?thesis using assms by (simp add: listed_def)
qed (simp add: assms listed_def)

text \<open>
C21. A name resolved against a written index gives the arming address of the one hook point with that name, and
nothing else: with an index from a run of the map generator, the loader client returns the address when exactly
one hook point has the name, refuses the name when none or several have it, and refuses every name when the
running binary's build id is not the one the map was made from.
\<close>

theorem written_index_resolves:
  assumes run: "hook_map_main t binary dbg version = Inr (Some bid, hs, ta, txt_ix)"
    and shape: "no_break (version_of version)" "\<forall>h \<in> set hs. \<not> is_prefix ''#'' (h_name h)"
    and live: "running_binary env = Some exe" "le_file env exe = Some blob" "elf_build_id blob = Inr (Some i)"
    and name: "texts path = Some txt_ix" "\<not> is_prefix ''0x'' name" "\<not> is_prefix ''0X'' name"
  shows "resolve_hook env path texts name =
    (if i \<noteq> bid then Inl (SystemExit ''BUILD ID MISMATCH'')
     else case filter (\<lambda>h. h_name h = name) hs of
            [] \<Rightarrow> Inl (SystemExit ''not in the index'')
          | [h] \<Rightarrow> Inr (fmt_hex (h_arm h))
          | _ \<Rightarrow> Inl (SystemExit ''AMBIGUOUS''))"
proof -
  obtain meta syms where ix: "read_index txt_ix = (meta, syms)" by (cases "read_index txt_ix")
  have "map_of meta ''build_id'' = Some bid" using written_index(1) [OF run shape] ix by simp
  moreover have "map_of syms name = (let hs' = filter (\<lambda>h. h_name h = name) hs in
      if hs' = [] then None else Some (map entry_of hs'))"
    using index_candidates [OF ix, of name] written_index(2) [OF run shape, of name] by (simp add: Let_def)
  ultimately show ?thesis
    using name live ix
    by (cases "filter (\<lambda>h. h_name h = name) hs"; cases "tl (filter (\<lambda>h. h_name h = name) hs)")
      (simp_all add: resolve_hook_def entry_of_def)
qed

definition live_tools :: tools where
  "live_tools = sample_tools\<lparr>t_notes := (\<lambda>p. Some (''Build ID: '' @ to_hex sample_id))\<rparr>"

definition live_env :: loader_env where
  "live_env = sample_env\<lparr>le_proc := [(''7'', Some ''/usr/bin/tmm'')], le_file := [''/usr/bin/tmm'' \<mapsto> sample_elf]\<rparr>"

lemma live_hook_map: "\<exists>ta txt_ix. hook_map_main live_tools ''b'' ''d'' None = Inr (Some (to_hex sample_id), sample_points, ta, txt_ix)"
proof -
  have "map_sum id (\<lambda>(b, hs, _). (b, hs)) (hook_map_main live_tools ''b'' ''d'' None) = Inr (Some (to_hex sample_id), sample_points)"
    by code_simp
  then show ?thesis by (cases "hook_map_main live_tools ''b'' ''d'' None") auto
qed

theorem written_index_resolves_witness:
  "\<exists>txt_ix. resolve_hook live_env ''i'' [''i'' \<mapsto> txt_ix] ''f'' = Inr (fmt_hex 0x1004) \<and>
         resolve_hook live_env ''i'' [''i'' \<mapsto> txt_ix] ''z'' = Inl (SystemExit ''not in the index'')"
proof -
  obtain ta txt_ix where run: "hook_map_main live_tools ''b'' ''d'' None = Inr (Some (to_hex sample_id), sample_points, ta, txt_ix)"
    using live_hook_map by blast
  have "running_binary live_env = Some ''/usr/bin/tmm''" by code_simp
  moreover have "le_file live_env ''/usr/bin/tmm'' = Some sample_elf" by (simp add: live_env_def)
  moreover have "elf_build_id sample_elf = Inr (Some (to_hex sample_id))" by code_simp
  moreover have "no_break (version_of None)" by (simp add: no_break_def version_of_def)
  moreover have "\<forall>h \<in> set sample_points. \<not> is_prefix ''#'' (h_name h)" by (simp add: sample_points_def)
  ultimately have r: "\<not> is_prefix ''0x'' name \<Longrightarrow> \<not> is_prefix ''0X'' name \<Longrightarrow>
      resolve_hook live_env ''i'' [''i'' \<mapsto> txt_ix] name =
        (case filter (\<lambda>h. h_name h = name) sample_points of
           [] \<Rightarrow> Inl (SystemExit ''not in the index'') | [h] \<Rightarrow> Inr (fmt_hex (h_arm h)) | _ \<Rightarrow> Inl (SystemExit ''AMBIGUOUS''))" for name
    using written_index_resolves [OF run, of live_env "''/usr/bin/tmm''" sample_elf "to_hex sample_id" "[''i'' \<mapsto> txt_ix]" "''i''" name]
    by simp
  show ?thesis using r [of "''f''"] r [of "''z''"] by (intro exI [of _ txt_ix]) (simp add: sample_points_def)
qed

text \<open>
C22. The attachment record names the hook point of the map. When the target binding tool resolves a name
against a written index, the index has exactly one hook point of that name, reached by a pad; the entry address and pad offset it
binds are that hook point's, and the build id is the one the map was made from.
\<close>

theorem target_matches_map:
  assumes "hook_map_main t binary dbg version = Inr (Some bid, hs, ta, txt_ix)"
    and "unbroken (version_of version)" "\<forall>h \<in> set hs. \<not> is_prefix ''#'' (h_name h)"
    and "resolve txt_ix blob name = Inr (b, entry, pad)"
  shows "b = bid \<and> (\<exists>h. filter (\<lambda>h. h_name h = name) hs = [h] \<and> h_pad h = Some (nat pad) \<and>
    h_entry h = entry \<and> h_arm h = entry + pad)"
  using assms by (rule resolve_written)

theorem target_matches_map_witness:
  "\<exists>txt_ix. resolve txt_ix small_binary ''f'' = Inr (to_hex sample_id, 4096, 4) \<and>
     (\<exists>h. filter (\<lambda>h. h_name h = ''f'') sample_points = [h] \<and> h_entry h = 4096)"
proof -
  obtain ta txt_ix where run: "hook_map_main live_tools ''b'' ''d'' None = Inr (Some (to_hex sample_id), sample_points, ta, txt_ix)"
    using live_hook_map by blast
  have shape: "unbroken (version_of None)" "\<forall>h \<in> set sample_points. \<not> is_prefix ''#'' (h_name h)"
    by (simp_all add: version_of_def sample_points_def is_break_def)
  have "resolve txt_ix small_binary ''f'' = Inr (to_hex sample_id, 4096, 4)"
  proof -
    have "fmt_hex 4100 = ''0x1004''" "str_nat 4 = ''4''" "str_nat 0 = ''0''" by code_simp+
    then have "snd (read_rows ''f'' (splitlines txt_ix) (Map.empty, [])) = [[''f'', ''0x1004'', ''pad'', ''4'', ''0'']]"
      using written_rows(2) [OF run shape, of "''f''"] by (simp add: sample_points_def hook_fields_def)
    with written_rows(1) [OF run shape, of "''f''"] obtain meta where
      "read_rows ''f'' (splitlines txt_ix) (Map.empty, []) = (meta, [[''f'', ''0x1004'', ''pad'', ''4'', ''0'']])"
      "meta ''build_id'' = Some (to_hex sample_id)" by (metis fst_conv snd_conv prod.exhaust)
    moreover have "build_id small_binary = Inr (to_hex sample_id)" "to_hex sample_id \<noteq> []" "length (to_hex sample_id) = 40"
      "parse_int ''4'' = Inr 4" "parse_int0 ''0x1004'' = Inr 4100"
      "ebind (segments_of small_binary) (check_segments small_binary 4096 (entry_pad 4)) = Inr ()" by code_simp+
    ultimately show ?thesis by (auto simp: resolve_def err_simps)
  qed
  with target_matches_map [OF run shape this] show ?thesis by blast
qed

section \<open>From the signing tool to the wire\<close>

lemma slice_drop: "pyslice (k + i) (k + j) xs = pyslice i j (drop k xs)"
  by (simp add: pyslice_def take_drop add.commute)

text \<open>
C23. What is loaded is what was signed. When the signature file a load reads is one the signing tool wrote, the
message on the wire carries the digest of the program that was signed and the hook name it was signed for,
zero-padded to its 64 bytes, and the 64 bytes after the binding are the signer's signature of exactly the
binding bytes sent; nothing from the command line stands in the signed region.
\<close>

theorem signed_then_loaded:
  assumes "sign_main openssl header a = Inr out"
    and "ls_main env (cmd # rest) = Inr (m, r)" "cmd \<in> {''load'', ''load-signed''}"
    and "find (\<lambda>c. le_file env c \<noteq> None)
      (sig_candidates (rest ! 1) (if cmd = ''load'' then None else Some (rest ! 2))) = Some c" "le_file env c = Some out"
  shows "pyslice 16 48 m = sha256 (sg_prog a) \<and>
    pyslice 48 112 m = encode_utf8 (sg_hook a) @ replicate (64 - length (encode_utf8 (sg_hook a))) 0 \<and>
    openssl (pyslice 16 128 m) = (0, pyslice 128 192 m) \<and> le_file env (rest ! 1) = Some (drop 192 m)"
proof -
  obtain prog bd sg where p: "le_file env (rest ! 1) = Some prog" and out: "out = bd @ sg" "length bd = 112" "length sg = 64"
    and m: "drop 16 m = bd @ sg @ prog"
    using load_sent [OF assms(2,3)] assms(4,5) by auto
  obtain mode abi where b: "bd = binding_fields (sha256 (sg_prog a)) (encode_utf8 (sg_hook a)) (sg_build_min a) (sg_build_max a) mode abi (sg_expires a)"
    and len: "length (encode_utf8 (sg_hook a)) < 64" and s: "openssl bd = (0, sg)"
    using signed_artifact [OF assms(1)] out by (auto simp: build_binding_iff)
  have at: "pyslice (16 + i) (16 + j) m = pyslice i j (bd @ sg @ prog)" for i j
    unfolding m [symmetric] by (rule slice_drop)
  have "drop 176 (drop 16 m) = prog" unfolding m using out by simp
  then have "drop 192 m = prog" by simp
  then show ?thesis
    using at [of 0 32] at [of 32 96] at [of 0 112] at [of 112 176] out len s p
    by (simp add: b binding_fields_def pyslice_def)
qed

definition signed_env :: "bytes \<Rightarrow> loader_env" where
  "signed_env out = sample_env\<lparr>le_file := [''p.o'' \<mapsto> ELF_MAGIC, ''p.sig'' \<mapsto> out]\<rparr>"

lemma signed_env_loads:
  assumes "length out = 176"
  shows "\<exists>m. ls_main (signed_env out) [''load'', ''5'', ''p.o''] = Inr (m, ''OK'')"
proof -
  let ?bd = "take 112 out" and ?sg = "drop 112 out"
  have "check_args ''load'' [''5'', ''p.o''] = Inr ()" "parse_int ''5'' = Inr 5"
    "sig_candidates ''p.o'' None = [''p.sig'', ''p.o.sig'']" by code_simp+
  moreover have "read_program (le_file (signed_env out)) ''p.o'' = Inr ELF_MAGIC"
    by (simp add: read_program_def signed_env_def ELF_MAGIC_def)
  moreover have "first_signature (le_file (signed_env out)) [''p.sig'', ''p.o.sig''] = Inr (?bd, ?sg)"
    using assms by (simp add: signed_env_def wire_consts)
  moreover have "\<exists>m. msg 1 5 2 [] ELF_MAGIC None (Some ?bd) (Some ?sg) = Inr m"
    using assms by (simp add: msg_signed msg_ok_def u32_ok_def ELF_MAGIC_def)
  moreover have "rstrip (recv_all [Some [79, 75]] []) = ''OK''" by code_simp
  then have "send (signed_env out) m = Inr ''OK''" for m
    by (simp add: send_def signed_env_def sample_env_def resolve_sock_def)
  ultimately show ?thesis
    by (auto simp: ls_main_plain plain_request_def load_request_def read_signature_def PROGRAM_OPS_def)
qed

theorem signed_then_loaded_witness:
  "\<exists>m. pyslice 16 48 m = sha256 [0x7F, 0x45, 0x4C, 0x46] \<and> take 64 (drop 48 m) = encode_utf8 ''f'' @ replicate 63 0"
proof -
  let ?a = "\<lparr>sg_prog = [0x7F, 0x45, 0x4C, 0x46], sg_hook = ''f'', sg_build_min = 0, sg_build_max = 1,
       sg_mode = ''monitor'', sg_ctx_abi = Some 3, sg_expires = 0\<rparr>"
  let ?out = "binding_fields (sha256 [0x7F, 0x45, 0x4C, 0x46]) (encode_utf8 ''f'') 0 1 1 3 0 @ replicate 64 (7 :: byte)"
  have sig: "sign_main (\<lambda>_. (0, replicate 64 7)) None ?a = Inr ?out"
    by (simp add: sign_main_def MODES_def build_binding_iff [THEN iffD2] fits_def encode_utf8_def encode_char_def sign_def)
  have "length ?out = 176" by (simp add: binding_fields_def encode_utf8_def encode_char_def)
  from signed_env_loads [OF this] obtain m where m: "ls_main (signed_env ?out) [''load'', ''5'', ''p.o''] = Inr (m, ''OK'')" by blast
  have c: "sig_candidates ''p.o'' None = [''p.sig'', ''p.o.sig'']" by code_simp
  from signed_then_loaded [OF sig m, of "''p.sig''"] show ?thesis
    by (auto simp: c signed_env_def pyslice_def drop_take encode_utf8_def encode_char_def)
qed

end
